(* ===== verification/Prelude.thy ===== *)
theory Prelude
  imports Main "HOL-Library.Word" "HOL-Library.Finite_Map"
begin

text \<open>
  The vocabulary every component theory shares: the outcome of a fallible Rust call, the
  machine integers of the release build, byte strings and their big-endian and
  little-endian encodings, finite hash maps, and the lemmas about them that carry the
  component proofs.
\<close>

unbundle bit_operations_syntax

named_theorems outcome_simps \<open>unfolding rules for the outcome combinators\<close>

section \<open>Outcomes of fallible calls\<close>

text \<open>
  A Rust function of type \<open>Result<T, E>\<close> either returns a value, returns an error, or
  panics (an index out of range, an \<open>unwrap\<close> on \<open>None\<close>). The three are kept apart.
\<close>

datatype ('a, 'e) outcome = Ok 'a | Err 'e | Panic

fun and_then :: "('a, 'e) outcome \<Rightarrow> ('a \<Rightarrow> ('b, 'e) outcome) \<Rightarrow> ('b, 'e) outcome" where
  "and_then (Ok v) f = f v"
| "and_then (Err e) f = Err e"
| "and_then Panic f = Panic"

fun map_err :: "('e \<Rightarrow> 'd) \<Rightarrow> ('a, 'e) outcome \<Rightarrow> ('a, 'd) outcome" where
  "map_err g (Ok v) = Ok v"
| "map_err g (Err e) = Err (g e)"
| "map_err g Panic = Panic"

fun ok_or :: "'e \<Rightarrow> 'a option \<Rightarrow> ('a, 'e) outcome" where
  "ok_or e (Some v) = Ok v"
| "ok_or e None = Err e"

fun is_ok :: "('a, 'e) outcome \<Rightarrow> bool" where
  "is_ok (Ok v) = True"
| "is_ok _ = False"

lemma and_then_eq_Ok [outcome_simps]:
  "and_then r f = Ok y \<longleftrightarrow> (\<exists>x. r = Ok x \<and> f x = Ok y)"
  by (cases r) auto

lemma and_then_eq_Panic [outcome_simps]:
  "and_then r f = Panic \<longleftrightarrow> r = Panic \<or> (\<exists>x. r = Ok x \<and> f x = Panic)"
  by (cases r) auto

lemma map_err_eq_Ok [outcome_simps]: "map_err g r = Ok y \<longleftrightarrow> r = Ok y"
  by (cases r) auto

lemma map_err_eq_Panic [outcome_simps]: "map_err g r = Panic \<longleftrightarrow> r = Panic"
  by (cases r) auto

lemma ok_or_eq_Ok [outcome_simps]: "ok_or e x = Ok y \<longleftrightarrow> x = Some y"
  by (cases x) auto

lemma ok_or_not_Panic [outcome_simps, simp]: "ok_or e x \<noteq> Panic"
  by (cases x) auto

lemma is_ok_iff: "is_ok r \<longleftrightarrow> (\<exists>x. r = Ok x)"
  by (cases r) auto

text \<open>Indexing a vector or slice: \<open>v[i]\<close> panics out of range, and so does \<open>v[i] = x\<close>.\<close>

definition vec_get :: "'a list \<Rightarrow> nat \<Rightarrow> ('a, 'e) outcome" where
  "vec_get xs i = (if i < length xs then Ok (xs ! i) else Panic)"

definition vec_set :: "'a list \<Rightarrow> nat \<Rightarrow> 'a \<Rightarrow> ('a list, 'e) outcome" where
  "vec_set xs i x = (if i < length xs then Ok (xs[i := x]) else Panic)"

lemma vec_get_Ok [simp]: "i < length xs \<Longrightarrow> vec_get xs i = Ok (xs ! i)"
  by (simp add: vec_get_def)

lemma vec_set_Ok [simp]: "i < length xs \<Longrightarrow> vec_set xs i x = Ok (xs[i := x])"
  by (simp add: vec_set_def)

lemma vec_get_Panic [simp]: "length xs \<le> i \<Longrightarrow> vec_get xs i = Panic"
  by (simp add: vec_get_def)

section \<open>Machine integers\<close>

text \<open>
  The workspace's release profile does not enable overflow checks, so \<open>+\<close>, \<open>-\<close>,
  \<open>*\<close> and \<open>sum()\<close> on \<open>u64\<close> wrap around; a \<open>64 word\<close> does the same.
  Lengths and indices of in-memory vectors (\<open>usize\<close>) are \<open>nat\<close>.
\<close>

type_synonym u8 = "8 word"
type_synonym u16 = "16 word"
type_synonym u32 = "32 word"
type_synonym u64 = "64 word"
type_synonym bytes = "8 word list"

definition saturating_sub :: "u64 \<Rightarrow> u64 \<Rightarrow> u64" where
  "saturating_sub a b = (if a < b then 0 else a - b)"

lemma unat_saturating_sub: "unat (saturating_sub a b) = unat a - unat b"
  by (auto simp: saturating_sub_def unat_sub_if' word_less_nat_alt word_le_nat_alt)

lemma unat_less_u64: "unat (w :: u64) < 2 ^ 64"
  using unsigned_less [of w, where 'a = nat] by simp

lemma unat_add_u64:
  "unat a + unat b < 2 ^ 64 \<Longrightarrow> unat (a + b :: u64) = unat a + unat b"
  using unat_add_lem [of a b] by simp

lemma unat_mult_u64:
  "unat a * unat b < 2 ^ 64 \<Longrightarrow> unat (a * b :: u64) = unat a * unat b"
  using unat_mult_lem [of a b] by simp

lemma word_add_one_neq [simp]: "(w :: u64) + 1 \<noteq> w"
  by simp

section \<open>Decimal rendering\<close>

text \<open>\<open>format!("{}", n)\<close> of an unsigned integer.\<close>

fun show_nat :: "nat \<Rightarrow> string" where
  "show_nat n =
     (if n < 10 then [char_of (48 + n)]
      else show_nat (n div 10) @ [char_of (48 + n mod 10)])"

declare show_nat.simps [simp del]

abbreviation show_u64 :: "u64 \<Rightarrow> string" where
  "show_u64 w \<equiv> show_nat (unat w)"

section \<open>Byte encodings of words\<close>

definition be_bytes :: "nat \<Rightarrow> 'a::len word \<Rightarrow> bytes" where
  "be_bytes n w = map (\<lambda>i. ucast (drop_bit (8 * i) w)) (rev [0..<n])"

definition le_bytes :: "nat \<Rightarrow> 'a::len word \<Rightarrow> bytes" where
  "le_bytes n w = map (\<lambda>i. ucast (drop_bit (8 * i) w)) [0..<n]"

definition of_be_bytes :: "bytes \<Rightarrow> 'a::len word" where
  "of_be_bytes bs = foldl (\<lambda>acc b. push_bit 8 acc OR ucast b) 0 bs"

lemma length_be_bytes [simp]: "length (be_bytes n w) = n"
  by (simp add: be_bytes_def)

lemma length_le_bytes [simp]: "length (le_bytes n w) = n"
  by (simp add: le_bytes_def)

lemma le_bytes_rev: "le_bytes n w = rev (be_bytes n w)"
  by (simp add: le_bytes_def be_bytes_def rev_map)

lemma be_bytes_Suc: "be_bytes (Suc n) w = ucast (drop_bit (8 * n) w) # be_bytes n w"
  by (simp add: be_bytes_def)

lemma nth_be_bytes:
  "i < n \<Longrightarrow> be_bytes n w ! i = ucast (drop_bit (8 * (n - 1 - i)) w)"
  by (simp add: be_bytes_def rev_nth)

lemma bit_be_bytes:
  assumes "i < n"
  shows "bit (be_bytes n w ! i) k \<longleftrightarrow> k < 8 \<and> bit w (8 * (n - 1 - i) + k)"
  using assms by (simp add: nth_be_bytes bit_ucast_iff bit_drop_bit_eq)

lemma bit_of_be_bytes:
  "bit (of_be_bytes bs :: 'a::len word) k \<longleftrightarrow>
     k < LENGTH('a) \<and> k div 8 < length bs \<and> bit (bs ! (length bs - 1 - k div 8)) (k mod 8)"
proof (induction bs arbitrary: k rule: rev_induct)
  case Nil
  then show ?case by (simp add: of_be_bytes_def)
next
  case (snoc b bs)
  have step: "bit (of_be_bytes (bs @ [b]) :: 'a word) k \<longleftrightarrow>
      (8 \<le> k \<and> k < LENGTH('a) \<and> bit (of_be_bytes bs :: 'a word) (k - 8)) \<or>
      (k < LENGTH('a) \<and> bit b k)"
    by (auto simp: of_be_bytes_def bit_or_iff bit_push_bit_iff bit_ucast_iff)
  show ?case
  proof (cases "k < 8")
    case True
    then show ?thesis by (simp add: step nth_append)
  next
    case False
    then have dm: "(k - 8) div 8 = k div 8 - 1" "(k - 8) mod 8 = k mod 8" "1 \<le> k div 8"
      by (simp_all add: le_div_geq le_mod_geq)
    have nb: "\<not> bit b k"
      using False bit_imp_le_length [of b k] by auto
    have idx: "length bs - k div 8 = length bs - 1 - (k div 8 - 1)"
      using dm(3) by simp
    have lt: "k < LENGTH('a) \<Longrightarrow> k - 8 < LENGTH('a)"
      by simp
    have "bit (of_be_bytes (bs @ [b]) :: 'a word) k \<longleftrightarrow>
        k < LENGTH('a) \<and> k div 8 - 1 < length bs \<and>
        bit (bs ! (length bs - 1 - (k div 8 - 1))) (k mod 8)"
      using False nb lt by (simp only: step snoc.IH dm) auto
    moreover have "k div 8 - 1 < length bs \<longleftrightarrow> k div 8 < length (bs @ [b])"
      using dm(3) by auto
    moreover have "(bs @ [b]) ! (length (bs @ [b]) - 1 - k div 8) = bs ! (length bs - 1 - (k div 8 - 1))"
      if "k div 8 < length (bs @ [b])"
    proof -
      have "length bs - k div 8 < length bs" using dm(3) that by (cases "length bs") auto
      then show ?thesis by (simp add: nth_append flip: idx)
    qed
    ultimately show ?thesis by auto
  qed
qed

lemma of_be_bytes_be_bytes [simp]:
  fixes w :: "'a::len word"
  assumes "LENGTH('a) \<le> 8 * n"
  shows "of_be_bytes (be_bytes n w) = w"
proof (rule bit_word_eqI)
  fix k
  assume "k < LENGTH('a)"
  with assms have k: "k < LENGTH('a)" "k div 8 < n" by simp_all
  then have "n - 1 - (n - 1 - k div 8) = k div 8" by simp
  with k show "bit (of_be_bytes (be_bytes n w) :: 'a word) k = bit w k"
    by (simp add: bit_of_be_bytes bit_be_bytes)
qed

lemma be_bytes_of_be_bytes:
  assumes "length bs = n" and "8 * n \<le> LENGTH('a::len)"
  shows "be_bytes n (of_be_bytes bs :: 'a word) = bs"
proof (rule nth_equalityI)
  show "length (be_bytes n (of_be_bytes bs :: 'a word)) = length bs"
    using assms by simp
next
  fix i
  assume "i < length (be_bytes n (of_be_bytes bs :: 'a word))"
  then have i: "i < n" by simp
  show "be_bytes n (of_be_bytes bs :: 'a word) ! i = bs ! i"
  proof (rule bit_word_eqI)
    fix k
    assume "k < LENGTH(8)"
    then have k: "k < 8" by simp
    let ?j = "8 * (n - 1 - i) + k"
    have "?j < 8 * n" using i k by (cases n) auto
    then have "?j < LENGTH('a)" using assms(2) by simp
    moreover have "?j div 8 = n - 1 - i" "?j mod 8 = k" using k by simp_all
    moreover have "n - 1 - (n - 1 - i) = i" using i by simp
    ultimately show "bit (be_bytes n (of_be_bytes bs :: 'a word) ! i) k = bit (bs ! i) k"
      using i k assms(1) by (simp add: bit_be_bytes bit_of_be_bytes)
  qed
qed

lemma be_bytes_inject:
  fixes v w :: "'a::len word"
  assumes "LENGTH('a) \<le> 8 * n"
  shows "be_bytes n v = be_bytes n w \<longleftrightarrow> v = w"
  by (metis assms of_be_bytes_be_bytes)

section \<open>Hash maps\<close>

text \<open>
  A \<open>HashMap\<close> or \<open>BTreeMap\<close> is a finite map. A \<open>BTreeMap\<close> is iterated in key order;
  a \<open>HashMap\<close> in an order the standard library does not specify, so an operation that
  depends on it takes the enumeration as an argument, of which \<open>enumerates\<close> says
  what the library documents: every entry once.
\<close>

definition enumerates :: "('k \<times> 'v) list \<Rightarrow> ('k, 'v) fmap \<Rightarrow> bool" where
  "enumerates es m \<longleftrightarrow> distinct (map fst es) \<and> fmap_of_list es = m"

definition btree_iter :: "('k::linorder, 'v) fmap \<Rightarrow> ('k \<times> 'v) list" where
  "btree_iter m = map (\<lambda>k. (k, the (fmlookup m k))) (sorted_list_of_fset (fmdom m))"

lemma enumerates_lookup:
  "enumerates es m \<Longrightarrow> fmlookup m k = Some v \<longleftrightarrow> (k, v) \<in> set es"
  by (auto simp: enumerates_def fmlookup_of_list)

lemma enumerates_set: "enumerates es m \<Longrightarrow> set es = {(k, v). fmlookup m k = Some v}"
  by (auto simp: enumerates_lookup)

lemma enumerates_keys: "enumerates es m \<Longrightarrow> set (map fst es) = fset (fmdom m)"
  by (force simp: enumerates_set fmlookup_dom_iff)

lemma enumerates_length: "enumerates es m \<Longrightarrow> length es = fcard (fmdom m)"
proof -
  assume e: "enumerates es m"
  then have "card (set (map fst es)) = length es"
    by (metis enumerates_def distinct_card length_map)
  then show ?thesis by (simp only: enumerates_keys [OF e] fcard.rep_eq)
qed

lemma enumerates_btree_iter: "enumerates (btree_iter m) m"
  unfolding enumerates_def
proof
  show "distinct (map fst (btree_iter m))"
    by (simp add: btree_iter_def comp_def sorted_list_of_fset.rep_eq)
  show "fmap_of_list (btree_iter m) = m"
  proof (rule fmap_ext)
    fix k
    show "fmlookup (fmap_of_list (btree_iter m)) k = fmlookup m k"
    proof (cases "fmlookup m k")
      case None
      then have "k \<notin> set (sorted_list_of_fset (fmdom m))" by (simp add: fmdom_notI)
      then have "map_of (btree_iter m) k = None"
        by (auto simp: map_of_eq_None_iff btree_iter_def)
      with None show ?thesis by (simp add: fmlookup_of_list)
    next
      case (Some v)
      then have "k |\<in>| fmdom m" by (simp add: fmdomI)
      then have "(k, v) \<in> set (btree_iter m)"
        using Some by (force simp: btree_iter_def)
      moreover have "distinct (map fst (btree_iter m))"
        by (simp add: btree_iter_def comp_def sorted_list_of_fset.rep_eq)
      ultimately have "map_of (btree_iter m) k = Some v" by simp
      with Some show ?thesis by (simp add: fmlookup_of_list)
    qed
  qed
qed

lemma btree_iter_fmempty [simp]: "btree_iter fmempty = []"
  by (simp add: btree_iter_def sorted_list_of_fset.rep_eq)

lemma enumerates_Nil [simp]: "enumerates [] m \<longleftrightarrow> m = fmempty"
  by (auto simp: enumerates_def)

lemma btree_iter_Nil: "btree_iter m = [] \<longleftrightarrow> m = fmempty"
  using enumerates_btree_iter [of m] by auto

lemma sorted_btree_iter: "sorted (map fst (btree_iter m))"
  by (simp add: btree_iter_def comp_def sorted_list_of_fset.rep_eq)

lemma btree_iter_hd:
  assumes "btree_iter m = (k, v) # es"
  shows "fmlookup m k = Some v" and "fmlookup m k' \<noteq> None \<Longrightarrow> k \<le> k'"
proof -
  have e: "enumerates ((k, v) # es) m" using enumerates_btree_iter [of m] assms by simp
  show "fmlookup m k = Some v" using enumerates_lookup [OF e, of k v] by simp
  assume "fmlookup m k' \<noteq> None"
  then have "k' \<in> set (map fst (btree_iter m))"
    unfolding enumerates_keys [OF enumerates_btree_iter [of m]] by (auto simp: fmlookup_dom_iff)
  with sorted_btree_iter [of m] show "k \<le> k'" using assms by auto
qed

subsection \<open>Sums over a map's values\<close>

definition fm_sum :: "('v \<Rightarrow> nat) \<Rightarrow> ('k, 'v) fmap \<Rightarrow> nat" where
  "fm_sum f m = (\<Sum>k\<in>fset (fmdom m). f (the (fmlookup m k)))"

definition lookup_default :: "'v \<Rightarrow> ('k, 'v) fmap \<Rightarrow> 'k \<Rightarrow> 'v" where
  "lookup_default d m k = (case fmlookup m k of Some v \<Rightarrow> v | None \<Rightarrow> d)"

lemma lookup_default_fmupd [simp]:
  "lookup_default d (fmupd k v m) j = (if j = k then v else lookup_default d m j)"
  by (simp add: lookup_default_def)

lemma lookup_default_fmempty [simp]: "lookup_default d fmempty k = d"
  by (simp add: lookup_default_def)

lemma fm_sum_empty [simp]: "fm_sum f fmempty = 0"
  by (simp add: fm_sum_def)

text \<open>
  Writing an entry changes the sum by the difference, where an absent entry counts as one
  whose value contributes nothing.
\<close>

lemma fm_sum_fmupd:
  assumes "f d = 0"
  shows "fm_sum f (fmupd k v m) + f (lookup_default d m k) = fm_sum f m + f v"
proof -
  let ?g = "\<lambda>j. f (the (fmlookup m j))"
  let ?D = "fset (fmdom m)"
  have "fm_sum f (fmupd k v m) = (\<Sum>j\<in>insert k (?D - {k}). f (the (fmlookup (fmupd k v m) j)))"
    by (simp add: fm_sum_def)
  also have "\<dots> = f v + (\<Sum>j\<in>?D - {k}. f (the (fmlookup (fmupd k v m) j)))"
    by (subst sum.insert) auto
  also have "(\<Sum>j\<in>?D - {k}. f (the (fmlookup (fmupd k v m) j))) = sum ?g (?D - {k})"
    by (rule sum.cong) auto
  finally have new: "fm_sum f (fmupd k v m) = f v + sum ?g (?D - {k})" .
  have old: "fm_sum f m = f (lookup_default d m k) + sum ?g (?D - {k})"
  proof (cases "fmlookup m k")
    case None
    then have "k \<notin> ?D" by (simp add: fmdom_notI)
    with None assms show ?thesis by (simp add: fm_sum_def lookup_default_def)
  next
    case (Some u)
    then have "k \<in> ?D" by (simp add: fmdomI)
    then have "sum ?g ?D = ?g k + sum ?g (?D - {k})"
      by (simp add: sum.remove)
    with Some show ?thesis by (simp add: fm_sum_def lookup_default_def)
  qed
  from new old show ?thesis by simp
qed

lemma fm_sum_fmupd_same:
  "f d = 0 \<Longrightarrow> f v = f (lookup_default d m k) \<Longrightarrow> fm_sum f (fmupd k v m) = fm_sum f m"
  using fm_sum_fmupd [of f d k v m] by simp

lemma fcard_fmdom_fmupd:
  "fcard (fmdom (fmupd k v m)) = (if k |\<in>| fmdom m then fcard (fmdom m) else Suc (fcard (fmdom m)))"
  by (simp add: fcard_finsert_if)

lemma fcard_fmdom_fmdrop:
  "fcard (fmdom (fmdrop k m)) = (if k |\<in>| fmdom m then fcard (fmdom m) - 1 else fcard (fmdom m))"
  by (simp add: fcard.rep_eq card_Diff_singleton_if)

lemma fcard_fmdrop_less:
  assumes "fmlookup m k = Some v"
  shows "fcard (fmdom (fmdrop k m)) < fcard (fmdom m)"
proof -
  have "k \<in> fset (fmdom m)" using assms by (simp add: fmdomI)
  then have "fset (fmdom m) - {k} \<subset> fset (fmdom m)" by blast
  then have "card (fset (fmdom m) - {k}) < card (fset (fmdom m))" by (intro psubset_card_mono) simp
  then show ?thesis by (simp add: fcard.rep_eq)
qed

subsection \<open>Sums over the support of a function\<close>

definition support_sum :: "('k \<Rightarrow> nat) \<Rightarrow> nat" where
  "support_sum f = (\<Sum>k | f k \<noteq> 0. f k)"

lemma support_sum_superset:
  assumes "finite A" and "{k. f k \<noteq> 0} \<subseteq> A"
  shows "support_sum f = sum f A"
  unfolding support_sum_def using assms by (intro sum.mono_neutral_left) auto

lemma finite_support_upd: "finite {k. f k \<noteq> (0::nat)} \<Longrightarrow> finite {k. (f(a := x)) k \<noteq> 0}"
  by (rule finite_subset [of _ "insert a {k. f k \<noteq> 0}"]) auto

lemma support_sum_upd:
  assumes "finite {k. f k \<noteq> 0}"
  shows "support_sum (f(a := x)) + f a = support_sum f + x"
proof -
  let ?A = "insert a {k. f k \<noteq> 0}"
  have fin: "finite ?A" using assms by simp
  have "support_sum (f(a := x)) = sum (f(a := x)) ?A"
    by (rule support_sum_superset [OF fin]) auto
  moreover have "support_sum f = sum f ?A"
    by (rule support_sum_superset [OF fin]) auto
  moreover have "sum (f(a := x)) (?A - {a}) = sum f (?A - {a})" by (rule sum.cong) auto
  ultimately show ?thesis using sum.remove [OF fin, of a f] sum.remove [OF fin, of a "f(a := x)"] by simp
qed

lemma fm_sum_support:
  assumes "f d = 0"
  shows "fm_sum f m = support_sum (\<lambda>k. f (lookup_default d m k))"
    and "finite {k. f (lookup_default d m k) \<noteq> 0}"
proof -
  have sub: "{k. f (lookup_default d m k) \<noteq> 0} \<subseteq> fset (fmdom m)"
    using assms by (auto simp: lookup_default_def fmdomI split: option.splits)
  then show "finite {k. f (lookup_default d m k) \<noteq> 0}" by (rule finite_subset) simp
  have "fm_sum f m = (\<Sum>k\<in>fset (fmdom m). f (lookup_default d m k))"
    unfolding fm_sum_def
    by (rule sum.cong) (auto simp: lookup_default_def fmlookup_dom_iff)
  then show "fm_sum f m = support_sum (\<lambda>k. f (lookup_default d m k))"
    using support_sum_superset [OF _ sub] by simp
qed

end
