(* ===== verification/Crypto.thy ===== *)
theory Crypto
  imports Prelude
begin

text \<open>
  The \<open>blockchain-crypto\<close> crate: hashes and addresses (\<open>hash.rs\<close>, \<open>keypair.rs\<close>),
  signatures and key pairs (\<open>signature.rs\<close>, \<open>keypair.rs\<close>). The digest algorithms and
  the signature schemes come from third-party crates (sha2, sha3, blake3, ed25519-dalek,
  secp256k1); they are the fields of the record \<open>crypto_lib\<close>, an argument of every
  definition that calls them.
\<close>

datatype CryptoError =
    InvalidSignature
  | InvalidPublicKey
  | InvalidSecretKey
  | InvalidHash
  | SerializationError string
  | DeserializationError string
  | RngError
  | MerkleError string

section \<open>Hashes and addresses\<close>

text \<open>
  A \<open>Hash([u8; 32])\<close> is a 256-bit word and an \<open>Address([u8; 20])\<close> a 160-bit word, most
  significant byte first. The derived lexicographic order of the byte arrays is then the
  order of the words.
\<close>

type_synonym hash = "256 word"
type_synonym address = "160 word"

definition HASH_SIZE :: nat where
  "HASH_SIZE = 32"

datatype HashAlgorithm = Sha256 | Sha3_256 | Blake3

datatype SignatureScheme = Ed25519 | Secp256k1

text \<open>
  What the third-party crates supply. Parsers of keys and signatures are the predicates
  \<open>..._ok\<close> on their byte strings.
\<close>

record crypto_lib =
  sha256 :: "bytes \<Rightarrow> hash"
  sha3_256 :: "bytes \<Rightarrow> hash"
  blake3 :: "bytes \<Rightarrow> hash"
  ed25519_sig_ok :: "bytes \<Rightarrow> bool"
  ed25519_pk_ok :: "bytes \<Rightarrow> bool"
  ed25519_sign :: "bytes \<Rightarrow> bytes \<Rightarrow> bytes"
  ed25519_verify :: "bytes \<Rightarrow> bytes \<Rightarrow> bytes \<Rightarrow> bool"
  secp256k1_sig_ok :: "bytes \<Rightarrow> bool"
  secp256k1_pk_ok :: "bytes \<Rightarrow> bool"
  secp256k1_sk_ok :: "bytes \<Rightarrow> bool"
  secp256k1_sign :: "bytes \<Rightarrow> bytes \<Rightarrow> bytes"
  secp256k1_verify :: "bytes \<Rightarrow> bytes \<Rightarrow> bytes \<Rightarrow> bool"

definition hash_zero :: hash where
  "hash_zero = 0"

definition hash_as_bytes :: "hash \<Rightarrow> bytes" where
  "hash_as_bytes h = be_bytes HASH_SIZE h"

definition hash_new :: "bytes \<Rightarrow> hash" where
  "hash_new bs = of_be_bytes bs"

definition hash_from_slice :: "bytes \<Rightarrow> (hash, CryptoError) outcome" where
  "hash_from_slice bs =
     (if length bs \<noteq> HASH_SIZE then Err InvalidHash else Ok (hash_new bs))"

definition hash_with :: "crypto_lib \<Rightarrow> HashAlgorithm \<Rightarrow> bytes \<Rightarrow> hash" where
  "hash_with L algorithm data =
     (case algorithm of
        Sha256 \<Rightarrow> sha256 L data
      | Sha3_256 \<Rightarrow> sha3_256 L data
      | Blake3 \<Rightarrow> blake3 L data)"

definition hash_bytes :: "crypto_lib \<Rightarrow> bytes \<Rightarrow> hash" where
  "hash_bytes L data = hash_with L Sha256 data"

definition double_hash :: "crypto_lib \<Rightarrow> bytes \<Rightarrow> hash" where
  "double_hash L data = (let first = hash_bytes L data in hash_bytes L (hash_as_bytes first))"

definition address_new :: "bytes \<Rightarrow> address" where
  "address_new bs = of_be_bytes bs"

definition address_as_bytes :: "address \<Rightarrow> bytes" where
  "address_as_bytes a = be_bytes 20 a"

definition address_zero :: address where
  "address_zero = 0"

lemma length_hash_as_bytes [simp]: "length (hash_as_bytes h) = 32"
  by (simp add: hash_as_bytes_def HASH_SIZE_def)

lemma length_address_as_bytes [simp]: "length (address_as_bytes a) = 20"
  by (simp add: address_as_bytes_def)

lemma hash_as_bytes_inject [simp]: "hash_as_bytes g = hash_as_bytes h \<longleftrightarrow> g = h"
  by (simp add: hash_as_bytes_def HASH_SIZE_def be_bytes_inject)

lemma address_as_bytes_inject [simp]: "address_as_bytes a = address_as_bytes b \<longleftrightarrow> a = b"
  by (simp add: address_as_bytes_def be_bytes_inject)

lemma hash_from_slice_as_bytes: "hash_from_slice (hash_as_bytes h) = Ok h"
  by (simp add: hash_from_slice_def hash_new_def hash_as_bytes_def HASH_SIZE_def)

lemma hash_from_slice_Ok:
  "hash_from_slice bs = Ok h \<longleftrightarrow> bs = hash_as_bytes h"
proof
  assume "hash_from_slice bs = Ok h"
  then have "length bs = 32" "h = of_be_bytes bs"
    by (auto simp: hash_from_slice_def hash_new_def HASH_SIZE_def split: if_splits)
  then show "bs = hash_as_bytes h"
    by (simp add: hash_as_bytes_def HASH_SIZE_def be_bytes_of_be_bytes)
qed (simp add: hash_from_slice_as_bytes)

section \<open>Public keys, secret keys, signatures\<close>

record PublicKey =
  pk_scheme :: SignatureScheme
  pk_bytes :: bytes

record SecretKey =
  sk_scheme :: SignatureScheme
  sk_bytes :: bytes

record Signature =
  sig_scheme :: SignatureScheme
  sig_bytes :: bytes

record KeyPair =
  kp_scheme :: SignatureScheme
  kp_public :: PublicKey
  kp_secret :: SecretKey

definition address_from_public_key :: "crypto_lib \<Rightarrow> PublicKey \<Rightarrow> address" where
  "address_from_public_key L pk =
     (let h = hash_bytes L (pk_bytes pk)
      in address_new (take 20 (drop 12 (hash_as_bytes h))))"

definition verify_ed25519 ::
    "crypto_lib \<Rightarrow> Signature \<Rightarrow> bytes \<Rightarrow> PublicKey \<Rightarrow> (bool, CryptoError) outcome" where
  "verify_ed25519 L sg message pk =
     (if \<not> ed25519_sig_ok L (sig_bytes sg) then Err InvalidSignature
      else if length (pk_bytes pk) \<noteq> 32 then Err InvalidPublicKey
      else if \<not> ed25519_pk_ok L (pk_bytes pk) then Err InvalidPublicKey
      else Ok (ed25519_verify L (pk_bytes pk) message (sig_bytes sg)))"

definition verify_secp256k1 ::
    "crypto_lib \<Rightarrow> Signature \<Rightarrow> bytes \<Rightarrow> PublicKey \<Rightarrow> (bool, CryptoError) outcome" where
  "verify_secp256k1 L sg message pk =
     (if \<not> secp256k1_sig_ok L (sig_bytes sg) then Err InvalidSignature
      else if \<not> secp256k1_pk_ok L (pk_bytes pk) then Err InvalidPublicKey
      else let msg_hash = hash_bytes L message
           in Ok (secp256k1_verify L (pk_bytes pk) (hash_as_bytes msg_hash) (sig_bytes sg)))"

definition signature_verify ::
    "crypto_lib \<Rightarrow> Signature \<Rightarrow> bytes \<Rightarrow> PublicKey \<Rightarrow> (bool, CryptoError) outcome" where
  "signature_verify L sg message pk =
     (if sig_scheme sg \<noteq> pk_scheme pk then Ok False
      else case sig_scheme sg of
        Ed25519 \<Rightarrow> verify_ed25519 L sg message pk
      | Secp256k1 \<Rightarrow> verify_secp256k1 L sg message pk)"

definition public_key_verify ::
    "crypto_lib \<Rightarrow> PublicKey \<Rightarrow> bytes \<Rightarrow> Signature \<Rightarrow> (bool, CryptoError) outcome" where
  "public_key_verify L pk message sg = signature_verify L sg message pk"

definition keypair_from_keys :: "PublicKey \<Rightarrow> SecretKey \<Rightarrow> (KeyPair, CryptoError) outcome" where
  "keypair_from_keys pk sk =
     (if pk_scheme pk \<noteq> sk_scheme sk then Err InvalidSecretKey
      else Ok \<lparr>kp_scheme = pk_scheme pk, kp_public = pk, kp_secret = sk\<rparr>)"

definition sign_ed25519 :: "crypto_lib \<Rightarrow> KeyPair \<Rightarrow> bytes \<Rightarrow> (Signature, CryptoError) outcome" where
  "sign_ed25519 L kp message =
     (let sk = sk_bytes (kp_secret kp)
      in if length sk \<noteq> 32 then Err InvalidSecretKey
         else Ok \<lparr>sig_scheme = Ed25519, sig_bytes = ed25519_sign L sk message\<rparr>)"

definition sign_secp256k1 :: "crypto_lib \<Rightarrow> KeyPair \<Rightarrow> bytes \<Rightarrow> (Signature, CryptoError) outcome" where
  "sign_secp256k1 L kp message =
     (let sk = sk_bytes (kp_secret kp)
      in if \<not> secp256k1_sk_ok L sk then Err InvalidSecretKey
         else let msg_hash = hash_bytes L message
              in Ok \<lparr>sig_scheme = Secp256k1,
                    sig_bytes = secp256k1_sign L sk (hash_as_bytes msg_hash)\<rparr>)"

definition keypair_sign :: "crypto_lib \<Rightarrow> KeyPair \<Rightarrow> bytes \<Rightarrow> (Signature, CryptoError) outcome" where
  "keypair_sign L kp message =
     (case kp_scheme kp of
        Ed25519 \<Rightarrow> sign_ed25519 L kp message
      | Secp256k1 \<Rightarrow> sign_secp256k1 L kp message)"

text \<open>
  What the two schemes document about a matching pair of keys: the keys parse, a
  signature made with the secret key parses, and it verifies under the public key.
\<close>

definition ed25519_pair :: "crypto_lib \<Rightarrow> bytes \<Rightarrow> bytes \<Rightarrow> bool" where
  "ed25519_pair L pk sk \<longleftrightarrow>
     length pk = 32 \<and> length sk = 32 \<and> ed25519_pk_ok L pk \<and>
     (\<forall>m. ed25519_sig_ok L (ed25519_sign L sk m) \<and> ed25519_verify L pk m (ed25519_sign L sk m))"

definition secp256k1_pair :: "crypto_lib \<Rightarrow> bytes \<Rightarrow> bytes \<Rightarrow> bool" where
  "secp256k1_pair L pk sk \<longleftrightarrow>
     secp256k1_pk_ok L pk \<and> secp256k1_sk_ok L sk \<and>
     (\<forall>d. secp256k1_sig_ok L (secp256k1_sign L sk d) \<and>
          secp256k1_verify L pk d (secp256k1_sign L sk d))"

definition matching_keys :: "crypto_lib \<Rightarrow> PublicKey \<Rightarrow> SecretKey \<Rightarrow> bool" where
  "matching_keys L pk sk \<longleftrightarrow> pk_scheme pk = sk_scheme sk \<and>
     (case pk_scheme pk of
        Ed25519 \<Rightarrow> ed25519_pair L (pk_bytes pk) (sk_bytes sk)
      | Secp256k1 \<Rightarrow> secp256k1_pair L (pk_bytes pk) (sk_bytes sk))"

lemma keypair_sign_verifies:
  assumes m: "matching_keys L pk sk" and kp: "keypair_from_keys pk sk = Ok kp"
  obtains sg where "keypair_sign L kp msg = Ok sg"
    and "public_key_verify L pk msg sg = Ok True"
proof (cases "pk_scheme pk")
  case Ed25519
  with m kp have "keypair_sign L kp msg =
      Ok \<lparr>sig_scheme = Ed25519, sig_bytes = ed25519_sign L (sk_bytes sk) msg\<rparr>"
    by (auto simp: matching_keys_def keypair_from_keys_def keypair_sign_def sign_ed25519_def
        ed25519_pair_def Let_def)
  moreover from m Ed25519 have "public_key_verify L pk msg
      \<lparr>sig_scheme = Ed25519, sig_bytes = ed25519_sign L (sk_bytes sk) msg\<rparr> = Ok True"
    by (simp add: matching_keys_def public_key_verify_def signature_verify_def
        verify_ed25519_def ed25519_pair_def)
  ultimately show thesis by (rule that)
next
  case Secp256k1
  let ?d = "hash_as_bytes (hash_bytes L msg)"
  from m kp Secp256k1 have "keypair_sign L kp msg =
      Ok \<lparr>sig_scheme = Secp256k1, sig_bytes = secp256k1_sign L (sk_bytes sk) ?d\<rparr>"
    by (auto simp: matching_keys_def keypair_from_keys_def keypair_sign_def sign_secp256k1_def
        secp256k1_pair_def Let_def)
  moreover from m Secp256k1 have "public_key_verify L pk msg
      \<lparr>sig_scheme = Secp256k1, sig_bytes = secp256k1_sign L (sk_bytes sk) ?d\<rparr> = Ok True"
    by (simp add: matching_keys_def public_key_verify_def signature_verify_def
        verify_secp256k1_def secp256k1_pair_def)
  ultimately show thesis by (rule that)
qed

text \<open>
  A small executable instance of the third-party functions, on which the hypotheses about
  them are shown to be satisfiable: the digest is made of the length and the first byte, and a signature
  is the message itself, framed by the key.
\<close>

definition demo_digest :: "bytes \<Rightarrow> hash" where
  "demo_digest bs = of_nat (length bs) * 256 + (case bs of [] \<Rightarrow> 0 | b # _ \<Rightarrow> ucast b)"

definition demo_lib :: crypto_lib where
  "demo_lib = \<lparr>sha256 = demo_digest, sha3_256 = demo_digest, blake3 = demo_digest,
     ed25519_sig_ok = (\<lambda>s. 32 \<le> length s), ed25519_pk_ok = (\<lambda>p. length p = 32),
     ed25519_sign = (\<lambda>k m. k @ m), ed25519_verify = (\<lambda>p m s. s = p @ m),
     secp256k1_sig_ok = (\<lambda>s. 32 \<le> length s), secp256k1_pk_ok = (\<lambda>p. length p = 32),
     secp256k1_sk_ok = (\<lambda>k. length k = 32),
     secp256k1_sign = (\<lambda>k m. k @ m), secp256k1_verify = (\<lambda>p m s. s = p @ m)\<rparr>"

lemma demo_matching_keys:
  "length k = 32 \<Longrightarrow>
     matching_keys demo_lib \<lparr>pk_scheme = s, pk_bytes = k\<rparr> \<lparr>sk_scheme = s, sk_bytes = k\<rparr>"
  by (cases s) (simp_all add: matching_keys_def ed25519_pair_def secp256k1_pair_def demo_lib_def)

lemma hash_bytes_demo_lib: "hash_bytes demo_lib = demo_digest"
  by (simp add: fun_eq_iff hash_bytes_def hash_with_def demo_lib_def)

lemma demo_digest_pair:
  "demo_digest (hash_as_bytes g @ bs) = of_nat (32 + length bs) * 256 + ucast (ucast (drop_bit 248 g) :: u8)"
proof -
  have "hash_as_bytes g = ucast (drop_bit 248 g) # be_bytes 31 g"
    using be_bytes_Suc [of 31 g] by (simp add: hash_as_bytes_def HASH_SIZE_def)
  then show ?thesis by (simp add: demo_digest_def)
qed

lemma public_key_verify_scheme:
  "public_key_verify L pk msg sg = Ok True \<Longrightarrow> sig_scheme sg = pk_scheme pk"
  by (auto simp: public_key_verify_def signature_verify_def split: if_splits)

text \<open>The last 20 bytes of a hash are its low 160 bits.\<close>

lemma address_of_hash: "address_new (take 20 (drop 12 (hash_as_bytes h))) = ucast h"
proof (rule bit_word_eqI)
  fix k
  assume "k < LENGTH(160)"
  then have k: "k < 160" "k div 8 < 20" by simp_all
  have i: "12 + (19 - k div 8) < 32" "31 - (12 + (19 - k div 8)) = k div 8"
    using k by simp_all
  have "take 20 (drop 12 (hash_as_bytes h)) ! (19 - k div 8) = hash_as_bytes h ! (12 + (19 - k div 8))"
    using k by (simp add: nth_drop)
  then have "bit (take 20 (drop 12 (hash_as_bytes h)) ! (19 - k div 8)) (k mod 8) = bit h k"
    using i bit_be_bytes [of "12 + (19 - k div 8)" 32 h "k mod 8"]
    by (simp add: hash_as_bytes_def HASH_SIZE_def)
  with k show "bit (address_new (take 20 (drop 12 (hash_as_bytes h)))) k = bit (ucast h :: address) k"
    by (simp add: address_new_def bit_of_be_bytes bit_ucast_iff)
qed

lemma address_from_public_key_ucast:
  "address_from_public_key L pk = ucast (hash_bytes L (pk_bytes pk))"
  unfolding address_from_public_key_def Let_def by (rule address_of_hash)

end
