(* ===== verification/Transaction.thy ===== *)
theory Transaction
  imports Crypto
begin

text \<open>
  \<open>types.rs\<close>, the error type of \<open>lib.rs\<close> and \<open>transaction.rs\<close> of the
  \<open>blockchain-core\<close> crate: amounts, transactions, their hashing, signing and basic
  validation. The bincode encoder is third-party code and is the argument \<open>enc\<close>.
\<close>

section \<open>Core types\<close>

type_synonym BlockNumber = u64
type_synonym Nonce = u64
type_synonym GasPrice = u64
type_synonym Gas = u64
type_synonym Timestamp = u64

text \<open>
  \<open>Amount\<close> wraps a \<open>BigUint\<close>: a natural number. Its \<open>-\<close> operator panics on underflow.
\<close>

type_synonym Amount = nat
type_synonym StakeAmount = nat

definition amount_zero :: Amount where
  "amount_zero = 0"

definition amount_from_u64 :: "u64 \<Rightarrow> Amount" where
  "amount_from_u64 value = unat value"

definition amount_from_tokens :: "u64 \<Rightarrow> Amount" where
  "amount_from_tokens tokens = unat tokens * 10 ^ 18"

definition amount_is_zero :: "Amount \<Rightarrow> bool" where
  "amount_is_zero a \<longleftrightarrow> a = 0"

definition amount_checked_add :: "Amount \<Rightarrow> Amount \<Rightarrow> Amount option" where
  "amount_checked_add a b = Some (a + b)"

definition amount_checked_sub :: "Amount \<Rightarrow> Amount \<Rightarrow> Amount option" where
  "amount_checked_sub a b = (if a < b then None else Some (a - b))"

definition amount_add :: "Amount \<Rightarrow> Amount \<Rightarrow> Amount" where
  "amount_add a b = a + b"

definition amount_sub :: "Amount \<Rightarrow> Amount \<Rightarrow> (Amount, 'e) outcome" where
  "amount_sub a b = (if a < b then Panic else Ok (a - b))"

type_synonym UtilityScore = u64

definition utility_score_new :: "u64 \<Rightarrow> UtilityScore" where
  "utility_score_new value = value"

definition utility_score_zero :: UtilityScore where
  "utility_score_zero = 0"

definition utility_score_value :: "UtilityScore \<Rightarrow> u64" where
  "utility_score_value s = s"

datatype BlockchainError =
    InvalidBlock string
  | InvalidTransaction string
  | InvalidChain string
  | StateError string
  | InsufficientBalance
  | NonceMismatch
  | BlockNotFound hash
  | TransactionNotFound hash
  | CryptoErr CryptoError
  | SerializationError string
  | DuplicateTransaction hash
  | PoolFull
  | ForkDetected string
  | ReorgTooDeep u64
  | GasLimitExceeded
  | InvalidSignature

section \<open>Transactions\<close>

datatype TransactionType =
    Transfer address Amount
  | Stake StakeAmount
  | Unstake StakeAmount
  | DeployLiquidity u64 Amount
  | WithdrawLiquidity u64 Amount
  | ContractDeployment bytes bytes
  | ContractCall address bytes

record Transaction =
  tx_from :: address
  tx_nonce :: Nonce
  tx_type :: TransactionType
  tx_gas_price :: GasPrice
  tx_gas_limit :: Gas
  tx_timestamp :: Timestamp
  tx_signature :: "Signature option"

type_synonym tx_encoder = "Transaction \<Rightarrow> bytes"

definition transaction_new ::
    "Timestamp \<Rightarrow> address \<Rightarrow> Nonce \<Rightarrow> TransactionType \<Rightarrow> GasPrice \<Rightarrow> Gas \<Rightarrow> Transaction" where
  "transaction_new now from nonce ty gas_price gas_limit =
     \<lparr>tx_from = from, tx_nonce = nonce, tx_type = ty, tx_gas_price = gas_price,
      tx_gas_limit = gas_limit, tx_timestamp = now, tx_signature = None\<rparr>"

definition transaction_hash :: "crypto_lib \<Rightarrow> tx_encoder \<Rightarrow> Transaction \<Rightarrow> hash" where
  "transaction_hash L enc tx = hash_bytes L (enc tx)"

definition hash_for_signing :: "crypto_lib \<Rightarrow> tx_encoder \<Rightarrow> Transaction \<Rightarrow> hash" where
  "hash_for_signing L enc tx =
     (let tx_copy = tx\<lparr>tx_signature := None\<rparr> in hash_bytes L (enc tx_copy))"

definition transaction_sign ::
    "crypto_lib \<Rightarrow> tx_encoder \<Rightarrow> Transaction \<Rightarrow> KeyPair \<Rightarrow> (unit, BlockchainError) outcome \<times> Transaction" where
  "transaction_sign L enc tx keypair =
     (let h = hash_for_signing L enc tx in
      case keypair_sign L keypair (hash_as_bytes h) of
        Ok signature \<Rightarrow> (Ok (), tx\<lparr>tx_signature := Some signature\<rparr>)
      | Err e \<Rightarrow> (Err (CryptoErr e), tx)
      | Panic \<Rightarrow> (Panic, tx))"

definition verify_signature ::
    "crypto_lib \<Rightarrow> tx_encoder \<Rightarrow> Transaction \<Rightarrow> PublicKey \<Rightarrow> (bool, BlockchainError) outcome" where
  "verify_signature L enc tx pk =
     and_then (ok_or (InvalidTransaction ''Missing signature'') (tx_signature tx)) (\<lambda>signature.
       let h = hash_for_signing L enc tx
       in map_err CryptoErr (public_key_verify L pk (hash_as_bytes h) signature))"

definition calculate_fee :: "Transaction \<Rightarrow> Gas \<Rightarrow> Amount" where
  "calculate_fee tx gas_used = amount_from_u64 (gas_used * tx_gas_price tx)"

definition validate_type :: "TransactionType \<Rightarrow> (unit, BlockchainError) outcome" where
  "validate_type ty =
     (case ty of
        Transfer _ amount \<Rightarrow>
          if amount_is_zero amount then Err (InvalidTransaction ''Transfer amount cannot be zero'') else Ok ()
      | Stake amount \<Rightarrow>
          if amount_is_zero amount then Err (InvalidTransaction ''Stake amount cannot be zero'') else Ok ()
      | Unstake amount \<Rightarrow>
          if amount_is_zero amount then Err (InvalidTransaction ''Unstake amount cannot be zero'') else Ok ()
      | DeployLiquidity _ amount \<Rightarrow>
          if amount_is_zero amount then Err (InvalidTransaction ''Liquidity amount cannot be zero'') else Ok ()
      | WithdrawLiquidity _ amount \<Rightarrow>
          if amount_is_zero amount then Err (InvalidTransaction ''Withdrawal amount cannot be zero'') else Ok ()
      | ContractDeployment bytecode _ \<Rightarrow>
          if bytecode = [] then Err (InvalidTransaction ''Contract bytecode cannot be empty'') else Ok ()
      | ContractCall _ data \<Rightarrow>
          if data = [] then Err (InvalidTransaction ''Contract call data cannot be empty'') else Ok ())"

definition validate_basic :: "Transaction \<Rightarrow> (unit, BlockchainError) outcome" where
  "validate_basic tx =
     (if tx_signature tx = None then Err (InvalidTransaction ''Missing signature'')
      else if tx_gas_limit tx = 0 then Err (InvalidTransaction ''Gas limit cannot be zero'')
      else if tx_gas_price tx = 0 then Err (InvalidTransaction ''Gas price cannot be zero'')
      else validate_type (tx_type tx))"

definition recipient :: "Transaction \<Rightarrow> address option" where
  "recipient tx =
     (case tx_type tx of
        Transfer to _ \<Rightarrow> Some to
      | ContractCall contract _ \<Rightarrow> Some contract
      | _ \<Rightarrow> None)"

definition tx_value :: "Transaction \<Rightarrow> Amount" where
  "tx_value tx =
     (case tx_type tx of
        Transfer _ amount \<Rightarrow> amount
      | Stake amount \<Rightarrow> amount
      | Unstake amount \<Rightarrow> amount
      | DeployLiquidity _ amount \<Rightarrow> amount
      | WithdrawLiquidity _ amount \<Rightarrow> amount
      | _ \<Rightarrow> amount_zero)"

datatype ExecutionStatus = Success | Failed | Reverted

record Log =
  log_address :: address
  log_topics :: "hash list"
  log_data :: bytes

record TransactionReceipt =
  rc_tx_hash :: hash
  rc_block_number :: BlockNumber
  rc_from :: address
  rc_to :: "address option"
  rc_gas_used :: Gas
  rc_status :: ExecutionStatus
  rc_contract_address :: "address option"
  rc_logs :: "Log list"

section \<open>Lemmas\<close>

lemmas amount_defs = amount_zero_def amount_is_zero_def amount_checked_add_def amount_checked_sub_def
  amount_from_u64_def

text \<open>The content of a transaction that its type must carry.\<close>

definition type_payload_ok :: "TransactionType \<Rightarrow> bool" where
  "type_payload_ok ty =
     (case ty of
        ContractDeployment bytecode _ \<Rightarrow> bytecode \<noteq> []
      | ContractCall _ data \<Rightarrow> data \<noteq> []
      | Transfer _ n \<Rightarrow> 0 < n | Stake n \<Rightarrow> 0 < n | Unstake n \<Rightarrow> 0 < n
      | DeployLiquidity _ n \<Rightarrow> 0 < n | WithdrawLiquidity _ n \<Rightarrow> 0 < n)"

lemma validate_type_Ok: "validate_type ty = Ok () \<longleftrightarrow> type_payload_ok ty"
  by (cases ty) (auto simp: validate_type_def type_payload_ok_def amount_is_zero_def)

lemma validate_type_not_Panic [simp]: "validate_type ty \<noteq> Panic"
  by (cases ty) (auto simp: validate_type_def)

lemma validate_basic_Ok:
  "validate_basic tx = Ok () \<longleftrightarrow>
     tx_signature tx \<noteq> None \<and> tx_gas_limit tx \<noteq> 0 \<and> tx_gas_price tx \<noteq> 0 \<and> type_payload_ok (tx_type tx)"
  by (simp add: validate_basic_def validate_type_Ok)

lemma validate_basic_not_Panic [simp]: "validate_basic tx \<noteq> Panic"
  by (simp add: validate_basic_def)

lemma validate_basic_cases:
  obtains "validate_basic tx = Ok ()" | e where "validate_basic tx = Err e"
  by (cases "validate_basic tx") auto

lemma hash_for_signing_signature [simp]:
  "hash_for_signing L enc (tx\<lparr>tx_signature := s\<rparr>) = hash_for_signing L enc tx"
  by (simp add: hash_for_signing_def)

section \<open>Properties\<close>

text \<open>Signing round trip: for a matching pair of keys \<open>sign\<close> succeeds and changes only
  the signature field, and \<open>verify_signature\<close> then accepts the transaction under the
  public key, since the signed digest leaves the signature out.\<close>

lemma transaction_sign_verifies:
  assumes "matching_keys L pk sk" and "keypair_from_keys pk sk = Ok kp"
  shows "\<exists>sg. transaction_sign L enc tx kp = (Ok (), tx\<lparr>tx_signature := Some sg\<rparr>) \<and>
    verify_signature L enc (tx\<lparr>tx_signature := Some sg\<rparr>) pk = Ok True"
proof -
  obtain sg where "keypair_sign L kp (hash_as_bytes (hash_for_signing L enc tx)) = Ok sg"
    "public_key_verify L pk (hash_as_bytes (hash_for_signing L enc tx)) sg = Ok True"
    using assms by (rule keypair_sign_verifies)
  then show ?thesis
    by (intro exI [of _ sg]) (simp add: transaction_sign_def verify_signature_def)
qed

lemma transaction_sign_verifies_witness:
  "\<exists>kp sg. keypair_from_keys \<lparr>pk_scheme = Ed25519, pk_bytes = replicate 32 7\<rparr>
        \<lparr>sk_scheme = Ed25519, sk_bytes = replicate 32 7\<rparr> = Ok kp \<and>
     transaction_sign demo_lib (\<lambda>t. [ucast (tx_nonce t)]) (transaction_new 5 1 0 (Stake 9) 1 21000) kp =
       (Ok (), (transaction_new 5 1 0 (Stake 9) 1 21000)\<lparr>tx_signature := Some sg\<rparr>) \<and>
     verify_signature demo_lib (\<lambda>t. [ucast (tx_nonce t)])
       ((transaction_new 5 1 0 (Stake 9) 1 21000)\<lparr>tx_signature := Some sg\<rparr>)
       \<lparr>pk_scheme = Ed25519, pk_bytes = replicate 32 7\<rparr> = Ok True"
proof -
  have k: "length (replicate 32 7 :: bytes) = 32" by simp
  note m = demo_matching_keys [OF k, of Ed25519]
  obtain kp where kp: "keypair_from_keys \<lparr>pk_scheme = Ed25519, pk_bytes = replicate 32 7\<rparr>
        \<lparr>sk_scheme = Ed25519, sk_bytes = replicate 32 7\<rparr> = Ok kp"
    by (simp add: keypair_from_keys_def)
  then show ?thesis
    using transaction_sign_verifies [OF m kp] by blast
qed

end
