(* ===== verification/Interfaces.thy ===== *)
theory Interfaces
  imports Prelude
begin

text \<open>
  The contracts several components share. A journalled store undoes everything written
  since its last checkpoint; a token ledger moves tokens between accounts. The lemmas
  proved here from the laws alone hold of every provider.
\<close>

section \<open>A store with checkpoints\<close>

locale journalled_store =
  fixes checkpoint :: "'s \<Rightarrow> 's"
    and commit :: "'s \<Rightarrow> 's"
    and rollback :: "'s \<Rightarrow> 's"
    and put :: "'o \<Rightarrow> 's \<Rightarrow> 's"
    and content :: "'s \<Rightarrow> 'c"
    and journal :: "'s \<Rightarrow> 'j"
  assumes rollback_checkpoint: "rollback (checkpoint s) = s"
    and rollback_put: "rollback (put p s) = rollback s"
    and content_commit: "content (commit s) = content s"
    and journal_commit_checkpoint: "journal (commit (checkpoint s)) = journal s"
    and journal_commit_put: "journal (commit (put p s)) = journal (commit s)"
begin

definition put_all :: "'o list \<Rightarrow> 's \<Rightarrow> 's" where
  "put_all ps s = fold put ps s"

lemma rollback_put_all: "rollback (put_all ps s) = rollback s"
  by (induction ps arbitrary: s) (auto simp: put_all_def rollback_put)

lemma rollback_restores: "rollback (put_all ps (checkpoint s)) = s"
  by (simp add: rollback_put_all rollback_checkpoint)

lemma journal_commit_put_all: "journal (commit (put_all ps s)) = journal (commit s)"
  by (induction ps arbitrary: s) (auto simp: put_all_def journal_commit_put)

lemma commit_keeps_outer_journal: "journal (commit (put_all ps (checkpoint s))) = journal s"
  by (simp add: journal_commit_put_all journal_commit_checkpoint)

lemma commit_keeps_content: "content (commit (put_all ps (checkpoint s))) = content (put_all ps (checkpoint s))"
  by (rule content_commit)

end

section \<open>A token ledger\<close>

text \<open>
  The laws describe the code as it is, transfers to oneself included: both providers read
  the two balances before they write either, so the second write wins.
\<close>

locale token_ledger =
  fixes bal :: "'s \<Rightarrow> 'a \<Rightarrow> nat"
    and total :: "'s \<Rightarrow> nat"
    and transfer :: "'s \<Rightarrow> 'a \<Rightarrow> 'a \<Rightarrow> nat \<Rightarrow> (unit, 'e) outcome \<times> 's"
    and insufficient :: 'e
  assumes transfer_moves: "n \<le> bal s a \<Longrightarrow> a \<noteq> b \<Longrightarrow> fst (transfer s a b n) = Ok () \<and>
      bal (snd (transfer s a b n)) = (bal s)(a := bal s a - n, b := bal s b + n)"
    and transfer_self: "n \<le> bal s a \<Longrightarrow> fst (transfer s a a n) = Ok () \<and>
      bal (snd (transfer s a a n)) = (bal s)(a := bal s a + n)"
    and transfer_refused: "bal s a < n \<Longrightarrow> transfer s a b n = (Err insufficient, s)"
    and finite_support: "finite {k. bal s k \<noteq> 0}"
    and total_sum: "total s = (\<Sum>k | bal s k \<noteq> 0. bal s k)"
begin

lemma transfer_Ok_iff: "fst (transfer s a b n) = Ok () \<longleftrightarrow> n \<le> bal s a"
  using transfer_moves [of n s a b] transfer_self [of n s a] transfer_refused [of s a n b]
  by (cases "a = b"; cases "n \<le> bal s a") auto

lemma transfer_never_panics: "fst (transfer s a b n) \<noteq> Panic"
  using transfer_moves [of n s a b] transfer_self [of n s a] transfer_refused [of s a n b]
  by (cases "a = b"; cases "n \<le> bal s a") auto

lemma total_conserved:
  assumes "a \<noteq> b"
  shows "total (snd (transfer s a b n)) = total s"
proof (cases "n \<le> bal s a")
  case True
  have "(bal s)(a := bal s a - n, b := bal s b + n) = bal (snd (transfer s a b n))"
    using transfer_moves [OF True assms] by simp
  moreover have "support_sum ((bal s)(a := bal s a - n)) + bal s a = support_sum (bal s) + (bal s a - n)"
    by (rule support_sum_upd) (rule finite_support)
  moreover have "support_sum ((bal s)(a := bal s a - n, b := bal s b + n)) + bal s b =
      support_sum ((bal s)(a := bal s a - n)) + (bal s b + n)"
    using support_sum_upd [where f = "(bal s)(a := bal s a - n)" and a = b and x = "bal s b + n"]
      finite_support_upd [OF finite_support, of s a "bal s a - n"] assms
    by (simp del: fun_upd_apply add: fun_upd_other)
  ultimately show ?thesis using True by (simp add: total_sum support_sum_def)
next
  case False
  then show ?thesis using transfer_refused [of s a n b] by simp
qed

lemma total_self:
  assumes "n \<le> bal s a"
  shows "total (snd (transfer s a a n)) = total s + n"
  using transfer_self [OF assms] support_sum_upd [OF finite_support, of s a "bal s a + n"]
  by (simp add: total_sum support_sum_def)

fun transfers :: "('a \<times> 'a \<times> nat) list \<Rightarrow> 's \<Rightarrow> 's" where
  "transfers [] s = s"
| "transfers ((a, b, n) # ts) s = transfers ts (snd (transfer s a b n))"

lemma total_transfers: "\<forall>(a, b, n) \<in> set ts. a \<noteq> b \<Longrightarrow> total (transfers ts s) = total s"
  by (induction ts s rule: transfers.induct) (auto simp: total_conserved)

end

section \<open>A bounded cache\<close>

text \<open>
  A cache may forget entries but never answers with an outdated one. \<open>peek\<close> is the
  content, \<open>get\<close> the operation, which may reorder the cache.
\<close>

datatype ('k, 'v) cache_op = Get_op 'k | Put_op 'k 'v

locale bounded_cache =
  fixes ok :: "'s \<Rightarrow> bool"
    and peek :: "'s \<Rightarrow> 'k \<Rightarrow> 'v option"
    and get :: "'s \<Rightarrow> 'k \<Rightarrow> 'v option \<times> 's"
    and put :: "'s \<Rightarrow> 'k \<Rightarrow> 'v \<Rightarrow> 's"
    and entries :: "'s \<Rightarrow> nat"
    and bound :: "'s \<Rightarrow> nat"
  assumes get_result: "ok s \<Longrightarrow> fst (get s k) = peek s k"
    and get_keeps: "ok s \<Longrightarrow> ok (snd (get s k)) \<and> peek (snd (get s k)) = peek s \<and> bound (snd (get s k)) = bound s"
    and put_keeps: "ok s \<Longrightarrow> ok (put s k v) \<and> bound (put s k v) = bound s"
    and put_stores: "ok s \<Longrightarrow> peek (put s k v) k = Some v"
    and put_other: "ok s \<Longrightarrow> j \<noteq> k \<Longrightarrow> peek (put s k v) j = Some u \<Longrightarrow> peek s j = Some u"
    and entries_bound: "ok s \<Longrightarrow> entries s \<le> bound s"
begin

primrec step :: "('k, 'v) cache_op \<Rightarrow> 's \<Rightarrow> 's" where
  "step (Get_op k) s = snd (get s k)"
| "step (Put_op k v) s = put s k v"

primrec written :: "('k, 'v) cache_op \<Rightarrow> ('k \<Rightarrow> 'v option) \<Rightarrow> 'k \<Rightarrow> 'v option" where
  "written (Get_op k) m = m"
| "written (Put_op k v) m = m(k := Some v)"

definition coherent :: "'s \<Rightarrow> ('k \<Rightarrow> 'v option) \<Rightarrow> bool" where
  "coherent s m \<longleftrightarrow> (\<forall>k v. peek s k = Some v \<longrightarrow> m k = Some v)"

lemma step_keeps: "ok s \<Longrightarrow> ok (step p s) \<and> bound (step p s) = bound s"
  by (cases p) (simp_all add: get_keeps put_keeps)

lemma step_coherent: "ok s \<Longrightarrow> coherent s m \<Longrightarrow> coherent (step p s) (written p m)"
proof (cases p)
  case (Put_op k v)
  assume "ok s" "coherent s m"
  then show ?thesis
    using put_stores [of s k v] put_other [of s _ k v] by (auto simp: coherent_def Put_op)
qed (auto simp: coherent_def get_keeps)

lemma run_keeps: "ok s \<Longrightarrow> ok (fold step ps s) \<and> bound (fold step ps s) = bound s"
  by (induction ps arbitrary: s) (auto simp: step_keeps)

lemma run_coherent: "ok s \<Longrightarrow> coherent s m \<Longrightarrow> coherent (fold step ps s) (fold written ps m)"
  by (induction ps arbitrary: s m) (auto simp: step_keeps step_coherent)

lemma run_get:
  "ok s \<Longrightarrow> coherent s m \<Longrightarrow> fst (get (fold step ps s) k) = Some v \<Longrightarrow> fold written ps m k = Some v"
  using run_coherent [of s m ps] run_keeps [of s ps] get_result by (auto simp: coherent_def)

lemma run_bound: "ok s \<Longrightarrow> entries (fold step ps s) \<le> bound s"
  using run_keeps [of s ps] entries_bound by metis

end

section \<open>State machines\<close>

text \<open>
  A component driven by calls in any order: what holds at the start and survives every
  call holds in every state it reaches, and a quantity no call lowers only grows.
\<close>

locale invariant_machine =
  fixes init :: "'s \<Rightarrow> bool"
    and step :: "'s \<Rightarrow> 's \<Rightarrow> bool"
    and inv :: "'s \<Rightarrow> bool"
  assumes init_inv: "init s \<Longrightarrow> inv s"
    and step_inv: "inv s \<Longrightarrow> step s t \<Longrightarrow> inv t"
begin

lemma run_inv: "step\<^sup>*\<^sup>* s t \<Longrightarrow> inv s \<Longrightarrow> inv t"
  by (induction rule: rtranclp_induct) (auto intro: step_inv)

lemma reachable_inv: "init s \<Longrightarrow> step\<^sup>*\<^sup>* s t \<Longrightarrow> inv t"
  by (rule run_inv [OF _ init_inv])

end

locale monotone_machine =
  fixes step :: "'s \<Rightarrow> 's \<Rightarrow> bool"
    and level :: "'s \<Rightarrow> nat"
  assumes step_mono: "step s t \<Longrightarrow> level s \<le> level t"
begin

lemma run_mono: "step\<^sup>*\<^sup>* s t \<Longrightarrow> level s \<le> level t"
  by (induction rule: rtranclp_induct) (auto intro: order_trans step_mono)

end

end
