(* ===== verification/World_State.thy ===== *)
theory World_State
  imports Transaction Interfaces
begin

text \<open>
  \<open>state.rs\<close> of \<open>blockchain-core\<close>: accounts, the world state and its undo journal.
  The journal is the source's \<open>modifications\<close> vector with its last element first.
\<close>

section \<open>Accounts\<close>

record Account =
  acc_nonce :: Nonce
  acc_balance :: Amount
  acc_staked :: StakeAmount
  acc_liquidity_deployed :: Amount
  acc_utility_score :: UtilityScore
  acc_code_hash :: "hash option"
  acc_storage_root :: "hash option"

definition account_new :: Account where
  "account_new = \<lparr>acc_nonce = 0, acc_balance = amount_zero, acc_staked = amount_zero,
     acc_liquidity_deployed = amount_zero, acc_utility_score = utility_score_zero,
     acc_code_hash = None, acc_storage_root = None\<rparr>"

definition account_with_balance :: "Amount \<Rightarrow> Account" where
  "account_with_balance b = account_new\<lparr>acc_balance := b\<rparr>"

definition is_validator :: "Account \<Rightarrow> bool" where
  "is_validator acc \<longleftrightarrow> \<not> amount_is_zero (acc_staked acc)"

definition account_is_contract :: "Account \<Rightarrow> bool" where
  "account_is_contract acc \<longleftrightarrow> acc_code_hash acc \<noteq> None"

definition increment_nonce :: "Account \<Rightarrow> Account" where
  "increment_nonce acc = acc\<lparr>acc_nonce := acc_nonce acc + 1\<rparr>"

text \<open>
  The fallible account methods return the updated account. None of them changes a field
  before its last failing test, so an error leaves the account as it was.
\<close>

definition add_balance :: "Account \<Rightarrow> Amount \<Rightarrow> (Account, BlockchainError) outcome" where
  "add_balance acc amount =
     and_then (ok_or (StateError ''Balance overflow'') (amount_checked_add (acc_balance acc) amount))
       (\<lambda>b. Ok (acc\<lparr>acc_balance := b\<rparr>))"

definition sub_balance :: "Account \<Rightarrow> Amount \<Rightarrow> (Account, BlockchainError) outcome" where
  "sub_balance acc amount =
     and_then (ok_or InsufficientBalance (amount_checked_sub (acc_balance acc) amount))
       (\<lambda>b. Ok (acc\<lparr>acc_balance := b\<rparr>))"

definition stake :: "Account \<Rightarrow> StakeAmount \<Rightarrow> (Account, BlockchainError) outcome" where
  "stake acc amount =
     and_then (sub_balance acc amount) (\<lambda>acc.
     and_then (ok_or (StateError ''Stake overflow'') (amount_checked_add (acc_staked acc) amount))
       (\<lambda>s. Ok (acc\<lparr>acc_staked := s\<rparr>)))"

definition unstake :: "Account \<Rightarrow> StakeAmount \<Rightarrow> (Account, BlockchainError) outcome" where
  "unstake acc amount =
     (if acc_staked acc < amount then Err (StateError ''Insufficient stake'')
      else case amount_checked_sub (acc_staked acc) amount of
             None \<Rightarrow> Panic
           | Some s \<Rightarrow> add_balance (acc\<lparr>acc_staked := s\<rparr>) amount)"

definition deploy_liquidity :: "Account \<Rightarrow> Amount \<Rightarrow> (Account, BlockchainError) outcome" where
  "deploy_liquidity acc amount =
     (if acc_staked acc < amount then Err (StateError ''Cannot deploy more liquidity than staked'')
      else and_then (ok_or (StateError ''Liquidity deployment overflow'')
                       (amount_checked_add (acc_liquidity_deployed acc) amount))
             (\<lambda>l. Ok (acc\<lparr>acc_liquidity_deployed := l\<rparr>)))"

definition withdraw_liquidity :: "Account \<Rightarrow> Amount \<Rightarrow> (Account, BlockchainError) outcome" where
  "withdraw_liquidity acc amount =
     and_then (ok_or (StateError ''Insufficient liquidity deployed'')
                 (amount_checked_sub (acc_liquidity_deployed acc) amount))
       (\<lambda>l. Ok (acc\<lparr>acc_liquidity_deployed := l\<rparr>))"

lemmas account_ops = add_balance_def sub_balance_def stake_def unstake_def deploy_liquidity_def
  withdraw_liquidity_def increment_nonce_def amount_defs

section \<open>The world state\<close>

datatype StateModification = Checkpoint | AccountSet address "Account option"

record WorldState =
  accounts :: "(address, Account) fmap"
  modifications :: "StateModification list"

definition ws_new :: WorldState where
  "ws_new = \<lparr>accounts = fmempty, modifications = []\<rparr>"

definition ws_get_account :: "WorldState \<Rightarrow> address \<Rightarrow> Account" where
  "ws_get_account w a = lookup_default account_new (accounts w) a"

definition ws_get_balance :: "WorldState \<Rightarrow> address \<Rightarrow> Amount" where
  "ws_get_balance w a =
     (case fmlookup (accounts w) a of Some acc \<Rightarrow> acc_balance acc | None \<Rightarrow> amount_zero)"

definition ws_get_nonce :: "WorldState \<Rightarrow> address \<Rightarrow> Nonce" where
  "ws_get_nonce w a = (case fmlookup (accounts w) a of Some acc \<Rightarrow> acc_nonce acc | None \<Rightarrow> 0)"

text \<open>The backwards search of \<open>record_account_modification\<close>, up to the last checkpoint.\<close>

fun recorded :: "address \<Rightarrow> StateModification list \<Rightarrow> bool" where
  "recorded a [] = False"
| "recorded a (Checkpoint # ms) = False"
| "recorded a (AccountSet b old # ms) = (if b = a then True else recorded a ms)"

definition record_account_modification :: "WorldState \<Rightarrow> address \<Rightarrow> WorldState" where
  "record_account_modification w a =
     (if recorded a (modifications w) then w
      else w\<lparr>modifications := AccountSet a (fmlookup (accounts w) a) # modifications w\<rparr>)"

text \<open>
  \<open>get_account_mut\<close> journals the account and makes sure it exists; a write through the
  reference it returns is \<open>ws_store\<close>.
\<close>

definition ws_get_account_mut :: "WorldState \<Rightarrow> address \<Rightarrow> WorldState" where
  "ws_get_account_mut w a =
     (let w = record_account_modification w a in
      case fmlookup (accounts w) a of
        Some _ \<Rightarrow> w
      | None \<Rightarrow> w\<lparr>accounts := fmupd a account_new (accounts w)\<rparr>)"

definition ws_store :: "WorldState \<Rightarrow> address \<Rightarrow> Account \<Rightarrow> WorldState" where
  "ws_store w a acc = w\<lparr>accounts := fmupd a acc (accounts w)\<rparr>"

definition ws_update_mut ::
    "WorldState \<Rightarrow> address \<Rightarrow> (Account \<Rightarrow> (Account, BlockchainError) outcome)
      \<Rightarrow> (unit, BlockchainError) outcome \<times> WorldState" where
  "ws_update_mut w a f =
     (let w = ws_get_account_mut w a in
      case f (ws_get_account w a) of
        Ok acc \<Rightarrow> (Ok (), ws_store w a acc)
      | Err e \<Rightarrow> (Err e, w)
      | Panic \<Rightarrow> (Panic, w))"

definition ws_set_account :: "WorldState \<Rightarrow> address \<Rightarrow> Account \<Rightarrow> WorldState" where
  "ws_set_account w a acc =
     (let w = record_account_modification w a in w\<lparr>accounts := fmupd a acc (accounts w)\<rparr>)"

definition ws_transfer ::
    "WorldState \<Rightarrow> address \<Rightarrow> address \<Rightarrow> Amount \<Rightarrow> (unit, BlockchainError) outcome \<times> WorldState" where
  "ws_transfer w from to amount =
     (let from_account = ws_get_account w from; to_account = ws_get_account w to in
      if acc_balance from_account < amount then (Err InsufficientBalance, w)
      else case sub_balance from_account amount of
             Ok new_from \<Rightarrow>
               (case add_balance to_account amount of
                  Ok new_to \<Rightarrow> (Ok (), ws_set_account (ws_set_account w from new_from) to new_to)
                | Err e \<Rightarrow> (Err e, w)
                | Panic \<Rightarrow> (Panic, w))
           | Err e \<Rightarrow> (Err e, w)
           | Panic \<Rightarrow> (Panic, w))"

definition state_root_of :: "crypto_lib \<Rightarrow> (Account \<Rightarrow> bytes) \<Rightarrow> (address \<times> Account) list \<Rightarrow> hash" where
  "state_root_of L enc es =
     (let sorted_accounts = sort_key fst es;
          combined = concat (map (\<lambda>(addr, account). address_as_bytes addr @ enc account) sorted_accounts)
      in if combined = [] then hash_zero else hash_bytes L combined)"

definition ws_state_root :: "crypto_lib \<Rightarrow> (Account \<Rightarrow> bytes) \<Rightarrow> WorldState \<Rightarrow> hash" where
  "ws_state_root L enc w = state_root_of L enc (btree_iter (accounts w))"

definition ws_checkpoint :: "WorldState \<Rightarrow> WorldState" where
  "ws_checkpoint w = w\<lparr>modifications := Checkpoint # modifications w\<rparr>"

fun commit_loop :: "StateModification list \<Rightarrow> StateModification list" where
  "commit_loop [] = []"
| "commit_loop (Checkpoint # ms) = ms"
| "commit_loop (AccountSet a old # ms) = commit_loop ms"

definition ws_commit :: "WorldState \<Rightarrow> WorldState" where
  "ws_commit w = w\<lparr>modifications := commit_loop (modifications w)\<rparr>"

fun rollback_loop ::
    "(address, Account) fmap \<Rightarrow> StateModification list
      \<Rightarrow> (address, Account) fmap \<times> StateModification list" where
  "rollback_loop accs [] = (accs, [])"
| "rollback_loop accs (Checkpoint # ms) = (accs, ms)"
| "rollback_loop accs (AccountSet a old # ms) =
     rollback_loop (case old of Some acc \<Rightarrow> fmupd a acc accs | None \<Rightarrow> fmdrop a accs) ms"

definition ws_rollback :: "WorldState \<Rightarrow> WorldState" where
  "ws_rollback w =
     (let (accs, ms) = rollback_loop (accounts w) (modifications w)
      in w\<lparr>accounts := accs, modifications := ms\<rparr>)"

section \<open>Lemmas: reads and writes\<close>

lemma ws_get_balance_account: "ws_get_balance w a = acc_balance (ws_get_account w a)"
  by (simp add: ws_get_balance_def ws_get_account_def lookup_default_def account_new_def split: option.splits)

lemma ws_get_nonce_account: "ws_get_nonce w a = acc_nonce (ws_get_account w a)"
  by (simp add: ws_get_nonce_def ws_get_account_def lookup_default_def account_new_def split: option.splits)

lemma ws_get_account_record [simp]:
  "ws_get_account (record_account_modification w a) = ws_get_account w"
  by (simp add: fun_eq_iff record_account_modification_def ws_get_account_def)

lemma ws_get_account_mut_get [simp]: "ws_get_account (ws_get_account_mut w a) = ws_get_account w"
  by (simp add: fun_eq_iff ws_get_account_mut_def ws_get_account_def lookup_default_def
      record_account_modification_def split: option.splits)

lemma ws_get_account_store [simp]: "ws_get_account (ws_store w a acc) = (ws_get_account w)(a := acc)"
  by (simp add: fun_eq_iff ws_store_def ws_get_account_def)

lemma ws_get_account_set [simp]: "ws_get_account (ws_set_account w a acc) = (ws_get_account w)(a := acc)"
  by (simp add: fun_eq_iff ws_set_account_def ws_get_account_def record_account_modification_def)

lemma ws_get_account_checkpoint [simp]: "ws_get_account (ws_checkpoint w) = ws_get_account w"
  by (simp add: fun_eq_iff ws_checkpoint_def ws_get_account_def)

lemma modifications_checkpoint [simp]: "modifications (ws_checkpoint w) = Checkpoint # modifications w"
  by (simp add: ws_checkpoint_def)

lemma ws_get_account_commit [simp]: "ws_get_account (ws_commit w) = ws_get_account w"
  by (simp add: fun_eq_iff ws_commit_def ws_get_account_def)

lemma ws_update_mut_Ok:
  "f (ws_get_account w a) = Ok acc \<Longrightarrow>
     ws_update_mut w a f = (Ok (), ws_store (ws_get_account_mut w a) a acc)"
  by (simp add: ws_update_mut_def)

lemma fst_ws_update_mut:
  "fst (ws_update_mut w a f) = and_then (f (ws_get_account w a)) (\<lambda>_. Ok ())"
  by (simp add: ws_update_mut_def Let_def split: outcome.splits)

lemma ws_get_account_update_mut:
  "ws_get_account (snd (ws_update_mut w a f)) =
     (case f (ws_get_account w a) of Ok acc \<Rightarrow> (ws_get_account w)(a := acc) | _ \<Rightarrow> ws_get_account w)"
  by (simp add: ws_update_mut_def Let_def split: outcome.splits)

section \<open>Lemmas: the journal\<close>

lemma rollback_loop_agree:
  assumes "recorded a ms" and "\<And>b. b \<noteq> a \<Longrightarrow> fmlookup m b = fmlookup n b"
  shows "rollback_loop m ms = rollback_loop n ms"
  using assms
proof (induction a ms arbitrary: m n rule: recorded.induct)
  case (3 a b old ms)
  show ?case
  proof (cases "b = a")
    case True
    have "(case old of Some acc \<Rightarrow> fmupd a acc m | None \<Rightarrow> fmdrop a m) =
        (case old of Some acc \<Rightarrow> fmupd a acc n | None \<Rightarrow> fmdrop a n)"
      using "3.prems"(2) by (auto intro!: fmap_ext split: option.splits)
    with True show ?thesis by simp
  next
    case False
    then show ?thesis
      using "3.prems" by (auto intro!: "3.IH" split: option.splits)
  qed
qed simp_all

lemma ws_rollback_store_recorded:
  assumes "recorded a (modifications w)"
  shows "ws_rollback (w\<lparr>accounts := fmupd a acc (accounts w)\<rparr>) = ws_rollback w"
  using rollback_loop_agree [OF assms, of "fmupd a acc (accounts w)" "accounts w"]
  by (simp add: ws_rollback_def)

lemma recorded_after_record [simp]: "recorded a (modifications (record_account_modification w a))"
  by (simp add: record_account_modification_def)

lemma ws_rollback_record [simp]: "ws_rollback (record_account_modification w a) = ws_rollback w"
proof -
  have "(case fmlookup (accounts w) a of Some acc \<Rightarrow> fmupd a acc (accounts w)
      | None \<Rightarrow> fmdrop a (accounts w)) = accounts w"
    by (auto intro!: fmap_ext split: option.splits)
  then show ?thesis by (simp add: record_account_modification_def ws_rollback_def)
qed

lemma ws_rollback_set_account [simp]: "ws_rollback (ws_set_account w a acc) = ws_rollback w"
  using ws_rollback_store_recorded [OF recorded_after_record [of a w], of acc]
  by (simp add: ws_set_account_def Let_def)

lemma ws_rollback_get_account_mut [simp]: "ws_rollback (ws_get_account_mut w a) = ws_rollback w"
  using ws_rollback_store_recorded [OF recorded_after_record [of a w], of account_new]
  by (simp add: ws_get_account_mut_def Let_def split: option.splits)

lemma recorded_after_get_account_mut [simp]: "recorded a (modifications (ws_get_account_mut w a))"
  using recorded_after_record [of a w]
  by (simp add: ws_get_account_mut_def Let_def split: option.splits)

lemma ws_rollback_update_mut [simp]: "ws_rollback (snd (ws_update_mut w a f)) = ws_rollback w"
  using ws_rollback_store_recorded [OF recorded_after_get_account_mut [of a w]]
  by (simp add: ws_update_mut_def ws_store_def Let_def split: outcome.splits)

lemma ws_rollback_checkpoint [simp]: "ws_rollback (ws_checkpoint w) = w"
  by (simp add: ws_rollback_def ws_checkpoint_def)

lemma ws_rollback_transfer [simp]: "ws_rollback (snd (ws_transfer w a b n)) = ws_rollback w"
  by (simp add: ws_transfer_def Let_def split: outcome.splits)

lemma commit_loop_record [simp]:
  "commit_loop (modifications (record_account_modification w a)) = commit_loop (modifications w)"
  by (simp add: record_account_modification_def)

lemma commit_loop_set_account [simp]:
  "commit_loop (modifications (ws_set_account w a acc)) = commit_loop (modifications w)"
  by (simp add: ws_set_account_def Let_def)

lemma commit_loop_get_account_mut [simp]:
  "commit_loop (modifications (ws_get_account_mut w a)) = commit_loop (modifications w)"
  by (simp add: ws_get_account_mut_def Let_def split: option.splits)

lemma commit_loop_update_mut [simp]:
  "commit_loop (modifications (snd (ws_update_mut w a f))) = commit_loop (modifications w)"
  by (simp add: ws_update_mut_def ws_store_def Let_def split: outcome.splits)

lemma commit_loop_transfer [simp]:
  "commit_loop (modifications (snd (ws_transfer w a b n))) = commit_loop (modifications w)"
  by (simp add: ws_transfer_def Let_def split: outcome.splits)

text \<open>The ways the rest of the code writes to the state, as one operation.\<close>

datatype ws_write =
    SetAccount address Account
  | MutAccount address "Account \<Rightarrow> (Account, BlockchainError) outcome"
  | TransferTokens address address Amount

fun ws_apply :: "ws_write \<Rightarrow> WorldState \<Rightarrow> WorldState" where
  "ws_apply (SetAccount a acc) w = ws_set_account w a acc"
| "ws_apply (MutAccount a f) w = snd (ws_update_mut w a f)"
| "ws_apply (TransferTokens a b n) w = snd (ws_transfer w a b n)"

lemma ws_rollback_apply: "ws_rollback (ws_apply p w) = ws_rollback w"
  by (cases p) simp_all

lemma commit_loop_apply: "commit_loop (modifications (ws_apply p w)) = commit_loop (modifications w)"
  by (cases p) simp_all

text \<open>A write, or a scope: a checkpoint, further operations, and a rollback to it.\<close>

datatype ws_op = Write ws_write | Scope "ws_op list"

fun ws_do :: "ws_op \<Rightarrow> WorldState \<Rightarrow> WorldState" where
  "ws_do (Write p) w = ws_apply p w"
| "ws_do (Scope ops) w = ws_rollback (fold ws_do ops (ws_checkpoint w))"

lemma ws_rollback_do: "ws_rollback (ws_do op w) = ws_rollback w"
proof (induction op arbitrary: w)
  case (Scope ops)
  have "ws_rollback (fold ws_do ops v) = ws_rollback v" for v
    using Scope by (induction ops arbitrary: v) simp_all
  then show ?case by simp
qed (simp add: ws_rollback_apply)

text \<open>A scope leaves no trace.\<close>

lemma ws_do_Scope: "ws_do (Scope ops) w = w"
proof -
  have "ws_rollback (fold ws_do ops v) = ws_rollback v" for v
    by (induction ops arbitrary: v) (simp_all add: ws_rollback_do)
  then show ?thesis by simp
qed

lemma commit_loop_do: "commit_loop (modifications (ws_do op w)) = commit_loop (modifications w)"
proof (cases op)
  case (Scope ops)
  then show ?thesis by (simp only: ws_do_Scope)
qed (simp add: commit_loop_apply)

interpretation wj: journalled_store ws_checkpoint ws_commit ws_rollback ws_do accounts modifications
proof unfold_locales
  fix s p
  show "ws_rollback (ws_checkpoint s) = s" by simp
  show "ws_rollback (ws_do p s) = ws_rollback s" by (rule ws_rollback_do)
  show "accounts (ws_commit s) = accounts s" by (simp add: ws_commit_def)
  show "modifications (ws_commit (ws_checkpoint s)) = modifications s"
    by (simp add: ws_commit_def ws_checkpoint_def)
  show "modifications (ws_commit (ws_do p s)) = modifications (ws_commit s)"
    by (simp add: ws_commit_def commit_loop_do)
qed

text \<open>Without a checkpoint in between, a rollback touches only the accounts with an entry in the journal, and what it gives
  them depends on the journal alone.\<close>

lemma rollback_loop_unrecorded: "\<not> recorded a ms \<Longrightarrow> fmlookup (fst (rollback_loop m ms)) a = fmlookup m a"
  by (induction a ms arbitrary: m rule: recorded.induct) (auto split: option.splits if_splits)

lemma rollback_loop_recorded:
  "recorded a ms \<Longrightarrow> fmlookup (fst (rollback_loop m ms)) a = fmlookup (fst (rollback_loop n ms)) a"
proof (induction ms arbitrary: m n)
  case (Cons x ms)
  show ?case
  proof (cases x)
    case (AccountSet b old)
    let ?put = "\<lambda>m. case old of Some acc \<Rightarrow> fmupd b acc m | None \<Rightarrow> fmdrop b m"
    have put: "rollback_loop m (x # ms) = rollback_loop (?put m) ms" for m by (simp add: AccountSet)
    show ?thesis
    proof (cases "recorded a ms")
      case True
      show ?thesis unfolding put by (rule Cons.IH [OF True])
    next
      case False
      then have "b = a" using Cons.prems AccountSet by (auto split: if_splits)
      then show ?thesis unfolding put using False by (auto simp: rollback_loop_unrecorded split: option.splits)
    qed
  qed (use Cons.prems in simp)
qed simp

lemma accounts_rollback: "accounts (ws_rollback w) = fst (rollback_loop (accounts w) (modifications w))"
  by (simp add: ws_rollback_def split: prod.splits)

section \<open>Lemmas: transfers and the token ledger\<close>

definition ws_total_balance :: "WorldState \<Rightarrow> nat" where
  "ws_total_balance w = fm_sum acc_balance (accounts w)"

lemma ws_transfer_enough:
  assumes "n \<le> ws_get_balance w a"
  shows "ws_transfer w a b n = (Ok (),
    ws_set_account (ws_set_account w a ((ws_get_account w a)\<lparr>acc_balance := ws_get_balance w a - n\<rparr>)) b
      ((ws_get_account w b)\<lparr>acc_balance := ws_get_balance w b + n\<rparr>))"
  using assms by (simp add: ws_transfer_def account_ops ws_get_balance_account Let_def)

lemma ws_transfer_refused:
  "ws_get_balance w a < n \<Longrightarrow> ws_transfer w a b n = (Err InsufficientBalance, w)"
  by (simp add: ws_transfer_def ws_get_balance_account Let_def)

lemma ws_transfer_not_Panic: "fst (ws_transfer w a b n) \<noteq> Panic"
  by (cases "n \<le> ws_get_balance w a") (simp_all add: ws_transfer_enough ws_transfer_refused)

lemma ws_get_account_transfer:
  "n \<le> ws_get_balance w a \<Longrightarrow> ws_get_account (snd (ws_transfer w a b n)) =
     (ws_get_account w)(a := (ws_get_account w a)\<lparr>acc_balance := ws_get_balance w a - n\<rparr>,
       b := (ws_get_account w b)\<lparr>acc_balance := ws_get_balance w b + n\<rparr>)"
  by (simp add: ws_transfer_enough)

interpretation wl: token_ledger ws_get_balance ws_total_balance ws_transfer InsufficientBalance
proof unfold_locales
  have d: "acc_balance account_new = 0" by (simp add: account_new_def amount_zero_def)
  have bal: "ws_get_balance w = (\<lambda>k. acc_balance (lookup_default account_new (accounts w) k))" for w
    by (simp add: fun_eq_iff ws_get_balance_account ws_get_account_def)
  fix w :: WorldState
  show "finite {k. ws_get_balance w k \<noteq> 0}"
    unfolding bal by (rule fm_sum_support(2) [where f = acc_balance, OF d])
  show "ws_total_balance w = (\<Sum>k | ws_get_balance w k \<noteq> 0. ws_get_balance w k)"
    unfolding bal ws_total_balance_def fm_sum_support(1) [where f = acc_balance, OF d] support_sum_def ..
qed (auto simp: ws_transfer_enough ws_transfer_refused ws_get_balance_account fun_eq_iff)

section \<open>Lemmas: the state root\<close>

lemma sort_key_enumerates:
  assumes "enumerates es m"
  shows "sort_key fst es = btree_iter m"
proof (rule map_sorted_distinct_set_unique [of fst])
  have e: "distinct (map fst es)" "set es = set (btree_iter m)"
    using assms enumerates_btree_iter [of m] by (simp_all add: enumerates_def enumerates_set)
  show "sorted (map fst (sort_key fst es))" by simp
  show "distinct (map fst (sort_key fst es))"
    using e(1) by (metis distinct_map distinct_sort set_sort)
  show "sorted (map fst (btree_iter m))" "distinct (map fst (btree_iter m))"
    by (simp_all add: btree_iter_def comp_def sorted_list_of_fset.rep_eq)
  show "set (sort_key fst es) = set (btree_iter m)" using e(2) by simp
  show "inj_on fst (set (sort_key fst es) \<union> set (btree_iter m))"
    using e by (simp add: distinct_map)
qed

section \<open>Properties\<close>

text \<open>C5. Rollback: whatever is written after a checkpoint (accounts set, accounts mutated
  in place, transfers, whether they succeed or fail, and inner checkpoints with what follows them and their own
  rollback, nested to any depth), \<open>rollback\<close> restores the state of the
  checkpoint exactly, accounts and journal; and \<open>commit\<close> keeps what was written and leaves
  the journal as it was before the checkpoint. Inner checkpoints that are committed are not covered: the
  next lemma shows that they survive.\<close>

theorem ws_rollback_restores:
  "ws_rollback (fold ws_do ops (ws_checkpoint w)) = w \<and>
   accounts (ws_commit (fold ws_do ops (ws_checkpoint w))) = accounts (fold ws_do ops (ws_checkpoint w)) \<and>
   modifications (ws_commit (fold ws_do ops (ws_checkpoint w))) = modifications w"
  using wj.rollback_restores [of ops w] wj.commit_keeps_content [of ops w]
    wj.commit_keeps_outer_journal [of ops w]
  by (simp add: wj.put_all_def)

text \<open>Committing an inner checkpoint drops its undo records instead of handing them to
  the enclosing one: a write made under two nested checkpoints, the inner one committed,
  survives the rollback of the outer one.\<close>

lemma ws_nested_commit_not_undone:
  "ws_rollback (ws_commit (ws_set_account (ws_checkpoint (ws_checkpoint w)) a acc)) =
     w\<lparr>accounts := fmupd a acc (accounts w)\<rparr>"
  by (simp add: ws_rollback_def ws_commit_def ws_set_account_def ws_checkpoint_def
      record_account_modification_def)

text \<open>A transfer between two different accounts conserves the sum of all balances; it
  succeeds exactly when the sender's balance covers the amount, moves exactly that amount
  and touches no other balance, and otherwise returns \<open>InsufficientBalance\<close> with the
  state unchanged.\<close>

lemma ws_transfer_conserves:
  assumes "a \<noteq> b"
  shows "ws_total_balance (snd (ws_transfer w a b n)) = ws_total_balance w \<and>
    (if n \<le> ws_get_balance w a
     then fst (ws_transfer w a b n) = Ok () \<and>
       ws_get_balance (snd (ws_transfer w a b n)) =
         (ws_get_balance w)(a := ws_get_balance w a - n, b := ws_get_balance w b + n)
     else ws_transfer w a b n = (Err InsufficientBalance, w))"
  using wl.total_conserved [OF assms] wl.transfer_moves [OF _ assms] wl.transfer_refused
  by simp

lemma ws_transfer_conserves_witness:
  "ws_total_balance (snd (ws_transfer (ws_set_account ws_new 1 (account_with_balance 1000)) 1 2 300)) = 1000 \<and>
   ws_get_balance (snd (ws_transfer (ws_set_account ws_new 1 (account_with_balance 1000)) 1 2 300)) 2 = 300"
proof -
  let ?w = "ws_set_account ws_new 1 (account_with_balance 1000)"
  have "ws_get_balance ?w 1 = 1000" "ws_get_balance ?w 2 = 0" "ws_total_balance ?w = 1000"
    by (simp_all add: ws_get_balance_account account_with_balance_def ws_new_def ws_get_account_def
        account_new_def amount_zero_def ws_total_balance_def ws_set_account_def fm_sum_def
        record_account_modification_def)
  then show ?thesis using ws_transfer_conserves [of 1 2 ?w 300] by simp
qed

text \<open>A transfer from an account to itself creates tokens: the balance and the total
  grow by the transferred amount.\<close>

lemma ws_transfer_self_mints:
  assumes "n \<le> ws_get_balance w a"
  shows "fst (ws_transfer w a a n) = Ok () \<and>
    ws_get_balance (snd (ws_transfer w a a n)) a = ws_get_balance w a + n \<and>
    ws_total_balance (snd (ws_transfer w a a n)) = ws_total_balance w + n"
  using wl.total_self [OF assms] wl.transfer_self [OF assms] by simp

lemma ws_transfer_self_mints_witness:
  "ws_get_balance (snd (ws_transfer (ws_set_account ws_new 1 (account_with_balance 1000)) 1 1 300)) 1 = 1300"
proof -
  let ?w = "ws_set_account ws_new 1 (account_with_balance 1000)"
  have "ws_get_balance ?w 1 = 1000"
    by (simp add: ws_get_balance_account account_with_balance_def)
  then show ?thesis using ws_transfer_self_mints [of 300 ?w 1] by simp
qed

text \<open>The state root is a function of the accounts alone: whatever order the hash map
  enumerates its entries in, sorting by address gives the same root.\<close>

lemma state_root_deterministic:
  assumes "enumerates es (accounts w)"
  shows "state_root_of L enc es = ws_state_root L enc w"
proof -
  have "sort_key fst (btree_iter (accounts w)) = sort_key fst es"
    using assms by (simp add: sort_key_enumerates enumerates_btree_iter)
  then show ?thesis by (simp add: ws_state_root_def state_root_of_def)
qed

lemma state_root_deterministic_witness:
  "state_root_of demo_lib (\<lambda>acc. [ucast (acc_nonce acc)]) [(2, account_new), (1, account_new)] =
     ws_state_root demo_lib (\<lambda>acc. [ucast (acc_nonce acc)])
       (ws_set_account (ws_set_account ws_new 1 account_new) 2 account_new)"
proof (rule state_root_deterministic)
  show "enumerates [(2, account_new), (1, account_new)]
      (accounts (ws_set_account (ws_set_account ws_new 1 account_new) 2 account_new))"
    by (auto simp: enumerates_def ws_set_account_def ws_new_def record_account_modification_def
        fmap_of_list_simps intro!: fmap_ext)
qed

text \<open>Staking moves tokens between the balance and the stake and loses none, and
  unstaking the same amount gives back the account as it was; both refuse amounts the
  account does not hold.\<close>

lemma stake_unstake_roundtrip:
  "(case stake acc n of
      Ok acc' \<Rightarrow> n \<le> acc_balance acc \<and> acc_balance acc' + acc_staked acc' = acc_balance acc + acc_staked acc \<and>
        acc_staked acc' = acc_staked acc + n \<and> unstake acc' n = Ok acc
    | Err e \<Rightarrow> acc_balance acc < n \<and> e = InsufficientBalance
    | Panic \<Rightarrow> False) \<and>
   (case unstake acc n of
      Ok acc' \<Rightarrow> n \<le> acc_staked acc \<and> stake acc' n = Ok acc
    | Err e \<Rightarrow> acc_staked acc < n \<and> e = StateError ''Insufficient stake''
    | Panic \<Rightarrow> False)"
  by (cases acc) (simp add: account_ops)

text \<open>The check that liquidity is covered by the stake looks at the single amount and
  not at what is deployed already: an amount within the stake can be deployed any number
  of times, so the deployed liquidity is not bounded by the stake.\<close>

lemma deploy_liquidity_unbounded:
  assumes "n \<le> acc_staked acc"
  shows "((\<lambda>r. and_then r (\<lambda>a. deploy_liquidity a n)) ^^ k) (Ok acc) =
    Ok (acc\<lparr>acc_liquidity_deployed := acc_liquidity_deployed acc + k * n\<rparr>)"
  using assms by (induction k) (simp_all add: account_ops)

lemma deploy_liquidity_unbounded_witness:
  "\<exists>acc acc'. acc_staked acc = 100 \<and>
     ((\<lambda>r. and_then r (\<lambda>a. deploy_liquidity a 100)) ^^ 5) (Ok acc) = Ok acc' \<and>
     acc_staked acc' = 100 \<and> acc_liquidity_deployed acc' = 500"
  using deploy_liquidity_unbounded [of 100 "account_new\<lparr>acc_staked := 100\<rparr>" 5]
  by (intro exI [of _ "account_new\<lparr>acc_staked := 100\<rparr>"] exI [of _ "account_new\<lparr>acc_staked := 100,
        acc_liquidity_deployed := 500\<rparr>"]) (simp add: account_new_def amount_zero_def)

end
