(* ===== verification/Merkle.thy ===== *)
theory Merkle
  imports Crypto
begin

text \<open>
  The Merkle tree of \<open>merkle.rs\<close>: a complete binary tree in a flat array, built bottom
  up. The loops are the source's loops, and an index out of range is a panic. The
  reference definition \<open>merkle_root_spec\<close> hashes the two halves of the leaf list
  recursively; the array code computes the same root, and inclusion proofs are complete
  and, up to hash collisions, sound for proofs of full depth.
\<close>

section \<open>The code\<close>

record MerkleTree =
  mt_nodes :: "hash list"
  mt_leaf_count :: nat

record MerkleProof =
  mp_leaf_index :: nat
  mp_leaf_hash :: hash
  mp_proof_hashes :: "hash list"

fun next_power_of_two :: "nat \<Rightarrow> nat" where
  "next_power_of_two n = (if n \<le> 1 then 1 else 2 * next_power_of_two ((n + 1) div 2))"

declare next_power_of_two.simps [simp del]

definition total_nodes :: "nat \<Rightarrow> nat" where
  "total_nodes leaf_count = (let padded_leaves = next_power_of_two leaf_count in 2 * padded_leaves - 1)"

definition leaf_start :: "MerkleTree \<Rightarrow> nat" where
  "leaf_start t = length (mt_nodes t) - next_power_of_two (mt_leaf_count t)"

definition parent_index :: "nat \<Rightarrow> nat" where
  "parent_index index = (index - 1) div 2"

definition sibling_index :: "nat \<Rightarrow> nat" where
  "sibling_index index = (if index mod 2 = 0 then index - 1 else index + 1)"

definition combine_hashes :: "crypto_lib \<Rightarrow> hash \<Rightarrow> hash \<Rightarrow> hash" where
  "combine_hashes L left right = hash_bytes L (hash_as_bytes left @ hash_as_bytes right)"

text \<open>The inner \<open>for i in 0..level_size\<close> of \<open>build_tree\<close>.\<close>

fun build_level :: "crypto_lib \<Rightarrow> nat \<Rightarrow> nat \<Rightarrow> nat list \<Rightarrow> hash list \<Rightarrow> (hash list, CryptoError) outcome" where
  "build_level L level_start parent_start [] nodes = Ok nodes"
| "build_level L level_start parent_start (i # is) nodes =
     (let left_index = level_start + i * 2; right_index = left_index + 1 in
      and_then
        (if right_index < length nodes
         then and_then (vec_get nodes left_index) (\<lambda>l.
              and_then (vec_get nodes right_index) (\<lambda>r. Ok (combine_hashes L l r)))
         else vec_get nodes left_index)
        (\<lambda>combined. and_then (vec_set nodes (parent_start + i) combined)
        (build_level L level_start parent_start is)))"

function build_tree :: "crypto_lib \<Rightarrow> nat \<Rightarrow> hash list \<Rightarrow> (hash list, CryptoError) outcome" where
  "build_tree L level_start nodes =
     (if level_start > 0
      then let parent_start = parent_index level_start;
               level_size = level_start - parent_start
           in and_then (build_level L level_start parent_start [0..<level_size] nodes)
                (build_tree L parent_start)
      else Ok nodes)"
  by pat_completeness auto
termination
  by (relation "measure (\<lambda>(L, s, n). s)") (auto simp: parent_index_def)

declare build_tree.simps [simp del]

fun hash_leaves :: "crypto_lib \<Rightarrow> nat \<Rightarrow> nat \<Rightarrow> bytes list \<Rightarrow> hash list \<Rightarrow> (hash list, CryptoError) outcome" where
  "hash_leaves L leaf_st i [] nodes = Ok nodes"
| "hash_leaves L leaf_st i (leaf # rest) nodes =
     and_then (vec_set nodes (leaf_st + i) (hash_bytes L leaf)) (hash_leaves L leaf_st (i + 1) rest)"

definition merkle_new :: "crypto_lib \<Rightarrow> bytes list \<Rightarrow> (MerkleTree, CryptoError) outcome" where
  "merkle_new L leaves =
     (if leaves = [] then Err (MerkleError ''Cannot create empty tree'')
      else let leaf_count = length leaves;
               total = total_nodes leaf_count;
               nodes = replicate total hash_zero;
               leaf_st = total - leaf_count
           in and_then (hash_leaves L leaf_st 0 leaves nodes) (\<lambda>nodes.
              and_then (build_tree L leaf_st nodes) (\<lambda>nodes.
              Ok \<lparr>mt_nodes = nodes, mt_leaf_count = leaf_count\<rparr>)))"

definition merkle_root :: "MerkleTree \<Rightarrow> (hash, CryptoError) outcome" where
  "merkle_root t = vec_get (mt_nodes t) 0"

function proof_loop :: "hash list \<Rightarrow> nat \<Rightarrow> hash list \<Rightarrow> (hash list, CryptoError) outcome" where
  "proof_loop nodes current_index proof_hashes =
     (if current_index > 0
      then and_then (vec_get nodes (sibling_index current_index)) (\<lambda>h.
             proof_loop nodes (parent_index current_index) (proof_hashes @ [h]))
      else Ok proof_hashes)"
  by pat_completeness auto
termination
  by (relation "measure (\<lambda>(n, i, ps). i)") (auto simp: parent_index_def)

declare proof_loop.simps [simp del]

definition merkle_proof :: "MerkleTree \<Rightarrow> nat \<Rightarrow> (MerkleProof, CryptoError) outcome" where
  "merkle_proof t index =
     (if index \<ge> mt_leaf_count t then Err (MerkleError ''Index out of bounds'')
      else and_then (proof_loop (mt_nodes t) (leaf_start t + index) []) (\<lambda>proof_hashes.
           and_then (vec_get (mt_nodes t) (leaf_start t + index)) (\<lambda>lh.
           Ok \<lparr>mp_leaf_index = index, mp_leaf_hash = lh, mp_proof_hashes = proof_hashes\<rparr>)))"

fun verify_loop :: "crypto_lib \<Rightarrow> hash \<Rightarrow> nat \<Rightarrow> hash list \<Rightarrow> hash" where
  "verify_loop L current_hash index [] = current_hash"
| "verify_loop L current_hash index (proof_hash # rest) =
     verify_loop L
       (if index mod 2 = 0 then combine_hashes L current_hash proof_hash
        else combine_hashes L proof_hash current_hash)
       (index div 2) rest"

definition verify_proof :: "crypto_lib \<Rightarrow> hash \<Rightarrow> MerkleProof \<Rightarrow> bytes \<Rightarrow> bool" where
  "verify_proof L root p leaf_data =
     (let leaf_hash = hash_bytes L leaf_data
      in if leaf_hash \<noteq> mp_leaf_hash p then False
         else verify_loop L leaf_hash (mp_leaf_index p) (mp_proof_hashes p) = root)"

definition merkle_proof_verify :: "crypto_lib \<Rightarrow> MerkleProof \<Rightarrow> hash \<Rightarrow> bytes \<Rightarrow> bool" where
  "merkle_proof_verify L p root leaf_data = verify_proof L root p leaf_data"

section \<open>The reference definition\<close>

fun merkle_root_spec :: "crypto_lib \<Rightarrow> hash list \<Rightarrow> hash" where
  "merkle_root_spec L hs =
     (if length hs \<le> 1 then hd hs
      else combine_hashes L (merkle_root_spec L (take (length hs div 2) hs))
                            (merkle_root_spec L (drop (length hs div 2) hs)))"

declare merkle_root_spec.simps [simp del]

section \<open>Powers of two\<close>

lemma next_power_of_two_pow: "\<exists>k. next_power_of_two n = 2 ^ k"
proof (induction n rule: next_power_of_two.induct)
  case (1 n)
  show ?case
  proof (cases "n \<le> 1")
    case True
    then have "next_power_of_two n = 2 ^ 0" by (simp add: next_power_of_two.simps [of n])
    then show ?thesis ..
  next
    case False
    then obtain k where "next_power_of_two ((n + 1) div 2) = 2 ^ k" using "1.IH" by auto
    with False have "next_power_of_two n = 2 ^ Suc k" by (simp add: next_power_of_two.simps [of n])
    then show ?thesis ..
  qed
qed

lemma next_power_of_two_bounds: "n \<le> next_power_of_two n \<and> (0 < n \<longrightarrow> next_power_of_two n < 2 * n)"
proof (induction n rule: next_power_of_two.induct)
  case (1 n)
  show ?case
  proof (cases "n \<le> 1")
    case True
    then show ?thesis by (auto simp: next_power_of_two.simps [of n])
  next
    case False
    let ?m = "(n + 1) div 2"
    have IH: "?m \<le> next_power_of_two ?m" "next_power_of_two ?m < 2 * ?m"
      using "1.IH" [OF False] False by auto
    obtain k where k: "next_power_of_two ?m = 2 ^ k" using next_power_of_two_pow by blast
    have "next_power_of_two ?m < n"
    proof (cases "even n")
      case True
      then show ?thesis using IH(2) by auto
    next
      case odd: False
      then have m: "2 * ?m = n + 1" by auto
      show ?thesis
      proof (cases k)
        case 0
        then show ?thesis using k False by simp
      next
        case (Suc j)
        then have "even (next_power_of_two ?m)" using k by simp
        moreover have "next_power_of_two ?m \<le> n" using IH(2) m by simp
        ultimately show ?thesis using odd by (metis le_neq_implies_less)
      qed
    qed
    then show ?thesis using False IH(1) by (simp add: next_power_of_two.simps [of n])
  qed
qed

lemma next_power_of_two_power [simp]: "next_power_of_two (2 ^ k) = 2 ^ k"
proof (induction k)
  case 0
  then show ?case by (simp add: next_power_of_two.simps)
next
  case (Suc k)
  have "(2 ^ Suc k + 1) div 2 = (2::nat) ^ k" by simp
  moreover have "\<not> (2::nat) ^ Suc k \<le> 1" using one_less_power [of "2::nat" "Suc k"] by simp
  ultimately show ?case using Suc by (subst next_power_of_two.simps) simp
qed

lemma next_power_of_two_fixed_iff: "next_power_of_two n = n \<longleftrightarrow> (\<exists>k. n = 2 ^ k)"
  by (metis next_power_of_two_pow next_power_of_two_power)

lemma total_nodes_pow: "total_nodes (2 ^ k) = 2 * 2 ^ k - 1"
  by (simp add: total_nodes_def)

section \<open>Building the array\<close>

lemma hash_leaves_Ok:
  assumes "st + i + length leaves \<le> length nodes"
  shows "\<exists>ns. hash_leaves L st i leaves nodes = Ok ns \<and> length ns = length nodes \<and>
    (\<forall>j. ns ! j = (if st + i \<le> j \<and> j < st + i + length leaves
                    then hash_bytes L (leaves ! (j - (st + i))) else nodes ! j))"
  using assms
proof (induction leaves arbitrary: i nodes)
  case Nil
  then show ?case by auto
next
  case (Cons l ls)
  let ?n1 = "nodes[st + i := hash_bytes L l]"
  have b: "st + i < length nodes" "st + (i + 1) + length ls \<le> length ?n1"
    using Cons.prems by simp_all
  from Cons.IH [OF b(2)] obtain ns where ns: "hash_leaves L st (i + 1) ls ?n1 = Ok ns"
    "length ns = length nodes"
    "\<And>j. ns ! j = (if st + (i + 1) \<le> j \<and> j < st + (i + 1) + length ls
                then hash_bytes L (ls ! (j - (st + (i + 1)))) else ?n1 ! j)"
    by auto
  have "ns ! j = (if st + i \<le> j \<and> j < st + i + length (l # ls)
          then hash_bytes L ((l # ls) ! (j - (st + i))) else nodes ! j)" for j
  proof (cases "j = st + i")
    case True
    then show ?thesis using b by (simp add: ns(3))
  next
    case False
    moreover have "j - (st + i) = Suc (j - (st + (i + 1)))" if "st + (i + 1) \<le> j"
      using that by simp
    ultimately show ?thesis by (auto simp: ns(3))
  qed
  with ns(1,2) b show ?case by simp
qed

text \<open>A read beyond the array makes a level of the build panic.\<close>

lemma build_level_Panic:
  assumes "i \<in> set is" and "length nodes \<le> ls + i * 2"
  shows "build_level L ls ps is nodes = Panic"
  using assms
proof (induction "is" arbitrary: nodes)
  case Nil
  then show ?case by simp
next
  case (Cons k ks)
  show ?case
  proof (cases "length nodes \<le> ls + k * 2")
    case True
    then show ?thesis by (simp add: Let_def)
  next
    case False
    with Cons.prems have "i \<in> set ks" by auto
    then have "build_level L ls ps ks (nodes[j := c]) = Panic" for j c
      using Cons.IH [of "nodes[j := c]"] Cons.prems(2) by simp
    with False show ?thesis by (simp add: Let_def vec_set_def)
  qed
qed

lemma build_tree_Panic:
  assumes "0 < ls" and "length nodes \<le> 2 * ls - 1"
  shows "build_tree L ls nodes = Panic"
proof -
  let ?ps = "parent_index ls"
  have "ls - ?ps - 1 < ls - ?ps" and "length nodes \<le> ls + (ls - ?ps - 1) * 2"
    using assms by (auto simp: parent_index_def)
  then have "build_level L ls ?ps [0..<ls - ?ps] nodes = Panic"
    by (intro build_level_Panic [of "ls - ?ps - 1"]) auto
  with assms(1) show ?thesis by (subst build_tree.simps) (simp add: Let_def)
qed

text \<open>
  One level of a full tree: with \<open>level_start = 2 * parent_start + 1\<close> the children of
  node \<open>j\<close> are \<open>2 * j + 1\<close> and \<open>2 * j + 2\<close>, all of them at or above \<open>level_start\<close>,
  so the writes of the loop do not disturb its reads.
\<close>

lemma build_level_full:
  assumes "\<forall>i \<in> set is. i \<le> ps" and "distinct is" and "4 * ps + 2 < length nodes"
  shows "\<exists>ns. build_level L (2 * ps + 1) ps is nodes = Ok ns \<and> length ns = length nodes \<and>
    (\<forall>j. ns ! j = (if ps \<le> j \<and> j - ps \<in> set is
                    then combine_hashes L (nodes ! (2 * j + 1)) (nodes ! (2 * j + 2)) else nodes ! j))"
  using assms
proof (induction "is" arbitrary: nodes)
  case Nil
  then show ?case by simp
next
  case (Cons i "is")
  let ?c = "combine_hashes L (nodes ! (2 * ps + 1 + i * 2)) (nodes ! (2 * ps + 2 + i * 2))"
  let ?n1 = "nodes[ps + i := ?c]"
  have b: "i \<le> ps" "2 * ps + 2 + i * 2 < length nodes" "ps + i < length nodes"
    using Cons.prems by auto
  from Cons.prems obtain ns where ns: "build_level L (2 * ps + 1) ps is ?n1 = Ok ns"
    "length ns = length nodes"
    "\<And>j. ns ! j = (if ps \<le> j \<and> j - ps \<in> set is
          then combine_hashes L (?n1 ! (2 * j + 1)) (?n1 ! (2 * j + 2)) else ?n1 ! j)"
    using Cons.IH [of ?n1] by auto
  have step: "build_level L (2 * ps + 1) ps (i # is) nodes = Ok ns"
    using b ns(1) by (simp add: Let_def)
  have "ns ! j = (if ps \<le> j \<and> j - ps \<in> set (i # is)
          then combine_hashes L (nodes ! (2 * j + 1)) (nodes ! (2 * j + 2)) else nodes ! j)" for j
  proof (cases "j = ps + i")
    case True
    with Cons.prems(2) have "j - ps \<notin> set is" by simp
    moreover from True have "2 * j + 1 = 2 * ps + 1 + i * 2" "2 * j + 2 = 2 * ps + 2 + i * 2"
      by simp_all
    ultimately show ?thesis using True b by (simp add: ns(3) mult.commute)
  next
    case False
    then have "j - ps \<noteq> i" if "ps \<le> j" using that by auto
    moreover have "?n1 ! (2 * j + 1) = nodes ! (2 * j + 1)" "?n1 ! (2 * j + 2) = nodes ! (2 * j + 2)"
      if "ps \<le> j" using that b by auto
    ultimately show ?thesis using False by (auto simp: ns(3))
  qed
  with step ns(2) show ?case by blast
qed

definition heap_from :: "crypto_lib \<Rightarrow> nat \<Rightarrow> nat \<Rightarrow> hash list \<Rightarrow> bool" where
  "heap_from L a b nodes \<longleftrightarrow>
     (\<forall>j. a \<le> j \<and> j < b \<longrightarrow> nodes ! j = combine_hashes L (nodes ! (2 * j + 1)) (nodes ! (2 * j + 2)))"

lemma build_tree_full:
  assumes "m \<le> k" and "length nodes = 2 * 2 ^ k - 1" and "heap_from L (2 ^ m - 1) (2 ^ k - 1) nodes"
  shows "\<exists>ns. build_tree L (2 ^ m - 1) nodes = Ok ns \<and> length ns = length nodes \<and>
    heap_from L 0 (2 ^ k - 1) ns \<and> (\<forall>j \<ge> 2 ^ m - 1. ns ! j = nodes ! j)"
  using assms
proof (induction m arbitrary: nodes)
  case 0
  then show ?case by (subst build_tree.simps) simp
next
  case (Suc m)
  obtain ps where pm: "2 ^ m = Suc ps" by (metis not0_implies_Suc power_not_zero zero_neq_numeral)
  have pk: "2 * Suc ps \<le> 2 ^ k" using Suc.prems(1) power_increasing [of "Suc m" k "2::nat"] by (simp add: pm)
  have ls: "2 ^ Suc m - 1 = 2 * ps + 1" by (simp add: pm)
  have par: "parent_index (2 * ps + 1) = ps" by (simp add: parent_index_def)
  have sz: "2 * ps + 1 - ps = Suc ps" by simp
  have len: "4 * ps + 2 < length nodes" using pk Suc.prems(2) by simp
  have dom: "\<forall>i \<in> set [0..<Suc ps]. i \<le> ps" "distinct [0..<Suc ps]" by auto
  obtain n1 where n1: "build_level L (2 * ps + 1) ps [0..<Suc ps] nodes = Ok n1"
    "length n1 = length nodes"
    and n1_nth: "\<And>j. n1 ! j = (if ps \<le> j \<and> j - ps \<in> set [0..<Suc ps]
          then combine_hashes L (nodes ! (2 * j + 1)) (nodes ! (2 * j + 2)) else nodes ! j)"
    using build_level_full [OF dom len, of L] by blast
  have keep: "n1 ! j = nodes ! j" if "2 * ps + 1 \<le> j" for j
    using that by (auto simp: n1_nth)
  have heap: "heap_from L ps (2 ^ k - 1) n1"
    unfolding heap_from_def
  proof (intro allI impI)
    fix j
    assume j: "ps \<le> j \<and> j < 2 ^ k - 1"
    then have ch: "n1 ! (2 * j + 1) = nodes ! (2 * j + 1)" "n1 ! (2 * j + 2) = nodes ! (2 * j + 2)"
      by (simp_all add: keep)
    show "n1 ! j = combine_hashes L (n1 ! (2 * j + 1)) (n1 ! (2 * j + 2))"
    proof (cases "j < 2 * ps + 1")
      case True
      then show ?thesis using j ch by (auto simp: n1_nth [of j])
    next
      case False
      then show ?thesis
        using Suc.prems(3) j ch keep [of j] by (simp add: heap_from_def pm)
    qed
  qed
  from Suc.IH [of n1] heap Suc.prems(1,2) n1(2) pm obtain ns where
    ns: "build_tree L ps n1 = Ok ns" "length ns = length nodes"
      "heap_from L 0 (2 ^ k - 1) ns" "\<forall>j \<ge> ps. ns ! j = n1 ! j"
    by auto
  have "build_tree L (2 ^ Suc m - 1) nodes = Ok ns"
    unfolding ls by (subst build_tree.simps) (simp only: par sz n1(1) ns(1) Let_def and_then.simps, simp)
  moreover have "\<forall>j \<ge> 2 ^ Suc m - 1. ns ! j = nodes ! j"
    using ns(4) keep unfolding ls by simp
  ultimately show ?case using ns by auto
qed

section \<open>What \<open>MerkleTree::new\<close> returns\<close>

definition full_tree :: "crypto_lib \<Rightarrow> bytes list \<Rightarrow> nat \<Rightarrow> MerkleTree \<Rightarrow> bool" where
  "full_tree L leaves k t \<longleftrightarrow> length leaves = 2 ^ k \<and> mt_leaf_count t = 2 ^ k \<and>
     length (mt_nodes t) = 2 * 2 ^ k - 1 \<and> leaf_start t = 2 ^ k - 1 \<and>
     heap_from L 0 (2 ^ k - 1) (mt_nodes t) \<and>
     (\<forall>i < 2 ^ k. mt_nodes t ! (2 ^ k - 1 + i) = hash_bytes L (leaves ! i))"

lemma full_treeD:
  assumes "full_tree L leaves k t"
  shows "length leaves = 2 ^ k" and "mt_leaf_count t = 2 ^ k"
    and "length (mt_nodes t) = 2 * 2 ^ k - 1" and "leaf_start t = 2 ^ k - 1"
    and "heap_from L 0 (2 ^ k - 1) (mt_nodes t)"
    and "\<And>i. i < 2 ^ k \<Longrightarrow> mt_nodes t ! (2 ^ k - 1 + i) = hash_bytes L (leaves ! i)"
  using assms unfolding full_tree_def by blast+

lemma merkle_new_pow2:
  assumes "length leaves = 2 ^ k"
  shows "\<exists>t. merkle_new L leaves = Ok t \<and> full_tree L leaves k t"
proof -
  define P :: nat where "P = 2 ^ k"
  have P: "0 < P" "length leaves = P" "2 * P - 1 - P = P - 1" using assms by (simp_all add: P_def)
  have tn: "total_nodes P = 2 * P - 1" by (simp add: P_def total_nodes_pow)
  obtain n0 where n0: "hash_leaves L (P - 1) 0 leaves (replicate (2 * P - 1) hash_zero) = Ok n0"
    and n0_len: "length n0 = 2 * P - 1"
    and n0_leaf: "\<And>i. i < P \<Longrightarrow> n0 ! (P - 1 + i) = hash_bytes L (leaves ! i)"
  proof -
    have le: "P - 1 + 0 + length leaves \<le> length (replicate (2 * P - 1) hash_zero)"
      using P by simp
    obtain ns where "hash_leaves L (P - 1) 0 leaves (replicate (2 * P - 1) hash_zero) = Ok ns"
      "length ns = 2 * P - 1"
      "\<And>j. ns ! j = (if P - 1 + 0 \<le> j \<and> j < P - 1 + 0 + length leaves
          then hash_bytes L (leaves ! (j - (P - 1 + 0))) else replicate (2 * P - 1) hash_zero ! j)"
      using hash_leaves_Ok [OF le, of L] by (metis length_replicate)
    moreover obtain q where "P = Suc q" using P(1) by (cases P) auto
    ultimately show ?thesis using P by (intro that [of ns]) (simp_all del: nth_replicate)
  qed
  obtain n1 where n1: "build_tree L (P - 1) n0 = Ok n1" "length n1 = 2 * P - 1"
    "heap_from L 0 (P - 1) n1" "\<forall>j \<ge> P - 1. n1 ! j = n0 ! j"
  proof -
    have "heap_from L (2 ^ k - 1) (2 ^ k - 1) n0" by (auto simp: heap_from_def)
    from build_tree_full [OF order_refl _ this] n0_len that show ?thesis by (auto simp: P_def)
  qed
  let ?t = "\<lparr>mt_nodes = n1, mt_leaf_count = P\<rparr>"
  have "leaves \<noteq> []" using P by auto
  then have "merkle_new L leaves = Ok ?t"
    by (simp only: merkle_new_def Let_def P(2,3) tn n0 n1(1) and_then.simps if_False)
  moreover have "n1 ! (P - 1 + i) = hash_bytes L (leaves ! i)" if "i < P" for i
    using that n1(4) n0_leaf by simp
  moreover have "leaf_start ?t = P - 1"
    using n1(2) by (simp add: leaf_start_def P_def)
  ultimately have "merkle_new L leaves = Ok ?t \<and> full_tree L leaves k ?t"
    using n1(2,3) assms unfolding full_tree_def P_def by simp
  then show ?thesis ..
qed

lemma merkle_new_not_pow2:
  assumes "leaves \<noteq> []" and "\<nexists>k. length leaves = 2 ^ k"
  shows "merkle_new L leaves = Panic"
proof -
  let ?n = "length leaves"
  let ?P = "next_power_of_two ?n"
  let ?N = "2 * ?P - 1"
  have lt: "?n < ?P" "0 < ?n"
    using assms next_power_of_two_bounds [of ?n] next_power_of_two_fixed_iff [of ?n] by (auto simp: le_less)
  obtain n0 where n0: "hash_leaves L (?N - ?n) 0 leaves (replicate ?N hash_zero) = Ok n0"
    "length n0 = ?N"
    using hash_leaves_Ok [of "?N - ?n" 0 leaves "replicate ?N hash_zero" L] lt by auto
  have "build_tree L (?N - ?n) n0 = Panic"
    using lt n0(2) by (intro build_tree_Panic) auto
  with n0(1) assms(1) show ?thesis
    by (simp add: merkle_new_def Let_def total_nodes_def)
qed

text \<open>Everything the later proofs need of a tree the constructor returned.\<close>

lemma merkle_new_Ok_shape:
  assumes "merkle_new L leaves = Ok t"
  obtains k where "full_tree L leaves k t"
proof -
  have "leaves \<noteq> []" using assms by (auto simp: merkle_new_def)
  then obtain k where "length leaves = 2 ^ k"
    using assms merkle_new_not_pow2 by fastforce
  with assms merkle_new_pow2 [of leaves k L] show thesis by (auto intro: that)
qed

section \<open>The root is the recursive root\<close>

lemma merkle_root_spec_node:
  assumes "heap_from L 0 (2 ^ k - 1) nodes" and "length hs = 2 ^ k"
    and leaf: "\<And>i. i < 2 ^ k \<Longrightarrow> nodes ! (2 ^ k - 1 + i) = hs ! i"
    and "d \<le> k" and "i < 2 ^ (k - d)"
  shows "nodes ! (2 ^ (k - d) - 1 + i) = merkle_root_spec L (take (2 ^ d) (drop (i * 2 ^ d) hs))"
  using assms(4,5)
proof (induction d arbitrary: i)
  case 0
  then have "take 1 (drop i hs) = [hs ! i]"
    using assms(2) by (simp add: take_Suc_conv_app_nth hd_drop_conv_nth take_Suc)
  with leaf [of i] 0 show ?case by (simp add: merkle_root_spec.simps)
next
  case (Suc d)
  obtain q where q: "2 ^ (k - Suc d) = Suc q" by (metis not0_implies_Suc power_not_zero zero_neq_numeral)
  let ?j = "q + i"
  let ?xs = "take (2 ^ Suc d) (drop (i * 2 ^ Suc d) hs)"
  have kd: "2 ^ (k - d) = 2 * Suc q" using Suc.prems(1) by (metis Suc_diff_le diff_Suc_Suc power_Suc q)
  have pk: "2 ^ k = Suc q * 2 ^ Suc d" using Suc.prems(1) by (metis le_add_diff_inverse2 power_add q)
  have "i * 2 ^ Suc d + 2 ^ Suc d \<le> 2 ^ k"
    using Suc.prems(2) mult_le_mono1 [of "Suc i" "Suc q" "2 ^ Suc d"] unfolding pk q by simp
  then have len: "length ?xs = 2 ^ Suc d" using assms(2) by simp
  have half: "take (2 ^ d) ?xs = take (2 ^ d) (drop (2 * i * 2 ^ d) hs)"
    "drop (2 ^ d) ?xs = take (2 ^ d) (drop ((2 * i + 1) * 2 ^ d) hs)"
    by (simp_all add: min_def drop_take algebra_simps)
  have ch: "2 * ?j + 1 = 2 ^ (k - d) - 1 + 2 * i" "2 * ?j + 2 = 2 ^ (k - d) - 1 + (2 * i + 1)"
    by (simp_all add: kd)
  have "2 ^ (k - d) \<le> (2::nat) ^ k" by (rule power_increasing) simp_all
  then have j: "?j < 2 ^ k - 1" using Suc.prems(2) unfolding kd q by simp
  have "nodes ! ?j = combine_hashes L (nodes ! (2 * ?j + 1)) (nodes ! (2 * ?j + 2))"
    using assms(1) j by (simp add: heap_from_def)
  also have "\<dots> = combine_hashes L (merkle_root_spec L (take (2 ^ d) ?xs)) (merkle_root_spec L (drop (2 ^ d) ?xs))"
  proof -
    have "2 * i < 2 ^ (k - d)" "2 * i + 1 < 2 ^ (k - d)" using Suc.prems(2) unfolding kd q by simp_all
    with Suc.IH [of "2 * i"] Suc.IH [of "2 * i + 1"] Suc.prems(1) show ?thesis
      unfolding ch half by (simp only: Suc_leD)
  qed
  also have "\<dots> = merkle_root_spec L ?xs"
    using len one_less_power [of "2::nat" "Suc d"] by (subst (3) merkle_root_spec.simps) (simp del: take_take)
  finally show ?case by (simp add: q)
qed

lemma merkle_root_spec_root:
  assumes "full_tree L leaves k t"
  shows "mt_nodes t \<noteq> []" and "mt_nodes t ! 0 = merkle_root_spec L (map (hash_bytes L) leaves)"
proof -
  note t = full_treeD [OF assms]
  have "mt_nodes t ! (2 ^ (k - k) - 1 + 0) =
      merkle_root_spec L (take (2 ^ k) (drop (0 * 2 ^ k) (map (hash_bytes L) leaves)))"
    using t(1,6) by (intro merkle_root_spec_node [OF t(5)]) simp_all
  then show "mt_nodes t ! 0 = merkle_root_spec L (map (hash_bytes L) leaves)"
    using t(1) by simp
  have "(1::nat) \<le> 2 ^ k" by simp
  then have "0 < length (mt_nodes t)" using t(3) by linarith
  then show "mt_nodes t \<noteq> []" by simp
qed

section \<open>Inclusion proofs\<close>

lemma proof_loop_append:
  "proof_loop nodes i (acc @ ps) = and_then (proof_loop nodes i ps) (\<lambda>qs. Ok (acc @ qs))"
proof (induction nodes i ps rule: proof_loop.induct)
  case (1 nodes i ps)
  show ?case
  proof (cases "i > 0 \<and> sibling_index i < length nodes")
    case True
    then show ?thesis
      using "1.IH" [of "nodes ! sibling_index i"]
      by (simp add: proof_loop.simps [of nodes i])
  next
    case False
    then show ?thesis by (auto simp: proof_loop.simps [of nodes i])
  qed
qed

text \<open>The siblings on the way from leaf \<open>i\<close> of a tree of depth \<open>m\<close> to the root.\<close>

fun sibling_path :: "hash list \<Rightarrow> nat \<Rightarrow> nat \<Rightarrow> hash list" where
  "sibling_path nodes 0 i = []"
| "sibling_path nodes (Suc m) i =
     nodes ! (if i mod 2 = 0 then 2 ^ Suc m - 1 + (i + 1) else 2 ^ Suc m - 1 + (i - 1))
     # sibling_path nodes m (i div 2)"

lemma length_sibling_path [simp]: "length (sibling_path nodes m i) = m"
  by (induction m arbitrary: i) simp_all

lemma level_index:
  assumes "i < 2 ^ Suc m"
  shows "parent_index (2 ^ Suc m - 1 + i) = 2 ^ m - 1 + i div 2"
    and "sibling_index (2 ^ Suc m - 1 + i) =
      (if i mod 2 = 0 then 2 ^ Suc m - 1 + (i + 1) else 2 ^ Suc m - 1 + (i - 1))"
    and "sibling_index (2 ^ Suc m - 1 + i) < 2 ^ Suc (Suc m) - 1"
proof -
  obtain q where q: "2 ^ m = Suc q" by (metis not0_implies_Suc power_not_zero zero_neq_numeral)
  show "parent_index (2 ^ Suc m - 1 + i) = 2 ^ m - 1 + i div 2"
    by (simp add: parent_index_def q)
  show sib: "sibling_index (2 ^ Suc m - 1 + i) =
      (if i mod 2 = 0 then 2 ^ Suc m - 1 + (i + 1) else 2 ^ Suc m - 1 + (i - 1))"
    by (simp add: sibling_index_def q) presburger
  show "sibling_index (2 ^ Suc m - 1 + i) < 2 ^ Suc (Suc m) - 1"
    using assms unfolding sib by (simp add: q) presburger
qed

lemma proof_loop_path:
  assumes "i < 2 ^ m" and "2 ^ Suc m - 1 \<le> length nodes"
  shows "proof_loop nodes (2 ^ m - 1 + i) [] = Ok (sibling_path nodes m i)"
  using assms
proof (induction m arbitrary: i)
  case 0
  then show ?case by (simp add: proof_loop.simps)
next
  case (Suc m)
  let ?c = "2 ^ Suc m - 1 + i"
  have pos: "0 < ?c" using one_less_power [of "2::nat" "Suc m"] by simp
  note ix = level_index [OF Suc.prems(1)]
  have sib: "sibling_index ?c < length nodes" using ix(3) Suc.prems(2) by linarith
  have half: "i div 2 < 2 ^ m" "2 ^ Suc m - 1 \<le> length nodes"
    using Suc.prems by simp_all
  have "proof_loop nodes ?c [] = proof_loop nodes (parent_index ?c) ([nodes ! sibling_index ?c] @ [])"
    using pos sib by (subst proof_loop.simps) simp
  also have "\<dots> = Ok (nodes ! sibling_index ?c # sibling_path nodes m (i div 2))"
    unfolding proof_loop_append ix(1) Suc.IH [OF half] by simp
  finally show ?case by (simp only: ix(2) sibling_path.simps)
qed

lemma verify_loop_path:
  assumes "heap_from L 0 b nodes" and "2 ^ m - 1 \<le> b" and "i < 2 ^ m"
  shows "verify_loop L (nodes ! (2 ^ m - 1 + i)) i (sibling_path nodes m i) = nodes ! 0"
  using assms(2,3)
proof (induction m arbitrary: i)
  case 0
  then show ?case by simp
next
  case (Suc m)
  let ?p = "2 ^ m - 1 + i div 2"
  obtain q where q: "2 ^ m = Suc q" by (metis not0_implies_Suc power_not_zero zero_neq_numeral)
  have p: "?p < b" "i div 2 < 2 ^ m" "2 ^ m - 1 \<le> b" using Suc.prems by (simp_all add: q)
  have heap: "nodes ! ?p = combine_hashes L (nodes ! (2 * ?p + 1)) (nodes ! (2 * ?p + 2))"
    using assms(1) p(1) by (simp add: heap_from_def)
  show ?case
  proof (cases "i mod 2 = 0")
    case True
    then have "2 * ?p + 1 = 2 ^ Suc m - 1 + i" "2 * ?p + 2 = 2 ^ Suc m - 1 + (i + 1)"
      by (simp_all add: q) presburger+
    with True heap Suc.IH [OF p(3,2)] show ?thesis by simp
  next
    case False
    then have "2 * ?p + 2 = 2 ^ Suc m - 1 + i" "2 * ?p + 1 = 2 ^ Suc m - 1 + (i - 1)"
      by (simp_all add: q) presburger+
    with False heap Suc.IH [OF p(3,2)] show ?thesis by simp
  qed
qed

lemma merkle_proof_path:
  assumes "full_tree L leaves k t" and i: "i < length leaves"
  shows "merkle_proof t i = Ok \<lparr>mp_leaf_index = i, mp_leaf_hash = hash_bytes L (leaves ! i),
      mp_proof_hashes = sibling_path (mt_nodes t) k i\<rparr>"
proof -
  note t = full_treeD [OF assms(1)]
  have ik: "i < 2 ^ k" using i t(1) by simp
  have "proof_loop (mt_nodes t) (leaf_start t + i) [] = Ok (sibling_path (mt_nodes t) k i)"
    unfolding t(4) using ik t(3) by (intro proof_loop_path) simp_all
  moreover have "(vec_get (mt_nodes t) (leaf_start t + i) :: (hash, CryptoError) outcome) =
      Ok (hash_bytes L (leaves ! i))"
    unfolding t(4) using t(6) [OF ik] t(3) ik by (subst vec_get_Ok) simp_all
  ultimately show ?thesis
    using ik t(2) by (simp add: merkle_proof_def)
qed

lemma merkle_verify_path:
  assumes "full_tree L leaves k t" and "i < length leaves"
  shows "verify_loop L (hash_bytes L (leaves ! i)) i (sibling_path (mt_nodes t) k i) = mt_nodes t ! 0"
  using verify_loop_path [OF full_treeD(5) [OF assms(1)], of k i] full_treeD(1,6) [OF assms(1)] assms(2)
  by simp

text \<open>
  Two verification runs of equal length that end in the same hash hashed the same
  inputs all the way, as long as no two of the inputs they hash collide.
\<close>

fun verify_inputs :: "crypto_lib \<Rightarrow> hash \<Rightarrow> nat \<Rightarrow> hash list \<Rightarrow> bytes list" where
  "verify_inputs L h i [] = []"
| "verify_inputs L h i (p # ps) =
     (let x = (if i mod 2 = 0 then hash_as_bytes h @ hash_as_bytes p else hash_as_bytes p @ hash_as_bytes h)
      in x # verify_inputs L (hash_bytes L x) (i div 2) ps)"

lemma verify_loop_inj:
  assumes "length ps = length qs"
    and "inj_on (hash_bytes L) (set (verify_inputs L h i ps) \<union> set (verify_inputs L g i qs))"
    and "verify_loop L h i ps = verify_loop L g i qs"
  shows "h = g \<and> ps = qs"
  using assms
proof (induction ps qs arbitrary: h g i rule: list_induct2)
  case Nil
  then show ?case by simp
next
  case (Cons p ps q qs)
  define x where "x = (if i mod 2 = 0 then hash_as_bytes h @ hash_as_bytes p else hash_as_bytes p @ hash_as_bytes h)"
  define y where "y = (if i mod 2 = 0 then hash_as_bytes g @ hash_as_bytes q else hash_as_bytes q @ hash_as_bytes g)"
  have step: "verify_loop L h i (p # ps) = verify_loop L (hash_bytes L x) (i div 2) ps"
    "verify_loop L g i (q # qs) = verify_loop L (hash_bytes L y) (i div 2) qs"
    by (simp_all add: x_def y_def combine_hashes_def)
  have inputs: "verify_inputs L h i (p # ps) = x # verify_inputs L (hash_bytes L x) (i div 2) ps"
    "verify_inputs L g i (q # qs) = y # verify_inputs L (hash_bytes L y) (i div 2) qs"
    by (simp_all add: x_def y_def Let_def)
  have "hash_bytes L x = hash_bytes L y \<and> ps = qs"
    using Cons.IH [of "hash_bytes L x" "i div 2" "hash_bytes L y"] Cons.prems
    unfolding step inputs by (auto intro: inj_on_subset)
  moreover from this have "x = y"
    using inj_onD [OF Cons.prems(1), of x y] unfolding inputs by simp
  ultimately show ?case by (auto simp: x_def y_def split: if_splits)
qed

section \<open>Properties\<close>

text \<open>\<open>MerkleTree::new\<close> returns a tree exactly when the number of leaves is a power of
  two; the empty list is an error, and every other number of leaves makes the array code
  read past its end and panic.\<close>

lemma merkle_new_outcome:
  "((\<exists>t. merkle_new L leaves = Ok t \<and> mt_leaf_count t = length leaves) \<longleftrightarrow> (\<exists>k. length leaves = 2 ^ k)) \<and>
   (merkle_new L leaves = Panic \<longleftrightarrow> leaves \<noteq> [] \<and> (\<nexists>k. length leaves = 2 ^ k)) \<and>
   (merkle_new L leaves = Err (MerkleError ''Cannot create empty tree'') \<longleftrightarrow> leaves = [])"
proof -
  consider "leaves = []" | k where "length leaves = 2 ^ k"
    | "leaves \<noteq> []" "\<nexists>k. length leaves = 2 ^ k" by blast
  then show ?thesis
  proof cases
    case 1
    then show ?thesis by (auto simp: merkle_new_def)
  next
    case (2 k)
    then obtain t where "merkle_new L leaves = Ok t" "mt_leaf_count t = length leaves"
      using merkle_new_pow2 [of leaves k L] by (auto simp: full_tree_def)
    moreover have "leaves \<noteq> []" using 2 by auto
    ultimately show ?thesis using 2 by auto
  next
    case 3
    then show ?thesis by (auto simp: merkle_new_not_pow2)
  qed
qed

text \<open>C10. The root the array code computes is the recursively defined Merkle root of the
  leaf hashes.\<close>

theorem merkle_root_correct:
  assumes "merkle_new L leaves = Ok t"
  shows "merkle_root t = Ok (merkle_root_spec L (map (hash_bytes L) leaves))"
  using assms
  by (elim merkle_new_Ok_shape) (simp add: merkle_root_def merkle_root_spec_root vec_get_def)

theorem merkle_root_correct_witness:
  "\<exists>t. merkle_new demo_lib [[1], [2]] = Ok t \<and>
     merkle_root t = Ok (merkle_root_spec demo_lib (map (hash_bytes demo_lib) [[1], [2]]))"
proof -
  obtain t where "merkle_new demo_lib [[1], [2]] = Ok t"
    using merkle_new_pow2 [of "[[1], [2]]" 1 demo_lib] by auto
  then show ?thesis using merkle_root_correct by blast
qed

text \<open>C11. Completeness of inclusion proofs: for every leaf of a tree, \<open>proof\<close> returns a
  proof, and \<open>verify_proof\<close> accepts it for that leaf's data against the tree's root.\<close>

theorem merkle_proof_complete:
  assumes "merkle_new L leaves = Ok t" and "i < length leaves"
  shows "\<exists>r p. merkle_root t = Ok r \<and> merkle_proof t i = Ok p \<and> mp_leaf_index p = i \<and>
    verify_proof L r p (leaves ! i)"
proof -
  obtain k where t: "full_tree L leaves k t" using assms(1) by (rule merkle_new_Ok_shape)
  show ?thesis
    using merkle_proof_path [OF t assms(2)] merkle_verify_path [OF t assms(2)] merkle_root_spec_root [OF t]
    by (simp add: merkle_root_def vec_get_def verify_proof_def)
qed

theorem merkle_proof_complete_witness:
  "\<exists>t r p. merkle_new demo_lib [[1], [2]] = Ok t \<and> merkle_root t = Ok r \<and>
     merkle_proof t 1 = Ok p \<and> verify_proof demo_lib r p [2]"
proof -
  obtain t where t: "merkle_new demo_lib [[1], [2]] = Ok t"
    using merkle_new_pow2 [of "[[1], [2]]" 1 demo_lib] by auto
  then show ?thesis using merkle_proof_complete [OF t, of 1] by auto
qed

text \<open>C12. Soundness of inclusion proofs: a proof for position \<open>i\<close> with as many hashes as
  the genuine one, accepted against the tree's root, is the genuine proof and its data is
  leaf \<open>i\<close>, unless two of the byte strings hashed on the way collide.\<close>

theorem merkle_proof_sound:
  assumes "merkle_new L leaves = Ok t" and "merkle_root t = Ok r" and "merkle_proof t i = Ok q"
    and "mp_leaf_index p = i" and "length (mp_proof_hashes p) = length (mp_proof_hashes q)"
    and "inj_on (hash_bytes L) ({d, leaves ! i}
           \<union> set (verify_inputs L (hash_bytes L d) i (mp_proof_hashes p))
           \<union> set (verify_inputs L (hash_bytes L (leaves ! i)) i (mp_proof_hashes q)))"
    and "verify_proof L r p d"
  shows "d = leaves ! i \<and> p = q"
proof -
  obtain k where t: "full_tree L leaves k t" using assms(1) by (rule merkle_new_Ok_shape)
  have i: "i < length leaves"
    using assms(3) full_treeD(1,2) [OF t] by (auto simp: merkle_proof_def split: if_splits)
  note q = merkle_proof_path [OF t i, unfolded assms(3), simplified]
  have r: "mt_nodes t ! 0 = r"
    using assms(2) merkle_root_spec_root(1) [OF t] by (simp add: merkle_root_def vec_get_def)
  have p: "mp_leaf_hash p = hash_bytes L d" "verify_loop L (hash_bytes L d) i (mp_proof_hashes p) = r"
    using assms(4,7) by (auto simp: verify_proof_def Let_def split: if_splits)
  have "hash_bytes L d = hash_bytes L (leaves ! i) \<and> mp_proof_hashes p = mp_proof_hashes q"
    using assms(5,6) p(2) merkle_verify_path [OF t i]
    by (intro verify_loop_inj [where i = i]) (auto simp: q r intro: inj_on_subset)
  moreover from this have "d = leaves ! i" using inj_onD [OF assms(6), of d "leaves ! i"] by simp
  ultimately show ?thesis using assms(4) p(1) q by simp
qed

theorem merkle_proof_sound_witness:
  "\<exists>t r q. merkle_new demo_lib [[1], [2]] = Ok t \<and> merkle_root t = Ok r \<and>
     merkle_proof t 1 = Ok q \<and> verify_proof demo_lib r q [2] \<and> [2] = [[1], [2 :: u8]] ! 1"
proof -
  obtain t where t: "merkle_new demo_lib [[1], [2]] = Ok t" "full_tree demo_lib [[1], [2]] 1 t"
    using merkle_new_pow2 [of "[[1], [2]]" 1 demo_lib] by auto
  define q where "q = \<lparr>mp_leaf_index = 1, mp_leaf_hash = hash_bytes demo_lib [2],
      mp_proof_hashes = sibling_path (mt_nodes t) 1 1\<rparr>"
  have q: "merkle_proof t 1 = Ok q" "verify_proof demo_lib (mt_nodes t ! 0) q [2]"
    using merkle_proof_path [OF t(2), of 1] merkle_verify_path [OF t(2), of 1]
    by (simp_all add: q_def verify_proof_def)
  have r: "merkle_root t = Ok (mt_nodes t ! 0)"
    using merkle_root_spec_root(1) [OF t(2)] by (simp add: merkle_root_def vec_get_def)
  have "mp_leaf_index q = 1" by (simp add: q_def)
  moreover have "inj_on (hash_bytes demo_lib) ({[2], [[1], [2]] ! 1}
           \<union> set (verify_inputs demo_lib (hash_bytes demo_lib [2]) 1 (mp_proof_hashes q))
           \<union> set (verify_inputs demo_lib (hash_bytes demo_lib ([[1], [2]] ! 1)) 1 (mp_proof_hashes q)))"
  proof -
    have "mp_proof_hashes q = [demo_digest [1]]"
      using full_treeD(6) [OF t(2), of 0] by (simp add: q_def hash_bytes_demo_lib)
    moreover have "demo_digest [2] \<noteq>
        demo_digest (hash_as_bytes (demo_digest [1]) @ hash_as_bytes (demo_digest [2]))"
      unfolding demo_digest_pair by (simp add: demo_digest_def)
    ultimately show ?thesis by (simp add: hash_bytes_demo_lib inj_on_def)
  qed
  ultimately have "[2] = [[1], [2::u8]] ! 1 \<and> q = q"
    using q by (intro merkle_proof_sound [OF t(1) r q(1)]) auto
  with t(1) r q show ?thesis by blast
qed

text \<open>The tree does not separate leaves from inner nodes and \<open>verify_proof\<close> does not
  check the number of hashes: in every tree of at least two leaves the 64 bytes of the
  first two leaf hashes are accepted as a leaf, with the genuine proof shortened by one.\<close>

lemma merkle_inner_node_accepted:
  assumes "merkle_new L (l0 # l1 # ls) = Ok t" and "merkle_root t = Ok r" and "merkle_proof t 0 = Ok q"
  shows "verify_proof L r
      \<lparr>mp_leaf_index = 0, mp_leaf_hash = combine_hashes L (hash_bytes L l0) (hash_bytes L l1),
       mp_proof_hashes = tl (mp_proof_hashes q)\<rparr>
      (hash_as_bytes (hash_bytes L l0) @ hash_as_bytes (hash_bytes L l1))"
proof -
  let ?ls = "l0 # l1 # ls"
  obtain k where t: "full_tree L ?ls k t" using assms(1) by (rule merkle_new_Ok_shape)
  note tD = full_treeD [OF t]
  obtain m where m: "k = Suc m" using tD(1) by (cases k) auto
  have q: "mp_proof_hashes q = sibling_path (mt_nodes t) k 0"
    using merkle_proof_path [OF t, of 0] assms(3) by simp
  have sib: "mt_nodes t ! (2 ^ k - 1 + 1) = hash_bytes L l1"
    using tD(6) [of 1] tD(1) by simp
  have r: "mt_nodes t ! 0 = r"
    using assms(2) merkle_root_spec_root(1) [OF t] by (simp add: merkle_root_def vec_get_def)
  have "verify_loop L (hash_bytes L l0) 0 (sibling_path (mt_nodes t) k 0) = r"
    using merkle_verify_path [OF t, of 0] r by simp
  then have "verify_loop L (combine_hashes L (hash_bytes L l0) (hash_bytes L l1)) 0
      (tl (sibling_path (mt_nodes t) k 0)) = r"
    using sib by (simp add: m)
  then show ?thesis by (simp add: verify_proof_def combine_hashes_def q)
qed

lemma merkle_inner_node_accepted_witness:
  "\<exists>t r q. merkle_new demo_lib [[1], [2]] = Ok t \<and> merkle_root t = Ok r \<and> merkle_proof t 0 = Ok q \<and>
     verify_proof demo_lib r
       \<lparr>mp_leaf_index = 0,
        mp_leaf_hash = combine_hashes demo_lib (hash_bytes demo_lib [1]) (hash_bytes demo_lib [2]),
        mp_proof_hashes = tl (mp_proof_hashes q)\<rparr>
       (hash_as_bytes (hash_bytes demo_lib [1]) @ hash_as_bytes (hash_bytes demo_lib [2]))"
proof -
  obtain t where t: "merkle_new demo_lib [[1], [2]] = Ok t" "full_tree demo_lib [[1], [2]] 1 t"
    using merkle_new_pow2 [of "[[1], [2]]" 1 demo_lib] by auto
  obtain r q where rq: "merkle_root t = Ok r" "merkle_proof t 0 = Ok q"
    using merkle_proof_path [OF t(2), of 0] merkle_root_spec_root(1) [OF t(2)]
    by (simp add: merkle_root_def vec_get_def)
  from merkle_inner_node_accepted [OF t(1) rq] t(1) rq show ?thesis by blast
qed

end
