(* ===== verification/Block.thy ===== *)
theory Block
  imports World_State Merkle
begin

text \<open>
  \<open>block.rs\<close> of \<open>blockchain-core\<close>: headers, blocks, their construction and validation.
  The record \<open>wire\<close> collects the bincode encoders of the types that are hashed.
\<close>

record BlockHeader =
  bh_number :: BlockNumber
  bh_parent_hash :: hash
  bh_transactions_root :: hash
  bh_state_root :: hash
  bh_timestamp :: Timestamp
  bh_proposer :: address
  bh_gas_limit :: Gas
  bh_gas_used :: Gas
  bh_extra_data :: bytes

record ValidatorSignature =
  vs_validator :: address
  vs_signature :: Signature
  vs_timestamp :: Timestamp

record Block =
  blk_header :: BlockHeader
  blk_transactions :: "Transaction list"
  blk_validator_signatures :: "ValidatorSignature list"

record wire =
  enc_tx :: "Transaction \<Rightarrow> bytes"
  enc_header :: "BlockHeader \<Rightarrow> bytes"
  enc_account :: "Account \<Rightarrow> bytes"

definition header_hash :: "crypto_lib \<Rightarrow> wire \<Rightarrow> BlockHeader \<Rightarrow> hash" where
  "header_hash L W h = hash_bytes L (enc_header W h)"

definition header_validate ::
    "crypto_lib \<Rightarrow> wire \<Rightarrow> BlockHeader \<Rightarrow> BlockHeader \<Rightarrow> (unit, BlockchainError) outcome" where
  "header_validate L W h parent =
     (if bh_number h \<noteq> bh_number parent + 1 then
        Err (InvalidBlock (''Invalid block number: expected '' @ show_u64 (bh_number parent + 1) @
                           '', got '' @ show_u64 (bh_number h)))
      else if bh_parent_hash h \<noteq> header_hash L W parent then Err (InvalidBlock ''Parent hash mismatch'')
      else if bh_timestamp h \<le> bh_timestamp parent then
        Err (InvalidBlock ''Block timestamp must be after parent'')
      else if bh_gas_used h > bh_gas_limit h then Err (InvalidBlock ''Gas used exceeds gas limit'')
      else Ok ())"

definition merkle_root_of_txs ::
    "crypto_lib \<Rightarrow> wire \<Rightarrow> Transaction list \<Rightarrow> (hash, BlockchainError) outcome" where
  "merkle_root_of_txs L W txs =
     (let tx_hashes = map (transaction_hash L (enc_tx W)) txs
      in map_err CryptoErr (and_then (merkle_new L (map hash_as_bytes tx_hashes)) merkle_root))"

definition total_gas_limit :: "Transaction list \<Rightarrow> Gas" where
  "total_gas_limit txs = sum_list (map tx_gas_limit txs)"

definition block_new ::
    "crypto_lib \<Rightarrow> wire \<Rightarrow> Timestamp \<Rightarrow> BlockNumber \<Rightarrow> hash \<Rightarrow> hash \<Rightarrow> address \<Rightarrow> Transaction list \<Rightarrow> Gas
      \<Rightarrow> (Block, BlockchainError) outcome" where
  "block_new L W now number parent_hash state_root proposer txs gas_limit =
     and_then (if txs = [] then Ok hash_zero else merkle_root_of_txs L W txs) (\<lambda>transactions_root.
       let gas_used = total_gas_limit txs;
           header = \<lparr>bh_number = number, bh_parent_hash = parent_hash,
             bh_transactions_root = transactions_root, bh_state_root = state_root,
             bh_timestamp = now, bh_proposer = proposer, bh_gas_limit = gas_limit,
             bh_gas_used = gas_used, bh_extra_data = []\<rparr>
       in Ok \<lparr>blk_header = header, blk_transactions = txs, blk_validator_signatures = []\<rparr>)"

definition block_hash :: "crypto_lib \<Rightarrow> wire \<Rightarrow> Block \<Rightarrow> hash" where
  "block_hash L W b = header_hash L W (blk_header b)"

definition block_number :: "Block \<Rightarrow> BlockNumber" where
  "block_number b = bh_number (blk_header b)"

fun validate_txs :: "Transaction list \<Rightarrow> (unit, BlockchainError) outcome" where
  "validate_txs [] = Ok ()"
| "validate_txs (tx # txs) = and_then (validate_basic tx) (\<lambda>_. validate_txs txs)"

definition block_validate :: "crypto_lib \<Rightarrow> wire \<Rightarrow> Block \<Rightarrow> Block \<Rightarrow> (unit, BlockchainError) outcome" where
  "block_validate L W b parent =
     and_then (header_validate L W (blk_header b) (blk_header parent)) (\<lambda>_.
     and_then (validate_txs (blk_transactions b)) (\<lambda>_.
     and_then
       (if blk_transactions b \<noteq> []
        then and_then (merkle_root_of_txs L W (blk_transactions b)) (\<lambda>computed_root.
               if computed_root \<noteq> bh_transactions_root (blk_header b)
               then Err (InvalidBlock ''Transactions merkle root mismatch'') else Ok ())
        else Ok ()) (\<lambda>_.
     if total_gas_limit (blk_transactions b) \<noteq> bh_gas_used (blk_header b)
     then Err (InvalidBlock ''Gas used calculation mismatch'') else Ok ())))"

definition block_genesis :: "hash \<Rightarrow> Block" where
  "block_genesis genesis_state_root =
     \<lparr>blk_header = \<lparr>bh_number = 0, bh_parent_hash = hash_zero, bh_transactions_root = hash_zero,
        bh_state_root = genesis_state_root, bh_timestamp = 0, bh_proposer = address_zero,
        bh_gas_limit = 10000000, bh_gas_used = 0,
        bh_extra_data = map (\<lambda>c. of_nat (of_char c)) ''Genesis Block''\<rparr>,
      blk_transactions = [], blk_validator_signatures = []\<rparr>"

definition is_genesis :: "Block \<Rightarrow> bool" where
  "is_genesis b \<longleftrightarrow> bh_number (blk_header b) = 0 \<and> bh_parent_hash (blk_header b) = hash_zero"

section \<open>Lemmas\<close>

definition valid_header :: "crypto_lib \<Rightarrow> wire \<Rightarrow> BlockHeader \<Rightarrow> BlockHeader \<Rightarrow> bool" where
  "valid_header L W h parent \<longleftrightarrow>
     bh_number h = bh_number parent + 1 \<and> bh_parent_hash h = header_hash L W parent \<and>
     bh_timestamp parent < bh_timestamp h \<and> bh_gas_used h \<le> bh_gas_limit h"

lemma header_validate_Ok: "header_validate L W h parent = Ok () \<longleftrightarrow> valid_header L W h parent"
  by (auto simp: header_validate_def valid_header_def)

lemma header_validate_not_Panic [simp]: "header_validate L W h parent \<noteq> Panic"
  by (simp add: header_validate_def)

lemma validate_txs_Ok: "validate_txs txs = Ok () \<longleftrightarrow> (\<forall>tx \<in> set txs. validate_basic tx = Ok ())"
  by (induction txs) (auto simp: outcome_simps)

lemma validate_txs_not_Panic [simp]: "validate_txs txs \<noteq> Panic"
  by (induction txs) (auto simp: outcome_simps)

text \<open>The leaves of a block's Merkle tree are the transaction hashes, hashed once more.\<close>

definition tx_leaves :: "crypto_lib \<Rightarrow> wire \<Rightarrow> Transaction list \<Rightarrow> bytes list" where
  "tx_leaves L W txs = map (\<lambda>tx. hash_as_bytes (transaction_hash L (enc_tx W) tx)) txs"

lemma length_tx_leaves [simp]: "length (tx_leaves L W txs) = length txs"
  by (simp add: tx_leaves_def)

definition tx_root_spec :: "crypto_lib \<Rightarrow> wire \<Rightarrow> Transaction list \<Rightarrow> hash" where
  "tx_root_spec L W txs = merkle_root_spec L (map (hash_bytes L) (tx_leaves L W txs))"

lemma merkle_root_of_txs_pow2:
  assumes "length txs = 2 ^ k"
  shows "merkle_root_of_txs L W txs = Ok (tx_root_spec L W txs)"
proof -
  have "length (tx_leaves L W txs) = 2 ^ k" using assms by simp
  then obtain t where t: "merkle_new L (tx_leaves L W txs) = Ok t" "full_tree L (tx_leaves L W txs) k t"
    using merkle_new_pow2 by blast
  have "merkle_root t = Ok (tx_root_spec L W txs)"
    using merkle_root_spec_root [OF t(2)] by (simp add: merkle_root_def vec_get_def tx_root_spec_def)
  with t(1) show ?thesis by (simp add: merkle_root_of_txs_def tx_leaves_def comp_def)
qed

lemma merkle_root_of_txs_Panic:
  assumes "txs \<noteq> []" and "\<nexists>k. length txs = 2 ^ k"
  shows "merkle_root_of_txs L W txs = Panic"
proof -
  have "merkle_new L (tx_leaves L W txs) = Panic"
    using assms by (intro merkle_new_not_pow2) (auto simp: tx_leaves_def)
  then show ?thesis by (simp add: merkle_root_of_txs_def tx_leaves_def comp_def)
qed

lemma merkle_root_of_txs_Ok:
  assumes "txs \<noteq> []"
  shows "merkle_root_of_txs L W txs = Ok r \<longleftrightarrow> (\<exists>k. length txs = 2 ^ k) \<and> r = tx_root_spec L W txs"
  using merkle_root_of_txs_pow2 [of txs _ L W] merkle_root_of_txs_Panic [OF assms, of L W] by fastforce

lemma block_validate_Ok:
  "block_validate L W b parent = Ok () \<longleftrightarrow>
     valid_header L W (blk_header b) (blk_header parent) \<and>
     (\<forall>tx \<in> set (blk_transactions b). validate_basic tx = Ok ()) \<and>
     (blk_transactions b = [] \<or> (\<exists>k. length (blk_transactions b) = 2 ^ k) \<and>
        bh_transactions_root (blk_header b) = tx_root_spec L W (blk_transactions b)) \<and>
     bh_gas_used (blk_header b) = total_gas_limit (blk_transactions b)"
  by (cases "blk_transactions b = []")
    (auto simp: block_validate_def outcome_simps header_validate_Ok validate_txs_Ok
      merkle_root_of_txs_Ok split: if_splits)

lemma block_validate_header:
  "block_validate L W b parent = Ok () \<Longrightarrow> valid_header L W (blk_header b) (blk_header parent)"
  by (simp add: block_validate_Ok)

lemma block_validate_Panic:
  "block_validate L W b parent = Panic \<longleftrightarrow>
     valid_header L W (blk_header b) (blk_header parent) \<and>
     (\<forall>tx \<in> set (blk_transactions b). validate_basic tx = Ok ()) \<and>
     blk_transactions b \<noteq> [] \<and> (\<nexists>k. length (blk_transactions b) = 2 ^ k)"
proof (cases "\<exists>k. length (blk_transactions b) = 2 ^ k")
  case True
  then obtain k where "merkle_root_of_txs L W (blk_transactions b) = Ok (tx_root_spec L W (blk_transactions b))"
    using merkle_root_of_txs_pow2 by blast
  with True show ?thesis
    by (auto simp: block_validate_def outcome_simps split: if_splits)
next
  case False
  then show ?thesis
    by (cases "blk_transactions b = []")
      (auto simp: block_validate_def outcome_simps header_validate_Ok validate_txs_Ok
        merkle_root_of_txs_Panic)
qed

section \<open>Properties\<close>

text \<open>What \<open>Block::validate\<close> accepts: the number follows the parent's, the parent hash
  is the parent's header hash, the timestamp is later, the gas used is within the limit and
  is the sum of the transactions' gas limits, every transaction passes the basic checks
  (signature present, gas limit and price not zero, payload not empty), and the
  transactions root is the recursive Merkle root of their hashes unless there are none.\<close>

lemma block_validate_accepts:
  "block_validate L W b parent = Ok () \<longleftrightarrow>
     bh_number (blk_header b) = bh_number (blk_header parent) + 1 \<and>
     bh_parent_hash (blk_header b) = block_hash L W parent \<and>
     bh_timestamp (blk_header parent) < bh_timestamp (blk_header b) \<and>
     bh_gas_used (blk_header b) \<le> bh_gas_limit (blk_header b) \<and>
     bh_gas_used (blk_header b) = total_gas_limit (blk_transactions b) \<and>
     list_all (\<lambda>tx. tx_signature tx \<noteq> None \<and> tx_gas_limit tx \<noteq> 0 \<and> tx_gas_price tx \<noteq> 0 \<and>
        type_payload_ok (tx_type tx)) (blk_transactions b) \<and>
     (blk_transactions b = [] \<or> (\<exists>k. length (blk_transactions b) = 2 ^ k) \<and>
        bh_transactions_root (blk_header b) = tx_root_spec L W (blk_transactions b))"
  unfolding block_validate_Ok valid_header_def block_hash_def validate_basic_Ok list_all_iff by auto

text \<open>A block whose header and transactions pass every check but whose number of
  transactions is neither zero nor a power of two is neither accepted nor rejected:
  validation panics.\<close>

lemma block_validate_panics:
  "block_validate L W b parent = Panic \<longleftrightarrow>
     header_validate L W (blk_header b) (blk_header parent) = Ok () \<and>
     validate_txs (blk_transactions b) = Ok () \<and>
     blk_transactions b \<noteq> [] \<and> (\<nexists>k. length (blk_transactions b) = 2 ^ k)"
  unfolding block_validate_Panic header_validate_Ok validate_txs_Ok ..

lemma block_new_valid:
  assumes "block_new L W now (block_number parent + 1) (block_hash L W parent) root proposer txs limit = Ok b"
    and "bh_timestamp (blk_header parent) < now"
    and "validate_txs txs = Ok ()"
    and "total_gas_limit txs \<le> limit"
  shows "block_validate L W b parent = Ok ()"
  using assms
  by (cases "txs = []")
    (auto simp: block_new_def block_validate_Ok valid_header_def outcome_simps validate_txs_Ok
      merkle_root_of_txs_Ok block_number_def block_hash_def Let_def)

text \<open>Construction and validation agree: a block made by \<open>Block::new\<close> on top of a
  parent, later than it, from transactions that pass the basic checks, whose number is
  zero or a power of two and whose gas limits sum to at most the block's limit, is
  accepted by \<open>Block::validate\<close> against that parent.\<close>

lemma block_new_validates:
  assumes "block_new L W now (block_number parent + 1) (block_hash L W parent) root proposer txs limit = Ok b"
    and "bh_timestamp (blk_header parent) < now"
    and "validate_txs txs = Ok ()"
    and "total_gas_limit txs \<le> limit"
  shows "block_validate L W b parent = Ok ()"
  using assms by (rule block_new_valid)

definition demo_wire :: wire where
  "demo_wire = \<lparr>enc_tx = (\<lambda>tx. [ucast (tx_nonce tx)]), enc_header = (\<lambda>h. [ucast (bh_number h), 0]),
     enc_account = (\<lambda>acc. [ucast (acc_nonce acc)])\<rparr>"

lemma block_new_validates_witness:
  "\<exists>b. block_new demo_lib demo_wire 5 1 (block_hash demo_lib demo_wire (block_genesis 0)) 0 0 [] 100 = Ok b \<and>
     block_validate demo_lib demo_wire b (block_genesis 0) = Ok ()"
proof -
  let ?g = "block_genesis 0"
  obtain b where b: "block_new demo_lib demo_wire 5 (block_number ?g + 1)
      (block_hash demo_lib demo_wire ?g) 0 0 [] 100 = Ok b"
    by (simp add: block_new_def)
  have "block_validate demo_lib demo_wire b ?g = Ok ()"
    by (rule block_new_validates [OF b]) (simp_all add: block_genesis_def total_gas_limit_def)
  with b show ?thesis by (simp add: block_number_def block_genesis_def)
qed

end
