(* ===== verification/Chain.thy ===== *)
theory Chain
  imports Block
begin

text \<open>
  \<open>chain.rs\<close> of \<open>blockchain-core\<close>: the block store, block import, transaction execution
  and the queries over block ranges. Methods on \<open>&mut self\<close> return the outcome and the
  chain afterwards. A missing head block is the \<open>unwrap\<close> panic of \<open>head_block\<close>.
\<close>

section \<open>The code\<close>

record Blockchain =
  bc_blocks :: "(hash, Block) fmap"
  bc_block_by_number :: "(BlockNumber, hash) fmap"
  bc_head :: hash
  bc_genesis :: hash
  bc_state :: WorldState
  bc_receipts :: "(hash, TransactionReceipt) fmap"

definition blockchain_new :: "crypto_lib \<Rightarrow> wire \<Rightarrow> Block \<Rightarrow> (Blockchain, BlockchainError) outcome" where
  "blockchain_new L W genesis_block =
     (if \<not> is_genesis genesis_block then Err (InvalidChain ''First block must be genesis'')
      else let genesis_hash = block_hash L W genesis_block
           in Ok \<lparr>bc_blocks = fmupd genesis_hash genesis_block fmempty,
                  bc_block_by_number = fmupd 0 genesis_hash fmempty,
                  bc_head = genesis_hash, bc_genesis = genesis_hash,
                  bc_state = ws_new, bc_receipts = fmempty\<rparr>)"

definition unwrap :: "'a option \<Rightarrow> ('a, 'e) outcome" where
  "unwrap x = (case x of Some v \<Rightarrow> Ok v | None \<Rightarrow> Panic)"

definition genesis_block :: "Blockchain \<Rightarrow> (Block, BlockchainError) outcome" where
  "genesis_block c = unwrap (fmlookup (bc_blocks c) (bc_genesis c))"

definition head_block :: "Blockchain \<Rightarrow> (Block, BlockchainError) outcome" where
  "head_block c = unwrap (fmlookup (bc_blocks c) (bc_head c))"

definition height :: "Blockchain \<Rightarrow> (BlockNumber, BlockchainError) outcome" where
  "height c = and_then (head_block c) (\<lambda>b. Ok (block_number b))"

definition get_block :: "Blockchain \<Rightarrow> hash \<Rightarrow> Block option" where
  "get_block c h = fmlookup (bc_blocks c) h"

definition get_block_by_number :: "Blockchain \<Rightarrow> BlockNumber \<Rightarrow> Block option" where
  "get_block_by_number c n =
     Option.bind (fmlookup (bc_block_by_number c) n) (\<lambda>h. fmlookup (bc_blocks c) h)"

definition get_receipt :: "Blockchain \<Rightarrow> hash \<Rightarrow> TransactionReceipt option" where
  "get_receipt c tx_hash = fmlookup (bc_receipts c) tx_hash"

text \<open>The fork branch of \<open>add_block\<close> only writes a log line, so it leaves no trace here.\<close>

definition add_block ::
    "crypto_lib \<Rightarrow> wire \<Rightarrow> Blockchain \<Rightarrow> Block \<Rightarrow> (unit, BlockchainError) outcome \<times> Blockchain" where
  "add_block L W c b =
     (case get_block c (bh_parent_hash (blk_header b)) of
        None \<Rightarrow> (Err (BlockNotFound (bh_parent_hash (blk_header b))), c)
      | Some parent \<Rightarrow>
          (case block_validate L W b parent of
             Err e \<Rightarrow> (Err e, c)
           | Panic \<Rightarrow> (Panic, c)
           | Ok _ \<Rightarrow>
               if bh_state_root (blk_header b) \<noteq> ws_state_root L (enc_account W) (bc_state c)
               then (Err (InvalidBlock ''State root mismatch''), c)
               else case head_block c of
                      Ok _ \<Rightarrow>
                        let h = block_hash L W b; n = block_number b in
                        (Ok (), c\<lparr>bc_blocks := fmupd h b (bc_blocks c),
                                 bc_block_by_number := fmupd n h (bc_block_by_number c),
                                 bc_head := h\<rparr>)
                    | Err e \<Rightarrow> (Err e, c)
                    | Panic \<Rightarrow> (Panic, c)))"

text \<open>The \<open>match\<close> of \<open>execute_transaction_type\<close>: its effect on the state.\<close>

definition apply_tx_type ::
    "WorldState \<Rightarrow> Transaction \<Rightarrow> (unit, BlockchainError) outcome \<times> WorldState" where
  "apply_tx_type w tx =
     (case tx_type tx of
        Transfer to amount \<Rightarrow> ws_transfer w (tx_from tx) to amount
      | Stake amount \<Rightarrow> ws_update_mut w (tx_from tx) (\<lambda>acc. stake acc amount)
      | Unstake amount \<Rightarrow> ws_update_mut w (tx_from tx) (\<lambda>acc. unstake acc amount)
      | DeployLiquidity _ amount \<Rightarrow> ws_update_mut w (tx_from tx) (\<lambda>acc. deploy_liquidity acc amount)
      | WithdrawLiquidity _ amount \<Rightarrow> ws_update_mut w (tx_from tx) (\<lambda>acc. withdraw_liquidity acc amount)
      | _ \<Rightarrow> (Ok (), w))"

definition execution_gas :: Gas where
  "execution_gas = 21000"

definition execute_transaction_type ::
    "crypto_lib \<Rightarrow> wire \<Rightarrow> Blockchain \<Rightarrow> Transaction
      \<Rightarrow> (TransactionReceipt, BlockchainError) outcome \<times> Blockchain" where
  "execute_transaction_type L W c tx =
     (let w0 = snd (ws_update_mut (bc_state c) (tx_from tx) (\<lambda>acc. Ok (increment_nonce acc))) in
      case apply_tx_type w0 tx of
        (Err e, w1) \<Rightarrow> (Err e, c\<lparr>bc_state := w1\<rparr>)
      | (Panic, w1) \<Rightarrow> (Panic, c\<lparr>bc_state := w1\<rparr>)
      | (Ok _, w1) \<Rightarrow>
          let gas_used = execution_gas; gas_fee = calculate_fee tx gas_used in
          case ws_update_mut w1 (tx_from tx) (\<lambda>acc. sub_balance acc gas_fee) of
            (Err e, w2) \<Rightarrow> (Err e, c\<lparr>bc_state := w2\<rparr>)
          | (Panic, w2) \<Rightarrow> (Panic, c\<lparr>bc_state := w2\<rparr>)
          | (Ok _, w2) \<Rightarrow>
              case height c of
                Err e \<Rightarrow> (Err e, c\<lparr>bc_state := w2\<rparr>)
              | Panic \<Rightarrow> (Panic, c\<lparr>bc_state := w2\<rparr>)
              | Ok hgt \<Rightarrow>
                  let tx_hash = transaction_hash L (enc_tx W) tx;
                      receipt = \<lparr>rc_tx_hash = tx_hash, rc_block_number = hgt + 1,
                        rc_from = tx_from tx, rc_to = recipient tx, rc_gas_used = gas_used,
                        rc_status = Success, rc_contract_address = None, rc_logs = []\<rparr>
                  in (Ok receipt, c\<lparr>bc_state := w2, bc_receipts := fmupd tx_hash receipt (bc_receipts c)\<rparr>))"

definition execute_transaction ::
    "crypto_lib \<Rightarrow> wire \<Rightarrow> Blockchain \<Rightarrow> Transaction
      \<Rightarrow> (TransactionReceipt, BlockchainError) outcome \<times> Blockchain" where
  "execute_transaction L W c tx =
     (case validate_basic tx of
        Err e \<Rightarrow> (Err e, c)
      | Panic \<Rightarrow> (Panic, c)
      | Ok _ \<Rightarrow>
          if tx_nonce tx \<noteq> ws_get_nonce (bc_state c) (tx_from tx) then (Err NonceMismatch, c)
          else let max_gas_cost = amount_from_u64 (tx_gas_limit tx * tx_gas_price tx);
                   sender_balance = ws_get_balance (bc_state c) (tx_from tx)
               in if sender_balance < max_gas_cost then (Err InsufficientBalance, c)
                  else case execute_transaction_type L W (c\<lparr>bc_state := ws_checkpoint (bc_state c)\<rparr>) tx of
                         (Ok receipt, c') \<Rightarrow> (Ok receipt, c'\<lparr>bc_state := ws_commit (bc_state c')\<rparr>)
                       | (Err e, c') \<Rightarrow> (Err e, c'\<lparr>bc_state := ws_rollback (bc_state c')\<rparr>)
                       | (Panic, c') \<Rightarrow> (Panic, c'))"

fun execute_transactions ::
    "crypto_lib \<Rightarrow> wire \<Rightarrow> Blockchain \<Rightarrow> Transaction list \<Rightarrow> (unit, BlockchainError) outcome \<times> Blockchain" where
  "execute_transactions L W c [] = (Ok (), c)"
| "execute_transactions L W c (tx # txs) =
     (case execute_transaction L W c tx of
        (Ok receipt, c') \<Rightarrow>
          execute_transactions L W
            (c'\<lparr>bc_receipts := fmupd (transaction_hash L (enc_tx W) tx) receipt (bc_receipts c')\<rparr>) txs
      | (Err e, c') \<Rightarrow> (Err e, c')
      | (Panic, c') \<Rightarrow> (Panic, c'))"

definition add_block_with_execution ::
    "crypto_lib \<Rightarrow> wire \<Rightarrow> Blockchain \<Rightarrow> Block \<Rightarrow> (unit, BlockchainError) outcome \<times> Blockchain" where
  "add_block_with_execution L W c b =
     (case execute_transactions L W c (blk_transactions b) of
        (Err e, c') \<Rightarrow> (Err e, c')
      | (Panic, c') \<Rightarrow> (Panic, c')
      | (Ok _, c') \<Rightarrow>
          if bh_state_root (blk_header b) \<noteq> ws_state_root L (enc_account W) (bc_state c')
          then (Err (InvalidBlock ''State root mismatch after execution''),
                c'\<lparr>bc_state := ws_rollback (bc_state c')\<rparr>)
          else add_block L W c' b)"

definition get_block_range :: "Blockchain \<Rightarrow> BlockNumber \<Rightarrow> BlockNumber \<Rightarrow> Block list" where
  "get_block_range c start finish =
     List.map_filter (get_block_by_number c) (map of_nat [unat start..<Suc (unat finish)])"

definition get_recent_blocks :: "Blockchain \<Rightarrow> u64 \<Rightarrow> (Block list, BlockchainError) outcome" where
  "get_recent_blocks c count =
     and_then (height c) (\<lambda>hgt. let start = saturating_sub hgt count in Ok (get_block_range c start hgt))"

definition get_transactions_in_range :: "Blockchain \<Rightarrow> BlockNumber \<Rightarrow> BlockNumber \<Rightarrow> Transaction list" where
  "get_transactions_in_range c start finish = concat (map blk_transactions (get_block_range c start finish))"

definition get_block_receipts ::
    "crypto_lib \<Rightarrow> wire \<Rightarrow> Blockchain \<Rightarrow> BlockNumber \<Rightarrow> TransactionReceipt list" where
  "get_block_receipts L W c n =
     (case get_block_by_number c n of
        Some b \<Rightarrow> List.map_filter (\<lambda>tx. get_receipt c (transaction_hash L (enc_tx W) tx)) (blk_transactions b)
      | None \<Rightarrow> [])"

definition has_transaction :: "Blockchain \<Rightarrow> hash \<Rightarrow> bool" where
  "has_transaction c tx_hash \<longleftrightarrow> fmlookup (bc_receipts c) tx_hash \<noteq> None"

text \<open>\<open>find_transaction\<close> walks the \<open>block_by_number\<close> hash map in the order \<open>es\<close>.\<close>

fun find_transaction ::
    "crypto_lib \<Rightarrow> wire \<Rightarrow> Blockchain \<Rightarrow> (BlockNumber \<times> hash) list \<Rightarrow> hash \<Rightarrow> (BlockNumber \<times> Transaction) option" where
  "find_transaction L W c [] tx_hash = None"
| "find_transaction L W c ((n, h) # es) tx_hash =
     (case fmlookup (bc_blocks c) h of
        None \<Rightarrow> find_transaction L W c es tx_hash
      | Some b \<Rightarrow>
          (case find (\<lambda>tx. transaction_hash L (enc_tx W) tx = tx_hash) (blk_transactions b) of
             Some tx \<Rightarrow> Some (n, tx)
           | None \<Rightarrow> find_transaction L W c es tx_hash))"

definition get_total_gas_used :: "Blockchain \<Rightarrow> BlockNumber \<Rightarrow> BlockNumber \<Rightarrow> u64" where
  "get_total_gas_used c start finish =
     sum_list (map (\<lambda>b. bh_gas_used (blk_header b)) (get_block_range c start finish))"

definition get_transaction_count :: "Blockchain \<Rightarrow> BlockNumber \<Rightarrow> BlockNumber \<Rightarrow> u64" where
  "get_transaction_count c start finish =
     sum_list (map (\<lambda>b. of_nat (length (blk_transactions b))) (get_block_range c start finish))"

fun verify_chain_loop ::
    "crypto_lib \<Rightarrow> wire \<Rightarrow> Blockchain \<Rightarrow> Block \<Rightarrow> nat list \<Rightarrow> (unit, BlockchainError) outcome" where
  "verify_chain_loop L W c current [] = Ok ()"
| "verify_chain_loop L W c current (i # is) =
     and_then (ok_or (InvalidChain (''Missing block at height '' @ show_nat i))
                (get_block_by_number c (of_nat i))) (\<lambda>next_block.
     and_then (block_validate L W next_block current) (\<lambda>_.
     verify_chain_loop L W c next_block is))"

definition verify_chain :: "crypto_lib \<Rightarrow> wire \<Rightarrow> Blockchain \<Rightarrow> (unit, BlockchainError) outcome" where
  "verify_chain L W c =
     and_then (genesis_block c) (\<lambda>current.
     and_then (height c) (\<lambda>hgt.
     verify_chain_loop L W c current [1..<Suc (unat hgt)]))"

end
