(* ===== verification/Chain_Execution.thy ===== *)
theory Chain_Execution
  imports Chain
begin

text \<open>
  What executing a transaction does. \<open>exec_spec\<close> is the abstract semantics: a function
  on total account assignments, with no journal, no hash maps and no receipts.
  \<open>execute_transaction\<close> refines it: it returns an error exactly when the specification
  does, the same one, and leaves the chain untouched; otherwise its accounts are the
  specified ones.
\<close>

section \<open>The abstract semantics\<close>

type_synonym ledger = "address \<Rightarrow> Account"

definition update_at ::
    "ledger \<Rightarrow> address \<Rightarrow> (Account \<Rightarrow> (Account, BlockchainError) outcome) \<Rightarrow> (ledger, BlockchainError) outcome" where
  "update_at A a f = and_then (f (A a)) (\<lambda>acc. Ok (A(a := acc)))"

definition type_spec :: "ledger \<Rightarrow> address \<Rightarrow> TransactionType \<Rightarrow> (ledger, BlockchainError) outcome" where
  "type_spec A from ty =
     (case ty of
        Transfer to n \<Rightarrow>
          if acc_balance (A from) < n then Err InsufficientBalance
          else Ok (A(from := (A from)\<lparr>acc_balance := acc_balance (A from) - n\<rparr>,
                     to := (A to)\<lparr>acc_balance := acc_balance (A to) + n\<rparr>))
      | Stake n \<Rightarrow> update_at A from (\<lambda>acc. stake acc n)
      | Unstake n \<Rightarrow> update_at A from (\<lambda>acc. unstake acc n)
      | DeployLiquidity _ n \<Rightarrow> update_at A from (\<lambda>acc. deploy_liquidity acc n)
      | WithdrawLiquidity _ n \<Rightarrow> update_at A from (\<lambda>acc. withdraw_liquidity acc n)
      | _ \<Rightarrow> Ok A)"

definition tx_fee :: "Transaction \<Rightarrow> nat" where
  "tx_fee tx = unat (21000 * tx_gas_price tx)"

definition exec_spec :: "ledger \<Rightarrow> Transaction \<Rightarrow> (ledger, BlockchainError) outcome" where
  "exec_spec A tx =
     and_then (validate_basic tx) (\<lambda>_.
     if tx_nonce tx \<noteq> acc_nonce (A (tx_from tx)) then Err NonceMismatch
     else if acc_balance (A (tx_from tx)) < unat (tx_gas_limit tx * tx_gas_price tx) then Err InsufficientBalance
     else and_then (type_spec (A(tx_from tx := increment_nonce (A (tx_from tx)))) (tx_from tx) (tx_type tx))
            (\<lambda>B. update_at B (tx_from tx) (\<lambda>acc. sub_balance acc (tx_fee tx))))"

section \<open>Lemmas: refinement\<close>

lemma account_op_not_Panic [simp]:
  "stake acc n \<noteq> Panic" "unstake acc n \<noteq> Panic" "deploy_liquidity acc n \<noteq> Panic"
  "withdraw_liquidity acc n \<noteq> Panic" "sub_balance acc n \<noteq> Panic" "add_balance acc n \<noteq> Panic"
  by (auto simp: account_ops)

text \<open>A state change implements a specified result: same error, or the specified accounts.\<close>

definition implements ::
    "(unit, BlockchainError) outcome \<times> WorldState \<Rightarrow> (ledger, BlockchainError) outcome \<Rightarrow> bool" where
  "implements rw S \<longleftrightarrow>
     (case S of
        Ok B \<Rightarrow> fst rw = Ok () \<and> ws_get_account (snd rw) = B
      | Err e \<Rightarrow> fst rw = Err e
      | Panic \<Rightarrow> False)"

lemma update_mut_refines:
  assumes "\<And>acc. f acc \<noteq> Panic"
  shows "implements (ws_update_mut w a f) (update_at (ws_get_account w) a f)"
  using assms [of "ws_get_account w a"]
  by (cases "f (ws_get_account w a)")
    (simp_all add: implements_def update_at_def fst_ws_update_mut ws_get_account_update_mut)

lemma apply_tx_type_refines:
  "implements (apply_tx_type w tx) (type_spec (ws_get_account w) (tx_from tx) (tx_type tx))"
proof (cases "tx_type tx")
  case (Transfer to n)
  then show ?thesis
    by (cases "n \<le> ws_get_balance w (tx_from tx)")
      (simp_all add: implements_def type_spec_def apply_tx_type_def ws_transfer_enough ws_transfer_refused
        ws_get_balance_account not_le)
next
  case (ContractDeployment code args)
  then show ?thesis by (simp add: implements_def type_spec_def apply_tx_type_def)
next
  case (ContractCall contract data)
  then show ?thesis by (simp add: implements_def type_spec_def apply_tx_type_def)
qed (simp_all add: type_spec_def apply_tx_type_def update_mut_refines)

lemma apply_tx_type_journal [simp]:
  "ws_rollback (snd (apply_tx_type w tx)) = ws_rollback w"
  "commit_loop (modifications (snd (apply_tx_type w tx))) = commit_loop (modifications w)"
  by (cases "tx_type tx"; simp add: apply_tx_type_def)+

text \<open>The three state changes of \<open>execute_transaction_type\<close>, as one function of the state.\<close>

lemma execute_transaction_type_refines:
  fixes c tx
  defines "S \<equiv> and_then (type_spec ((ws_get_account (bc_state c))
      (tx_from tx := increment_nonce (ws_get_account (bc_state c) (tx_from tx)))) (tx_from tx) (tx_type tx))
    (\<lambda>B. update_at B (tx_from tx) (\<lambda>acc. sub_balance acc (tx_fee tx)))"
  assumes "head_block c = Ok hb"
  shows "case S of
      Ok B \<Rightarrow> (\<exists>w r. execute_transaction_type L W c tx =
          (Ok r, c\<lparr>bc_state := w, bc_receipts := fmupd (transaction_hash L (enc_tx W) tx) r (bc_receipts c)\<rparr>) \<and>
          ws_get_account w = B \<and> ws_rollback w = ws_rollback (bc_state c) \<and>
          commit_loop (modifications w) = commit_loop (modifications (bc_state c)) \<and>
          rc_gas_used r = 21000 \<and> rc_block_number r = block_number hb + 1)
    | Err e \<Rightarrow> (\<exists>w. execute_transaction_type L W c tx = (Err e, c\<lparr>bc_state := w\<rparr>) \<and>
          ws_rollback w = ws_rollback (bc_state c))
    | Panic \<Rightarrow> False"
proof -
  define w0 where "w0 = snd (ws_update_mut (bc_state c) (tx_from tx) (\<lambda>acc. Ok (increment_nonce acc)))"
  have w0: "ws_get_account w0 = (ws_get_account (bc_state c))
      (tx_from tx := increment_nonce (ws_get_account (bc_state c) (tx_from tx)))"
    "ws_rollback w0 = ws_rollback (bc_state c)"
    "commit_loop (modifications w0) = commit_loop (modifications (bc_state c))"
    by (simp_all add: w0_def ws_get_account_update_mut)
  have hgt: "height c = Ok (block_number hb)" using assms(2) by (simp add: height_def)
  obtain r1 w1 where w1: "apply_tx_type w0 tx = (r1, w1)" by (cases "apply_tx_type w0 tx")
  have w1j: "ws_rollback w1 = ws_rollback w0" "commit_loop (modifications w1) = commit_loop (modifications w0)"
    using apply_tx_type_journal [of w0 tx] w1 by simp_all
  define f where "f = (\<lambda>acc. sub_balance acc (tx_fee tx))"
  obtain r2 w2 where w2: "ws_update_mut w1 (tx_from tx) f = (r2, w2)"
    by (cases "ws_update_mut w1 (tx_from tx) f")
  have w2j: "ws_rollback w2 = ws_rollback w1" "commit_loop (modifications w2) = commit_loop (modifications w1)"
    using ws_rollback_update_mut [of w1 "tx_from tx" f] commit_loop_update_mut [of w1 "tx_from tx" f] w2
    by simp_all
  have fee: "(\<lambda>acc. sub_balance acc (calculate_fee tx execution_gas)) = f"
    by (simp add: f_def fun_eq_iff calculate_fee_def execution_gas_def tx_fee_def amount_from_u64_def)
  note exec = execute_transaction_type_def [of L W c tx, unfolded Let_def, folded w0_def, unfolded fee]
  have S: "S = and_then (type_spec (ws_get_account w0) (tx_from tx) (tx_type tx))
      (\<lambda>B. update_at B (tx_from tx) f)"
    by (simp only: S_def w0 f_def)
  have ref1: "implements (r1, w1) (type_spec (ws_get_account w0) (tx_from tx) (tx_type tx))"
    using apply_tx_type_refines [of w0 tx] by (simp only: w1)
  have np: "f acc \<noteq> Panic" for acc by (simp add: f_def)
  have ref2: "implements (r2, w2) (update_at (ws_get_account w1) (tx_from tx) f)"
    using update_mut_refines [where f = f, OF np, of w1 "tx_from tx"] unfolding w2 .
  show ?thesis
  proof (cases "type_spec (ws_get_account w0) (tx_from tx) (tx_type tx)")
    case (Ok B)
    then have r1: "r1 = Ok ()" "ws_get_account w1 = B" using ref1 by (simp_all add: implements_def)
    show ?thesis
      using ref2 r1 w0(2,3) w1j w2j
      by (cases "update_at B (tx_from tx) f")
        (auto simp: S Ok exec w1 w2 hgt execution_gas_def implements_def)
  next
    case (Err e)
    then show ?thesis using ref1 w0(2,3) w1j by (auto simp: S exec w1 implements_def)
  next
    case Panic
    then show ?thesis using ref1 by (simp add: implements_def)
  qed
qed

text \<open>What \<open>execute_transaction\<close> does, on every branch.\<close>

definition executes_to ::
    "crypto_lib \<Rightarrow> wire \<Rightarrow> Blockchain \<Rightarrow> Transaction \<Rightarrow> ledger \<Rightarrow> TransactionReceipt \<Rightarrow> Blockchain \<Rightarrow> bool" where
  "executes_to L W c tx B r c' \<longleftrightarrow>
     execute_transaction L W c tx = (Ok r, c') \<and>
     ws_get_account (bc_state c') = B \<and> modifications (bc_state c') = modifications (bc_state c) \<and>
     bc_receipts c' = fmupd (transaction_hash L (enc_tx W) tx) r (bc_receipts c) \<and>
     bc_blocks c' = bc_blocks c \<and> bc_block_by_number c' = bc_block_by_number c \<and>
     bc_head c' = bc_head c \<and> bc_genesis c' = bc_genesis c"

lemma execute_transaction_refines:
  assumes head: "head_block c = Ok hb"
  shows "case exec_spec (ws_get_account (bc_state c)) tx of
      Ok B \<Rightarrow> (\<exists>r c'. executes_to L W c tx B r c' \<and> rc_gas_used r = 21000 \<and> rc_block_number r = block_number hb + 1)
    | Err e \<Rightarrow> execute_transaction L W c tx = (Err e, c)
    | Panic \<Rightarrow> False"
proof (cases "validate_basic tx")
  case (Ok u)
  let ?A = "ws_get_account (bc_state c)"
  let ?c1 = "c\<lparr>bc_state := ws_checkpoint (bc_state c)\<rparr>"
  consider (nonce) "tx_nonce tx \<noteq> acc_nonce (?A (tx_from tx))"
    | (gas) "tx_nonce tx = acc_nonce (?A (tx_from tx))"
        "acc_balance (?A (tx_from tx)) < unat (tx_gas_limit tx * tx_gas_price tx)"
    | (run) "tx_nonce tx = acc_nonce (?A (tx_from tx))"
        "\<not> acc_balance (?A (tx_from tx)) < unat (tx_gas_limit tx * tx_gas_price tx)"
    by blast
  then show ?thesis
  proof cases
    case nonce
    then show ?thesis using Ok by (simp add: exec_spec_def execute_transaction_def ws_get_nonce_account)
  next
    case gas
    then show ?thesis
      using Ok by (simp add: exec_spec_def execute_transaction_def ws_get_nonce_account
          ws_get_balance_account amount_from_u64_def)
  next
    case run
    define S where "S = and_then (type_spec (?A(tx_from tx := increment_nonce (?A (tx_from tx)))) (tx_from tx) (tx_type tx))
        (\<lambda>B. update_at B (tx_from tx) (\<lambda>acc. sub_balance acc (tx_fee tx)))"
    have spec: "exec_spec ?A tx = S" using Ok run by (simp add: exec_spec_def S_def)
    have exec: "execute_transaction L W c tx = (case execute_transaction_type L W ?c1 tx of
          (Ok receipt, c') \<Rightarrow> (Ok receipt, c'\<lparr>bc_state := ws_commit (bc_state c')\<rparr>)
        | (Err e, c') \<Rightarrow> (Err e, c'\<lparr>bc_state := ws_rollback (bc_state c')\<rparr>)
        | (Panic, c') \<Rightarrow> (Panic, c'))"
      using Ok run by (simp add: execute_transaction_def ws_get_nonce_account ws_get_balance_account
          amount_from_u64_def)
    have "head_block ?c1 = Ok hb" using head by (simp add: head_block_def)
    moreover have S1: "and_then (type_spec ((ws_get_account (bc_state ?c1))
          (tx_from tx := increment_nonce (ws_get_account (bc_state ?c1) (tx_from tx)))) (tx_from tx) (tx_type tx))
        (\<lambda>B. update_at B (tx_from tx) (\<lambda>acc. sub_balance acc (tx_fee tx))) = S"
      by (simp add: S_def)
    ultimately have ref: "case S of
        Ok B \<Rightarrow> (\<exists>w r. execute_transaction_type L W ?c1 tx =
          (Ok r, ?c1\<lparr>bc_state := w, bc_receipts := fmupd (transaction_hash L (enc_tx W) tx) r (bc_receipts c)\<rparr>) \<and>
          ws_get_account w = B \<and> ws_rollback w = bc_state c \<and>
          commit_loop (modifications w) = modifications (bc_state c) \<and>
          rc_gas_used r = 21000 \<and> rc_block_number r = block_number hb + 1)
      | Err e \<Rightarrow> (\<exists>w. execute_transaction_type L W ?c1 tx = (Err e, ?c1\<lparr>bc_state := w\<rparr>) \<and>
          ws_rollback w = bc_state c)
      | Panic \<Rightarrow> False"
      using execute_transaction_type_refines [where c = ?c1 and hb = hb and tx = tx and L = L and W = W]
      unfolding S1 by (cases S) simp_all
    show ?thesis
    proof (cases S)
      case (Ok B)
      with ref obtain w r where "execute_transaction_type L W ?c1 tx =
          (outcome.Ok r, ?c1\<lparr>bc_state := w, bc_receipts := fmupd (transaction_hash L (enc_tx W) tx) r (bc_receipts c)\<rparr>)"
        "ws_get_account w = B" "commit_loop (modifications w) = modifications (bc_state c)"
        "rc_gas_used r = 21000" "rc_block_number r = block_number hb + 1"
        by auto
      then show ?thesis
        by (simp add: spec Ok exec executes_to_def ws_commit_def ws_get_account_def fun_eq_iff)
    next
      case (Err e)
      with ref obtain w where "execute_transaction_type L W ?c1 tx = (outcome.Err e, ?c1\<lparr>bc_state := w\<rparr>)"
        "ws_rollback w = bc_state c"
        by auto
      then show ?thesis by (simp add: spec Err exec)
    next
      case Panic
      then show ?thesis using ref by simp
    qed
  qed
qed (simp_all add: exec_spec_def execute_transaction_def)

lemma execute_transaction_OkE:
  assumes "head_block c = Ok hb" and "execute_transaction L W c tx = (Ok r, c')"
  obtains B where "exec_spec (ws_get_account (bc_state c)) tx = Ok B" and "executes_to L W c tx B r c'"
  using execute_transaction_refines [OF assms(1), where L = L and W = W and tx = tx] assms(2) that
  by (cases "exec_spec (ws_get_account (bc_state c)) tx") (auto simp: executes_to_def)

lemma execute_transaction_head:
  "executes_to L W c tx B r c' \<Longrightarrow> head_block c' = head_block c"
  by (simp add: executes_to_def head_block_def)

section \<open>Lemmas: the specification\<close>

lemma exec_spec_nonce:
  assumes "exec_spec A tx = Ok B"
  shows "acc_nonce (B (tx_from tx)) = tx_nonce tx + 1"
  using assms
  by (cases "tx_type tx")
    (auto simp: exec_spec_def type_spec_def update_at_def account_ops outcome_simps split: if_splits)

definition holdings :: "Account \<Rightarrow> nat" where
  "holdings acc = acc_balance acc + acc_staked acc"

definition self_transfer :: "Transaction \<Rightarrow> bool" where
  "self_transfer tx \<longleftrightarrow> (case tx_type tx of Transfer to _ \<Rightarrow> to = tx_from tx | _ \<Rightarrow> False)"

text \<open>Changing one account changes the total by the difference.\<close>

lemma holdings_upd:
  assumes "finite {k. holdings (A k) \<noteq> 0}"
  shows "support_sum (\<lambda>k. holdings ((A(a := acc)) k)) + holdings (A a) =
      support_sum (\<lambda>k. holdings (A k)) + holdings acc"
    and "finite {k. holdings ((A(a := acc)) k) \<noteq> 0}"
proof -
  have eq: "(\<lambda>k. holdings ((A(a := acc)) k)) = (\<lambda>k. holdings (A k))(a := holdings acc)"
    by (simp add: fun_eq_iff)
  show "support_sum (\<lambda>k. holdings ((A(a := acc)) k)) + holdings (A a) =
      support_sum (\<lambda>k. holdings (A k)) + holdings acc"
    unfolding eq using support_sum_upd [OF assms] .
  show "finite {k. holdings ((A(a := acc)) k) \<noteq> 0}"
    unfolding fun_cong [OF eq] using finite_support_upd [OF assms] .
qed

lemma holdings_update_at:
  assumes "finite {k. holdings (A k) \<noteq> 0}" and "update_at A a f = Ok B"
    and "\<And>acc'. f (A a) = Ok acc' \<Longrightarrow> holdings acc' + n = holdings (A a)"
  shows "support_sum (\<lambda>k. holdings (B k)) + n = support_sum (\<lambda>k. holdings (A k))"
    and "finite {k. holdings (B k) \<noteq> 0}"
proof -
  obtain acc' where B: "f (A a) = Ok acc'" "B = A(a := acc')"
    using assms(2) by (auto simp: update_at_def outcome_simps)
  show "support_sum (\<lambda>k. holdings (B k)) + n = support_sum (\<lambda>k. holdings (A k))"
    using holdings_upd(1) [OF assms(1), of a acc'] assms(3) [OF B(1)] by (simp add: B(2))
  show "finite {k. holdings (B k) \<noteq> 0}"
    using holdings_upd(2) [OF assms(1)] by (simp add: B(2))
qed

lemma holdings_account_ops:
  "stake acc n = Ok acc' \<Longrightarrow> holdings acc' = holdings acc"
  "unstake acc n = Ok acc' \<Longrightarrow> holdings acc' = holdings acc"
  "deploy_liquidity acc n = Ok acc' \<Longrightarrow> holdings acc' = holdings acc"
  "withdraw_liquidity acc n = Ok acc' \<Longrightarrow> holdings acc' = holdings acc"
  "sub_balance acc n = Ok acc' \<Longrightarrow> holdings acc' + n = holdings acc"
  by (auto simp: holdings_def account_ops split: if_splits)

lemma holdings_type_spec:
  assumes fin: "finite {k. holdings (A k) \<noteq> 0}" and "type_spec A from ty = Ok B"
    and "\<And>n. ty \<noteq> Transfer from n"
  shows "support_sum (\<lambda>k. holdings (B k)) = support_sum (\<lambda>k. holdings (A k)) \<and> finite {k. holdings (B k) \<noteq> 0}"
proof (cases ty)
  case (Transfer to n)
  then have ne: "to \<noteq> from" using assms(3) by auto
  let ?x = "(A from)\<lparr>acc_balance := acc_balance (A from) - n\<rparr>"
  let ?y = "(A to)\<lparr>acc_balance := acc_balance (A to) + n\<rparr>"
  have B: "n \<le> acc_balance (A from)" "B = A(from := ?x, to := ?y)"
    using assms(2) Transfer by (auto simp: type_spec_def split: if_splits)
  note h1 = holdings_upd [OF fin, of "from" ?x]
  note h2 = holdings_upd [OF h1(2), of to ?y]
  have "holdings ?x + n = holdings (A from)" "holdings ?y = holdings (A to) + n"
    using B(1) by (simp_all add: holdings_def)
  then show ?thesis using h1(1) h2 ne by (simp add: B(2) del: fun_upd_apply add: fun_upd_other)
qed (use assms holdings_update_at [OF fin, where n = 0] holdings_account_ops
      in \<open>auto simp: type_spec_def\<close>)

lemma exec_spec_holdings:
  assumes fin: "finite {k. holdings (A k) \<noteq> 0}" and "exec_spec A tx = Ok B" and "\<not> self_transfer tx"
  shows "support_sum (\<lambda>k. holdings (B k)) + tx_fee tx = support_sum (\<lambda>k. holdings (A k))"
proof -
  let ?A1 = "A(tx_from tx := increment_nonce (A (tx_from tx)))"
  have h: "holdings (increment_nonce acc) = holdings acc" for acc
    by (simp add: holdings_def increment_nonce_def)
  have A1: "support_sum (\<lambda>k. holdings (?A1 k)) = support_sum (\<lambda>k. holdings (A k))"
      "finite {k. holdings (?A1 k) \<noteq> 0}"
    using holdings_upd [OF fin, of "tx_from tx" "increment_nonce (A (tx_from tx))"] by (simp_all only: h add_right_cancel)
  obtain C where C: "type_spec ?A1 (tx_from tx) (tx_type tx) = Ok C"
    "update_at C (tx_from tx) (\<lambda>acc. sub_balance acc (tx_fee tx)) = Ok B"
    using assms(2) by (auto simp: exec_spec_def outcome_simps split: if_splits)
  have "tx_type tx \<noteq> Transfer (tx_from tx) n" for n using assms(3) by (auto simp: self_transfer_def)
  note hC = holdings_type_spec [OF A1(2) C(1) this]
  have "support_sum (\<lambda>k. holdings (B k)) + tx_fee tx = support_sum (\<lambda>k. holdings (C k))"
    using hC C(2) holdings_account_ops(5) by (intro holdings_update_at(1)) auto
  with hC A1(1) show ?thesis by simp
qed

definition total_holdings :: "WorldState \<Rightarrow> nat" where
  "total_holdings w = fm_sum holdings (accounts w)"

lemma total_holdings_support:
  "total_holdings w = support_sum (\<lambda>k. holdings (ws_get_account w k))"
  "finite {k. holdings (ws_get_account w k) \<noteq> 0}"
proof -
  have d: "holdings account_new = 0" by (simp add: holdings_def account_new_def amount_zero_def)
  show "total_holdings w = support_sum (\<lambda>k. holdings (ws_get_account w k))"
    "finite {k. holdings (ws_get_account w k) \<noteq> 0}"
    using fm_sum_support [where f = holdings, OF d, of "accounts w"]
    by (simp_all add: total_holdings_def ws_get_account_def)
qed

lemma execute_transactions_journal:
  assumes "head_block c = Ok hb" and "execute_transactions L W c txs = (Ok u, c')"
  shows "modifications (bc_state c') = modifications (bc_state c) \<and> head_block c' = Ok hb"
  using assms
proof (induction txs arbitrary: c)
  case Nil
  then show ?case by simp
next
  case (Cons tx txs)
  obtain r c1 where c1: "execute_transaction L W c tx = (Ok r, c1)"
    using Cons.prems(2) by (auto split: prod.splits outcome.splits)
  let ?c2 = "c1\<lparr>bc_receipts := fmupd (transaction_hash L (enc_tx W) tx) r (bc_receipts c1)\<rparr>"
  obtain B where B: "executes_to L W c tx B r c1"
    using Cons.prems(1) c1 by (rule execute_transaction_OkE)
  have "head_block ?c2 = Ok hb"
    using execute_transaction_head [OF B] Cons.prems(1) by (simp add: head_block_def)
  moreover have "execute_transactions L W ?c2 txs = (Ok u, c')" using Cons.prems(2) c1 by simp
  ultimately have "modifications (bc_state c') = modifications (bc_state ?c2) \<and> head_block c' = Ok hb"
    by (rule Cons.IH)
  then show ?case using B by (simp add: executes_to_def)
qed

section \<open>Properties\<close>

text \<open>C2. Transaction execution refines its specification: on a chain whose head block is
  present, a transaction the specification rejects returns that error and leaves the whole
  chain as it was, journal included; a transaction it accepts returns a receipt, turns the
  accounts into the specified ones, stores the receipt under the transaction hash and
  changes nothing else. It never panics.\<close>

theorem execute_transaction_correct:
  assumes "head_block c = Ok hb"
  shows "case exec_spec (ws_get_account (bc_state c)) tx of
      Ok B \<Rightarrow> (\<exists>r c'. execute_transaction L W c tx = (Ok r, c') \<and>
        ws_get_account (bc_state c') = B \<and> modifications (bc_state c') = modifications (bc_state c) \<and>
        bc_receipts c' = fmupd (transaction_hash L (enc_tx W) tx) r (bc_receipts c) \<and>
        bc_blocks c' = bc_blocks c \<and> bc_block_by_number c' = bc_block_by_number c \<and>
        bc_head c' = bc_head c \<and> bc_genesis c' = bc_genesis c \<and>
        rc_gas_used r = 21000 \<and> rc_block_number r = block_number hb + 1)
    | Err e \<Rightarrow> execute_transaction L W c tx = (Err e, c)
    | Panic \<Rightarrow> False"
  using execute_transaction_refines [OF assms, where L = L and W = W and tx = tx]
  by (cases "exec_spec (ws_get_account (bc_state c)) tx") (auto simp: executes_to_def)

text \<open>A chain with one funded account and a transfer on it, for the witnesses.\<close>

definition demo_chain :: Blockchain where
  "demo_chain = \<lparr>bc_blocks = fmupd 512 (block_genesis 0) fmempty, bc_block_by_number = fmupd 0 512 fmempty,
     bc_head = 512, bc_genesis = 512,
     bc_state = \<lparr>accounts = fmupd 1 (account_with_balance 100000) fmempty, modifications = []\<rparr>,
     bc_receipts = fmempty\<rparr>"

definition demo_transfer :: "address \<Rightarrow> Amount \<Rightarrow> Nonce \<Rightarrow> Transaction" where
  "demo_transfer to n nonce = (transaction_new 5 1 nonce (Transfer to n) 1 21000)
     \<lparr>tx_signature := Some \<lparr>sig_scheme = Ed25519, sig_bytes = []\<rparr>\<rparr>"

lemmas demo_simps = demo_chain_def demo_transfer_def transaction_new_def account_with_balance_def
  account_new_def amount_defs

lemma demo_chain_head: "head_block demo_chain = Ok (block_genesis 0)"
  by (simp add: demo_chain_def head_block_def unwrap_def)

lemma demo_exec_spec:
  "exec_spec (ws_get_account (bc_state demo_chain)) (demo_transfer 2 300 0) =
     Ok ((ws_get_account (bc_state demo_chain))
       (1 := account_new\<lparr>acc_nonce := 1, acc_balance := 78700\<rparr>, 2 := account_with_balance 300))"
  by (simp add: exec_spec_def validate_basic_def validate_type_def type_spec_def update_at_def
      demo_simps ws_get_account_def account_ops tx_fee_def fun_eq_iff)

lemma demo_execution:
  obtains r c' where "execute_transaction demo_lib demo_wire demo_chain (demo_transfer 2 300 0) = (Ok r, c')"
    and "ws_get_account (bc_state c') = (ws_get_account (bc_state demo_chain))
       (1 := account_new\<lparr>acc_nonce := 1, acc_balance := 78700\<rparr>, 2 := account_with_balance 300)"
  using execute_transaction_refines [OF demo_chain_head, where L = demo_lib and W = demo_wire
      and tx = "demo_transfer 2 300 0"]
  by (auto simp: demo_exec_spec executes_to_def)

theorem execute_transaction_correct_witness:
  "\<exists>r c'. execute_transaction demo_lib demo_wire demo_chain (demo_transfer 2 300 0) = (Ok r, c') \<and>
     acc_balance (ws_get_account (bc_state c') 2) = 300 \<and> rc_block_number r = 1"
  using execute_transaction_correct [OF demo_chain_head, where L = demo_lib and W = demo_wire
      and tx = "demo_transfer 2 300 0"]
  by (auto simp: demo_exec_spec account_with_balance_def block_number_def block_genesis_def)

text \<open>C3. No replay: once a transaction has been executed, executing it again on the
  resulting chain returns \<open>NonceMismatch\<close> and changes nothing.\<close>

theorem execute_transaction_no_replay:
  assumes "head_block c = Ok hb" and "execute_transaction L W c tx = (Ok r, c')"
  shows "execute_transaction L W c' tx = (Err NonceMismatch, c')"
proof -
  obtain B where B: "exec_spec (ws_get_account (bc_state c)) tx = Ok B" "executes_to L W c tx B r c'"
    using assms by (rule execute_transaction_OkE)
  have "validate_basic tx = Ok ()" using B(1) by (auto simp: exec_spec_def outcome_simps)
  moreover have "ws_get_nonce (bc_state c') (tx_from tx) = tx_nonce tx + 1"
    using exec_spec_nonce [OF B(1)] B(2) by (simp add: executes_to_def ws_get_nonce_account)
  ultimately show ?thesis by (simp add: execute_transaction_def eq_commute [of "tx_nonce tx"])
qed

theorem execute_transaction_no_replay_witness:
  "\<exists>r c'. execute_transaction demo_lib demo_wire demo_chain (demo_transfer 2 300 0) = (Ok r, c') \<and>
     execute_transaction demo_lib demo_wire c' (demo_transfer 2 300 0) = (Err NonceMismatch, c')"
proof -
  obtain r c' where e: "execute_transaction demo_lib demo_wire demo_chain (demo_transfer 2 300 0) = (Ok r, c')"
    by (rule demo_execution)
  from execute_transaction_no_replay [OF demo_chain_head e] e show ?thesis by blast
qed

text \<open>C4. Conservation: an executed transaction that is not a transfer to its own sender
  lowers the tokens held and staked in all accounts together by exactly its fee, 21000
  units of gas at its price (in 64-bit arithmetic); nothing else is created or destroyed.\<close>

theorem execute_transaction_conserves:
  assumes "head_block c = Ok hb" and "execute_transaction L W c tx = (Ok r, c')" and "\<not> self_transfer tx"
  shows "total_holdings (bc_state c') + tx_fee tx = total_holdings (bc_state c)"
proof -
  obtain B where B: "exec_spec (ws_get_account (bc_state c)) tx = Ok B" "executes_to L W c tx B r c'"
    using assms(1,2) by (rule execute_transaction_OkE)
  show ?thesis
    using exec_spec_holdings [OF total_holdings_support(2) B(1) assms(3)] B(2)
    by (simp add: total_holdings_support(1) executes_to_def)
qed

theorem execute_transaction_conserves_witness:
  "\<exists>r c'. execute_transaction demo_lib demo_wire demo_chain (demo_transfer 2 300 0) = (Ok r, c') \<and>
     total_holdings (bc_state c') + 21000 = total_holdings (bc_state demo_chain)"
proof -
  obtain r c' where e: "execute_transaction demo_lib demo_wire demo_chain (demo_transfer 2 300 0) = (Ok r, c')"
    by (rule demo_execution)
  have "\<not> self_transfer (demo_transfer 2 300 0)" "tx_fee (demo_transfer 2 300 0) = 21000"
    by (simp_all add: self_transfer_def tx_fee_def demo_transfer_def transaction_new_def)
  with execute_transaction_conserves [OF demo_chain_head e] e show ?thesis by auto
qed

text \<open>C40. Block execution is not atomic: every transaction commits its own journal, so when
  the state root disagrees after a block has been executed, the \<open>rollback\<close> of
  \<open>add_block_with_execution\<close> finds only what was journalled before the block, since its last open checkpoint. The block is
  refused, and every account without an entry there keeps the effects of the block's transactions; with an empty
  journal all of them stay. An account with an entry is set back, to what a rollback without the block would have made it.\<close>

theorem add_block_with_execution_keeps_effects:
  assumes "head_block c = Ok hb" and "execute_transactions L W c (blk_transactions b) = (Ok u, c')"
    and "bh_state_root (blk_header b) \<noteq> ws_state_root L (enc_account W) (bc_state c')"
  shows "\<exists>w. add_block_with_execution L W c b =
      (Err (InvalidBlock ''State root mismatch after execution''), c'\<lparr>bc_state := w\<rparr>) \<and>
    (\<forall>a. fmlookup (accounts w) a =
       (if recorded a (modifications (bc_state c)) then fmlookup (accounts (ws_rollback (bc_state c))) a
        else fmlookup (accounts (bc_state c')) a)) \<and>
    (modifications (bc_state c) = [] \<longrightarrow> c'\<lparr>bc_state := w\<rparr> = c')"
proof -
  have j: "modifications (bc_state c') = modifications (bc_state c)" using execute_transactions_journal [OF assms(1,2)] by simp
  let ?w = "ws_rollback (bc_state c')"
  have "add_block_with_execution L W c b =
      (Err (InvalidBlock ''State root mismatch after execution''), c'\<lparr>bc_state := ?w\<rparr>)"
    using assms(2,3) by (simp add: add_block_with_execution_def)
  moreover have "fmlookup (accounts ?w) a =
      (if recorded a (modifications (bc_state c)) then fmlookup (accounts (ws_rollback (bc_state c))) a
       else fmlookup (accounts (bc_state c')) a)" for a
    unfolding accounts_rollback j using rollback_loop_recorded rollback_loop_unrecorded by simp
  moreover have "c'\<lparr>bc_state := ?w\<rparr> = c'" if "modifications (bc_state c) = []"
    using that j by (simp add: ws_rollback_def)
  ultimately show ?thesis by blast
qed

theorem add_block_with_execution_keeps_effects_witness:
  "\<exists>b c'. blk_transactions b = [demo_transfer 2 300 0] \<and>
     add_block_with_execution demo_lib demo_wire demo_chain b =
       (Err (InvalidBlock ''State root mismatch after execution''), c') \<and>
     acc_balance (ws_get_account (bc_state demo_chain) 2) = 0 \<and>
     acc_balance (ws_get_account (bc_state c') 2) = 300"
proof -
  let ?t = "demo_transfer 2 300 0"
  obtain r c1 where e: "execute_transaction demo_lib demo_wire demo_chain ?t = (Ok r, c1)"
    and acc: "ws_get_account (bc_state c1) = (ws_get_account (bc_state demo_chain))
       (1 := account_new\<lparr>acc_nonce := 1, acc_balance := 78700\<rparr>, 2 := account_with_balance 300)"
    by (rule demo_execution)
  let ?c2 = "c1\<lparr>bc_receipts := fmupd (transaction_hash demo_lib (enc_tx demo_wire) ?t) r (bc_receipts c1)\<rparr>"
  let ?b = "(block_genesis (ws_state_root demo_lib (enc_account demo_wire) (bc_state ?c2) + 1))
      \<lparr>blk_transactions := [?t]\<rparr>"
  have run: "execute_transactions demo_lib demo_wire demo_chain (blk_transactions ?b) = (Ok (), ?c2)"
    by (simp add: e)
  have "bh_state_root (blk_header ?b) \<noteq> ws_state_root demo_lib (enc_account demo_wire) (bc_state ?c2)"
    by (simp add: block_genesis_def)
  moreover have "modifications (bc_state demo_chain) = []" by (simp add: demo_chain_def)
  ultimately have "add_block_with_execution demo_lib demo_wire demo_chain ?b =
      (Err (InvalidBlock ''State root mismatch after execution''), ?c2)"
    using add_block_with_execution_keeps_effects [OF demo_chain_head run] by auto
  moreover have "acc_balance (ws_get_account (bc_state demo_chain) 2) = 0"
    "acc_balance (ws_get_account (bc_state ?c2) 2) = 300"
    using acc by (simp_all add: demo_simps ws_get_account_def)
  ultimately show ?thesis by (intro exI [of _ ?b] exI [of _ ?c2]) simp
qed

end
