(* ===== verification/Chain_Import.thy ===== *)
theory Chain_Import
  imports Chain_Execution
begin

text \<open>
  What importing blocks keeps true. \<open>chain_wf\<close> is the well-formedness of the block
  store; it is an invariant of every operation of the chain, stated as a step relation.
  \<open>linear_chain\<close> describes a chain grown only at its head, on which \<open>verify_chain\<close>
  succeeds. Both are relative to header hashes not colliding: a block imported under a
  hash that is in use has the same header as the block stored there.
\<close>

section \<open>The import step\<close>

lemma add_block_Ok_iff:
  "fst (add_block L W c b) = Ok () \<longleftrightarrow>
     (\<exists>parent. get_block c (bh_parent_hash (blk_header b)) = Some parent \<and>
        block_validate L W b parent = Ok ()) \<and>
     bh_state_root (blk_header b) = ws_state_root L (enc_account W) (bc_state c) \<and>
     is_ok (head_block c)"
  by (auto simp: add_block_def Let_def split: option.splits outcome.splits if_splits)

lemma add_block_not_Ok: "fst (add_block L W c b) \<noteq> Ok () \<Longrightarrow> snd (add_block L W c b) = c"
  by (auto simp: add_block_def Let_def split: option.splits outcome.splits if_splits)

lemma add_block_OkE:
  assumes "add_block L W c b = (Ok u, c')"
  obtains parent where "get_block c (bh_parent_hash (blk_header b)) = Some parent"
    and "block_validate L W b parent = Ok ()"
    and "c' = c\<lparr>bc_blocks := fmupd (block_hash L W b) b (bc_blocks c),
        bc_block_by_number := fmupd (block_number b) (block_hash L W b) (bc_block_by_number c),
        bc_head := block_hash L W b\<rparr>"
  using assms by (auto simp: add_block_def Let_def split: option.splits outcome.splits if_splits)

section \<open>Well-formed block stores\<close>

definition no_collision :: "crypto_lib \<Rightarrow> wire \<Rightarrow> Blockchain \<Rightarrow> Block \<Rightarrow> bool" where
  "no_collision L W c b =
     (case fmlookup (bc_blocks c) (block_hash L W b) of
        None \<Rightarrow> True
      | Some b' \<Rightarrow> blk_header b' = blk_header b)"

definition linked :: "crypto_lib \<Rightarrow> wire \<Rightarrow> Blockchain \<Rightarrow> Block \<Rightarrow> bool" where
  "linked L W c b =
     (case fmlookup (bc_blocks c) (bh_parent_hash (blk_header b)) of
        None \<Rightarrow> False
      | Some parent \<Rightarrow> block_validate L W b parent = Ok ())"

definition chain_wf :: "crypto_lib \<Rightarrow> wire \<Rightarrow> Blockchain \<Rightarrow> bool" where
  "chain_wf L W c \<longleftrightarrow>
     (\<forall>h b. fmlookup (bc_blocks c) h = Some b \<longrightarrow>
        block_hash L W b = h \<and> (h = bc_genesis c \<or> linked L W c b)) \<and>
     (\<exists>g. fmlookup (bc_blocks c) (bc_genesis c) = Some g \<and> is_genesis g) \<and>
     fmlookup (bc_blocks c) (bc_head c) \<noteq> None \<and>
     (\<forall>n h. fmlookup (bc_block_by_number c) n = Some h \<longrightarrow>
        (\<exists>b. fmlookup (bc_blocks c) h = Some b \<and> block_number b = n))"

lemma chain_wfI:
  assumes "\<And>h b. fmlookup (bc_blocks c) h = Some b \<Longrightarrow>
      block_hash L W b = h \<and> (h = bc_genesis c \<or> linked L W c b)"
    and "\<exists>g. fmlookup (bc_blocks c) (bc_genesis c) = Some g \<and> is_genesis g"
    and "fmlookup (bc_blocks c) (bc_head c) \<noteq> None"
    and "\<And>n h. fmlookup (bc_block_by_number c) n = Some h \<Longrightarrow>
      \<exists>b. fmlookup (bc_blocks c) h = Some b \<and> block_number b = n"
  shows "chain_wf L W c"
  using assms unfolding chain_wf_def by blast

lemma chain_wf_state [simp]:
  "chain_wf L W (c\<lparr>bc_state := w\<rparr>) = chain_wf L W c"
  "chain_wf L W (c\<lparr>bc_receipts := r\<rparr>) = chain_wf L W c"
  by (simp_all add: chain_wf_def linked_def)

lemma chain_wf_cong:
  assumes "bc_blocks c' = bc_blocks c" "bc_block_by_number c' = bc_block_by_number c"
    "bc_head c' = bc_head c" "bc_genesis c' = bc_genesis c"
  shows "chain_wf L W c' = chain_wf L W c"
  using assms by (simp add: chain_wf_def linked_def)

lemma chain_wf_head: "chain_wf L W c \<Longrightarrow> \<exists>hb. head_block c = Ok hb"
  by (auto simp: chain_wf_def head_block_def unwrap_def)

lemma block_validate_parent_header:
  "blk_header p = blk_header q \<Longrightarrow> block_validate L W b p = block_validate L W b q"
  by (simp add: block_validate_def)

lemma chain_wf_new:
  assumes "blockchain_new L W g = Ok c"
  shows "chain_wf L W c"
  using assms by (auto simp: blockchain_new_def chain_wf_def Let_def is_genesis_def block_number_def split: if_splits)

lemma chain_wf_insert:
  assumes wf: "chain_wf L W c" and nc: "no_collision L W c b"
    and p: "get_block c (bh_parent_hash (blk_header b)) = Some parent" "block_validate L W b parent = Ok ()"
  shows "chain_wf L W (c\<lparr>bc_blocks := fmupd (block_hash L W b) b (bc_blocks c),
      bc_block_by_number := fmupd (block_number b) (block_hash L W b) (bc_block_by_number c),
      bc_head := block_hash L W b\<rparr>)"
proof -
  let ?h = "block_hash L W b"
  let ?c = "c\<lparr>bc_blocks := fmupd ?h b (bc_blocks c),
      bc_block_by_number := fmupd (block_number b) ?h (bc_block_by_number c), bc_head := ?h\<rparr>"
  have same: "blk_header b' = blk_header b" if "fmlookup (bc_blocks c) ?h = Some b'" for b'
    using nc that by (simp add: no_collision_def)
  have keep: "linked L W ?c x" if lx: "linked L W c x" for x
  proof -
    obtain q where q: "fmlookup (bc_blocks c) (bh_parent_hash (blk_header x)) = Some q"
      "block_validate L W x q = Ok ()"
      using lx by (auto simp: linked_def split: option.splits)
    show ?thesis
    proof (cases "bh_parent_hash (blk_header x) = ?h")
      case True
      then have "blk_header b = blk_header q" using same [of q] q(1) by metis
      then have "block_validate L W x b = Ok ()" using block_validate_parent_header [of b q L W x] q(2) by simp
      with True show ?thesis by (simp add: linked_def)
    next
      case False
      with q show ?thesis by (simp add: linked_def)
    qed
  qed
  have new: "linked L W c b" using p by (simp add: linked_def get_block_def)
  have gen: "\<exists>g. fmlookup (bc_blocks ?c) (bc_genesis ?c) = Some g \<and> is_genesis g"
    using wf same by (auto simp: chain_wf_def is_genesis_def)
  have num: "\<exists>x. fmlookup (bc_blocks ?c) h = Some x \<and> block_number x = n"
    if h: "fmlookup (bc_block_by_number ?c) n = Some h" for n h
  proof (cases "n = block_number b")
    case True
    then show ?thesis using h by simp
  next
    case False
    then have "fmlookup (bc_block_by_number c) n = Some h" using h by simp
    then obtain y where y: "fmlookup (bc_blocks c) h = Some y" "block_number y = n"
      using wf unfolding chain_wf_def by blast
    have "h \<noteq> ?h" using same [of y] y False by (auto simp: block_number_def)
    with y show ?thesis by simp
  qed
  have blk: "block_hash L W x = h \<and> (h = bc_genesis ?c \<or> linked L W ?c x)"
    if x: "fmlookup (bc_blocks ?c) h = Some x" for h x
  proof (cases "h = ?h")
    case True
    with x keep [OF new] show ?thesis by simp
  next
    case False
    with x have "fmlookup (bc_blocks c) h = Some x" by simp
    with wf keep [of x] have "block_hash L W x = h \<and> (h = bc_genesis c \<or> linked L W ?c x)"
      unfolding chain_wf_def by blast
    then show ?thesis by simp
  qed
  show ?thesis
    by (rule chain_wfI, erule blk, rule gen, simp, erule num)
qed

lemma chain_wf_add_block:
  assumes "chain_wf L W c" and "no_collision L W c b"
  shows "chain_wf L W (snd (add_block L W c b))"
proof (cases "fst (add_block L W c b) = Ok ()")
  case True
  then have "add_block L W c b = (Ok (), snd (add_block L W c b))" by (simp add: prod_eq_iff)
  then show ?thesis
    using chain_wf_insert [OF assms] by (elim add_block_OkE) simp
next
  case False
  then show ?thesis using add_block_not_Ok assms(1) by metis
qed

lemma execute_transaction_blocks:
  assumes "chain_wf L W c"
  shows "bc_blocks (snd (execute_transaction L W c tx)) = bc_blocks c \<and>
    bc_block_by_number (snd (execute_transaction L W c tx)) = bc_block_by_number c \<and>
    bc_head (snd (execute_transaction L W c tx)) = bc_head c \<and>
    bc_genesis (snd (execute_transaction L W c tx)) = bc_genesis c"
proof -
  obtain hb where "head_block c = Ok hb" using chain_wf_head [OF assms] by blast
  from execute_transaction_refines [OF this, where L = L and W = W and tx = tx] show ?thesis
    by (cases "exec_spec (ws_get_account (bc_state c)) tx") (auto simp: executes_to_def)
qed

lemma chain_wf_execute_transaction:
  "chain_wf L W c \<Longrightarrow> chain_wf L W (snd (execute_transaction L W c tx))"
  using execute_transaction_blocks chain_wf_cong by metis

lemma execute_transactions_wf:
  assumes "chain_wf L W c"
  shows "chain_wf L W (snd (execute_transactions L W c txs)) \<and>
    bc_blocks (snd (execute_transactions L W c txs)) = bc_blocks c"
  using assms
proof (induction txs arbitrary: c)
  case (Cons tx txs)
  obtain r c1 where e: "execute_transaction L W c tx = (r, c1)" by (cases "execute_transaction L W c tx")
  have c1: "chain_wf L W c1" "bc_blocks c1 = bc_blocks c"
    using chain_wf_execute_transaction [OF Cons.prems, of tx] execute_transaction_blocks [OF Cons.prems, of tx] e
    by simp_all
  show ?case
  proof (cases r)
    case (Ok rc)
    let ?c2 = "c1\<lparr>bc_receipts := fmupd (transaction_hash L (enc_tx W) tx) rc (bc_receipts c1)\<rparr>"
    have "chain_wf L W ?c2" using c1(1) by simp
    from Cons.IH [OF this] show ?thesis using c1(2) by (simp add: e Ok)
  qed (use c1 in \<open>simp_all add: e\<close>)
qed simp

lemma chain_wf_add_block_with_execution:
  assumes "chain_wf L W c" and "no_collision L W c b"
  shows "chain_wf L W (snd (add_block_with_execution L W c b))"
proof -
  obtain r c1 where e: "execute_transactions L W c (blk_transactions b) = (r, c1)"
    by (cases "execute_transactions L W c (blk_transactions b)")
  have c1: "chain_wf L W c1" "bc_blocks c1 = bc_blocks c"
    using execute_transactions_wf [OF assms(1), of "blk_transactions b"] e by simp_all
  have "no_collision L W c1 b" using assms(2) c1(2) by (simp add: no_collision_def)
  with chain_wf_add_block [OF c1(1)] c1 show ?thesis
    by (simp add: add_block_with_execution_def e split: outcome.splits)
qed

section \<open>The chain as a state machine\<close>

text \<open>
  One rule per way a caller changes a chain; \<open>state_mut\<close> hands out the world state, so
  the caller may replace it by any other.
\<close>

inductive chain_step :: "crypto_lib \<Rightarrow> wire \<Rightarrow> Blockchain \<Rightarrow> Blockchain \<Rightarrow> bool" for L W where
  import_block: "no_collision L W c b \<Longrightarrow> chain_step L W c (snd (add_block L W c b))"
| import_and_execute: "no_collision L W c b \<Longrightarrow> chain_step L W c (snd (add_block_with_execution L W c b))"
| execute: "chain_step L W c (snd (execute_transaction L W c tx))"
| mutate_state: "chain_step L W c (c\<lparr>bc_state := w\<rparr>)"

inductive chain_reachable :: "crypto_lib \<Rightarrow> wire \<Rightarrow> Blockchain \<Rightarrow> bool" for L W where
  created: "blockchain_new L W g = Ok c \<Longrightarrow> chain_reachable L W c"
| stepped: "chain_reachable L W c \<Longrightarrow> chain_step L W c c' \<Longrightarrow> chain_reachable L W c'"

lemma chain_step_wf: "chain_step L W c c' \<Longrightarrow> chain_wf L W c \<Longrightarrow> chain_wf L W c'"
  by (induction rule: chain_step.induct)
    (auto intro: chain_wf_add_block chain_wf_add_block_with_execution chain_wf_execute_transaction)

lemma chain_reachable_wf: "chain_reachable L W c \<Longrightarrow> chain_wf L W c"
  by (induction rule: chain_reachable.induct) (auto intro: chain_wf_new chain_step_wf)


section \<open>Chains grown at the head\<close>

text \<open>
  \<open>path\<close> lists the blocks of a chain from genesis to head. A block that extends the
  head appends to it, as long as the 64-bit block number does not wrap around.
\<close>

definition linear_chain :: "crypto_lib \<Rightarrow> wire \<Rightarrow> Blockchain \<Rightarrow> Block list \<Rightarrow> bool" where
  "linear_chain L W c path \<longleftrightarrow>
     path \<noteq> [] \<and> length path \<le> 2 ^ 64 \<and>
     genesis_block c = Ok (hd path) \<and> head_block c = Ok (last path) \<and>
     (\<forall>i < length path. block_number (path ! i) = of_nat i \<and>
        get_block_by_number c (of_nat i) = Some (path ! i)) \<and>
     (\<forall>i. Suc i < length path \<longrightarrow> block_validate L W (path ! Suc i) (path ! i) = Ok ())"

inductive chain_grown :: "crypto_lib \<Rightarrow> wire \<Rightarrow> Blockchain \<Rightarrow> bool" for L W where
  new: "blockchain_new L W g = Ok c \<Longrightarrow> chain_grown L W c"
| extend: "chain_grown L W c \<Longrightarrow> no_collision L W c b \<Longrightarrow> add_block L W c b = (Ok u, c') \<Longrightarrow>
    bh_parent_hash (blk_header b) = bc_head c \<Longrightarrow> block_number b \<noteq> 0 \<Longrightarrow> chain_grown L W c'"
| state: "chain_grown L W c \<Longrightarrow> chain_grown L W (c\<lparr>bc_state := w\<rparr>)"

lemma chain_grown_reachable: "chain_grown L W c \<Longrightarrow> chain_reachable L W c"
proof (induction rule: chain_grown.induct)
  case (extend c b u c')
  then have "chain_step L W c (snd (add_block L W c b))" by (intro import_block)
  with extend show ?case by (auto intro: stepped)
qed (auto intro: created stepped mutate_state)

lemma verify_chain_loop_path:
  assumes "\<And>i. k \<le> i \<Longrightarrow> i < n \<Longrightarrow> get_block_by_number c (of_nat i) = Some (path ! i)"
    and "\<And>i. k \<le> i \<Longrightarrow> i < n \<Longrightarrow> block_validate L W (path ! i) (path ! (i - 1)) = Ok ()"
    and "0 < k"
  shows "verify_chain_loop L W c (path ! (k - 1)) [k..<n] = Ok ()"
  using assms
proof (induction "n - k" arbitrary: k)
  case (Suc d)
  then have "k < n" by simp
  then have "[k..<n] = k # [Suc k..<n]" by (simp add: upt_conv_Cons)
  moreover have "verify_chain_loop L W c (path ! (Suc k - 1)) [Suc k..<n] = Ok ()"
    using Suc by (intro Suc.hyps(1)) auto
  ultimately show ?case using Suc.prems \<open>k < n\<close> by simp
qed simp

lemma linear_chain_verifies:
  assumes "linear_chain L W c path"
  shows "verify_chain L W c = Ok ()"
proof -
  let ?n = "length path"
  have p: "path \<noteq> []" "?n \<le> 2 ^ 64" "genesis_block c = Ok (path ! 0)" "head_block c = Ok (path ! (?n - 1))"
    using assms by (auto simp: linear_chain_def hd_conv_nth last_conv_nth)
  have "block_number (path ! (?n - 1)) = of_nat (?n - 1)"
    using assms p(1) by (simp add: linear_chain_def)
  then have "Suc (unat (block_number (path ! (?n - 1)))) = ?n"
    using p(1,2) by (simp add: unat_of_nat)
  moreover have "verify_chain_loop L W c (path ! (1 - 1)) [1..<?n] = Ok ()"
  proof (rule verify_chain_loop_path)
    fix i
    assume i: "1 \<le> i" "i < ?n"
    then show "get_block_by_number c (of_nat i) = Some (path ! i)"
      using assms by (simp add: linear_chain_def)
    from i have "Suc (i - 1) < ?n" "Suc (i - 1) = i" by simp_all
    then show "block_validate L W (path ! i) (path ! (i - 1)) = Ok ()"
      using assms unfolding linear_chain_def by metis
  qed simp
  ultimately show ?thesis using p by (simp add: verify_chain_def height_def del: upt_Suc)
qed

lemma block_validate_number: "block_validate L W b parent = Ok () \<Longrightarrow> block_number b = block_number parent + 1"
  by (simp add: block_validate_Ok valid_header_def block_number_def)

lemma linear_chain_extend:
  assumes lin: "linear_chain L W c path" and wf: "chain_wf L W c" and nc: "no_collision L W c b"
    and add: "add_block L W c b = (Ok u, c')" and hd: "bh_parent_hash (blk_header b) = bc_head c"
    and nz: "block_number b \<noteq> 0"
  shows "linear_chain L W c' (path @ [b])"
proof -
  let ?n = "length path" and ?h = "block_hash L W b"
  obtain parent where par: "get_block c (bh_parent_hash (blk_header b)) = Some parent"
      "block_validate L W b parent = Ok ()"
    and c': "c' = c\<lparr>bc_blocks := fmupd ?h b (bc_blocks c),
        bc_block_by_number := fmupd (block_number b) ?h (bc_block_by_number c), bc_head := ?h\<rparr>"
    using add by (rule add_block_OkE)
  have parent: "parent = path ! (?n - 1)"
    using lin par(1) hd by (auto simp: linear_chain_def head_block_def unwrap_def get_block_def last_conv_nth)
  have p: "path \<noteq> []" "?n \<le> 2 ^ 64" using lin by (auto simp: linear_chain_def)
  have num: "block_number b = of_nat ?n"
  proof -
    obtain m where m: "?n = Suc m" using p(1) by (cases path) auto
    then have "block_number parent = of_nat m" using lin parent by (simp add: linear_chain_def)
    with block_validate_number [OF par(2)] m show ?thesis by (simp add: add.commute)
  qed
  have "?n \<noteq> 2 ^ 64" using num nz by auto
  with p have lt: "?n < 2 ^ 64" by simp
  have idx: "of_nat i \<noteq> block_number b" if "i < ?n" for i
    using that lt num by (simp add: word_unat_eq_iff unat_of_nat)
  have other: "?h \<noteq> h" if "fmlookup (bc_blocks c) h = Some y" "block_number y \<noteq> block_number b" for h y
    using nc that by (auto simp: no_collision_def block_number_def)
  have look: "get_block_by_number c' (of_nat i) = Some (path ! i)" if i: "i < ?n" for i
  proof -
    obtain h where h: "fmlookup (bc_block_by_number c) (of_nat i) = Some h"
      "fmlookup (bc_blocks c) h = Some (path ! i)"
      using lin i by (auto simp: linear_chain_def get_block_by_number_def bind_eq_Some_conv)
    have "?h \<noteq> h" using h(2) lin i idx [OF i] by (intro other) (auto simp: linear_chain_def)
    with h idx [OF i] show ?thesis by (simp add: get_block_by_number_def c')
  qed
  have new: "get_block_by_number c' (of_nat ?n) = Some b"
    by (simp add: get_block_by_number_def c' num)
  have gen: "genesis_block c' = Ok (hd (path @ [b]))"
  proof -
    have g: "fmlookup (bc_blocks c) (bc_genesis c) = Some (path ! 0)"
      using lin by (auto simp: linear_chain_def genesis_block_def unwrap_def hd_conv_nth split: option.splits)
    have "block_number (path ! 0) \<noteq> block_number b" using lin p nz by (simp add: linear_chain_def)
    from other [OF g this] g p(1) show ?thesis by (simp add: genesis_block_def c' unwrap_def hd_conv_nth nth_append)
  qed
  have valid: "block_validate L W ((path @ [b]) ! Suc i) ((path @ [b]) ! i) = Ok ()" if "Suc i < Suc ?n" for i
  proof (cases "Suc i < ?n")
    case True
    then show ?thesis using lin by (simp add: linear_chain_def nth_append)
  next
    case False
    with that have "Suc i = ?n" "i = ?n - 1" by simp_all
    with par(2) parent show ?thesis by (auto simp: nth_append)
  qed
  have "head_block c' = Ok b" by (simp add: head_block_def c' unwrap_def)
  then show ?thesis
    using lt gen look new num valid lin
    by (auto simp: linear_chain_def nth_append less_Suc_eq)
qed

lemma chain_grown_linear: "chain_grown L W c \<Longrightarrow> \<exists>path. linear_chain L W c path"
proof (induction rule: chain_grown.induct)
  case (new g c)
  then have "linear_chain L W c [g]"
    by (auto simp: blockchain_new_def linear_chain_def Let_def is_genesis_def block_number_def genesis_block_def
        head_block_def unwrap_def get_block_by_number_def split: if_splits)
  then show ?case by blast
next
  case (extend c b u c')
  then show ?case using linear_chain_extend chain_reachable_wf chain_grown_reachable by metis
next
  case (state c w)
  then obtain path where "linear_chain L W c path" by blast
  then have "linear_chain L W (c\<lparr>bc_state := w\<rparr>) path"
    by (simp add: linear_chain_def genesis_block_def head_block_def get_block_by_number_def)
  then show ?case by blast
qed


section \<open>Importing a stored block again\<close>

lemma add_block_again:
  assumes wf: "chain_wf L W c" and b: "fmlookup (bc_blocks c) h = Some b" "h \<noteq> bc_genesis c"
    and root: "bh_state_root (blk_header b) = ws_state_root L (enc_account W) (bc_state c)"
  shows "add_block L W c b = (Ok (), c\<lparr>bc_block_by_number := fmupd (block_number b) h (bc_block_by_number c),
      bc_head := h\<rparr>)"
proof -
  have h: "block_hash L W b = h" and "linked L W c b" using wf b unfolding chain_wf_def by blast+
  then obtain parent where "get_block c (bh_parent_hash (blk_header b)) = Some parent"
    "block_validate L W b parent = Ok ()"
    by (auto simp: linked_def get_block_def split: option.splits)
  moreover obtain hb where "head_block c = Ok hb" using chain_wf_head [OF wf] by blast
  moreover have "fmupd h b (bc_blocks c) = bc_blocks c"
    using b(1) by (intro fmap_ext) auto
  ultimately show ?thesis using root h by (simp add: add_block_def)
qed

section \<open>Recent blocks\<close>

lemma linear_chain_range:
  assumes lin: "linear_chain L W c path" and "unat m < length path"
  shows "get_block_range c start m = map ((!) path) [unat start..<Suc (unat m)]"
proof -
  have "List.map_filter (get_block_by_number c) (map of_nat is) = map ((!) path) is"
    if "\<forall>i \<in> set is. i < length path" for "is"
    using that by (induction "is") (use lin in \<open>auto simp: linear_chain_def map_filter_def\<close>)
  with assms(2) show ?thesis by (simp add: get_block_range_def del: upt_Suc)
qed

lemma linear_chain_height:
  assumes lin: "linear_chain L W c path"
  shows "height c = Ok (of_nat (length path - 1))" and "unat (of_nat (length path - 1) :: u64) = length path - 1"
proof -
  have p: "path \<noteq> []" "length path \<le> 2 ^ 64" "head_block c = Ok (path ! (length path - 1))"
    using lin by (auto simp: linear_chain_def last_conv_nth)
  moreover have "block_number (path ! i) = of_nat i" if "i < length path" for i
    using lin that by (simp add: linear_chain_def)
  ultimately have "block_number (path ! (length path - 1)) = of_nat (length path - 1)" by simp
  then show "height c = Ok (of_nat (length path - 1))"
    using p(3) by (simp add: height_def)
  have "length path - 1 < 2 ^ 64" using p by (cases path) auto
  then show "unat (of_nat (length path - 1) :: u64) = length path - 1"
    by (simp add: unat_of_nat)
qed

lemma linear_chain_recent:
  assumes lin: "linear_chain L W c path"
  shows "get_recent_blocks c count = Ok (map ((!) path) [length path - 1 - unat count..<length path])"
proof -
  note h = linear_chain_height [OF lin]
  have "path \<noteq> []" using lin by (simp add: linear_chain_def)
  then have "length path - 1 < length path" "Suc (length path - 1) = length path" by simp_all
  with linear_chain_range [OF lin, of "of_nat (length path - 1)"] h show ?thesis
    by (simp add: get_recent_blocks_def unat_saturating_sub del: upt_Suc)
qed

section \<open>An example chain\<close>

text \<open>An example chain of empty blocks, each on top of the one before.\<close>

definition demo_hash :: "nat \<Rightarrow> hash" where
  "demo_hash n = of_nat (512 + n)"

definition demo_block :: "nat \<Rightarrow> Block" where
  "demo_block n = (block_genesis 0)\<lparr>blk_header := (blk_header (block_genesis 0))\<lparr>bh_number := of_nat n,
     bh_parent_hash := (if n = 0 then hash_zero else demo_hash (n - 1)), bh_timestamp := of_nat n\<rparr>\<rparr>"

primrec demo_chain_of :: "nat \<Rightarrow> Blockchain" where
  "demo_chain_of 0 = \<lparr>bc_blocks = fmupd (demo_hash 0) (demo_block 0) fmempty, bc_block_by_number = fmupd 0 (demo_hash 0) fmempty,
     bc_head = demo_hash 0, bc_genesis = demo_hash 0, bc_state = ws_new, bc_receipts = fmempty\<rparr>"
| "demo_chain_of (Suc n) = (demo_chain_of n)
     \<lparr>bc_blocks := fmupd (demo_hash (Suc n)) (demo_block (Suc n)) (bc_blocks (demo_chain_of n)),
      bc_block_by_number := fmupd (of_nat (Suc n)) (demo_hash (Suc n)) (bc_block_by_number (demo_chain_of n)),
      bc_head := demo_hash (Suc n)\<rparr>"

lemma ucast_small: "n < 256 \<Longrightarrow> (ucast (ucast (of_nat n :: u64) :: u8) :: hash) = of_nat n"
  by (simp add: word_unat_eq_iff unsigned_ucast_eq unsigned_take_bit_eq unat_of_nat take_bit_nat_eq_self)

lemma demo_hash_inject: "i < 256 \<Longrightarrow> j < 256 \<Longrightarrow> demo_hash i = demo_hash j \<longleftrightarrow> i = j"
  by (simp add: demo_hash_def word_unat_eq_iff unat_of_nat del: of_nat_add)

lemma demo_block_hash: "n < 256 \<Longrightarrow> block_hash demo_lib demo_wire (demo_block n) = demo_hash n"
  by (simp add: block_hash_def header_hash_def hash_bytes_demo_lib demo_digest_def demo_wire_def demo_block_def
      block_genesis_def ucast_small demo_hash_def)

lemma demo_block_validate:
  assumes "Suc n < 256"
  shows "block_validate demo_lib demo_wire (demo_block (Suc n)) (demo_block n) = Ok ()"
proof -
  have "bh_parent_hash (blk_header (demo_block (Suc n))) = block_hash demo_lib demo_wire (demo_block n)"
    using assms by (simp add: demo_block_hash) (simp add: demo_block_def)
  moreover have "(of_nat n :: u64) < of_nat (Suc n)" using assms by (simp add: word_less_nat_alt unat_of_nat del: of_nat_Suc)
  ultimately show ?thesis
    by (simp add: block_validate_Ok valid_header_def block_hash_def total_gas_limit_def)
      (simp add: demo_block_def block_genesis_def total_gas_limit_def add.commute)
qed


lemma demo_chain_lookup:
  "n < 256 \<Longrightarrow> i < 256 \<Longrightarrow> fmlookup (bc_blocks (demo_chain_of n)) (demo_hash i) =
     (if i \<le> n then Some (demo_block i) else None)"
proof (induction n)
  case 0
  then show ?case using demo_hash_inject [of 0 i] by auto
next
  case (Suc n)
  then show ?case using demo_hash_inject [of "Suc n" i] by auto
qed

lemma demo_chain_fields [simp]:
  "bc_head (demo_chain_of n) = demo_hash n" "bc_genesis (demo_chain_of n) = demo_hash 0"
  "bc_state (demo_chain_of n) = ws_new"
  by (induction n) simp_all

lemma demo_block_fields [simp]:
  "bh_parent_hash (blk_header (demo_block (Suc n))) = demo_hash n"
  "bh_state_root (blk_header (demo_block n)) = 0" "block_number (demo_block n) = of_nat n"
  by (simp_all add: demo_block_def block_genesis_def block_number_def)

lemma ws_new_root [simp]: "ws_state_root L enc ws_new = 0"
  by (simp add: ws_state_root_def state_root_of_def ws_new_def btree_iter_def hash_zero_def sorted_list_of_fset.rep_eq)

lemma demo_chain_add:
  assumes "Suc n < 256"
  shows "add_block demo_lib demo_wire (demo_chain_of n) (demo_block (Suc n)) = (Ok (), demo_chain_of (Suc n))"
proof -
  have "get_block (demo_chain_of n) (demo_hash n) = Some (demo_block n)"
    "head_block (demo_chain_of n) = Ok (demo_block n)"
    using assms demo_chain_lookup [of n n] by (simp_all add: get_block_def head_block_def unwrap_def)
  then show ?thesis
    using demo_block_validate [OF assms] demo_block_hash [OF assms]
    by (simp add: add_block_def Let_def)
qed

lemma demo_chain_grown: "n < 256 \<Longrightarrow> chain_grown demo_lib demo_wire (demo_chain_of n)"
proof (induction n)
  case 0
  have "blockchain_new demo_lib demo_wire (demo_block 0) = Ok (demo_chain_of 0)"
    using demo_block_hash [of 0] by (simp add: blockchain_new_def Let_def) (simp add: is_genesis_def demo_block_def block_genesis_def)
  then show ?case by (rule chain_grown.new)
next
  case (Suc n)
  then have lt: "Suc n < 256" by simp
  have "no_collision demo_lib demo_wire (demo_chain_of n) (demo_block (Suc n))"
    using demo_chain_lookup [of n "Suc n"] lt demo_block_hash [OF lt] by (simp add: no_collision_def)
  moreover have "block_number (demo_block (Suc n)) \<noteq> 0"
    using lt by (simp add: word_unat_eq_iff unat_of_nat del: of_nat_Suc)
  ultimately show ?case
    using Suc by (intro chain_grown.extend [OF _ _ demo_chain_add [OF lt]]) simp_all
qed

section \<open>Properties\<close>

text \<open>C1. The block store of every reachable chain is well formed: the genesis and head
  blocks are present (so \<open>head_block\<close> and \<open>genesis_block\<close> never panic), every block is
  stored under its own hash, every block but the genesis validates against its parent,
  which is stored too, and the number index leads to a block of that number.\<close>

theorem chain_reachable_invariant:
  assumes "chain_reachable L W c"
  shows "(\<exists>hb. head_block c = Ok hb) \<and>
    (\<exists>g. genesis_block c = Ok g \<and> is_genesis g) \<and>
    (\<forall>h b. get_block c h = Some b \<longrightarrow> block_hash L W b = h \<and>
       (h = bc_genesis c \<or> (\<exists>parent. get_block c (bh_parent_hash (blk_header b)) = Some parent \<and>
          block_validate L W b parent = Ok ()))) \<and>
    (\<forall>n b. get_block_by_number c n = Some b \<longrightarrow> block_number b = n)"
proof -
  note wf = chain_reachable_wf [OF assms]
  have "\<exists>parent. get_block c (bh_parent_hash (blk_header b)) = Some parent \<and> block_validate L W b parent = Ok ()"
    if "linked L W c b" for b
    using that by (simp add: linked_def get_block_def split: option.splits)
  moreover have "\<exists>g. genesis_block c = Ok g \<and> is_genesis g"
    using wf by (auto simp: chain_wf_def genesis_block_def unwrap_def)
  moreover have "block_number b = n" if "get_block_by_number c n = Some b" for n b
    using that wf by (fastforce simp: chain_wf_def get_block_by_number_def bind_eq_Some_conv)
  ultimately show ?thesis
    using wf chain_wf_head [OF wf] unfolding chain_wf_def get_block_def by blast
qed

theorem chain_reachable_invariant_witness:
  "chain_reachable demo_lib demo_wire (demo_chain_of 2) \<and>
   (\<exists>hb. head_block (demo_chain_of 2) = Ok hb) \<and>
   (\<exists>g. genesis_block (demo_chain_of 2) = Ok g \<and> is_genesis g)"
proof -
  have r: "chain_reachable demo_lib demo_wire (demo_chain_of 2)"
    by (rule chain_grown_reachable) (simp add: demo_chain_grown)
  with chain_reachable_invariant [OF r] show ?thesis by blast
qed

text \<open>Import and verification agree: a chain grown by \<open>add_block\<close> at its head passes
  \<open>verify_chain\<close>, which walks the number index from the genesis block to the head.\<close>

lemma verify_chain_accepts_grown:
  assumes "chain_grown L W c"
  shows "verify_chain L W c = Ok ()"
  using chain_grown_linear [OF assms] linear_chain_verifies by blast

lemma verify_chain_accepts_grown_witness:
  "head_block (demo_chain_of 3) = Ok (demo_block 3) \<and> verify_chain demo_lib demo_wire (demo_chain_of 3) = Ok ()"
proof -
  have g: "chain_grown demo_lib demo_wire (demo_chain_of 3)" by (simp add: demo_chain_grown)
  show ?thesis
    using verify_chain_accepts_grown [OF g] demo_chain_lookup [of 3 3] by (simp add: head_block_def unwrap_def)
qed

text \<open>The head is not the longest chain: importing a stored block again (any but the
  genesis, as long as its state root is the current one) succeeds and makes it the head, so
  the height falls back to that block's number and the blocks above it are abandoned.\<close>

lemma add_block_moves_head_back:
  assumes "chain_reachable L W c" and "get_block c h = Some b" and "h \<noteq> bc_genesis c"
    and "bh_state_root (blk_header b) = ws_state_root L (enc_account W) (bc_state c)"
  shows "fst (add_block L W c b) = Ok () \<and> bc_blocks (snd (add_block L W c b)) = bc_blocks c \<and>
    bc_head (snd (add_block L W c b)) = h \<and> height (snd (add_block L W c b)) = Ok (block_number b)"
  using add_block_again [OF chain_reachable_wf [OF assms(1)] _ assms(3,4)] assms(2)
  by (simp add: get_block_def height_def head_block_def unwrap_def)

lemma add_block_moves_head_back_witness:
  "height (demo_chain_of 3) = Ok 3 \<and> fst (add_block demo_lib demo_wire (demo_chain_of 3) (demo_block 1)) = Ok () \<and>
   height (snd (add_block demo_lib demo_wire (demo_chain_of 3) (demo_block 1))) = Ok 1"
proof -
  have r: "chain_reachable demo_lib demo_wire (demo_chain_of 3)"
    by (rule chain_grown_reachable) (simp add: demo_chain_grown)
  have b: "get_block (demo_chain_of 3) (demo_hash 1) = Some (demo_block 1)"
    using demo_chain_lookup [of 3 1] by (simp add: get_block_def)
  have "height (demo_chain_of 3) = Ok 3"
    using demo_chain_lookup [of 3 3] by (simp add: height_def head_block_def unwrap_def)
  then show ?thesis
    using add_block_moves_head_back [OF r b] demo_hash_inject [of 1 0] by simp
qed

text \<open>\<open>get_recent_blocks(count)\<close> on a chain grown at its head returns the blocks of the
  last \<open>count + 1\<close> heights in ascending order (all of them on a shorter chain): one block
  more than asked for.\<close>

lemma get_recent_blocks_one_more:
  assumes "chain_grown L W c" and "height c = Ok n"
  shows "\<exists>bs. get_recent_blocks c count = Ok bs \<and> length bs = Suc (min (unat count) (unat n)) \<and>
    map (\<lambda>b. unat (block_number b)) bs = [unat n - unat count..<Suc (unat n)]"
proof -
  obtain path where lin: "linear_chain L W c path" using chain_grown_linear [OF assms(1)] by blast
  have n: "unat n = length path - 1" using linear_chain_height [OF lin] assms(2) by simp
  have p: "path \<noteq> []" "length path \<le> 2 ^ 64" using lin by (auto simp: linear_chain_def)
  have sn: "Suc (unat n) = length path" using n p(1) by simp
  have num: "unat (block_number (path ! i)) = i" if "i < length path" for i
    using lin that p(2) by (simp add: linear_chain_def unat_of_nat)
  have "map (\<lambda>b. unat (block_number b)) (map ((!) path) [unat n - unat count..<length path]) =
      [unat n - unat count..<length path]"
    by (rule nth_equalityI) (auto simp: num)
  then show ?thesis
    using linear_chain_recent [OF lin, of count] n sn
    by (intro exI [of _ "map ((!) path) [unat n - unat count..<length path]"]) (auto simp del: upt_Suc)
qed

lemma get_recent_blocks_one_more_witness:
  "\<exists>bs. get_recent_blocks (demo_chain_of 3) 2 = Ok bs \<and> length bs = 3 \<and>
     map (\<lambda>b. unat (block_number b)) bs = [1..<4]"
proof -
  have g: "chain_grown demo_lib demo_wire (demo_chain_of 3)" by (simp add: demo_chain_grown)
  have h: "height (demo_chain_of 3) = Ok 3"
    using demo_chain_lookup [of 3 3] by (simp add: height_def head_block_def unwrap_def)
  from get_recent_blocks_one_more [OF g h, of 2] show ?thesis by (simp del: upt_Suc)
qed

end
