(* ===== verification/Fork.thy ===== *)
theory Fork
  imports Chain_Import
begin

text \<open>
  \<open>fork.rs\<close> of \<open>blockchain-core\<close>: fork choice, the search for a common ancestor and the
  reorganisation path. The search loop has no bound when parent links form a cycle, so it
  is a partial function: the outer \<open>None\<close> means that it does not return.
\<close>

section \<open>The code\<close>

datatype ForkChoice = LongestChain | HeaviestChain | LatestJustified

record ForkInfo =
  fi_fork_point :: BlockNumber
  fi_fork_hash :: hash
  fi_main_tip :: hash
  fi_fork_tip :: hash
  fi_main_length :: u64
  fi_fork_length :: u64

record ForkResolver =
  fr_choice :: ForkChoice
  fr_max_reorg_depth :: u64
  fr_fork_history :: "ForkInfo list"

record ReorgPath =
  rp_common_ancestor :: hash
  rp_revert_blocks :: "Block list"
  rp_apply_blocks :: "Block list"
  rp_depth :: u64

definition fork_resolver_new :: "ForkChoice \<Rightarrow> u64 \<Rightarrow> ForkResolver" where
  "fork_resolver_new choice max_reorg_depth =
     \<lparr>fr_choice = choice, fr_max_reorg_depth = max_reorg_depth, fr_fork_history = []\<rparr>"

definition detect_fork :: "crypto_lib \<Rightarrow> wire \<Rightarrow> Block \<Rightarrow> Block \<Rightarrow> ForkInfo option" where
  "detect_fork L W current_head new_block =
     (if bh_parent_hash (blk_header new_block) = block_hash L W current_head then None
      else Some \<lparr>fi_fork_point = block_number current_head, fi_fork_hash = block_hash L W current_head,
             fi_main_tip = block_hash L W current_head, fi_fork_tip = block_hash L W new_block,
             fi_main_length = 0, fi_fork_length = 1\<rparr>)"

definition choose_chain :: "ForkResolver \<Rightarrow> Block list \<Rightarrow> Block list \<Rightarrow> (bool, BlockchainError) outcome" where
  "choose_chain r main_chain fork_chain =
     (if fork_chain = [] then Ok False
      else case fr_choice r of
             LongestChain \<Rightarrow> Ok (length main_chain < length fork_chain)
           | HeaviestChain \<Rightarrow>
               let main_work = of_nat (length main_chain) :: u64;
                   fork_work = of_nat (length fork_chain) :: u64
               in Ok (main_work < fork_work)
           | LatestJustified \<Rightarrow> Ok (length main_chain < length fork_chain))"

partial_function (option) ancestor_loop ::
    "(hash, Block) fmap \<Rightarrow> (hash, Block) fmap \<Rightarrow> hash fset \<Rightarrow> hash fset \<Rightarrow> hash \<Rightarrow> hash \<Rightarrow> hash option option" where
  "ancestor_loop chain_a chain_b visited_a visited_b current_a current_b =
     (if current_a |\<in>| visited_b then Some (Some current_a)
      else if current_b |\<in>| visited_a then Some (Some current_b)
      else let visited_a1 = finsert current_a visited_a; visited_b1 = finsert current_b visited_b in
        (case fmlookup chain_a current_a of
           None \<Rightarrow> Some None
         | Some block_a \<Rightarrow>
             (case fmlookup chain_b current_b of
                None \<Rightarrow> Some None
              | Some block_b \<Rightarrow>
                  if is_genesis block_a \<and> is_genesis block_b then Some (Some current_a)
                  else if 10000 < fcard visited_a1 \<or> 10000 < fcard visited_b1 then Some None
                  else ancestor_loop chain_a chain_b visited_a1 visited_b1
                         (bh_parent_hash (blk_header block_a)) (bh_parent_hash (blk_header block_b)))))"

definition find_common_ancestor ::
    "(hash, Block) fmap \<Rightarrow> (hash, Block) fmap \<Rightarrow> hash \<Rightarrow> hash \<Rightarrow> hash option option" where
  "find_common_ancestor chain_a chain_b head_a head_b = ancestor_loop chain_a chain_b {||} {||} head_a head_b"

text \<open>The loop that collects the blocks to revert stops at \<open>max_reorg_depth\<close>.\<close>

function revert_loop ::
    "(hash, Block) fmap \<Rightarrow> hash \<Rightarrow> nat \<Rightarrow> hash \<Rightarrow> Block list \<Rightarrow> (Block list, BlockchainError) outcome" where
  "revert_loop blocks common_ancestor max_depth current revert =
     (if current = common_ancestor then Ok revert
      else case fmlookup blocks current of
             None \<Rightarrow> Err (BlockNotFound current)
           | Some block \<Rightarrow>
               let revert1 = revert @ [block] in
               if max_depth < length revert1 then Err (ReorgTooDeep (of_nat (length revert1)))
               else revert_loop blocks common_ancestor max_depth (bh_parent_hash (blk_header block)) revert1)"
  by pat_completeness auto
termination
  by (relation "measure (\<lambda>(blocks, ca, max_depth, current, revert). max_depth - length revert)") auto

declare revert_loop.simps [simp del]

partial_function (option) apply_loop ::
    "(hash, Block) fmap \<Rightarrow> hash \<Rightarrow> hash \<Rightarrow> Block list \<Rightarrow> (Block list, BlockchainError) outcome option" where
  "apply_loop blocks common_ancestor current acc =
     (if current = common_ancestor then Some (Ok acc)
      else case fmlookup blocks current of
             None \<Rightarrow> Some (Err (BlockNotFound current))
           | Some block \<Rightarrow> apply_loop blocks common_ancestor (bh_parent_hash (blk_header block)) (acc @ [block]))"

definition calculate_reorg_path ::
    "ForkResolver \<Rightarrow> (hash, Block) fmap \<Rightarrow> hash \<Rightarrow> hash \<Rightarrow> (ReorgPath, BlockchainError) outcome option" where
  "calculate_reorg_path r blocks old_head new_head =
     Option.bind (find_common_ancestor blocks blocks old_head new_head) (\<lambda>found.
       case found of
         None \<Rightarrow> Some (Err (ForkDetected ''No common ancestor found''))
       | Some common_ancestor \<Rightarrow>
           (case revert_loop blocks common_ancestor (unat (fr_max_reorg_depth r)) old_head [] of
              Err e \<Rightarrow> Some (Err e)
            | Panic \<Rightarrow> Some Panic
            | Ok revert \<Rightarrow>
                Option.bind (apply_loop blocks common_ancestor new_head []) (\<lambda>applied.
                  Some (and_then applied (\<lambda>app.
                    Ok \<lparr>rp_common_ancestor = common_ancestor, rp_revert_blocks = revert,
                       rp_apply_blocks = rev app, rp_depth = of_nat (length revert)\<rparr>)))))"

definition record_fork :: "ForkResolver \<Rightarrow> ForkInfo \<Rightarrow> ForkResolver" where
  "record_fork r fork_info =
     (let history = fr_fork_history r @ [fork_info] in
      r\<lparr>fr_fork_history := if 100 < length history then tl history else history\<rparr>)"

definition fork_choice :: "ForkResolver \<Rightarrow> ForkChoice" where
  "fork_choice r = fr_choice r"

definition set_fork_choice :: "ForkResolver \<Rightarrow> ForkChoice \<Rightarrow> ForkResolver" where
  "set_fork_choice r choice = r\<lparr>fr_choice := choice\<rparr>"

definition is_simple :: "ReorgPath \<Rightarrow> bool" where
  "is_simple p \<longleftrightarrow> rp_depth p \<le> 1"

definition total_blocks :: "ReorgPath \<Rightarrow> nat" where
  "total_blocks p = length (rp_revert_blocks p) + length (rp_apply_blocks p)"

section \<open>Walks along parent links\<close>

primrec path_to :: "(hash, Block) fmap \<Rightarrow> hash \<Rightarrow> hash \<Rightarrow> Block list \<Rightarrow> bool" where
  "path_to blocks current target [] \<longleftrightarrow> current = target"
| "path_to blocks current target (b # bs) \<longleftrightarrow>
     fmlookup blocks current = Some b \<and> path_to blocks (bh_parent_hash (blk_header b)) target bs"

definition ancestor :: "(hash, Block) fmap \<Rightarrow> hash \<Rightarrow> hash \<Rightarrow> bool" where
  "ancestor blocks head h \<longleftrightarrow> (\<exists>bs. path_to blocks head h bs)"

lemma path_to_snoc:
  "path_to blocks x y bs \<Longrightarrow> fmlookup blocks y = Some b \<Longrightarrow>
     path_to blocks x (bh_parent_hash (blk_header b)) (bs @ [b])"
  by (induction bs arbitrary: x) auto

lemma ancestor_refl [simp]: "ancestor blocks h h"
  unfolding ancestor_def by (rule exI [of _ "[]"]) simp

lemma ancestor_parent:
  "ancestor blocks head h \<Longrightarrow> fmlookup blocks h = Some b \<Longrightarrow> ancestor blocks head (bh_parent_hash (blk_header b))"
  unfolding ancestor_def using path_to_snoc by blast

lemma revert_loop_path:
  assumes "revert_loop blocks ca m cur acc = Ok bs"
  shows "\<exists>ds. bs = acc @ ds \<and> path_to blocks cur ca ds \<and> (ds = [] \<or> length bs \<le> m)"
  using assms
proof (induction blocks ca m cur acc arbitrary: bs rule: revert_loop.induct)
  case (1 blocks ca m cur acc)
  show ?case
  proof (cases "cur = ca")
    case True
    with 1(2) show ?thesis by (simp add: revert_loop.simps)
  next
    case False
    then obtain b where b: "fmlookup blocks cur = Some b" "length (acc @ [b]) \<le> m"
      "revert_loop blocks ca m (bh_parent_hash (blk_header b)) (acc @ [b]) = Ok bs"
      using 1(2) by (subst (asm) revert_loop.simps) (auto simp: Let_def not_less split: option.splits if_splits)
    with 1(1) [OF False b(1) refl _ b(3)] obtain ds where
      "bs = (acc @ [b]) @ ds" "path_to blocks (bh_parent_hash (blk_header b)) ca ds" "ds = [] \<or> length bs \<le> m"
      by auto
    with b show ?thesis by (intro exI [of _ "b # ds"]) auto
  qed
qed

lemma apply_loop_terminates:
  assumes "path_to blocks cur ca ds"
  shows "\<exists>es. apply_loop blocks ca cur acc = Some (Ok (acc @ es)) \<and> path_to blocks cur ca es"
  using assms
proof (induction ds arbitrary: cur acc)
  case Nil
  then show ?case by (intro exI [of _ "[]"]) (simp add: apply_loop.simps)
next
  case (Cons b ds)
  show ?case
  proof (cases "cur = ca")
    case True
    then show ?thesis by (intro exI [of _ "[]"]) (simp add: apply_loop.simps)
  next
    case False
    obtain es where "apply_loop blocks ca (bh_parent_hash (blk_header b)) (acc @ [b]) = Some (Ok ((acc @ [b]) @ es))"
      "path_to blocks (bh_parent_hash (blk_header b)) ca es"
      using Cons.IH [of "bh_parent_hash (blk_header b)" "acc @ [b]"] Cons.prems by auto
    with False Cons.prems show ?thesis
      by (intro exI [of _ "b # es"]) (simp add: apply_loop.simps [of blocks ca cur])
  qed
qed

section \<open>Block trees\<close>

text \<open>
  A block store as the chain keeps it: one genesis block, every other block on top of a
  stored parent whose number is one less. The zero hash, the parent link of the genesis
  block, is nobody's hash.
\<close>

definition block_tree :: "(hash, Block) fmap \<Rightarrow> hash \<Rightarrow> bool" where
  "block_tree blocks g \<longleftrightarrow>
     (\<exists>gb. fmlookup blocks g = Some gb \<and> is_genesis gb) \<and> fmlookup blocks hash_zero = None \<and>
     (\<forall>h b. fmlookup blocks h = Some b \<and> h \<noteq> g \<longrightarrow>
        (\<exists>p. fmlookup blocks (bh_parent_hash (blk_header b)) = Some p \<and>
           unat (block_number b) = Suc (unat (block_number p))))"

definition store_sane :: "Blockchain \<Rightarrow> bool" where
  "store_sane c \<longleftrightarrow> get_block c hash_zero = None \<and> (\<forall>h b. get_block c h = Some b \<longrightarrow> block_number b < 18446744073709551615)"

lemma unat_succ: "n < (18446744073709551615 :: u64) \<Longrightarrow> unat (n + 1) = Suc (unat n)"
  using unat_add_u64 [of n 1] by (simp add: word_less_nat_alt)

lemma chain_block_tree:
  assumes wf: "chain_wf L W c" and sane: "store_sane c"
  shows "block_tree (bc_blocks c) (bc_genesis c)"
proof -
  have "\<exists>p. fmlookup (bc_blocks c) (bh_parent_hash (blk_header b)) = Some p \<and>
      unat (block_number b) = Suc (unat (block_number p))"
    if b: "fmlookup (bc_blocks c) h = Some b" "h \<noteq> bc_genesis c" for h b
  proof -
    have "linked L W c b" using wf b unfolding chain_wf_def by blast
    then obtain p where p: "fmlookup (bc_blocks c) (bh_parent_hash (blk_header b)) = Some p"
      "block_validate L W b p = Ok ()"
      by (auto simp: linked_def split: option.splits)
    have "block_number p < 18446744073709551615" using sane p(1) by (auto simp: store_sane_def get_block_def)
    then have "unat (block_number p + 1) = Suc (unat (block_number p))" by (rule unat_succ)
    with p block_validate_number [OF p(2)] show ?thesis by auto
  qed
  with wf sane show ?thesis unfolding block_tree_def chain_wf_def store_sane_def get_block_def by blast
qed

lemma block_tree_genesis:
  assumes "block_tree blocks g" and "fmlookup blocks h = Some b"
  shows "is_genesis b \<longleftrightarrow> h = g" and "block_number b = 0 \<longleftrightarrow> h = g"
proof -
  show "is_genesis b \<longleftrightarrow> h = g"
  proof
    assume "is_genesis b"
    then have "fmlookup blocks (bh_parent_hash (blk_header b)) = None"
      using assms(1) by (simp add: is_genesis_def block_tree_def)
    then show "h = g" using assms unfolding block_tree_def by fastforce
  next
    assume "h = g"
    then show "is_genesis b" using assms by (auto simp: block_tree_def)
  qed
  then show "block_number b = 0 \<longleftrightarrow> h = g"
    using assms unfolding block_tree_def is_genesis_def block_number_def by fastforce
qed

lemma block_tree_parent:
  assumes "block_tree blocks g" "fmlookup blocks h = Some b" "h \<noteq> g"
  obtains p where "fmlookup blocks (bh_parent_hash (blk_header b)) = Some p"
    "unat (block_number b) = Suc (unat (block_number p))"
  using assms unfolding block_tree_def by blast

definition rank :: "(hash, Block) fmap \<Rightarrow> hash \<Rightarrow> nat" where
  "rank blocks h = (case fmlookup blocks h of None \<Rightarrow> 0 | Some b \<Rightarrow> Suc (unat (block_number b)))"

lemma rank_parent:
  assumes "block_tree blocks g" "fmlookup blocks h = Some b"
  shows "rank blocks (bh_parent_hash (blk_header b)) < rank blocks h"
proof (cases "h = g")
  case True
  then have "bh_parent_hash (blk_header b) = hash_zero"
    using assms block_tree_genesis(1) [OF assms] by (simp add: is_genesis_def)
  with assms show ?thesis by (simp add: rank_def block_tree_def)
next
  case False
  then obtain p where "fmlookup blocks (bh_parent_hash (blk_header b)) = Some p"
    "unat (block_number b) = Suc (unat (block_number p))"
    using block_tree_parent [OF assms] by blast
  with assms show ?thesis by (simp add: rank_def)
qed

section \<open>The search returns\<close>

lemma ancestor_loop_returns:
  assumes tree: "block_tree blocks g"
    and "\<forall>x \<in> fset va. ancestor blocks ha x" "\<forall>x \<in> fset vb. ancestor blocks hb x"
    and "ancestor blocks ha ca" "ancestor blocks hb cb"
  shows "\<exists>r. ancestor_loop blocks blocks va vb ca cb = Some r \<and>
    (\<forall>h. r = Some h \<longrightarrow> ancestor blocks ha h \<and> ancestor blocks hb h)"
  using assms(2-5)
proof (induction "rank blocks ca" arbitrary: ca cb va vb rule: less_induct)
  case less
  let ?loop = "ancestor_loop blocks blocks va vb ca cb"
  show ?case
  proof (cases "ca |\<in>| vb \<or> cb |\<in>| va \<or> fmlookup blocks ca = None \<or> fmlookup blocks cb = None")
    case True
    then show ?thesis
      using less.prems by (subst ancestor_loop.simps) (auto simp: Let_def split: option.splits)
  next
    case False
    then obtain a b where ab: "fmlookup blocks ca = Some a" "fmlookup blocks cb = Some b" by auto
    let ?va = "finsert ca va" and ?vb = "finsert cb vb"
    have step: "?loop = (if is_genesis a \<and> is_genesis b then Some (Some ca)
        else if 10000 < fcard ?va \<or> 10000 < fcard ?vb then Some None
        else ancestor_loop blocks blocks ?va ?vb (bh_parent_hash (blk_header a)) (bh_parent_hash (blk_header b)))"
      using False ab by (subst ancestor_loop.simps) (simp add: Let_def)
    have gen: "is_genesis a \<and> is_genesis b \<Longrightarrow> ca = cb"
      using block_tree_genesis(1) [OF tree ab(1)] block_tree_genesis(1) [OF tree ab(2)] by simp
    have "\<exists>r. ancestor_loop blocks blocks ?va ?vb (bh_parent_hash (blk_header a)) (bh_parent_hash (blk_header b)) = Some r \<and>
        (\<forall>h. r = Some h \<longrightarrow> ancestor blocks ha h \<and> ancestor blocks hb h)"
      using less.prems rank_parent [OF tree ab(1)] ab
      by (intro less.hyps) (auto intro: ancestor_parent)
    with step gen less.prems show ?thesis by auto
  qed
qed

lemma find_common_ancestor_returns:
  assumes "block_tree blocks g"
  obtains r where "find_common_ancestor blocks blocks ha hb = Some r"
    "\<And>h. r = Some h \<Longrightarrow> ancestor blocks ha h \<and> ancestor blocks hb h"
  using ancestor_loop_returns [OF assms, of "{||}" ha "{||}" hb ha hb] unfolding find_common_ancestor_def by auto

section \<open>Heads of the same height\<close>

lemma ancestor_loop_lockstep:
  assumes tree: "block_tree blocks g"
    and "fmlookup blocks ca = Some a" "unat (block_number a) = n"
    and "fmlookup blocks cb = Some b" "unat (block_number b) = n"
    and "\<forall>x \<in> fset va \<union> fset vb. \<exists>y. fmlookup blocks x = Some y \<and> n < unat (block_number y)"
    and "fcard va + n \<le> 10000" "fcard vb + n \<le> 10000"
  shows "ancestor_loop blocks blocks va vb ca cb = Some (Some g)"
  using assms(2-8)
proof (induction n arbitrary: ca cb a b va vb)
  case 0
  have g: "ca = g" "cb = g"
    using block_tree_genesis(2) [OF tree 0(1)] block_tree_genesis(2) [OF tree 0(3)] 0(2,4)
    by (simp_all add: unat_eq_zero)
  have "ca |\<notin>| vb" using 0(1,2,5) by (metis UnI2 less_irrefl option.inject)
  moreover have "cb |\<notin>| va" using 0(3-5) by (metis UnI1 less_irrefl option.inject)
  moreover have "is_genesis a" "is_genesis b"
    using block_tree_genesis(1) [OF tree 0(1)] block_tree_genesis(1) [OF tree 0(3)] g by simp_all
  ultimately show ?case using 0 g by (subst ancestor_loop.simps) (simp add: Let_def)
next
  case (Suc n)
  have ng: "ca \<noteq> g" "cb \<noteq> g"
    using block_tree_genesis(2) [OF tree Suc.prems(1)] block_tree_genesis(2) [OF tree Suc.prems(3)] Suc.prems(2,4)
    by auto
  obtain pa where pa: "fmlookup blocks (bh_parent_hash (blk_header a)) = Some pa" "unat (block_number pa) = n"
    using block_tree_parent [OF tree Suc.prems(1) ng(1)] Suc.prems(2) by auto
  obtain pb where pb: "fmlookup blocks (bh_parent_hash (blk_header b)) = Some pb" "unat (block_number pb) = n"
    using block_tree_parent [OF tree Suc.prems(3) ng(2)] Suc.prems(4) by auto
  have nin: "ca |\<notin>| vb" "cb |\<notin>| va"
    using Suc.prems(1-5) by (metis UnI2 less_irrefl option.inject, metis UnI1 less_irrefl option.inject)
  have sz: "fcard (finsert x v) \<le> Suc (fcard v)" for x and v :: "hash fset"
    by (simp add: fcard_finsert_if)
  have small: "fcard (finsert ca va) + n \<le> 10000" "fcard (finsert cb vb) + n \<le> 10000"
    using sz [of ca va] sz [of cb vb] Suc.prems(6,7) by linarith+
  have vis: "\<forall>x \<in> fset (finsert ca va) \<union> fset (finsert cb vb).
      \<exists>y. fmlookup blocks x = Some y \<and> n < unat (block_number y)"
    using Suc.prems(1-5) by (auto dest: Suc_lessD)
  from Suc.IH [OF pa pb vis small] show ?case
    using nin Suc.prems(1,3) block_tree_genesis(1) [OF tree Suc.prems(1)] ng small
    by (subst ancestor_loop.simps) (simp add: Let_def)
qed


lemma revert_loop_not_Panic: "revert_loop blocks ca m cur acc \<noteq> Panic"
proof (induction blocks ca m cur acc rule: revert_loop.induct)
  case (1 blocks ca m cur acc)
  then show ?case by (subst revert_loop.simps) (auto simp: Let_def split: option.splits)
qed

section \<open>The example chain\<close>

lemma demo_chain_stored:
  "fmlookup (bc_blocks (demo_chain_of n)) h = Some b \<Longrightarrow> \<exists>i \<le> n. h = demo_hash i \<and> b = demo_block i"
  by (induction n) (auto split: if_splits intro: le_SucI)

lemma demo_chain_sane:
  assumes "n < 256"
  shows "store_sane (demo_chain_of n)"
proof -
  have z: "demo_hash i \<noteq> hash_zero" if "i \<le> n" for i
    using that assms by (simp add: demo_hash_def hash_zero_def word_unat_eq_iff unat_of_nat del: of_nat_add)
  have "block_number (demo_block i) < 18446744073709551615" if "i \<le> n" for i
    using that assms by (simp add: word_less_nat_alt unat_of_nat)
  moreover have "get_block (demo_chain_of n) hash_zero = None"
    using demo_chain_stored [of n hash_zero] z unfolding get_block_def by (metis not_Some_eq)
  ultimately show ?thesis
    using demo_chain_stored unfolding store_sane_def get_block_def by blast
qed

lemma demo_chain_reachable: "n < 256 \<Longrightarrow> chain_reachable demo_lib demo_wire (demo_chain_of n)"
  by (rule chain_grown_reachable) (rule demo_chain_grown)

section \<open>Properties\<close>

text \<open>C15. On the block store of a reachable chain the search for a common ancestor always
  returns, and a block it returns is an ancestor of both heads.\<close>

theorem find_common_ancestor_sound:
  assumes "chain_reachable L W c" and "store_sane c"
  shows "\<exists>r. find_common_ancestor (bc_blocks c) (bc_blocks c) head_a head_b = Some r \<and>
    (\<forall>h. r = Some h \<longrightarrow> ancestor (bc_blocks c) head_a h \<and> ancestor (bc_blocks c) head_b h)"
proof -
  have "block_tree (bc_blocks c) (bc_genesis c)"
    using chain_block_tree [OF chain_reachable_wf [OF assms(1)] assms(2)] .
  then show ?thesis by (rule find_common_ancestor_returns [of _ _ head_a head_b]) blast
qed

theorem find_common_ancestor_sound_witness:
  "\<exists>r. find_common_ancestor (bc_blocks (demo_chain_of 3)) (bc_blocks (demo_chain_of 3)) (demo_hash 3) (demo_hash 1) = Some r"
  using find_common_ancestor_sound [OF demo_chain_reachable demo_chain_sane, of 3 "demo_hash 3" "demo_hash 1"] by auto

text \<open>The search walks both branches in step and compares a block only with blocks
  visited in earlier rounds, so two heads of the same height meet nowhere but at the
  genesis block: that is what it returns for every such pair within its bound, even for
  two identical heads, however recent their real common ancestor is.\<close>

lemma find_common_ancestor_equal_heights:
  assumes "chain_reachable L W c" and "store_sane c"
    and "get_block c head_a = Some a" and "get_block c head_b = Some b"
    and "block_number a = block_number b" and "block_number a \<le> 10000"
  shows "find_common_ancestor (bc_blocks c) (bc_blocks c) head_a head_b = Some (Some (bc_genesis c))"
proof -
  note tree = chain_block_tree [OF chain_reachable_wf [OF assms(1)] assms(2)]
  have "unat (block_number a) \<le> 10000" using assms(6) by (simp add: word_le_nat_alt)
  then show ?thesis
    unfolding find_common_ancestor_def
    using assms(3-5) by (intro ancestor_loop_lockstep [OF tree, of _ a "unat (block_number a)" _ b])
      (simp_all add: get_block_def fcard.rep_eq)
qed

lemma find_common_ancestor_equal_heights_witness:
  "demo_hash 2 \<noteq> bc_genesis (demo_chain_of 2) \<and>
   find_common_ancestor (bc_blocks (demo_chain_of 2)) (bc_blocks (demo_chain_of 2)) (demo_hash 2) (demo_hash 2) =
     Some (Some (bc_genesis (demo_chain_of 2)))"
proof -
  have b: "get_block (demo_chain_of 2) (demo_hash 2) = Some (demo_block 2)"
    using demo_chain_lookup [of 2 2] by (simp add: get_block_def)
  show ?thesis
    using find_common_ancestor_equal_heights [OF demo_chain_reachable demo_chain_sane b b] demo_hash_inject [of 2 0]
    by simp
qed

text \<open>C16. Reorganisation paths: on the block store of a reachable chain
  \<open>calculate_reorg_path\<close> returns without panicking; a path it returns reverts the blocks
  from the old head down to the common ancestor, each the parent of the one before, applies
  the blocks from there up to the new head, and reverts at most \<open>max_reorg_depth\<close> blocks.\<close>

theorem calculate_reorg_path_correct:
  assumes "chain_reachable L W c" and "store_sane c"
  shows "\<exists>res. calculate_reorg_path r (bc_blocks c) old_head new_head = Some res \<and> res \<noteq> Panic \<and>
    (\<forall>p. res = Ok p \<longrightarrow>
       path_to (bc_blocks c) old_head (rp_common_ancestor p) (rp_revert_blocks p) \<and>
       path_to (bc_blocks c) new_head (rp_common_ancestor p) (rev (rp_apply_blocks p)) \<and>
       length (rp_revert_blocks p) \<le> unat (fr_max_reorg_depth r) \<and>
       unat (rp_depth p) = length (rp_revert_blocks p))"
proof -
  have tree: "block_tree (bc_blocks c) (bc_genesis c)"
    using chain_block_tree [OF chain_reachable_wf [OF assms(1)] assms(2)] .
  obtain found where found: "find_common_ancestor (bc_blocks c) (bc_blocks c) old_head new_head = Some found"
    "\<And>h. found = Some h \<Longrightarrow> ancestor (bc_blocks c) new_head h"
    using find_common_ancestor_returns [OF tree, of old_head new_head] by metis
  show ?thesis
  proof (cases found)
    case None
    with found show ?thesis by (simp add: calculate_reorg_path_def)
  next
    case (Some ca)
    obtain es where es: "apply_loop (bc_blocks c) ca new_head [] = Some (Ok es)" "path_to (bc_blocks c) new_head ca es"
      using found(2) [OF Some] apply_loop_terminates [of _ _ _ _ "[]"] unfolding ancestor_def by fastforce
    let ?rl = "revert_loop (bc_blocks c) ca (unat (fr_max_reorg_depth r)) old_head []"
    show ?thesis
    proof (cases ?rl)
      case (Ok bs)
      then have "path_to (bc_blocks c) old_head ca bs" "length bs \<le> unat (fr_max_reorg_depth r)"
        using revert_loop_path [OF Ok] by auto
      moreover from this have "length bs < 2 ^ 64"
        using unat_less_u64 [of "fr_max_reorg_depth r"] by simp
      ultimately show ?thesis
        using found(1) Some es Ok by (simp add: calculate_reorg_path_def unat_of_nat)
    qed (use found(1) Some in \<open>simp_all add: calculate_reorg_path_def revert_loop_not_Panic\<close>)
  qed
qed


theorem calculate_reorg_path_correct_witness:
  "\<exists>res. calculate_reorg_path (fork_resolver_new LongestChain 10) (bc_blocks (demo_chain_of 3)) (demo_hash 1) (demo_hash 3) =
     Some res \<and> res \<noteq> Panic"
  using calculate_reorg_path_correct [OF demo_chain_reachable demo_chain_sane, of 3
    "fork_resolver_new LongestChain 10" "demo_hash 1" "demo_hash 3"] by auto

end
