(* ===== verification/Mempool.thy ===== *)
theory Mempool
  imports Block
begin

text \<open>
  \<open>mempool.rs\<close> of \<open>blockchain-core\<close>: the transaction pool. Pending transactions are
  kept by gas price and hash, queued ones by sender and nonce; both are two-level maps.
  The order in which a \<open>HashMap\<close> is walked is the argument \<open>I\<close>, the clock is
  the argument \<open>now\<close>.
\<close>

section \<open>Two-level maps\<close>

definition lookup2 :: "('a, ('b, 'v) fmap) fmap \<Rightarrow> 'a \<Rightarrow> 'b \<Rightarrow> 'v option" where
  "lookup2 m a b = Option.bind (fmlookup m a) (\<lambda>n. fmlookup n b)"

text \<open>\<open>m.entry(a).or_insert_with(Map::new).insert(b, v)\<close>\<close>

definition insert2 :: "'a \<Rightarrow> 'b \<Rightarrow> 'v \<Rightarrow> ('a, ('b, 'v) fmap) fmap \<Rightarrow> ('a, ('b, 'v) fmap) fmap" where
  "insert2 a b v m = fmupd a (fmupd b v (lookup_default fmempty m a)) m"

definition size2 :: "('a, ('b, 'v) fmap) fmap \<Rightarrow> nat" where
  "size2 m = card {(a, b). lookup2 m a b \<noteq> None}"

section \<open>The code\<close>

record PoolConfig =
  max_size :: nat
  max_per_account :: nat
  min_gas_price :: u64
  max_age :: u64
  enable_replacement :: bool

definition pool_config_default :: PoolConfig where
  "pool_config_default = \<lparr>max_size = 10000, max_per_account = 100, min_gas_price = 1, max_age = 3600,
     enable_replacement = True\<rparr>"

record PoolMetrics =
  total_transactions :: nat
  pending_count :: nat
  queued_count :: nat
  total_added :: u64
  total_removed :: u64
  total_replaced :: u64

definition pool_metrics_default :: PoolMetrics where
  "pool_metrics_default = \<lparr>total_transactions = 0, pending_count = 0, queued_count = 0, total_added = 0,
     total_removed = 0, total_replaced = 0\<rparr>"

datatype TxStatus = Pending | Queued | Rejected

record PoolEntry =
  pe_transaction :: Transaction
  pe_added_at :: Timestamp
  pe_status :: TxStatus

record TransactionPool =
  tp_config :: PoolConfig
  tp_pending :: "(u64, (hash, PoolEntry) fmap) fmap"
  tp_queued :: "(address, (u64, PoolEntry) fmap) fmap"
  tp_by_hash :: "(hash, Transaction) fmap"
  tp_by_sender :: "(address, nat) fmap"
  tp_metrics :: PoolMetrics

record pool_iter =
  it_pending :: "(hash, PoolEntry) fmap \<Rightarrow> (hash \<times> PoolEntry) list"
  it_queued :: "(address, (u64, PoolEntry) fmap) fmap \<Rightarrow> (address \<times> (u64, PoolEntry) fmap) list"
  it_by_hash :: "(hash, Transaction) fmap \<Rightarrow> (hash \<times> Transaction) list"

definition iter_ok :: "pool_iter \<Rightarrow> bool" where
  "iter_ok I \<longleftrightarrow> (\<forall>m. enumerates (it_pending I m) m) \<and> (\<forall>m. enumerates (it_queued I m) m) \<and>
     (\<forall>m. enumerates (it_by_hash I m) m)"

definition pool_new :: "PoolConfig \<Rightarrow> TransactionPool" where
  "pool_new config = \<lparr>tp_config = config, tp_pending = fmempty, tp_queued = fmempty, tp_by_hash = fmempty,
     tp_by_sender = fmempty, tp_metrics = pool_metrics_default\<rparr>"

definition remove_from_pending :: "TransactionPool \<Rightarrow> hash \<Rightarrow> u64 \<Rightarrow> TransactionPool" where
  "remove_from_pending pool tx_hash gas_price =
     (case fmlookup (tp_pending pool) gas_price of
        None \<Rightarrow> pool
      | Some tx_map \<Rightarrow>
          let pool1 = (if fmlookup tx_map tx_hash \<noteq> None
                       then pool\<lparr>tp_metrics := (tp_metrics pool)
                              \<lparr>pending_count := pending_count (tp_metrics pool) - 1\<rparr>\<rparr>
                       else pool);
              tx_map1 = fmdrop tx_hash tx_map
          in if tx_map1 = fmempty
             then pool1\<lparr>tp_pending := fmdrop gas_price (tp_pending pool)\<rparr>
             else pool1\<lparr>tp_pending := fmupd gas_price tx_map1 (tp_pending pool)\<rparr>)"

definition remove_from_queued :: "TransactionPool \<Rightarrow> address \<Rightarrow> u64 \<Rightarrow> TransactionPool" where
  "remove_from_queued pool sender nonce =
     (case fmlookup (tp_queued pool) sender of
        None \<Rightarrow> pool
      | Some nonce_map \<Rightarrow>
          let pool1 = (if fmlookup nonce_map nonce \<noteq> None
                       then pool\<lparr>tp_metrics := (tp_metrics pool)
                              \<lparr>queued_count := queued_count (tp_metrics pool) - 1\<rparr>\<rparr>
                       else pool);
              nonce_map1 = fmdrop nonce nonce_map
          in if nonce_map1 = fmempty
             then pool1\<lparr>tp_queued := fmdrop sender (tp_queued pool)\<rparr>
             else pool1\<lparr>tp_queued := fmupd sender nonce_map1 (tp_queued pool)\<rparr>)"

definition decrement_sender :: "(address, nat) fmap \<Rightarrow> address \<Rightarrow> (address, nat) fmap" where
  "decrement_sender by_sender sender =
     (case fmlookup by_sender sender of
        None \<Rightarrow> by_sender
      | Some count \<Rightarrow>
          if count - 1 = 0 then fmdrop sender by_sender else fmupd sender (count - 1) by_sender)"

definition pool_remove :: "TransactionPool \<Rightarrow> hash \<Rightarrow> Transaction option \<times> TransactionPool" where
  "pool_remove pool tx_hash =
     (case fmlookup (tp_by_hash pool) tx_hash of
        None \<Rightarrow> (None, pool)
      | Some tx \<Rightarrow>
          let pool1 = pool\<lparr>tp_by_hash := fmdrop tx_hash (tp_by_hash pool),
                tp_by_sender := decrement_sender (tp_by_sender pool) (tx_from tx)\<rparr>;
              pool2 = remove_from_pending pool1 tx_hash (tx_gas_price tx);
              pool3 = remove_from_queued pool2 (tx_from tx) (tx_nonce tx);
              pool4 = pool3\<lparr>tp_metrics := (tp_metrics pool3)
                \<lparr>total_removed := total_removed (tp_metrics pool3) + 1,
                 total_transactions := fcard (fmdom (tp_by_hash pool3))\<rparr>\<rparr>
          in (Some tx, pool4))"

definition try_evict_lowest_gas :: "pool_iter \<Rightarrow> TransactionPool \<Rightarrow> bool \<times> TransactionPool" where
  "try_evict_lowest_gas I pool =
     (case btree_iter (tp_pending pool) of
        [] \<Rightarrow> (False, pool)
      | (lowest_price, tx_map) # _ \<Rightarrow>
          (case it_pending I tx_map of
             [] \<Rightarrow> (False, pool)
           | (h, _) # _ \<Rightarrow> (True, snd (pool_remove pool h))))"

text \<open>
  \<open>add\<close> in three parts: the checks and the eviction (\<open>pool_add\<close>), the limits and the
  choice of the queue (\<open>pool_admit\<close>), and the insertion (\<open>pool_insert\<close>).
\<close>

definition pool_insert ::
    "crypto_lib \<Rightarrow> wire \<Rightarrow> Timestamp \<Rightarrow> TransactionPool \<Rightarrow> Transaction \<Rightarrow> TxStatus \<Rightarrow> TransactionPool" where
  "pool_insert L W now pool tx status =
     (let tx_hash = transaction_hash L (enc_tx W) tx;
          entry = \<lparr>pe_transaction = tx, pe_added_at = now, pe_status = status\<rparr>;
          mt = tp_metrics pool;
          pool1 = (if status = Pending
                   then pool\<lparr>tp_pending := insert2 (tx_gas_price tx) tx_hash entry (tp_pending pool),
                          tp_metrics := mt\<lparr>pending_count := pending_count mt + 1\<rparr>\<rparr>
                   else pool\<lparr>tp_queued := insert2 (tx_from tx) (tx_nonce tx) entry (tp_queued pool),
                          tp_metrics := mt\<lparr>queued_count := queued_count mt + 1\<rparr>\<rparr>);
          by_hash1 = fmupd tx_hash tx (tp_by_hash pool1);
          count = lookup_default 0 (tp_by_sender pool1) (tx_from tx)
      in pool1\<lparr>tp_by_hash := by_hash1,
              tp_by_sender := fmupd (tx_from tx) (count + 1) (tp_by_sender pool1),
              tp_metrics := (tp_metrics pool1)
                \<lparr>total_added := total_added (tp_metrics pool1) + 1,
                 total_transactions := fcard (fmdom by_hash1)\<rparr>\<rparr>)"

definition pool_admit ::
    "crypto_lib \<Rightarrow> wire \<Rightarrow> Timestamp \<Rightarrow> TransactionPool \<Rightarrow> Transaction \<Rightarrow> u64
      \<Rightarrow> (unit, BlockchainError) outcome \<times> TransactionPool" where
  "pool_admit L W now pool tx current_nonce =
     (if max_per_account (tp_config pool) \<le> lookup_default 0 (tp_by_sender pool) (tx_from tx)
      then (Err (InvalidTransaction ''Too many pending transactions from sender''), pool)
      else if tx_gas_price tx < min_gas_price (tp_config pool)
      then (Err (InvalidTransaction (''Gas price '' @ show_u64 (tx_gas_price tx) @ '' below minimum '' @
              show_u64 (min_gas_price (tp_config pool)))), pool)
      else if tx_nonce tx = current_nonce then (Ok (), pool_insert L W now pool tx Pending)
      else if current_nonce < tx_nonce tx then (Ok (), pool_insert L W now pool tx Queued)
      else (Err NonceMismatch, pool))"

definition pool_add ::
    "crypto_lib \<Rightarrow> wire \<Rightarrow> pool_iter \<Rightarrow> Timestamp \<Rightarrow> TransactionPool \<Rightarrow> Transaction \<Rightarrow> u64
      \<Rightarrow> (unit, BlockchainError) outcome \<times> TransactionPool" where
  "pool_add L W I now pool tx current_nonce =
     (case validate_basic tx of
        Err e \<Rightarrow> (Err e, pool)
      | Panic \<Rightarrow> (Panic, pool)
      | Ok _ \<Rightarrow>
          let tx_hash = transaction_hash L (enc_tx W) tx in
          if fmlookup (tp_by_hash pool) tx_hash \<noteq> None then (Err (DuplicateTransaction tx_hash), pool)
          else if max_size (tp_config pool) \<le> fcard (fmdom (tp_by_hash pool))
          then (case try_evict_lowest_gas I pool of
                  (False, pool1) \<Rightarrow> (Err PoolFull, pool1)
                | (True, pool1) \<Rightarrow> pool_admit L W now pool1 tx current_nonce)
          else pool_admit L W now pool tx current_nonce)"

text \<open>
  The two nested loops of \<open>get_pending\<close>. The early return leaves both loops, so walking
  the concatenated entries and stopping is the same.
\<close>

fun get_pending_loop :: "Gas \<Rightarrow> nat \<Rightarrow> PoolEntry list \<Rightarrow> u64 \<Rightarrow> Transaction list \<Rightarrow> Transaction list" where
  "get_pending_loop max_gas max_count [] total_gas transactions = transactions"
| "get_pending_loop max_gas max_count (entry # es) total_gas transactions =
     (if max_gas < total_gas + tx_gas_limit (pe_transaction entry)
      then get_pending_loop max_gas max_count es total_gas transactions
      else if max_count \<le> length transactions then transactions
      else get_pending_loop max_gas max_count es (total_gas + tx_gas_limit (pe_transaction entry))
             (transactions @ [pe_transaction entry]))"

definition pending_entries :: "pool_iter \<Rightarrow> TransactionPool \<Rightarrow> PoolEntry list" where
  "pending_entries I pool = concat (map (\<lambda>(_, tx_map). map snd (it_pending I tx_map)) (rev (btree_iter (tp_pending pool))))"

definition get_pending :: "pool_iter \<Rightarrow> TransactionPool \<Rightarrow> Gas \<Rightarrow> nat \<Rightarrow> Transaction list" where
  "get_pending I pool max_gas max_count = get_pending_loop max_gas max_count (pending_entries I pool) 0 []"

definition promote_one ::
    "crypto_lib \<Rightarrow> wire \<Rightarrow> address \<times> u64 \<Rightarrow> TransactionPool \<Rightarrow> TransactionPool" where
  "promote_one L W = (\<lambda>(sender, nonce) pool.
     (case fmlookup (tp_queued pool) sender of
        None \<Rightarrow> pool
      | Some nonce_map \<Rightarrow>
          (case fmlookup nonce_map nonce of
             None \<Rightarrow> pool
           | Some entry \<Rightarrow>
               let tx = pe_transaction entry; mt = tp_metrics pool in
               pool\<lparr>tp_queued := fmupd sender (fmdrop nonce nonce_map) (tp_queued pool),
                 tp_pending := insert2 (tx_gas_price tx) (transaction_hash L (enc_tx W) tx)
                   \<lparr>pe_transaction = tx, pe_added_at = pe_added_at entry, pe_status = Pending\<rparr> (tp_pending pool),
                 tp_metrics := mt\<lparr>pending_count := pending_count mt + 1, queued_count := queued_count mt - 1\<rparr>\<rparr>)))"

definition to_promote :: "pool_iter \<Rightarrow> TransactionPool \<Rightarrow> (address \<times> u64) list" where
  "to_promote I pool =
     List.map_filter (\<lambda>(sender, nonce_map).
         case btree_iter nonce_map of [] \<Rightarrow> None | (nonce, _) # _ \<Rightarrow> Some (sender, nonce))
       (it_queued I (tp_queued pool))"

definition promote_queued :: "crypto_lib \<Rightarrow> wire \<Rightarrow> pool_iter \<Rightarrow> TransactionPool \<Rightarrow> TransactionPool" where
  "promote_queued L W I pool = fold (promote_one L W) (to_promote I pool) pool"

definition remove_all :: "hash list \<Rightarrow> TransactionPool \<Rightarrow> TransactionPool" where
  "remove_all hs pool = fold (\<lambda>h p. snd (pool_remove p h)) hs pool"

definition remove_included ::
    "crypto_lib \<Rightarrow> wire \<Rightarrow> pool_iter \<Rightarrow> TransactionPool \<Rightarrow> Transaction list \<Rightarrow> TransactionPool" where
  "remove_included L W I pool transactions =
     promote_queued L W I (remove_all (map (transaction_hash L (enc_tx W)) transactions) pool)"

definition expired :: "Timestamp \<Rightarrow> u64 \<Rightarrow> PoolEntry \<Rightarrow> bool" where
  "expired now age entry \<longleftrightarrow> age < saturating_sub now (pe_added_at entry)"

definition to_prune :: "crypto_lib \<Rightarrow> wire \<Rightarrow> pool_iter \<Rightarrow> Timestamp \<Rightarrow> TransactionPool \<Rightarrow> hash list" where
  "to_prune L W I now pool =
     (let age = max_age (tp_config pool) in
      concat (map (\<lambda>(_, tx_map). map fst (filter (\<lambda>(_, entry). expired now age entry) (it_pending I tx_map)))
        (btree_iter (tp_pending pool))) @
      concat (map (\<lambda>(_, nonce_map). map (\<lambda>(_, entry). transaction_hash L (enc_tx W) (pe_transaction entry))
          (filter (\<lambda>(_, entry). expired now age entry) (btree_iter nonce_map)))
        (it_queued I (tp_queued pool))))"

definition prune :: "crypto_lib \<Rightarrow> wire \<Rightarrow> pool_iter \<Rightarrow> Timestamp \<Rightarrow> TransactionPool \<Rightarrow> TransactionPool" where
  "prune L W I now pool = remove_all (to_prune L W I now pool) pool"

definition pool_get :: "TransactionPool \<Rightarrow> hash \<Rightarrow> Transaction option" where
  "pool_get pool h = fmlookup (tp_by_hash pool) h"

definition get_by_sender :: "pool_iter \<Rightarrow> TransactionPool \<Rightarrow> address \<Rightarrow> Transaction list" where
  "get_by_sender I pool sender = filter (\<lambda>tx. tx_from tx = sender) (map snd (it_by_hash I (tp_by_hash pool)))"

definition pool_clear :: "TransactionPool \<Rightarrow> TransactionPool" where
  "pool_clear pool = pool\<lparr>tp_pending := fmempty, tp_queued := fmempty, tp_by_hash := fmempty,
     tp_by_sender := fmempty, tp_metrics := pool_metrics_default\<rparr>"

end
