(* ===== verification/Mempool_Invariant.thy ===== *)
theory Mempool_Invariant
  imports Mempool "HOL-Library.Sublist"
begin

text \<open>
  What the transaction pool keeps true: its four indexes agree, its limits hold and its
  counters are right (the queue's is an upper bound). The pool is a state machine whose
  steps are its public operations.
\<close>

section \<open>Two-level maps\<close>

lemma lookup2_empty [simp]: "lookup2 fmempty a b = None"
  by (simp add: lookup2_def)

lemma lookup2_insert2 [simp]:
  "lookup2 (insert2 a b v m) x y = (if x = a \<and> y = b then Some v else lookup2 m x y)"
  by (auto simp: lookup2_def insert2_def lookup_default_def split: option.splits)

lemma lookup2_fmupd_fmdrop:
  "fmlookup m a = Some n \<Longrightarrow>
     lookup2 (fmupd a (fmdrop b n) m) x y = (if x = a \<and> y = b then None else lookup2 m x y)"
  by (auto simp: lookup2_def)

lemma lookup2_fmdrop:
  "fmlookup m a = Some n \<Longrightarrow> fmdrop b n = fmempty \<Longrightarrow>
     lookup2 (fmdrop a m) x y = (if x = a \<and> y = b then None else lookup2 m x y)"
  by (auto simp: lookup2_def) (metis fmlookup_drop fmempty_lookup)

lemma finite_lookup2: "finite {(a, b). lookup2 m a b \<noteq> None}"
proof -
  have "{(a, b). lookup2 m a b \<noteq> None} \<subseteq>
      (SIGMA a:fset (fmdom m). fset (fmdom (the (fmlookup m a))))"
    by (auto simp: lookup2_def fmlookup_dom_iff bind_eq_Some_conv)
  then show ?thesis by (rule finite_subset) auto
qed

lemma size2_empty [simp]: "size2 fmempty = 0"
  by (simp add: size2_def)

lemma size2_change:
  assumes "\<And>x y. lookup2 m' x y = (if x = a \<and> y = b then None else lookup2 m x y)"
  shows "size2 m' = (if lookup2 m a b = None then size2 m else size2 m - 1)"
proof -
  have e: "{(x, y). lookup2 m' x y \<noteq> None} = {(x, y). lookup2 m x y \<noteq> None} - {(a, b)}"
    using assms by auto
  show ?thesis unfolding size2_def e using finite_lookup2 [of m] by (auto simp: card_Diff_singleton_if)
qed

lemma size2_insert2:
  "size2 (insert2 a b v m) = (if lookup2 m a b = None then Suc (size2 m) else size2 m)"
proof -
  have "{(x, y). lookup2 (insert2 a b v m) x y \<noteq> None} = insert (a, b) {(x, y). lookup2 m x y \<noteq> None}"
    by auto
  then show ?thesis using finite_lookup2 [of m] by (auto simp: size2_def card_insert_if)
qed

lemma size2_pos: "lookup2 m a b \<noteq> None \<Longrightarrow> 0 < size2 m"
  using finite_lookup2 [of m] by (auto simp: size2_def card_gt_0_iff)

definition no_empty :: "('a, ('b, 'v) fmap) fmap \<Rightarrow> bool" where
  "no_empty m \<longleftrightarrow> fmempty |\<notin>| fmran m"

lemma no_empty_iff: "no_empty m \<longleftrightarrow> (\<forall>a n. fmlookup m a = Some n \<longrightarrow> n \<noteq> fmempty)"
  by (auto simp: no_empty_def fmlookup_ran_iff)

lemma no_empty_insert2: "no_empty m \<Longrightarrow> no_empty (insert2 a b v m)"
  by (auto simp: no_empty_iff insert2_def)

section \<open>Removal\<close>

lemma remove_from_pending_fields:
  shows "tp_config (remove_from_pending pool h p) = tp_config pool"
    and "tp_queued (remove_from_pending pool h p) = tp_queued pool"
    and "tp_by_hash (remove_from_pending pool h p) = tp_by_hash pool"
    and "tp_by_sender (remove_from_pending pool h p) = tp_by_sender pool"
    and "queued_count (tp_metrics (remove_from_pending pool h p)) = queued_count (tp_metrics pool)"
  by (auto simp: remove_from_pending_def Let_def split: option.splits)

lemma remove_from_pending_lookup:
  "lookup2 (tp_pending (remove_from_pending pool h p)) x y =
     (if x = p \<and> y = h then None else lookup2 (tp_pending pool) x y)"
proof (cases "fmlookup (tp_pending pool) p")
  case None
  then show ?thesis by (auto simp: remove_from_pending_def lookup2_def)
qed (simp add: remove_from_pending_def Let_def lookup2_fmupd_fmdrop lookup2_fmdrop)

lemma remove_from_pending_count:
  "pending_count (tp_metrics (remove_from_pending pool h p)) =
     pending_count (tp_metrics pool) - (if lookup2 (tp_pending pool) p h = None then 0 else 1)"
  by (auto simp: remove_from_pending_def Let_def lookup2_def split: option.splits)

lemma remove_from_pending_no_empty:
  "no_empty (tp_pending pool) \<Longrightarrow> no_empty (tp_pending (remove_from_pending pool h p))"
  by (auto simp: no_empty_iff remove_from_pending_def Let_def split: option.splits if_splits)

lemma remove_from_queued_fields:
  shows "tp_config (remove_from_queued pool s n) = tp_config pool"
    and "tp_pending (remove_from_queued pool s n) = tp_pending pool"
    and "tp_by_hash (remove_from_queued pool s n) = tp_by_hash pool"
    and "tp_by_sender (remove_from_queued pool s n) = tp_by_sender pool"
    and "pending_count (tp_metrics (remove_from_queued pool s n)) = pending_count (tp_metrics pool)"
  by (auto simp: remove_from_queued_def Let_def split: option.splits)

lemma remove_from_queued_lookup:
  "lookup2 (tp_queued (remove_from_queued pool s n)) x y =
     (if x = s \<and> y = n then None else lookup2 (tp_queued pool) x y)"
proof (cases "fmlookup (tp_queued pool) s")
  case None
  then show ?thesis by (auto simp: remove_from_queued_def lookup2_def)
qed (simp add: remove_from_queued_def Let_def lookup2_fmupd_fmdrop lookup2_fmdrop)

lemma remove_from_queued_count:
  "queued_count (tp_metrics (remove_from_queued pool s n)) =
     queued_count (tp_metrics pool) - (if lookup2 (tp_queued pool) s n = None then 0 else 1)"
  by (auto simp: remove_from_queued_def Let_def lookup2_def split: option.splits)

lemmas remove_from_simps = remove_from_pending_fields remove_from_pending_lookup remove_from_pending_count
  remove_from_queued_fields remove_from_queued_lookup remove_from_queued_count

lemma pool_remove_Some:
  assumes "fmlookup (tp_by_hash pool) h = Some tx"
  shows "fst (pool_remove pool h) = Some tx"
    and "tp_config (snd (pool_remove pool h)) = tp_config pool"
    and "tp_by_hash (snd (pool_remove pool h)) = fmdrop h (tp_by_hash pool)"
    and "tp_by_sender (snd (pool_remove pool h)) = decrement_sender (tp_by_sender pool) (tx_from tx)"
    and "lookup2 (tp_pending (snd (pool_remove pool h))) p x =
      (if p = tx_gas_price tx \<and> x = h then None else lookup2 (tp_pending pool) p x)"
    and "lookup2 (tp_queued (snd (pool_remove pool h))) s n =
      (if s = tx_from tx \<and> n = tx_nonce tx then None else lookup2 (tp_queued pool) s n)"
    and "pending_count (tp_metrics (snd (pool_remove pool h))) = pending_count (tp_metrics pool) -
      (if lookup2 (tp_pending pool) (tx_gas_price tx) h = None then 0 else 1)"
    and "queued_count (tp_metrics (snd (pool_remove pool h))) = queued_count (tp_metrics pool) -
      (if lookup2 (tp_queued pool) (tx_from tx) (tx_nonce tx) = None then 0 else 1)"
    and "total_transactions (tp_metrics (snd (pool_remove pool h))) = fcard (fmdom (fmdrop h (tp_by_hash pool)))"
    and "no_empty (tp_pending pool) \<Longrightarrow> no_empty (tp_pending (snd (pool_remove pool h)))"
  using assms by (simp_all add: pool_remove_def Let_def remove_from_simps remove_from_pending_no_empty)

lemma pool_remove_None: "fmlookup (tp_by_hash pool) h = None \<Longrightarrow> pool_remove pool h = (None, pool)"
  by (simp add: pool_remove_def)

section \<open>Transactions per sender\<close>

definition sent_by :: "(hash, Transaction) fmap \<Rightarrow> address \<Rightarrow> hash set" where
  "sent_by m s = {h \<in> fset (fmdom m). tx_from (the (fmlookup m h)) = s}"

lemma finite_sent_by [simp]: "finite (sent_by m s)"
  by (simp add: sent_by_def)

lemma sent_by_empty [simp]: "sent_by fmempty s = {}"
  by (simp add: sent_by_def)

lemma sent_by_fmupd:
  "fmlookup m h = None \<Longrightarrow> sent_by (fmupd h tx m) s = (if tx_from tx = s then insert h (sent_by m s) else sent_by m s)"
  by (auto simp: sent_by_def fmlookup_dom_iff)

lemma sent_by_notin: "fmlookup m h = None \<Longrightarrow> h \<notin> sent_by m s"
  by (auto simp: sent_by_def fmlookup_dom_iff)

lemma sent_by_fmdrop: "sent_by (fmdrop h m) s = sent_by m s - {h}"
  by (auto simp: sent_by_def)

lemma sent_by_in: "fmlookup m h = Some tx \<Longrightarrow> h \<in> sent_by m s \<longleftrightarrow> tx_from tx = s"
  by (auto simp: sent_by_def fmlookup_dom_iff)

definition sender_counts :: "(hash, Transaction) fmap \<Rightarrow> (address, nat) fmap \<Rightarrow> bool" where
  "sender_counts m c \<longleftrightarrow> (\<forall>s. fmlookup c s = (if sent_by m s = {} then None else Some (card (sent_by m s))))"

lemma sender_counts_default: "sender_counts m c \<Longrightarrow> lookup_default 0 c s = card (sent_by m s)"
  by (simp add: sender_counts_def lookup_default_def)

lemma sender_counts_insert:
  assumes "sender_counts m c" and "fmlookup m h = None"
  shows "sender_counts (fmupd h tx m) (fmupd (tx_from tx) (lookup_default 0 c (tx_from tx) + 1) c)"
  unfolding sender_counts_def sender_counts_default [OF assms(1)]
  using assms(1) by (auto simp: sender_counts_def sent_by_fmupd [OF assms(2)] sent_by_notin [OF assms(2)])

lemma sender_counts_remove:
  assumes c: "sender_counts m c" and tx: "fmlookup m h = Some tx"
  shows "sender_counts (fmdrop h m) (decrement_sender c (tx_from tx))"
  unfolding sender_counts_def
proof
  fix s
  let ?f = "tx_from tx"
  have inf: "h \<in> sent_by m ?f" using sent_by_in [OF tx] by simp
  have cf: "fmlookup c ?f = Some (card (sent_by m ?f))" using c inf by (auto simp: sender_counts_def)
  have card: "card (sent_by m ?f - {h}) = card (sent_by m ?f) - 1" using inf by simp
  have empty: "card (sent_by m ?f) - 1 = 0 \<longleftrightarrow> sent_by m ?f - {h} = {}"
    using card by (metis card_0_eq finite_Diff finite_sent_by)
  show "fmlookup (decrement_sender c ?f) s =
      (if sent_by (fmdrop h m) s = {} then None else Some (card (sent_by (fmdrop h m) s)))"
  proof (cases "s = ?f")
    case True
    then show ?thesis
      unfolding decrement_sender_def cf using empty card by (simp add: sent_by_fmdrop del: diff_is_0_eq')
  next
    case False
    then have "h \<notin> sent_by m s" using sent_by_in [OF tx] by auto
    then have "sent_by (fmdrop h m) s = sent_by m s" by (simp add: sent_by_fmdrop)
    moreover have "fmlookup (decrement_sender c ?f) s = fmlookup c s"
      using False by (simp add: decrement_sender_def cf)
    ultimately show ?thesis using c by (simp add: sender_counts_def)
  qed
qed


section \<open>The invariant\<close>

abbreviation hash_of :: "crypto_lib \<Rightarrow> wire \<Rightarrow> Transaction \<Rightarrow> hash" where
  "hash_of L W tx \<equiv> transaction_hash L (enc_tx W) tx"

definition index_ok :: "crypto_lib \<Rightarrow> wire \<Rightarrow> TransactionPool \<Rightarrow> bool" where
  "index_ok L W pool \<longleftrightarrow>
     (\<forall>h tx. fmlookup (tp_by_hash pool) h = Some tx \<longrightarrow> hash_of L W tx = h \<and> validate_basic tx = Ok () \<and>
        min_gas_price (tp_config pool) \<le> tx_gas_price tx) \<and>
     (\<forall>p h e. lookup2 (tp_pending pool) p h = Some e \<longrightarrow>
        fmlookup (tp_by_hash pool) h = Some (pe_transaction e) \<and> tx_gas_price (pe_transaction e) = p) \<and>
     (\<forall>s n e. lookup2 (tp_queued pool) s n = Some e \<longrightarrow>
        fmlookup (tp_by_hash pool) (hash_of L W (pe_transaction e)) = Some (pe_transaction e) \<and>
        tx_from (pe_transaction e) = s \<and> tx_nonce (pe_transaction e) = n \<and>
        lookup2 (tp_pending pool) (tx_gas_price (pe_transaction e)) (hash_of L W (pe_transaction e)) = None) \<and>
     no_empty (tp_pending pool)"

definition counts_ok :: "TransactionPool \<Rightarrow> bool" where
  "counts_ok pool \<longleftrightarrow>
     sender_counts (tp_by_hash pool) (tp_by_sender pool) \<and>
     pending_count (tp_metrics pool) = size2 (tp_pending pool) \<and>
     size2 (tp_queued pool) \<le> queued_count (tp_metrics pool) \<and>
     total_transactions (tp_metrics pool) = fcard (fmdom (tp_by_hash pool))"

definition limits_ok :: "TransactionPool \<Rightarrow> bool" where
  "limits_ok pool \<longleftrightarrow>
     fcard (fmdom (tp_by_hash pool)) \<le> max_size (tp_config pool) \<and>
     (\<forall>s. card (sent_by (tp_by_hash pool) s) \<le> max_per_account (tp_config pool))"

definition pool_inv :: "crypto_lib \<Rightarrow> wire \<Rightarrow> TransactionPool \<Rightarrow> bool" where
  "pool_inv L W pool \<longleftrightarrow> index_ok L W pool \<and> counts_ok pool \<and> limits_ok pool"

lemma index_okD:
  assumes "index_ok L W pool"
  shows "fmlookup (tp_by_hash pool) h = Some tx \<Longrightarrow> hash_of L W tx = h"
    and "fmlookup (tp_by_hash pool) h = Some tx \<Longrightarrow> validate_basic tx = Ok ()"
    and "fmlookup (tp_by_hash pool) h = Some tx \<Longrightarrow> min_gas_price (tp_config pool) \<le> tx_gas_price tx"
    and "lookup2 (tp_pending pool) p h = Some e \<Longrightarrow> fmlookup (tp_by_hash pool) h = Some (pe_transaction e)"
    and "lookup2 (tp_pending pool) p h = Some e \<Longrightarrow> tx_gas_price (pe_transaction e) = p"
    and "lookup2 (tp_queued pool) s n = Some e \<Longrightarrow>
      fmlookup (tp_by_hash pool) (hash_of L W (pe_transaction e)) = Some (pe_transaction e)"
    and "lookup2 (tp_queued pool) s n = Some e \<Longrightarrow> tx_from (pe_transaction e) = s"
    and "lookup2 (tp_queued pool) s n = Some e \<Longrightarrow> tx_nonce (pe_transaction e) = n"
    and "lookup2 (tp_queued pool) s n = Some e \<Longrightarrow>
      lookup2 (tp_pending pool) (tx_gas_price (pe_transaction e)) (hash_of L W (pe_transaction e)) = None"
    and "no_empty (tp_pending pool)"
  using assms unfolding index_ok_def by blast+

lemma index_okI:
  assumes "\<And>h tx. fmlookup (tp_by_hash pool) h = Some tx \<Longrightarrow> hash_of L W tx = h \<and> validate_basic tx = Ok () \<and>
      min_gas_price (tp_config pool) \<le> tx_gas_price tx"
    and "\<And>p h e. lookup2 (tp_pending pool) p h = Some e \<Longrightarrow>
      fmlookup (tp_by_hash pool) h = Some (pe_transaction e) \<and> tx_gas_price (pe_transaction e) = p"
    and "\<And>s n e. lookup2 (tp_queued pool) s n = Some e \<Longrightarrow>
      fmlookup (tp_by_hash pool) (hash_of L W (pe_transaction e)) = Some (pe_transaction e) \<and>
      tx_from (pe_transaction e) = s \<and> tx_nonce (pe_transaction e) = n \<and>
      lookup2 (tp_pending pool) (tx_gas_price (pe_transaction e)) (hash_of L W (pe_transaction e)) = None"
    and "no_empty (tp_pending pool)"
  shows "index_ok L W pool"
  using assms unfolding index_ok_def by blast

lemma pool_inv_new: "pool_inv L W (pool_new config)"
  by (simp add: pool_inv_def index_ok_def counts_ok_def limits_ok_def pool_new_def sender_counts_def
      no_empty_def pool_metrics_default_def fcard.rep_eq)

lemma pool_inv_clear: "pool_inv L W pool \<Longrightarrow> pool_inv L W (pool_clear pool)"
  by (simp add: pool_inv_def index_ok_def counts_ok_def limits_ok_def pool_clear_def sender_counts_def
      no_empty_def pool_metrics_default_def fcard.rep_eq)

subsection \<open>Removal keeps it\<close>

lemma index_ok_remove:
  assumes inv: "index_ok L W pool"
  shows "index_ok L W (snd (pool_remove pool h))"
proof (cases "fmlookup (tp_by_hash pool) h")
  case None
  with inv show ?thesis by (simp add: pool_remove_None)
next
  case (Some tx)
  note r = pool_remove_Some [OF Some]
  show ?thesis
  proof (rule index_okI)
    fix h' t
    assume "fmlookup (tp_by_hash (snd (pool_remove pool h))) h' = Some t"
    then show "hash_of L W t = h' \<and> validate_basic t = Ok () \<and>
        min_gas_price (tp_config (snd (pool_remove pool h))) \<le> tx_gas_price t"
      using index_okD(1-3) [OF inv, of h' t] by (simp add: r split: if_splits)
  next
    fix p h' e
    assume "lookup2 (tp_pending (snd (pool_remove pool h))) p h' = Some e"
    then have e: "lookup2 (tp_pending pool) p h' = Some e" "\<not> (p = tx_gas_price tx \<and> h' = h)"
      by (simp_all add: r split: if_splits)
    then have "h' \<noteq> h" using index_okD(4,5) [OF inv e(1)] Some by auto
    then show "fmlookup (tp_by_hash (snd (pool_remove pool h))) h' = Some (pe_transaction e) \<and>
        tx_gas_price (pe_transaction e) = p"
      using index_okD(4,5) [OF inv e(1)] by (simp add: r)
  next
    fix s n e
    assume "lookup2 (tp_queued (snd (pool_remove pool h))) s n = Some e"
    then have e: "lookup2 (tp_queued pool) s n = Some e" "\<not> (s = tx_from tx \<and> n = tx_nonce tx)"
      by (simp_all add: r split: if_splits)
    note q = index_okD(6-9) [OF inv e(1)]
    have "hash_of L W (pe_transaction e) \<noteq> h" using q(1-3) e(2) Some by auto
    then show "fmlookup (tp_by_hash (snd (pool_remove pool h))) (hash_of L W (pe_transaction e)) =
          Some (pe_transaction e) \<and> tx_from (pe_transaction e) = s \<and> tx_nonce (pe_transaction e) = n \<and>
        lookup2 (tp_pending (snd (pool_remove pool h))) (tx_gas_price (pe_transaction e))
          (hash_of L W (pe_transaction e)) = None"
      using q by (simp add: r)
  qed (use index_okD(10) [OF inv] r(10) in simp)
qed

lemma counts_ok_remove:
  assumes "index_ok L W pool" and c: "counts_ok pool"
  shows "counts_ok (snd (pool_remove pool h))"
proof (cases "fmlookup (tp_by_hash pool) h")
  case None
  with c show ?thesis by (simp add: pool_remove_None)
next
  case (Some tx)
  note r = pool_remove_Some [OF Some]
  have "size2 (tp_pending (snd (pool_remove pool h))) =
      (if lookup2 (tp_pending pool) (tx_gas_price tx) h = None then size2 (tp_pending pool)
       else size2 (tp_pending pool) - 1)"
    by (rule size2_change) (rule r)
  moreover have "size2 (tp_queued (snd (pool_remove pool h))) =
      (if lookup2 (tp_queued pool) (tx_from tx) (tx_nonce tx) = None then size2 (tp_queued pool)
       else size2 (tp_queued pool) - 1)"
    by (rule size2_change) (rule r)
  ultimately show ?thesis
    using c sender_counts_remove [OF _ Some] by (auto simp: counts_ok_def r)
qed

lemma limits_ok_remove:
  assumes "limits_ok pool"
  shows "limits_ok (snd (pool_remove pool h))"
proof (cases "fmlookup (tp_by_hash pool) h")
  case None
  with assms show ?thesis by (simp add: pool_remove_None)
next
  case (Some tx)
  have "card (sent_by (tp_by_hash pool) s - {h}) \<le> card (sent_by (tp_by_hash pool) s)" for s
    by (rule card_mono) auto
  with assms show ?thesis
    by (auto simp: limits_ok_def pool_remove_Some [OF Some] sent_by_fmdrop fcard_fmdom_fmdrop
        simp del: fmdom_drop intro: order_trans)
qed

lemma pool_inv_remove: "pool_inv L W pool \<Longrightarrow> pool_inv L W (snd (pool_remove pool h))"
  by (auto simp: pool_inv_def index_ok_remove counts_ok_remove limits_ok_remove)

lemma pool_inv_remove_all: "pool_inv L W pool \<Longrightarrow> pool_inv L W (remove_all hs pool)"
  by (induction hs arbitrary: pool) (auto simp: remove_all_def pool_inv_remove)


subsection \<open>Insertion keeps it\<close>

lemma pool_insert_fields:
  shows "tp_config (pool_insert L W now pool tx st) = tp_config pool"
    and "tp_by_hash (pool_insert L W now pool tx st) = fmupd (hash_of L W tx) tx (tp_by_hash pool)"
    and "tp_by_sender (pool_insert L W now pool tx st) =
      fmupd (tx_from tx) (lookup_default 0 (tp_by_sender pool) (tx_from tx) + 1) (tp_by_sender pool)"
    and "tp_pending (pool_insert L W now pool tx st) =
      (if st = Pending then insert2 (tx_gas_price tx) (hash_of L W tx)
          \<lparr>pe_transaction = tx, pe_added_at = now, pe_status = st\<rparr> (tp_pending pool)
       else tp_pending pool)"
    and "tp_queued (pool_insert L W now pool tx st) =
      (if st = Pending then tp_queued pool
       else insert2 (tx_from tx) (tx_nonce tx)
          \<lparr>pe_transaction = tx, pe_added_at = now, pe_status = st\<rparr> (tp_queued pool))"
    and "pending_count (tp_metrics (pool_insert L W now pool tx st)) =
      pending_count (tp_metrics pool) + (if st = Pending then 1 else 0)"
    and "queued_count (tp_metrics (pool_insert L W now pool tx st)) =
      queued_count (tp_metrics pool) + (if st = Pending then 0 else 1)"
    and "total_transactions (tp_metrics (pool_insert L W now pool tx st)) =
      fcard (fmdom (fmupd (hash_of L W tx) tx (tp_by_hash pool)))"
  by (simp_all add: pool_insert_def Let_def)

lemma index_ok_insert:
  assumes inv: "index_ok L W pool" and new: "fmlookup (tp_by_hash pool) (hash_of L W tx) = None"
    and ok: "validate_basic tx = Ok ()" "min_gas_price (tp_config pool) \<le> tx_gas_price tx"
  shows "index_ok L W (pool_insert L W now pool tx st)"
proof -
  have np: "lookup2 (tp_pending pool) p (hash_of L W tx) = None" for p
    using index_okD(4) [OF inv, of p "hash_of L W tx"] new by (cases "lookup2 (tp_pending pool) p (hash_of L W tx)") auto
  have nh: "x \<noteq> hash_of L W tx" if "fmlookup (tp_by_hash pool) x = Some t" for x t
    using that new by auto
  show ?thesis
  proof (rule index_okI)
    fix h t
    assume "fmlookup (tp_by_hash (pool_insert L W now pool tx st)) h = Some t"
    then show "hash_of L W t = h \<and> validate_basic t = Ok () \<and>
        min_gas_price (tp_config (pool_insert L W now pool tx st)) \<le> tx_gas_price t"
      using index_okD(1-3) [OF inv, of h t] ok by (auto simp: pool_insert_fields split: if_splits)
  next
    fix p h e
    assume "lookup2 (tp_pending (pool_insert L W now pool tx st)) p h = Some e"
    then show "fmlookup (tp_by_hash (pool_insert L W now pool tx st)) h = Some (pe_transaction e) \<and>
        tx_gas_price (pe_transaction e) = p"
      using index_okD(4,5) [OF inv, of p h e] np [of p] by (auto simp: pool_insert_fields split: if_splits)
  next
    fix s n e
    assume "lookup2 (tp_queued (pool_insert L W now pool tx st)) s n = Some e"
    then consider "lookup2 (tp_queued pool) s n = Some e"
      | "pe_transaction e = tx" "s = tx_from tx" "n = tx_nonce tx" "st \<noteq> Pending"
      by (auto simp: pool_insert_fields split: if_splits)
    then show "fmlookup (tp_by_hash (pool_insert L W now pool tx st)) (hash_of L W (pe_transaction e)) =
          Some (pe_transaction e) \<and> tx_from (pe_transaction e) = s \<and> tx_nonce (pe_transaction e) = n \<and>
        lookup2 (tp_pending (pool_insert L W now pool tx st)) (tx_gas_price (pe_transaction e))
          (hash_of L W (pe_transaction e)) = None"
    proof cases
      case 1
      note q = index_okD(6-9) [OF inv 1]
      from q nh [OF q(1)] show ?thesis by (simp add: pool_insert_fields)
    next
      case 2
      with np show ?thesis by (simp add: pool_insert_fields)
    qed
  next
    show "no_empty (tp_pending (pool_insert L W now pool tx st))"
      using index_okD(10) [OF inv] by (simp add: pool_insert_fields no_empty_insert2)
  qed
qed

lemma counts_ok_insert:
  assumes inv: "index_ok L W pool" and c: "counts_ok pool" and new: "fmlookup (tp_by_hash pool) (hash_of L W tx) = None"
  shows "counts_ok (pool_insert L W now pool tx st)"
proof -
  have np: "lookup2 (tp_pending pool) p (hash_of L W tx) = None" for p
    using index_okD(4) [OF inv, of p "hash_of L W tx"] new by (cases "lookup2 (tp_pending pool) p (hash_of L W tx)") auto
  with c sender_counts_insert [OF _ new] show ?thesis
    by (auto simp: counts_ok_def pool_insert_fields size2_insert2 simp del: fmdom_fmupd)
qed

lemma limits_ok_insert:
  assumes l: "limits_ok pool" and new: "fmlookup (tp_by_hash pool) (hash_of L W tx) = None"
    and room: "fcard (fmdom (tp_by_hash pool)) < max_size (tp_config pool)"
      "card (sent_by (tp_by_hash pool) (tx_from tx)) < max_per_account (tp_config pool)"
  shows "limits_ok (pool_insert L W now pool tx st)"
proof -
  have "hash_of L W tx |\<notin>| fmdom (tp_by_hash pool)" using new by (simp add: fmdom_notI)
  with l room show ?thesis
    by (auto simp: limits_ok_def pool_insert_fields sent_by_fmupd [OF new] sent_by_notin [OF new] fcard_fmdom_fmupd
        simp del: fmdom_fmupd)
qed

lemma pool_admit_cases:
  obtains "snd (pool_admit L W now pool tx nonce) = pool" "\<not> is_ok (fst (pool_admit L W now pool tx nonce))"
  | st where "pool_admit L W now pool tx nonce = (Ok (), pool_insert L W now pool tx st)"
      "st = (if tx_nonce tx = nonce then Pending else Queued)" "nonce \<le> tx_nonce tx"
      "min_gas_price (tp_config pool) \<le> tx_gas_price tx"
      "lookup_default 0 (tp_by_sender pool) (tx_from tx) < max_per_account (tp_config pool)"
proof (cases "is_ok (fst (pool_admit L W now pool tx nonce))")
  case False
  then have "snd (pool_admit L W now pool tx nonce) = pool" by (auto simp: pool_admit_def)
  with False show ?thesis using that(1) by blast
next
  case True
  let ?st = "if tx_nonce tx = nonce then Pending else Queued"
  from True have "pool_admit L W now pool tx nonce = (Ok (), pool_insert L W now pool tx ?st)"
    "nonce \<le> tx_nonce tx" "min_gas_price (tp_config pool) \<le> tx_gas_price tx"
    "lookup_default 0 (tp_by_sender pool) (tx_from tx) < max_per_account (tp_config pool)"
    by (auto simp: pool_admit_def not_le not_less split: if_splits)
  with that(2) show ?thesis by blast
qed

lemma pool_inv_admit:
  assumes inv: "pool_inv L W pool" and new: "fmlookup (tp_by_hash pool) (hash_of L W tx) = None"
    and ok: "validate_basic tx = Ok ()" and room: "fcard (fmdom (tp_by_hash pool)) < max_size (tp_config pool)"
  shows "pool_inv L W (snd (pool_admit L W now pool tx nonce))"
proof (cases rule: pool_admit_cases [of L W now pool tx nonce])
  case 1
  with inv show ?thesis by simp
next
  case (2 st)
  have "lookup_default 0 (tp_by_sender pool) (tx_from tx) = card (sent_by (tp_by_hash pool) (tx_from tx))"
    using inv by (auto simp: pool_inv_def counts_ok_def intro: sender_counts_default)
  with 2 inv new ok room show ?thesis
    by (simp add: pool_inv_def index_ok_insert counts_ok_insert limits_ok_insert)
qed

subsection \<open>Eviction\<close>

text \<open>A pool with a pending transaction evicts one of the lowest gas price.\<close>

lemma try_evict_cases:
  assumes inv: "index_ok L W pool" and I: "iter_ok I"
  obtains "tp_pending pool = fmempty" "try_evict_lowest_gas I pool = (False, pool)"
  | h p e where "lookup2 (tp_pending pool) p h = Some e" "fmlookup (tp_by_hash pool) h = Some (pe_transaction e)"
      "\<And>q x. lookup2 (tp_pending pool) q x \<noteq> None \<Longrightarrow> p \<le> q"
      "try_evict_lowest_gas I pool = (True, snd (pool_remove pool h))"
proof (cases "btree_iter (tp_pending pool)")
  case Nil
  then show ?thesis using that(1) by (simp add: btree_iter_Nil try_evict_lowest_gas_def)
next
  case (Cons pm es)
  then obtain p m where it: "btree_iter (tp_pending pool) = (p, m) # es" by (cases pm) auto
  note lo = btree_iter_hd [OF it]
  have en: "enumerates (it_pending I m) m" using I by (simp add: iter_ok_def)
  have "m \<noteq> fmempty" using index_okD(10) [OF inv] lo(1) by (auto simp: no_empty_iff)
  then have "it_pending I m \<noteq> []" using en by (auto simp: enumerates_Nil)
  then obtain h e rest where hd: "it_pending I m = (h, e) # rest" by (cases "it_pending I m") auto
  then have "fmlookup m h = Some e" using enumerates_lookup [OF en, of h e] by simp
  then have pend: "lookup2 (tp_pending pool) p h = Some e" using lo(1) by (simp add: lookup2_def)
  have "p \<le> q" if "lookup2 (tp_pending pool) q x \<noteq> None" for q x
    using that lo(2) [of q] by (auto simp: lookup2_def bind_eq_Some_conv)
  moreover have "try_evict_lowest_gas I pool = (True, snd (pool_remove pool h))"
    by (simp add: try_evict_lowest_gas_def it hd)
  ultimately show ?thesis using that(2) pend index_okD(4) [OF inv pend] by blast
qed

lemma pool_inv_add:
  assumes inv: "pool_inv L W pool" and I: "iter_ok I"
  shows "pool_inv L W (snd (pool_add L W I now pool tx nonce))"
proof (cases "validate_basic tx = Ok () \<and> fmlookup (tp_by_hash pool) (hash_of L W tx) = None")
  case False
  with inv show ?thesis by (cases "validate_basic tx") (auto simp: pool_add_def Let_def)
next
  case ok: True
  show ?thesis
  proof (cases "max_size (tp_config pool) \<le> fcard (fmdom (tp_by_hash pool))")
    case False
    with ok inv show ?thesis by (simp add: pool_add_def Let_def pool_inv_admit)
  next
    case full: True
    have idx: "index_ok L W pool" using inv by (simp add: pool_inv_def)
    show ?thesis
    proof (cases rule: try_evict_cases [OF idx I])
      case 1
      with ok full inv show ?thesis by (simp add: pool_add_def Let_def)
    next
      case (2 h p e)
      let ?p = "snd (pool_remove pool h)"
      note r = pool_remove_Some [OF 2(2)]
      have "fcard (fmdom (tp_by_hash ?p)) < fcard (fmdom (tp_by_hash pool))"
        unfolding r(3) by (rule fcard_fmdrop_less [OF 2(2)])
      then have "fcard (fmdom (tp_by_hash ?p)) < max_size (tp_config ?p)"
        using inv by (simp add: pool_inv_def limits_ok_def r)
      moreover have "fmlookup (tp_by_hash ?p) (hash_of L W tx) = None" using ok by (simp add: r)
      ultimately have "pool_inv L W (snd (pool_admit L W now ?p tx nonce))"
        using ok pool_inv_remove [OF inv] by (intro pool_inv_admit) auto
      with ok full 2(4) show ?thesis by (simp add: pool_add_def Let_def)
    qed
  qed
qed


subsection \<open>Promotion\<close>

definition promoted :: "PoolEntry \<Rightarrow> PoolEntry" where
  "promoted e = \<lparr>pe_transaction = pe_transaction e, pe_added_at = pe_added_at e, pe_status = Pending\<rparr>"

lemma promote_one_None: "lookup2 (tp_queued pool) s n = None \<Longrightarrow> promote_one L W (s, n) pool = pool"
  by (auto simp: promote_one_def lookup2_def split: option.splits)

lemma promote_one_Some:
  assumes "lookup2 (tp_queued pool) s n = Some e"
  shows "tp_config (promote_one L W (s, n) pool) = tp_config pool"
    and "tp_by_hash (promote_one L W (s, n) pool) = tp_by_hash pool"
    and "tp_by_sender (promote_one L W (s, n) pool) = tp_by_sender pool"
    and "tp_pending (promote_one L W (s, n) pool) =
      insert2 (tx_gas_price (pe_transaction e)) (hash_of L W (pe_transaction e)) (promoted e) (tp_pending pool)"
    and "lookup2 (tp_queued (promote_one L W (s, n) pool)) x y =
      (if x = s \<and> y = n then None else lookup2 (tp_queued pool) x y)"
    and "pending_count (tp_metrics (promote_one L W (s, n) pool)) = pending_count (tp_metrics pool) + 1"
    and "queued_count (tp_metrics (promote_one L W (s, n) pool)) = queued_count (tp_metrics pool) - 1"
    and "total_transactions (tp_metrics (promote_one L W (s, n) pool)) = total_transactions (tp_metrics pool)"
  using assms
  by (auto simp: promote_one_def Let_def lookup2_def bind_eq_Some_conv promoted_def)

lemma index_ok_promote:
  assumes inv: "index_ok L W pool" and e: "lookup2 (tp_queued pool) s n = Some e"
  shows "index_ok L W (promote_one L W (s, n) pool)"
proof (rule index_okI)
  note q = index_okD(6-9) [OF inv e] and r = promote_one_Some [OF e, of L W]
  {
    fix h t
    assume "fmlookup (tp_by_hash (promote_one L W (s, n) pool)) h = Some t"
    then show "hash_of L W t = h \<and> validate_basic t = Ok () \<and>
        min_gas_price (tp_config (promote_one L W (s, n) pool)) \<le> tx_gas_price t"
      using index_okD(1-3) [OF inv, of h t] by (simp add: r)
  next
    fix p h x
    assume "lookup2 (tp_pending (promote_one L W (s, n) pool)) p h = Some x"
    then show "fmlookup (tp_by_hash (promote_one L W (s, n) pool)) h = Some (pe_transaction x) \<and>
        tx_gas_price (pe_transaction x) = p"
      using index_okD(4,5) [OF inv, of p h x] q(1) by (auto simp: r promoted_def split: if_splits)
  next
    fix s' n' x
    assume "lookup2 (tp_queued (promote_one L W (s, n) pool)) s' n' = Some x"
    then have x: "lookup2 (tp_queued pool) s' n' = Some x" "\<not> (s' = s \<and> n' = n)"
      by (simp_all add: r split: if_splits)
    note q' = index_okD(6-9) [OF inv x(1)]
    have "hash_of L W (pe_transaction x) \<noteq> hash_of L W (pe_transaction e)"
      using q(1-3) q'(1-3) x(2) by auto
    with q' show "fmlookup (tp_by_hash (promote_one L W (s, n) pool)) (hash_of L W (pe_transaction x)) =
          Some (pe_transaction x) \<and> tx_from (pe_transaction x) = s' \<and> tx_nonce (pe_transaction x) = n' \<and>
        lookup2 (tp_pending (promote_one L W (s, n) pool)) (tx_gas_price (pe_transaction x))
          (hash_of L W (pe_transaction x)) = None"
      by (simp add: r)
  next
    show "no_empty (tp_pending (promote_one L W (s, n) pool))"
      using index_okD(10) [OF inv] by (simp add: r no_empty_insert2)
  }
qed

lemma pool_inv_promote_one:
  assumes inv: "pool_inv L W pool"
  shows "pool_inv L W (promote_one L W sn pool)"
proof -
  obtain s n where sn: "sn = (s, n)" by (cases sn)
  show ?thesis
  proof (cases "lookup2 (tp_queued pool) s n")
    case None
    with inv show ?thesis by (simp add: sn promote_one_None)
  next
    case (Some e)
    note r = promote_one_Some [OF Some, of L W]
    have "size2 (tp_queued (promote_one L W (s, n) pool)) = size2 (tp_queued pool) - 1"
      using size2_change [OF r(5)] Some by simp
    moreover have "0 < size2 (tp_queued pool)" using Some by (intro size2_pos) auto
    moreover have "lookup2 (tp_pending pool) (tx_gas_price (pe_transaction e)) (hash_of L W (pe_transaction e)) = None"
      using inv Some by (auto simp: pool_inv_def dest: index_okD(9))
    ultimately show ?thesis
      using inv index_ok_promote [OF _ Some] unfolding sn
      by (auto simp: pool_inv_def counts_ok_def limits_ok_def r size2_insert2)
  qed
qed

lemma pool_inv_promote: "pool_inv L W pool \<Longrightarrow> pool_inv L W (fold (promote_one L W) sns pool)"
  by (induction sns arbitrary: pool) (auto simp: pool_inv_promote_one)

text \<open>Every listed queued transaction ends up pending.\<close>

lemma promote_one_keeps_pending:
  "lookup2 (tp_pending pool) p h \<noteq> None \<Longrightarrow> lookup2 (tp_pending (promote_one L W sn pool)) p h \<noteq> None"
  by (cases sn; cases "lookup2 (tp_queued pool) (fst sn) (snd sn)")
    (simp_all add: promote_one_None promote_one_Some)

lemma promote_all_keeps_pending:
  "lookup2 (tp_pending pool) p h \<noteq> None \<Longrightarrow> lookup2 (tp_pending (fold (promote_one L W) sns pool)) p h \<noteq> None"
  by (induction sns arbitrary: pool) (simp_all add: promote_one_keeps_pending del: not_None_eq)

lemma promote_all_pending:
  assumes "(s, n) \<in> set sns" and "lookup2 (tp_queued pool) s n = Some e"
  shows "lookup2 (tp_pending (fold (promote_one L W) sns pool)) (tx_gas_price (pe_transaction e))
    (hash_of L W (pe_transaction e)) \<noteq> None"
  using assms
proof (induction sns arbitrary: pool)
  case (Cons sn sns)
  show ?case
  proof (cases "sn = (s, n)")
    case True
    then show ?thesis
      using promote_all_keeps_pending [of "promote_one L W (s, n) pool"] Cons.prems(2)
      by (simp add: promote_one_Some)
  next
    case False
    obtain s' n' where sn: "sn = (s', n')" by (cases sn)
    have "lookup2 (tp_queued (promote_one L W sn pool)) s n = Some e"
      using False Cons.prems(2) unfolding sn
      by (cases "lookup2 (tp_queued pool) s' n'") (auto simp: promote_one_None promote_one_Some)
    with Cons False show ?thesis by simp
  qed
qed simp

section \<open>The pool as a state machine\<close>

inductive pool_step :: "crypto_lib \<Rightarrow> wire \<Rightarrow> TransactionPool \<Rightarrow> TransactionPool \<Rightarrow> bool" for L W where
  add: "iter_ok I \<Longrightarrow> pool_step L W pool (snd (pool_add L W I now pool tx nonce))"
| remove: "pool_step L W pool (snd (pool_remove pool h))"
| included: "iter_ok I \<Longrightarrow> pool_step L W pool (remove_included L W I pool txs)"
| prune: "iter_ok I \<Longrightarrow> pool_step L W pool (prune L W I now pool)"
| clear: "pool_step L W pool (pool_clear pool)"

inductive pool_reachable :: "crypto_lib \<Rightarrow> wire \<Rightarrow> TransactionPool \<Rightarrow> bool" for L W where
  init: "pool_reachable L W (pool_new config)"
| step: "pool_reachable L W pool \<Longrightarrow> pool_step L W pool pool' \<Longrightarrow> pool_reachable L W pool'"

lemma pool_step_inv: "pool_step L W pool pool' \<Longrightarrow> pool_inv L W pool \<Longrightarrow> pool_inv L W pool'"
  by (induction rule: pool_step.induct)
    (auto simp: remove_included_def promote_queued_def prune_def pool_inv_promote pool_inv_remove_all
      pool_inv_add pool_inv_remove pool_inv_clear)

lemma pool_reachable_inv: "pool_reachable L W pool \<Longrightarrow> pool_inv L W pool"
  by (induction rule: pool_reachable.induct) (auto simp: pool_inv_new intro: pool_step_inv)

section \<open>Selection for a block\<close>

lemma get_pending_loop_split:
  "\<exists>ts'. get_pending_loop mg mc es tg ts = ts @ ts' \<and> subseq ts' (map pe_transaction es) \<and>
     length ts' \<le> mc - length ts"
proof (induction mg mc es tg ts rule: get_pending_loop.induct)
  case (2 mg mc e es tg ts)
  let ?t = "pe_transaction e"
  show ?case
  proof (cases "mg < tg + tx_gas_limit ?t \<or> mc \<le> length ts")
    case True
    then show ?thesis using 2 by (auto intro: list_emb_Cons)
  next
    case False
    then obtain ts' where "get_pending_loop mg mc es (tg + tx_gas_limit ?t) (ts @ [?t]) = (ts @ [?t]) @ ts'"
      "subseq ts' (map pe_transaction es)" "length ts' \<le> mc - length (ts @ [?t])"
      using 2 by auto
    with False show ?thesis by (intro exI [of _ "?t # ts'"]) auto
  qed
qed simp

lemma get_pending_loop_gas:
  assumes "\<forall>e \<in> set es. unat mg + unat (tx_gas_limit (pe_transaction e)) < 2 ^ 64"
    and "unat tg \<le> unat mg" and "sum_list (map (\<lambda>t. unat (tx_gas_limit t)) ts) = unat tg"
  shows "sum_list (map (\<lambda>t. unat (tx_gas_limit t)) (get_pending_loop mg mc es tg ts)) \<le> unat mg"
  using assms
proof (induction mg mc es tg ts rule: get_pending_loop.induct)
  case (2 mg mc e es tg ts)
  let ?l = "tx_gas_limit (pe_transaction e)"
  have "unat (tg + ?l) = unat tg + unat ?l" using 2(3,4) by (intro unat_add_u64) auto
  then show ?case using 2 by (auto simp: word_less_nat_alt)
qed simp

end
