(* ===== verification/Mempool_Properties.thy ===== *)
theory Mempool_Properties
  imports Mempool_Invariant
begin

text \<open>
  The properties of the transaction pool: the invariant of every reachable pool, what a
  block producer is given, and three behaviours of admission and promotion that callers
  have to know.
\<close>

section \<open>What is handed to a block producer\<close>

lemma pending_entries_map:
  "map f (pending_entries I pool) =
     concat (map (\<lambda>(_, m). map (\<lambda>(_, e). f e) (it_pending I m)) (rev (btree_iter (tp_pending pool))))"
  by (simp add: pending_entries_def map_concat comp_def split_def)

lemma in_btree_iter: "(k, v) \<in> set (btree_iter m) \<longleftrightarrow> fmlookup m k = Some v"
  using enumerates_lookup [OF enumerates_btree_iter] by metis

lemma in_it_pending:
  assumes "iter_ok I"
  shows "(h, e) \<in> set (it_pending I m) \<longleftrightarrow> fmlookup m h = Some e"
proof -
  have "enumerates (it_pending I m) m" using assms by (simp add: iter_ok_def)
  from enumerates_lookup [OF this] show ?thesis by simp
qed

lemma pending_entry:
  "iter_ok I \<Longrightarrow> (p, m) \<in> set (btree_iter (tp_pending pool)) \<Longrightarrow> (h, e) \<in> set (it_pending I m) \<Longrightarrow>
     lookup2 (tp_pending pool) p h = Some e"
  by (simp add: in_btree_iter in_it_pending lookup2_def)

lemma pending_entries_iff:
  assumes "iter_ok I"
  shows "e \<in> set (pending_entries I pool) \<longleftrightarrow> (\<exists>p h. lookup2 (tp_pending pool) p h = Some e)"
proof
  assume "e \<in> set (pending_entries I pool)"
  then obtain p m h where "(p, m) \<in> set (btree_iter (tp_pending pool))" "(h, e) \<in> set (it_pending I m)"
    by (auto simp: pending_entries_def)
  then show "\<exists>p h. lookup2 (tp_pending pool) p h = Some e" using pending_entry [OF assms] by blast
next
  assume "\<exists>p h. lookup2 (tp_pending pool) p h = Some e"
  then obtain p m h where "fmlookup (tp_pending pool) p = Some m" "fmlookup m h = Some e"
    by (auto simp: lookup2_def bind_eq_Some_conv)
  then have "(p, m) \<in> set (btree_iter (tp_pending pool))" "(h, e) \<in> set (it_pending I m)"
    by (simp_all add: in_btree_iter in_it_pending [OF assms])
  then show "e \<in> set (pending_entries I pool)" by (force simp: pending_entries_def)
qed

lemma pending_prices_sorted:
  assumes inv: "index_ok L W pool" and I: "iter_ok I"
  shows "sorted_wrt (\<lambda>a b. tx_gas_price b \<le> tx_gas_price a) (map pe_transaction (pending_entries I pool))"
proof -
  have price: "tx_gas_price (pe_transaction e) = p"
    if "(p, m) \<in> set (btree_iter (tp_pending pool))" "(h, e) \<in> set (it_pending I m)" for p m h e
    using pending_entry [OF I that] by (rule index_okD(5) [OF inv])
  have s: "sorted_wrt (\<lambda>a b. b \<le> a) (map fst (rev (btree_iter (tp_pending pool))))"
    using sorted_btree_iter [of "tp_pending pool"] by (simp add: sorted_wrt_rev flip: rev_map)
  have "sorted_wrt (\<lambda>a b. tx_gas_price b \<le> tx_gas_price a)
      (concat (map (\<lambda>(_, m). map (\<lambda>(_, e). pe_transaction e) (it_pending I m)) bs))"
    if "set bs \<subseteq> set (btree_iter (tp_pending pool))" "sorted_wrt (\<lambda>a b. b \<le> a) (map fst bs)" for bs
    using that
  proof (induction bs)
    case (Cons b bs)
    obtain p m where b: "b = (p, m)" by (cases b)
    have one: "tx_gas_price t = p" if "t \<in> (\<lambda>(_, e). pe_transaction e) ` set (it_pending I m)" for t
      using that Cons.prems(1) price [of p m] by (auto simp: b)
    have "sorted_wrt (\<lambda>a b. tx_gas_price b \<le> tx_gas_price a) (map (\<lambda>(_, e). pe_transaction e) (it_pending I m))"
      by (rule sorted_wrt_mono_rel [of _ "\<lambda>_ _. True"]) (auto simp: one sorted_wrt_iff_nth_less)
    moreover have "tx_gas_price u \<le> p"
      if u: "u \<in> set (concat (map (\<lambda>(_, m). map (\<lambda>(_, e). pe_transaction e) (it_pending I m)) bs))" for u
    proof -
      obtain q k x e where "(q, k) \<in> set bs" "(x, e) \<in> set (it_pending I k)" "u = pe_transaction e"
        using u by auto
      moreover from this have "q \<le> p" using Cons.prems(2) by (force simp: b)
      ultimately show ?thesis using price [of q k x e] Cons.prems(1) by auto
    qed
    ultimately show ?case
      using Cons by (auto simp: b sorted_wrt_append one)
  qed simp
  from this [OF _ s] show ?thesis by (simp add: pending_entries_map)
qed

lemma pending_distinct:
  assumes inv: "index_ok L W pool" and I: "iter_ok I"
  shows "distinct (map pe_transaction (pending_entries I pool))"
proof -
  have hash: "fmlookup (tp_by_hash pool) h = Some (pe_transaction e) \<and> hash_of L W (pe_transaction e) = h \<and>
      tx_gas_price (pe_transaction e) = p"
    if "(p, m) \<in> set (btree_iter (tp_pending pool))" "(h, e) \<in> set (it_pending I m)" for p m h e
  proof -
    note l = pending_entry [OF I that]
    show ?thesis using index_okD(4,5) [OF inv l] index_okD(1) [OF inv, of h "pe_transaction e"] by simp
  qed
  have d: "distinct (map fst (rev (btree_iter (tp_pending pool))))"
    using enumerates_btree_iter [of "tp_pending pool"] by (simp add: enumerates_def flip: rev_map)
  have "distinct (concat (map (\<lambda>(_, m). map (\<lambda>(_, e). pe_transaction e) (it_pending I m)) bs))"
    if "set bs \<subseteq> set (btree_iter (tp_pending pool))" "distinct (map fst bs)" for bs
    using that
  proof (induction bs)
    case (Cons b bs)
    obtain p m where b: "b = (p, m)" by (cases b)
    let ?A = "map (\<lambda>(_, e). pe_transaction e) (it_pending I m)"
    let ?B = "concat (map (\<lambda>(_, m). map (\<lambda>(_, e). pe_transaction e) (it_pending I m)) bs)"
    have pm: "(p, m) \<in> set (btree_iter (tp_pending pool))" using Cons.prems(1) b by simp
    have "distinct (map fst (it_pending I m))" using I by (simp add: iter_ok_def enumerates_def)
    moreover have "map fst (it_pending I m) = map (hash_of L W) (map (\<lambda>(_, e). pe_transaction e) (it_pending I m))"
      using hash [OF pm] by auto
    ultimately have "distinct (map (\<lambda>(_, e). pe_transaction e) (it_pending I m))"
      by (metis distinct_map)
    moreover have "tx_gas_price t = p" if "t \<in> set (map (\<lambda>(_, e). pe_transaction e) (it_pending I m))" for t
      using that hash [OF pm] by auto
    moreover have "tx_gas_price u \<noteq> p"
      if u: "u \<in> set (concat (map (\<lambda>(_, m). map (\<lambda>(_, e). pe_transaction e) (it_pending I m)) bs))" for u
    proof -
      obtain q k x e where "(q, k) \<in> set bs" "(x, e) \<in> set (it_pending I k)" "u = pe_transaction e"
        using u by auto
      moreover from this have "q \<noteq> p" using Cons.prems(2) by (force simp: b)
      ultimately show ?thesis using hash [of q k x e] Cons.prems(1) by auto
    qed
    ultimately have dA: "distinct ?A" and disj: "set ?A \<inter> set ?B = {}" by blast+
    have "distinct ?B" using Cons by simp
    with dA disj have "distinct (?A @ ?B)" unfolding distinct_append by blast
    then show ?case by (simp add: b)
  qed simp
  from this [OF _ d] show ?thesis by (simp add: pending_entries_map)
qed

lemma get_pending_subseq:
  obtains ts where "get_pending I pool mg mc = ts" "subseq ts (map pe_transaction (pending_entries I pool))" "length ts \<le> mc"
  using get_pending_loop_split [of mg mc "pending_entries I pool" 0 "[]"] unfolding get_pending_def by auto

lemma subseq_sorted_wrt: "subseq xs ys \<Longrightarrow> sorted_wrt P ys \<Longrightarrow> sorted_wrt P xs"
proof (induction rule: list_emb.induct)
  case (list_emb_Cons2 x y xs ys)
  then show ?case using list_emb_set [of "(=)" xs ys] by auto
qed auto


lemma subseq_distinct: "subseq xs ys \<Longrightarrow> distinct ys \<Longrightarrow> distinct xs"
proof (induction rule: list_emb.induct)
  case (list_emb_Cons2 x y xs ys)
  then show ?case using list_emb_set [of "(=)" xs ys] by auto
qed auto

lemma in_map_filter: "f x = Some y \<Longrightarrow> x \<in> set xs \<Longrightarrow> y \<in> set (List.map_filter f xs)"
  by (induction xs) (auto split: option.splits)

section \<open>An example pool\<close>

definition demo_iter :: pool_iter where
  "demo_iter = \<lparr>it_pending = btree_iter, it_queued = btree_iter, it_by_hash = btree_iter\<rparr>"

lemma demo_iter_ok: "iter_ok demo_iter"
  by (simp add: iter_ok_def demo_iter_def enumerates_btree_iter)

text \<open>The example encoder tells transactions apart by their gas price.\<close>

definition demo_pool_wire :: wire where
  "demo_pool_wire = demo_wire\<lparr>enc_tx := (\<lambda>tx. [ucast (tx_gas_price tx)])\<rparr>"

definition demo_tx :: "Nonce \<Rightarrow> GasPrice \<Rightarrow> Transaction" where
  "demo_tx nonce price = (transaction_new 5 1 nonce (Stake 9) price 21000)
     \<lparr>tx_signature := Some \<lparr>sig_scheme = Ed25519, sig_bytes = []\<rparr>\<rparr>"

definition demo_pool :: "nat \<Rightarrow> (Nonce \<times> GasPrice) list \<Rightarrow> TransactionPool" where
  "demo_pool cap txs = fold (\<lambda>(n, p) pool. snd (pool_add demo_lib demo_pool_wire demo_iter 7 pool (demo_tx n p) 3)) txs
     (pool_new (pool_config_default\<lparr>max_size := cap\<rparr>))"

lemma demo_pool_reachable: "pool_reachable demo_lib demo_pool_wire (demo_pool cap txs)"
proof (induction txs rule: rev_induct)
  case Nil
  then show ?case by (simp add: demo_pool_def init)
next
  case (snoc np txs)
  obtain n p where "np = (n, p)" by (cases np)
  then have "demo_pool cap (txs @ [np]) =
      snd (pool_add demo_lib demo_pool_wire demo_iter 7 (demo_pool cap txs) (demo_tx n p) 3)"
    by (simp add: demo_pool_def)
  with snoc show ?case by (auto intro: pool_reachable.step pool_step.add demo_iter_ok)
qed

lemma demo_tx_fields [simp]:
  "tx_nonce (demo_tx n p) = n" "tx_gas_price (demo_tx n p) = p" "tx_from (demo_tx n p) = 1"
  "tx_gas_limit (demo_tx n p) = 21000"
  by (simp_all add: demo_tx_def transaction_new_def)

lemma demo_tx_valid [simp]: "p \<noteq> 0 \<Longrightarrow> validate_basic (demo_tx n p) = Ok ()"
  by (simp add: validate_basic_Ok demo_tx_def transaction_new_def type_payload_ok_def)

lemma demo_tx_hash [simp]: "hash_of demo_lib demo_pool_wire (demo_tx n p) = 256 + ucast (ucast p :: u8)"
  by (simp add: transaction_hash_def hash_bytes_demo_lib demo_digest_def demo_pool_wire_def)

lemmas demo_pool_simps = demo_pool_def pool_new_def pool_config_default_def pool_metrics_default_def pool_add_def
  pool_admit_def pool_insert_def Let_def insert2_def lookup2_def fcard.rep_eq lookup_default_def

lemma demo_pool_one: "0 < cap \<Longrightarrow> lookup2 (tp_queued (demo_pool cap [(8, 1)])) 1 8 =
    Some \<lparr>pe_transaction = demo_tx 8 1, pe_added_at = 7, pe_status = Queued\<rparr>"
  by (simp add: demo_pool_simps)

lemma demo_pool_pending: "0 < cap \<Longrightarrow> lookup2 (tp_pending (demo_pool cap [(3, 2)])) 2 258 =
    Some \<lparr>pe_transaction = demo_tx 3 2, pe_added_at = 7, pe_status = Pending\<rparr>"
  by (simp add: demo_pool_simps)


section \<open>Properties\<close>

text \<open>C14. The invariant of every reachable pool: it never holds more transactions than its
  limits allow, in all and per sender; the per-sender count is exact; every pending or
  queued entry is stored under its own price and hash, or sender and nonce, and is in the
  hash index; the pending counter is exact, the queued counter an upper bound.\<close>

theorem pool_reachable_invariant:
  assumes "pool_reachable L W pool"
  shows "fcard (fmdom (tp_by_hash pool)) \<le> max_size (tp_config pool) \<and>
    (\<forall>s. lookup_default 0 (tp_by_sender pool) s = card (sent_by (tp_by_hash pool) s) \<and>
       card (sent_by (tp_by_hash pool) s) \<le> max_per_account (tp_config pool)) \<and>
    (\<forall>p h e. lookup2 (tp_pending pool) p h = Some e \<longrightarrow> pool_get pool h = Some (pe_transaction e) \<and>
       transaction_hash L (enc_tx W) (pe_transaction e) = h \<and> tx_gas_price (pe_transaction e) = p) \<and>
    (\<forall>s n e. lookup2 (tp_queued pool) s n = Some e \<longrightarrow> tx_from (pe_transaction e) = s \<and>
       tx_nonce (pe_transaction e) = n \<and>
       pool_get pool (transaction_hash L (enc_tx W) (pe_transaction e)) = Some (pe_transaction e)) \<and>
    pending_count (tp_metrics pool) = size2 (tp_pending pool) \<and>
    size2 (tp_queued pool) \<le> queued_count (tp_metrics pool)"
proof -
  have inv: "index_ok L W pool" "counts_ok pool" "limits_ok pool"
    using pool_reachable_inv [OF assms] by (simp_all add: pool_inv_def)
  have "pool_get pool h = Some (pe_transaction e) \<and> transaction_hash L (enc_tx W) (pe_transaction e) = h \<and>
      tx_gas_price (pe_transaction e) = p" if "lookup2 (tp_pending pool) p h = Some e" for p h e
    using index_okD(4,5) [OF inv(1) that] index_okD(1) [OF inv(1), of h] by (simp add: pool_get_def)
  with inv(2,3) index_okD(6-8) [OF inv(1)] show ?thesis
    by (simp add: counts_ok_def limits_ok_def pool_get_def sender_counts_default)
qed

theorem pool_reachable_invariant_witness:
  "pool_reachable demo_lib demo_pool_wire (demo_pool 4 [(3, 2), (8, 1)]) \<and>
   pending_count (tp_metrics (demo_pool 4 [(3, 2), (8, 1)])) = size2 (tp_pending (demo_pool 4 [(3, 2), (8, 1)]))"
  using pool_reachable_invariant [OF demo_pool_reachable] demo_pool_reachable by blast

text \<open>What \<open>get_pending\<close> hands to a block producer: at most \<open>max_count\<close> distinct pending
  transactions in descending order of gas price, whose gas limits add up to at most
  \<open>max_gas\<close>, provided no single gas limit is so large that adding it to \<open>max_gas\<close> wraps.\<close>

lemma get_pending_fits:
  assumes "pool_reachable L W pool" and "iter_ok I"
    and "\<forall>e \<in> set (pending_entries I pool). unat max_gas + unat (tx_gas_limit (pe_transaction e)) < 2 ^ 64"
  shows "length (get_pending I pool max_gas max_count) \<le> max_count \<and>
    sum_list (map (\<lambda>tx. unat (tx_gas_limit tx)) (get_pending I pool max_gas max_count)) \<le> unat max_gas \<and>
    distinct (get_pending I pool max_gas max_count) \<and>
    sorted_wrt (\<lambda>a b. tx_gas_price b \<le> tx_gas_price a) (get_pending I pool max_gas max_count) \<and>
    (\<forall>tx \<in> set (get_pending I pool max_gas max_count).
       \<exists>e. lookup2 (tp_pending pool) (tx_gas_price tx) (transaction_hash L (enc_tx W) tx) = Some e \<and>
         pe_transaction e = tx)"
proof -
  have inv: "index_ok L W pool" using pool_reachable_inv [OF assms(1)] by (simp add: pool_inv_def)
  obtain ts where ts: "get_pending I pool max_gas max_count = ts"
    "subseq ts (map pe_transaction (pending_entries I pool))" "length ts \<le> max_count"
    by (rule get_pending_subseq)
  have "sum_list (map (\<lambda>tx. unat (tx_gas_limit tx)) ts) \<le> unat max_gas"
    unfolding ts(1) [symmetric] get_pending_def by (rule get_pending_loop_gas) (use assms(3) in simp_all)
  moreover have "distinct ts"
    using ts(2) pending_distinct [OF inv assms(2)] by (rule subseq_distinct)
  moreover have "sorted_wrt (\<lambda>a b. tx_gas_price b \<le> tx_gas_price a) ts"
    using ts(2) pending_prices_sorted [OF inv assms(2)] by (rule subseq_sorted_wrt)
  moreover have "\<exists>e. lookup2 (tp_pending pool) (tx_gas_price tx) (hash_of L W tx) = Some e \<and> pe_transaction e = tx"
    if "tx \<in> set ts" for tx
  proof -
    obtain e where "e \<in> set (pending_entries I pool)" and e: "tx = pe_transaction e"
      using list_emb_set [OF ts(2) \<open>tx \<in> set ts\<close>] by auto
    then obtain p h where l: "lookup2 (tp_pending pool) p h = Some e"
      using pending_entries_iff [OF assms(2)] by blast
    have "hash_of L W tx = h" using index_okD(4) [OF inv l] index_okD(1) [OF inv] e by blast
    moreover have "tx_gas_price tx = p" using index_okD(5) [OF inv l] e by simp
    ultimately show ?thesis using l e by blast
  qed
  ultimately show ?thesis unfolding ts(1) using ts(3) by blast
qed

lemma demo_pool_entries: "pending_entries demo_iter (demo_pool 4 [(3, 2)]) =
    [\<lparr>pe_transaction = demo_tx 3 2, pe_added_at = 7, pe_status = Pending\<rparr>]"
  by (simp add: demo_pool_simps pending_entries_def demo_iter_def btree_iter_def sorted_list_of_fset.rep_eq)

lemma get_pending_fits_witness:
  "get_pending demo_iter (demo_pool 4 [(3, 2)]) 30000 5 = [demo_tx 3 2] \<and>
   sum_list (map (\<lambda>tx. unat (tx_gas_limit tx)) (get_pending demo_iter (demo_pool 4 [(3, 2)]) 30000 5)) \<le> 30000"
proof -
  have "\<forall>e \<in> set (pending_entries demo_iter (demo_pool 4 [(3, 2)])).
      unat (30000 :: u64) + unat (tx_gas_limit (pe_transaction e)) < 2 ^ 64"
    by (simp add: demo_pool_entries)
  from get_pending_fits [OF demo_pool_reachable demo_iter_ok this, of 5]
  show ?thesis by (simp add: get_pending_def demo_pool_entries word_less_nat_alt)
qed

text \<open>Eviction comes before the remaining checks: when the pool is full and has a
  pending transaction, a new valid transaction with a nonce below the account's is refused,
  and yet a pending transaction of the lowest gas price has been dropped from the pool.\<close>

lemma pool_add_evicts_before_refusing:
  assumes "pool_reachable L W pool" and "iter_ok I" and "validate_basic tx = Ok ()"
    and "pool_get pool (transaction_hash L (enc_tx W) tx) = None"
    and "fcard (fmdom (tp_by_hash pool)) = max_size (tp_config pool)"
    and "tp_pending pool \<noteq> fmempty" and "tx_nonce tx < nonce"
  shows "\<not> is_ok (fst (pool_add L W I now pool tx nonce)) \<and>
    (\<exists>p h e. lookup2 (tp_pending pool) p h = Some e \<and> (\<forall>q x. lookup2 (tp_pending pool) q x \<noteq> None \<longrightarrow> p \<le> q) \<and>
       tp_by_hash (snd (pool_add L W I now pool tx nonce)) = fmdrop h (tp_by_hash pool) \<and>
       pool_get pool h = Some (pe_transaction e))"
proof -
  have inv: "index_ok L W pool" using pool_reachable_inv [OF assms(1)] by (simp add: pool_inv_def)
  show ?thesis
  proof (cases rule: try_evict_cases [OF inv assms(2)])
    case 1
    with assms(6) show ?thesis by simp
  next
    case (2 h p e)
    let ?p = "snd (pool_remove pool h)"
    have add: "pool_add L W I now pool tx nonce = pool_admit L W now ?p tx nonce"
      using assms 2(4) by (simp add: pool_add_def Let_def pool_get_def)
    have "snd (pool_admit L W now ?p tx nonce) = ?p \<and> \<not> is_ok (fst (pool_admit L W now ?p tx nonce))"
      using assms(7) by (cases rule: pool_admit_cases [of L W now ?p tx nonce]) auto
    then have "\<not> is_ok (fst (pool_add L W I now pool tx nonce))"
      "tp_by_hash (snd (pool_add L W I now pool tx nonce)) = fmdrop h (tp_by_hash pool)"
      using add pool_remove_Some(3) [OF 2(2)] by simp_all
    with 2(1-3) show ?thesis unfolding pool_get_def by blast
  qed
qed

lemma pool_add_evicts_before_refusing_witness:
  "\<not> is_ok (fst (pool_add demo_lib demo_pool_wire demo_iter 9 (demo_pool 1 [(3, 2)]) (demo_tx 0 1) 3)) \<and>
   pool_get (demo_pool 1 [(3, 2)]) 258 = Some (demo_tx 3 2) \<and>
   (\<exists>h. tp_by_hash (snd (pool_add demo_lib demo_pool_wire demo_iter 9 (demo_pool 1 [(3, 2)]) (demo_tx 0 1) 3)) =
      fmdrop h (tp_by_hash (demo_pool 1 [(3, 2)])))"
proof -
  let ?p = "demo_pool 1 [(3, 2)]"
  have "pool_get ?p (hash_of demo_lib demo_pool_wire (demo_tx 0 1)) = None"
    "fcard (fmdom (tp_by_hash ?p)) = max_size (tp_config ?p)"
    "pool_get ?p 258 = Some (demo_tx 3 2)"
    by (simp_all add: pool_get_def demo_pool_simps)
  moreover have "tp_pending ?p \<noteq> fmempty" using demo_pool_pending [of 1] by auto
  ultimately show ?thesis
    using pool_add_evicts_before_refusing [OF demo_pool_reachable demo_iter_ok, of "demo_tx 0 1" 1 "[(3, 2)]" 3 9]
    by auto
qed

text \<open>Queueing a second transaction of the same sender and nonce silently displaces the
  first: it stays in the hash index and in the sender's count but is neither pending nor
  queued any more, so it is never offered to a block, promoted or pruned; the queued
  counter counts both.\<close>

lemma pool_add_displaces_queued:
  assumes "pool_reachable L W pool" and "lookup2 (tp_queued pool) (tx_from tx) (tx_nonce tx) = Some e"
    and "transaction_hash L (enc_tx W) tx \<noteq> transaction_hash L (enc_tx W) (pe_transaction e)"
    and "fcard (fmdom (tp_by_hash pool)) < max_size (tp_config pool)"
    and "nonce < tx_nonce tx" and "pool_add L W I now pool tx nonce = (Ok (), pool')"
  shows "pool_get pool' (transaction_hash L (enc_tx W) (pe_transaction e)) = Some (pe_transaction e) \<and>
    (\<forall>p h x. lookup2 (tp_pending pool') p h = Some x \<longrightarrow> pe_transaction x \<noteq> pe_transaction e) \<and>
    (\<forall>s n x. lookup2 (tp_queued pool') s n = Some x \<longrightarrow> pe_transaction x \<noteq> pe_transaction e) \<and>
    queued_count (tp_metrics pool') = queued_count (tp_metrics pool) + 1 \<and>
    size2 (tp_queued pool') = size2 (tp_queued pool)"
proof -
  have inv: "index_ok L W pool" using pool_reachable_inv [OF assms(1)] by (simp add: pool_inv_def)
  note q = index_okD(6-9) [OF inv assms(2)]
  have "pool_admit L W now pool tx nonce = (Ok (), pool')"
    using assms(4,6) by (auto simp: pool_add_def Let_def split: outcome.splits if_splits)
  then have p': "pool' = pool_insert L W now pool tx Queued"
    using assms(5) by (auto simp: pool_admit_def split: if_splits)
  have pend: "pe_transaction x \<noteq> pe_transaction e" if l: "lookup2 (tp_pending pool) p h = Some x" for p h x
  proof
    assume eq: "pe_transaction x = pe_transaction e"
    have "hash_of L W (pe_transaction e) = h" using index_okD(4) [OF inv l] index_okD(1) [OF inv] eq by metis
    moreover have "tx_gas_price (pe_transaction e) = p" using index_okD(5) [OF inv l] eq by simp
    ultimately show False using q(4) l by simp
  qed
  have queue: "pe_transaction x \<noteq> pe_transaction e"
    if l: "lookup2 (tp_queued pool) s n = Some x" "\<not> (s = tx_from tx \<and> n = tx_nonce tx)" for s n x
    using index_okD(7,8) [OF inv l(1)] q(2,3) l(2) by auto
  have "pe_transaction x \<noteq> pe_transaction e" if "lookup2 (tp_queued pool') s n = Some x" for s n x
    using that queue [of s n x] assms(3) by (auto simp: p' pool_insert_fields split: if_splits)
  with pend q(1) assms(2,3) show ?thesis
    by (simp add: p' pool_insert_fields pool_get_def size2_insert2)
qed

lemma pool_add_displaces_queued_witness:
  "\<exists>pool'. pool_add demo_lib demo_pool_wire demo_iter 9 (demo_pool 4 [(8, 1)]) (demo_tx 8 5) 3 = (Ok (), pool') \<and>
     pool_get pool' 257 = Some (demo_tx 8 1) \<and>
     (\<forall>s n x. lookup2 (tp_queued pool') s n = Some x \<longrightarrow> pe_transaction x \<noteq> demo_tx 8 1)"
proof -
  let ?p = "demo_pool 4 [(8, 1)]"
  have q: "lookup2 (tp_queued ?p) (tx_from (demo_tx 8 5)) (tx_nonce (demo_tx 8 5)) =
      Some \<lparr>pe_transaction = demo_tx 8 1, pe_added_at = 7, pe_status = Queued\<rparr>"
    using demo_pool_one [of 4] by simp
  obtain pool' where add: "pool_add demo_lib demo_pool_wire demo_iter 9 ?p (demo_tx 8 5) 3 = (Ok (), pool')"
    by (simp add: demo_pool_simps)
  have room: "fcard (fmdom (tp_by_hash ?p)) < max_size (tp_config ?p)" by (simp add: demo_pool_simps)
  from pool_add_displaces_queued [OF demo_pool_reachable q _ room _ add] add show ?thesis by auto
qed

text \<open>Promotion does not look at the account's nonce: after any block (even an empty
  one) the queued transaction with the lowest nonce of every sender becomes pending,
  whether or not the gap before it was filled.\<close>

lemma remove_included_promotes_across_gaps:
  assumes "pool_reachable L W pool" and "iter_ok I"
    and "fmlookup (tp_queued pool) s = Some m" and "btree_iter m = (n, e) # es"
  shows "\<exists>e'. lookup2 (tp_pending (remove_included L W I pool [])) (tx_gas_price (pe_transaction e))
      (transaction_hash L (enc_tx W) (pe_transaction e)) = Some e' \<and> pe_transaction e' = pe_transaction e"
proof -
  let ?p = "promote_queued L W I pool"
  have l: "lookup2 (tp_queued pool) s n = Some e"
    using assms(3) btree_iter_hd(1) [OF assms(4)] by (simp add: lookup2_def)
  have en: "enumerates (it_queued I (tp_queued pool)) (tp_queued pool)" using assms(2) by (simp add: iter_ok_def)
  have "(s, m) \<in> set (it_queued I (tp_queued pool))" using enumerates_lookup [OF en] assms(3) by simp
  then have "(s, n) \<in> set (to_promote I pool)" 
    unfolding to_promote_def by (rule in_map_filter [rotated]) (simp add: assms(4))
  from promote_all_pending [OF this l, of L W]
  obtain e' where e': "lookup2 (tp_pending ?p) (tx_gas_price (pe_transaction e)) (hash_of L W (pe_transaction e)) = Some e'"
    by (auto simp: promote_queued_def)
  have inv: "index_ok L W pool" "pool_inv L W pool"
    using pool_reachable_inv [OF assms(1)] by (simp_all add: pool_inv_def)
  then have inv': "index_ok L W ?p" using pool_inv_promote by (auto simp: pool_inv_def promote_queued_def)
  have "tp_by_hash (fold (promote_one L W) sns pl) = tp_by_hash pl" for sns pl
  proof (induction sns arbitrary: pl)
    case (Cons sn sns)
    then show ?case
      by (cases sn; cases "lookup2 (tp_queued pl) (fst sn) (snd sn)") (simp_all add: promote_one_None promote_one_Some)
  qed simp
  then have "fmlookup (tp_by_hash pool) (hash_of L W (pe_transaction e)) = Some (pe_transaction e')"
    using index_okD(4) [OF inv' e'] by (simp add: promote_queued_def)
  then have "pe_transaction e' = pe_transaction e" using index_okD(6) [OF inv(1) l] by simp
  with e' show ?thesis by (auto simp: remove_included_def remove_all_def)
qed

lemma remove_included_promotes_across_gaps_witness:
  "\<exists>e'. lookup2 (tp_pending (remove_included demo_lib demo_pool_wire demo_iter (demo_pool 4 [(8, 1)]) [])) 1 257 =
     Some e' \<and> pe_transaction e' = demo_tx 8 1"
proof -
  let ?e = "\<lparr>pe_transaction = demo_tx 8 1, pe_added_at = 7, pe_status = Queued\<rparr>"
  have m: "fmlookup (tp_queued (demo_pool 4 [(8, 1)])) 1 = Some (fmupd 8 ?e fmempty)"
    by (simp add: demo_pool_simps)
  have "btree_iter (fmupd 8 ?e fmempty) = [(8, ?e)]"
    by (simp add: btree_iter_def sorted_list_of_fset.rep_eq)
  from remove_included_promotes_across_gaps [OF demo_pool_reachable demo_iter_ok m this] show ?thesis by simp
qed
end
