(* ===== verification/Lru_Cache.thy ===== *)
theory Lru_Cache
  imports Block Interfaces
begin

text \<open>
  \<open>cache.rs\<close> of the \<open>storage\<close> crate: the LRU cache with its block and transaction
  instances, and the state cache. The readers-writer lock serialises every operation, so
  each is a function on the cache inside; \<open>VecDeque\<close> is a list with its front first.
\<close>

section \<open>The code\<close>

record ('k, 'v) LruCache =
  lru_map :: "('k, 'v) fmap"
  lru_order :: "'k list"
  lru_capacity :: nat

definition lru_new :: "nat \<Rightarrow> ('k, 'v) LruCache" where
  "lru_new capacity = \<lparr>lru_map = fmempty, lru_order = [], lru_capacity = capacity\<rparr>"

definition lru_get :: "('k, 'v) LruCache \<Rightarrow> 'k \<Rightarrow> 'v option \<times> ('k, 'v) LruCache" where
  "lru_get c key =
     (if fmlookup (lru_map c) key \<noteq> None
      then let order = key # filter (\<lambda>k. k \<noteq> key) (lru_order c)
           in (fmlookup (lru_map c) key, c\<lparr>lru_order := order\<rparr>)
      else (None, c))"

text \<open>The first half of \<open>insert\<close>: \<open>pop_back\<close> when the map is full.\<close>

definition lru_make_room :: "('k, 'v) LruCache \<Rightarrow> 'k \<Rightarrow> ('k, 'v) LruCache" where
  "lru_make_room c key =
     (if lru_capacity c \<le> fcard (fmdom (lru_map c)) \<and> fmlookup (lru_map c) key = None
      then (if lru_order c = [] then c
            else c\<lparr>lru_order := butlast (lru_order c), lru_map := fmdrop (last (lru_order c)) (lru_map c)\<rparr>)
      else c)"

definition lru_insert :: "('k, 'v) LruCache \<Rightarrow> 'k \<Rightarrow> 'v \<Rightarrow> ('k, 'v) LruCache" where
  "lru_insert c key value =
     (let c1 = lru_make_room c key in
      c1\<lparr>lru_order := key # filter (\<lambda>k. k \<noteq> key) (lru_order c1), lru_map := fmupd key value (lru_map c1)\<rparr>)"

definition lru_clear :: "('k, 'v) LruCache \<Rightarrow> ('k, 'v) LruCache" where
  "lru_clear c = c\<lparr>lru_map := fmempty, lru_order := []\<rparr>"

type_synonym BlockCache = "(hash, Block) LruCache"
type_synonym TransactionCache = "(hash, Transaction) LruCache"

definition block_cache_new :: "nat \<Rightarrow> BlockCache" where
  "block_cache_new capacity = lru_new capacity"

definition block_cache_get :: "BlockCache \<Rightarrow> hash \<Rightarrow> Block option \<times> BlockCache" where
  "block_cache_get c h = lru_get c h"

definition block_cache_insert :: "BlockCache \<Rightarrow> hash \<Rightarrow> Block \<Rightarrow> BlockCache" where
  "block_cache_insert c h block = lru_insert c h block"

definition block_cache_clear :: "BlockCache \<Rightarrow> BlockCache" where
  "block_cache_clear c = lru_clear c"

definition transaction_cache_new :: "nat \<Rightarrow> TransactionCache" where
  "transaction_cache_new capacity = lru_new capacity"

definition transaction_cache_get :: "TransactionCache \<Rightarrow> hash \<Rightarrow> Transaction option \<times> TransactionCache" where
  "transaction_cache_get c h = lru_get c h"

definition transaction_cache_insert :: "TransactionCache \<Rightarrow> hash \<Rightarrow> Transaction \<Rightarrow> TransactionCache" where
  "transaction_cache_insert c h tx = lru_insert c h tx"

record StateCache =
  sc_cache :: "(BlockNumber, WorldState) fmap"
  sc_max_entries :: nat

definition state_cache_new :: "nat \<Rightarrow> StateCache" where
  "state_cache_new max_entries = \<lparr>sc_cache = fmempty, sc_max_entries = max_entries\<rparr>"

definition state_cache_get :: "StateCache \<Rightarrow> BlockNumber \<Rightarrow> WorldState option" where
  "state_cache_get c number = fmlookup (sc_cache c) number"

definition state_cache_insert :: "StateCache \<Rightarrow> BlockNumber \<Rightarrow> WorldState \<Rightarrow> StateCache" where
  "state_cache_insert c number state =
     (let cache = (if sc_max_entries c \<le> fcard (fmdom (sc_cache c))
                   then (case btree_iter (sc_cache c) of
                           [] \<Rightarrow> sc_cache c
                         | (min_key, _) # _ \<Rightarrow> fmdrop min_key (sc_cache c))
                   else sc_cache c)
      in c\<lparr>sc_cache := fmupd number state cache\<rparr>)"

section \<open>The recency list\<close>

text \<open>
  The specification: a list of entries, the most recently used first. A hit moves its entry
  to the front; inserting a new key keeps the \<open>capacity - 1\<close> most recent others.
\<close>

definition lru_ok :: "('k, 'v) LruCache \<Rightarrow> bool" where
  "lru_ok c \<longleftrightarrow> distinct (lru_order c) \<and> set (lru_order c) = fset (fmdom (lru_map c)) \<and>
     length (lru_order c) \<le> max 1 (lru_capacity c)"

definition lru_entries :: "('k, 'v) LruCache \<Rightarrow> ('k \<times> 'v) list" where
  "lru_entries c = map (\<lambda>k. (k, the (fmlookup (lru_map c) k))) (lru_order c)"

definition spec_get :: "('k \<times> 'v) list \<Rightarrow> 'k \<Rightarrow> 'v option \<times> ('k \<times> 'v) list" where
  "spec_get es k =
     (case map_of es k of
        None \<Rightarrow> (None, es)
      | Some v \<Rightarrow> (Some v, (k, v) # filter (\<lambda>e. fst e \<noteq> k) es))"

definition spec_insert :: "nat \<Rightarrow> ('k \<times> 'v) list \<Rightarrow> 'k \<Rightarrow> 'v \<Rightarrow> ('k \<times> 'v) list" where
  "spec_insert capacity es k v =
     (k, v) # (if map_of es k = None then take (capacity - 1) es else filter (\<lambda>e. fst e \<noteq> k) es)"

lemma lru_ok_card: "lru_ok c \<Longrightarrow> fcard (fmdom (lru_map c)) = length (lru_order c)"
  by (metis lru_ok_def distinct_card fcard.rep_eq)

lemma lru_ok_dom: "lru_ok c \<Longrightarrow> k \<in> set (lru_order c) \<longleftrightarrow> fmlookup (lru_map c) k \<noteq> None"
  by (auto simp: lru_ok_def fmlookup_dom_iff)

lemma lru_entries_lookup: "lru_ok c \<Longrightarrow> map_of (lru_entries c) k = fmlookup (lru_map c) k"
proof -
  assume ok: "lru_ok c"
  have "map_of (map (\<lambda>k. (k, f k)) ks) k = (if k \<in> set ks then Some (f k) else None)" for f :: "'a \<Rightarrow> 'b" and ks
    by (induction ks) auto
  then show ?thesis using lru_ok_dom [OF ok, of k] by (auto simp: lru_entries_def)
qed

lemma lru_entries_filter:
  "filter (\<lambda>e. fst e \<noteq> k) (lru_entries c) =
     map (\<lambda>j. (j, the (fmlookup (lru_map c) j))) (filter (\<lambda>j. j \<noteq> k) (lru_order c))"
  by (simp add: lru_entries_def filter_map comp_def)

text \<open>What \<open>lru_make_room\<close> leaves, for a new key: the \<open>capacity - 1\<close> most recent ones.\<close>

lemma lru_make_room_new:
  assumes ok: "lru_ok c" and new: "fmlookup (lru_map c) k = None"
  shows "lru_order (lru_make_room c k) = take (lru_capacity c - 1) (lru_order c)"
    and "set (lru_order (lru_make_room c k)) = fset (fmdom (lru_map (lru_make_room c k)))"
    and "\<And>j. fmlookup (lru_map (lru_make_room c k)) j =
      (if j \<in> set (lru_order (lru_make_room c k)) then fmlookup (lru_map c) j else None)"
    and "lru_capacity (lru_make_room c k) = lru_capacity c"
proof -
  let ?o = "lru_order c"
  have card: "fcard (fmdom (lru_map c)) = length ?o" by (rule lru_ok_card [OF ok])
  have d: "distinct ?o" and dom: "set ?o = fset (fmdom (lru_map c))" and len: "length ?o \<le> max 1 (lru_capacity c)"
    using ok by (simp_all add: lru_ok_def)
  have look: "j \<notin> set ?o \<Longrightarrow> fmlookup (lru_map c) j = None" for j using lru_ok_dom [OF ok, of j] by simp
  have room: "lru_make_room c k = (if lru_capacity c \<le> length ?o \<and> ?o \<noteq> []
      then c\<lparr>lru_order := butlast ?o, lru_map := fmdrop (last ?o) (lru_map c)\<rparr> else c)"
    using new by (auto simp: lru_make_room_def card)
  show order: "lru_order (lru_make_room c k) = take (lru_capacity c - 1) ?o"
    using len by (auto simp: room butlast_conv_take max_def not_le split: if_splits)
  have sb: "set (butlast ?o) = set ?o - {last ?o}" if ne: "?o \<noteq> []"
  proof -
    obtain xs x where "?o = xs @ [x]" using ne by (cases ?o rule: rev_cases) auto
    with d show ?thesis by auto
  qed
  show "set (lru_order (lru_make_room c k)) = fset (fmdom (lru_map (lru_make_room c k)))"
    using sb dom by (auto simp: room)
  show "fmlookup (lru_map (lru_make_room c k)) j =
      (if j \<in> set (lru_order (lru_make_room c k)) then fmlookup (lru_map c) j else None)" for j
    using sb look [of j] by (auto simp: room)
  show "lru_capacity (lru_make_room c k) = lru_capacity c" by (simp add: room)
qed


lemma lru_make_room_old:
  "fmlookup (lru_map c) k \<noteq> None \<Longrightarrow> lru_make_room c k = c"
  by (auto simp: lru_make_room_def)

lemma lru_ok_new [simp]: "lru_ok (lru_new n)"
  by (simp add: lru_ok_def lru_new_def)

lemma lru_ok_get: "lru_ok c \<Longrightarrow> lru_ok (snd (lru_get c k))"
proof (cases "fmlookup (lru_map c) k")
  case (Some v)
  assume ok: "lru_ok c"
  have k: "k \<in> set (lru_order c)" using lru_ok_dom [OF ok] Some by simp
  then have "length (filter (\<lambda>j. j \<noteq> k) (lru_order c)) < length (lru_order c)"
    by (intro length_filter_less) auto
  with ok k show ?thesis by (auto simp: lru_ok_def lru_get_def Some)
qed (simp add: lru_get_def)

lemma lru_ok_insert:
  assumes ok: "lru_ok c"
  shows "lru_ok (lru_insert c k v)"
proof (cases "fmlookup (lru_map c) k")
  case None
  note r = lru_make_room_new [OF ok None]
  have "k \<notin> set (lru_order (lru_make_room c k))"
    using lru_ok_dom [OF ok, of k] None r(1) by (auto dest: in_set_takeD)
  then have "filter (\<lambda>j. j \<noteq> k) (lru_order (lru_make_room c k)) = lru_order (lru_make_room c k)"
    by (auto intro: filter_True)
  moreover have "distinct (lru_order (lru_make_room c k))" using ok r(1) by (simp add: lru_ok_def)
  ultimately show ?thesis
    using r \<open>k \<notin> set (lru_order (lru_make_room c k))\<close> by (auto simp: lru_ok_def lru_insert_def Let_def)
next
  case (Some u)
  have k: "k \<in> set (lru_order c)" using lru_ok_dom [OF ok] Some by simp
  then have "length (filter (\<lambda>j. j \<noteq> k) (lru_order c)) < length (lru_order c)"
    by (intro length_filter_less) auto
  with ok k show ?thesis by (auto simp: lru_ok_def lru_insert_def lru_make_room_old Some)
qed

lemma lru_insert_lookup:
  assumes ok: "lru_ok c"
  shows "fmlookup (lru_map (lru_insert c k v)) k = Some v"
    and "j \<noteq> k \<Longrightarrow> fmlookup (lru_map (lru_insert c k v)) j = Some u \<Longrightarrow> fmlookup (lru_map c) j = Some u"
proof -
  show "fmlookup (lru_map (lru_insert c k v)) k = Some v" by (simp add: lru_insert_def Let_def)
  assume "j \<noteq> k" "fmlookup (lru_map (lru_insert c k v)) j = Some u"
  then show "fmlookup (lru_map c) j = Some u"
    by (auto simp: lru_insert_def lru_make_room_def Let_def split: if_splits)
qed

lemma lru_capacity_keeps [simp]:
  "lru_capacity (lru_insert c k v) = lru_capacity c" "lru_capacity (snd (lru_get c k)) = lru_capacity c"
  by (simp_all add: lru_insert_def lru_make_room_def lru_get_def Let_def)

interpretation lru: bounded_cache lru_ok "\<lambda>c. fmlookup (lru_map c)" lru_get lru_insert
  "\<lambda>c. fcard (fmdom (lru_map c))" "\<lambda>c. max 1 (lru_capacity c)"
proof (unfold_locales, goal_cases)
  case (2 s k)
  then show ?case using lru_ok_get [OF 2, of k] by (simp add: lru_get_def Let_def)
next
  case (5 s j k v u)
  then show ?case using lru_insert_lookup(2) by metis
next
  case (6 s)
  then show ?case using lru_ok_card [OF 6] by (simp add: lru_ok_def)
qed (simp_all add: lru_get_def Let_def lru_ok_insert lru_insert_lookup(1))

section \<open>The state cache\<close>

definition state_cache_ok :: "StateCache \<Rightarrow> bool" where
  "state_cache_ok c \<longleftrightarrow> fcard (fmdom (sc_cache c)) \<le> max 1 (sc_max_entries c)"

lemma state_cache_evict:
  "\<exists>m. state_cache_insert c n w = c\<lparr>sc_cache := fmupd n w m\<rparr> \<and>
     (fcard (fmdom (sc_cache c)) < sc_max_entries c \<and> m = sc_cache c \<or>
      sc_max_entries c \<le> fcard (fmdom (sc_cache c)) \<and> sc_cache c = fmempty \<and> m = fmempty \<or>
      (\<exists>k v. sc_max_entries c \<le> fcard (fmdom (sc_cache c)) \<and> fmlookup (sc_cache c) k = Some v \<and>
         m = fmdrop k (sc_cache c) \<and> (\<forall>j. fmlookup (sc_cache c) j \<noteq> None \<longrightarrow> k \<le> j)))"
proof (cases "btree_iter (sc_cache c)")
  case Nil
  then show ?thesis by (auto simp: state_cache_insert_def Let_def btree_iter_Nil)
next
  case (Cons e es)
  obtain k v where e: "btree_iter (sc_cache c) = (k, v) # es" using Cons by (cases e) auto
  note lo = btree_iter_hd [OF e]
  have "state_cache_insert c n w = c\<lparr>sc_cache := fmupd n w
      (if sc_max_entries c \<le> fcard (fmdom (sc_cache c)) then fmdrop k (sc_cache c) else sc_cache c)\<rparr>"
    by (simp add: state_cache_insert_def e)
  with lo show ?thesis by (cases "sc_max_entries c \<le> fcard (fmdom (sc_cache c))") (simp_all add: not_le, blast)
qed

lemma state_cache_ok_insert:
  assumes ok: "state_cache_ok c"
  shows "state_cache_ok (state_cache_insert c n w)"
proof -
  obtain m where m: "state_cache_insert c n w = c\<lparr>sc_cache := fmupd n w m\<rparr>"
    "fcard (fmdom m) \<le> max 1 (sc_max_entries c) - 1"
  proof -
    from state_cache_evict [of c n w] obtain m where
      "state_cache_insert c n w = c\<lparr>sc_cache := fmupd n w m\<rparr>"
      "fcard (fmdom (sc_cache c)) < sc_max_entries c \<and> m = sc_cache c \<or> m = fmempty \<or>
       (\<exists>k v. fmlookup (sc_cache c) k = Some v \<and> m = fmdrop k (sc_cache c))" by blast
    moreover have "fcard (fmdom m) \<le> max 1 (sc_max_entries c) - 1"
      if "fmlookup (sc_cache c) k = Some v" "m = fmdrop k (sc_cache c)" for k v
      using fcard_fmdrop_less [OF that(1)] ok that(2) by (auto simp: state_cache_ok_def)
    ultimately show ?thesis using that by (auto simp: fcard.rep_eq)
  qed
  then show ?thesis
    using fcard_fmdom_fmupd [of n w m] by (auto simp: state_cache_ok_def simp del: fmdom_fmupd split: if_splits)
qed

lemma state_cache_insert_lookup:
  "fmlookup (sc_cache (state_cache_insert c n w)) n = Some w"
  "j \<noteq> n \<Longrightarrow> fmlookup (sc_cache (state_cache_insert c n w)) j = Some u \<Longrightarrow> fmlookup (sc_cache c) j = Some u"
  using state_cache_evict [of c n w] by (auto split: if_splits)

lemma state_cache_insert_max [simp]: "sc_max_entries (state_cache_insert c n w) = sc_max_entries c"
  by (simp add: state_cache_insert_def)

interpretation sc: bounded_cache state_cache_ok state_cache_get "\<lambda>c n. (state_cache_get c n, c)" state_cache_insert
  "\<lambda>c. fcard (fmdom (sc_cache c))" "\<lambda>c. max 1 (sc_max_entries c)"
proof (unfold_locales, goal_cases)
  case (5 s j k v u)
  then show ?case unfolding state_cache_get_def using state_cache_insert_lookup(2) by metis
next
  case (6 s)
  then show ?case by (simp add: state_cache_ok_def)
qed (simp_all add: state_cache_get_def state_cache_ok_insert state_cache_insert_lookup(1))

section \<open>Refinement\<close>

lemma lru_get_refines:
  assumes ok: "lru_ok c"
  shows "fst (lru_get c k) = fst (spec_get (lru_entries c) k)"
    and "lru_entries (snd (lru_get c k)) = snd (spec_get (lru_entries c) k)"
  using lru_entries_lookup [OF ok, of k] lru_entries_filter [of k c]
  by (auto simp: lru_get_def spec_get_def lru_entries_def Let_def split: option.splits)

lemma lru_insert_refines:
  assumes ok: "lru_ok c"
  shows "lru_entries (lru_insert c k v) = spec_insert (lru_capacity c) (lru_entries c) k v"
proof (cases "fmlookup (lru_map c) k")
  case None
  note r = lru_make_room_new [OF ok None]
  have k: "k \<notin> set (lru_order (lru_make_room c k))"
    using lru_ok_dom [OF ok, of k] None r(1) by (auto dest: in_set_takeD)
  then have "filter (\<lambda>j. j \<noteq> k) (lru_order (lru_make_room c k)) = lru_order (lru_make_room c k)"
    by (auto intro: filter_True)
  moreover have "map (\<lambda>j. (j, the (fmlookup (fmupd k v (lru_map (lru_make_room c k))) j))) (lru_order (lru_make_room c k)) =
      take (lru_capacity c - 1) (lru_entries c)"
    unfolding lru_entries_def take_map r(1) [symmetric] using k r(3) by auto
  ultimately show ?thesis
    using lru_entries_lookup [OF ok, of k] None
    by (simp add: spec_insert_def lru_insert_def Let_def) (simp add: lru_entries_def)
next
  case (Some u)
  then show ?thesis
    using lru_entries_lookup [OF ok, of k] lru_entries_filter [of k c]
    by (auto simp: spec_insert_def lru_insert_def lru_make_room_old) (auto simp: lru_entries_def)
qed


section \<open>Properties\<close>

text \<open>C17. The LRU cache refines the recency list: a hit answers from it and moves its entry
  to the front, a miss changes nothing, an insertion puts the entry in front and, for a new
  key in a full cache, drops the least recently used entry.\<close>

theorem lru_refines_recency_list:
  assumes "lru_ok c"
  shows "fst (lru_get c k) = fst (spec_get (lru_entries c) k) \<and>
    lru_entries (snd (lru_get c k)) = snd (spec_get (lru_entries c) k) \<and>
    lru_entries (lru_insert c k v) = spec_insert (lru_capacity c) (lru_entries c) k v \<and>
    lru_ok (snd (lru_get c k)) \<and> lru_ok (lru_insert c k v)"
  using lru_get_refines [OF assms] lru_insert_refines [OF assms] lru_ok_get [OF assms] lru_ok_insert [OF assms]
  by simp

definition demo_cache :: "(nat, char) LruCache" where
  "demo_cache = snd (lru_get (lru_insert (lru_insert (lru_new 2) 1 CHR ''a'') 2 CHR ''b'') 1)"

theorem lru_refines_recency_list_witness:
  "lru_entries (lru_insert demo_cache 3 CHR ''c'') = [(3, CHR ''c''), (1, CHR ''a'')]"
proof -
  have ok: "lru_ok demo_cache" by (simp add: demo_cache_def lru_ok_get lru_ok_insert)
  have "lru_entries demo_cache = [(1, CHR ''a''), (2, CHR ''b'')]" "lru_capacity demo_cache = 2"
    by (simp_all add: demo_cache_def lru_get_def lru_insert_def lru_make_room_def lru_new_def lru_entries_def fcard.rep_eq)
  then show ?thesis
    using lru_refines_recency_list [OF ok, of 3 "CHR ''c''"] by (simp add: spec_insert_def)
qed

text \<open>A client of the block cache: a sequence of lookups and insertions.\<close>

definition block_cache_run :: "(hash, Block) cache_op list \<Rightarrow> BlockCache \<Rightarrow> BlockCache" where
  "block_cache_run ops c = fold (\<lambda>p c. case p of
     Get_op h \<Rightarrow> snd (block_cache_get c h) | Put_op h b \<Rightarrow> block_cache_insert c h b) ops c"

definition last_inserted :: "(hash, Block) cache_op list \<Rightarrow> hash \<Rightarrow> Block option" where
  "last_inserted ops = fold (\<lambda>p m. case p of Get_op _ \<Rightarrow> m | Put_op h b \<Rightarrow> m(h := Some b)) ops (\<lambda>_. None)"

lemma block_cache_run_lru: "block_cache_run ops c = fold lru.step ops c"
  unfolding block_cache_run_def
  by (rule fold_cong) (auto simp: fun_eq_iff block_cache_get_def block_cache_insert_def split: cache_op.splits)

lemma last_inserted_lru: "last_inserted ops = fold lru.written ops (\<lambda>_. None)"
  unfolding last_inserted_def by (rule fold_cong) (auto simp: fun_eq_iff split: cache_op.splits)

text \<open>A block cache is never outdated: after any sequence of lookups and insertions on a
  new cache, a lookup returns nothing or the block last inserted under that hash, and the
  cache holds at most as many blocks as its capacity, but one when the capacity is zero.\<close>

lemma block_cache_coherent:
  "fst (block_cache_get (block_cache_run ops (block_cache_new capacity)) h) \<in> {None, last_inserted ops h} \<and>
   fcard (fmdom (lru_map (block_cache_run ops (block_cache_new capacity)))) \<le> max 1 capacity"
proof -
  let ?c = "fold lru.step ops (lru_new capacity :: BlockCache)"
  have "lru.coherent (lru_new capacity :: BlockCache) (\<lambda>_. None)"
    by (simp add: lru.coherent_def lru_new_def)
  then have "fst (lru_get ?c h) = None \<or> fst (lru_get ?c h) = fold lru.written ops (\<lambda>_. None) h"
    using lru.run_get [of "lru_new capacity" "\<lambda>_. None" ops h] by (cases "fst (lru_get ?c h)") auto
  moreover have "fcard (fmdom (lru_map ?c)) \<le> max 1 capacity"
    using lru.run_bound [OF lru_ok_new, of ops capacity] by (simp add: lru_new_def)
  ultimately show ?thesis
    unfolding block_cache_run_lru last_inserted_lru block_cache_new_def block_cache_get_def by blast
qed

end
