(* ===== verification/F64.thy ===== *)
theory F64
  imports Prelude Complex_Main
begin

text \<open>
  The binary64 arithmetic of Rust's \<open>f64\<close>: finite values are rationals, each operation
  rounds its exact result to 53 significant bits, to the nearest with ties to even, with
  gradual underflow at \<open>2^-1074\<close> and overflow to an infinity at \<open>2^1024\<close>. The two
  zeros are one value; only a division by a negative zero could tell them apart, and the
  code never divides by one. Casts to integers truncate and saturate, and send NaN to 0.
\<close>

section \<open>Rounding\<close>

fun bit_length :: "nat \<Rightarrow> nat" where
  "bit_length n = (if n = 0 then 0 else Suc (bit_length (n div 2)))"

declare bit_length.simps [simp del]

text \<open>The exponent of the leading bit of a positive rational.\<close>

definition ilog2 :: "rat \<Rightarrow> int" where
  "ilog2 q =
     (case quotient_of q of (n, d) \<Rightarrow>
        let k = int (bit_length (nat n)) - int (bit_length (nat d))
        in if 2 powi k \<le> q then k else k - 1)"

text \<open>Rounding to an integer, ties to even.\<close>

definition rne :: "rat \<Rightarrow> int" where
  "rne x = (let f = \<lfloor>x\<rfloor>; d = x - of_int f
            in if d < 1 / 2 \<or> (d = 1 / 2 \<and> even f) then f else f + 1)"

text \<open>The exponent of the last place of the values around \<open>q\<close>.\<close>

definition lp_exp :: "rat \<Rightarrow> int" where
  "lp_exp q = max (ilog2 \<bar>q\<bar> - 52) (- 1074)"

definition round53 :: "rat \<Rightarrow> rat" where
  "round53 q = (if q = 0 then 0 else of_int (rne (q / 2 powi lp_exp q)) * 2 powi lp_exp q)"

definition f64_limit :: rat where
  "f64_limit = 2 ^ 1024"

datatype f64 = Fin rat | PInf | NInf | NaN

definition fl :: "rat \<Rightarrow> f64" where
  "fl q = (let v = round53 q
           in if f64_limit \<le> v then PInf else if v \<le> - f64_limit then NInf else Fin v)"

text \<open>The rationals that are binary64 values.\<close>

definition representable :: "rat \<Rightarrow> bool" where
  "representable v \<longleftrightarrow>
     (\<exists>m e. v = of_int m * 2 powi e \<and> \<bar>m\<bar> \<le> 2 ^ 53 \<and> - 1074 \<le> e) \<and> \<bar>v\<bar> < f64_limit"

section \<open>Arithmetic, comparison and casts\<close>

fun f64_neg :: "f64 \<Rightarrow> f64" where
  "f64_neg (Fin a) = Fin (- a)"
| "f64_neg PInf = NInf"
| "f64_neg NInf = PInf"
| "f64_neg NaN = NaN"

fun f64_add :: "f64 \<Rightarrow> f64 \<Rightarrow> f64" where
  "f64_add (Fin a) (Fin b) = fl (a + b)"
| "f64_add NaN b = NaN"
| "f64_add a NaN = NaN"
| "f64_add PInf NInf = NaN"
| "f64_add NInf PInf = NaN"
| "f64_add PInf b = PInf"
| "f64_add NInf b = NInf"
| "f64_add (Fin a) b = b"

definition f64_sub :: "f64 \<Rightarrow> f64 \<Rightarrow> f64" where
  "f64_sub a b = f64_add a (f64_neg b)"

definition inf_of_sign :: "rat \<Rightarrow> f64" where
  "inf_of_sign s = (if 0 < s then PInf else if s < 0 then NInf else NaN)"

fun f64_sign :: "f64 \<Rightarrow> rat" where
  "f64_sign (Fin a) = sgn a"
| "f64_sign PInf = 1"
| "f64_sign NInf = - 1"
| "f64_sign NaN = 0"

fun f64_mul :: "f64 \<Rightarrow> f64 \<Rightarrow> f64" where
  "f64_mul (Fin a) (Fin b) = fl (a * b)"
| "f64_mul NaN b = NaN"
| "f64_mul a NaN = NaN"
| "f64_mul a b = inf_of_sign (f64_sign a * f64_sign b)"

fun f64_div :: "f64 \<Rightarrow> f64 \<Rightarrow> f64" where
  "f64_div (Fin a) (Fin b) = (if b = 0 then inf_of_sign (sgn a) else fl (a / b))"
| "f64_div NaN b = NaN"
| "f64_div a NaN = NaN"
| "f64_div (Fin a) b = Fin 0"
| "f64_div a (Fin b) = inf_of_sign (f64_sign a * (if b = 0 then 1 else sgn b))"
| "f64_div a b = NaN"

fun f64_lt :: "f64 \<Rightarrow> f64 \<Rightarrow> bool" where
  "f64_lt (Fin a) (Fin b) = (a < b)"
| "f64_lt NaN b = False"
| "f64_lt a NaN = False"
| "f64_lt PInf b = False"
| "f64_lt a NInf = False"
| "f64_lt a b = True"

text \<open>IEEE equality: NaN differs from everything.\<close>

definition f64_eq :: "f64 \<Rightarrow> f64 \<Rightarrow> bool" where
  "f64_eq a b \<longleftrightarrow> a = b \<and> a \<noteq> NaN"

definition f64_le :: "f64 \<Rightarrow> f64 \<Rightarrow> bool" where
  "f64_le a b \<longleftrightarrow> f64_lt a b \<or> f64_eq a b"

text \<open>\<open>f64::min\<close> and \<open>f64::max\<close> return the other argument when one is NaN.\<close>

definition f64_min :: "f64 \<Rightarrow> f64 \<Rightarrow> f64" where
  "f64_min a b = (if a = NaN then b else if f64_lt b a then b else a)"

definition f64_max :: "f64 \<Rightarrow> f64 \<Rightarrow> f64" where
  "f64_max a b = (if a = NaN then b else if f64_lt a b then b else a)"

definition f64_abs :: "f64 \<Rightarrow> f64" where
  "f64_abs a = (if f64_lt a (Fin 0) then f64_neg a else a)"

text \<open>A decimal literal is the value nearest to it, and so is an integer cast to \<open>f64\<close>.\<close>

definition f64_of_nat :: "nat \<Rightarrow> f64" where
  "f64_of_nat n = fl (of_nat n)"

abbreviation f64_of_u64 :: "u64 \<Rightarrow> f64" where
  "f64_of_u64 w \<equiv> f64_of_nat (unat w)"

text \<open>\<open>as u64\<close> and its narrower relatives, with the largest value of the type.\<close>

fun f64_to_nat :: "nat \<Rightarrow> f64 \<Rightarrow> nat" where
  "f64_to_nat hi (Fin a) = (if a \<le> 0 then 0 else min hi (nat \<lfloor>a\<rfloor>))"
| "f64_to_nat hi PInf = hi"
| "f64_to_nat hi NInf = 0"
| "f64_to_nat hi NaN = 0"

definition f64_to_u64 :: "f64 \<Rightarrow> u64" where
  "f64_to_u64 a = of_nat (f64_to_nat (2 ^ 64 - 1) a)"

definition f64_to_u16 :: "f64 \<Rightarrow> u16" where
  "f64_to_u16 a = of_nat (f64_to_nat (2 ^ 16 - 1) a)"

section \<open>The leading exponent\<close>

lemma bit_length_bounds: "0 < n \<Longrightarrow> 2 ^ (bit_length n - 1) \<le> n \<and> n < 2 ^ bit_length n \<and> 0 < bit_length n"
proof (induction n rule: bit_length.induct)
  case (1 n)
  show ?case
  proof (cases "n = 1")
    case True
    then show ?thesis by (simp add: bit_length.simps [of "Suc 0"] bit_length.simps [of 0])
  next
    case False
    with 1 have h: "0 < n div 2" by auto
    with 1 have ih: "2 ^ (bit_length (n div 2) - 1) \<le> n div 2" "n div 2 < 2 ^ bit_length (n div 2)"
      "0 < bit_length (n div 2)" by auto
    then obtain k where k: "bit_length (n div 2) = Suc k" by (cases "bit_length (n div 2)") auto
    with ih have "2 ^ Suc k \<le> n" "n < 2 ^ Suc (Suc k)" by auto
    then show ?thesis using 1 k by (subst (1 2 3) bit_length.simps) simp
  qed
qed

lemma bit_length_bounds_rat:
  assumes "0 < n"
  shows "2 powi (int (bit_length (nat n)) - 1) \<le> (of_int n :: rat)"
    and "(of_int n :: rat) < 2 powi int (bit_length (nat n))"
proof -
  have b: "2 ^ (bit_length (nat n) - 1) \<le> nat n" "nat n < 2 ^ bit_length (nat n)" "0 < bit_length (nat n)"
    using bit_length_bounds [of "nat n"] assms by auto
  have e: "(of_nat (nat n) :: rat) = of_int n" using assms by simp
  have "(of_nat (2 ^ (bit_length (nat n) - 1)) :: rat) \<le> of_nat (nat n)" using b(1) by (rule of_nat_mono)
  moreover have "int (bit_length (nat n)) - 1 = int (bit_length (nat n) - 1)" using b(3) by simp
  ultimately show "2 powi (int (bit_length (nat n)) - 1) \<le> (of_int n :: rat)"
    unfolding e by (simp only: power_int_of_nat of_nat_power of_nat_numeral)
  have "(of_nat (nat n) :: rat) < of_nat (2 ^ bit_length (nat n))" using b(2) by (simp only: of_nat_less_iff)
  then show "(of_int n :: rat) < 2 powi int (bit_length (nat n))"
    unfolding e by (simp only: power_int_of_nat of_nat_power of_nat_numeral)
qed

lemma ilog2_bounds:
  assumes "0 < q"
  shows "2 powi ilog2 q \<le> q" and "q < 2 powi (ilog2 q + 1)"
proof -
  obtain n d where nd: "quotient_of q = (n, d)" by fastforce
  then have q: "q = of_int n / of_int d" and d: "0 < d"
    by (auto simp: quotient_of_div quotient_of_denom_pos)
  with assms have n: "0 < n" by (simp add: zero_less_divide_iff)
  let ?a = "int (bit_length (nat n))" and ?b = "int (bit_length (nat d))"
  note bn = bit_length_bounds_rat [OF n] and bd = bit_length_bounds_rat [OF d]
  have dp: "(0 :: rat) < of_int d" using d by simp
  have lo: "2 powi (?a - ?b - 1) \<le> q"
  proof -
    have "2 powi (?a - ?b - 1) * (of_int d :: rat) \<le> 2 powi (?a - ?b - 1) * 2 powi ?b"
      using bd(2) by (intro mult_left_mono) auto
    also have "\<dots> = 2 powi (?a - ?b - 1 + ?b)" by (rule power_int_add [symmetric]) simp
    also have "\<dots> = 2 powi (?a - 1)" by simp
    also have "\<dots> \<le> of_int n" by (rule bn(1))
    finally show ?thesis using dp by (simp add: q pos_le_divide_eq)
  qed
  have hi: "q < 2 powi (?a - ?b + 1)"
  proof -
    have "(of_int n :: rat) < 2 powi ?a" by (rule bn(2))
    also have "\<dots> = 2 powi (?a - ?b + 1 + (?b - 1))" by simp
    also have "\<dots> = 2 powi (?a - ?b + 1) * 2 powi (?b - 1)" by (rule power_int_add) simp
    also have "\<dots> \<le> 2 powi (?a - ?b + 1) * of_int d" using bd(1) by (intro mult_left_mono) auto
    finally show ?thesis using dp by (simp add: q pos_divide_less_eq)
  qed
  show "2 powi ilog2 q \<le> q" using lo by (simp add: ilog2_def nd Let_def)
  show "q < 2 powi (ilog2 q + 1)" using hi by (simp add: ilog2_def nd Let_def)
qed

section \<open>Rounding stays between representable values\<close>

lemma rne_of_int [simp]: "rne (of_int n) = n"
  by (simp add: rne_def)

lemma rne_near: "\<bar>of_int (rne x) - x\<bar> \<le> 1 / 2"
proof -
  have "of_int \<lfloor>x\<rfloor> \<le> x" "x < of_int \<lfloor>x\<rfloor> + 1" by linarith+
  then show ?thesis by (auto simp: rne_def Let_def abs_le_iff not_less field_simps)
qed

lemma rne_ge: "of_int n \<le> x \<Longrightarrow> n \<le> rne x"
  by (auto simp: rne_def Let_def) linarith+

lemma rne_le: "x \<le> of_int n \<Longrightarrow> rne x \<le> n"
proof -
  assume x: "x \<le> of_int n"
  show ?thesis
  proof (cases "x = of_int n")
    case False
    with x have "\<lfloor>x\<rfloor> < n" by linarith
    then show ?thesis by (auto simp: rne_def Let_def)
  qed simp
qed

lemma rne_neg: "rne (- x) = - rne x"
proof (cases "x = of_int \<lfloor>x\<rfloor>")
  case True
  then have "rne (- x) = rne (of_int (- \<lfloor>x\<rfloor>))" by simp
  then show ?thesis using True rne_of_int by (metis minus_minus)
next
  case False
  then have f: "\<lfloor>- x\<rfloor> = - \<lfloor>x\<rfloor> - 1" by linarith
  have d: "- x - of_int (- \<lfloor>x\<rfloor> - 1) = 1 - (x - of_int \<lfloor>x\<rfloor>)" by simp
  show ?thesis unfolding rne_def Let_def f d by auto
qed

lemma round53_neg: "round53 (- q) = - round53 q"
  by (simp add: round53_def lp_exp_def rne_neg)

lemma powi_le_iff: "(2 :: rat) powi a \<le> 2 powi b \<longleftrightarrow> a \<le> b"
  by (meson linorder_not_le one_less_numeral_iff power_int_increasing power_int_strict_increasing semiring_norm(76) one_le_numeral)

text \<open>Above the finest grid, the values around \<open>q\<close> are the multiples of \<open>2^e\<close> from \<open>2^(e+52)\<close> on.\<close>

lemma lp_exp_normal: "0 < q \<Longrightarrow> - 1074 < lp_exp q \<Longrightarrow> 2 powi (lp_exp q + 52) \<le> q"
  using ilog2_bounds(1) [of q] by (auto simp: lp_exp_def max_def split: if_splits)

lemma grid_multiple: "e \<le> f \<Longrightarrow> (of_int m :: rat) * 2 powi f / 2 powi e = of_int (m * 2 ^ nat (f - e))"
proof -
  assume "e \<le> f"
  then have "(2 :: rat) powi f = 2 powi e * 2 ^ nat (f - e)"
    by (simp flip: power_int_of_nat power_int_add)
  then show ?thesis by simp
qed

lemma coarse_bound:
  assumes "\<bar>m\<bar> \<le> 2 ^ 53" and "f < e"
  shows "(of_int m :: rat) * 2 powi f \<le> 2 powi (e + 52)"
proof -
  have "(of_int m :: rat) \<le> of_int (2 ^ 53)" using assms(1) by (intro of_int_le_iff [THEN iffD2]) linarith
  then have "(of_int m :: rat) * 2 powi f \<le> 2 ^ 53 * 2 powi f" by (intro mult_right_mono) auto
  also have "\<dots> = 2 powi (f + 53)" by (simp add: power_int_add)
  also have "\<dots> \<le> 2 powi (e + 52)" using assms(2) by (simp add: powi_le_iff)
  finally show ?thesis .
qed

lemma round53_ge_pos:
  assumes "0 < q" and "representable a" and "a \<le> q"
  shows "a \<le> round53 q"
proof -
  let ?e = "lp_exp q"
  obtain m f where a: "a = of_int m * 2 powi f" and m: "\<bar>m\<bar> \<le> 2 ^ 53" and f: "- 1074 \<le> f"
    using assms(2) by (auto simp: representable_def)
  have p: "(0 :: rat) < 2 powi ?e" by simp
  have r: "round53 q = of_int (rne (q / 2 powi ?e)) * 2 powi ?e" using assms(1) by (simp add: round53_def)
  show ?thesis
  proof (cases "?e \<le> f")
    case True
    have "of_int (m * 2 ^ nat (f - ?e)) \<le> q / 2 powi ?e"
      using assms(3) p unfolding grid_multiple [OF True, of m, symmetric] a by (simp add: divide_right_mono)
    then have "m * 2 ^ nat (f - ?e) \<le> rne (q / 2 powi ?e)" by (rule rne_ge)
    then have "a / 2 powi ?e \<le> of_int (rne (q / 2 powi ?e))"
      unfolding a grid_multiple [OF True] by (simp only: of_int_le_iff)
    then show ?thesis unfolding r by (simp add: pos_divide_le_eq)
  next
    case False
    with f have "2 powi (?e + 52) \<le> q" using lp_exp_normal assms(1) by simp
    then have "of_int (2 ^ 52) \<le> q / 2 powi ?e" by (simp add: power_int_add pos_le_divide_eq mult.commute)
    then have "2 ^ 52 \<le> rne (q / 2 powi ?e)" by (rule rne_ge)
    then have "of_int (2 ^ 52) \<le> (of_int (rne (q / 2 powi ?e)) :: rat)" by (simp only: of_int_le_iff)
    then have "of_int (2 ^ 52) * 2 powi ?e \<le> round53 q" unfolding r by (intro mult_right_mono) auto
    moreover have "a \<le> 2 powi (?e + 52)" using False coarse_bound [OF m, of f ?e] a by simp
    ultimately show ?thesis by (simp add: power_int_add mult.commute)
  qed
qed

lemma round53_le_pos:
  assumes "0 < q" and "representable b" and "q \<le> b"
  shows "round53 q \<le> b"
proof -
  let ?e = "lp_exp q"
  obtain m f where b: "b = of_int m * 2 powi f" and m: "\<bar>m\<bar> \<le> 2 ^ 53" and f: "- 1074 \<le> f"
    using assms(2) by (auto simp: representable_def)
  have r: "round53 q = of_int (rne (q / 2 powi ?e)) * 2 powi ?e" using assms(1) by (simp add: round53_def)
  show ?thesis
  proof (cases "?e \<le> f")
    case True
    have "q / 2 powi ?e \<le> of_int (m * 2 ^ nat (f - ?e))"
      using assms(3) unfolding grid_multiple [OF True, of m, symmetric] b by (simp add: divide_right_mono)
    then have "rne (q / 2 powi ?e) \<le> m * 2 ^ nat (f - ?e)" by (rule rne_le)
    then have "of_int (rne (q / 2 powi ?e)) \<le> b / 2 powi ?e"
      unfolding b grid_multiple [OF True] by (simp only: of_int_le_iff)
    then show ?thesis unfolding r by (simp add: pos_le_divide_eq)
  next
    case False
    with f have n: "2 powi (?e + 52) \<le> q" using lp_exp_normal assms(1) by simp
    moreover have "b \<le> 2 powi (?e + 52)" using False coarse_bound [OF m, of f ?e] b by simp
    ultimately have "q = 2 powi (?e + 52)" and qb: "q = b" using assms(3) by auto
    then have "q / 2 powi ?e = 2 powi (?e + 52) / 2 powi ?e" by simp
    also have "\<dots> = of_int (2 ^ 52)" by (simp add: power_int_add)
    finally have "round53 q = of_int (2 ^ 52) * 2 powi ?e" unfolding r by (simp only: rne_of_int)
    then show ?thesis using qb n by (simp add: power_int_add mult.commute)
  qed
qed

lemma representable_neg [simp]: "representable (- v) \<longleftrightarrow> representable v"
proof -
  have "representable (- v)" if h: "representable v" for v
  proof -
    obtain m e where m: "v = of_int m * 2 powi e" "\<bar>m\<bar> \<le> 2 ^ 53" "- 1074 \<le> e" "\<bar>v\<bar> < f64_limit"
      using h unfolding representable_def by blast
    then have "- v = of_int (- m) * 2 powi e \<and> \<bar>- m\<bar> \<le> 2 ^ 53 \<and> - 1074 \<le> e" "\<bar>- v\<bar> < f64_limit" by auto
    then show ?thesis unfolding representable_def by blast
  qed
  from this [of v] this [of "- v"] show ?thesis by auto
qed

lemma representable_of_int: "\<bar>m\<bar> \<le> 2 ^ 53 \<Longrightarrow> representable (of_int m)"
proof -
  assume m: "\<bar>m\<bar> \<le> 2 ^ 53"
  then have "of_int \<bar>m\<bar> \<le> (of_int (2 ^ 53) :: rat)" by (simp only: of_int_le_iff)
  then have "\<bar>of_int m :: rat\<bar> \<le> 2 ^ 53" by simp
  also have "\<dots> < f64_limit" unfolding f64_limit_def by (rule power_strict_increasing) simp_all
  finally have "\<bar>of_int m :: rat\<bar> < f64_limit" .
  moreover have "(of_int m :: rat) = of_int m * 2 powi 0 \<and> \<bar>m\<bar> \<le> 2 ^ 53 \<and> - 1074 \<le> (0 :: int)"
    using m by simp
  ultimately show ?thesis unfolding representable_def by blast
qed

lemma representable_0 [simp]: "representable 0" and representable_1 [simp]: "representable 1"
  using representable_of_int [of 0] representable_of_int [of 1] by simp_all

lemma representable_numeral: "numeral k \<le> (2 ^ 53 :: int) \<Longrightarrow> representable (numeral k)"
  using representable_of_int [of "numeral k"] by simp

lemma representable_of_nat: "n \<le> 2 ^ 53 \<Longrightarrow> representable (of_nat n)"
  using representable_of_int [of "int n"] by (simp add: nat_le_iff) 

lemma representable_pow2: "k \<le> 1000 \<Longrightarrow> representable (2 ^ k)"
  unfolding representable_def
proof
  assume k: "k \<le> 1000"
  show "\<exists>m e. (2 ^ k :: rat) = of_int m * 2 powi e \<and> \<bar>m\<bar> \<le> 2 ^ 53 \<and> - 1074 \<le> e"
    by (intro exI [of _ 1] exI [of _ "int k"]) simp
  have "(2 ^ k :: rat) < 2 ^ 1024" using k by (intro power_strict_increasing) simp_all
  then show "\<bar>2 ^ k :: rat\<bar> < f64_limit" unfolding f64_limit_def by simp
qed

lemma round53_nonneg: "0 \<le> q \<Longrightarrow> 0 \<le> round53 q"
  using round53_ge_pos [of q 0] by (cases "q = 0") (auto simp: round53_def)

lemma round53_ge: "representable a \<Longrightarrow> a \<le> q \<Longrightarrow> a \<le> round53 q"
  and round53_le: "representable b \<Longrightarrow> q \<le> b \<Longrightarrow> round53 q \<le> b"
proof -
  have ge: "a \<le> round53 q" if "representable a" "a \<le> q" "0 \<le> q" for a q
    using round53_ge_pos that by (cases "q = 0") (auto simp: round53_def)
  have le: "round53 q \<le> b" if "representable b" "q \<le> b" "0 \<le> q" for b q
    using round53_le_pos that by (cases "q = 0") (auto simp: round53_def)
  show "a \<le> round53 q" if h: "representable a" "a \<le> q"
  proof (cases "0 \<le> q")
    case False
    then have "round53 (- q) \<le> - a" using h by (intro le) auto
    then show ?thesis by (simp add: round53_neg)
  qed (use ge h in blast)
  show "round53 q \<le> b" if h: "representable b" "q \<le> b"
  proof (cases "0 \<le> q")
    case False
    then have "- b \<le> round53 (- q)" using h by (intro ge) auto
    then show ?thesis by (simp add: round53_neg)
  qed (use le h in blast)
qed

text \<open>
  The two facts the components use: a result between two representable values is rounded to a
  finite value between them, and a representable result is exact.
\<close>

lemma fl_between:
  assumes "representable a" and "representable b" and "a \<le> q" and "q \<le> b"
  shows "\<exists>r. fl q = Fin r \<and> a \<le> r \<and> r \<le> b"
proof -
  have r: "a \<le> round53 q" "round53 q \<le> b" using assms round53_ge round53_le by auto
  have "- f64_limit < a" "b < f64_limit" using assms(1,2) by (auto simp: representable_def)
  with r have "fl q = Fin (round53 q)" by (simp add: fl_def Let_def)
  with r show ?thesis by blast
qed

lemma fl_exact: "representable q \<Longrightarrow> fl q = Fin q"
  using fl_between [of q q q] by auto

lemma fl_of_nat: "n \<le> 2 ^ 53 \<Longrightarrow> f64_of_nat n = Fin (of_nat n)"
  unfolding f64_of_nat_def by (intro fl_exact representable_of_nat)

lemma rne_unique:
  assumes "2 * \<bar>of_int m - x\<bar> < 1"
  shows "rne x = m"
proof -
  have "\<bar>of_int m - x\<bar> < 1 / 2" using assms by simp
  then have a: "of_int m - x < 1 / 2 \<and> - (of_int m - x) < 1 / 2" unfolding abs_less_iff .
  have b: "of_int (rne x) - x \<le> 1 / 2 \<and> - (of_int (rne x) - x) \<le> 1 / 2"
    using rne_near [of x] unfolding abs_le_iff .
  from a b have "(of_int (rne x) :: rat) - of_int m < 1" "(of_int m :: rat) - of_int (rne x) < 1" by linarith+
  then show ?thesis by linarith
qed

text \<open>Evaluating a rounding whose exponent and significand are known.\<close>

lemma lp_exp_eqI:
  assumes "- 1074 \<le> e" and "2 powi (e + 52) \<le> q" and "q < 2 powi (e + 53)"
  shows "lp_exp q = e"
proof -
  have q: "0 < q" using assms(2) by (rule less_le_trans [rotated]) simp
  have "ilog2 q < e + 53"
    using ilog2_bounds(1) [OF q] assms(3) powi_le_iff [of "e + 53" "ilog2 q"] by linarith
  moreover have "e + 52 < ilog2 q + 1"
    using ilog2_bounds(2) [OF q] assms(2) powi_le_iff [of "ilog2 q + 1" "e + 52"] by linarith
  ultimately show ?thesis using q assms(1) by (simp add: lp_exp_def)
qed

lemma fl_literal_rne:
  assumes "k \<le> 1074" and "2 ^ 52 \<le> q * 2 ^ k" and "q * 2 ^ k < 2 ^ 53" and "rne (q * 2 ^ k) = m"
  shows "fl q = Fin (of_int m / 2 ^ k)"
proof -
  let ?p = "2 powi - int k :: rat"
  have p: "?p = inverse (2 ^ k)" by (simp add: power_int_minus)
  have shift: "2 powi (- int k + numeral j) = 2 ^ numeral j * ?p" for j
    unfolding power_int_add [OF disjI1 [OF zero_neq_numeral [symmetric]]] power_int_numeral by (rule mult.commute)
  have qk: "q * 2 ^ k * ?p = q" unfolding p by simp
  have "2 ^ 52 * ?p \<le> q * 2 ^ k * ?p" using assms(2) by (intro mult_right_mono) simp_all
  then have lo: "2 powi (- int k + 52) \<le> q" unfolding shift qk .
  have "q * 2 ^ k * ?p < 2 ^ 53 * ?p" using assms(3) by (intro mult_strict_right_mono) simp_all
  then have hi: "q < 2 powi (- int k + 53)" unfolding shift qk .
  have e: "lp_exp q = - int k" using assms(1) lo hi by (intro lp_exp_eqI) simp_all
  have qpos: "q \<noteq> 0" using assms(2) by auto
  have "q / ?p = q * 2 ^ k" unfolding p by (simp add: divide_inverse)
  then have r: "round53 q = of_int m * ?p" using qpos assms(4) by (simp only: round53_def e if_False)
  have m: "0 \<le> m" "m \<le> 2 ^ 53"
    using rne_ge [of 0 "q * 2 ^ k"] rne_le [of "q * 2 ^ k" "2 ^ 53"] assms(2-4) by simp_all
  have "of_int m * ?p \<le> of_int (2 ^ 53) * 1"
    unfolding p using m by (intro mult_mono) (simp_all add: inverse_le_1_iff)
  also have "\<dots> < f64_limit"
    unfolding f64_limit_def using power_strict_increasing [of 53 1024 "2 :: rat"] by simp
  finally have "of_int m * ?p < f64_limit" .
  moreover have "0 \<le> of_int m * ?p" using m(1) by simp
  moreover have "0 < f64_limit" by (simp add: f64_limit_def)
  ultimately have "fl q = Fin (of_int m * ?p)" unfolding fl_def Let_def r by simp
  then show ?thesis unfolding p by (simp only: divide_inverse)
qed

lemma fl_literal:
  "k \<le> 1074 \<Longrightarrow> 2 ^ 52 \<le> q * 2 ^ k \<Longrightarrow> q * 2 ^ k < 2 ^ 53 \<Longrightarrow> 2 * \<bar>of_int m - q * 2 ^ k\<bar> < 1 \<Longrightarrow>
     fl q = Fin (of_int m / 2 ^ k)"
  by (rule fl_literal_rne) (simp_all add: rne_unique)

lemma rne_tie: "x = of_int m + 1 / 2 \<Longrightarrow> rne x = (if even m then m else m + 1)"
proof -
  assume x: "x = of_int m + 1 / 2"
  then have "\<lfloor>x\<rfloor> = m" by (simp add: floor_eq_iff)
  with x show ?thesis by (simp add: rne_def Let_def)
qed

lemma fl_0 [simp]: "fl 0 = Fin 0" and fl_1 [simp]: "fl 1 = Fin 1"
  by (simp_all add: fl_exact)

lemma fl_between_nat:
  assumes "m \<le> 2 ^ 53" and "n \<le> 2 ^ 53" and "of_nat m \<le> q" and "q \<le> of_nat n"
  shows "\<exists>r. fl q = Fin r \<and> of_nat m \<le> r \<and> r \<le> of_nat n"
  using assms by (intro fl_between representable_of_nat)

lemma fl_ge: "representable a \<Longrightarrow> 0 \<le> a \<Longrightarrow> a \<le> q \<Longrightarrow> fl q = PInf \<or> (\<exists>r \<ge> a. fl q = Fin r)"
proof -
  assume a: "representable a" "0 \<le> a" "a \<le> q"
  then have "a \<le> round53 q" by (intro round53_ge)
  moreover have "0 < f64_limit" by (simp add: f64_limit_def)
  ultimately have "\<not> round53 q \<le> - f64_limit" "a \<le> round53 q" using a(2) by linarith+
  then show ?thesis by (simp add: fl_def Let_def)
qed

lemma fl_nonpos: "q \<le> 0 \<Longrightarrow> fl q = NInf \<or> (\<exists>r \<le> 0. fl q = Fin r)"
proof -
  assume "q \<le> 0"
  then have "round53 q \<le> 0" by (intro round53_le) simp_all
  moreover have "0 < f64_limit" by (simp add: f64_limit_def)
  ultimately show ?thesis by (auto simp: fl_def Let_def)
qed

lemma f64_of_nat_finite:
  assumes "n < 2 ^ 64"
  obtains r where "f64_of_nat n = Fin r" and "0 \<le> r" and "n = 0 \<longleftrightarrow> r = 0"
proof -
  have top: "representable (2 ^ 64)" by (rule representable_pow2) simp
  have "(of_nat n :: rat) \<le> of_nat (2 ^ 64)" using assms by (intro of_nat_mono) simp
  then have le: "(of_nat n :: rat) \<le> 2 ^ 64" by simp
  show thesis
  proof (cases "n = 0")
    case True
    then show ?thesis using that [of 0] by (simp add: f64_of_nat_def)
  next
    case False
    then have "\<exists>r. fl (of_nat n) = Fin r \<and> 1 \<le> r \<and> r \<le> 2 ^ 64"
      using le by (intro fl_between top) simp_all
    then obtain r where "fl (of_nat n) = Fin r" "1 \<le> r" by blast
    with False show ?thesis using that [of r] by (simp add: f64_of_nat_def)
  qed
qed

lemma f64_to_nat_le: "a \<le> of_nat n \<Longrightarrow> f64_to_nat hi (Fin a) \<le> n"
  by (auto simp: nat_le_iff min_le_iff_disj) linarith

lemma f64_to_nat_ge: "of_nat n \<le> a \<Longrightarrow> n \<le> hi \<Longrightarrow> n \<le> f64_to_nat hi (Fin a)"
  by (cases "n = 0") (auto simp: le_nat_iff le_floor_iff)

lemma f64_to_nat_div: "f64_to_nat hi (Fin (of_nat n / of_nat d)) = min hi (n div d)"
proof -
  have f: "\<lfloor>(of_nat n / of_nat d :: rat)\<rfloor> = int (n div d)" by (rule floor_divide_of_nat_eq)
  show ?thesis
  proof (cases "(of_nat n / of_nat d :: rat) \<le> 0")
    case True
    then have "(of_nat n / of_nat d :: rat) = 0" by (intro antisym) simp_all
    with f have "n div d = 0" by (simp only: floor_zero of_nat_eq_0_iff)
    with True show ?thesis by (simp only: f64_to_nat.simps if_True min_0R)
  next
    case False
    with f show ?thesis by simp
  qed
qed

lemma f64_to_nat_bound: "f64_to_nat hi a \<le> hi"
  by (cases a) auto

lemma f64_to_nat_under: "f64_to_nat hi (Fin q) \<noteq> 0 \<Longrightarrow> 0 < q \<and> of_nat (f64_to_nat hi (Fin q)) \<le> q"
proof -
  assume nz: "f64_to_nat hi (Fin q) \<noteq> 0"
  then have q: "0 < q" by (simp split: if_splits)
  have "(of_nat (min hi (nat \<lfloor>q\<rfloor>)) :: rat) \<le> of_nat (nat \<lfloor>q\<rfloor>)" by (rule of_nat_mono) simp
  also have "\<dots> = of_int \<lfloor>q\<rfloor>" using q by simp
  also have "\<dots> \<le> q" by simp
  finally show ?thesis using q by simp
qed

lemma unat_f64_to_u64: "unat (f64_to_u64 a) = f64_to_nat (2 ^ 64 - 1) a"
  using f64_to_nat_bound [of "2 ^ 64 - 1" a] by (simp add: f64_to_u64_def unat_of_nat)

lemma unat_f64_to_u16: "unat (f64_to_u16 a) = f64_to_nat (2 ^ 16 - 1) a"
  using f64_to_nat_bound [of "2 ^ 16 - 1" a] by (simp add: f64_to_u16_def unat_of_nat)

text \<open>
  A quotient of small numbers, rounded and then truncated, is the integer quotient: the
  fraction below the next integer is wider than the spacing of the values there.
\<close>

lemma representable_dyadic:
  assumes "m \<le> 2 ^ 53"
  shows "representable (of_nat m / 2 ^ 14)"
proof -
  have "(of_nat m :: rat) \<le> of_nat (2 ^ 53)" using assms by (rule of_nat_mono)
  then have "(of_nat m :: rat) / 2 ^ 14 \<le> of_nat (2 ^ 53) / 1"
    by (intro frac_le) simp_all
  also have "\<dots> < f64_limit"
    unfolding f64_limit_def using power_strict_increasing [of 53 1024 "2 :: rat"] by simp
  finally have "\<bar>of_nat m / 2 ^ 14 :: rat\<bar> < f64_limit" by simp
  moreover have "(of_nat m / 2 ^ 14 :: rat) = of_int (int m) * 2 powi - 14"
    unfolding power_int_minus power_int_numeral divide_inverse by simp
  moreover have "\<bar>int m\<bar> \<le> 2 ^ 53" "- 1074 \<le> (- 14 :: int)" using assms by simp_all
  ultimately show ?thesis unfolding representable_def by blast
qed

lemma fl_floor_div:
  assumes "0 < d" and "d \<le> 2 ^ 14" and "a div d < 2 ^ 38"
  shows "f64_to_nat hi (fl (of_nat a / of_nat d)) = min hi (a div d)"
proof -
  let ?q = "of_nat a / of_nat d :: rat" and ?k = "a div d"
  let ?b = "of_nat (?k * 2 ^ 14 + (2 ^ 14 - 1)) / 2 ^ 14 :: rat"
  have d: "(0 :: rat) < of_nat d" using assms(1) by simp
  have "?k * d \<le> a" by simp
  then have "(of_nat (?k * d) :: rat) \<le> of_nat a" by (rule of_nat_mono)
  then have lo: "of_nat ?k \<le> ?q" using d by (simp add: pos_le_divide_eq)
  have "a \<le> ?k * d + (d - 1)"
    using div_mult_mod_eq [of a d] mod_less_divisor [OF assms(1), of a] by linarith
  then have "a * 2 ^ 14 \<le> (?k * d + (d - 1)) * 2 ^ 14" by simp
  also have "\<dots> \<le> (?k * 2 ^ 14 + (2 ^ 14 - 1)) * d"
  proof -
    obtain d' where d': "d = Suc d'" using assms(1) by (cases d) auto
    then show ?thesis using assms(2) by (simp add: algebra_simps)
  qed
  finally have "(of_nat (a * 2 ^ 14) :: rat) \<le> of_nat ((?k * 2 ^ 14 + (2 ^ 14 - 1)) * d)" by (rule of_nat_mono)
  then have hi: "?q \<le> ?b" using d by (simp add: pos_divide_le_eq pos_le_divide_eq)
  have "representable ?b" using assms(3) by (intro representable_dyadic) simp
  moreover have "representable (of_nat ?k)" using assms(3) by (intro representable_of_nat) simp
  ultimately obtain r where r: "fl ?q = Fin r" "of_nat ?k \<le> r" "r \<le> ?b"
    using fl_between lo hi by meson
  have "?b < of_nat ?k + 1" by simp
  with r(3) have "r < of_nat ?k + 1" by linarith
  with r(2) have "\<lfloor>r\<rfloor> = int ?k" by (simp add: floor_eq_iff)
  moreover have "0 < r \<or> r = 0 \<and> ?k = 0" using r(2) by (cases "?k = 0") (auto simp: le_less)
  ultimately show ?thesis unfolding r(1) by auto
qed

section \<open>Rounding is monotone\<close>

lemma rne_mono:
  assumes "x \<le> y"
  shows "rne x \<le> rne y"
proof (cases "\<lfloor>x\<rfloor> = \<lfloor>y\<rfloor>")
  case True
  then show ?thesis using assms by (auto simp: rne_def Let_def)
next
  case False
  then have "\<lfloor>x\<rfloor> + 1 \<le> \<lfloor>y\<rfloor>" using floor_mono [OF assms] by linarith
  moreover have "rne x \<le> \<lfloor>x\<rfloor> + 1" "\<lfloor>y\<rfloor> \<le> rne y" by (auto simp: rne_def Let_def)
  ultimately show ?thesis by linarith
qed

lemma lp_exp_mono: "0 < x \<Longrightarrow> x \<le> y \<Longrightarrow> lp_exp x \<le> lp_exp y"
proof -
  assume h: "0 < x" "x \<le> y"
  have "2 powi ilog2 x < (2 powi (ilog2 y + 1) :: rat)"
    using ilog2_bounds(1) [of x] ilog2_bounds(2) [of y] h by linarith
  then have "ilog2 x < ilog2 y + 1" using powi_le_iff [of "ilog2 y + 1" "ilog2 x"] by linarith
  then show ?thesis using h by (simp add: lp_exp_def)
qed

lemma round53_mono_pos:
  assumes "0 < x" and "x \<le> y"
  shows "round53 x \<le> round53 y"
proof -
  let ?e = "lp_exp x" and ?f = "lp_exp y"
  have r: "round53 x = of_int (rne (x / 2 powi ?e)) * 2 powi ?e" "round53 y = of_int (rne (y / 2 powi ?f)) * 2 powi ?f"
    using assms by (simp_all add: round53_def)
  show ?thesis
  proof (cases "?e = ?f")
    case True
    have "rne (x / 2 powi ?e) \<le> rne (y / 2 powi ?e)" using assms(2) by (intro rne_mono divide_right_mono) simp_all
    then show ?thesis unfolding r True [symmetric] by (intro mult_right_mono) simp_all
  next
    case False
    then have ef: "?e < ?f" using lp_exp_mono [OF assms] by simp
    have "x < 2 powi (ilog2 x + 1)" using ilog2_bounds(2) [OF assms(1)] .
    also have "\<dots> \<le> 2 powi (?e + 53)" using assms(1) by (simp only: powi_le_iff) (simp add: lp_exp_def)
    finally have "x / 2 powi ?e \<le> of_int (2 ^ 53)" by (simp add: power_int_add pos_divide_le_eq mult.commute)
    then have "rne (x / 2 powi ?e) \<le> 2 ^ 53" by (rule rne_le)
    then have "(of_int (rne (x / 2 powi ?e)) :: rat) \<le> of_int (2 ^ 53)" by (simp only: of_int_le_iff)
    then have "round53 x \<le> of_int (2 ^ 53) * 2 powi ?e" unfolding r by (intro mult_right_mono) simp_all
    also have "\<dots> = 2 powi (?e + 53)" by (simp add: power_int_add)
    also have "\<dots> \<le> 2 powi (?f + 52)" using ef by (simp only: powi_le_iff)
    also have "\<dots> = of_int (2 ^ 52) * 2 powi ?f" by (simp add: power_int_add)
    also have "\<dots> \<le> round53 y"
    proof -
      have "- 1074 < ?f" using ef by (simp add: lp_exp_def)
      then have "2 powi (?f + 52) \<le> y" using assms by (intro lp_exp_normal) simp_all
      then have "of_int (2 ^ 52) \<le> y / 2 powi ?f" by (simp add: power_int_add pos_le_divide_eq mult.commute)
      then have "2 ^ 52 \<le> rne (y / 2 powi ?f)" by (rule rne_ge)
      then have "of_int (2 ^ 52) \<le> (of_int (rne (y / 2 powi ?f)) :: rat)" by (simp only: of_int_le_iff)
      then show ?thesis unfolding r by (intro mult_right_mono) simp_all
    qed
    finally show ?thesis .
  qed
qed

lemma round53_mono: "x \<le> y \<Longrightarrow> round53 x \<le> round53 y"
proof -
  assume xy: "x \<le> y"
  consider "0 < x" | "x \<le> 0" "0 \<le> y" | "y < 0" by linarith
  then show ?thesis
  proof cases
    case 1
    then show ?thesis using xy by (rule round53_mono_pos)
  next
    case 2
    then have "0 \<le> round53 (- x)" "0 \<le> round53 y" by (simp_all add: round53_nonneg)
    then show ?thesis by (simp add: round53_neg)
  next
    case 3
    then have "round53 (- y) \<le> round53 (- x)" using xy by (intro round53_mono_pos) simp_all
    then show ?thesis by (simp add: round53_neg)
  qed
qed

lemma fl_mono: "x \<le> y \<Longrightarrow> fl x = Fin a \<Longrightarrow> fl y = Fin b \<Longrightarrow> a \<le> b"
  using round53_mono by (auto simp: fl_def Let_def split: if_splits)

lemma f64_of_nat_mono: "m \<le> n \<Longrightarrow> f64_of_nat m = Fin a \<Longrightarrow> f64_of_nat n = Fin b \<Longrightarrow> a \<le> b"
  unfolding f64_of_nat_def by (rule fl_mono) simp_all

lemma f64_div_mono_left:
  assumes "m \<le> n" and "n < 2 ^ 64"
    and "f64_div (f64_of_nat m) (f64_of_nat d) = Fin a" and "f64_div (f64_of_nat n) (f64_of_nat d) = Fin b"
  shows "a \<le> b"
proof -
  obtain x where x: "f64_of_nat m = Fin x" "0 \<le> x" "m = 0 \<longleftrightarrow> x = 0"
    by (rule f64_of_nat_finite [OF le_less_trans [OF assms(1,2)]])
  obtain y where y: "f64_of_nat n = Fin y" "0 \<le> y" "n = 0 \<longleftrightarrow> y = 0"
    by (rule f64_of_nat_finite [OF assms(2)])
  have xy: "x \<le> y" using f64_of_nat_mono [OF assms(1) x(1) y(1)] .
  show ?thesis
  proof (cases "f64_of_nat d")
    case (Fin z)
    have "0 \<le> z" using Fin fl_ge [of 0 "of_nat d"] by (auto simp: f64_of_nat_def)
    moreover have "z \<noteq> 0" using assms(3) x(1) Fin by (auto simp: inf_of_sign_def split: if_splits)
    ultimately have "x / z \<le> y / z" using xy by (intro divide_right_mono) simp_all
    moreover have "fl (x / z) = Fin a" "fl (y / z) = Fin b" using assms(3,4) x y Fin \<open>z \<noteq> 0\<close> by simp_all
    ultimately show ?thesis by (rule fl_mono)
  qed (use assms(3,4) x y in auto)
qed

text \<open>A share in basis points computed in floating point, exact below \<open>2^38\<close>.\<close>

lemma basis_points_exact:
  assumes "s < 2 ^ 38" and "r \<le> 10000"
  shows "unat (f64_to_u64 (f64_div (f64_mul (f64_of_nat s) (f64_of_nat r)) (fl 10000))) = s * r div 10000"
proof -
  have sr: "s * r \<le> s * 10000" using assms(2) by simp
  have b: "s * r div 10000 \<le> s" using div_le_mono [OF sr, of 10000] by simp
  have "s * 10000 \<le> 2 ^ 53" using assms(1) by simp
  with sr have "s * r \<le> 2 ^ 53" by (rule le_trans)
  then have p: "fl (of_nat s * of_nat r) = Fin (of_nat (s * r))"
    using fl_exact [OF representable_of_nat [of "s * r"]] by (simp only: of_nat_mult)
  have e: "f64_of_nat s = Fin (of_nat s)" "f64_of_nat r = Fin (of_nat r)" using assms by (auto intro!: fl_of_nat)
  have t: "fl 10000 = Fin 10000" by (rule fl_exact, rule representable_numeral) simp
  show ?thesis
    unfolding unat_f64_to_u64 e f64_mul.simps p t
    using fl_floor_div [of 10000 "s * r" "2 ^ 64 - 1"] b assms(1) by simp
qed

section \<open>Relative error\<close>

lemma lp_exp_normal_range: "2 powi - 1000 \<le> q \<Longrightarrow> - 1074 < lp_exp q"
proof -
  assume q: "2 powi - 1000 \<le> q"
  have "(0 :: rat) < 2 powi - 1000" by simp
  then have "0 < q" using q by linarith
  then have "q < 2 powi (ilog2 q + 1)" by (rule ilog2_bounds(2))
  then have "(2 :: rat) powi - 1000 < 2 powi (ilog2 q + 1)" using q by linarith
  then have "- 1000 < ilog2 q + 1" using powi_le_iff [of "ilog2 q + 1" "- 1000"] by linarith
  then show "- 1074 < lp_exp q" using \<open>0 < q\<close> by (simp add: lp_exp_def)
qed

lemma round53_relative:
  assumes "2 powi - 1000 \<le> q"
  shows "round53 q \<le> q * (1 + 1 / 2 ^ 53)" and "q * (1 - 1 / 2 ^ 53) \<le> round53 q"
proof -
  let ?e = "lp_exp q"
  have p: "(0 :: rat) < 2 powi ?e" by simp
  have "(0 :: rat) < 2 powi - 1000" by simp
  then have q: "0 < q" using assms by linarith
  have n: "2 powi ?e * 2 ^ 52 \<le> q" using lp_exp_normal [OF q lp_exp_normal_range [OF assms]] by (simp add: power_int_add)
  have r: "of_int (rne (q / 2 powi ?e)) \<le> q / 2 powi ?e + 1 / 2" "q / 2 powi ?e - 1 / 2 \<le> of_int (rne (q / 2 powi ?e))"
    using rne_near [of "q / 2 powi ?e"] unfolding abs_le_iff by linarith+
  have "of_int (rne (q / 2 powi ?e)) * 2 powi ?e \<le> (q / 2 powi ?e + 1 / 2) * 2 powi ?e"
    using r(1) p by (intro mult_right_mono) simp_all
  also have "\<dots> = q + 2 powi ?e / 2" by (simp add: distrib_right)
  also have "\<dots> \<le> q * (1 + 1 / 2 ^ 53)" using n by (simp add: algebra_simps)
  finally show "round53 q \<le> q * (1 + 1 / 2 ^ 53)" using q by (simp add: round53_def)
  have "q * (1 - 1 / 2 ^ 53) \<le> q - 2 powi ?e / 2" using n by (simp add: algebra_simps)
  also have "\<dots> = (q / 2 powi ?e - 1 / 2) * 2 powi ?e" by (simp add: left_diff_distrib)
  also have "\<dots> \<le> of_int (rne (q / 2 powi ?e)) * 2 powi ?e"
    using r(2) p by (intro mult_right_mono) simp_all
  finally show "q * (1 - 1 / 2 ^ 53) \<le> round53 q" using q by (simp add: round53_def)
qed

lemma round53_upper: "1 \<le> q \<Longrightarrow> round53 q \<le> q * (1 + 1 / 2 ^ 53)"
proof -
  assume "1 \<le> q"
  moreover have "(2 :: rat) powi - 1000 \<le> 2 powi 0" by (subst powi_le_iff) simp
  ultimately have "2 powi - 1000 \<le> q" by simp
  then show ?thesis by (rule round53_relative(1))
qed

lemma fl_relative:
  assumes "2 powi - 1000 \<le> q" and "fl q = Fin r"
  shows "r \<le> q * (1 + 1 / 2 ^ 53)" and "q * (1 - 1 / 2 ^ 53) \<le> r"
  using round53_relative [OF assms(1)] assms(2) by (auto simp: fl_def Let_def split: if_splits)

section \<open>Ten per cent more\<close>

text \<open>\<open>(n as f64 * 1.1) as u64\<close>; the literal is \<open>0x1199999999999A * 2^-52\<close>, slightly above 11/10.\<close>

definition times_1_1 :: "u64 \<Rightarrow> u64" where
  "times_1_1 n = f64_to_u64 (f64_mul (f64_of_u64 n) (fl (11 / 10)))"

lemma fl_1_1: "fl (11 / 10) = Fin (4953959590107546 / 2 ^ 52)"
  using fl_literal [of 52 "11 / 10" 4953959590107546] by simp

lemma times_1_1_bounds:
  assumes "unat n < 2 ^ 24"
  shows "unat n \<le> unat (times_1_1 n)" and "10 * unat (times_1_1 n) \<le> 11 * unat n + 10"
proof -
  let ?c = "4953959590107546 / 2 ^ 52 :: rat"
  obtain k where k: "unat n = k" by blast
  let ?n = "of_nat k :: rat"
  let ?u = "(11 * k + 10) div 10"
  have k24: "k < 2 ^ 24" using assms k by simp
  then have n: "f64_of_u64 n = Fin ?n" unfolding k by (intro fl_of_nat) simp
  have nr: "?n \<le> 16777215" using of_nat_mono [of k 16777215, where 'a = rat] k24 by simp
  have "11 * k + 1 \<le> 10 * ?u" by presburger
  then have "(of_nat (11 * k + 1) :: rat) \<le> of_nat (10 * ?u)" by (rule of_nat_mono)
  then have "11 * ?n + 1 \<le> 10 * of_nat ?u" by simp
  moreover have "10 * (?n * ?c) \<le> 11 * ?n + 1" using nr by simp
  ultimately have up: "?n * ?c \<le> of_nat ?u" by linarith
  have "?n * 1 \<le> ?n * ?c" by (intro mult_left_mono) simp_all
  then have "\<exists>r. fl (?n * ?c) = Fin r \<and> ?n \<le> r \<and> r \<le> of_nat ?u"
    using up k24 by (intro fl_between_nat) simp_all
  then obtain r where r: "fl (?n * ?c) = Fin r" "?n \<le> r" "r \<le> of_nat ?u" by blast
  have t: "unat (times_1_1 n) = f64_to_nat (2 ^ 64 - 1) (Fin r)"
    unfolding times_1_1_def unat_f64_to_u64 n fl_1_1 f64_mul.simps r(1) ..
  show "unat n \<le> unat (times_1_1 n)" unfolding t k using r(2) k24 by (intro f64_to_nat_ge) simp_all
  have "f64_to_nat (2 ^ 64 - 1) (Fin r) \<le> ?u" using r(3) by (rule f64_to_nat_le)
  then show "10 * unat (times_1_1 n) \<le> 11 * unat n + 10" unfolding t k by simp
qed

section \<open>Square roots\<close>

text \<open>
  \<open>f64::sqrt\<close> returns the binary64 number nearest to the exact root. The argument scaled by
  \<open>4^600\<close> is an integer, whose integer root \<open>s\<close> has more than 54 bits; the exact root is \<open>s\<close> or
  strictly between \<open>s\<close> and \<open>s + 1\<close>, where it rounds as the midpoint does, since no tie
  lies inside that interval.
\<close>

fun isqrt :: "nat \<Rightarrow> nat" where
  "isqrt n = (if n = 0 then 0 else let r = 2 * isqrt (n div 4) in if (r + 1) * (r + 1) \<le> n then r + 1 else r)"

declare isqrt.simps [simp del]

lemma isqrt_bounds: "isqrt n * isqrt n \<le> n \<and> n < (isqrt n + 1) * (isqrt n + 1)"
proof (induction n rule: isqrt.induct)
  case (1 n)
  show ?case
  proof (cases "n = 0")
    case False
    let ?r = "isqrt (n div 4)"
    have IH: "?r * ?r \<le> n div 4" "n div 4 < (?r + 1) * (?r + 1)" using 1 False by blast+
    have "4 * (?r * ?r) \<le> 4 * (n div 4)" using IH(1) by simp
    also have "\<dots> \<le> n" by simp
    finally have lo: "(2 * ?r) * (2 * ?r) \<le> n" by (simp add: algebra_simps)
    have "4 * (n div 4) + 4 \<le> 4 * ((?r + 1) * (?r + 1))" using IH(2) by linarith
    moreover have "n < 4 * (n div 4) + 4" by presburger
    ultimately have "n < 4 * ((?r + 1) * (?r + 1))" by linarith
    then have hi: "n < (2 * ?r + 1 + 1) * (2 * ?r + 1 + 1)" by (simp add: algebra_simps)
    show ?thesis using lo hi False by (subst (1 2 3 4) isqrt.simps) (simp add: Let_def)
  qed (simp add: isqrt.simps)
qed

definition sqrt_scale :: nat where
  "sqrt_scale = 600"

fun f64_sqrt :: "f64 \<Rightarrow> f64" where
  "f64_sqrt NaN = NaN"
| "f64_sqrt NInf = NaN"
| "f64_sqrt PInf = PInf"
| "f64_sqrt (Fin q) =
     (if q < 0 then NaN
      else let n = nat \<lfloor>q * 4 ^ sqrt_scale\<rfloor>; s = isqrt n
           in if s * s = n then fl (of_nat s / 2 ^ sqrt_scale)
              else fl ((of_nat s + 1 / 2) / 2 ^ sqrt_scale))"

lemma isqrt_ge: "m * m \<le> n \<Longrightarrow> m \<le> isqrt n"
  using isqrt_bounds [of n] mult_le_mono [of "isqrt n + 1" m "isqrt n + 1" m] by linarith

lemma isqrt_less: "n < m * m \<Longrightarrow> isqrt n < m"
  using isqrt_bounds [of n] mult_le_mono [of m "isqrt n" m "isqrt n"] by linarith

lemma f64_sqrt_range:
  assumes "1 \<le> q" and "q < 4 ^ k" and "k \<le> 1000"
  shows "\<exists>r. f64_sqrt (Fin q) = Fin r \<and> 1 \<le> r \<and> r \<le> 2 ^ k"
proof -
  let ?n = "nat \<lfloor>q * 4 ^ sqrt_scale\<rfloor>" and ?S = "2 ^ sqrt_scale :: nat"
  let ?s = "isqrt ?n"
  have four: "(4 :: 'a::comm_semiring_1) ^ m = 2 ^ m * 2 ^ m" for m
    by (simp flip: power_mult_distrib)
  have p: "(0 :: rat) < 4 ^ sqrt_scale" by simp
  have "(4 :: rat) ^ sqrt_scale \<le> q * 4 ^ sqrt_scale" using assms(1) p by simp
  then have "(4 :: int) ^ sqrt_scale \<le> \<lfloor>q * 4 ^ sqrt_scale\<rfloor>" by (simp add: le_floor_iff)
  then have "4 ^ sqrt_scale \<le> ?n" by (simp add: le_nat_iff)
  then have lo: "?S \<le> ?s" by (intro isqrt_ge) (simp only: four)
  have "q * 4 ^ sqrt_scale < 4 ^ k * 4 ^ sqrt_scale" using assms(2) p by (intro mult_strict_right_mono)
  then have "\<lfloor>q * 4 ^ sqrt_scale\<rfloor> < 4 ^ k * 4 ^ sqrt_scale" by (simp add: floor_less_iff)
  moreover have "0 \<le> \<lfloor>q * 4 ^ sqrt_scale\<rfloor>" using assms(1) by simp
  ultimately have "?n < 4 ^ k * 4 ^ sqrt_scale" by (simp add: nat_less_iff)
  also have "\<dots> = (2 ^ k * ?S) * (2 ^ k * ?S)" by (simp only: four mult_ac)
  finally have "?s < 2 ^ k * ?S" by (rule isqrt_less)
  then have hi: "?s + 1 \<le> 2 ^ k * ?S" by simp
  have P: "(0 :: rat) < 2 ^ sqrt_scale" by simp
  have lo': "(2 :: rat) ^ sqrt_scale \<le> of_nat ?s" using of_nat_mono [OF lo, where 'a = rat] by simp
  have hi': "of_nat ?s + 1 \<le> (2 :: rat) ^ k * 2 ^ sqrt_scale" using of_nat_mono [OF hi, where 'a = rat] by simp
  have fl: "\<exists>r. fl (x / 2 ^ sqrt_scale) = Fin r \<and> 1 \<le> r \<and> r \<le> 2 ^ k" if "of_nat ?s \<le> x" "x \<le> of_nat ?s + 1" for x
  proof (rule fl_between)
    have "2 ^ sqrt_scale \<le> x" "x \<le> 2 ^ k * 2 ^ sqrt_scale" using that lo' hi' by linarith+
    then show "1 \<le> x / 2 ^ sqrt_scale" "x / 2 ^ sqrt_scale \<le> 2 ^ k" using P by (simp_all add: pos_le_divide_eq pos_divide_le_eq)
  qed (simp_all add: representable_pow2 assms(3))
  show ?thesis using fl [of "of_nat ?s"] fl [of "of_nat ?s + 1 / 2"] assms(1) by (simp add: Let_def)
qed

end
