(* ===== verification/Kv_Store.thy ===== *)
theory Kv_Store
  imports Prelude "HOL-Library.List_Lexorder"
begin

text \<open>
  The two third-party crates below \<open>storage\<close> and \<open>metrics.rs\<close>. A \<open>codec\<close> is bincode at one type.
  A \<open>rocksdb\<close> value holds the RocksDB calls the sources make, on an abstract database state \<open>'db\<close>.
  What RocksDB and bincode document is the predicates \<open>codec_ok\<close>, \<open>rocksdb_ok\<close> and
  \<open>healthy\<close>, hypotheses of the theorems that need them: a successful call acts on a sorted map per
  column family, a failed write changes nothing, and an iterator visits the keys in bytewise order.
\<close>

section \<open>bincode\<close>

record 'a codec =
  serialize :: "'a \<Rightarrow> string + bytes"
  deserialize :: "bytes \<Rightarrow> string + 'a"

text \<open>What has been serialised is read back.\<close>

definition codec_ok :: "'a codec \<Rightarrow> bool" where
  "codec_ok c \<longleftrightarrow> (\<forall>x bs. serialize c x = Inr bs \<longrightarrow> deserialize c bs = Inr x)"

lemma codec_okD: "codec_ok c \<Longrightarrow> serialize c x = Inr bs \<Longrightarrow> deserialize c bs = Inr x"
  by (simp add: codec_ok_def)

section \<open>RocksDB\<close>

datatype batch_op = PutCf string bytes bytes | DeleteCf string bytes

datatype iterator_mode = IterStart | IterEnd | IterFrom bytes

record open_options =
  oo_create_if_missing :: bool
  oo_create_missing_column_families :: bool
  oo_max_open_files :: int
  oo_write_buffer_size :: nat
  oo_max_write_buffer_number :: int
  oo_increase_parallelism :: int

text \<open>
  The calls: \<open>DB::open_cf\<close>, \<open>cf_handle\<close>, \<open>get_cf\<close>, \<open>put_cf\<close>, \<open>delete_cf\<close>, \<open>write\<close> of a batch,
  \<open>iterator_cf\<close> and \<open>compact_range_cf\<close> over the whole range. A mode \<open>IterFrom k\<close> is
  \<open>IteratorMode::From(k, Direction::Forward)\<close>.
\<close>

record 'db rocksdb =
  open_cf :: "open_options \<Rightarrow> string \<Rightarrow> string list \<Rightarrow> string + 'db"
  cf_handle :: "'db \<Rightarrow> string \<Rightarrow> bool"
  get_cf :: "'db \<Rightarrow> string \<Rightarrow> bytes \<Rightarrow> string + bytes option"
  put_cf :: "'db \<Rightarrow> string \<Rightarrow> bytes \<Rightarrow> bytes \<Rightarrow> (string + unit) \<times> 'db"
  delete_cf :: "'db \<Rightarrow> string \<Rightarrow> bytes \<Rightarrow> (string + unit) \<times> 'db"
  write_batch :: "'db \<Rightarrow> batch_op list \<Rightarrow> (string + unit) \<times> 'db"
  iterator_cf :: "'db \<Rightarrow> string \<Rightarrow> iterator_mode \<Rightarrow> (string + bytes \<times> bytes) list"
  compact_range_cf :: "'db \<Rightarrow> string \<Rightarrow> 'db"

type_synonym contents = "string \<Rightarrow> (bytes, bytes) fmap"

fun apply_op :: "contents \<Rightarrow> batch_op \<Rightarrow> contents" where
  "apply_op m (PutCf cf k v) = m(cf := fmupd k v (m cf))"
| "apply_op m (DeleteCf cf k) = m(cf := fmdrop k (m cf))"

definition apply_batch :: "batch_op list \<Rightarrow> contents \<Rightarrow> contents" where
  "apply_batch ops m = foldl apply_op m ops"

fun iter_entries :: "iterator_mode \<Rightarrow> (bytes, bytes) fmap \<Rightarrow> (bytes \<times> bytes) list" where
  "iter_entries IterStart m = btree_iter m"
| "iter_entries IterEnd m = rev (btree_iter m)"
| "iter_entries (IterFrom k) m = filter (\<lambda>e. k \<le> fst e) (btree_iter m)"

text \<open>A call that writes: on success the operations are applied, in order; on failure none is.\<close>

definition writes ::
    "('db \<Rightarrow> contents) \<Rightarrow> 'db rocksdb \<Rightarrow> 'db \<Rightarrow> batch_op list \<Rightarrow> (string + unit) \<times> 'db \<Rightarrow> bool" where
  "writes view R db ops res \<longleftrightarrow>
     view (snd res) = (if fst res = Inr () then apply_batch ops (view db) else view db) \<and>
     cf_handle R (snd res) = cf_handle R db"

definition rocksdb_ok :: "'db rocksdb \<Rightarrow> ('db \<Rightarrow> contents) \<Rightarrow> bool" where
  "rocksdb_ok R view \<longleftrightarrow>
     (\<forall>opts path cfs db. open_cf R opts path cfs = Inr db \<longrightarrow> (\<forall>cf \<in> set cfs. cf_handle R db cf)) \<and>
     (\<forall>db cf k v. get_cf R db cf k = Inr v \<longrightarrow> v = fmlookup (view db cf) k) \<and>
     (\<forall>db cf k v. writes view R db [PutCf cf k v] (put_cf R db cf k v)) \<and>
     (\<forall>db cf k. writes view R db [DeleteCf cf k] (delete_cf R db cf k)) \<and>
     (\<forall>db ops. writes view R db ops (write_batch R db ops)) \<and>
     (\<forall>db cf mode es. iterator_cf R db cf mode = map Inr es \<longrightarrow> es = iter_entries mode (view db cf)) \<and>
     (\<forall>db cf. view (compact_range_cf R db cf) = view db \<and> cf_handle R (compact_range_cf R db cf) = cf_handle R db)"

text \<open>A state in which reads meet no input/output error.\<close>

definition healthy :: "'db rocksdb \<Rightarrow> 'db \<Rightarrow> bool" where
  "healthy R db \<longleftrightarrow>
     (\<forall>cf k. \<exists>v. get_cf R db cf k = Inr v) \<and> (\<forall>cf mode. \<exists>es. iterator_cf R db cf mode = map Inr es)"

section \<open>What the laws give\<close>

lemma rocksdb_get: "rocksdb_ok R view \<Longrightarrow> get_cf R db cf k = Inr v \<Longrightarrow> v = fmlookup (view db cf) k"
  by (simp add: rocksdb_ok_def)

lemma rocksdb_put: "rocksdb_ok R view \<Longrightarrow> writes view R db [PutCf cf k v] (put_cf R db cf k v)"
  by (simp add: rocksdb_ok_def)

lemma rocksdb_delete: "rocksdb_ok R view \<Longrightarrow> writes view R db [DeleteCf cf k] (delete_cf R db cf k)"
  by (simp add: rocksdb_ok_def)

lemma rocksdb_write: "rocksdb_ok R view \<Longrightarrow> writes view R db ops (write_batch R db ops)"
  by (simp add: rocksdb_ok_def)

lemma rocksdb_iter:
  "rocksdb_ok R view \<Longrightarrow> iterator_cf R db cf mode = map Inr es \<Longrightarrow> es = iter_entries mode (view db cf)"
  by (simp add: rocksdb_ok_def)

lemma rocksdb_compact:
  "rocksdb_ok R view \<Longrightarrow> view (compact_range_cf R db cf) = view db"
  "rocksdb_ok R view \<Longrightarrow> cf_handle R (compact_range_cf R db cf) = cf_handle R db"
  by (simp_all add: rocksdb_ok_def)

lemma rocksdb_open:
  "rocksdb_ok R view \<Longrightarrow> open_cf R opts path cfs = Inr db \<Longrightarrow> cf \<in> set cfs \<Longrightarrow> cf_handle R db cf"
  by (auto simp: rocksdb_ok_def)

lemma healthy_get:
  "rocksdb_ok R view \<Longrightarrow> healthy R db \<Longrightarrow> get_cf R db cf k = Inr (fmlookup (view db cf) k)"
  unfolding healthy_def by (metis rocksdb_get)

lemma healthy_iter:
  "rocksdb_ok R view \<Longrightarrow> healthy R db \<Longrightarrow>
     iterator_cf R db cf mode = map Inr (iter_entries mode (view db cf))"
  unfolding healthy_def by (metis rocksdb_iter)

lemma apply_batch_simps [simp]:
  "apply_batch [] m = m"
  "apply_batch (op # ops) m = apply_batch ops (apply_op m op)"
  by (simp_all add: apply_batch_def)

lemma apply_batch_append [simp]: "apply_batch (ops @ ops') m = apply_batch ops' (apply_batch ops m)"
  by (simp add: apply_batch_def)

lemma apply_deletes:
  "apply_batch (map (DeleteCf cf) ks) m = m(cf := fmdrop_fset (fset_of_list ks) (m cf))"
proof (induction ks arbitrary: m)
  case (Cons k ks)
  have "fmdrop_fset (fset_of_list ks) (fmdrop k (m cf)) = fmdrop_fset (fset_of_list (k # ks)) (m cf)"
    by (rule fmap_ext) auto
  then show ?case by (auto simp: Cons.IH fun_upd_def)
qed simp

lemma iter_entries_set: "set (iter_entries mode m) \<subseteq> {(k, v). fmlookup m k = Some v}"
  using enumerates_set [OF enumerates_btree_iter [of m]] by (cases mode) auto

lemma iter_start_set: "set (btree_iter m) = {(k, v). fmlookup m k = Some v}"
  by (rule enumerates_set [OF enumerates_btree_iter])

lemma distinct_btree_iter: "distinct (map fst (btree_iter m))"
  using enumerates_btree_iter [of m] by (simp add: enumerates_def)

section \<open>Big-endian keys\<close>

text \<open>Bytewise order of fixed-length prefixes, and of big-endian numbers: it is numeric order.\<close>

lemma lex_append:
  fixes a b c d :: "'x::linorder list"
  assumes "length a = length b"
  shows "a @ c \<le> b @ d \<longleftrightarrow> a < b \<or> (a = b \<and> c \<le> d)"
  using assms by (induction a b rule: list_induct2) (auto simp: Cons_le_Cons)

lemma lex_less_append:
  fixes a b c d :: "'x::linorder list"
  assumes "length a = length b"
  shows "a @ c < b @ d \<longleftrightarrow> a < b \<or> (a = b \<and> c < d)"
  using assms by (induction a b rule: list_induct2) auto

lemma unat_drop_bit: "unat (drop_bit n (w :: 'a::len word)) = unat w div 2 ^ n"
  by (metis drop_bit_eq_div unsigned_drop_bit_eq unsigned_take_bit_eq take_bit_length_eq)

lemma be_bytes_less:
  fixes v w :: "'a::len word"
  shows "be_bytes n v < be_bytes n w \<longleftrightarrow> unat v mod 256 ^ n < unat w mod 256 ^ n"
proof (induction n)
  case 0
  then show ?case by (simp add: be_bytes_def)
next
  case (Suc n)
  have hd: "unat (ucast (drop_bit (8 * n) u) :: 8 word) = unat u div 256 ^ n mod 256" for u :: "'a word"
    by (simp add: unsigned_ucast_eq take_bit_eq_mod unat_drop_bit power_mult)
  have split: "unat u mod 256 ^ Suc n = unat u div 256 ^ n mod 256 * 256 ^ n + unat u mod 256 ^ n" for u :: "'a word"
    using mod_mult2_eq [of "unat u" "256 ^ n" 256] by (simp add: mult.commute)
  have bound: "x mod 256 ^ n < 256 ^ n" for x :: nat by simp
  have digits: "a * B + r < b * B + s \<longleftrightarrow> a < b \<or> (a = b \<and> r < s)" if "r < B" "s < B" for a b r s B :: nat
  proof -
    consider "a < b" | "a = b" | "b < a" by linarith
    then show ?thesis
    proof cases
      case 1
      then have "Suc a * B \<le> b * B" by (intro mult_le_mono1) simp
      with 1 that show ?thesis by simp
    next
      case 3
      then have "Suc b * B \<le> a * B" by (intro mult_le_mono1) simp
      with 3 that show ?thesis by simp
    qed simp
  qed
  show ?case
    unfolding be_bytes_Suc split digits [OF bound bound]
    by (simp add: Suc.IH word_less_nat_alt hd word_unat_eq_iff)
qed

lemma be_bytes_8_less [simp]: "be_bytes 8 v < be_bytes 8 w \<longleftrightarrow> v < (w :: u64)"
  using unat_less_u64 [of v] unat_less_u64 [of w] by (simp add: be_bytes_less word_less_nat_alt)

lemma be_bytes_8_le [simp]: "be_bytes 8 v \<le> be_bytes 8 w \<longleftrightarrow> v \<le> (w :: u64)"
  using be_bytes_8_less [of w v] by (simp add: linorder_not_less [symmetric] del: be_bytes_8_less)

lemma be_bytes_8_eq [simp]: "be_bytes 8 v = be_bytes 8 w \<longleftrightarrow> v = (w :: u64)"
  by (simp add: be_bytes_inject)

section \<open>An in-memory store\<close>

text \<open>
  A database that satisfies the laws: the contents themselves, with every column family open and
  every call successful.
\<close>

definition mem_rocksdb :: "contents rocksdb" where
  "mem_rocksdb =
     \<lparr>open_cf = (\<lambda>opts path cfs. Inr (\<lambda>_. fmempty)), cf_handle = (\<lambda>db cf. True),
      get_cf = (\<lambda>db cf k. Inr (fmlookup (db cf) k)),
      put_cf = (\<lambda>db cf k v. (Inr (), apply_op db (PutCf cf k v))),
      delete_cf = (\<lambda>db cf k. (Inr (), apply_op db (DeleteCf cf k))),
      write_batch = (\<lambda>db ops. (Inr (), apply_batch ops db)),
      iterator_cf = (\<lambda>db cf mode. map Inr (iter_entries mode (db cf))),
      compact_range_cf = (\<lambda>db cf. db)\<rparr>"

lemma map_Inr_eq: "map Inr xs = map Inr ys \<Longrightarrow> ys = xs"
  by (metis inj_Inr inj_map_eq_map)

lemma mem_rocksdb_ok: "rocksdb_ok mem_rocksdb (\<lambda>db. db)"
  unfolding rocksdb_ok_def by (auto simp: mem_rocksdb_def writes_def dest: map_Inr_eq)

lemma mem_rocksdb_healthy: "healthy mem_rocksdb db"
  by (auto simp: healthy_def mem_rocksdb_def)

end
