(* ===== verification/Metrics.thy ===== *)
theory Metrics
  imports Block F64 Kv_Store
begin

text \<open>
  \<open>metrics.rs\<close> of \<open>blockchain-core\<close>: cumulative totals and averages over a window of recent
  blocks. The size of a block is the length of its bincode encoding. A \<open>VecDeque\<close> is a list, front
  first.
\<close>

section \<open>The code\<close>

record SizeStats =
  ss_min :: nat
  ss_max :: nat
  ss_avg :: f64

definition size_stats_default :: SizeStats where
  "size_stats_default = \<lparr>ss_min = 0, ss_max = 0, ss_avg = Fin 0\<rparr>"

record GasStats =
  gs_total_used :: u64
  gs_total_limit :: u64
  gs_avg_usage :: f64
  gs_utilization_rate :: f64

definition gas_stats_default :: GasStats where
  "gas_stats_default = \<lparr>gs_total_used = 0, gs_total_limit = 0, gs_avg_usage = Fin 0, gs_utilization_rate = Fin 0\<rparr>"

record ChainMetrics =
  cm_height :: BlockNumber
  cm_total_transactions :: u64
  cm_total_gas_used :: u64
  cm_avg_block_time :: f64
  cm_avg_gas_price :: f64
  cm_tps :: f64
  cm_avg_tx_per_block :: f64
  cm_block_size_stats :: SizeStats
  cm_gas_stats :: GasStats

definition chain_metrics_new :: ChainMetrics where
  "chain_metrics_new =
     \<lparr>cm_height = 0, cm_total_transactions = 0, cm_total_gas_used = 0, cm_avg_block_time = Fin 0,
      cm_avg_gas_price = Fin 0, cm_tps = Fin 0, cm_avg_tx_per_block = Fin 0,
      cm_block_size_stats = size_stats_default, cm_gas_stats = gas_stats_default\<rparr>"

record BlockStats =
  bs_number :: BlockNumber
  bs_timestamp :: u64
  bs_block_time :: f64
  bs_tx_count :: nat
  bs_size :: nat
  bs_gas_used :: Gas
  bs_gas_limit :: Gas
  bs_avg_gas_price :: u64

definition block_size :: "Block codec \<Rightarrow> Block \<Rightarrow> nat" where
  "block_size c block = (case serialize c block of Inr b \<Rightarrow> length b | Inl _ \<Rightarrow> 0)"

definition block_stats_from_block :: "Block codec \<Rightarrow> Block \<Rightarrow> u64 \<Rightarrow> BlockStats" where
  "block_stats_from_block c block prev_timestamp =
     (let block_time = (if 0 < prev_timestamp
                        then f64_of_u64 (saturating_sub (bh_timestamp (blk_header block)) prev_timestamp)
                        else Fin 0);
          avg_gas_price = (if blk_transactions block \<noteq> []
                           then sum_list (map tx_gas_price (blk_transactions block))
                                  div of_nat (length (blk_transactions block))
                           else 0)
      in \<lparr>bs_number = block_number block, bs_timestamp = bh_timestamp (blk_header block),
          bs_block_time = block_time, bs_tx_count = length (blk_transactions block),
          bs_size = block_size c block, bs_gas_used = bh_gas_used (blk_header block),
          bs_gas_limit = bh_gas_limit (blk_header block), bs_avg_gas_price = avg_gas_price\<rparr>)"

record MetricsCalculator =
  mc_recent_blocks :: "BlockStats list"
  mc_window_size :: nat
  mc_cumulative :: ChainMetrics

definition metrics_new :: "nat \<Rightarrow> MetricsCalculator" where
  "metrics_new window_size =
     \<lparr>mc_recent_blocks = [], mc_window_size = window_size, mc_cumulative = chain_metrics_new\<rparr>"

definition size_stats_of :: "nat list \<Rightarrow> SizeStats" where
  "size_stats_of sizes =
     \<lparr>ss_min = Min (set sizes), ss_max = Max (set sizes),
      ss_avg = f64_div (f64_of_nat (sum_list sizes)) (f64_of_nat (length sizes))\<rparr>"

definition gas_stats_of :: "BlockStats list \<Rightarrow> GasStats" where
  "gas_stats_of recent =
     (let total_gas_used = sum_list (map bs_gas_used recent);
          total_limit = sum_list (map bs_gas_limit recent)
      in \<lparr>gs_total_used = total_gas_used, gs_total_limit = total_limit,
          gs_avg_usage = f64_div (f64_of_u64 total_gas_used) (f64_of_nat (length recent)),
          gs_utilization_rate =
            (if 0 < total_limit
             then f64_mul (f64_div (f64_of_u64 total_gas_used) (f64_of_u64 total_limit)) (Fin 100)
             else Fin 0)\<rparr>)"

definition calculate_averages :: "MetricsCalculator \<Rightarrow> MetricsCalculator" where
  "calculate_averages mc =
     (let recent = mc_recent_blocks mc in
      if recent = [] then mc
      else let cnt = f64_of_nat (length recent);
               avg_block_time = f64_div (foldl f64_add (Fin 0) (map bs_block_time recent)) cnt;
               avg_gas_price = f64_div (f64_of_u64 (sum_list (map bs_avg_gas_price recent))) cnt;
               avg_tx_per_block = f64_div (f64_of_nat (sum_list (map bs_tx_count recent))) cnt;
               tps = (if f64_lt (Fin 0) avg_block_time then f64_div avg_tx_per_block avg_block_time
                      else cm_tps (mc_cumulative mc))
           in mc\<lparr>mc_cumulative := (mc_cumulative mc)
                  \<lparr>cm_avg_block_time := avg_block_time, cm_avg_gas_price := avg_gas_price,
                   cm_avg_tx_per_block := avg_tx_per_block, cm_tps := tps,
                   cm_block_size_stats := size_stats_of (map bs_size recent),
                   cm_gas_stats := gas_stats_of recent\<rparr>\<rparr>)"

definition push_block_stats :: "nat \<Rightarrow> BlockStats list \<Rightarrow> BlockStats \<Rightarrow> BlockStats list" where
  "push_block_stats window recent stats =
     (let r = recent @ [stats] in if window < length r then tl r else r)"

definition metrics_update :: "Block codec \<Rightarrow> MetricsCalculator \<Rightarrow> Block \<Rightarrow> u64 \<Rightarrow> MetricsCalculator" where
  "metrics_update c mc block prev_timestamp =
     (let stats = block_stats_from_block c block prev_timestamp;
          cumulative = (mc_cumulative mc)
            \<lparr>cm_height := block_number block,
             cm_total_transactions := cm_total_transactions (mc_cumulative mc) + of_nat (length (blk_transactions block)),
             cm_total_gas_used := cm_total_gas_used (mc_cumulative mc) + bh_gas_used (blk_header block)\<rparr>
      in calculate_averages
           (mc\<lparr>mc_cumulative := cumulative,
               mc_recent_blocks := push_block_stats (mc_window_size mc) (mc_recent_blocks mc) stats\<rparr>))"

definition metrics_reset :: "MetricsCalculator \<Rightarrow> MetricsCalculator" where
  "metrics_reset mc = mc\<lparr>mc_recent_blocks := [], mc_cumulative := chain_metrics_new\<rparr>"

section \<open>The window\<close>

text \<open>A run of updates, each a block and the timestamp of its predecessor.\<close>

definition metrics_run :: "Block codec \<Rightarrow> MetricsCalculator \<Rightarrow> (Block \<times> u64) list \<Rightarrow> MetricsCalculator" where
  "metrics_run c mc us = foldl (\<lambda>m (b, t). metrics_update c m b t) mc us"

definition last_n :: "nat \<Rightarrow> 'a list \<Rightarrow> 'a list" where
  "last_n n xs = drop (length xs - n) xs"

lemma length_last_n [simp]: "length (last_n n xs) = min n (length xs)"
  by (simp add: last_n_def)

lemma push_last_n: "push_block_stats w (last_n w xs) x = last_n w (xs @ [x])"
proof (cases "length xs < w")
  case False
  have "tl (drop k xs @ [x]) = drop (Suc k) (xs @ [x])" if "k \<le> length xs" for k
  proof -
    have "tl (drop k (xs @ [x])) = drop (Suc k) (xs @ [x])" by (simp only: drop_Suc tl_drop)
    moreover have "drop k (xs @ [x]) = drop k xs @ [x]" using that by simp
    ultimately show ?thesis by (simp only:)
  qed
  then show ?thesis using False by (simp add: push_block_stats_def last_n_def Let_def Suc_diff_le)
qed (auto simp: push_block_stats_def last_n_def Let_def)

lemma calculate_averages_fields [simp]:
  "mc_recent_blocks (calculate_averages mc) = mc_recent_blocks mc"
  "mc_window_size (calculate_averages mc) = mc_window_size mc"
  "cm_height (mc_cumulative (calculate_averages mc)) = cm_height (mc_cumulative mc)"
  "cm_total_transactions (mc_cumulative (calculate_averages mc)) = cm_total_transactions (mc_cumulative mc)"
  "cm_total_gas_used (mc_cumulative (calculate_averages mc)) = cm_total_gas_used (mc_cumulative mc)"
  by (simp_all add: calculate_averages_def Let_def)

lemma metrics_run_snoc:
  "metrics_run c mc (us @ [(b, t)]) = metrics_update c (metrics_run c mc us) b t"
  by (simp add: metrics_run_def)

lemma metrics_run_fields:
  "mc_window_size (metrics_run c (metrics_new w) us) = w \<and>
   mc_recent_blocks (metrics_run c (metrics_new w) us) = last_n w (map (\<lambda>(b, t). block_stats_from_block c b t) us) \<and>
   cm_total_transactions (mc_cumulative (metrics_run c (metrics_new w) us)) =
     (\<Sum>(b, t)\<leftarrow>us. of_nat (length (blk_transactions b))) \<and>
   cm_total_gas_used (mc_cumulative (metrics_run c (metrics_new w) us)) = (\<Sum>(b, t)\<leftarrow>us. bh_gas_used (blk_header b))"
proof (induction us rule: rev_induct)
  case Nil
  then show ?case by (simp add: metrics_run_def metrics_new_def chain_metrics_new_def last_n_def)
next
  case (snoc u us)
  then show ?case
    by (cases u) (simp add: metrics_run_snoc metrics_update_def Let_def push_last_n)
qed

lemma metrics_run_averages:
  assumes "us \<noteq> []" and "0 < w"
  shows "mc_recent_blocks (metrics_run c (metrics_new w) us) \<noteq> [] \<and>
    cm_gas_stats (mc_cumulative (metrics_run c (metrics_new w) us)) =
      gas_stats_of (mc_recent_blocks (metrics_run c (metrics_new w) us)) \<and>
    cm_block_size_stats (mc_cumulative (metrics_run c (metrics_new w) us)) =
      size_stats_of (map bs_size (mc_recent_blocks (metrics_run c (metrics_new w) us)))"
proof -
  let ?mc = "metrics_run c (metrics_new w) us"
  have "length (mc_recent_blocks ?mc) \<noteq> 0" using assms metrics_run_fields [of c w us] by simp
  then have ne: "mc_recent_blocks ?mc \<noteq> []" by simp
  obtain us' b t where us: "us = us' @ [(b, t)]" using assms(1) by (metis prod.collapse rev_exhaust)
  have "\<exists>mc. ?mc = calculate_averages mc" unfolding us metrics_run_snoc metrics_update_def Let_def by blast
  then obtain mc where mc: "?mc = calculate_averages mc" by blast
  with ne have "mc_recent_blocks mc \<noteq> []" by simp
  then show ?thesis using ne unfolding mc by (simp add: calculate_averages_def Let_def)
qed

section \<open>Bounds of the averages\<close>

lemma sum_list_between:
  fixes xs :: "nat list"
  assumes "xs \<noteq> []"
  shows "Min (set xs) * length xs \<le> sum_list xs" and "sum_list xs \<le> Max (set xs) * length xs"
proof -
  have "sum_list (map (\<lambda>_. Min (set xs)) xs) \<le> sum_list (map (\<lambda>x. x) xs)" by (rule sum_list_mono) simp
  then show "Min (set xs) * length xs \<le> sum_list xs" by (simp add: sum_list_triv mult.commute)
  have "sum_list (map (\<lambda>x. x) xs) \<le> sum_list (map (\<lambda>_. Max (set xs)) xs)" by (rule sum_list_mono) simp
  then show "sum_list xs \<le> Max (set xs) * length xs" by (simp add: sum_list_triv mult.commute)
qed

lemma size_avg_between:
  assumes "sizes \<noteq> []" and "sum_list sizes \<le> 2 ^ 53" and "length sizes \<le> 2 ^ 53"
  shows "\<exists>r. ss_avg (size_stats_of sizes) = Fin r \<and> of_nat (ss_min (size_stats_of sizes)) \<le> r \<and>
    r \<le> of_nat (ss_max (size_stats_of sizes))"
proof -
  let ?n = "length sizes" and ?s = "sum_list sizes"
  have n: "(0 :: rat) < of_nat ?n" using assms(1) by simp
  have one: "1 \<le> ?n" using assms(1) by (cases sizes) auto
  have in_sum: "x \<le> 2 ^ 53" if "x \<in> set sizes" for x
    using member_le_sum_list [OF that] assms(2) by simp
  have lo: "Min (set sizes) \<le> 2 ^ 53" and hi: "Max (set sizes) \<le> 2 ^ 53" using assms(1) by (intro in_sum Min_in Max_in; simp)+
  note b = sum_list_between [OF assms(1)]
  have "(of_nat (Min (set sizes) * ?n) :: rat) \<le> of_nat ?s" by (rule of_nat_mono [OF b(1)])
  then have q1: "of_nat (Min (set sizes)) \<le> (of_nat ?s / of_nat ?n :: rat)" using n by (simp add: pos_le_divide_eq)
  have "(of_nat ?s :: rat) \<le> of_nat (Max (set sizes) * ?n)" by (rule of_nat_mono [OF b(2)])
  then have q2: "of_nat ?s / of_nat ?n \<le> (of_nat (Max (set sizes)) :: rat)" using n by (simp add: pos_divide_le_eq)
  have "ss_avg (size_stats_of sizes) = fl (of_nat ?s / of_nat ?n)"
    using n by (simp add: size_stats_of_def fl_of_nat [OF assms(2)] fl_of_nat [OF assms(3)])
  then show ?thesis using fl_between_nat [OF lo hi q1 q2] by (simp add: size_stats_of_def)
qed

lemma sum_list_words:
  "sum_list (map (\<lambda>x. unat (f x)) xs) < 2 ^ 64 \<Longrightarrow>
     unat (sum_list (map f xs) :: u64) = sum_list (map (\<lambda>x. unat (f x)) xs)"
  by (induction xs) (simp_all add: unat_add_u64)

lemma f64_percentage:
  assumes "a \<le> b" and "0 < b" and "b < 2 ^ 64"
  shows "\<exists>r. f64_mul (f64_div (f64_of_nat a) (f64_of_nat b)) (Fin 100) = Fin r \<and> 0 \<le> r \<and> r \<le> 100"
proof -
  obtain x where x: "f64_of_nat a = Fin x" "0 \<le> x" by (rule f64_of_nat_finite [OF le_less_trans [OF assms(1,3)]])
  obtain y where y: "f64_of_nat b = Fin y" "0 \<le> y" "b = 0 \<longleftrightarrow> y = 0" by (rule f64_of_nat_finite [OF assms(3)])
  have yp: "0 < y" using y assms(2) by auto
  have "x \<le> y" using f64_of_nat_mono [OF assms(1) x(1) y(1)] .
  then have q: "0 \<le> x / y" "x / y \<le> 1" using x(2) yp by (simp_all add: pos_divide_le_eq)
  obtain z where z: "fl (x / y) = Fin z" "0 \<le> z" "z \<le> 1" using fl_between [OF representable_0 representable_1 q] by blast
  have "representable 100" by (rule representable_numeral) simp
  then obtain r where "fl (z * 100) = Fin r" "0 \<le> r" "r \<le> 100" using fl_between [of 0 100 "z * 100"] z by auto
  then show ?thesis using x y z yp by simp
qed

lemma utilization_percentage:
  assumes "\<forall>s \<in> set recent. bs_gas_used s \<le> bs_gas_limit s"
    and "sum_list (map (\<lambda>s. unat (bs_gas_limit s)) recent) < 2 ^ 64"
  shows "\<exists>r. gs_utilization_rate (gas_stats_of recent) = Fin r \<and> 0 \<le> r \<and> r \<le> 100"
proof -
  let ?u = "sum_list (map (\<lambda>s. unat (bs_gas_used s)) recent)" and ?l = "sum_list (map (\<lambda>s. unat (bs_gas_limit s)) recent)"
  have le: "?u \<le> ?l" using assms(1) by (intro sum_list_mono) (simp add: word_le_nat_alt)
  have u: "unat (sum_list (map bs_gas_used recent)) = ?u"
    using le assms(2) by (intro sum_list_words) (rule le_less_trans)
  have l: "unat (sum_list (map bs_gas_limit recent)) = ?l" by (rule sum_list_words [OF assms(2)])
  show ?thesis
  proof (cases "0 < sum_list (map bs_gas_limit recent)")
    case True
    then have "0 < ?l" by (simp add: word_less_nat_alt l)
    then show ?thesis using True f64_percentage [OF le _ assms(2)] by (simp add: gas_stats_of_def Let_def u l)
  qed (simp add: gas_stats_of_def Let_def)
qed

section \<open>Properties\<close>

text \<open>
  After any sequence of blocks the calculator holds the statistics of exactly the last
  \<open>window_size\<close> of them, in order, and its transaction and gas totals are those of the whole sequence
  (modulo \<open>2^64\<close>); the height is that of the last block.\<close>

lemma metrics_window_correct:
  "mc_recent_blocks (metrics_run c (metrics_new w) us) = last_n w (map (\<lambda>(b, t). block_stats_from_block c b t) us) \<and>
   cm_total_transactions (mc_cumulative (metrics_run c (metrics_new w) us)) =
     of_nat (\<Sum>(b, t)\<leftarrow>us. length (blk_transactions b)) \<and>
   cm_total_gas_used (mc_cumulative (metrics_run c (metrics_new w) us)) = (\<Sum>(b, t)\<leftarrow>us. bh_gas_used (blk_header b)) \<and>
   cm_height (mc_cumulative (metrics_run c (metrics_new w) (us @ [(b, t)]))) = block_number b"
proof -
  have "(\<Sum>(b, t)\<leftarrow>us. (of_nat (length (blk_transactions b)) :: u64)) = of_nat (\<Sum>(b, t)\<leftarrow>us. length (blk_transactions b))"
    by (induction us) auto
  then show ?thesis
    using metrics_run_fields [of c w us] by (simp add: metrics_run_snoc metrics_update_def Let_def)
qed

text \<open>
  When no block exceeds its gas limit, and the gas limits and the sizes of the blocks do not add up
  past \<open>2^64\<close> and \<open>2^53\<close>, the reported utilisation is a percentage between 0 and 100 and the
  average block size lies between the smallest and the largest, in spite of the rounding.\<close>

lemma metrics_averages_bounded:
  assumes "us \<noteq> []" and "0 < w" and "\<forall>(b, t) \<in> set us. bh_gas_used (blk_header b) \<le> bh_gas_limit (blk_header b)"
    and "(\<Sum>(b, t)\<leftarrow>us. unat (bh_gas_limit (blk_header b))) < 2 ^ 64"
    and "(\<Sum>(b, t)\<leftarrow>us. block_size c b) \<le> 2 ^ 53" and "length us \<le> 2 ^ 53"
  shows "\<exists>u a. gs_utilization_rate (cm_gas_stats (mc_cumulative (metrics_run c (metrics_new w) us))) = Fin u \<and>
      0 \<le> u \<and> u \<le> 100 \<and>
    ss_avg (cm_block_size_stats (mc_cumulative (metrics_run c (metrics_new w) us))) = Fin a \<and>
      of_nat (ss_min (cm_block_size_stats (mc_cumulative (metrics_run c (metrics_new w) us)))) \<le> a \<and>
      a \<le> of_nat (ss_max (cm_block_size_stats (mc_cumulative (metrics_run c (metrics_new w) us))))"
proof -
  let ?mc = "metrics_run c (metrics_new w) us" and ?f = "\<lambda>(b, t). block_stats_from_block c b t"
  let ?r = "mc_recent_blocks ?mc"
  have r: "?r = last_n w (map ?f us)" using metrics_run_fields by blast
  have av: "?r \<noteq> []" "cm_gas_stats (mc_cumulative ?mc) = gas_stats_of ?r"
    "cm_block_size_stats (mc_cumulative ?mc) = size_stats_of (map bs_size ?r)"
    using metrics_run_averages [OF assms(1,2), of c] by blast+
  have suffix: "sum_list (map g (last_n w xs)) \<le> sum_list (map g xs)" for g :: "BlockStats \<Rightarrow> nat" and xs
    unfolding last_n_def by (metis append_take_drop_id le_add2 map_append sum_list.append)
  have sums: "sum_list (map (\<lambda>s. unat (bs_gas_limit s)) (map ?f us)) = (\<Sum>(b, t)\<leftarrow>us. unat (bh_gas_limit (blk_header b)))"
    "sum_list (map bs_size (map ?f us)) = (\<Sum>(b, t)\<leftarrow>us. block_size c b)"
    by (simp_all add: comp_def split_def block_stats_from_block_def Let_def)
  have "\<forall>s \<in> set (map ?f us). bs_gas_used s \<le> bs_gas_limit s"
    using assms(3) by (auto simp: block_stats_from_block_def Let_def)
  then have "\<forall>s \<in> set ?r. bs_gas_used s \<le> bs_gas_limit s" unfolding r last_n_def by (meson in_set_dropD)
  moreover have "sum_list (map (\<lambda>s. unat (bs_gas_limit s)) ?r) < 2 ^ 64"
    unfolding r by (rule le_less_trans [OF suffix]) (simp only: sums assms(4))
  ultimately have u: "\<exists>u. gs_utilization_rate (gas_stats_of ?r) = Fin u \<and> 0 \<le> u \<and> u \<le> 100"
    by (rule utilization_percentage)
  have "sum_list (map bs_size ?r) \<le> 2 ^ 53" unfolding r by (rule le_trans [OF suffix]) (simp only: sums assms(5))
  moreover have "length (map bs_size ?r) \<le> 2 ^ 53" using assms(6) by (simp add: r)
  ultimately show ?thesis using u size_avg_between [of "map bs_size ?r"] av by auto
qed

lemma metrics_averages_bounded_witness:
  "\<exists>u a. gs_utilization_rate (cm_gas_stats (mc_cumulative
        (metrics_run \<lparr>serialize = \<lambda>b. Inr [1, 2, 3], deserialize = \<lambda>bs. Inl ''none''\<rparr> (metrics_new 10)
          [(block_genesis hash_zero, 0)]))) = Fin u \<and> 0 \<le> u \<and> u \<le> 100 \<and>
     ss_avg (cm_block_size_stats (mc_cumulative
        (metrics_run \<lparr>serialize = \<lambda>b. Inr [1, 2, 3], deserialize = \<lambda>bs. Inl ''none''\<rparr> (metrics_new 10)
          [(block_genesis hash_zero, 0)]))) = Fin a \<and> of_nat 3 \<le> a \<and> a \<le> of_nat 3"
proof -
  let ?c = "\<lparr>serialize = \<lambda>b. Inr [1, 2, 3], deserialize = \<lambda>bs. Inl ''none''\<rparr> :: Block codec"
  have sizes: "cm_block_size_stats (mc_cumulative (metrics_run ?c (metrics_new 10) [(block_genesis hash_zero, 0)])) =
      size_stats_of [3]"
    by (simp add: metrics_run_def metrics_update_def calculate_averages_def push_block_stats_def metrics_new_def
        block_stats_from_block_def block_size_def Let_def numeral_3_eq_3)
  show ?thesis
    using metrics_averages_bounded [of "[(block_genesis hash_zero, 0)]" 10 ?c]
    unfolding sizes by (simp add: block_size_def block_genesis_def size_stats_of_def)
qed

text \<open>
  A window whose average block time is not positive (every block of it carries its predecessor's
  timestamp, or follows a block of timestamp 0) keeps the transaction rate of an earlier window.\<close>

lemma metrics_stale_tps:
  assumes "mc_recent_blocks mc \<noteq> []"
    and "\<not> f64_lt (Fin 0) (cm_avg_block_time (mc_cumulative (calculate_averages mc)))"
  shows "cm_tps (mc_cumulative (calculate_averages mc)) = cm_tps (mc_cumulative mc)"
  using assms by (simp add: calculate_averages_def Let_def)

end
