(* ===== verification/Validator.thy ===== *)
theory Validator
  imports Block F64
begin

text \<open>
  \<open>validator.rs\<close> and the error type of the \<open>consensus\<close> crate: validators, their uptime and
  efficiency scores, and the validator set. The clock (\<open>now\<close>), the iteration order of the
  hash map (\<open>iter\<close>) and the \<open>hex\<close> crate's encoder are arguments.
\<close>

section \<open>Errors and their messages\<close>

datatype ConsensusError =
    ValidatorError string
  | InsufficientStake u64 u64
  | ValidatorNotFound string
  | ValidatorAlreadyExists string
  | InvalidValidatorStatus string
  | BlockProductionError string
  | ValidationError string
  | SlashingError string
  | SelectionError string
  | BlockchainErr BlockchainError
  | CryptoErr CryptoError

definition address_to_hex :: "(bytes \<Rightarrow> string) \<Rightarrow> address \<Rightarrow> string" where
  "address_to_hex hex a = ''0x'' @ hex (address_as_bytes a)"

definition hash_to_hex :: "(bytes \<Rightarrow> string) \<Rightarrow> hash \<Rightarrow> string" where
  "hash_to_hex hex h = hex (hash_as_bytes h)"

text \<open>The \<open>Display\<close> implementations the \<open>#[error(...)]\<close> attributes generate.\<close>

fun crypto_error_to_string :: "CryptoError \<Rightarrow> string" where
  "crypto_error_to_string CryptoError.InvalidSignature = ''Invalid signature''"
| "crypto_error_to_string InvalidPublicKey = ''Invalid public key''"
| "crypto_error_to_string InvalidSecretKey = ''Invalid secret key''"
| "crypto_error_to_string InvalidHash = ''Invalid hash''"
| "crypto_error_to_string (CryptoError.SerializationError s) = ''Serialization error: '' @ s"
| "crypto_error_to_string (DeserializationError s) = ''Deserialization error: '' @ s"
| "crypto_error_to_string RngError = ''Random number generation failed''"
| "crypto_error_to_string (MerkleError s) = ''Merkle tree error: '' @ s"

fun blockchain_error_to_string :: "(bytes \<Rightarrow> string) \<Rightarrow> BlockchainError \<Rightarrow> string" where
  "blockchain_error_to_string hex (InvalidBlock s) = ''Invalid block: '' @ s"
| "blockchain_error_to_string hex (InvalidTransaction s) = ''Invalid transaction: '' @ s"
| "blockchain_error_to_string hex (InvalidChain s) = ''Invalid chain: '' @ s"
| "blockchain_error_to_string hex (StateError s) = ''State error: '' @ s"
| "blockchain_error_to_string hex InsufficientBalance = ''Insufficient balance''"
| "blockchain_error_to_string hex NonceMismatch = ''Nonce mismatch''"
| "blockchain_error_to_string hex (BlockNotFound h) = ''Block not found: '' @ hash_to_hex hex h"
| "blockchain_error_to_string hex (TransactionNotFound h) = ''Transaction not found: '' @ hash_to_hex hex h"
| "blockchain_error_to_string hex (BlockchainError.CryptoErr e) = ''Cryptographic error: '' @ crypto_error_to_string e"
| "blockchain_error_to_string hex (BlockchainError.SerializationError s) = ''Serialization error: '' @ s"
| "blockchain_error_to_string hex (DuplicateTransaction h) = ''Duplicate transaction: '' @ hash_to_hex hex h"
| "blockchain_error_to_string hex PoolFull = ''Transaction pool full''"
| "blockchain_error_to_string hex (ForkDetected s) = ''Fork detected: '' @ s"
| "blockchain_error_to_string hex (ReorgTooDeep depth) = ''Reorg too deep: '' @ show_u64 depth @ '' blocks''"
| "blockchain_error_to_string hex GasLimitExceeded = ''Gas limit exceeded''"
| "blockchain_error_to_string hex BlockchainError.InvalidSignature = ''Invalid signature''"

section \<open>Validators\<close>

text \<open>\<open>to_u64_digits().first().copied().unwrap_or(0)\<close>: the low 64 bits of a big integer.\<close>

definition low_u64 :: "nat \<Rightarrow> u64" where
  "low_u64 n = of_nat n"

datatype ValidatorStatus = Active | Inactive | Unbonding Timestamp | Slashed | Exited

record ValidatorInfo =
  vi_address :: address
  vi_stake :: StakeAmount
  vi_liquidity_deployed :: Amount
  vi_utility_score :: UtilityScore
  vi_status :: ValidatorStatus
  vi_uptime :: u16
  vi_blocks_produced :: u64
  vi_blocks_missed :: u64
  vi_registered_at :: Timestamp
  vi_last_active :: Timestamp
  vi_commission_rate :: u16

definition validator_new :: "Timestamp \<Rightarrow> address \<Rightarrow> StakeAmount \<Rightarrow> u16 \<Rightarrow> ValidatorInfo" where
  "validator_new now addr s commission =
     \<lparr>vi_address = addr, vi_stake = s, vi_liquidity_deployed = amount_zero,
      vi_utility_score = utility_score_zero, vi_status = Active, vi_uptime = 10000,
      vi_blocks_produced = 0, vi_blocks_missed = 0, vi_registered_at = now, vi_last_active = now,
      vi_commission_rate = min commission 10000\<rparr>"

definition is_active :: "ValidatorInfo \<Rightarrow> bool" where
  "is_active v \<longleftrightarrow> vi_status v = Active"

definition can_produce_blocks :: "ValidatorInfo \<Rightarrow> bool" where
  "can_produce_blocks v \<longleftrightarrow> is_active v \<and> \<not> amount_is_zero (vi_stake v)"

definition update_uptime :: "Timestamp \<Rightarrow> ValidatorInfo \<Rightarrow> bool \<Rightarrow> ValidatorInfo" where
  "update_uptime now v produced =
     (let v1 = (if produced then v\<lparr>vi_blocks_produced := vi_blocks_produced v + 1\<rparr>
                else v\<lparr>vi_blocks_missed := vi_blocks_missed v + 1\<rparr>);
          total = vi_blocks_produced v1 + vi_blocks_missed v1;
          v2 = (if 0 < total
                then v1\<lparr>vi_uptime := f64_to_u16 (f64_mul (f64_div (f64_of_u64 (vi_blocks_produced v1)) (f64_of_u64 total)) (fl 10000))\<rparr>
                else v1)
      in v2\<lparr>vi_last_active := now\<rparr>)"

definition reliability_factor :: "ValidatorInfo \<Rightarrow> f64" where
  "reliability_factor v = f64_div (f64_of_nat (unat (vi_uptime v))) (fl 10000)"

text \<open>The minimum the source computes first is dropped, so the ratio is not capped.\<close>

definition efficiency_score :: "ValidatorInfo \<Rightarrow> f64" where
  "efficiency_score v =
     (if amount_is_zero (vi_stake v) then Fin 0
      else f64_div (f64_of_u64 (low_u64 (vi_liquidity_deployed v * 10000 div vi_stake v))) (fl 10000))"

definition add_stake :: "ValidatorInfo \<Rightarrow> StakeAmount \<Rightarrow> (ValidatorInfo, ConsensusError) outcome" where
  "add_stake v amount =
     and_then (ok_or (ValidatorError ''Stake overflow'') (amount_checked_add (vi_stake v) amount))
       (\<lambda>s. Ok (v\<lparr>vi_stake := s\<rparr>))"

definition remove_stake ::
    "Timestamp \<Rightarrow> ValidatorInfo \<Rightarrow> StakeAmount \<Rightarrow> u64 \<Rightarrow> (ValidatorInfo, ConsensusError) outcome" where
  "remove_stake now v amount unbonding_period =
     (if vi_stake v < amount then Err (InsufficientStake (low_u64 amount) (low_u64 (vi_stake v)))
      else and_then (ok_or (ValidatorError ''Stake underflow'') (amount_checked_sub (vi_stake v) amount))
             (\<lambda>s. Ok (v\<lparr>vi_stake := s, vi_status := Unbonding (now + unbonding_period)\<rparr>)))"

definition validator_deploy_liquidity ::
    "ValidatorInfo \<Rightarrow> Amount \<Rightarrow> (ValidatorInfo, ConsensusError) outcome" where
  "validator_deploy_liquidity v amount =
     (if vi_stake v < amount then Err (ValidatorError ''Cannot deploy more liquidity than staked'')
      else and_then (ok_or (ValidatorError ''Liquidity overflow'')
                       (amount_checked_add (vi_liquidity_deployed v) amount))
             (\<lambda>l. Ok (v\<lparr>vi_liquidity_deployed := l\<rparr>)))"

definition validator_withdraw_liquidity ::
    "ValidatorInfo \<Rightarrow> Amount \<Rightarrow> (ValidatorInfo, ConsensusError) outcome" where
  "validator_withdraw_liquidity v amount =
     and_then (ok_or (ValidatorError ''Insufficient liquidity deployed'')
                 (amount_checked_sub (vi_liquidity_deployed v) amount))
       (\<lambda>l. Ok (v\<lparr>vi_liquidity_deployed := l\<rparr>))"

section \<open>The validator set\<close>

record ValidatorSet =
  vset_validators :: "(address, ValidatorInfo) fmap"
  vset_min_stake :: StakeAmount
  vset_unbonding_period :: u64

type_synonym validator_iter = "(address, ValidatorInfo) fmap \<Rightarrow> (address \<times> ValidatorInfo) list"

definition validator_set_new :: "StakeAmount \<Rightarrow> u64 \<Rightarrow> ValidatorSet" where
  "validator_set_new min_stake unbonding_period =
     \<lparr>vset_validators = fmempty, vset_min_stake = min_stake, vset_unbonding_period = unbonding_period\<rparr>"

definition validator_get :: "ValidatorSet \<Rightarrow> address \<Rightarrow> ValidatorInfo option" where
  "validator_get vs addr = fmlookup (vset_validators vs) addr"

text \<open>Writing through the reference \<open>get_mut\<close> returns.\<close>

definition validator_put :: "address \<Rightarrow> ValidatorInfo \<Rightarrow> ValidatorSet \<Rightarrow> ValidatorSet" where
  "validator_put addr v vs = vs\<lparr>vset_validators := fmupd addr v (vset_validators vs)\<rparr>"

definition register ::
    "(bytes \<Rightarrow> string) \<Rightarrow> Timestamp \<Rightarrow> ValidatorSet \<Rightarrow> address \<Rightarrow> StakeAmount \<Rightarrow> u16
      \<Rightarrow> (ValidatorSet, ConsensusError) outcome" where
  "register hex now vs addr s commission =
     (if fmlookup (vset_validators vs) addr \<noteq> None then Err (ValidatorAlreadyExists (address_to_hex hex addr))
      else if s < vset_min_stake vs then Err (InsufficientStake (low_u64 (vset_min_stake vs)) (low_u64 s))
      else Ok (vs\<lparr>vset_validators := fmupd addr (validator_new now addr s commission) (vset_validators vs)\<rparr>))"

definition unregister ::
    "(bytes \<Rightarrow> string) \<Rightarrow> ValidatorSet \<Rightarrow> address \<Rightarrow> (ValidatorInfo \<times> ValidatorSet, ConsensusError) outcome" where
  "unregister hex vs addr =
     (case fmlookup (vset_validators vs) addr of
        None \<Rightarrow> Err (ValidatorNotFound (address_to_hex hex addr))
      | Some v \<Rightarrow> Ok (v\<lparr>vi_status := Exited\<rparr>, vs\<lparr>vset_validators := fmdrop addr (vset_validators vs)\<rparr>))"

definition active_validators :: "validator_iter \<Rightarrow> ValidatorSet \<Rightarrow> ValidatorInfo list" where
  "active_validators iter vs = filter is_active (map snd (iter (vset_validators vs)))"

definition all_validators :: "validator_iter \<Rightarrow> ValidatorSet \<Rightarrow> ValidatorInfo list" where
  "all_validators iter vs = map snd (iter (vset_validators vs))"

definition total_stake :: "validator_iter \<Rightarrow> ValidatorSet \<Rightarrow> StakeAmount" where
  "total_stake iter vs =
     foldl (\<lambda>acc v. case amount_checked_add acc (vi_stake v) of Some x \<Rightarrow> x | None \<Rightarrow> acc) amount_zero
       (map snd (iter (vset_validators vs)))"

definition total_liquidity_deployed :: "validator_iter \<Rightarrow> ValidatorSet \<Rightarrow> Amount" where
  "total_liquidity_deployed iter vs =
     foldl (\<lambda>acc v. case amount_checked_add acc (vi_liquidity_deployed v) of Some x \<Rightarrow> x | None \<Rightarrow> acc) amount_zero
       (map snd (iter (vset_validators vs)))"

definition update_status ::
    "(bytes \<Rightarrow> string) \<Rightarrow> ValidatorSet \<Rightarrow> address \<Rightarrow> ValidatorStatus \<Rightarrow> (ValidatorSet, ConsensusError) outcome" where
  "update_status hex vs addr status =
     (case fmlookup (vset_validators vs) addr of
        None \<Rightarrow> Err (ValidatorNotFound (address_to_hex hex addr))
      | Some v \<Rightarrow> Ok (validator_put addr (v\<lparr>vi_status := status\<rparr>) vs))"

fun unbonding_over :: "Timestamp \<Rightarrow> ValidatorStatus \<Rightarrow> bool" where
  "unbonding_over current_time (Unbonding unlock_time) \<longleftrightarrow> unlock_time \<le> current_time"
| "unbonding_over current_time _ \<longleftrightarrow> False"

definition process_unbonding :: "validator_iter \<Rightarrow> ValidatorSet \<Rightarrow> Timestamp \<Rightarrow> address list \<times> ValidatorSet" where
  "process_unbonding iter vs current_time =
     (map fst (filter (\<lambda>(addr, v). unbonding_over current_time (vi_status v)) (iter (vset_validators vs))),
      vs\<lparr>vset_validators := fmmap (\<lambda>v. if unbonding_over current_time (vi_status v) then v\<lparr>vi_status := Inactive\<rparr> else v)
                              (vset_validators vs)\<rparr>)"

definition validator_count :: "ValidatorSet \<Rightarrow> nat" where
  "validator_count vs = fcard (fmdom (vset_validators vs))"

definition active_count :: "validator_iter \<Rightarrow> ValidatorSet \<Rightarrow> nat" where
  "active_count iter vs = length (active_validators iter vs)"

record Validator =
  val_info :: ValidatorInfo
  val_keypair :: KeyPair

definition validator_sign :: "crypto_lib \<Rightarrow> Validator \<Rightarrow> bytes \<Rightarrow> (Signature, ConsensusError) outcome" where
  "validator_sign L v data = map_err CryptoErr (keypair_sign L (val_keypair v) data)"

section \<open>Uptime\<close>

lemma f64_quotient_le_1:
  assumes "p \<le> t" and "0 < t" and "t < 2 ^ 64"
  obtains r where "f64_div (f64_of_nat p) (f64_of_nat t) = Fin r" and "0 \<le> r" and "r \<le> 1"
    and "p = 0 \<Longrightarrow> r = 0" and "p = t \<Longrightarrow> r = 1"
proof -
  obtain a where a: "f64_of_nat p = Fin a" "0 \<le> a" "p = 0 \<longleftrightarrow> a = 0"
    using assms by (elim f64_of_nat_finite [of p, rotated]) simp
  obtain b where b: "f64_of_nat t = Fin b" "0 \<le> b" "t = 0 \<longleftrightarrow> b = 0"
    using assms by (elim f64_of_nat_finite [of t, rotated]) simp
  have "a \<le> b" using f64_of_nat_mono [OF assms(1) a(1) b(1)] .
  moreover have "0 < b" using b assms(2) by auto
  ultimately have "0 \<le> a / b" "a / b \<le> 1" using a(2) by simp_all
  then obtain r where r: "fl (a / b) = Fin r" "0 \<le> r" "r \<le> 1"
    using fl_between [of 0 1 "a / b"] by auto
  have e: "f64_div (f64_of_nat p) (f64_of_nat t) = Fin r" using \<open>0 < b\<close> a(1) b(1) r(1) by simp
  moreover have "r = 0" if "p = 0" using that a(3) r(1) by simp
  moreover have "r = 1" if "p = t" using that a(1) b(1) \<open>0 < b\<close> r(1) by simp
  ultimately show thesis using that r by blast
qed

lemma f64_percent_bound:
  assumes "0 \<le> r" and "r \<le> 1"
  obtains x where "f64_mul (Fin r) (fl 10000) = Fin x" and "0 \<le> x" and "x \<le> 10000"
    and "r = 0 \<Longrightarrow> x = 0" and "r = 1 \<Longrightarrow> x = 10000"
proof -
  have t: "representable 10000" by (rule representable_numeral) simp
  then have f: "fl 10000 = Fin 10000" by (rule fl_exact)
  obtain x where x: "fl (r * 10000) = Fin x" "0 \<le> x" "x \<le> 10000"
    using fl_between [of 0 10000 "r * 10000"] t assms by auto
  moreover have "x = 0" if "r = 0" using that x(1) by simp
  moreover have "x = 10000" if "r = 1" using that x(1) f by simp
  ultimately show thesis using that f by simp
qed

lemma update_uptime_counters:
  "vi_blocks_produced (update_uptime now v produced) = vi_blocks_produced v + (if produced then 1 else 0)"
  "vi_blocks_missed (update_uptime now v produced) = vi_blocks_missed v + (if produced then 0 else 1)"
  by (simp_all add: update_uptime_def Let_def)

lemma update_uptime_keeps [simp]:
  "vi_address (update_uptime now v produced) = vi_address v"
  "vi_stake (update_uptime now v produced) = vi_stake v"
  "vi_liquidity_deployed (update_uptime now v produced) = vi_liquidity_deployed v"
  "vi_status (update_uptime now v produced) = vi_status v"
  "vi_commission_rate (update_uptime now v produced) = vi_commission_rate v"
  by (simp_all add: update_uptime_def Let_def)

lemma update_uptime_value:
  fixes v now produced
  defines "w \<equiv> update_uptime now v produced"
  assumes nowrap: "0 < unat (vi_blocks_produced w) + unat (vi_blocks_missed w)"
    "unat (vi_blocks_produced w) + unat (vi_blocks_missed w) < 2 ^ 64"
  shows "vi_uptime w \<le> 10000"
    and "vi_blocks_missed w = 0 \<Longrightarrow> vi_uptime w = 10000"
    and "vi_blocks_produced w = 0 \<Longrightarrow> vi_uptime w = 0"
proof -
  let ?p = "unat (vi_blocks_produced w)" and ?m = "unat (vi_blocks_missed w)"
  let ?t = "vi_blocks_produced w + vi_blocks_missed w"
  have t: "unat ?t = ?p + ?m" using nowrap(2) by (rule unat_add_u64)
  have pos: "0 < ?t" using nowrap(1) t by (simp add: word_less_nat_alt)
  have u: "vi_uptime w = f64_to_u16 (f64_mul (f64_div (f64_of_nat ?p) (f64_of_nat (?p + ?m))) (fl 10000))"
    unfolding t [symmetric] using pos
    by (auto simp: w_def update_uptime_def Let_def split: if_splits)
  obtain r where r: "f64_div (f64_of_nat ?p) (f64_of_nat (?p + ?m)) = Fin r" "0 \<le> r" "r \<le> 1"
      "?p = 0 \<Longrightarrow> r = 0" "?p = ?p + ?m \<Longrightarrow> r = 1"
    using f64_quotient_le_1 [of ?p "?p + ?m"] nowrap by auto
  obtain x where x: "f64_mul (Fin r) (fl 10000) = Fin x" "0 \<le> x" "x \<le> 10000"
      "r = 0 \<Longrightarrow> x = 0" "r = 1 \<Longrightarrow> x = 10000"
    using f64_percent_bound [OF r(2,3)] by blast
  have ux: "unat (vi_uptime w) = f64_to_nat (2 ^ 16 - 1) (Fin x)"
    unfolding u r(1) x(1) by (rule unat_f64_to_u16)
  then have "unat (vi_uptime w) \<le> 10000" using x(3) f64_to_nat_le [of x 10000] by simp
  then show "vi_uptime w \<le> 10000" by (simp add: word_le_nat_alt)
  show "vi_uptime w = 10000" if "vi_blocks_missed w = 0"
    using that r(5) x(5) ux by (simp add: word_unat_eq_iff)
  show "vi_uptime w = 0" if "vi_blocks_produced w = 0"
    using that r(4) x(4) ux by (simp add: word_unat_eq_iff)
qed

section \<open>The set\<close>

definition validator_ok :: "address \<Rightarrow> ValidatorInfo \<Rightarrow> bool" where
  "validator_ok addr v \<longleftrightarrow> vi_address v = addr \<and> vi_commission_rate v \<le> 10000"

definition vset_ok :: "ValidatorSet \<Rightarrow> bool" where
  "vset_ok vs \<longleftrightarrow> (\<forall>addr v. fmlookup (vset_validators vs) addr = Some v \<longrightarrow> validator_ok addr v)"

lemma vset_okD: "vset_ok vs \<Longrightarrow> fmlookup (vset_validators vs) addr = Some v \<Longrightarrow> validator_ok addr v"
  by (simp add: vset_ok_def)

lemma vset_ok_put: "vset_ok vs \<Longrightarrow> validator_ok addr v \<Longrightarrow> vset_ok (validator_put addr v vs)"
  by (auto simp: vset_ok_def validator_put_def)

lemma register_Ok_iff:
  "register hex now vs addr s c = Ok vs' \<longleftrightarrow>
     fmlookup (vset_validators vs) addr = None \<and> vset_min_stake vs \<le> s \<and>
     vs' = validator_put addr (validator_new now addr s c) vs"
  by (auto simp: register_def validator_put_def)

lemma validator_new_ok [simp]: "validator_ok addr (validator_new now addr s c)"
  by (simp add: validator_ok_def validator_new_def)

lemma register_vset_ok: "register hex now vs addr s c = Ok vs' \<Longrightarrow> vset_ok vs \<Longrightarrow> vset_ok vs'"
  by (auto simp: register_Ok_iff intro: vset_ok_put)

lemma unregister_vset_ok: "unregister hex vs addr = Ok (v, vs') \<Longrightarrow> vset_ok vs \<Longrightarrow> vset_ok vs'"
  by (auto simp: unregister_def vset_ok_def split: option.splits if_splits)

lemma update_status_vset_ok: "update_status hex vs addr status = Ok vs' \<Longrightarrow> vset_ok vs \<Longrightarrow> vset_ok vs'"
  by (auto simp: update_status_def validator_ok_def dest: vset_okD split: option.splits intro!: vset_ok_put)

lemma process_unbonding_vset_ok: "vset_ok vs \<Longrightarrow> vset_ok (snd (process_unbonding iter vs now))"
  by (auto simp: process_unbonding_def vset_ok_def validator_ok_def)

text \<open>The folds over the hash map do not depend on its order.\<close>

lemma foldl_amounts: "foldl (\<lambda>acc v. case amount_checked_add acc (f v) of Some x \<Rightarrow> x | None \<Rightarrow> acc) a xs
    = a + sum_list (map f xs)"
  by (induction xs arbitrary: a) (simp_all add: amount_checked_add_def)

lemma enumerates_sum:
  assumes "enumerates es m"
  shows "sum_list (map f (map snd es)) = fm_sum f m"
proof -
  have d: "distinct (map fst es)" using assms by (simp add: enumerates_def)
  have "sum_list (map (\<lambda>k. f (the (fmlookup m k))) (map fst es)) = (\<Sum>k\<in>set (map fst es). f (the (fmlookup m k)))"
    using d by (rule sum_list_distinct_conv_sum_set)
  also have "\<dots> = fm_sum f m" unfolding fm_sum_def enumerates_keys [OF assms] ..
  also have "map (\<lambda>k. f (the (fmlookup m k))) (map fst es) = map f (map snd es)"
  proof -
    have "fmlookup m (fst e) = Some (snd e)" if "e \<in> set es" for e
      using that enumerates_lookup [OF assms, of "fst e" "snd e"] by simp
    then show ?thesis by simp
  qed
  finally show ?thesis .
qed

lemma total_stake_sum:
  "enumerates (iter (vset_validators vs)) (vset_validators vs) \<Longrightarrow> total_stake iter vs = fm_sum vi_stake (vset_validators vs)"
  unfolding total_stake_def foldl_amounts using enumerates_sum by (simp add: amount_zero_def)

lemma total_liquidity_sum:
  "enumerates (iter (vset_validators vs)) (vset_validators vs) \<Longrightarrow>
     total_liquidity_deployed iter vs = fm_sum vi_liquidity_deployed (vset_validators vs)"
  unfolding total_liquidity_deployed_def foldl_amounts using enumerates_sum by (simp add: amount_zero_def)

lemma fm_sum_put_new: "fmlookup m k = None \<Longrightarrow> fm_sum f (fmupd k v m) = fm_sum f m + f v"
proof -
  assume n: "fmlookup m k = None"
  then have "k \<notin> fset (fmdom m)" by (simp add: fmdom_notI)
  then have "fm_sum f (fmupd k v m) = f v + (\<Sum>j\<in>fset (fmdom m). f (the (fmlookup (fmupd k v m) j)))"
    by (simp add: fm_sum_def)
  also have "(\<Sum>j\<in>fset (fmdom m). f (the (fmlookup (fmupd k v m) j))) = fm_sum f m"
    unfolding fm_sum_def using \<open>k \<notin> fset (fmdom m)\<close> by (intro sum.cong) auto
  finally show ?thesis by simp
qed

lemma fm_sum_put_old:
  assumes "fmlookup m k = Some u"
  shows "fm_sum f (fmupd k v m) + f u = fm_sum f m + f v"
proof -
  have k: "k \<notin> fset (fmdom (fmdrop k m))" by simp
  have "fmlookup (fmdrop k m) k = None" by simp
  note n = fm_sum_put_new [OF this, of f]
  have "fmupd k u (fmdrop k m) = m" and "fmupd k v (fmdrop k m) = fmupd k v m"
    using assms by (auto intro!: fmap_ext)
  with n [of u] n [of v] show ?thesis by simp
qed

lemma fm_sum_member: "fmlookup m k = Some u \<Longrightarrow> f u \<le> fm_sum f m"
proof -
  assume u: "fmlookup m k = Some u"
  then have "fmupd k u (fmdrop k m) = m" by (auto intro!: fmap_ext)
  then show ?thesis using fm_sum_put_new [of "fmdrop k m" k f u] by simp
qed

end
