(* ===== verification/Database.thy ===== *)
theory Database
  imports Metrics Validator
begin

text \<open>
  \<open>db.rs\<close> and \<open>lib.rs\<close> of the \<open>storage\<close> crate: the persistent store of blocks, transactions, states,
  contracts, validators, pending transactions, fork events and metrics. A \<open>Database\<close> is a handle on
  RocksDB and a configuration; every operation takes the environment \<open>E\<close> of third-party code (RocksDB,
  bincode at each stored type, the digest). Operations that write return the database with their
  result; a call of \<open>current_timestamp\<close> is the argument \<open>now\<close>.
\<close>

section \<open>Types\<close>

datatype StorageError =
    DatabaseError string
  | SerializationError string
  | NotFound string
  | Corruption string
  | IoError string
  | CacheError string

datatype PruningMode = Archive | Pruned BlockNumber

datatype ColumnFamily =
    CfBlocks | CfBlockHashes | CfBlockNumbers | CfTransactions | CfReceipts | CfState
  | CfContractCode | CfContractStorage | CfValidators | CfMeta | CfPendingTransactions
  | CfForkHistory | CfChainMetrics | CfTransactionByAddress | CfMetricsByTime

fun cf_as_str :: "ColumnFamily \<Rightarrow> string" where
  "cf_as_str CfBlocks = ''blocks''"
| "cf_as_str CfBlockHashes = ''block_hashes''"
| "cf_as_str CfBlockNumbers = ''block_numbers''"
| "cf_as_str CfTransactions = ''transactions''"
| "cf_as_str CfReceipts = ''receipts''"
| "cf_as_str CfState = ''state''"
| "cf_as_str CfContractCode = ''contract_code''"
| "cf_as_str CfContractStorage = ''contract_storage''"
| "cf_as_str CfValidators = ''validators''"
| "cf_as_str CfMeta = ''meta''"
| "cf_as_str CfPendingTransactions = ''pending_transactions''"
| "cf_as_str CfForkHistory = ''fork_history''"
| "cf_as_str CfChainMetrics = ''chain_metrics''"
| "cf_as_str CfTransactionByAddress = ''transaction_by_address''"
| "cf_as_str CfMetricsByTime = ''metrics_by_time''"

definition cf_all :: "ColumnFamily list" where
  "cf_all = [CfBlocks, CfBlockHashes, CfBlockNumbers, CfTransactions, CfReceipts, CfState, CfContractCode,
     CfContractStorage, CfValidators, CfMeta, CfPendingTransactions, CfForkHistory, CfChainMetrics,
     CfTransactionByAddress, CfMetricsByTime]"

record DatabaseConfig =
  dc_path :: string
  dc_create_if_missing :: bool
  dc_max_open_files :: int
  dc_cache_size :: nat
  dc_write_buffer_size :: nat
  dc_max_write_buffer_number :: int
  dc_pruning_mode :: PruningMode
  dc_enable_mempool_persistence :: bool
  dc_fork_history_retention_days :: u64
  dc_metrics_snapshot_interval :: u64
  dc_enable_metrics_compression :: bool

definition database_config_default :: DatabaseConfig where
  "database_config_default =
     \<lparr>dc_path = ''./data'', dc_create_if_missing = True, dc_max_open_files = 1024,
      dc_cache_size = 512 * 1024 * 1024, dc_write_buffer_size = 64 * 1024 * 1024,
      dc_max_write_buffer_number = 3, dc_pruning_mode = Pruned 10000, dc_enable_mempool_persistence = True,
      dc_fork_history_retention_days = 30, dc_metrics_snapshot_interval = 1,
      dc_enable_metrics_compression = True\<rparr>"

record PendingTransactionMetadata =
  pm_transaction :: Transaction
  pm_gas_price :: u64
  pm_added_timestamp :: u64

record StoredForkEvent =
  fe_fork_point :: BlockNumber
  fe_fork_hash :: hash
  fe_main_tip :: hash
  fe_fork_tip :: hash
  fe_main_length :: u64
  fe_fork_length :: u64
  fe_resolution_outcome :: string
  fe_timestamp :: u64
  fe_reorg_depth :: u64

record MetricsSnapshot =
  sn_block_number :: BlockNumber
  sn_timestamp :: u64
  sn_metrics :: ChainMetrics

record ForkStatistics =
  fs_total_forks :: u64
  fs_avg_reorg_depth :: f64
  fs_max_reorg_depth :: u64
  fs_total_reorg_depth :: u64
  fs_resolved_to_main :: u64
  fs_resolved_to_fork :: u64
  fs_pending_resolution :: u64

definition fork_statistics_default :: ForkStatistics where
  "fork_statistics_default =
     \<lparr>fs_total_forks = 0, fs_avg_reorg_depth = Fin 0, fs_max_reorg_depth = 0, fs_total_reorg_depth = 0,
      fs_resolved_to_main = 0, fs_resolved_to_fork = 0, fs_pending_resolution = 0\<rparr>"

record DatabaseStats =
  ds_latest_block :: BlockNumber
  ds_total_blocks :: u64
  ds_total_transactions :: u64
  ds_total_size_bytes :: u64
  ds_pruning_mode :: PruningMode

text \<open>The third-party code below the store.\<close>

record 'db storage_env =
  se_rocks :: "'db rocksdb"
  se_lib :: crypto_lib
  se_wire :: wire
  se_block :: "Block codec"
  se_tx :: "Transaction codec"
  se_receipt :: "TransactionReceipt codec"
  se_state :: "WorldState codec"
  se_validators :: "ValidatorSet codec"
  se_pending :: "PendingTransactionMetadata codec"
  se_fork :: "StoredForkEvent codec"
  se_snapshot :: "MetricsSnapshot codec"

record 'db Database =
  db_handle :: 'db
  db_config :: DatabaseConfig

section \<open>Calls of the store\<close>

text \<open>\<open>map_err(|e| StorageError::DatabaseError(e.to_string()))\<close> and its bincode counterpart.\<close>

fun db_result :: "string + 'a \<Rightarrow> ('a, StorageError) outcome" where
  "db_result (Inl e) = Err (DatabaseError e)"
| "db_result (Inr v) = Ok v"

fun ser_result :: "string + 'a \<Rightarrow> ('a, StorageError) outcome" where
  "ser_result (Inl e) = Err (SerializationError e)"
| "ser_result (Inr v) = Ok v"

text \<open>The \<open>?\<close> of an operation that passes the database on.\<close>

fun db_try :: "('a, 'e) outcome \<Rightarrow> 's \<Rightarrow> ('a \<Rightarrow> ('b, 'e) outcome \<times> 's) \<Rightarrow> ('b, 'e) outcome \<times> 's" where
  "db_try (Ok v) s f = f v"
| "db_try (Err e) s f = (Err e, s)"
| "db_try Panic s f = (Panic, s)"

definition db_cf :: "'db storage_env \<Rightarrow> 'db Database \<Rightarrow> ColumnFamily \<Rightarrow> (string, StorageError) outcome" where
  "db_cf E d c =
     (if cf_handle (se_rocks E) (db_handle d) (cf_as_str c) then Ok (cf_as_str c)
      else Err (DatabaseError (cf_as_str c @ '' CF not found'')))"

text \<open>\<open>get_cf\<close>, \<open>put_cf\<close>, \<open>delete_cf\<close>, \<open>write\<close> and a loop over an iterator, each with its \<open>map_err\<close>.\<close>

definition db_get :: "'db storage_env \<Rightarrow> 'db Database \<Rightarrow> string \<Rightarrow> bytes \<Rightarrow> (bytes option, StorageError) outcome" where
  "db_get E d cf k = db_result (get_cf (se_rocks E) (db_handle d) cf k)"

definition db_commit ::
    "'db Database \<Rightarrow> (string + unit) \<times> 'db \<Rightarrow> (unit, StorageError) outcome \<times> 'db Database" where
  "db_commit d res = (db_result (fst res), d\<lparr>db_handle := snd res\<rparr>)"

definition db_put ::
    "'db storage_env \<Rightarrow> 'db Database \<Rightarrow> string \<Rightarrow> bytes \<Rightarrow> bytes \<Rightarrow> (unit, StorageError) outcome \<times> 'db Database" where
  "db_put E d cf k v = db_commit d (put_cf (se_rocks E) (db_handle d) cf k v)"

definition db_write ::
    "'db storage_env \<Rightarrow> 'db Database \<Rightarrow> batch_op list \<Rightarrow> (unit, StorageError) outcome \<times> 'db Database" where
  "db_write E d ops = db_commit d (write_batch (se_rocks E) (db_handle d) ops)"

fun db_items :: "(string + 'a) list \<Rightarrow> ('a list, StorageError) outcome" where
  "db_items [] = Ok []"
| "db_items (item # items) =
     and_then (db_result item) (\<lambda>e. and_then (db_items items) (\<lambda>es. Ok (e # es)))"

definition db_iter ::
    "'db storage_env \<Rightarrow> 'db Database \<Rightarrow> string \<Rightarrow> iterator_mode \<Rightarrow> ((bytes \<times> bytes) list, StorageError) outcome" where
  "db_iter E d cf mode = db_items (iterator_cf (se_rocks E) (db_handle d) cf mode)"

definition database_open ::
    "'db storage_env \<Rightarrow> int \<Rightarrow> DatabaseConfig \<Rightarrow> ('db Database, StorageError) outcome" where
  "database_open E num_cpus config =
     (let opts = \<lparr>oo_create_if_missing = dc_create_if_missing config, oo_create_missing_column_families = True,
            oo_max_open_files = dc_max_open_files config, oo_write_buffer_size = dc_write_buffer_size config,
            oo_max_write_buffer_number = dc_max_write_buffer_number config, oo_increase_parallelism = num_cpus\<rparr>;
          cfs = map cf_as_str cf_all
      in and_then (db_result (open_cf (se_rocks E) opts (dc_path config) cfs)) (\<lambda>db.
           Ok \<lparr>db_handle = db, db_config = config\<rparr>))"

text \<open>Reading a serialised value under a key.\<close>

definition db_get_decoded ::
    "'db storage_env \<Rightarrow> 'a codec \<Rightarrow> 'db Database \<Rightarrow> ColumnFamily \<Rightarrow> bytes \<Rightarrow> ('a option, StorageError) outcome" where
  "db_get_decoded E c d col k =
     and_then (db_cf E d col) (\<lambda>cf.
     and_then (db_get E d cf k) (\<lambda>found.
       case found of
         Some bytes \<Rightarrow> and_then (ser_result (deserialize c bytes)) (\<lambda>x. Ok (Some x))
       | None \<Rightarrow> Ok None))"

text \<open>\<open>u64::from_be_bytes(bytes.try_into()...)\<close>: eight bytes or a corruption.\<close>

definition db_number :: "bytes \<Rightarrow> (u64, StorageError) outcome" where
  "db_number bytes =
     (if length bytes = 8 then Ok (of_be_bytes bytes) else Err (Corruption ''Invalid block number''))"

section \<open>Transactions and blocks\<close>

definition db_tx_hash :: "'db storage_env \<Rightarrow> Transaction \<Rightarrow> hash" where
  "db_tx_hash E tx = transaction_hash (se_lib E) (enc_tx (se_wire E)) tx"

definition db_store_transaction ::
    "'db storage_env \<Rightarrow> 'db Database \<Rightarrow> Transaction \<Rightarrow> TransactionReceipt
      \<Rightarrow> (unit, StorageError) outcome \<times> 'db Database" where
  "db_store_transaction E d tx receipt =
     (let tx_hash = hash_as_bytes (db_tx_hash E tx) in
      db_try (ser_result (serialize (se_tx E) tx)) d (\<lambda>tx_bytes.
      db_try (ser_result (serialize (se_receipt E) receipt)) d (\<lambda>receipt_bytes.
      db_try (db_cf E d CfTransactions) d (\<lambda>cf_tx.
      db_try (db_cf E d CfReceipts) d (\<lambda>cf_receipts.
        db_write E d [PutCf cf_tx tx_hash tx_bytes, PutCf cf_receipts tx_hash receipt_bytes])))))"

definition block_receipt :: "'db storage_env \<Rightarrow> BlockNumber \<Rightarrow> Transaction \<Rightarrow> TransactionReceipt" where
  "block_receipt E number tx =
     \<lparr>rc_tx_hash = db_tx_hash E tx, rc_block_number = number, rc_from = tx_from tx, rc_to = recipient tx,
      rc_gas_used = 21000, rc_status = Success, rc_contract_address = None, rc_logs = []\<rparr>"

fun store_block_txs ::
    "'db storage_env \<Rightarrow> BlockNumber \<Rightarrow> 'db Database \<Rightarrow> Transaction list
      \<Rightarrow> (unit, StorageError) outcome \<times> 'db Database" where
  "store_block_txs E number d [] = (Ok (), d)"
| "store_block_txs E number d (tx # txs) =
     (case db_store_transaction E d tx (block_receipt E number tx) of
        (r, d1) \<Rightarrow> db_try r d1 (\<lambda>_. store_block_txs E number d1 txs))"

definition store_block ::
    "'db storage_env \<Rightarrow> 'db Database \<Rightarrow> Block \<Rightarrow> (unit, StorageError) outcome \<times> 'db Database" where
  "store_block E d block =
     (let h = hash_as_bytes (block_hash (se_lib E) (se_wire E) block); number = block_number block in
      db_try (ser_result (serialize (se_block E) block)) d (\<lambda>block_bytes.
      db_try (db_cf E d CfBlocks) d (\<lambda>cf_blocks.
      db_try (db_cf E d CfBlockHashes) d (\<lambda>cf_hashes.
      db_try (db_cf E d CfBlockNumbers) d (\<lambda>cf_numbers.
        case db_write E d [PutCf cf_blocks h block_bytes, PutCf cf_hashes (be_bytes 8 number) h,
                           PutCf cf_numbers h (be_bytes 8 number)] of
          (r, d1) \<Rightarrow> db_try r d1 (\<lambda>_. store_block_txs E number d1 (blk_transactions block)))))))"

definition db_get_block :: "'db storage_env \<Rightarrow> 'db Database \<Rightarrow> hash \<Rightarrow> (Block option, StorageError) outcome" where
  "db_get_block E d h = db_get_decoded E (se_block E) d CfBlocks (hash_as_bytes h)"

definition db_get_block_by_number ::
    "'db storage_env \<Rightarrow> 'db Database \<Rightarrow> BlockNumber \<Rightarrow> (Block option, StorageError) outcome" where
  "db_get_block_by_number E d number =
     and_then (db_cf E d CfBlockHashes) (\<lambda>cf_hashes.
     and_then (db_get E d cf_hashes (be_bytes 8 number)) (\<lambda>found.
       case found of
         None \<Rightarrow> Ok None
       | Some stored \<Rightarrow>
           and_then (map_err (\<lambda>_. DatabaseError ''Invalid hash'') (hash_from_slice stored)) (\<lambda>h.
             db_get_block E d h)))"

definition db_get_block_number ::
    "'db storage_env \<Rightarrow> 'db Database \<Rightarrow> hash \<Rightarrow> (BlockNumber option, StorageError) outcome" where
  "db_get_block_number E d h =
     and_then (db_cf E d CfBlockNumbers) (\<lambda>cf.
     and_then (db_get E d cf (hash_as_bytes h)) (\<lambda>found.
       case found of
         Some bytes \<Rightarrow> and_then (db_number bytes) (\<lambda>n. Ok (Some n))
       | None \<Rightarrow> Ok None))"

definition db_get_transaction ::
    "'db storage_env \<Rightarrow> 'db Database \<Rightarrow> hash \<Rightarrow> (Transaction option, StorageError) outcome" where
  "db_get_transaction E d h = db_get_decoded E (se_tx E) d CfTransactions (hash_as_bytes h)"

definition db_get_receipt ::
    "'db storage_env \<Rightarrow> 'db Database \<Rightarrow> hash \<Rightarrow> (TransactionReceipt option, StorageError) outcome" where
  "db_get_receipt E d h = db_get_decoded E (se_receipt E) d CfReceipts (hash_as_bytes h)"

section \<open>States, contracts, validators\<close>

definition store_state ::
    "'db storage_env \<Rightarrow> 'db Database \<Rightarrow> BlockNumber \<Rightarrow> WorldState \<Rightarrow> (unit, StorageError) outcome \<times> 'db Database" where
  "store_state E d number state =
     db_try (ser_result (serialize (se_state E) state)) d (\<lambda>state_bytes.
     db_try (db_cf E d CfState) d (\<lambda>cf. db_put E d cf (be_bytes 8 number) state_bytes))"

definition get_state ::
    "'db storage_env \<Rightarrow> 'db Database \<Rightarrow> BlockNumber \<Rightarrow> (WorldState option, StorageError) outcome" where
  "get_state E d number = db_get_decoded E (se_state E) d CfState (be_bytes 8 number)"

definition store_contract_code ::
    "'db storage_env \<Rightarrow> 'db Database \<Rightarrow> address \<Rightarrow> bytes \<Rightarrow> (unit, StorageError) outcome \<times> 'db Database" where
  "store_contract_code E d address code =
     db_try (db_cf E d CfContractCode) d (\<lambda>cf. db_put E d cf (address_as_bytes address) code)"

definition get_contract_code ::
    "'db storage_env \<Rightarrow> 'db Database \<Rightarrow> address \<Rightarrow> (bytes option, StorageError) outcome" where
  "get_contract_code E d address =
     and_then (db_cf E d CfContractCode) (\<lambda>cf. db_get E d cf (address_as_bytes address))"

text \<open>A \<open>[u8; 32]\<close> slot or value is a 256-bit word.\<close>

definition contract_key :: "address \<Rightarrow> 256 word \<Rightarrow> bytes" where
  "contract_key address slot = address_as_bytes address @ be_bytes 32 slot"

definition store_contract_storage ::
    "'db storage_env \<Rightarrow> 'db Database \<Rightarrow> address \<Rightarrow> 256 word \<Rightarrow> 256 word
      \<Rightarrow> (unit, StorageError) outcome \<times> 'db Database" where
  "store_contract_storage E d address slot value =
     db_try (db_cf E d CfContractStorage) d (\<lambda>cf. db_put E d cf (contract_key address slot) (be_bytes 32 value))"

definition get_contract_storage ::
    "'db storage_env \<Rightarrow> 'db Database \<Rightarrow> address \<Rightarrow> 256 word \<Rightarrow> (256 word, StorageError) outcome" where
  "get_contract_storage E d address slot =
     and_then (db_cf E d CfContractStorage) (\<lambda>cf.
     and_then (db_get E d cf (contract_key address slot)) (\<lambda>found.
       case found of
         Some bytes \<Rightarrow> if length bytes = 32 then Ok (of_be_bytes bytes) else Panic
       | None \<Rightarrow> Ok 0))"

text \<open>\<open>as_bytes\<close> of a \<open>str\<close>; a Rust string is the string of its UTF-8 bytes.\<close>

definition utf8 :: "string \<Rightarrow> bytes" where
  "utf8 s = map (\<lambda>c. of_nat (of_char c)) s"

definition store_validator_set ::
    "'db storage_env \<Rightarrow> 'db Database \<Rightarrow> ValidatorSet \<Rightarrow> (unit, StorageError) outcome \<times> 'db Database" where
  "store_validator_set E d validators =
     db_try (ser_result (serialize (se_validators E) validators)) d (\<lambda>bytes.
     db_try (db_cf E d CfValidators) d (\<lambda>cf. db_put E d cf (utf8 ''current'') bytes))"

definition get_validator_set ::
    "'db storage_env \<Rightarrow> 'db Database \<Rightarrow> (ValidatorSet option, StorageError) outcome" where
  "get_validator_set E d = db_get_decoded E (se_validators E) d CfValidators (utf8 ''current'')"

section \<open>Pending transactions\<close>

definition address_key :: "address \<Rightarrow> hash \<Rightarrow> bytes" where
  "address_key sender h = address_as_bytes sender @ hash_as_bytes h"

fun pending_batch ::
    "'db storage_env \<Rightarrow> string \<Rightarrow> string \<Rightarrow> u64 \<Rightarrow> (Transaction \<times> u64) list \<Rightarrow> (batch_op list, StorageError) outcome" where
  "pending_batch E cf cf_addr now [] = Ok []"
| "pending_batch E cf cf_addr now ((tx, gas_price) # txs) =
     (let h = db_tx_hash E tx;
          metadata = \<lparr>pm_transaction = tx, pm_gas_price = gas_price, pm_added_timestamp = now\<rparr>
      in and_then (ser_result (serialize (se_pending E) metadata)) (\<lambda>metadata_bytes.
         and_then (pending_batch E cf cf_addr now txs) (\<lambda>ops.
           Ok (PutCf cf (hash_as_bytes h) metadata_bytes # PutCf cf_addr (address_key (tx_from tx) h) [] # ops))))"

definition store_pending_transactions ::
    "'db storage_env \<Rightarrow> u64 \<Rightarrow> 'db Database \<Rightarrow> (Transaction \<times> u64) list \<Rightarrow> (u64, StorageError) outcome \<times> 'db Database" where
  "store_pending_transactions E now d txs =
     (if \<not> dc_enable_mempool_persistence (db_config d) then (Ok 0, d)
      else db_try (db_cf E d CfPendingTransactions) d (\<lambda>cf.
           db_try (db_cf E d CfTransactionByAddress) d (\<lambda>cf_addr.
           db_try (pending_batch E cf cf_addr now txs) d (\<lambda>batch.
             case db_write E d batch of (r, d1) \<Rightarrow> db_try r d1 (\<lambda>_. (Ok (of_nat (length txs)), d1))))))"

fun fresh_pending ::
    "'db storage_env \<Rightarrow> u64 \<Rightarrow> u64 \<Rightarrow> (bytes \<times> bytes) list \<Rightarrow> (Transaction \<times> u64) list" where
  "fresh_pending E now max_age [] = []"
| "fresh_pending E now max_age ((key, value) # items) =
     (case deserialize (se_pending E) value of
        Inr metadata \<Rightarrow>
          (if saturating_sub now (pm_added_timestamp metadata) < max_age
           then (pm_transaction metadata, pm_gas_price metadata) # fresh_pending E now max_age items
           else fresh_pending E now max_age items)
      | Inl e \<Rightarrow> fresh_pending E now max_age items)"

text \<open>\<open>sort_by(|a, b| b.1.cmp(&a.1))\<close>: stable, by falling gas price.\<close>

definition sort_by_gas_price :: "(Transaction \<times> u64) list \<Rightarrow> (Transaction \<times> u64) list" where
  "sort_by_gas_price txs = sort_key (\<lambda>p. - int (unat (snd p))) txs"

definition load_pending_transactions ::
    "'db storage_env \<Rightarrow> u64 \<Rightarrow> 'db Database \<Rightarrow> (Transaction list, StorageError) outcome" where
  "load_pending_transactions E now d =
     (if \<not> dc_enable_mempool_persistence (db_config d) then Ok []
      else and_then (db_cf E d CfPendingTransactions) (\<lambda>cf.
           let max_age_secs = dc_fork_history_retention_days (db_config d) * 86400 in
           and_then (db_iter E d cf IterStart) (\<lambda>items.
             Ok (map fst (sort_by_gas_price (fresh_pending E now max_age_secs items))))))"

definition clear_pending_transactions ::
    "'db storage_env \<Rightarrow> 'db Database \<Rightarrow> (u64, StorageError) outcome \<times> 'db Database" where
  "clear_pending_transactions E d =
     (if \<not> dc_enable_mempool_persistence (db_config d) then (Ok 0, d)
      else db_try (db_cf E d CfPendingTransactions) d (\<lambda>cf.
           db_try (db_iter E d cf IterStart) d (\<lambda>items.
             case db_write E d (map (\<lambda>(key, _). DeleteCf cf key) items) of
               (r, d1) \<Rightarrow> db_try r d1 (\<lambda>_. (Ok (of_nat (length items)), d1)))))"

section \<open>Fork history\<close>

definition fork_key :: "u64 \<Rightarrow> BlockNumber \<Rightarrow> bytes" where
  "fork_key timestamp fork_point = be_bytes 8 timestamp @ be_bytes 8 fork_point"

definition store_fork_event ::
    "'db storage_env \<Rightarrow> u64 \<Rightarrow> 'db Database \<Rightarrow> BlockNumber \<Rightarrow> hash \<Rightarrow> hash \<Rightarrow> hash \<Rightarrow> u64 \<Rightarrow> u64 \<Rightarrow> string \<Rightarrow> u64
      \<Rightarrow> (unit, StorageError) outcome \<times> 'db Database" where
  "store_fork_event E now d fork_point fork_hash main_tip fork_tip main_length fork_length resolution reorg_depth =
     db_try (db_cf E d CfForkHistory) d (\<lambda>cf.
       let event = \<lparr>fe_fork_point = fork_point, fe_fork_hash = fork_hash, fe_main_tip = main_tip,
             fe_fork_tip = fork_tip, fe_main_length = main_length, fe_fork_length = fork_length,
             fe_resolution_outcome = resolution, fe_timestamp = now, fe_reorg_depth = reorg_depth\<rparr>
       in db_try (ser_result (serialize (se_fork E) event)) d (\<lambda>event_bytes.
            db_put E d cf (fork_key now fork_point) event_bytes))"

text \<open>The items of an iterator that decode; the others are logged and skipped.\<close>

definition decoded :: "'a codec \<Rightarrow> (bytes \<times> bytes) list \<Rightarrow> (bytes \<times> 'a) list" where
  "decoded c items =
     List.map_filter (\<lambda>(key, value). case deserialize c value of Inr x \<Rightarrow> Some (key, x) | Inl e \<Rightarrow> None) items"

definition get_fork_history ::
    "'db storage_env \<Rightarrow> u64 \<Rightarrow> 'db Database \<Rightarrow> u64 option \<Rightarrow> (StoredForkEvent list, StorageError) outcome" where
  "get_fork_history E now d hours_back =
     and_then (db_cf E d CfForkHistory) (\<lambda>cf.
       let cutoff = (case hours_back of Some hours \<Rightarrow> saturating_sub now (hours * 3600) | None \<Rightarrow> 0) in
       and_then (db_iter E d cf IterEnd) (\<lambda>items.
         Ok (filter (\<lambda>event. cutoff \<le> fe_timestamp event) (map snd (decoded (se_fork E) items)))))"

definition count_fork :: "ForkStatistics \<Rightarrow> StoredForkEvent \<Rightarrow> ForkStatistics" where
  "count_fork stats event =
     (let s1 = stats\<lparr>fs_total_forks := fs_total_forks stats + 1,
                     fs_total_reorg_depth := fs_total_reorg_depth stats + fe_reorg_depth event\<rparr>;
          s2 = (if fs_max_reorg_depth s1 < fe_reorg_depth event
                then s1\<lparr>fs_max_reorg_depth := fe_reorg_depth event\<rparr> else s1)
      in if fe_resolution_outcome event = ''main_chain'' then s2\<lparr>fs_resolved_to_main := fs_resolved_to_main s2 + 1\<rparr>
         else if fe_resolution_outcome event = ''fork_chain'' then s2\<lparr>fs_resolved_to_fork := fs_resolved_to_fork s2 + 1\<rparr>
         else s2\<lparr>fs_pending_resolution := fs_pending_resolution s2 + 1\<rparr>)"

definition get_fork_statistics ::
    "'db storage_env \<Rightarrow> 'db Database \<Rightarrow> (ForkStatistics, StorageError) outcome" where
  "get_fork_statistics E d =
     and_then (db_cf E d CfForkHistory) (\<lambda>cf.
     and_then (db_iter E d cf IterStart) (\<lambda>items.
       let stats = foldl count_fork fork_statistics_default (map snd (decoded (se_fork E) items)) in
       Ok (if 0 < fs_total_forks stats
           then stats\<lparr>fs_avg_reorg_depth :=
                  f64_div (f64_of_u64 (fs_total_reorg_depth stats)) (f64_of_u64 (fs_total_forks stats))\<rparr>
           else stats)))"

section \<open>Metadata\<close>

definition store_meta ::
    "'db storage_env \<Rightarrow> 'db Database \<Rightarrow> string \<Rightarrow> bytes \<Rightarrow> (unit, StorageError) outcome \<times> 'db Database" where
  "store_meta E d key value = db_try (db_cf E d CfMeta) d (\<lambda>cf. db_put E d cf (utf8 key) value)"

definition get_meta ::
    "'db storage_env \<Rightarrow> 'db Database \<Rightarrow> string \<Rightarrow> (bytes option, StorageError) outcome" where
  "get_meta E d key = and_then (db_cf E d CfMeta) (\<lambda>cf. db_get E d cf (utf8 key))"

definition get_latest_block_number ::
    "'db storage_env \<Rightarrow> 'db Database \<Rightarrow> (BlockNumber option, StorageError) outcome" where
  "get_latest_block_number E d =
     and_then (get_meta E d ''latest_block_number'') (\<lambda>found.
       case found of
         Some bytes \<Rightarrow> and_then (db_number bytes) (\<lambda>n. Ok (Some n))
       | None \<Rightarrow> Ok None)"

definition update_latest_block_number ::
    "'db storage_env \<Rightarrow> 'db Database \<Rightarrow> BlockNumber \<Rightarrow> (unit, StorageError) outcome \<times> 'db Database" where
  "update_latest_block_number E d number = store_meta E d ''latest_block_number'' (be_bytes 8 number)"

section \<open>Metrics\<close>

definition time_key :: "u64 \<Rightarrow> BlockNumber \<Rightarrow> bytes" where
  "time_key timestamp number = be_bytes 8 (timestamp div 3600 * 3600) @ be_bytes 8 number"

definition store_chain_metrics ::
    "'db storage_env \<Rightarrow> u64 \<Rightarrow> 'db Database \<Rightarrow> BlockNumber \<Rightarrow> ChainMetrics
      \<Rightarrow> (unit, StorageError) outcome \<times> 'db Database" where
  "store_chain_metrics E now d number metrics =
     (if dc_metrics_snapshot_interval (db_config d) = 0 then (Ok (), d)
      else if number mod dc_metrics_snapshot_interval (db_config d) \<noteq> 0 then (Ok (), d)
      else db_try (db_cf E d CfChainMetrics) d (\<lambda>cf_metrics.
           db_try (db_cf E d CfMetricsByTime) d (\<lambda>cf_time.
             let snapshot = \<lparr>sn_block_number = number, sn_timestamp = now, sn_metrics = metrics\<rparr> in
             db_try (ser_result (serialize (se_snapshot E) snapshot)) d (\<lambda>snapshot_bytes.
               db_write E d [PutCf cf_metrics (be_bytes 8 number) snapshot_bytes,
                             PutCf cf_time (time_key now number) snapshot_bytes]))))"

fun metrics_range_loop ::
    "'db storage_env \<Rightarrow> 'db Database \<Rightarrow> string \<Rightarrow> u64 list \<Rightarrow> (MetricsSnapshot list, StorageError) outcome" where
  "metrics_range_loop E d cf [] = Ok []"
| "metrics_range_loop E d cf (number # numbers) =
     and_then (db_get E d cf (be_bytes 8 number)) (\<lambda>found.
     and_then (metrics_range_loop E d cf numbers) (\<lambda>rest.
       Ok (case found of
             Some bytes \<Rightarrow> (case deserialize (se_snapshot E) bytes of Inr s \<Rightarrow> s # rest | Inl e \<Rightarrow> rest)
           | None \<Rightarrow> rest)))"

definition get_metrics_range ::
    "'db storage_env \<Rightarrow> 'db Database \<Rightarrow> BlockNumber \<Rightarrow> BlockNumber \<Rightarrow> (MetricsSnapshot list, StorageError) outcome" where
  "get_metrics_range E d start_block end_block =
     and_then (db_cf E d CfChainMetrics) (\<lambda>cf.
       metrics_range_loop E d cf (map of_nat [unat start_block ..< Suc (unat end_block)]))"

fun first_snapshot ::
    "'db storage_env \<Rightarrow> 'db Database \<Rightarrow> string \<Rightarrow> u64 list \<Rightarrow> (MetricsSnapshot option, StorageError) outcome" where
  "first_snapshot E d cf [] = Ok None"
| "first_snapshot E d cf (number # numbers) =
     and_then (db_get E d cf (be_bytes 8 number)) (\<lambda>found.
       case found of
         Some bytes \<Rightarrow> (case deserialize (se_snapshot E) bytes of
                          Inr s \<Rightarrow> Ok (Some s) | Inl e \<Rightarrow> first_snapshot E d cf numbers)
       | None \<Rightarrow> first_snapshot E d cf numbers)"

fun first_decoded :: "'a codec \<Rightarrow> (string + bytes \<times> bytes) list \<Rightarrow> ('a option, StorageError) outcome" where
  "first_decoded c [] = Ok None"
| "first_decoded c (item # items) =
     and_then (db_result item) (\<lambda>(k, v).
       case deserialize c v of Inr x \<Rightarrow> Ok (Some x) | Inl e \<Rightarrow> first_decoded c items)"

definition get_latest_metrics ::
    "'db storage_env \<Rightarrow> 'db Database \<Rightarrow> (MetricsSnapshot option, StorageError) outcome" where
  "get_latest_metrics E d =
     and_then (db_cf E d CfChainMetrics) (\<lambda>cf.
     and_then (get_latest_block_number E d) (\<lambda>latest.
     and_then (case latest of
                 Some latest_block \<Rightarrow> first_snapshot E d cf (map of_nat (rev [0 ..< Suc (unat latest_block)]))
               | None \<Rightarrow> Ok None) (\<lambda>found.
       case found of
         Some s \<Rightarrow> Ok (Some s)
       | None \<Rightarrow> first_decoded (se_snapshot E) (iterator_cf (se_rocks E) (db_handle d) cf IterEnd))))"

section \<open>The address index\<close>

definition is_prefix :: "bytes \<Rightarrow> bytes \<Rightarrow> bool" where
  "is_prefix p k \<longleftrightarrow> take (length p) k = p"

fun by_address_loop ::
    "'db storage_env \<Rightarrow> 'db Database \<Rightarrow> bytes \<Rightarrow> (string + bytes \<times> bytes) list \<Rightarrow> (Transaction list, StorageError) outcome" where
  "by_address_loop E d addr [] = Ok []"
| "by_address_loop E d addr (item # items) =
     and_then (db_result item) (\<lambda>(k, v).
       if \<not> is_prefix addr k then Ok []
       else if length addr + 32 \<le> length k
       then (case hash_from_slice (take 32 (drop (length addr) k)) of
               Ok tx_hash \<Rightarrow>
                 and_then (db_get_transaction E d tx_hash) (\<lambda>found.
                 and_then (by_address_loop E d addr items) (\<lambda>rest.
                   Ok (case found of Some tx \<Rightarrow> tx # rest | None \<Rightarrow> rest)))
             | _ \<Rightarrow> by_address_loop E d addr items)
       else by_address_loop E d addr items)"

definition get_transactions_by_address ::
    "'db storage_env \<Rightarrow> 'db Database \<Rightarrow> address \<Rightarrow> (Transaction list, StorageError) outcome" where
  "get_transactions_by_address E d address =
     and_then (db_cf E d CfTransactionByAddress) (\<lambda>cf_addr.
       by_address_loop E d (address_as_bytes address)
         (iterator_cf (se_rocks E) (db_handle d) cf_addr (IterFrom (address_as_bytes address))))"

section \<open>Pruning and statistics\<close>

definition prune_old_metrics ::
    "'db storage_env \<Rightarrow> u64 \<Rightarrow> 'db Database \<Rightarrow> u64 \<Rightarrow> (u64, StorageError) outcome \<times> 'db Database" where
  "prune_old_metrics E now d retention_days =
     db_try (db_cf E d CfChainMetrics) d (\<lambda>cf.
       let cutoff = saturating_sub now (retention_days * 86400) in
       db_try (db_iter E d cf IterStart) d (\<lambda>items.
         let old = filter (\<lambda>s. sn_timestamp s < cutoff) (map snd (decoded (se_snapshot E) items));
             batch = map (\<lambda>s. DeleteCf cf (be_bytes 8 (sn_block_number s))) old;
             cnt = of_nat (length old)
         in if 0 < length old
            then (case db_write E d batch of (r, d1) \<Rightarrow> db_try r d1 (\<lambda>_. (Ok cnt, d1)))
            else (Ok cnt, d)))"

definition compact_fork_history ::
    "'db storage_env \<Rightarrow> u64 \<Rightarrow> 'db Database \<Rightarrow> u64 \<Rightarrow> u64 \<Rightarrow> (u64, StorageError) outcome \<times> 'db Database" where
  "compact_fork_history E now d reorg_depth_threshold recent_days =
     db_try (db_cf E d CfForkHistory) d (\<lambda>cf.
       let recent_cutoff = saturating_sub now (recent_days * 86400) in
       db_try (db_iter E d cf IterStart) d (\<lambda>items.
         let to_delete = map fst (filter (\<lambda>(key, event). fe_timestamp event < recent_cutoff \<and>
                           fe_reorg_depth event \<le> reorg_depth_threshold) (decoded (se_fork E) items));
             batch = map (DeleteCf cf) to_delete;
             cnt = of_nat (length to_delete)
         in if to_delete \<noteq> []
            then (case db_write E d batch of (r, d1) \<Rightarrow> db_try r d1 (\<lambda>_. (Ok cnt, d1)))
            else (Ok cnt, d)))"

text \<open>The deletions of \<open>prune\<close> one by one; one that fails is not counted and does not stop the loop.\<close>

fun prune_loop :: "'db storage_env \<Rightarrow> string \<Rightarrow> u64 list \<Rightarrow> u64 \<Rightarrow> 'db Database \<Rightarrow> u64 \<times> 'db Database" where
  "prune_loop E cf [] cnt d = (cnt, d)"
| "prune_loop E cf (i # is) cnt d =
     (case delete_cf (se_rocks E) (db_handle d) cf (be_bytes 8 i) of
        (r, h) \<Rightarrow> prune_loop E cf is (if r = Inr () then cnt + 1 else cnt) (d\<lparr>db_handle := h\<rparr>))"

definition db_prune ::
    "'db storage_env \<Rightarrow> 'db Database \<Rightarrow> BlockNumber \<Rightarrow> (u64, StorageError) outcome \<times> 'db Database" where
  "db_prune E d current_block =
     (case dc_pruning_mode (db_config d) of
        Archive \<Rightarrow> (Ok 0, d)
      | Pruned keep_blocks \<Rightarrow>
          let keep_from = saturating_sub current_block keep_blocks in
          db_try (db_cf E d CfState) d (\<lambda>cf_state.
            case prune_loop E cf_state (map of_nat [0 ..< unat keep_from]) 0 d of (cnt, d1) \<Rightarrow> (Ok cnt, d1)))"

fun compact_loop :: "'db storage_env \<Rightarrow> ColumnFamily list \<Rightarrow> 'db Database \<Rightarrow> 'db Database" where
  "compact_loop E [] d = d"
| "compact_loop E (c # cs) d =
     compact_loop E cs
       (case db_cf E d c of
          Ok cf \<Rightarrow> d\<lparr>db_handle := compact_range_cf (se_rocks E) (db_handle d) cf\<rparr>
        | _ \<Rightarrow> d)"

definition db_compact :: "'db storage_env \<Rightarrow> 'db Database \<Rightarrow> (unit, StorageError) outcome \<times> 'db Database" where
  "db_compact E d = (Ok (), compact_loop E cf_all d)"

text \<open>\<open>std::fs::metadata\<close> of the database path is the argument \<open>file_len\<close>.\<close>

definition db_stats ::
    "'db storage_env \<Rightarrow> (string \<Rightarrow> u64 option) \<Rightarrow> 'db Database \<Rightarrow> (DatabaseStats, StorageError) outcome" where
  "db_stats E file_len d =
     and_then (get_latest_block_number E d) (\<lambda>latest.
       let latest_block = (case latest of Some n \<Rightarrow> n | None \<Rightarrow> 0) in
       and_then (db_cf E d CfTransactions) (\<lambda>cf_tx.
         let tx_count = length (iterator_cf (se_rocks E) (db_handle d) cf_tx IterStart);
             total_size = (case file_len (dc_path (db_config d)) of Some n \<Rightarrow> n | None \<Rightarrow> 0)
         in Ok \<lparr>ds_latest_block = latest_block, ds_total_blocks = latest_block + 1,
                ds_total_transactions = of_nat tx_count, ds_total_size_bytes = total_size,
                ds_pruning_mode = dc_pruning_mode (db_config d)\<rparr>))"

end
