(* ===== verification/Database_Properties.thy ===== *)
theory Database_Properties
  imports Database Interfaces
begin

text \<open>
  The contents of the persistent store: what every entry of every column family looks like in a
  reachable database, that the two block indexes agree with the blocks, what the queries return, and
  what pruning removes. The contents are read through the function \<open>V\<close> of \<open>rocksdb_ok\<close>.
\<close>

section \<open>Columns\<close>

type_synonym columns = "ColumnFamily \<Rightarrow> (bytes, bytes) fmap"

definition db_view :: "('db \<Rightarrow> contents) \<Rightarrow> 'db Database \<Rightarrow> columns" where
  "db_view V d = (\<lambda>c. V (db_handle d) (cf_as_str c))"

definition env_ok :: "'db storage_env \<Rightarrow> ('db \<Rightarrow> contents) \<Rightarrow> bool" where
  "env_ok E V \<longleftrightarrow> rocksdb_ok (se_rocks E) V \<and> codec_ok (se_block E) \<and> codec_ok (se_tx E) \<and>
     codec_ok (se_receipt E) \<and> codec_ok (se_state E) \<and> codec_ok (se_validators E) \<and>
     codec_ok (se_pending E) \<and> codec_ok (se_fork E) \<and> codec_ok (se_snapshot E)"

definition cfs_open :: "'db storage_env \<Rightarrow> 'db Database \<Rightarrow> bool" where
  "cfs_open E d \<longleftrightarrow> (\<forall>c. cf_handle (se_rocks E) (db_handle d) (cf_as_str c))"

lemma cf_as_str_inject [simp]: "cf_as_str a = cf_as_str b \<longleftrightarrow> a = b"
  by (cases a; cases b; simp)

lemma env_rocks: "env_ok E V \<Longrightarrow> rocksdb_ok (se_rocks E) V"
  by (simp add: env_ok_def)

lemma db_cf_open [simp]: "cfs_open E d \<Longrightarrow> db_cf E d c = Ok (cf_as_str c)"
  by (simp add: cfs_open_def db_cf_def)

text \<open>A change of the database by a list of operations on named columns.\<close>

fun column_op :: "columns \<Rightarrow> batch_op \<Rightarrow> columns" where
  "column_op M (PutCf cf k v) = (\<lambda>c. if cf_as_str c = cf then fmupd k v (M c) else M c)"
| "column_op M (DeleteCf cf k) = (\<lambda>c. if cf_as_str c = cf then fmdrop k (M c) else M c)"

lemma columns_apply:
  "(\<lambda>c. apply_batch ops m (cf_as_str c)) = foldl column_op (\<lambda>c. m (cf_as_str c)) ops"
proof (induction ops arbitrary: m)
  case (Cons op ops)
  have "(\<lambda>c. apply_op m op (cf_as_str c)) = column_op (\<lambda>c. m (cf_as_str c)) op"
    by (cases op) auto
  then show ?case by (simp add: Cons.IH)
qed simp

lemma column_put [simp]: "column_op M (PutCf (cf_as_str c) k v) = M(c := fmupd k v (M c))"
  by auto

lemma column_delete [simp]: "column_op M (DeleteCf (cf_as_str c) k) = M(c := fmdrop k (M c))"
  by auto

declare column_op.simps [simp del]

lemma column_deletes:
  "foldl column_op M (map (DeleteCf (cf_as_str c)) ks) = M(c := fmdrop_fset (fset_of_list ks) (M c))"
proof (induction ks arbitrary: M)
  case (Cons k ks)
  have "fmdrop_fset (fset_of_list ks) (fmdrop k (M c)) = fmdrop_fset (fset_of_list (k # ks)) (M c)"
    by (rule fmap_ext) auto
  then show ?case by (auto simp: Cons.IH)
qed simp

definition db_effect ::
    "'db storage_env \<Rightarrow> ('db \<Rightarrow> contents) \<Rightarrow> batch_op list \<Rightarrow> 'db Database \<Rightarrow> 'db Database \<Rightarrow> bool" where
  "db_effect E V ops d d' \<longleftrightarrow> db_view V d' = foldl column_op (db_view V d) ops \<and>
     db_config d' = db_config d \<and> (cfs_open E d \<longrightarrow> cfs_open E d')"

lemma db_effect_refl [simp]: "db_effect E V [] d d"
  by (simp add: db_effect_def)

lemma db_effect_trans: "db_effect E V ops d d' \<Longrightarrow> db_effect E V ops' d' d'' \<Longrightarrow> db_effect E V (ops @ ops') d d''"
  by (simp add: db_effect_def)

lemma db_commit_effect:
  assumes "writes V (se_rocks E) (db_handle d) ops res" and "db_commit d res = (r, d')"
  shows "(r = Ok () \<and> db_effect E V ops d d') \<or> (\<exists>e. r = Err e \<and> db_effect E V [] d d')"
proof -
  have d': "d' = d\<lparr>db_handle := snd res\<rparr>" and r: "r = db_result (fst res)" using assms(2) by (auto simp: db_commit_def)
  show ?thesis
  proof (cases "fst res")
    case (Inr u)
    then show ?thesis using assms(1)
      by (simp add: r d' writes_def db_effect_def db_view_def cfs_open_def columns_apply)
  next
    case (Inl e)
    then show ?thesis using assms(1)
      by (simp add: r d' writes_def db_effect_def db_view_def cfs_open_def)
  qed
qed

lemma db_write_effect:
  assumes "rocksdb_ok (se_rocks E) V" and "db_write E d ops = (r, d')"
  shows "(r = Ok () \<and> db_effect E V ops d d') \<or> (\<exists>e. r = Err e \<and> db_effect E V [] d d')"
  using assms(2) unfolding db_write_def by (rule db_commit_effect [OF rocksdb_write [OF assms(1)]])

lemma db_put_effect:
  assumes "rocksdb_ok (se_rocks E) V" and "db_put E d cf k v = (r, d')"
  shows "(r = Ok () \<and> db_effect E V [PutCf cf k v] d d') \<or> (\<exists>e. r = Err e \<and> db_effect E V [] d d')"
  using assms(2) unfolding db_put_def by (rule db_commit_effect [OF rocksdb_put [OF assms(1)]])

subsection \<open>Reads without faults\<close>

lemma db_get_healthy:
  "env_ok E V \<Longrightarrow> healthy (se_rocks E) (db_handle d) \<Longrightarrow>
     db_get E d (cf_as_str c) k = Ok (fmlookup (db_view V d c) k)"
  by (simp add: db_get_def db_view_def healthy_get [OF env_rocks])

lemma db_items_Inr [simp]: "db_items (map Inr es) = Ok es"
  by (induction es) auto

lemma db_iter_healthy:
  "env_ok E V \<Longrightarrow> healthy (se_rocks E) (db_handle d) \<Longrightarrow>
     db_iter E d (cf_as_str c) mode = Ok (iter_entries mode (db_view V d c))"
  by (simp add: db_iter_def db_view_def healthy_iter [OF env_rocks])

lemma db_items_Ok: "db_items xs = Ok es \<longleftrightarrow> xs = map Inr es"
proof (induction xs arbitrary: es)
  case (Cons x xs)
  then show ?case by (cases x; cases es) (auto simp: and_then_eq_Ok)
qed auto

lemma db_items_not_Panic: "db_items xs \<noteq> Panic"
proof (induction xs)
  case (Cons x xs)
  then show ?case by (cases x) (auto simp: and_then_eq_Panic)
qed simp

lemma db_iter_Ok:
  "env_ok E V \<Longrightarrow> db_iter E d (cf_as_str c) mode = Ok es \<Longrightarrow> es = iter_entries mode (db_view V d c)"
  unfolding db_iter_def db_items_Ok db_view_def by (rule rocksdb_iter [OF env_rocks])

lemma db_iter_cases:
  obtains es where "db_iter E d cf mode = Ok es" | e where "db_iter E d cf mode = Err e"
  using db_items_not_Panic [of "iterator_cf (se_rocks E) (db_handle d) cf mode"]
  by (cases "db_iter E d cf mode") (auto simp: db_iter_def)

lemma db_get_decoded_healthy:
  assumes "env_ok E V" and "healthy (se_rocks E) (db_handle d)" and "cfs_open E d"
  shows "db_get_decoded E c d col k =
    (case fmlookup (db_view V d col) k of
       None \<Rightarrow> Ok None
     | Some v \<Rightarrow> and_then (ser_result (deserialize c v)) (\<lambda>x. Ok (Some x)))"
  using assms by (simp add: db_get_decoded_def db_get_healthy split: option.splits)

section \<open>Well-formed contents\<close>

text \<open>What an entry of each column family is, given the other columns it refers to.\<close>

fun entry_ok :: "'db storage_env \<Rightarrow> columns \<Rightarrow> ColumnFamily \<Rightarrow> bytes \<Rightarrow> bytes \<Rightarrow> bool" where
  "entry_ok E M CfBlocks k v \<longleftrightarrow>
     (\<exists>b. deserialize (se_block E) v = Inr b \<and> k = hash_as_bytes (block_hash (se_lib E) (se_wire E) b) \<and>
        fmlookup (M CfBlockNumbers) k = Some (be_bytes 8 (block_number b)))"
| "entry_ok E M CfBlockHashes k v \<longleftrightarrow>
     (\<exists>bv b. fmlookup (M CfBlocks) v = Some bv \<and> deserialize (se_block E) bv = Inr b \<and> k = be_bytes 8 (block_number b))"
| "entry_ok E M CfBlockNumbers k v \<longleftrightarrow> fmlookup (M CfBlocks) k \<noteq> None"
| "entry_ok E M CfTransactions k v \<longleftrightarrow>
     (\<exists>tx. deserialize (se_tx E) v = Inr tx \<and> k = hash_as_bytes (db_tx_hash E tx) \<and> fmlookup (M CfReceipts) k \<noteq> None)"
| "entry_ok E M CfReceipts k v \<longleftrightarrow>
     (\<exists>r. deserialize (se_receipt E) v = Inr r) \<and> fmlookup (M CfTransactions) k \<noteq> None"
| "entry_ok E M CfState k v \<longleftrightarrow> (\<exists>n. k = be_bytes 8 (n :: u64)) \<and> (\<exists>s. deserialize (se_state E) v = Inr s)"
| "entry_ok E M CfContractCode k v \<longleftrightarrow> (\<exists>a. k = address_as_bytes a)"
| "entry_ok E M CfContractStorage k v \<longleftrightarrow> (\<exists>a slot. k = contract_key a slot) \<and> length v = 32"
| "entry_ok E M CfValidators k v \<longleftrightarrow> k = utf8 ''current'' \<and> (\<exists>vs. deserialize (se_validators E) v = Inr vs)"
| "entry_ok E M CfMeta k v \<longleftrightarrow> (k = utf8 ''latest_block_number'' \<longrightarrow> length v = 8)"
| "entry_ok E M CfPendingTransactions k v \<longleftrightarrow>
     (\<exists>md. deserialize (se_pending E) v = Inr md \<and> k = hash_as_bytes (db_tx_hash E (pm_transaction md)) \<and>
        fmlookup (M CfTransactionByAddress)
          (address_key (tx_from (pm_transaction md)) (db_tx_hash E (pm_transaction md))) \<noteq> None)"
| "entry_ok E M CfForkHistory k v \<longleftrightarrow>
     (\<exists>ev. deserialize (se_fork E) v = Inr ev \<and> k = fork_key (fe_timestamp ev) (fe_fork_point ev))"
| "entry_ok E M CfChainMetrics k v \<longleftrightarrow>
     (\<exists>s. deserialize (se_snapshot E) v = Inr s \<and> k = be_bytes 8 (sn_block_number s))"
| "entry_ok E M CfTransactionByAddress k v \<longleftrightarrow> (\<exists>a h. k = address_key a h)"
| "entry_ok E M CfMetricsByTime k v \<longleftrightarrow>
     (\<exists>s. deserialize (se_snapshot E) v = Inr s \<and> k = time_key (sn_timestamp s) (sn_block_number s))"

definition contents_ok :: "'db storage_env \<Rightarrow> columns \<Rightarrow> bool" where
  "contents_ok E M \<longleftrightarrow> (\<forall>c k v. fmlookup (M c) k = Some v \<longrightarrow> entry_ok E M c k v)"

definition database_ok :: "'db storage_env \<Rightarrow> ('db \<Rightarrow> contents) \<Rightarrow> 'db Database \<Rightarrow> bool" where
  "database_ok E V d \<longleftrightarrow> cfs_open E d \<and> contents_ok E (db_view V d)"

lemma contents_okD: "contents_ok E M \<Longrightarrow> fmlookup (M c) k = Some v \<Longrightarrow> entry_ok E M c k v"
  by (simp add: contents_ok_def)

text \<open>The columns other entries rely on; the address index only by the presence of a key.\<close>

definition relied_on :: "ColumnFamily set" where
  "relied_on = {CfBlocks, CfBlockNumbers, CfTransactions, CfReceipts}"

lemma entry_ok_put:
  assumes "c \<notin> relied_on" and "entry_ok E M c' k' v'"
  shows "entry_ok E (M(c := fmupd k v (M c))) c' k' v'"
  using assms by (cases c') (auto simp: relied_on_def)

lemma contents_ok_put:
  assumes "contents_ok E M" and "c \<notin> relied_on" and "entry_ok E M c k v"
  shows "contents_ok E (M(c := fmupd k v (M c)))"
  unfolding contents_ok_def
proof (intro allI impI)
  fix c' k' v'
  assume "fmlookup ((M(c := fmupd k v (M c))) c') k' = Some v'"
  then have "(c' = c \<and> k' = k \<and> v' = v) \<or> fmlookup (M c') k' = Some v'" by (auto split: if_splits)
  then have "entry_ok E M c' k' v'" using assms(1,3) by (auto dest: contents_okD)
  then show "entry_ok E (M(c := fmupd k v (M c))) c' k' v'" by (rule entry_ok_put [OF assms(2)])
qed

lemma contents_ok_drop:
  assumes "contents_ok E M" and "c \<in> {CfState, CfPendingTransactions, CfForkHistory, CfChainMetrics}"
  shows "contents_ok E (M(c := fmdrop_fset ks (M c)))"
  unfolding contents_ok_def
proof (intro allI impI)
  fix c' k' v'
  assume "fmlookup ((M(c := fmdrop_fset ks (M c))) c') k' = Some v'"
  then have "fmlookup (M c') k' = Some v'" by (auto split: if_splits)
  then have "entry_ok E M c' k' v'" using assms(1) by (rule contents_okD [rotated])
  then show "entry_ok E (M(c := fmdrop_fset ks (M c))) c' k' v'" using assms(2) by (cases c') auto
qed

lemma contents_ok_transaction:
  assumes "contents_ok E M" and "deserialize (se_tx E) v = Inr tx" and "deserialize (se_receipt E) w = Inr r"
    and "k = hash_as_bytes (db_tx_hash E tx)"
  shows "contents_ok E (M(CfTransactions := fmupd k v (M CfTransactions), CfReceipts := fmupd k w (M CfReceipts)))"
    (is "contents_ok E ?M")
  unfolding contents_ok_def
proof (intro allI impI)
  fix c' k' v'
  assume l: "fmlookup (?M c') k' = Some v'"
  show "entry_ok E ?M c' k' v'"
  proof (cases "c' \<in> {CfTransactions, CfReceipts} \<and> k' = k")
    case True
    then show ?thesis using l assms(2-4) by auto
  next
    case False
    then have "fmlookup (M c') k' = Some v'" using l by (auto split: if_splits)
    then have "entry_ok E M c' k' v'" using assms(1) by (rule contents_okD [rotated])
    then show ?thesis by (cases c') auto
  qed
qed

lemma contents_ok_block:
  assumes "contents_ok E M" and "deserialize (se_block E) v = Inr b"
    and "k = hash_as_bytes (block_hash (se_lib E) (se_wire E) b)" and "n = be_bytes 8 (block_number b)"
    and "\<And>bv b0. fmlookup (M CfBlocks) k = Some bv \<Longrightarrow> deserialize (se_block E) bv = Inr b0 \<Longrightarrow>
      block_number b0 = block_number b"
  shows "contents_ok E (M(CfBlocks := fmupd k v (M CfBlocks), CfBlockHashes := fmupd n k (M CfBlockHashes),
    CfBlockNumbers := fmupd k n (M CfBlockNumbers)))" (is "contents_ok E ?M")
  unfolding contents_ok_def
proof (intro allI impI)
  fix c' k' v'
  assume l: "fmlookup (?M c') k' = Some v'"
  consider (block) "c' = CfBlocks" "k' = k" | (number) "c' = CfBlockHashes" "k' = n" | (reverse) "c' = CfBlockNumbers" "k' = k"
    | (old) "fmlookup (M c') k' = Some v'" "\<not> (c' = CfBlocks \<and> k' = k)"
    using l by (fastforce split: if_splits)
  then show "entry_ok E ?M c' k' v'"
  proof cases
    case block
    then show ?thesis using l assms(2-4) by auto
  next
    case number
    then show ?thesis using l assms(2-4) by auto
  next
    case reverse
    then show ?thesis by simp
  next
    case old
    have e: "entry_ok E M c' k' v'" using assms(1) old(1) by (rule contents_okD)
    show ?thesis
    proof (cases "c' = CfBlockHashes")
      case True
      with e obtain bv b0 where b0: "fmlookup (M CfBlocks) v' = Some bv" "deserialize (se_block E) bv = Inr b0"
        "k' = be_bytes 8 (block_number b0)" by auto
      then show ?thesis using True assms(2,5) by (cases "v' = k") auto
    next
      case False
      then show ?thesis using e old by (cases c') auto
    qed
  qed
qed

section \<open>Every operation keeps the contents well formed\<close>

lemma snd_db_try [simp]: "snd (db_try r s (\<lambda>v. (f v, s))) = s"
  by (cases r) auto

lemma db_effect_ok:
  "db_effect E V ops d d' \<Longrightarrow> database_ok E V d \<Longrightarrow> contents_ok E (foldl column_op (db_view V d) ops) \<Longrightarrow>
     database_ok E V d'"
  by (simp add: db_effect_def database_ok_def)

lemma db_write_ok:
  assumes "env_ok E V" and "database_ok E V d" and "contents_ok E (foldl column_op (db_view V d) ops)"
    and "db_write E d ops = (r, d')"
  shows "database_ok E V d'"
  using db_write_effect [OF env_rocks [OF assms(1)] assms(4)]
proof (elim disjE conjE exE)
  assume "db_effect E V ops d d'"
  then show ?thesis using assms(2,3) by (rule db_effect_ok)
next
  assume "db_effect E V [] d d'"
  then show ?thesis using assms(2) by (rule db_effect_ok) (use assms(2) in \<open>simp add: database_ok_def\<close>)
qed

lemma db_put_ok:
  assumes "env_ok E V" and "database_ok E V d" and "c \<notin> relied_on" and "entry_ok E (db_view V d) c k v"
  shows "database_ok E V (snd (db_put E d (cf_as_str c) k v))"
proof -
  obtain r d' where p: "db_put E d (cf_as_str c) k v = (r, d')" by fastforce
  have "contents_ok E (db_view V d)" using assms(2) by (simp add: database_ok_def)
  then have c: "contents_ok E (foldl column_op (db_view V d) [PutCf (cf_as_str c) k v])"
    using contents_ok_put assms(3,4) by simp
  have "database_ok E V d'" using db_put_effect [OF env_rocks [OF assms(1)] p]
  proof (elim disjE conjE exE)
    assume "db_effect E V [] d d'"
    then show ?thesis using assms(2) by (rule db_effect_ok) (use assms(2) in \<open>simp add: database_ok_def\<close>)
  qed (use db_effect_ok [OF _ assms(2) c] in blast)
  then show ?thesis by (simp add: p)
qed

lemma database_ok_open [simp]: "database_ok E V d \<Longrightarrow> db_cf E d c = Ok (cf_as_str c)"
  by (simp add: database_ok_def)

lemmas env_codecs = env_ok_def codec_ok_def

lemma store_transaction_ok:
  assumes "env_ok E V" and "database_ok E V d"
  shows "database_ok E V (snd (db_store_transaction E d tx receipt))"
proof (cases "serialize (se_tx E) tx")
  case (Inl e)
  then show ?thesis using assms(2) by (simp add: db_store_transaction_def Let_def)
next
  case (Inr tv)
  show ?thesis
  proof (cases "serialize (se_receipt E) receipt")
    case (Inl e)
    then show ?thesis using assms(2) Inr by (simp add: db_store_transaction_def Let_def)
  next
    case rv: (Inr rv)
    let ?k = "hash_as_bytes (db_tx_hash E tx)"
    let ?ops = "[PutCf (cf_as_str CfTransactions) ?k tv, PutCf (cf_as_str CfReceipts) ?k rv]"
    obtain r d' where w: "db_write E d ?ops = (r, d')" by fastforce
    have "deserialize (se_tx E) tv = Inr tx" "deserialize (se_receipt E) rv = Inr receipt"
      using assms(1) Inr rv by (auto simp: env_codecs)
    then have "contents_ok E (foldl column_op (db_view V d) ?ops)"
      using contents_ok_transaction [OF _ _ _ refl, of E "db_view V d" tv tx rv receipt] assms(2)
      by (simp add: database_ok_def del: cf_as_str.simps)
    then have "database_ok E V d'" using db_write_ok [OF assms _ w] by blast
    then show ?thesis using assms(2) Inr rv w by (simp add: db_store_transaction_def Let_def del: cf_as_str.simps)
  qed
qed

lemma store_block_txs_ok:
  "env_ok E V \<Longrightarrow> database_ok E V d \<Longrightarrow> database_ok E V (snd (store_block_txs E number d txs))"
proof (induction txs arbitrary: d)
  case (Cons tx txs)
  obtain r d1 where s: "db_store_transaction E d tx (block_receipt E number tx) = (r, d1)" by fastforce
  have "database_ok E V d1" using store_transaction_ok [OF Cons.prems] s by (metis snd_conv)
  then show ?case using Cons.IH [OF Cons.prems(1)] s by (cases r) auto
qed simp

text \<open>No stored block has the digest of the new one and another number.\<close>

definition no_collision :: "'db storage_env \<Rightarrow> ('db \<Rightarrow> contents) \<Rightarrow> 'db Database \<Rightarrow> Block \<Rightarrow> bool" where
  "no_collision E V d b \<longleftrightarrow>
     (\<forall>bv b0. fmlookup (db_view V d CfBlocks) (hash_as_bytes (block_hash (se_lib E) (se_wire E) b)) = Some bv \<longrightarrow>
        deserialize (se_block E) bv = Inr b0 \<longrightarrow> block_number b0 = block_number b)"

abbreviation block_ops :: "'db storage_env \<Rightarrow> Block \<Rightarrow> bytes \<Rightarrow> batch_op list" where
  "block_ops E b bv \<equiv>
     [PutCf (cf_as_str CfBlocks) (hash_as_bytes (block_hash (se_lib E) (se_wire E) b)) bv,
      PutCf (cf_as_str CfBlockHashes) (be_bytes 8 (block_number b)) (hash_as_bytes (block_hash (se_lib E) (se_wire E) b)),
      PutCf (cf_as_str CfBlockNumbers) (hash_as_bytes (block_hash (se_lib E) (se_wire E) b)) (be_bytes 8 (block_number b))]"

lemma store_block_ok:
  assumes "env_ok E V" and "database_ok E V d" and "no_collision E V d b"
  shows "database_ok E V (snd (store_block E d b))"
proof (cases "serialize (se_block E) b")
  case (Inl e)
  then show ?thesis using assms(2) by (simp add: store_block_def Let_def)
next
  case (Inr bv)
  obtain r d1 where w: "db_write E d (block_ops E b bv) = (r, d1)" by fastforce
  have "deserialize (se_block E) bv = Inr b" using assms(1) Inr by (auto simp: env_codecs)
  then have "contents_ok E (foldl column_op (db_view V d) (block_ops E b bv))"
    using contents_ok_block [OF _ _ refl refl, of E "db_view V d" bv b] assms(2,3)
    by (simp add: database_ok_def no_collision_def del: cf_as_str.simps)
  then have "database_ok E V d1" using db_write_ok [OF assms(1,2) _ w] by blast
  then have "database_ok E V (snd (db_try r d1 (\<lambda>_. store_block_txs E (block_number b) d1 (blk_transactions b))))"
    using store_block_txs_ok [OF assms(1)] by (cases r) auto
  then show ?thesis using assms(2) Inr w by (simp add: store_block_def Let_def del: cf_as_str.simps)
qed

lemma db_try_ok:
  "database_ok E V d \<Longrightarrow> (\<And>v. r = Ok v \<Longrightarrow> database_ok E V (snd (f v))) \<Longrightarrow> database_ok E V (snd (db_try r d f))"
  by (cases r) auto

lemma db_if_ok:
  "(b \<Longrightarrow> database_ok E V (snd x)) \<Longrightarrow> (\<not> b \<Longrightarrow> database_ok E V (snd y)) \<Longrightarrow> database_ok E V (snd (if b then x else y))"
  by simp

lemma ser_result_Ok [simp]: "ser_result x = Ok v \<longleftrightarrow> x = Inr v"
  by (cases x) auto

lemma relied_on_simps [simp]:
  "CfState \<notin> relied_on" "CfContractCode \<notin> relied_on" "CfContractStorage \<notin> relied_on" "CfValidators \<notin> relied_on"
  "CfMeta \<notin> relied_on" "CfPendingTransactions \<notin> relied_on" "CfForkHistory \<notin> relied_on"
  "CfChainMetrics \<notin> relied_on" "CfTransactionByAddress \<notin> relied_on" "CfMetricsByTime \<notin> relied_on"
  by (simp_all add: relied_on_def)

lemma utf8_inject [simp]: "utf8 s = utf8 t \<longleftrightarrow> s = t"
proof -
  have "inj (\<lambda>c :: char. of_nat (of_char c) :: u8)"
  proof (rule injI)
    fix c d :: char
    assume "(of_nat (of_char c) :: u8) = of_nat (of_char d)"
    then have "unat (of_nat (of_char c) :: u8) = unat (of_nat (of_char d) :: u8)" by (simp only:)
    then have "(of_char c :: nat) mod 256 = of_char d mod 256" by (simp only: unat_of_nat) simp
    then show "c = d" by simp
  qed
  then show ?thesis by (simp add: utf8_def inj_map_eq_map)
qed

text \<open>The operations that put one entry.\<close>

lemma single_puts_ok:
  assumes "env_ok E V" and "database_ok E V d"
  shows "database_ok E V (snd (store_state E d n s))"
    and "database_ok E V (snd (store_contract_code E d a code))"
    and "database_ok E V (snd (store_contract_storage E d a slot w))"
    and "database_ok E V (snd (store_validator_set E d vs))"
    and "database_ok E V (snd (store_fork_event E now d fp fh mt ft ml fln res depth))"
    and "(key = ''latest_block_number'' \<Longrightarrow> length v = 8) \<Longrightarrow> database_ok E V (snd (store_meta E d key v))"
proof -
  note put = db_put_ok [OF assms]
  note ops = store_state_def store_contract_code_def store_contract_storage_def store_validator_set_def
    store_fork_event_def store_meta_def Let_def
  show "database_ok E V (snd (store_state E d n s))" unfolding ops
    by (intro db_try_ok) (use assms in \<open>auto intro!: put simp: env_codecs simp del: cf_as_str.simps\<close>)
  show "database_ok E V (snd (store_contract_code E d a code))" unfolding ops
    by (intro db_try_ok) (use assms in \<open>auto intro!: put simp del: cf_as_str.simps\<close>)
  show "database_ok E V (snd (store_contract_storage E d a slot w))" unfolding ops
    by (intro db_try_ok) (use assms in \<open>auto intro!: put exI simp del: cf_as_str.simps\<close>)
  show "database_ok E V (snd (store_validator_set E d vs))" unfolding ops
    by (intro db_try_ok) (use assms in \<open>auto intro!: put simp: env_codecs simp del: cf_as_str.simps\<close>)
  show "database_ok E V (snd (store_fork_event E now d fp fh mt ft ml fln res depth))" unfolding ops
    by (intro db_try_ok) (use assms in \<open>auto intro!: put exI simp: env_codecs simp del: cf_as_str.simps\<close>)
  show "database_ok E V (snd (store_meta E d key v))" if "key = ''latest_block_number'' \<Longrightarrow> length v = 8" unfolding ops
    by (intro db_try_ok) (use assms that in \<open>auto intro!: put simp del: cf_as_str.simps\<close>)
qed

text \<open>The operations that write a batch.\<close>

lemma contents_ok_pending:
  assumes "contents_ok E M" and "deserialize (se_pending E) v = Inr md"
    and "k = hash_as_bytes (db_tx_hash E (pm_transaction md))"
    and "j = address_key (tx_from (pm_transaction md)) (db_tx_hash E (pm_transaction md))"
  shows "contents_ok E (M(CfPendingTransactions := fmupd k v (M CfPendingTransactions),
    CfTransactionByAddress := fmupd j w (M CfTransactionByAddress)))"
proof -
  let ?M = "M(CfTransactionByAddress := fmupd j w (M CfTransactionByAddress))"
  have "contents_ok E ?M" using assms(4) by (intro contents_ok_put [OF assms(1)]) auto
  then have "contents_ok E (?M(CfPendingTransactions := fmupd k v (?M CfPendingTransactions)))"
    by (rule contents_ok_put) (use assms(2,3,4) in auto)
  then show ?thesis by (simp add: fun_upd_twist)
qed

lemma pending_batch_ok:
  assumes "env_ok E V"
  shows "contents_ok E M \<Longrightarrow>
    pending_batch E (cf_as_str CfPendingTransactions) (cf_as_str CfTransactionByAddress) now txs = Ok ops \<Longrightarrow>
    contents_ok E (foldl column_op M ops)"
proof (induction txs arbitrary: M ops)
  case (Cons t txs)
  obtain tx g where t: "t = (tx, g)" by fastforce
  let ?md = "\<lparr>pm_transaction = tx, pm_gas_price = g, pm_added_timestamp = now\<rparr>"
  obtain v ops' where v: "serialize (se_pending E) ?md = Inr v"
    and o: "pending_batch E (cf_as_str CfPendingTransactions) (cf_as_str CfTransactionByAddress) now txs = Ok ops'"
    and ops: "ops = PutCf (cf_as_str CfPendingTransactions) (hash_as_bytes (db_tx_hash E tx)) v #
        PutCf (cf_as_str CfTransactionByAddress) (address_key (tx_from tx) (db_tx_hash E tx)) [] # ops'"
    using Cons.prems(2) by (auto simp: t Let_def and_then_eq_Ok simp del: cf_as_str.simps)
  have "deserialize (se_pending E) v = Inr ?md" using assms v by (auto simp: env_codecs)
  then have "contents_ok E (M(CfPendingTransactions := fmupd (hash_as_bytes (db_tx_hash E tx)) v (M CfPendingTransactions),
      CfTransactionByAddress := fmupd (address_key (tx_from tx) (db_tx_hash E tx)) [] (M CfTransactionByAddress)))"
    by (rule contents_ok_pending [OF Cons.prems(1)]) simp_all
  then show ?case unfolding ops using Cons.IH [OF _ o] by (simp del: cf_as_str.simps)
qed simp

lemma store_pending_ok:
  assumes "env_ok E V" and "database_ok E V d"
  shows "database_ok E V (snd (store_pending_transactions E now d txs))"
proof -
  have c: "contents_ok E (db_view V d)" using assms(2) by (simp add: database_ok_def)
  have "database_ok E V (snd (case db_write E d ops of (r, d1) \<Rightarrow> db_try r d1 (\<lambda>_. (Ok (of_nat (length txs)), d1))))"
    if "pending_batch E (cf_as_str CfPendingTransactions) (cf_as_str CfTransactionByAddress) now txs = Ok ops" for ops
    using db_write_ok [OF assms pending_batch_ok [OF assms(1) c that]] by (auto split: prod.splits)
  then show ?thesis unfolding store_pending_transactions_def
    using assms(2) by (auto intro!: db_try_ok simp del: cf_as_str.simps)
qed

lemma deletes_ok:
  assumes "env_ok E V" and "database_ok E V d" and "c \<in> {CfState, CfPendingTransactions, CfForkHistory, CfChainMetrics}"
    and "db_write E d (map (DeleteCf (cf_as_str c)) ks) = (r, d')"
  shows "database_ok E V d'"
  using assms(2,3) contents_ok_drop [of E "db_view V d" c "fset_of_list ks"]
  by (intro db_write_ok [OF assms(1,2) _ assms(4)]) (simp add: column_deletes database_ok_def)

lemma delete_then_ok:
  assumes "env_ok E V" and "database_ok E V d" and "c \<in> {CfState, CfPendingTransactions, CfForkHistory, CfChainMetrics}"
  shows "database_ok E V (snd (case db_write E d (map (DeleteCf (cf_as_str c)) ks) of (r, d1) \<Rightarrow> db_try r d1 (\<lambda>_. (x, d1))))"
  using deletes_ok [OF assms] by (cases "db_write E d (map (DeleteCf (cf_as_str c)) ks)") simp

lemma batch_deletes_ok:
  assumes "env_ok E V" and "database_ok E V d"
  shows "database_ok E V (snd (clear_pending_transactions E d))"
    and "database_ok E V (snd (prune_old_metrics E now d days))"
    and "database_ok E V (snd (compact_fork_history E now d threshold days))"
proof -
  note del = delete_then_ok [OF assms]
  have m: "map (\<lambda>(key, _). DeleteCf cf key) items = map (DeleteCf cf) (map fst items)" for cf and items :: "(bytes \<times> bytes) list"
    by auto
  have s: "map (\<lambda>s. DeleteCf cf (be_bytes 8 (sn_block_number s))) old = map (DeleteCf cf) (map (\<lambda>s. be_bytes 8 (sn_block_number s)) old)"
    for cf old by simp
  show "database_ok E V (snd (clear_pending_transactions E d))"
    unfolding clear_pending_transactions_def m database_ok_open [OF assms(2)] db_try.simps(1)
    by (intro db_try_ok db_if_ok del) (simp_all add: assms(2))
  show "database_ok E V (snd (prune_old_metrics E now d days))"
    unfolding prune_old_metrics_def Let_def s database_ok_open [OF assms(2)] db_try.simps(1)
    by (intro db_try_ok db_if_ok del) (simp_all add: assms(2))
  show "database_ok E V (snd (compact_fork_history E now d threshold days))"
    unfolding compact_fork_history_def Let_def database_ok_open [OF assms(2)] db_try.simps(1)
    by (intro db_try_ok db_if_ok del) (simp_all add: assms(2))
qed

lemma store_chain_metrics_ok:
  assumes "env_ok E V" and "database_ok E V d"
  shows "database_ok E V (snd (store_chain_metrics E now d n metrics))"
proof -
  let ?s = "\<lparr>sn_block_number = n, sn_timestamp = now, sn_metrics = metrics\<rparr>"
  have c: "contents_ok E (db_view V d)" using assms(2) by (simp add: database_ok_def)
  have "database_ok E V (snd (db_write E d [PutCf (cf_as_str CfChainMetrics) (be_bytes 8 n) v,
      PutCf (cf_as_str CfMetricsByTime) (time_key now n) v]))" if "serialize (se_snapshot E) ?s = Inr v" for v
  proof -
    let ?M = "(db_view V d)(CfChainMetrics := fmupd (be_bytes 8 n) v (db_view V d CfChainMetrics))"
    have de: "deserialize (se_snapshot E) v = Inr ?s" using assms(1) that by (auto simp: env_codecs)
    then have "contents_ok E ?M" by (intro contents_ok_put [OF c]) (auto intro!: exI [of _ ?s])
    then have "contents_ok E (?M(CfMetricsByTime := fmupd (time_key now n) v (?M CfMetricsByTime)))"
      by (rule contents_ok_put) (use de in \<open>auto intro!: exI [of _ ?s]\<close>)
    then show ?thesis using db_write_ok [OF assms] by (metis (no_types, lifting) column_put foldl_Cons foldl_Nil prod.collapse)
  qed
  then show ?thesis unfolding store_chain_metrics_def Let_def
    using assms(2) by (auto intro!: db_try_ok simp del: cf_as_str.simps)
qed

lemma db_delete_effect:
  assumes "env_ok E V" and "delete_cf (se_rocks E) (db_handle d) (cf_as_str c) k = (r, h)"
  shows "db_effect E V (if r = Inr () then [DeleteCf (cf_as_str c) k] else []) d (d\<lparr>db_handle := h\<rparr>)"
  using rocksdb_delete [OF env_rocks [OF assms(1)], of "db_handle d" "cf_as_str c" k] assms(2)
  by (auto simp: writes_def db_effect_def db_view_def cfs_open_def fun_eq_iff simp del: cf_as_str.simps)

lemma prune_loop_effect:
  "env_ok E V \<Longrightarrow> prune_loop E (cf_as_str c) is cnt d = (cnt', d') \<Longrightarrow>
     \<exists>ks. set ks \<subseteq> be_bytes 8 ` set is \<and> db_effect E V (map (DeleteCf (cf_as_str c)) ks) d d'"
proof (induction "is" arbitrary: cnt d)
  case Nil
  then show ?case by (intro exI [of _ "[]"]) simp
next
  case (Cons i "is")
  obtain r h where rh: "delete_cf (se_rocks E) (db_handle d) (cf_as_str c) (be_bytes 8 i) = (r, h)" by fastforce
  have e: "db_effect E V (map (DeleteCf (cf_as_str c)) (if r = Inr () then [be_bytes 8 i] else [])) d (d\<lparr>db_handle := h\<rparr>)"
    using db_delete_effect [OF Cons.prems(1) rh] by (simp split: if_splits)
  obtain ks where ks: "set ks \<subseteq> be_bytes 8 ` set is" "db_effect E V (map (DeleteCf (cf_as_str c)) ks) (d\<lparr>db_handle := h\<rparr>) d'"
    using Cons.IH [OF Cons.prems(1)] Cons.prems(2) unfolding prune_loop.simps rh prod.case by blast
  then show ?case using db_effect_trans [OF e ks(2)]
    by (intro exI [of _ "(if r = Inr () then [be_bytes 8 i] else []) @ ks"]) auto
qed

lemma prune_compact_ok:
  assumes "env_ok E V" and "database_ok E V d"
  shows "database_ok E V (snd (db_prune E d n))" and "database_ok E V (snd (db_compact E d))"
proof -
  have loop: "database_ok E V d'" if l: "prune_loop E (cf_as_str CfState) is cnt d = (cnt', d')" for "is" cnt cnt' d'
  proof -
    obtain ks where "db_effect E V (map (DeleteCf (cf_as_str CfState)) ks) d d'"
      using prune_loop_effect [OF assms(1) l] by blast
    then show ?thesis using assms(2)
      by (rule db_effect_ok) (use assms(2) contents_ok_drop [of E "db_view V d" CfState "fset_of_list ks"] in
          \<open>simp add: column_deletes database_ok_def del: cf_as_str.simps\<close>)
  qed
  show "database_ok E V (snd (db_prune E d n))"
    using assms(2) loop by (auto simp: db_prune_def Let_def simp del: cf_as_str.simps
        split: PruningMode.splits prod.splits)
  have "database_ok E V (compact_loop E cs d)" for cs using assms(2)
  proof (induction cs arbitrary: d)
    case (Cons c cs)
    let ?d = "d\<lparr>db_handle := compact_range_cf (se_rocks E) (db_handle d) (cf_as_str c)\<rparr>"
    have "database_ok E V ?d" using Cons.prems rocksdb_compact [OF env_rocks [OF assms(1)]]
      by (simp add: database_ok_def db_view_def cfs_open_def)
    then show ?case using Cons.IH [of ?d] Cons.prems by simp
  qed simp
  then show "database_ok E V (snd (db_compact E d))" by (simp add: db_compact_def)
qed

section \<open>Reachable databases\<close>

text \<open>
  Every operation that writes. A block is stored only if its digest does not collide with that of a
  stored block of another number, and the caller of \<open>store_meta\<close> keeps to eight bytes under the key that
  \<open>update_latest_block_number\<close> uses.
\<close>

inductive db_step :: "'db storage_env \<Rightarrow> ('db \<Rightarrow> contents) \<Rightarrow> 'db Database \<Rightarrow> 'db Database \<Rightarrow> bool" for E V where
  step_block: "no_collision E V d b \<Longrightarrow> db_step E V d (snd (store_block E d b))"
| step_transaction: "db_step E V d (snd (db_store_transaction E d tx receipt))"
| step_state: "db_step E V d (snd (store_state E d n s))"
| step_code: "db_step E V d (snd (store_contract_code E d a code))"
| step_storage: "db_step E V d (snd (store_contract_storage E d a slot w))"
| step_validators: "db_step E V d (snd (store_validator_set E d vs))"
| step_pending: "db_step E V d (snd (store_pending_transactions E now d txs))"
| step_clear: "db_step E V d (snd (clear_pending_transactions E d))"
| step_fork: "db_step E V d (snd (store_fork_event E now d fp fh mt ft ml fln res depth))"
| step_metrics: "db_step E V d (snd (store_chain_metrics E now d n metrics))"
| step_prune_metrics: "db_step E V d (snd (prune_old_metrics E now d days))"
| step_compact_forks: "db_step E V d (snd (compact_fork_history E now d threshold days))"
| step_meta: "(key = ''latest_block_number'' \<Longrightarrow> length v = 8) \<Longrightarrow> db_step E V d (snd (store_meta E d key v))"
| step_latest: "db_step E V d (snd (update_latest_block_number E d n))"
| step_prune: "db_step E V d (snd (db_prune E d n))"
| step_compact: "db_step E V d (snd (db_compact E d))"

text \<open>A database just opened on a path that held nothing.\<close>

definition db_fresh :: "'db storage_env \<Rightarrow> ('db \<Rightarrow> contents) \<Rightarrow> 'db Database \<Rightarrow> bool" where
  "db_fresh E V d \<longleftrightarrow> (\<exists>cpus config. database_open E cpus config = Ok d) \<and> (\<forall>c. db_view V d c = fmempty)"

lemma db_fresh_ok:
  assumes "env_ok E V" and "db_fresh E V d"
  shows "database_ok E V d"
proof -
  obtain cpus config where o: "database_open E cpus config = Ok d" using assms(2) by (auto simp: db_fresh_def)
  have all: "c \<in> set cf_all" for c by (cases c) (simp_all add: cf_all_def)
  have db_result_Ok: "db_result x = Ok v \<longleftrightarrow> x = Inr v" for x :: "string + 'a" and v by (cases x) auto
  have "cfs_open E d" using o rocksdb_open [OF env_rocks [OF assms(1)]] all
    by (auto simp: database_open_def and_then_eq_Ok db_result_Ok cfs_open_def Let_def)
  then show ?thesis using assms(2) by (simp add: database_ok_def contents_ok_def db_fresh_def)
qed

lemma db_step_ok:
  assumes "env_ok E V" and "db_step E V d d'" and "database_ok E V d"
  shows "database_ok E V d'"
  using assms(2)
  by cases (auto simp: update_latest_block_number_def intro!: store_block_ok store_transaction_ok single_puts_ok store_pending_ok
      batch_deletes_ok store_chain_metrics_ok prune_compact_ok assms(1,3))

interpretation database: invariant_machine "db_fresh E V" "db_step E V" "\<lambda>d. env_ok E V \<longrightarrow> database_ok E V d"
  for E V
  by unfold_locales (auto intro: db_fresh_ok db_step_ok)

section \<open>What the reads return\<close>

lemma reachable_ok:
  "env_ok E V \<Longrightarrow> db_fresh E V d0 \<Longrightarrow> (db_step E V)\<^sup>*\<^sup>* d0 d \<Longrightarrow> database_ok E V d"
  using database.reachable_inv by blast

lemma get_block_ok:
  assumes "env_ok E V" and "database_ok E V d" and "healthy (se_rocks E) (db_handle d)"
  shows "db_get_block E d h =
    Ok (map_option (\<lambda>v. projr (deserialize (se_block E) v)) (fmlookup (db_view V d CfBlocks) (hash_as_bytes h)))"
proof (cases "fmlookup (db_view V d CfBlocks) (hash_as_bytes h)")
  case (Some v)
  then have "entry_ok E (db_view V d) CfBlocks (hash_as_bytes h) v"
    using assms(2) contents_okD unfolding database_ok_def by blast
  then show ?thesis using assms Some by (auto simp: db_get_block_def db_get_decoded_healthy database_ok_def)
qed (use assms in \<open>simp add: db_get_block_def db_get_decoded_healthy database_ok_def\<close>)

lemma get_block_Some:
  assumes "env_ok E V" and "database_ok E V d" and "healthy (se_rocks E) (db_handle d)"
    and "db_get_block E d h = Ok (Some b)"
  shows "block_hash (se_lib E) (se_wire E) b = h" and "db_get_block_number E d h = Ok (Some (block_number b))"
proof -
  obtain v where v: "fmlookup (db_view V d CfBlocks) (hash_as_bytes h) = Some v" and b: "projr (deserialize (se_block E) v) = b"
    using assms(4) get_block_ok [OF assms(1-3)] by auto
  have "entry_ok E (db_view V d) CfBlocks (hash_as_bytes h) v"
    using assms(2) v contents_okD unfolding database_ok_def by blast
  then have e: "hash_as_bytes h = hash_as_bytes (block_hash (se_lib E) (se_wire E) b)"
    "fmlookup (db_view V d CfBlockNumbers) (hash_as_bytes h) = Some (be_bytes 8 (block_number b))" using b by auto
  then show "block_hash (se_lib E) (se_wire E) b = h" by simp
  show "db_get_block_number E d h = Ok (Some (block_number b))"
    using assms e(2) by (simp add: db_get_block_number_def db_get_healthy db_number_def database_ok_def del: cf_as_str.simps)
qed

lemma get_by_number_ok:
  assumes "env_ok E V" and "database_ok E V d" and "healthy (se_rocks E) (db_handle d)"
  shows "(fmlookup (db_view V d CfBlockHashes) (be_bytes 8 n) = None \<and> db_get_block_by_number E d n = Ok None) \<or>
    (\<exists>b. db_get_block_by_number E d n = Ok (Some b) \<and> block_number b = n \<and>
       db_get_block E d (block_hash (se_lib E) (se_wire E) b) = Ok (Some b))"
proof (cases "fmlookup (db_view V d CfBlockHashes) (be_bytes 8 n)")
  case None
  then show ?thesis using assms
    by (simp add: db_get_block_by_number_def db_get_healthy database_ok_def del: cf_as_str.simps)
next
  case (Some hb)
  then have "entry_ok E (db_view V d) CfBlockHashes (be_bytes 8 n) hb"
    using assms(2) contents_okD unfolding database_ok_def by blast
  then obtain bv b where bv: "fmlookup (db_view V d CfBlocks) hb = Some bv" "deserialize (se_block E) bv = Inr b"
    "n = block_number b" by auto
  then have "entry_ok E (db_view V d) CfBlocks hb bv"
    using assms(2) contents_okD unfolding database_ok_def by blast
  then have hb: "hb = hash_as_bytes (block_hash (se_lib E) (se_wire E) b)" using bv by auto
  then have g: "db_get_block E d (block_hash (se_lib E) (se_wire E) b) = Ok (Some b)"
    using get_block_ok [OF assms] bv by simp
  then have "db_get_block_by_number E d n = Ok (Some b)" using assms Some hb
    by (simp add: db_get_block_by_number_def db_get_healthy database_ok_def hash_from_slice_as_bytes del: cf_as_str.simps)
  then show ?thesis using g bv(3) by auto
qed

lemma decoded_total:
  assumes "env_ok E V" and "database_ok E V d" and "healthy (se_rocks E) (db_handle d)"
    and "\<And>k v. entry_ok E (db_view V d) col k v \<Longrightarrow> \<exists>x. deserialize c v = Inr x"
  shows "\<exists>r. db_get_decoded E c d col k = Ok r"
proof (cases "fmlookup (db_view V d col) k")
  case (Some v)
  then have "entry_ok E (db_view V d) col k v" using assms(2) contents_okD unfolding database_ok_def by blast
  then obtain x where "deserialize c v = Inr x" using assms(4) by blast
  then show ?thesis using assms Some by (simp add: db_get_decoded_healthy database_ok_def)
qed (use assms in \<open>simp add: db_get_decoded_healthy database_ok_def\<close>)

lemma raw_reads_total:
  assumes "env_ok E V" and "database_ok E V d" and "healthy (se_rocks E) (db_handle d)"
  shows "\<exists>r. get_contract_storage E d a slot = Ok r" and "\<exists>r. get_latest_block_number E d = Ok r"
    and "\<exists>r. db_get_block_number E d h = Ok r"
proof -
  have e: "entry_ok E (db_view V d) c k v" if "fmlookup (db_view V d c) k = Some v" for c k v
    using assms(2) that contents_okD unfolding database_ok_def by blast
  show "\<exists>r. get_contract_storage E d a slot = Ok r"
    using assms e [of CfContractStorage "contract_key a slot"]
    by (cases "fmlookup (db_view V d CfContractStorage) (contract_key a slot)")
      (auto simp: get_contract_storage_def db_get_healthy database_ok_def simp del: cf_as_str.simps)
  show "\<exists>r. get_latest_block_number E d = Ok r"
    using assms e [of CfMeta "utf8 ''latest_block_number''"]
    by (cases "fmlookup (db_view V d CfMeta) (utf8 ''latest_block_number'')")
      (auto simp: get_latest_block_number_def get_meta_def db_get_healthy db_number_def database_ok_def simp del: cf_as_str.simps)
  show "\<exists>r. db_get_block_number E d h = Ok r"
  proof (cases "fmlookup (db_view V d CfBlockNumbers) (hash_as_bytes h)")
    case None
    then show ?thesis using assms by (simp add: db_get_block_number_def db_get_healthy database_ok_def del: cf_as_str.simps)
  next
    case (Some v)
    then have "fmlookup (db_view V d CfBlocks) (hash_as_bytes h) \<noteq> None" using e by fastforce
    then obtain b where "db_get_block E d h = Ok (Some b)" using get_block_ok [OF assms, of h] by auto
    then show ?thesis using get_block_Some(2) [OF assms] by blast
  qed
qed

section \<open>A concrete environment\<close>

text \<open>The in-memory store, with codecs for a table of values each.\<close>

definition table_codec :: "'a list \<Rightarrow> 'a codec" where
  "table_codec xs =
     \<lparr>serialize = (\<lambda>x. if x \<in> set xs then Inr [of_nat (length (takeWhile (\<lambda>y. y \<noteq> x) xs))] else Inl ''unsupported''),
      deserialize = (\<lambda>bs. case bs of
           [i] \<Rightarrow> if unat i < length xs then Inr (xs ! unat i) else Inl ''unexpected tag''
         | _ \<Rightarrow> Inl ''unexpected length'')\<rparr>"

lemma table_codec_ok:
  assumes "length xs \<le> 256"
  shows "codec_ok (table_codec xs)"
  unfolding codec_ok_def
proof (intro allI impI)
  fix x bs
  assume "serialize (table_codec xs) x = Inr bs"
  then have x: "x \<in> set xs" and bs: "bs = [of_nat (length (takeWhile (\<lambda>y. y \<noteq> x) xs))]"
    by (auto simp: table_codec_def split: if_splits)
  let ?i = "length (takeWhile (\<lambda>y. y \<noteq> x) xs)"
  have i: "?i < length xs" using x by (induction xs) auto
  then have "unat (of_nat ?i :: u8) = ?i" using assms by (simp add: unat_of_nat)
  moreover have "xs ! ?i = x" using nth_length_takeWhile [OF i] by simp
  ultimately show "deserialize (table_codec xs) bs = Inr x" using i by (simp add: table_codec_def bs)
qed

definition demo_wire :: wire where
  "demo_wire = \<lparr>enc_tx = (\<lambda>t. [ucast (tx_nonce t)]), enc_header = (\<lambda>h. [ucast (bh_number h)]), enc_account = (\<lambda>a. [])\<rparr>"

definition demo_env ::
    "Block list \<Rightarrow> Transaction list \<Rightarrow> TransactionReceipt list \<Rightarrow> PendingTransactionMetadata list \<Rightarrow> StoredForkEvent list
      \<Rightarrow> contents storage_env" where
  "demo_env bs txs rs ps fs =
     \<lparr>se_rocks = mem_rocksdb, se_lib = demo_lib, se_wire = demo_wire, se_block = table_codec bs,
      se_tx = table_codec txs, se_receipt = table_codec rs, se_state = table_codec [], se_validators = table_codec [],
      se_pending = table_codec ps, se_fork = table_codec fs, se_snapshot = table_codec []\<rparr>"

definition demo_db :: "contents Database" where
  "demo_db = \<lparr>db_handle = (\<lambda>_. fmempty), db_config = database_config_default\<rparr>"

lemma demo_env_ok:
  "length bs \<le> 256 \<Longrightarrow> length txs \<le> 256 \<Longrightarrow> length rs \<le> 256 \<Longrightarrow> length ps \<le> 256 \<Longrightarrow> length fs \<le> 256 \<Longrightarrow>
     env_ok (demo_env bs txs rs ps fs) (\<lambda>db. db)"
  by (simp add: env_ok_def demo_env_def mem_rocksdb_ok table_codec_ok)

lemma demo_healthy [simp]: "healthy (se_rocks (demo_env bs txs rs ps fs)) h"
  by (simp add: demo_env_def mem_rocksdb_healthy)

lemma demo_open [simp]: "cfs_open (demo_env bs txs rs ps fs) d"
  by (simp add: cfs_open_def demo_env_def mem_rocksdb_def)

lemma demo_view [simp]: "db_view (\<lambda>db. db) demo_db = (\<lambda>_. fmempty)"
  by (simp add: db_view_def demo_db_def)

lemma demo_fresh: "db_fresh (demo_env bs txs rs ps fs) (\<lambda>db. db) demo_db"
proof -
  have "database_open (demo_env bs txs rs ps fs) 8 database_config_default = Ok demo_db"
    by (simp add: database_open_def demo_env_def mem_rocksdb_def demo_db_def Let_def)
  then show ?thesis by (auto simp: db_fresh_def)
qed

lemma demo_write [simp]:
  "db_write (demo_env bs txs rs ps fs) d ops = (Ok (), d\<lparr>db_handle := apply_batch ops (db_handle d)\<rparr>)"
  by (simp add: db_write_def db_commit_def demo_env_def mem_rocksdb_def)

lemma demo_put [simp]:
  "db_put (demo_env bs txs rs ps fs) d cf k v = (Ok (), d\<lparr>db_handle := apply_op (db_handle d) (PutCf cf k v)\<rparr>)"
  by (simp add: db_put_def db_commit_def demo_env_def mem_rocksdb_def)

lemma demo_get [simp]: "db_get (demo_env bs txs rs ps fs) d cf k = Ok (fmlookup (db_handle d cf) k)"
  by (simp add: db_get_def demo_env_def mem_rocksdb_def)

section \<open>Properties\<close>

text \<open>C31. In a database reached from an empty one by any sequence of writes, failed ones included, the indexes agree
  with the blocks: a block found by number has that number and is found under its own hash, a block found
  by hash has that hash, and the number index gives its number. No read of a block, transaction,
  receipt, state, contract slot, validator set or latest number fails or panics while the storage medium does not.\<close>

theorem database_index_consistent:
  assumes "env_ok E V" and "db_fresh E V d0" and "(db_step E V)\<^sup>*\<^sup>* d0 d" and "healthy (se_rocks E) (db_handle d)"
  shows "(\<forall>n b. db_get_block_by_number E d n = Ok (Some b) \<longrightarrow>
        block_number b = n \<and> db_get_block E d (block_hash (se_lib E) (se_wire E) b) = Ok (Some b)) \<and>
    (\<forall>h b. db_get_block E d h = Ok (Some b) \<longrightarrow>
        block_hash (se_lib E) (se_wire E) b = h \<and> db_get_block_number E d h = Ok (Some (block_number b))) \<and>
    (\<forall>h n a slot. is_ok (db_get_block E d h) \<and> is_ok (db_get_block_by_number E d n) \<and>
        is_ok (db_get_block_number E d h) \<and> is_ok (db_get_transaction E d h) \<and> is_ok (db_get_receipt E d h) \<and>
        is_ok (get_state E d n) \<and> is_ok (get_contract_storage E d a slot) \<and> is_ok (get_validator_set E d) \<and>
        is_ok (get_latest_block_number E d))"
proof -
  have ok: "database_ok E V d" by (rule reachable_ok [OF assms(1-3)])
  note ctx = assms(1) ok assms(4)
  have by_number: "block_number b = n \<and> db_get_block E d (block_hash (se_lib E) (se_wire E) b) = Ok (Some b)"
    if "db_get_block_by_number E d n = Ok (Some b)" for n b
    using get_by_number_ok [OF ctx, of n] that by auto
  have total: "is_ok (db_get_block E d h)" "is_ok (db_get_block_by_number E d n)" "is_ok (db_get_block_number E d h)"
    "is_ok (get_contract_storage E d a slot)" "is_ok (get_latest_block_number E d)" for h n a slot
    using get_block_ok [OF ctx] get_by_number_ok [OF ctx, of n] raw_reads_total [OF ctx] by (auto simp: is_ok_iff)
  have decoded: "is_ok (db_get_transaction E d h)" "is_ok (db_get_receipt E d h)" "is_ok (get_state E d n)"
    "is_ok (get_validator_set E d)" for h n
    unfolding is_ok_iff db_get_transaction_def db_get_receipt_def get_state_def get_validator_set_def
    by (rule decoded_total [OF ctx]; auto)+
  show ?thesis using by_number get_block_Some [OF ctx] total decoded by blast
qed

theorem database_index_consistent_witness:
  "block_number (block_genesis hash_zero) = 0 \<and>
   db_get_block (demo_env [block_genesis hash_zero] [] [] [] [])
     (snd (store_block (demo_env [block_genesis hash_zero] [] [] [] []) demo_db (block_genesis hash_zero)))
     (block_hash demo_lib demo_wire (block_genesis hash_zero)) = Ok (Some (block_genesis hash_zero)) \<and>
   is_ok (db_get_receipt (demo_env [block_genesis hash_zero] [] [] [] [])
     (snd (store_block (demo_env [block_genesis hash_zero] [] [] [] []) demo_db (block_genesis hash_zero))) hash_zero)"
proof -
  let ?g = "block_genesis hash_zero"
  let ?E = "demo_env [?g] [] [] [] []"
  let ?d = "snd (store_block ?E demo_db ?g)"
  have env: "env_ok ?E (\<lambda>db. db)" by (rule demo_env_ok) simp_all
  have lw: "se_lib ?E = demo_lib" "se_wire ?E = demo_wire" by (simp_all add: demo_env_def)
  have "no_collision ?E (\<lambda>db. db) demo_db ?g" by (simp add: no_collision_def)
  then have step: "(db_step ?E (\<lambda>db. db))\<^sup>*\<^sup>* demo_db ?d" by (intro r_into_rtranclp step_block)
  have txs: "blk_transactions ?g = []" by (simp add: block_genesis_def)
  have n: "block_number ?g = 0" by (simp add: block_number_def block_genesis_def)
  have ser: "serialize (se_block ?E) ?g = Inr [0]" "deserialize (se_block ?E) [0] = Inr ?g"
    by (simp_all add: demo_env_def table_codec_def)
  have "db_get_block_by_number ?E ?d 0 = Ok (Some ?g)"
    by (simp add: store_block_def Let_def ser txs n lw db_get_block_by_number_def db_get_block_def db_get_decoded_def
        hash_from_slice_as_bytes)
  then show ?thesis
    using database_index_consistent [OF env demo_fresh step demo_healthy] unfolding lw by blast
qed

end
