(* ===== verification/Database_Queries.thy ===== *)
theory Database_Queries
  imports Database_Properties "HOL-Library.Multiset"
begin

text \<open>
  What the operations of the persistent store do: storing and reading back blocks and pending
  transactions, the order of the fork history, what compaction and pruning remove, and what the
  address index answers.
\<close>

section \<open>Blocks\<close>

lemma store_transaction_Ok:
  assumes "env_ok E V" and "cfs_open E d" and "db_store_transaction E d tx receipt = (Ok (), d')"
  shows "\<exists>tv rv. serialize (se_tx E) tx = Inr tv \<and> serialize (se_receipt E) receipt = Inr rv \<and> cfs_open E d' \<and>
    db_view V d' = (db_view V d)
      (CfTransactions := fmupd (hash_as_bytes (db_tx_hash E tx)) tv (db_view V d CfTransactions),
       CfReceipts := fmupd (hash_as_bytes (db_tx_hash E tx)) rv (db_view V d CfReceipts))"
proof -
  obtain tv where tv: "serialize (se_tx E) tx = Inr tv"
    using assms(3) by (cases "serialize (se_tx E) tx") (auto simp: db_store_transaction_def Let_def)
  obtain rv where rv: "serialize (se_receipt E) receipt = Inr rv"
    using assms(3) tv by (cases "serialize (se_receipt E) receipt") (auto simp: db_store_transaction_def Let_def)
  let ?k = "hash_as_bytes (db_tx_hash E tx)"
  have w: "db_write E d [PutCf (cf_as_str CfTransactions) ?k tv, PutCf (cf_as_str CfReceipts) ?k rv] = (Ok (), d')"
    using assms(2,3) tv rv by (simp add: db_store_transaction_def Let_def del: cf_as_str.simps)
  have "db_effect E V [PutCf (cf_as_str CfTransactions) ?k tv, PutCf (cf_as_str CfReceipts) ?k rv] d d'"
    using db_write_effect [OF env_rocks [OF assms(1)] w] by simp
  then show ?thesis using assms(2) tv rv by (simp add: db_effect_def del: cf_as_str.simps)
qed

text \<open>After the transactions of a block have been stored, each is there with its receipt.\<close>

lemma store_block_txs_Ok:
  assumes "env_ok E V"
  shows "cfs_open E d \<Longrightarrow> inj_on (db_tx_hash E) (set txs) \<Longrightarrow> store_block_txs E number d txs = (Ok (), d') \<Longrightarrow>
    cfs_open E d' \<and>
    (\<forall>c. c \<notin> {CfTransactions, CfReceipts} \<longrightarrow> db_view V d' c = db_view V d c) \<and>
    (\<forall>h. h \<notin> db_tx_hash E ` set txs \<longrightarrow>
      fmlookup (db_view V d' CfTransactions) (hash_as_bytes h) = fmlookup (db_view V d CfTransactions) (hash_as_bytes h) \<and>
      fmlookup (db_view V d' CfReceipts) (hash_as_bytes h) = fmlookup (db_view V d CfReceipts) (hash_as_bytes h)) \<and>
    (\<forall>tx \<in> set txs. \<exists>tv rv. serialize (se_tx E) tx = Inr tv \<and> serialize (se_receipt E) (block_receipt E number tx) = Inr rv \<and>
      fmlookup (db_view V d' CfTransactions) (hash_as_bytes (db_tx_hash E tx)) = Some tv \<and>
      fmlookup (db_view V d' CfReceipts) (hash_as_bytes (db_tx_hash E tx)) = Some rv)"
proof (induction txs arbitrary: d)
  case (Cons tx txs)
  obtain r d1 where s: "db_store_transaction E d tx (block_receipt E number tx) = (r, d1)" by fastforce
  have r: "r = Ok ()" and rest: "store_block_txs E number d1 txs = (Ok (), d')" using Cons.prems(3) s by (cases r; auto)+
  obtain tv rv where ser: "serialize (se_tx E) tx = Inr tv" "serialize (se_receipt E) (block_receipt E number tx) = Inr rv"
    and o1: "cfs_open E d1" and v1: "db_view V d1 = (db_view V d)
      (CfTransactions := fmupd (hash_as_bytes (db_tx_hash E tx)) tv (db_view V d CfTransactions),
       CfReceipts := fmupd (hash_as_bytes (db_tx_hash E tx)) rv (db_view V d CfReceipts))"
    using store_transaction_Ok [OF assms Cons.prems(1) s [unfolded r]] by blast
  have inj: "inj_on (db_tx_hash E) (set txs)" using Cons.prems(2) by simp
  note IH = Cons.IH [OF o1 inj rest]
  have first: "\<exists>tv rv. serialize (se_tx E) tx = Inr tv \<and> serialize (se_receipt E) (block_receipt E number tx) = Inr rv \<and>
      fmlookup (db_view V d' CfTransactions) (hash_as_bytes (db_tx_hash E tx)) = Some tv \<and>
      fmlookup (db_view V d' CfReceipts) (hash_as_bytes (db_tx_hash E tx)) = Some rv"
  proof (cases "tx \<in> set txs")
    case True
    then show ?thesis using IH by blast
  next
    case False
    then have "db_tx_hash E tx \<notin> db_tx_hash E ` set txs" using Cons.prems(2) by auto
    then show ?thesis using IH ser by (simp add: v1)
  qed
  show ?case using IH first by (auto simp: v1)
qed simp

lemma store_block_Ok:
  assumes "env_ok E V" and "cfs_open E d" and "store_block E d b = (Ok (), d')"
  obtains bv d1 where "serialize (se_block E) b = Inr bv" and "db_effect E V (block_ops E b bv) d d1" and "cfs_open E d1"
    and "store_block_txs E (block_number b) d1 (blk_transactions b) = (Ok (), d')"
proof -
  obtain bv where bv: "serialize (se_block E) b = Inr bv"
    using assms(3) by (cases "serialize (se_block E) b") (auto simp: store_block_def Let_def)
  obtain r d1 where w: "db_write E d (block_ops E b bv) = (r, d1)" by fastforce
  have "db_try r d1 (\<lambda>_. store_block_txs E (block_number b) d1 (blk_transactions b)) = (Ok (), d')"
    using assms(2,3) bv w by (simp add: store_block_def Let_def del: cf_as_str.simps)
  then have r: "r = Ok ()" and t: "store_block_txs E (block_number b) d1 (blk_transactions b) = (Ok (), d')"
    by (cases r; auto)+
  have e: "db_effect E V (block_ops E b bv) d d1" using db_write_effect [OF env_rocks [OF assms(1)] w] r by simp
  then have "cfs_open E d1" using assms(2) by (simp add: db_effect_def)
  with bv e t that show thesis by blast
qed

section \<open>Properties of blocks\<close>

text \<open>C32. A block that has been stored is read back by its hash and by its number, its number by its hash, and each of
  its transactions by its hash; no other block is changed. The receipt stored with each transaction
  always says success and 21000 gas, and replaces one that was stored before.\<close>

theorem store_block_roundtrip:
  assumes "env_ok E V" and "cfs_open E d" and "store_block E d b = (Ok (), d')"
    and "healthy (se_rocks E) (db_handle d)" and "healthy (se_rocks E) (db_handle d')"
    and "inj_on (db_tx_hash E) (set (blk_transactions b))"
  shows "db_get_block E d' (block_hash (se_lib E) (se_wire E) b) = Ok (Some b) \<and>
    db_get_block_by_number E d' (block_number b) = Ok (Some b) \<and>
    db_get_block_number E d' (block_hash (se_lib E) (se_wire E) b) = Ok (Some (block_number b)) \<and>
    (\<forall>h. h \<noteq> block_hash (se_lib E) (se_wire E) b \<longrightarrow> db_get_block E d' h = db_get_block E d h) \<and>
    (\<forall>tx \<in> set (blk_transactions b). db_get_transaction E d' (db_tx_hash E tx) = Ok (Some tx) \<and>
      db_get_receipt E d' (db_tx_hash E tx) = Ok (Some (block_receipt E (block_number b) tx)))"
proof -
  obtain bv d1 where bv: "serialize (se_block E) b = Inr bv" and e: "db_effect E V (block_ops E b bv) d d1"
    and o1: "cfs_open E d1" and t: "store_block_txs E (block_number b) d1 (blk_transactions b) = (Ok (), d')"
    using store_block_Ok [OF assms(1-3)] by blast
  note txs = store_block_txs_Ok [OF assms(1) o1 assms(6) t]
  have o': "cfs_open E d'" and kept: "\<And>c. c \<notin> {CfTransactions, CfReceipts} \<Longrightarrow> db_view V d' c = db_view V d1 c"
    using txs by simp_all
  have stored: "\<forall>tx \<in> set (blk_transactions b). \<exists>tv rv. serialize (se_tx E) tx = Inr tv \<and>
      serialize (se_receipt E) (block_receipt E (block_number b) tx) = Inr rv \<and>
      fmlookup (db_view V d' CfTransactions) (hash_as_bytes (db_tx_hash E tx)) = Some tv \<and>
      fmlookup (db_view V d' CfReceipts) (hash_as_bytes (db_tx_hash E tx)) = Some rv"
    using txs by (elim conjE)
  let ?h = "block_hash (se_lib E) (se_wire E) b"
  have v1: "db_view V d1 = (db_view V d)(CfBlocks := fmupd (hash_as_bytes ?h) bv (db_view V d CfBlocks),
      CfBlockHashes := fmupd (be_bytes 8 (block_number b)) (hash_as_bytes ?h) (db_view V d CfBlockHashes),
      CfBlockNumbers := fmupd (hash_as_bytes ?h) (be_bytes 8 (block_number b)) (db_view V d CfBlockNumbers))"
    using e by (simp add: db_effect_def del: cf_as_str.simps)
  have v': "db_view V d' CfBlocks = fmupd (hash_as_bytes ?h) bv (db_view V d CfBlocks)"
    "fmlookup (db_view V d' CfBlockHashes) (be_bytes 8 (block_number b)) = Some (hash_as_bytes ?h)"
    "fmlookup (db_view V d' CfBlockNumbers) (hash_as_bytes ?h) = Some (be_bytes 8 (block_number b))"
    using kept by (simp_all add: v1)
  have de: "deserialize (se_block E) bv = Inr b" using assms(1) bv by (auto simp: env_codecs)
  have g: "db_get_block E d' ?h = Ok (Some b)"
    using de v'(1) by (simp add: db_get_block_def db_get_decoded_healthy [OF assms(1,5) o'])
  have n: "db_get_block_by_number E d' (block_number b) = Ok (Some b)"
    using g v'(2) o' by (simp add: db_get_block_by_number_def db_get_healthy [OF assms(1,5)] hash_from_slice_as_bytes del: cf_as_str.simps)
  have k: "db_get_block_number E d' ?h = Ok (Some (block_number b))"
    using v'(3) o' by (simp add: db_get_block_number_def db_get_healthy [OF assms(1,5)] db_number_def del: cf_as_str.simps)
  have other: "db_get_block E d' h = db_get_block E d h" if "h \<noteq> ?h" for h
    using that v'(1) by (simp add: db_get_block_def db_get_decoded_healthy [OF assms(1,5) o'] db_get_decoded_healthy [OF assms(1,4,2)])
  have "db_get_transaction E d' (db_tx_hash E tx) = Ok (Some tx) \<and>
      db_get_receipt E d' (db_tx_hash E tx) = Ok (Some (block_receipt E (block_number b) tx))"
    if m: "tx \<in> set (blk_transactions b)" for tx
  proof -
    obtain tv rv where l: "serialize (se_tx E) tx = Inr tv" "serialize (se_receipt E) (block_receipt E (block_number b) tx) = Inr rv"
      "fmlookup (db_view V d' CfTransactions) (hash_as_bytes (db_tx_hash E tx)) = Some tv"
      "fmlookup (db_view V d' CfReceipts) (hash_as_bytes (db_tx_hash E tx)) = Some rv"
      using bspec [OF stored m] by blast
    have "deserialize (se_tx E) tv = Inr tx" "deserialize (se_receipt E) rv = Inr (block_receipt E (block_number b) tx)"
      using assms(1) l(1,2) by (auto simp: env_codecs)
    then show ?thesis using l(3,4)
      by (simp add: db_get_transaction_def db_get_receipt_def db_get_decoded_healthy [OF assms(1,5) o'])
  qed
  then show ?thesis using g n k other by blast
qed

theorem store_block_roundtrip_witness:
  "\<exists>d'. store_block (demo_env [block_genesis 5] [] [] [] []) demo_db (block_genesis 5) = (Ok (), d') \<and>
     db_get_block_by_number (demo_env [block_genesis 5] [] [] [] []) d' 0 = Ok (Some (block_genesis 5))"
proof -
  let ?g = "block_genesis 5"
  let ?E = "demo_env [?g] [] [] [] []"
  have env: "env_ok ?E (\<lambda>db. db)" by (rule demo_env_ok) simp_all
  have ser: "serialize (se_block ?E) ?g = Inr [0]" by (simp add: demo_env_def table_codec_def)
  have txs: "blk_transactions ?g = []" by (simp add: block_genesis_def)
  have n: "block_number ?g = 0" by (simp add: block_number_def block_genesis_def)
  obtain d' where d': "store_block ?E demo_db ?g = (Ok (), d')"
    by (simp add: store_block_def Let_def ser txs)
  show ?thesis
    using store_block_roundtrip [OF env demo_open d' demo_healthy demo_healthy] d' by (auto simp: txs n)
qed

section \<open>Pending transactions\<close>

text \<open>What the loading loop makes of one item.\<close>

definition fresh_entry :: "'db storage_env \<Rightarrow> u64 \<Rightarrow> u64 \<Rightarrow> bytes \<times> bytes \<Rightarrow> (Transaction \<times> u64) list" where
  "fresh_entry E now age e =
     (case deserialize (se_pending E) (snd e) of
        Inr md \<Rightarrow> if saturating_sub now (pm_added_timestamp md) < age then [(pm_transaction md, pm_gas_price md)] else []
      | Inl _ \<Rightarrow> [])"

lemma fresh_pending_concat: "fresh_pending E now age es = concat (map (fresh_entry E now age) es)"
  by (induction es) (auto simp: fresh_entry_def split: sum.splits)

lemma fresh_pending_mset:
  "mset es = mset es' \<Longrightarrow> mset (fresh_pending E now age es) = mset (fresh_pending E now age es')"
  by (metis fresh_pending_concat mset_concat mset_map sum_mset_sum_list)

text \<open>The column after a batch of pending transactions with different hashes.\<close>

lemma pending_batch_column:
  assumes "env_ok E V"
  shows "pending_batch E (cf_as_str CfPendingTransactions) (cf_as_str CfTransactionByAddress) now txs = Ok ops \<Longrightarrow>
    distinct (map (\<lambda>t. db_tx_hash E (fst t)) txs) \<Longrightarrow>
    \<exists>bs. length bs = length txs \<and>
      (\<forall>i < length txs. deserialize (se_pending E) (bs ! i) =
        Inr \<lparr>pm_transaction = fst (txs ! i), pm_gas_price = snd (txs ! i), pm_added_timestamp = now\<rparr>) \<and>
      foldl column_op M ops CfPendingTransactions =
        M CfPendingTransactions ++\<^sub>f fmap_of_list (zip (map (\<lambda>t. hash_as_bytes (db_tx_hash E (fst t))) txs) bs)"
proof (induction txs arbitrary: M ops)
  case (Cons t txs)
  obtain tx g where t: "t = (tx, g)" by fastforce
  let ?md = "\<lparr>pm_transaction = tx, pm_gas_price = g, pm_added_timestamp = now\<rparr>"
  let ?k = "hash_as_bytes (db_tx_hash E tx)"
  obtain v ops' where v: "serialize (se_pending E) ?md = Inr v"
    and o: "pending_batch E (cf_as_str CfPendingTransactions) (cf_as_str CfTransactionByAddress) now txs = Ok ops'"
    and ops: "ops = PutCf (cf_as_str CfPendingTransactions) ?k v #
        PutCf (cf_as_str CfTransactionByAddress) (address_key (tx_from tx) (db_tx_hash E tx)) [] # ops'"
    using Cons.prems(1) by (auto simp: t Let_def and_then_eq_Ok simp del: cf_as_str.simps)
  let ?M = "M(CfPendingTransactions := fmupd ?k v (M CfPendingTransactions),
      CfTransactionByAddress := fmupd (address_key (tx_from tx) (db_tx_hash E tx)) [] (M CfTransactionByAddress))"
  have M: "foldl column_op M ops = foldl column_op ?M ops'" by (simp add: ops del: cf_as_str.simps)
  have de: "deserialize (se_pending E) v = Inr ?md" using assms v by (auto simp: env_codecs)
  obtain bs where bs: "length bs = length txs" "\<forall>i < length txs. deserialize (se_pending E) (bs ! i) =
        Inr \<lparr>pm_transaction = fst (txs ! i), pm_gas_price = snd (txs ! i), pm_added_timestamp = now\<rparr>"
      "foldl column_op ?M ops' CfPendingTransactions =
        ?M CfPendingTransactions ++\<^sub>f fmap_of_list (zip (map (\<lambda>t. hash_as_bytes (db_tx_hash E (fst t))) txs) bs)"
    using Cons.IH [OF o, of ?M] Cons.prems(2) by fastforce
  have notin: "?k \<notin> set (map fst (zip (map (\<lambda>t. hash_as_bytes (db_tx_hash E (fst t))) txs) bs))"
    using Cons.prems(2) bs(1) by (force simp: t)
  let ?rest = "fmap_of_list (zip (map (\<lambda>t. hash_as_bytes (db_tx_hash E (fst t))) txs) bs)"
  have nl: "fmlookup ?rest ?k = None" using notin by (simp add: fmlookup_of_list map_of_eq_None_iff)
  then have nd: "?k |\<notin>| fmdom ?rest" by (rule fmdom_notI)
  have "fmupd ?k v (M CfPendingTransactions) ++\<^sub>f ?rest = M CfPendingTransactions ++\<^sub>f fmupd ?k v ?rest"
    by (rule fmap_ext) (use nd in auto)
  then show ?case using bs de
    by (intro exI [of _ "v # bs"]) (simp add: M t nth_Cons split: nat.splits)
qed simp

lemma store_pending_Ok:
  assumes "env_ok E V" and "cfs_open E d" and "dc_enable_mempool_persistence (db_config d)"
    and "store_pending_transactions E now d txs = (Ok n, d')"
  obtains ops where "pending_batch E (cf_as_str CfPendingTransactions) (cf_as_str CfTransactionByAddress) now txs = Ok ops"
    and "db_effect E V ops d d'" and "n = of_nat (length txs)"
proof -
  let ?p = "pending_batch E (cf_as_str CfPendingTransactions) (cf_as_str CfTransactionByAddress) now txs"
  obtain ops where p: "?p = Ok ops" using assms(2-4)
    by (cases ?p) (auto simp: store_pending_transactions_def simp del: cf_as_str.simps)
  obtain r d1 where w: "db_write E d ops = (r, d1)" by fastforce
  have "db_try r d1 (\<lambda>_. (Ok (of_nat (length txs)), d1)) = (Ok n, d')"
    using assms(2-4) p w by (simp add: store_pending_transactions_def del: cf_as_str.simps)
  then have "r = Ok ()" "d1 = d'" "n = of_nat (length txs)" by (cases r; auto)+
  with p w that show thesis using db_write_effect [OF env_rocks [OF assms(1)] w] by auto
qed

lemma zip_nth_concat:
  "length bs = length ts \<Longrightarrow> (\<And>i. i < length ts \<Longrightarrow> f (ks ! i, bs ! i) = [ts ! i]) \<Longrightarrow> length ks = length ts \<Longrightarrow>
     concat (map f (zip ks bs)) = ts"
proof -
  assume h: "length bs = length ts" "\<And>i. i < length ts \<Longrightarrow> f (ks ! i, bs ! i) = [ts ! i]" "length ks = length ts"
  have "map f (zip ks bs) = map (\<lambda>t. [t]) ts" using h by (intro nth_equalityI) simp_all
  then show ?thesis by simp
qed

text \<open>C33. Pending transactions stored with their gas prices into an empty pool column come back, within the retention time
  and after a restart, as exactly those transactions, ordered by falling gas price.\<close>

theorem pending_transactions_roundtrip:
  assumes "env_ok E V" and "cfs_open E d" and "dc_enable_mempool_persistence (db_config d)"
    and "db_view V d CfPendingTransactions = fmempty" and "distinct (map (\<lambda>t. db_tx_hash E (fst t)) txs)"
    and "store_pending_transactions E now d txs = (Ok n, d')" and "healthy (se_rocks E) (db_handle d')"
    and "saturating_sub later now < dc_fork_history_retention_days (db_config d) * 86400"
  shows "\<exists>ps. load_pending_transactions E later d' = Ok (map fst ps) \<and> mset ps = mset txs \<and>
    sorted_wrt (\<lambda>p q. snd q \<le> snd p) ps"
proof -
  obtain ops where p: "pending_batch E (cf_as_str CfPendingTransactions) (cf_as_str CfTransactionByAddress) now txs = Ok ops"
    and e: "db_effect E V ops d d'" using store_pending_Ok [OF assms(1-3,6)] by blast
  let ?ks = "map (\<lambda>t. hash_as_bytes (db_tx_hash E (fst t))) txs"
  let ?age = "dc_fork_history_retention_days (db_config d) * 86400"
  obtain bs where bs: "length bs = length txs" "\<forall>i < length txs. deserialize (se_pending E) (bs ! i) =
        Inr \<lparr>pm_transaction = fst (txs ! i), pm_gas_price = snd (txs ! i), pm_added_timestamp = now\<rparr>"
      "foldl column_op (db_view V d) ops CfPendingTransactions =
        db_view V d CfPendingTransactions ++\<^sub>f fmap_of_list (zip ?ks bs)"
    using pending_batch_column [OF assms(1) p assms(5), of "db_view V d"] assms(4) by auto
  let ?m = "db_view V d' CfPendingTransactions"
  have m: "?m = fmap_of_list (zip ?ks bs)" using e bs(3) assms(4) by (simp add: db_effect_def)
  have dk: "distinct ?ks" using assms(5) by (simp add: distinct_map inj_on_def)
  have "enumerates (zip ?ks bs) ?m" using dk bs(1) by (simp add: enumerates_def m)
  then have "mset (btree_iter ?m) = mset (zip ?ks bs)"
    using enumerates_btree_iter [of ?m] by (metis distinct_map enumerates_def enumerates_set set_eq_iff_mset_eq_distinct)
  then have "mset (fresh_pending E later ?age (btree_iter ?m)) = mset (fresh_pending E later ?age (zip ?ks bs))"
    by (rule fresh_pending_mset)
  also have "fresh_pending E later ?age (zip ?ks bs) = txs"
    unfolding fresh_pending_concat using bs(1,2) assms(8)
    by (intro zip_nth_concat) (auto simp: fresh_entry_def)
  finally have perm: "mset (sort_by_gas_price (fresh_pending E later ?age (btree_iter ?m))) = mset txs"
    by (simp add: sort_by_gas_price_def)
  have "sorted_wrt (\<lambda>p q. snd q \<le> snd p) (sort_by_gas_price (fresh_pending E later ?age (btree_iter ?m)))"
    using sorted_sort_key [of "\<lambda>p :: Transaction \<times> u64. - int (unat (snd p))" "fresh_pending E later ?age (btree_iter ?m)"]
    unfolding sort_by_gas_price_def sorted_map by (rule sorted_wrt_mono_rel [rotated]) (simp add: word_le_def)
  moreover have "load_pending_transactions E later d' =
      Ok (map fst (sort_by_gas_price (fresh_pending E later ?age (btree_iter ?m))))"
    using e assms(2,3) by (simp add: load_pending_transactions_def db_iter_healthy [OF assms(1,7)] db_effect_def Let_def
        del: cf_as_str.simps)
  ultimately show ?thesis using perm by blast
qed

theorem pending_transactions_roundtrip_witness:
  "\<exists>d' ps. store_pending_transactions
       (demo_env [] [] [] [\<lparr>pm_transaction = transaction_new 9 1 0 (Stake 5) 7 21000, pm_gas_price = 7, pm_added_timestamp = 100\<rparr>] [])
       100 demo_db [(transaction_new 9 1 0 (Stake 5) 7 21000, 7 :: u64)] = (Ok 1, d') \<and>
     load_pending_transactions
       (demo_env [] [] [] [\<lparr>pm_transaction = transaction_new 9 1 0 (Stake 5) 7 21000, pm_gas_price = 7, pm_added_timestamp = 100\<rparr>] [])
       200 d' = Ok (map fst ps) \<and> mset ps = {#(transaction_new 9 1 0 (Stake 5) 7 21000, 7 :: u64)#}"
proof -
  let ?tx = "transaction_new 9 1 0 (Stake 5) 7 21000"
  let ?E = "demo_env [] [] [] [\<lparr>pm_transaction = ?tx, pm_gas_price = 7, pm_added_timestamp = 100\<rparr>] []"
  have env: "env_ok ?E (\<lambda>db. db)" by (rule demo_env_ok) simp_all
  have on: "dc_enable_mempool_persistence (db_config demo_db)"
    and days: "dc_fork_history_retention_days (db_config demo_db) = 30" by (simp_all add: demo_db_def database_config_default_def)
  have ser: "serialize (se_pending ?E) \<lparr>pm_transaction = ?tx, pm_gas_price = 7, pm_added_timestamp = 100\<rparr> = Inr [0]"
    by (simp add: demo_env_def table_codec_def)
  obtain d' where d': "store_pending_transactions ?E 100 demo_db [(?tx, 7)] = (Ok 1, d')"
    using on by (simp add: store_pending_transactions_def Let_def ser)
  have "\<exists>ps. load_pending_transactions ?E 200 d' = Ok (map fst ps) \<and> mset ps = mset [(?tx, 7 :: u64)] \<and>
      sorted_wrt (\<lambda>p q. snd q \<le> snd p) ps"
    by (rule pending_transactions_roundtrip [OF env demo_open on _ _ d' demo_healthy])
      (simp_all add: days saturating_sub_def)
  then show ?thesis using d' by auto
qed

section \<open>Fork history\<close>

lemma decoded_Cons:
  "decoded c ((k, v) # items) = (case deserialize c v of Inr x \<Rightarrow> (k, x) # decoded c items | Inl e \<Rightarrow> decoded c items)"
  by (simp add: decoded_def List.map_filter_simps split: sum.splits)

lemma decoded_Nil [simp]: "decoded c [] = []"
  by (simp add: decoded_def List.map_filter_simps)

lemma decoded_set: "(k, x) \<in> set (decoded c items) \<longleftrightarrow> (\<exists>v. (k, v) \<in> set items \<and> deserialize c v = Inr x)"
  by (induction items) (auto simp: decoded_Cons split: sum.splits)

lemma decoded_filter: "decoded c (filter (\<lambda>e. P (fst e)) items) = filter (\<lambda>e. P (fst e)) (decoded c items)"
  by (induction items) (auto simp: decoded_Cons split: sum.splits)

lemma decoded_rev: "decoded c (rev items) = rev (decoded c items)"
  by (induction items) (auto simp: decoded_Cons decoded_def List.map_filter_def split: sum.splits)

lemma decoded_keys_subseq: "sorted (map fst items) \<Longrightarrow> sorted (map fst (decoded c items))"
  by (induction items) (force simp: decoded_Cons decoded_set split: sum.splits)+

lemma decoded_distinct: "distinct (map fst items) \<Longrightarrow> distinct (map fst (decoded c items))"
  by (induction items) (force simp: decoded_Cons decoded_set image_iff split: sum.splits)+

text \<open>The events of the fork history in the order of their keys, oldest first.\<close>

definition fork_events :: "'db storage_env \<Rightarrow> ('db \<Rightarrow> contents) \<Rightarrow> 'db Database \<Rightarrow> (bytes \<times> StoredForkEvent) list" where
  "fork_events E V d = decoded (se_fork E) (btree_iter (db_view V d CfForkHistory))"

lemma fork_events_key:
  assumes "database_ok E V d" and "(k, ev) \<in> set (fork_events E V d)"
  shows "k = fork_key (fe_timestamp ev) (fe_fork_point ev)"
proof -
  obtain v where v: "fmlookup (db_view V d CfForkHistory) k = Some v" "deserialize (se_fork E) v = Inr ev"
    using assms(2) by (auto simp: fork_events_def decoded_set iter_start_set)
  then have "entry_ok E (db_view V d) CfForkHistory k v" using assms(1) contents_okD unfolding database_ok_def by blast
  then show ?thesis using v by auto
qed

lemma fork_key_le: "fork_key t p \<le> fork_key u q \<Longrightarrow> t \<le> u"
  by (auto simp: fork_key_def lex_append)

lemma fork_events_sorted:
  assumes "database_ok E V d"
  shows "sorted_wrt (\<lambda>a b. fe_timestamp a \<le> fe_timestamp b) (map snd (fork_events E V d))"
proof -
  have "sorted_wrt (\<lambda>a b. fst a \<le> fst b) (fork_events E V d)"
    using decoded_keys_subseq [OF sorted_btree_iter] unfolding fork_events_def by (simp add: sorted_wrt_map)
  then have "sorted_wrt (\<lambda>a b. fe_timestamp (snd a) \<le> fe_timestamp (snd b)) (fork_events E V d)"
  proof (rule sorted_wrt_mono_rel [rotated])
    fix a b
    assume ab: "a \<in> set (fork_events E V d)" "b \<in> set (fork_events E V d)" "fst a \<le> fst b"
    then have "fst a = fork_key (fe_timestamp (snd a)) (fe_fork_point (snd a))"
      "fst b = fork_key (fe_timestamp (snd b)) (fe_fork_point (snd b))" using fork_events_key [OF assms] by (metis prod.collapse)+
    then show "fe_timestamp (snd a) \<le> fe_timestamp (snd b)" using ab(3) fork_key_le by metis
  qed
  then show ?thesis by (simp add: sorted_wrt_map)
qed

lemma fork_history_events:
  assumes "env_ok E V" and "cfs_open E d" and "healthy (se_rocks E) (db_handle d)"
  shows "get_fork_history E now d hours = Ok (filter (\<lambda>ev. (case hours of Some h \<Rightarrow> saturating_sub now (h * 3600) | None \<Rightarrow> 0) \<le> fe_timestamp ev)
    (rev (map snd (fork_events E V d))))"
  using assms(2) by (simp add: get_fork_history_def db_iter_healthy [OF assms(1,3)] fork_events_def decoded_rev rev_map Let_def
      del: cf_as_str.simps)

text \<open>C34. The fork history of a reachable database comes back newest first: the big-endian key makes the bytewise
  order of the store the order of the timestamps. It holds exactly the stored events that are not older
  than the cut-off.\<close>

theorem fork_history_newest_first:
  assumes "env_ok E V" and "db_fresh E V d0" and "(db_step E V)\<^sup>*\<^sup>* d0 d" and "healthy (se_rocks E) (db_handle d)"
  shows "\<exists>evs. get_fork_history E now d hours = Ok evs \<and> sorted_wrt (\<lambda>a b. fe_timestamp b \<le> fe_timestamp a) evs \<and>
    set evs = {ev. (\<exists>k v. fmlookup (db_view V d CfForkHistory) k = Some v \<and> deserialize (se_fork E) v = Inr ev) \<and>
      (case hours of Some h \<Rightarrow> saturating_sub now (h * 3600) | None \<Rightarrow> 0) \<le> fe_timestamp ev}"
proof -
  have ok: "database_ok E V d" by (rule reachable_ok [OF assms(1-3)])
  then have op: "cfs_open E d" by (simp add: database_ok_def)
  have "sorted_wrt (\<lambda>a b. fe_timestamp b \<le> fe_timestamp a) (rev (map snd (fork_events E V d)))"
    using fork_events_sorted [OF ok] by (simp add: sorted_wrt_rev)
  moreover have "set (map snd (fork_events E V d)) =
      {ev. \<exists>k v. fmlookup (db_view V d CfForkHistory) k = Some v \<and> deserialize (se_fork E) v = Inr ev}"
  proof (rule set_eqI)
    fix ev
    have "ev \<in> set (map snd (fork_events E V d)) \<longleftrightarrow> (\<exists>k. (k, ev) \<in> set (fork_events E V d))" by force
    then show "ev \<in> set (map snd (fork_events E V d)) \<longleftrightarrow>
      ev \<in> {ev. \<exists>k v. fmlookup (db_view V d CfForkHistory) k = Some v \<and> deserialize (se_fork E) v = Inr ev}"
      by (simp add: fork_events_def decoded_set iter_start_set)
  qed
  ultimately show ?thesis unfolding fork_history_events [OF assms(1) op assms(4), of now hours]
    by (auto simp: sorted_wrt_filter simp del: set_map)
qed

definition demo_event :: "u64 \<Rightarrow> u64 \<Rightarrow> StoredForkEvent" where
  "demo_event time depth = \<lparr>fe_fork_point = 40, fe_fork_hash = 0, fe_main_tip = 0, fe_fork_tip = 0, fe_main_length = 3,
     fe_fork_length = 4, fe_resolution_outcome = ''main_chain'', fe_timestamp = time, fe_reorg_depth = depth\<rparr>"

lemma demo_store_fork:
  assumes "E = demo_env bs txs rs ps fs" and "demo_event now depth \<in> set fs"
  shows "\<exists>d'. store_fork_event E now d 40 0 0 0 3 4 ''main_chain'' depth = (Ok (), d')"
  using assms by (simp add: store_fork_event_def Let_def demo_event_def [symmetric])
    (simp add: demo_env_def table_codec_def)

theorem fork_history_newest_first_witness:
  "\<exists>d' evs. store_fork_event (demo_env [] [] [] [] [demo_event 100 2]) 100 demo_db 40 0 0 0 3 4 ''main_chain'' 2 = (Ok (), d') \<and>
     get_fork_history (demo_env [] [] [] [] [demo_event 100 2]) 200 d' (Some 1) = Ok evs \<and>
     sorted_wrt (\<lambda>a b. fe_timestamp b \<le> fe_timestamp a) evs"
proof -
  let ?E = "demo_env [] [] [] [] [demo_event 100 2]"
  have env: "env_ok ?E (\<lambda>db. db)" by (rule demo_env_ok) simp_all
  obtain d' where d': "store_fork_event ?E 100 demo_db 40 0 0 0 3 4 ''main_chain'' 2 = (Ok (), d')"
    using demo_store_fork [OF refl, of 100 2 "[demo_event 100 2]"] by fastforce
  have "db_step ?E (\<lambda>db. db) demo_db (snd (store_fork_event ?E 100 demo_db 40 0 0 0 3 4 ''main_chain'' 2))" by (rule step_fork)
  then have "(db_step ?E (\<lambda>db. db))\<^sup>*\<^sup>* demo_db d'" unfolding d' snd_conv by (rule r_into_rtranclp)
  then show ?thesis using fork_history_newest_first [OF env demo_fresh _ demo_healthy, of d' 200 "Some 1"] d' by blast
qed

subsection \<open>Compaction\<close>

lemma btree_iter_fmfilter: "btree_iter (fmfilter P m) = filter (\<lambda>e. P (fst e)) (btree_iter m)"
proof (rule map_sorted_distinct_set_unique [of fst])
  have d: "distinct (map fst (filter (\<lambda>e. P (fst e)) (btree_iter m)))" by (rule distinct_map_filter [OF distinct_btree_iter])
  show "sorted (map fst (btree_iter (fmfilter P m)))" "distinct (map fst (btree_iter (fmfilter P m)))"
    by (rule sorted_btree_iter distinct_btree_iter)+
  show "sorted (map fst (filter (\<lambda>e. P (fst e)) (btree_iter m)))" by (rule sorted_filter [OF sorted_btree_iter])
  show "distinct (map fst (filter (\<lambda>e. P (fst e)) (btree_iter m)))" by (rule d)
  show s: "set (btree_iter (fmfilter P m)) = set (filter (\<lambda>e. P (fst e)) (btree_iter m))"
    by (auto simp: iter_start_set split: if_splits)
  show "inj_on fst (set (btree_iter (fmfilter P m)) \<union> set (filter (\<lambda>e. P (fst e)) (btree_iter m)))"
    unfolding s using d by (simp add: distinct_map)
qed

lemma fork_events_drop:
  assumes "db_view V d' CfForkHistory = fmdrop_fset (fset_of_list ks) (db_view V d CfForkHistory)"
  shows "fork_events E V d' = filter (\<lambda>e. fst e \<notin> set ks) (fork_events E V d)"
  unfolding fork_events_def assms fmfilter_alt_defs(3) btree_iter_fmfilter
  by (simp add: decoded_filter [of _ "\<lambda>k. k \<notin> set ks"] fset_of_list_elem)

lemma fork_events_distinct: "distinct (map fst (fork_events E V d))"
  unfolding fork_events_def by (rule decoded_distinct [OF distinct_btree_iter])

text \<open>The events that \<open>compact_fork_history\<close> drops.\<close>

definition insignificant :: "u64 \<Rightarrow> u64 \<Rightarrow> u64 \<Rightarrow> StoredForkEvent \<Rightarrow> bool" where
  "insignificant now threshold days ev \<longleftrightarrow>
     fe_timestamp ev < saturating_sub now (days * 86400) \<and> fe_reorg_depth ev \<le> threshold"

lemma compact_fork_history_Ok:
  assumes "env_ok E V" and "cfs_open E d" and "healthy (se_rocks E) (db_handle d)"
    and "compact_fork_history E now d threshold days = (Ok n, d')"
  shows "cfs_open E d' \<and> n = of_nat (length (filter (\<lambda>e. insignificant now threshold days (snd e)) (fork_events E V d))) \<and>
    fork_events E V d' = filter (\<lambda>e. \<not> insignificant now threshold days (snd e)) (fork_events E V d)"
proof -
  let ?old = "filter (\<lambda>e. insignificant now threshold days (snd e)) (fork_events E V d)"
  have f: "filter (\<lambda>(key, ev). fe_timestamp ev < saturating_sub now (days * 86400) \<and> fe_reorg_depth ev \<le> threshold)
      (decoded (se_fork E) (btree_iter (db_view V d CfForkHistory))) = ?old"
    by (simp add: fork_events_def insignificant_def split_def)
  have step: "(if map fst ?old \<noteq> [] then (case db_write E d (map (DeleteCf (cf_as_str CfForkHistory)) (map fst ?old)) of
        (r, d1) \<Rightarrow> db_try r d1 (\<lambda>_. (Ok (of_nat (length ?old)), d1))) else (Ok (of_nat (length ?old)), d)) = (Ok n, d')"
    using assms(2,4) by (simp only: compact_fork_history_def Let_def db_cf_open db_try.simps db_iter_healthy [OF assms(1,3)]
        iter_entries.simps f length_map)
  have keep: "filter (\<lambda>e. fst e \<notin> set (map fst ?old)) (fork_events E V d) =
      filter (\<lambda>e. \<not> insignificant now threshold days (snd e)) (fork_events E V d)"
  proof (rule filter_cong [OF refl])
    fix e
    assume e: "e \<in> set (fork_events E V d)"
    have "inj_on fst (set (fork_events E V d))" using fork_events_distinct [of E V d] by (simp add: distinct_map)
    then show "fst e \<notin> set (map fst ?old) \<longleftrightarrow> \<not> insignificant now threshold days (snd e)"
      using e by (auto dest: inj_onD)
  qed
  show ?thesis
  proof (cases "?old = []")
    case True
    then have "filter (\<lambda>e. \<not> insignificant now threshold days (snd e)) (fork_events E V d) = fork_events E V d"
      by (simp add: filter_empty_conv)
    then show ?thesis using step True assms(2) by simp
  next
    case False
    obtain r d1 where w: "db_write E d (map (DeleteCf (cf_as_str CfForkHistory)) (map fst ?old)) = (r, d1)" by fastforce
    have "db_try r d1 (\<lambda>_. (Ok (of_nat (length ?old)), d1)) = (Ok n, d')" using step False w by simp
    then have r: "r = Ok ()" "d1 = d'" "n = of_nat (length ?old)" by (cases r; auto)+
    then have "db_effect E V (map (DeleteCf (cf_as_str CfForkHistory)) (map fst ?old)) d d'"
      using db_write_effect [OF env_rocks [OF assms(1)] w] by auto
    then have "cfs_open E d'" "db_view V d' CfForkHistory = fmdrop_fset (fset_of_list (map fst ?old)) (db_view V d CfForkHistory)"
      using assms(2) unfolding db_effect_def column_deletes by (simp_all del: map_map)
    then show ?thesis using r(3) fork_events_drop [of V d' "map fst ?old" d E] unfolding keep by blast
  qed
qed

text \<open>C35. Compacting the fork history removes exactly the events that are both older than the given days and no
  deeper than the threshold, keeps the order of the others, and returns how many it removed.\<close>

theorem compact_fork_history_exact:
  assumes "env_ok E V" and "cfs_open E d" and "healthy (se_rocks E) (db_handle d)"
    and "compact_fork_history E now d threshold days = (Ok n, d')" and "healthy (se_rocks E) (db_handle d')"
  shows "\<exists>evs. get_fork_history E now d None = Ok evs \<and>
    get_fork_history E now d' None = Ok (filter (\<lambda>ev. \<not> insignificant now threshold days ev) evs) \<and>
    n = of_nat (length (filter (insignificant now threshold days) evs))"
proof -
  let ?P = "insignificant now threshold days"
  have c: "cfs_open E d'" "n = of_nat (length (filter (\<lambda>e. ?P (snd e)) (fork_events E V d)))"
    "fork_events E V d' = filter (\<lambda>e. \<not> ?P (snd e)) (fork_events E V d)"
    using compact_fork_history_Ok [OF assms(1-4)] by blast+
  have "get_fork_history E now d None = Ok (rev (map snd (fork_events E V d)))"
    using fork_history_events [OF assms(1-3), of now None] by simp
  moreover have "get_fork_history E now d' None = Ok (rev (map snd (fork_events E V d')))"
    using fork_history_events [OF assms(1) c(1) assms(5), of now None] by simp
  ultimately show ?thesis using c(2,3)
    by (simp add: rev_map [symmetric] rev_filter [symmetric] filter_map comp_def)
qed

theorem compact_fork_history_exact_witness:
  "\<exists>d' n d''. store_fork_event (demo_env [] [] [] [] [demo_event 100 2]) 100 demo_db 40 0 0 0 3 4 ''main_chain'' 2 = (Ok (), d') \<and>
     compact_fork_history (demo_env [] [] [] [] [demo_event 100 2]) 900000 d' 5 1 = (Ok n, d'') \<and>
     (\<exists>evs. get_fork_history (demo_env [] [] [] [] [demo_event 100 2]) 900000 d' None = Ok evs \<and>
        get_fork_history (demo_env [] [] [] [] [demo_event 100 2]) 900000 d'' None =
          Ok (filter (\<lambda>ev. \<not> insignificant 900000 5 1 ev) evs))"
proof -
  let ?E = "demo_env [] [] [] [] [demo_event 100 2]"
  have env: "env_ok ?E (\<lambda>db. db)" by (rule demo_env_ok) simp_all
  obtain d' where d': "store_fork_event ?E 100 demo_db 40 0 0 0 3 4 ''main_chain'' 2 = (Ok (), d')"
    using demo_store_fork [OF refl, of 100 2 "[demo_event 100 2]"] by fastforce
  have "\<exists>n d''. compact_fork_history ?E 900000 d' 5 1 = (Ok n, d'')"
    by (simp add: compact_fork_history_def Let_def db_iter_healthy [OF env demo_healthy] del: cf_as_str.simps)
  then obtain n d'' where c: "compact_fork_history ?E 900000 d' 5 1 = (Ok n, d'')" by blast
  show ?thesis using compact_fork_history_exact [OF env demo_open demo_healthy c demo_healthy] c d' by blast
qed

section \<open>Pruning of states\<close>

lemma prune_loop_count:
  "env_ok E V \<Longrightarrow> prune_loop E (cf_as_str CfState) is cnt d = (cnt', d') \<Longrightarrow> unat cnt + length is < 2 ^ 64 \<Longrightarrow>
     unat cnt \<le> unat cnt' \<and> unat cnt' \<le> unat cnt + length is \<and>
     (cfs_open E d \<longrightarrow> cfs_open E d') \<and>
     (\<forall>k. k \<notin> be_bytes 8 ` set is \<longrightarrow> fmlookup (db_view V d' CfState) k = fmlookup (db_view V d CfState) k) \<and>
     (\<forall>k. fmlookup (db_view V d CfState) k = None \<longrightarrow> fmlookup (db_view V d' CfState) k = None) \<and>
     (unat cnt' = unat cnt + length is \<longrightarrow> (\<forall>k \<in> be_bytes 8 ` set is. fmlookup (db_view V d' CfState) k = None))"
proof (induction "is" arbitrary: cnt d)
  case (Cons i "is")
  obtain r h where rh: "delete_cf (se_rocks E) (db_handle d) (cf_as_str CfState) (be_bytes 8 i) = (r, h)" by fastforce
  let ?d = "d\<lparr>db_handle := h\<rparr>" and ?c = "if r = Inr () then cnt + 1 else cnt"
  have e: "db_effect E V (if r = Inr () then [DeleteCf (cf_as_str CfState) (be_bytes 8 i)] else []) d ?d"
    by (rule db_delete_effect [OF Cons.prems(1) rh])
  then have v: "db_view V ?d CfState = (if r = Inr () then fmdrop (be_bytes 8 i) (db_view V d CfState) else db_view V d CfState)"
    and op: "cfs_open E d \<longrightarrow> cfs_open E ?d" by (auto simp: db_effect_def simp del: cf_as_str.simps)
  have "unat cnt + 1 < 2 ^ 64" using Cons.prems(3) by simp
  then have c: "unat ?c = (if r = Inr () then unat cnt + 1 else unat cnt)" using unat_add_u64 [of cnt 1] by simp
  have l: "prune_loop E (cf_as_str CfState) is ?c ?d = (cnt', d')" using Cons.prems(2) by (simp only: prune_loop.simps rh prod.case)
  have b: "unat ?c + length is < 2 ^ 64" using Cons.prems(3) by (simp add: c)
  note IH = Cons.IH [OF Cons.prems(1) l b, unfolded c v]
  show ?case
  proof (cases "r = Inr ()")
    case True
    then show ?thesis using IH op by auto
  next
    case False
    then show ?thesis using IH op by auto
  qed
qed simp

text \<open>Pruning never touches a state from the retained blocks on, whatever fails; when the returned count is the number
  of the blocks before them, none of the states of those is left. In archive mode nothing is removed.\<close>

lemma prune_keeps_recent_states:
  assumes "env_ok E V" and "cfs_open E d" and "db_prune E d current = (Ok n, d')"
    and "healthy (se_rocks E) (db_handle d)" and "healthy (se_rocks E) (db_handle d')"
  shows "case dc_pruning_mode (db_config d) of
      Archive \<Rightarrow> n = 0 \<and> d' = d
    | Pruned keep \<Rightarrow> n \<le> saturating_sub current keep \<and>
        (\<forall>i. saturating_sub current keep \<le> i \<longrightarrow> get_state E d' i = get_state E d i) \<and>
        (n = saturating_sub current keep \<longrightarrow> (\<forall>i. i < saturating_sub current keep \<longrightarrow> get_state E d' i = Ok None))"
proof (cases "dc_pruning_mode (db_config d)")
  case Archive
  then show ?thesis using assms(3) by (simp add: db_prune_def)
next
  case (Pruned keep)
  let ?kf = "saturating_sub current keep"
  let ?is = "map of_nat [0 ..< unat ?kf] :: u64 list"
  have l: "prune_loop E (cf_as_str CfState) ?is 0 d = (n, d')"
    using assms(2,3) Pruned by (auto simp: db_prune_def Let_def simp del: cf_as_str.simps split: prod.splits)
  have b: "unat (0 :: u64) + length ?is < 2 ^ 64" using unat_less_u64 [of ?kf] by simp
  note P = prune_loop_count [OF assms(1) l b]
  have o': "cfs_open E d'" using P assms(2) by blast
  have keys: "be_bytes 8 i \<in> be_bytes 8 ` set ?is \<longleftrightarrow> i < ?kf" for i :: u64
  proof -
    have "i \<in> set ?is \<longleftrightarrow> i < ?kf"
    proof
      assume "i \<in> set ?is"
      then obtain j where "j < unat ?kf" "i = of_nat j" by auto
      moreover from this have "unat i = j" using unat_less_u64 [of ?kf] by (simp add: unat_of_nat)
      ultimately show "i < ?kf" by (simp add: word_less_nat_alt)
    next
      assume "i < ?kf"
      then have "unat i < unat ?kf" by (simp add: word_less_nat_alt)
      then show "i \<in> set ?is" by (auto intro!: image_eqI [of _ _ "unat i"])
    qed
    then show ?thesis by auto
  qed
  have read: "get_state E x i = (case fmlookup (db_view V x CfState) (be_bytes 8 i) of
      None \<Rightarrow> Ok None | Some v \<Rightarrow> and_then (ser_result (deserialize (se_state E) v)) (\<lambda>s. Ok (Some s)))"
    if "healthy (se_rocks E) (db_handle x)" "cfs_open E x" for x i
    using that by (simp add: get_state_def db_get_decoded_healthy [OF assms(1)])
  have "n \<le> ?kf" using P by (simp add: word_le_nat_alt)
  moreover have "get_state E d' i = get_state E d i" if "?kf \<le> i" for i
  proof -
    have "be_bytes 8 i \<notin> be_bytes 8 ` set ?is" using that unfolding keys by simp
    then have "fmlookup (db_view V d' CfState) (be_bytes 8 i) = fmlookup (db_view V d CfState) (be_bytes 8 i)" using P by blast
    then show ?thesis by (simp only: read [OF assms(5) o'] read [OF assms(4,2)])
  qed
  moreover have "get_state E d' i = Ok None" if "n = ?kf" "i < ?kf" for i
  proof -
    have "be_bytes 8 i \<in> be_bytes 8 ` set ?is" using that(2) by (simp only: keys)
    moreover have "unat n = unat (0 :: u64) + length ?is" using that(1) by simp
    ultimately have "fmlookup (db_view V d' CfState) (be_bytes 8 i) = None" using P by blast
    then show ?thesis by (simp add: read [OF assms(5) o'])
  qed
  ultimately show ?thesis using Pruned by simp
qed

lemma prune_keeps_recent_states_witness:
  "\<exists>n d'. db_prune (demo_env [] [] [] [] []) demo_db 10003 = (Ok n, d') \<and> n \<le> 3 \<and>
     get_state (demo_env [] [] [] [] []) d' 3 = get_state (demo_env [] [] [] [] []) demo_db 3"
proof -
  let ?E = "demo_env [] [] [] [] []"
  have env: "env_ok ?E (\<lambda>db. db)" by (rule demo_env_ok) simp_all
  have mode: "dc_pruning_mode (db_config demo_db) = Pruned 10000" by (simp add: demo_db_def database_config_default_def)
  have kf: "saturating_sub 10003 10000 = 3" by (simp add: saturating_sub_def)
  have "\<exists>n d'. db_prune ?E demo_db 10003 = (Ok n, d')"
    unfolding db_prune_def mode using demo_open by (auto simp: Let_def split: prod.splits)
  then obtain n d' where p: "db_prune ?E demo_db 10003 = (Ok n, d')" by blast
  show ?thesis
    using prune_keeps_recent_states [OF env demo_open p demo_healthy demo_healthy] p unfolding mode by (auto simp: kf)
qed

section \<open>The address index\<close>

lemma by_address_none:
  assumes "\<And>h. db_get_transaction E d h = Ok None"
  shows "by_address_loop E d addr (map Inr es) = Ok []"
proof (induction es)
  case (Cons e es)
  then show ?case by (cases e) (simp add: assms split: outcome.splits)
qed simp

text \<open>The index from senders to transactions is written when pending transactions are stored, but it is
  resolved against the confirmed ones: right after pending transactions have been stored in an empty database,
  a query by any address, their senders included, returns nothing.\<close>

lemma address_index_misses_pending:
  assumes "env_ok E V" and "db_fresh E V d" and "store_pending_transactions E now d txs = (Ok n, d')"
    and "healthy (se_rocks E) (db_handle d')" and "dc_enable_mempool_persistence (db_config d)"
  shows "get_transactions_by_address E d' a = Ok []"
proof -
  have op: "cfs_open E d" using db_fresh_ok [OF assms(1,2)] by (simp add: database_ok_def)
  obtain ops where p: "pending_batch E (cf_as_str CfPendingTransactions) (cf_as_str CfTransactionByAddress) now txs = Ok ops"
    and e: "db_effect E V ops d d'" using store_pending_Ok [OF assms(1) op assms(5,3)] by blast
  have "foldl column_op M ops CfTransactions = M CfTransactions" for M using p
  proof (induction txs arbitrary: ops M)
    case (Cons t txs)
    obtain tx g where t: "t = (tx, g)" by fastforce
    from Cons show ?case by (auto simp: t Let_def and_then_eq_Ok simp del: cf_as_str.simps)
  qed simp
  then have "db_view V d' CfTransactions = fmempty" using e assms(2) by (simp add: db_effect_def db_fresh_def)
  moreover have o': "cfs_open E d'" using e op by (simp add: db_effect_def)
  ultimately have none: "db_get_transaction E d' h = Ok None" for h
    by (simp add: db_get_transaction_def db_get_decoded_healthy [OF assms(1,4)])
  show ?thesis using o' by_address_none [OF none]
    by (simp add: get_transactions_by_address_def healthy_iter [OF env_rocks [OF assms(1)] assms(4)] del: cf_as_str.simps)
qed

lemma address_index_misses_pending_witness:
  "\<exists>d'. store_pending_transactions
       (demo_env [] [] [] [\<lparr>pm_transaction = transaction_new 9 1 0 (Stake 5) 7 21000, pm_gas_price = 7, pm_added_timestamp = 100\<rparr>] [])
       100 demo_db [(transaction_new 9 1 0 (Stake 5) 7 21000, 7)] = (Ok 1, d') \<and>
     get_transactions_by_address
       (demo_env [] [] [] [\<lparr>pm_transaction = transaction_new 9 1 0 (Stake 5) 7 21000, pm_gas_price = 7, pm_added_timestamp = 100\<rparr>] [])
       d' 1 = Ok []"
proof -
  let ?tx = "transaction_new 9 1 0 (Stake 5) 7 21000"
  let ?E = "demo_env [] [] [] [\<lparr>pm_transaction = ?tx, pm_gas_price = 7, pm_added_timestamp = 100\<rparr>] []"
  have env: "env_ok ?E (\<lambda>db. db)" by (rule demo_env_ok) simp_all
  have on: "dc_enable_mempool_persistence (db_config demo_db)" by (simp add: demo_db_def database_config_default_def)
  have ser: "serialize (se_pending ?E) \<lparr>pm_transaction = ?tx, pm_gas_price = 7, pm_added_timestamp = 100\<rparr> = Inr [0]"
    by (simp add: demo_env_def table_codec_def)
  obtain d' where d': "store_pending_transactions ?E 100 demo_db [(?tx, 7)] = (Ok 1, d')"
    using on by (simp add: store_pending_transactions_def Let_def ser)
  then show ?thesis using address_index_misses_pending [OF env demo_fresh d' demo_healthy on] by blast
qed

end
