(* ===== verification/Gas.thy ===== *)
theory Gas
  imports Transaction
begin

text \<open>
  \<open>gas.rs\<close> and the error type of the \<open>smart-contracts\<close> crate: the gas schedule, the
  calculator and the meter, in the wrapping 64-bit arithmetic of the release build.
\<close>

section \<open>The code\<close>

datatype ContractError =
    ExecutionError string
  | OutOfGas
  | ContractNotFound string
  | InvalidBytecode string
  | DeploymentFailed string
  | Revert string
  | ContractStateError string
  | GasError string
  | PrecompileError string

record GasConfig =
  tx_gas :: Gas
  tx_data_zero_gas :: Gas
  tx_data_non_zero_gas :: Gas
  tx_create_gas :: Gas
  sstore_set_gas :: Gas
  sstore_reset_gas :: Gas
  sstore_clears_schedule :: Gas
  sload_gas :: Gas
  call_gas :: Gas
  create_gas :: Gas
  memory_gas :: Gas
  log_gas :: Gas
  log_topic_gas :: Gas
  log_data_gas :: Gas
  keccak256_gas :: Gas
  keccak256_word_gas :: Gas

definition gas_config_mainnet :: GasConfig where
  "gas_config_mainnet = \<lparr>tx_gas = 21000, tx_data_zero_gas = 4, tx_data_non_zero_gas = 16, tx_create_gas = 32000,
     sstore_set_gas = 20000, sstore_reset_gas = 5000, sstore_clears_schedule = 15000, sload_gas = 800,
     call_gas = 700, create_gas = 32000, memory_gas = 3, log_gas = 375, log_topic_gas = 375, log_data_gas = 8,
     keccak256_gas = 30, keccak256_word_gas = 6\<rparr>"

definition gas_config_test :: GasConfig where
  "gas_config_test = \<lparr>tx_gas = 21000, tx_data_zero_gas = 4, tx_data_non_zero_gas = 16, tx_create_gas = 10000,
     sstore_set_gas = 5000, sstore_reset_gas = 2500, sstore_clears_schedule = 5000, sload_gas = 200,
     call_gas = 100, create_gas = 10000, memory_gas = 1, log_gas = 100, log_topic_gas = 100, log_data_gas = 2,
     keccak256_gas = 10, keccak256_word_gas = 2\<rparr>"

record GasCalculator =
  gc_config :: GasConfig

definition gas_calculator_new :: "GasConfig \<Rightarrow> GasCalculator" where
  "gas_calculator_new config = \<lparr>gc_config = config\<rparr>"

definition gas_calculator_mainnet :: GasCalculator where
  "gas_calculator_mainnet = gas_calculator_new gas_config_mainnet"

definition calculate_tx_data_gas :: "GasCalculator \<Rightarrow> bytes \<Rightarrow> Gas" where
  "calculate_tx_data_gas gc data =
     foldl (\<lambda>gas byte. if byte = 0 then gas + tx_data_zero_gas (gc_config gc)
                       else gas + tx_data_non_zero_gas (gc_config gc)) 0 data"

definition calculate_base_tx_gas :: "GasCalculator \<Rightarrow> bool \<Rightarrow> bytes \<Rightarrow> Gas" where
  "calculate_base_tx_gas gc is_create data =
     (let gas = tx_gas (gc_config gc);
          gas1 = (if is_create then gas + tx_create_gas (gc_config gc) else gas)
      in gas1 + calculate_tx_data_gas gc data)"

definition calculate_memory_gas :: "GasCalculator \<Rightarrow> u64 \<Rightarrow> u64 \<Rightarrow> Gas" where
  "calculate_memory_gas gc current_size new_size =
     (if new_size \<le> current_size then 0
      else let new_words = (new_size + 31) div 32;
               current_words = (current_size + 31) div 32;
               words_diff = new_words - current_words;
               linear_cost = words_diff * memory_gas (gc_config gc);
               quadratic_cost = (new_words * new_words) div 512;
               current_quadratic = (current_words * current_words) div 512
           in linear_cost + quadratic_cost - current_quadratic)"

definition calculate_sstore_gas :: "GasCalculator \<Rightarrow> bytes \<Rightarrow> bytes \<Rightarrow> Gas \<times> Gas" where
  "calculate_sstore_gas gc current_value new_value =
     (let is_zero = (\<lambda>v. list_all (\<lambda>b. b = (0 :: u8)) v);
          current_is_zero = is_zero current_value;
          new_is_zero = is_zero new_value
      in if current_is_zero \<and> \<not> new_is_zero then (sstore_set_gas (gc_config gc), 0)
         else if \<not> current_is_zero \<and> new_is_zero
         then (sstore_reset_gas (gc_config gc), sstore_clears_schedule (gc_config gc))
         else if \<not> current_is_zero \<and> \<not> new_is_zero \<and> current_value \<noteq> new_value
         then (sstore_reset_gas (gc_config gc), 0)
         else (sload_gas (gc_config gc), 0))"

definition calculate_log_gas :: "GasCalculator \<Rightarrow> nat \<Rightarrow> nat \<Rightarrow> Gas" where
  "calculate_log_gas gc topics data_len =
     log_gas (gc_config gc) + of_nat topics * log_topic_gas (gc_config gc) +
     of_nat data_len * log_data_gas (gc_config gc)"

definition calculate_keccak256_gas :: "GasCalculator \<Rightarrow> nat \<Rightarrow> Gas" where
  "calculate_keccak256_gas gc data_len =
     (let words = of_nat ((data_len + 31) div 32)
      in keccak256_gas (gc_config gc) + words * keccak256_word_gas (gc_config gc))"

definition calculate_call_gas :: "GasCalculator \<Rightarrow> bool \<Rightarrow> bool \<Rightarrow> Gas" where
  "calculate_call_gas gc value_transfer account_exists =
     (let gas = call_gas (gc_config gc) in
      if value_transfer then (let gas1 = gas + 9000 in if \<not> account_exists then gas1 + 25000 else gas1)
      else gas)"

definition calculate_create_gas :: "GasCalculator \<Rightarrow> nat \<Rightarrow> Gas" where
  "calculate_create_gas gc code_size = create_gas (gc_config gc) + of_nat code_size * 200"

record GasMeter =
  gm_limit :: Gas
  gm_used :: Gas
  gm_refunded :: Gas

definition gas_meter_new :: "Gas \<Rightarrow> GasMeter" where
  "gas_meter_new limit = \<lparr>gm_limit = limit, gm_used = 0, gm_refunded = 0\<rparr>"

definition gas_consume :: "GasMeter \<Rightarrow> Gas \<Rightarrow> (unit, ContractError) outcome \<times> GasMeter" where
  "gas_consume m amount =
     (if gm_limit m < gm_used m + amount then (Err OutOfGas, m)
      else (Ok (), m\<lparr>gm_used := gm_used m + amount\<rparr>))"

definition gas_refund :: "GasMeter \<Rightarrow> Gas \<Rightarrow> GasMeter" where
  "gas_refund m amount = m\<lparr>gm_refunded := gm_refunded m + amount\<rparr>"

definition gas_remaining :: "GasMeter \<Rightarrow> Gas" where
  "gas_remaining m = saturating_sub (gm_limit m) (gm_used m)"

definition gas_finalize :: "GasMeter \<Rightarrow> Gas" where
  "gas_finalize m =
     (let max_refund = gm_used m div 2;
          actual_refund = min (gm_refunded m) max_refund
      in saturating_sub (gm_used m) actual_refund)"

definition is_out_of_gas :: "GasMeter \<Rightarrow> bool" where
  "is_out_of_gas m \<longleftrightarrow> gm_limit m \<le> gm_used m"

section \<open>Lemmas\<close>

lemma unat_finalize: "unat (gas_finalize m) = unat (gm_used m) - min (unat (gm_refunded m)) (unat (gm_used m) div 2)"
  by (simp add: gas_finalize_def unat_saturating_sub min_def word_le_nat_alt unat_div)

lemma gas_finalize_no_refund: "gm_refunded m = 0 \<Longrightarrow> gas_finalize m = gm_used m"
  by (simp add: gas_finalize_def saturating_sub_def)

text \<open>A sequence of charges, stopping at the first that is refused.\<close>

fun consume_all :: "GasMeter \<Rightarrow> Gas list \<Rightarrow> (unit, ContractError) outcome \<times> GasMeter" where
  "consume_all m [] = (Ok (), m)"
| "consume_all m (a # as) =
     (case gas_consume m a of
        (Ok _, m') \<Rightarrow> consume_all m' as
      | (Err e, m') \<Rightarrow> (Err e, m')
      | (Panic, m') \<Rightarrow> (Panic, m'))"

lemma gas_consume_exact:
  assumes "unat (gm_used m) \<le> unat (gm_limit m)" and "unat (gm_limit m) + unat a < 2 ^ 64"
  shows "gas_consume m a =
    (if unat (gm_used m) + unat a \<le> unat (gm_limit m) then (Ok (), m\<lparr>gm_used := gm_used m + a\<rparr>) else (Err OutOfGas, m))"
    and "unat (gm_used m + a) = unat (gm_used m) + unat a"
proof -
  show u: "unat (gm_used m + a) = unat (gm_used m) + unat a" using assms by (intro unat_add_u64) simp
  show "gas_consume m a =
    (if unat (gm_used m) + unat a \<le> unat (gm_limit m) then (Ok (), m\<lparr>gm_used := gm_used m + a\<rparr>) else (Err OutOfGas, m))"
    by (auto simp: gas_consume_def word_less_nat_alt u)
qed

lemma consume_all_Ok:
  assumes "unat (gm_used m) \<le> unat (gm_limit m)" and "\<forall>a \<in> set as. unat (gm_limit m) + unat a < 2 ^ 64"
  shows "(fst (consume_all m as) = Ok () \<longleftrightarrow> unat (gm_used m) + sum_list (map unat as) \<le> unat (gm_limit m)) \<and>
    (fst (consume_all m as) = Ok () \<longrightarrow>
       unat (gm_used (snd (consume_all m as))) = unat (gm_used m) + sum_list (map unat as))"
  using assms
proof (induction as arbitrary: m)
  case (Cons a as)
  have "unat (gm_limit m) + unat a < 2 ^ 64" using Cons.prems(2) by simp
  note c = gas_consume_exact [OF Cons.prems(1) this]
  let ?m = "m\<lparr>gm_used := gm_used m + a\<rparr>"
  show ?case
  proof (cases "unat (gm_used m) + unat a \<le> unat (gm_limit m)")
    case True
    then show ?thesis using c Cons.IH [of ?m] Cons.prems(2) by (simp add: add.assoc)
  qed (use c in simp)
qed simp

section \<open>Properties\<close>

text \<open>Memory expansion is path independent: growing the memory in two steps costs
  exactly what growing it in one step costs, for all sizes and configurations, also where
  the 64-bit arithmetic wraps.\<close>

lemma memory_gas_additive:
  assumes "a \<le> b" and "b \<le> c"
  shows "calculate_memory_gas gc a c = calculate_memory_gas gc a b + calculate_memory_gas gc b c"
proof -
  consider "a = b" | "b = c" | "a < b" "b < c" using assms by (auto simp: less_le)
  then show ?thesis
  proof cases
    case 3
    then have "\<not> c \<le> a" "\<not> b \<le> a" "\<not> c \<le> b" by auto
    then show ?thesis by (simp add: calculate_memory_gas_def Let_def algebra_simps)
  qed (simp_all add: calculate_memory_gas_def)
qed

lemma memory_gas_additive_witness:
  "calculate_memory_gas gas_calculator_mainnet 32 4096 =
     calculate_memory_gas gas_calculator_mainnet 32 1000 + calculate_memory_gas gas_calculator_mainnet 1000 4096"
  by (rule memory_gas_additive) simp_all

text \<open>C39. The meter is exact as long as no single charge together with the limit reaches
  \<open>2^64\<close>: a sequence of charges on a new meter goes through exactly when their sum is within
  the limit, and then exactly their sum has been used.\<close>

theorem gas_meter_exact:
  assumes "\<forall>a \<in> set as. unat limit + unat a < 2 ^ 64"
  shows "(fst (consume_all (gas_meter_new limit) as) = Ok () \<longleftrightarrow> sum_list (map unat as) \<le> unat limit) \<and>
    (fst (consume_all (gas_meter_new limit) as) = Ok () \<longrightarrow>
       unat (gm_used (snd (consume_all (gas_meter_new limit) as))) = sum_list (map unat as))"
  using consume_all_Ok [of "gas_meter_new limit" as] assms by (simp add: gas_meter_new_def)

theorem gas_meter_exact_witness:
  "fst (consume_all (gas_meter_new 53000) [21000, 32000]) = Ok () \<and>
   unat (gm_used (snd (consume_all (gas_meter_new 53000) [21000, 32000]))) = 53000"
  using gas_meter_exact [of "[21000, 32000]" 53000] by simp

text \<open>The bound is needed. The sum of what has been used and the charge is taken in 64 bits, so after a charge of 1 a
  charge of \<open>2^64 - 1\<close>, which no limit covers, goes through on every meter with a positive limit and sets the used gas back to 0.\<close>

lemma gas_meter_wraps:
  assumes "1 \<le> limit"
  shows "consume_all (gas_meter_new limit) [1, - 1] = (Ok (), gas_meter_new limit)"
proof -
  have "limit \<noteq> 0" using assms by (auto simp: word_le_nat_alt)
  then show ?thesis by (simp add: gas_meter_new_def gas_consume_def Let_def)
qed

end
