(* ===== verification/Evm_State.thy ===== *)
theory Evm_State
  imports Gas Interfaces
begin

text \<open>
  \<open>state.rs\<close> of \<open>smart-contracts\<close>: contract accounts, their storage, and the balances and
  nonces of the EVM. A 32-byte array is a byte list. The balances are a second provider of
  the token ledger interface.
\<close>

section \<open>The code\<close>

record ContractAccount =
  ca_address :: address
  ca_code :: bytes
  ca_code_hash :: hash
  ca_balance :: Amount
  ca_storage_root :: hash
  ca_nonce :: u64

definition contract_account_new :: "crypto_lib \<Rightarrow> address \<Rightarrow> bytes \<Rightarrow> Amount \<Rightarrow> ContractAccount" where
  "contract_account_new L addr code balance =
     \<lparr>ca_address = addr, ca_code = code, ca_code_hash = hash_bytes L code, ca_balance = balance,
      ca_storage_root = hash_zero, ca_nonce = 1\<rparr>"

definition has_code :: "ContractAccount \<Rightarrow> bool" where
  "has_code ca \<longleftrightarrow> ca_code ca \<noteq> []"

definition code_size :: "ContractAccount \<Rightarrow> nat" where
  "code_size ca = length (ca_code ca)"

record EVMState =
  evm_contracts :: "(address, ContractAccount) fmap"
  evm_storage :: "(address, (bytes, bytes) fmap) fmap"
  evm_balances :: "(address, Amount) fmap"
  evm_nonces :: "(address, u64) fmap"

definition evm_state_new :: EVMState where
  "evm_state_new = \<lparr>evm_contracts = fmempty, evm_storage = fmempty, evm_balances = fmempty, evm_nonces = fmempty\<rparr>"

definition deploy_contract ::
    "crypto_lib \<Rightarrow> EVMState \<Rightarrow> address \<Rightarrow> bytes \<Rightarrow> Amount \<Rightarrow> (unit, ContractError) outcome \<times> EVMState" where
  "deploy_contract L s addr code balance =
     (if fmlookup (evm_contracts s) addr \<noteq> None
      then (Err (DeploymentFailed ''Contract already exists at address''), s)
      else let contract = contract_account_new L addr code balance in
        (Ok (), s\<lparr>evm_contracts := fmupd addr contract (evm_contracts s),
                 evm_balances := fmupd addr balance (evm_balances s),
                 evm_storage := fmupd addr fmempty (evm_storage s)\<rparr>))"

definition get_contract :: "EVMState \<Rightarrow> address \<Rightarrow> ContractAccount option" where
  "get_contract s addr = fmlookup (evm_contracts s) addr"

definition get_code :: "EVMState \<Rightarrow> address \<Rightarrow> bytes option" where
  "get_code s addr = map_option ca_code (fmlookup (evm_contracts s) addr)"

definition get_code_hash :: "EVMState \<Rightarrow> address \<Rightarrow> hash" where
  "get_code_hash s addr =
     (case fmlookup (evm_contracts s) addr of Some c \<Rightarrow> ca_code_hash c | None \<Rightarrow> hash_zero)"

definition get_code_size :: "EVMState \<Rightarrow> address \<Rightarrow> nat" where
  "get_code_size s addr = (case fmlookup (evm_contracts s) addr of Some c \<Rightarrow> code_size c | None \<Rightarrow> 0)"

definition is_contract :: "EVMState \<Rightarrow> address \<Rightarrow> bool" where
  "is_contract s addr \<longleftrightarrow> fmlookup (evm_contracts s) addr \<noteq> None"

definition get_storage :: "EVMState \<Rightarrow> address \<Rightarrow> bytes \<Rightarrow> bytes" where
  "get_storage s addr slot =
     (case Option.bind (fmlookup (evm_storage s) addr) (\<lambda>m. fmlookup m slot) of
        Some v \<Rightarrow> v
      | None \<Rightarrow> replicate 32 0)"

definition set_storage :: "EVMState \<Rightarrow> address \<Rightarrow> bytes \<Rightarrow> bytes \<Rightarrow> EVMState" where
  "set_storage s addr slot v =
     s\<lparr>evm_storage := fmupd addr (fmupd slot v (lookup_default fmempty (evm_storage s) addr)) (evm_storage s)\<rparr>"

definition evm_get_balance :: "EVMState \<Rightarrow> address \<Rightarrow> Amount" where
  "evm_get_balance s addr = lookup_default amount_zero (evm_balances s) addr"

definition evm_set_balance :: "EVMState \<Rightarrow> address \<Rightarrow> Amount \<Rightarrow> EVMState" where
  "evm_set_balance s addr balance = s\<lparr>evm_balances := fmupd addr balance (evm_balances s)\<rparr>"

definition insufficient_for_transfer :: ContractError where
  "insufficient_for_transfer = ExecutionError ''Insufficient balance for transfer''"

definition evm_transfer ::
    "EVMState \<Rightarrow> address \<Rightarrow> address \<Rightarrow> Amount \<Rightarrow> (unit, ContractError) outcome \<times> EVMState" where
  "evm_transfer s from to amount =
     (let from_balance = evm_get_balance s from in
      if from_balance < amount then (Err insufficient_for_transfer, s)
      else case amount_checked_sub from_balance amount of
             None \<Rightarrow> (Err (ContractStateError ''Balance underflow''), s)
           | Some new_from_balance \<Rightarrow>
               let to_balance = evm_get_balance s to in
               (case amount_checked_add to_balance amount of
                  None \<Rightarrow> (Err (ContractStateError ''Balance overflow''), s)
                | Some new_to_balance \<Rightarrow>
                    (Ok (), evm_set_balance (evm_set_balance s from new_from_balance) to new_to_balance)))"

definition evm_get_nonce :: "EVMState \<Rightarrow> address \<Rightarrow> u64" where
  "evm_get_nonce s addr = lookup_default 0 (evm_nonces s) addr"

definition evm_increment_nonce :: "EVMState \<Rightarrow> address \<Rightarrow> EVMState" where
  "evm_increment_nonce s addr = s\<lparr>evm_nonces := fmupd addr (evm_get_nonce s addr + 1) (evm_nonces s)\<rparr>"

definition calculate_create_address :: "crypto_lib \<Rightarrow> address \<Rightarrow> u64 \<Rightarrow> address" where
  "calculate_create_address L deployer nonce =
     (let data = address_as_bytes deployer @ le_bytes 8 nonce;
          h = hash_bytes L data
      in address_new (take 20 (drop 12 (hash_as_bytes h))))"

definition calculate_create2_address :: "crypto_lib \<Rightarrow> address \<Rightarrow> bytes \<Rightarrow> hash \<Rightarrow> address" where
  "calculate_create2_address L deployer salt init_code_hash =
     (let data = [0xff] @ address_as_bytes deployer @ salt @ hash_as_bytes init_code_hash;
          h = hash_bytes L data
      in address_new (take 20 (drop 12 (hash_as_bytes h))))"

definition evm_clear :: "EVMState \<Rightarrow> EVMState" where
  "evm_clear s = s\<lparr>evm_contracts := fmempty, evm_storage := fmempty, evm_balances := fmempty, evm_nonces := fmempty\<rparr>"

section \<open>Balances as a token ledger\<close>

definition evm_total :: "EVMState \<Rightarrow> nat" where
  "evm_total s = fm_sum (\<lambda>b. b) (evm_balances s)"

lemma evm_transfer_enough:
  "n \<le> evm_get_balance s a \<Longrightarrow>
     evm_transfer s a b n = (Ok (), evm_set_balance (evm_set_balance s a (evm_get_balance s a - n)) b (evm_get_balance s b + n))"
  by (simp add: evm_transfer_def amount_defs)

lemma evm_get_set_balance [simp]:
  "evm_get_balance (evm_set_balance s a n) k = (if k = a then n else evm_get_balance s k)"
  by (simp add: evm_get_balance_def evm_set_balance_def)

lemma evm_transfer_fields:
  "evm_contracts (snd (evm_transfer s a b n)) = evm_contracts s"
  "evm_storage (snd (evm_transfer s a b n)) = evm_storage s"
  "evm_nonces (snd (evm_transfer s a b n)) = evm_nonces s"
  by (simp_all add: evm_transfer_def evm_set_balance_def Let_def split: option.splits)

interpretation evl: token_ledger evm_get_balance evm_total evm_transfer insufficient_for_transfer
proof unfold_locales
  have bal: "evm_get_balance s = (\<lambda>k. lookup_default 0 (evm_balances s) k)" for s
    by (simp add: fun_eq_iff evm_get_balance_def amount_zero_def)
  fix s :: EVMState
  show "finite {k. evm_get_balance s k \<noteq> 0}"
    unfolding bal by (rule fm_sum_support(2) [where f = "\<lambda>b. b", OF refl])
  show "evm_total s = (\<Sum>k | evm_get_balance s k \<noteq> 0. evm_get_balance s k)"
    unfolding bal evm_total_def fm_sum_support(1) [where f = "\<lambda>b. b", OF refl] support_sum_def ..
next
  fix s a b n
  assume "evm_get_balance s a < n"
  then show "evm_transfer s a b n = (Err insufficient_for_transfer, s)" by (simp add: evm_transfer_def)
qed (auto simp: evm_transfer_enough fun_eq_iff)

lemma evm_total_set:
  "evm_total (evm_set_balance s a n) + evm_get_balance s a = evm_total s + n"
  using fm_sum_fmupd [of "\<lambda>b. b" 0 a n "evm_balances s"]
  by (simp add: evm_total_def evm_set_balance_def evm_get_balance_def amount_zero_def)

end
