(* ===== verification/Precompiles.thy ===== *)
theory Precompiles
  imports Gas
begin

text \<open>
  \<open>precompiles.rs\<close> of \<open>smart-contracts\<close>: the registry and the nine precompiled contracts,
  placeholders included. \<open>hex\<close> is \<open>encode\<close> of the third-party \<open>hex\<close> crate, used only in
  an error message.
\<close>

section \<open>The code\<close>

record PrecompileResult =
  pr_gas_used :: Gas
  pr_output :: bytes
  pr_success :: bool

type_synonym PrecompileFn = "bytes \<Rightarrow> (PrecompileResult, ContractError) outcome"

record PrecompileRegistry =
  precompiles :: "(address, PrecompileFn) fmap"

definition pre_register :: "PrecompileRegistry \<Rightarrow> address \<Rightarrow> PrecompileFn \<Rightarrow> PrecompileRegistry" where
  "pre_register r addr func = r\<lparr>precompiles := fmupd addr func (precompiles r)\<rparr>"

definition is_precompile :: "PrecompileRegistry \<Rightarrow> address \<Rightarrow> bool" where
  "is_precompile r addr \<longleftrightarrow> fmlookup (precompiles r) addr \<noteq> None"

definition pre_execute ::
    "(bytes \<Rightarrow> string) \<Rightarrow> PrecompileRegistry \<Rightarrow> address \<Rightarrow> bytes \<Rightarrow> (PrecompileResult, ContractError) outcome" where
  "pre_execute hex r addr input =
     and_then (ok_or (PrecompileError (''Precompile not found at 0x'' @ hex (address_as_bytes addr)))
                (fmlookup (precompiles r) addr)) (\<lambda>func. func input)"

definition pre_address :: "u8 \<Rightarrow> address" where
  "pre_address num = address_new ((replicate 20 0)[19 := num])"

definition pre_words :: "bytes \<Rightarrow> u64" where
  "pre_words input = of_nat ((length input + 31) div 32)"

definition pre_ecrecover :: PrecompileFn where
  "pre_ecrecover input =
     (let gas_cost = 3000 in
      if length input < 128 then Ok \<lparr>pr_gas_used = gas_cost, pr_output = [], pr_success = False\<rparr>
      else let output = replicate 32 0
           in Ok \<lparr>pr_gas_used = gas_cost, pr_output = output, pr_success = True\<rparr>)"

definition pre_sha256 :: "crypto_lib \<Rightarrow> PrecompileFn" where
  "pre_sha256 L input =
     (let base_gas = 60; per_word_gas = 12;
          gas_used = base_gas + per_word_gas * pre_words input;
          h = hash_bytes L input
      in Ok \<lparr>pr_gas_used = gas_used, pr_output = hash_as_bytes h, pr_success = True\<rparr>)"

definition pre_ripemd160 :: "crypto_lib \<Rightarrow> PrecompileFn" where
  "pre_ripemd160 L input =
     (let base_gas = 600; per_word_gas = 120;
          gas_used = base_gas + per_word_gas * pre_words input;
          h = hash_bytes L input;
          output = take 12 (replicate 32 0) @ take 20 (hash_as_bytes h)
      in Ok \<lparr>pr_gas_used = gas_used, pr_output = output, pr_success = True\<rparr>)"

definition pre_identity :: PrecompileFn where
  "pre_identity input =
     (let base_gas = 15; per_word_gas = 3;
          gas_used = base_gas + per_word_gas * pre_words input
      in Ok \<lparr>pr_gas_used = gas_used, pr_output = input, pr_success = True\<rparr>)"

definition pre_modexp :: PrecompileFn where
  "pre_modexp input = Ok \<lparr>pr_gas_used = 200, pr_output = replicate 32 0, pr_success = True\<rparr>"

definition pre_bn_add :: PrecompileFn where
  "pre_bn_add input = Ok \<lparr>pr_gas_used = 150, pr_output = replicate 64 0, pr_success = True\<rparr>"

definition pre_bn_mul :: PrecompileFn where
  "pre_bn_mul input = Ok \<lparr>pr_gas_used = 6000, pr_output = replicate 64 0, pr_success = True\<rparr>"

definition pre_bn_pairing :: PrecompileFn where
  "pre_bn_pairing input =
     (let base_gas = 45000; per_pair_gas = 34000; pairs = length input div 192;
          gas_used = base_gas + per_pair_gas * of_nat pairs
      in Ok \<lparr>pr_gas_used = gas_used, pr_output = replicate 32 0, pr_success = True\<rparr>)"

definition pre_blake2f :: PrecompileFn where
  "pre_blake2f input =
     (if length input \<noteq> 213 then Err (PrecompileError ''Blake2F input must be 213 bytes'')
      else let rounds = of_be_bytes (take 4 input) :: u32;
               gas_used = ucast rounds :: u64
           in Ok \<lparr>pr_gas_used = gas_used, pr_output = replicate 64 0, pr_success = True\<rparr>)"

definition registry_new :: "crypto_lib \<Rightarrow> PrecompileRegistry" where
  "registry_new L =
     (let r0 = \<lparr>precompiles = fmempty\<rparr>;
          r1 = pre_register r0 (pre_address 1) pre_ecrecover;
          r2 = pre_register r1 (pre_address 2) (pre_sha256 L);
          r3 = pre_register r2 (pre_address 3) (pre_ripemd160 L);
          r4 = pre_register r3 (pre_address 4) pre_identity;
          r5 = pre_register r4 (pre_address 5) pre_modexp;
          r6 = pre_register r5 (pre_address 6) pre_bn_add;
          r7 = pre_register r6 (pre_address 7) pre_bn_mul;
          r8 = pre_register r7 (pre_address 8) pre_bn_pairing
      in pre_register r8 (pre_address 9) pre_blake2f)"

section \<open>Lemmas\<close>

lemma pre_address_eq: "pre_address num = ucast num"
proof -
  have "(replicate 20 (0 :: u8))[19 := num] = replicate 19 0 @ [num]"
    by (simp add: eval_nat_numeral)
  moreover have "of_be_bytes (replicate n 0 @ [num]) = (ucast num :: address)" for n
  proof -
    have "foldl (\<lambda>acc b. push_bit 8 acc OR ucast b) (0 :: address) (replicate n (0 :: u8)) = 0"
      by (induction n) (simp_all add: unsigned_0)
    then show ?thesis by (simp add: of_be_bytes_def)
  qed
  ultimately show ?thesis by (simp add: pre_address_def address_new_def)
qed

text \<open>The registry holds exactly the addresses 1 to 9.\<close>

lemma is_precompile_iff: "is_precompile (registry_new L) addr \<longleftrightarrow> addr \<in> {1, 2, 3, 4, 5, 6, 7, 8, 9}"
  by (auto simp: is_precompile_def registry_new_def Let_def pre_register_def pre_address_eq)

lemmas precompile_defs = pre_ecrecover_def pre_sha256_def pre_ripemd160_def pre_identity_def pre_modexp_def
  pre_bn_add_def pre_bn_mul_def pre_bn_pairing_def pre_blake2f_def

lemma pre_execute_not_Panic: "pre_execute hex (registry_new L) addr input \<noteq> Panic"
  by (auto simp: pre_execute_def outcome_simps registry_new_def pre_register_def Let_def precompile_defs
      split: if_splits)

end
