(* ===== verification/Vm.thy ===== *)
theory Vm
  imports Evm_State Precompiles F64
begin

text \<open>
  \<open>vm.rs\<close> of \<open>smart-contracts\<close>: the executor, its deployment, call and precompile paths,
  static calls and gas estimation. Bytecode is not interpreted in the source either: the
  call of a contract charges a flat amount. The executor's operations return the outcome and
  the executor afterwards, on the error paths too.
\<close>

section \<open>The code\<close>

record ExecutionResult =
  er_success :: bool
  er_gas_used :: Gas
  er_output :: bytes
  er_logs :: "Log list"
  er_contract_address :: "address option"
  er_error :: "string option"

record ContractCall =
  cc_from :: address
  cc_to :: "address option"
  cc_data :: bytes
  cc_value :: Amount
  cc_gas_limit :: Gas

definition contract_call_new :: "address \<Rightarrow> address \<Rightarrow> bytes \<Rightarrow> Amount \<Rightarrow> Gas \<Rightarrow> ContractCall" where
  "contract_call_new from to data v gas_limit =
     \<lparr>cc_from = from, cc_to = Some to, cc_data = data, cc_value = v, cc_gas_limit = gas_limit\<rparr>"

definition contract_call_deploy :: "address \<Rightarrow> bytes \<Rightarrow> Amount \<Rightarrow> Gas \<Rightarrow> ContractCall" where
  "contract_call_deploy from bytecode v gas_limit =
     \<lparr>cc_from = from, cc_to = None, cc_data = bytecode, cc_value = v, cc_gas_limit = gas_limit\<rparr>"

definition is_deployment :: "ContractCall \<Rightarrow> bool" where
  "is_deployment call \<longleftrightarrow> cc_to call = None"

record EVMExecutor =
  ex_state :: EVMState
  ex_gas_calculator :: GasCalculator
  ex_precompiles :: PrecompileRegistry
  ex_block_number :: u64
  ex_block_timestamp :: u64

definition executor_new :: "crypto_lib \<Rightarrow> u64 \<Rightarrow> u64 \<Rightarrow> EVMExecutor" where
  "executor_new L number timestamp =
     \<lparr>ex_state = evm_state_new, ex_gas_calculator = gas_calculator_mainnet, ex_precompiles = registry_new L,
      ex_block_number = number, ex_block_timestamp = timestamp\<rparr>"

definition success_result :: "GasMeter \<Rightarrow> ExecutionResult" where
  "success_result m = \<lparr>er_success = True, er_gas_used = gas_finalize m, er_output = [], er_logs = [],
     er_contract_address = None, er_error = None\<rparr>"

definition execute_deployment ::
    "crypto_lib \<Rightarrow> EVMExecutor \<Rightarrow> ContractCall \<Rightarrow> GasMeter \<Rightarrow> (ExecutionResult, ContractError) outcome \<times> EVMExecutor" where
  "execute_deployment L ex call meter =
     (let nonce = evm_get_nonce (ex_state ex) (cc_from call);
          addr = calculate_create_address L (cc_from call) nonce;
          gas = calculate_create_gas (ex_gas_calculator ex) (length (cc_data call))
      in case gas_consume meter gas of
           (Err e, _) \<Rightarrow> (Err e, ex)
         | (Panic, _) \<Rightarrow> (Panic, ex)
         | (Ok _, meter1) \<Rightarrow>
             (case deploy_contract L (ex_state ex) addr (cc_data call) (cc_value call) of
                (Err e, s) \<Rightarrow> (Err e, ex\<lparr>ex_state := s\<rparr>)
              | (Panic, s) \<Rightarrow> (Panic, ex\<lparr>ex_state := s\<rparr>)
              | (Ok _, s) \<Rightarrow>
                  (Ok \<lparr>er_success = True, er_gas_used = gas_finalize meter1, er_output = address_as_bytes addr,
                     er_logs = [], er_contract_address = Some addr, er_error = None\<rparr>,
                   ex\<lparr>ex_state := evm_increment_nonce s (cc_from call)\<rparr>)))"

definition execute_precompile ::
    "(bytes \<Rightarrow> string) \<Rightarrow> EVMExecutor \<Rightarrow> address \<Rightarrow> bytes \<Rightarrow> GasMeter \<Rightarrow> (ExecutionResult, ContractError) outcome" where
  "execute_precompile hex ex addr input meter =
     and_then (pre_execute hex (ex_precompiles ex) addr input) (\<lambda>result.
       case gas_consume meter (pr_gas_used result) of
         (Err e, _) \<Rightarrow> Err e
       | (Panic, _) \<Rightarrow> Panic
       | (Ok _, meter1) \<Rightarrow>
           Ok \<lparr>er_success = pr_success result, er_gas_used = gas_finalize meter1, er_output = pr_output result,
             er_logs = [], er_contract_address = None,
             er_error = (if pr_success result then None else Some ''Precompile failed'')\<rparr>)"

definition execute_contract_code ::
    "bytes \<Rightarrow> GasMeter \<Rightarrow> (ExecutionResult, ContractError) outcome" where
  "execute_contract_code input meter =
     (if length input < 4 then Err (ExecutionError ''Invalid input'')
      else case gas_consume meter 10000 of
             (Err e, _) \<Rightarrow> Err e
           | (Panic, _) \<Rightarrow> Panic
           | (Ok _, meter1) \<Rightarrow> Ok (success_result meter1))"

definition execute_call ::
    "(bytes \<Rightarrow> string) \<Rightarrow> EVMExecutor \<Rightarrow> ContractCall \<Rightarrow> GasMeter \<Rightarrow> (ExecutionResult, ContractError) outcome" where
  "execute_call hex ex call meter =
     and_then (ok_or (ExecutionError ''No target address for call'') (cc_to call)) (\<lambda>target.
       if is_precompile (ex_precompiles ex) target then execute_precompile hex ex target (cc_data call) meter
       else if \<not> is_contract (ex_state ex) target then Ok (success_result meter)
       else execute_contract_code (cc_data call) meter)"

text \<open>\<open>execute_call\<close> takes \<open>&mut self\<close> but changes nothing, so it has no state to return.\<close>

definition evm_execute ::
    "crypto_lib \<Rightarrow> (bytes \<Rightarrow> string) \<Rightarrow> EVMExecutor \<Rightarrow> ContractCall \<Rightarrow> (ExecutionResult, ContractError) outcome \<times> EVMExecutor" where
  "evm_execute L hex ex call =
     (let base_gas = calculate_base_tx_gas (ex_gas_calculator ex) (is_deployment call) (cc_data call)
      in case gas_consume (gas_meter_new (cc_gas_limit call)) base_gas of
           (Err e, _) \<Rightarrow> (Err e, ex)
         | (Panic, _) \<Rightarrow> (Panic, ex)
         | (Ok _, meter) \<Rightarrow>
             (case (if \<not> amount_is_zero (cc_value call)
                    then evm_transfer (ex_state ex) (cc_from call)
                           (case cc_to call of Some to \<Rightarrow> to | None \<Rightarrow> cc_from call) (cc_value call)
                    else (Ok (), ex_state ex)) of
                (Err e, s) \<Rightarrow> (Err e, ex\<lparr>ex_state := s\<rparr>)
              | (Panic, s) \<Rightarrow> (Panic, ex\<lparr>ex_state := s\<rparr>)
              | (Ok _, s) \<Rightarrow>
                  let ex1 = ex\<lparr>ex_state := s\<rparr> in
                  if is_deployment call then execute_deployment L ex1 call meter
                  else (execute_call hex ex1 call meter, ex1)))"

definition static_call ::
    "(bytes \<Rightarrow> string) \<Rightarrow> EVMExecutor \<Rightarrow> address \<Rightarrow> bytes \<Rightarrow> Gas \<Rightarrow> (ExecutionResult, ContractError) outcome" where
  "static_call hex ex target data gas_limit =
     (let meter = gas_meter_new gas_limit in
      if is_precompile (ex_precompiles ex) target
      then and_then (pre_execute hex (ex_precompiles ex) target data) (\<lambda>result.
             case gas_consume meter (pr_gas_used result) of
               (Err e, _) \<Rightarrow> Err e
             | (Panic, _) \<Rightarrow> Panic
             | (Ok _, meter1) \<Rightarrow>
                 Ok \<lparr>er_success = pr_success result, er_gas_used = gas_finalize meter1, er_output = pr_output result,
                   er_logs = [], er_contract_address = None, er_error = None\<rparr>)
      else Ok (success_result meter))"

definition estimation_limit :: Gas where
  "estimation_limit = 10000000"

definition estimate_gas ::
    "crypto_lib \<Rightarrow> (bytes \<Rightarrow> string) \<Rightarrow> EVMExecutor \<Rightarrow> ContractCall \<Rightarrow> (Gas, ContractError) outcome \<times> EVMExecutor" where
  "estimate_gas L hex ex call =
     (let original_state = ex_state ex in
      case evm_execute L hex ex (call\<lparr>cc_gas_limit := estimation_limit\<rparr>) of
        (Err e, ex1) \<Rightarrow> (Err e, ex1)
      | (Panic, ex1) \<Rightarrow> (Panic, ex1)
      | (Ok result, ex1) \<Rightarrow>
          (if er_success result then Ok (times_1_1 (er_gas_used result))
           else Err (ExecutionError (case er_error result of Some m \<Rightarrow> m | None \<Rightarrow> ''Execution failed'')),
           ex1\<lparr>ex_state := original_state\<rparr>))"

definition update_block_context :: "EVMExecutor \<Rightarrow> u64 \<Rightarrow> u64 \<Rightarrow> EVMExecutor" where
  "update_block_context ex number timestamp = ex\<lparr>ex_block_number := number, ex_block_timestamp := timestamp\<rparr>"


section \<open>Lemmas\<close>

lemma gas_consume_Ok:
  "gas_consume m a = (Ok u, m') \<longleftrightarrow> gm_used m + a \<le> gm_limit m \<and> m' = m\<lparr>gm_used := gm_used m + a\<rparr>"
  by (auto simp: gas_consume_def)

lemma gas_consume_cases:
  obtains "gas_consume m a = (Err OutOfGas, m)" "gm_limit m < gm_used m + a"
  | "gas_consume m a = (Ok (), m\<lparr>gm_used := gm_used m + a\<rparr>)" "gm_used m + a \<le> gm_limit m"
  by (cases "gm_limit m < gm_used m + a") (auto simp: gas_consume_def)

text \<open>The value transfer at the start of \<open>execute\<close>.\<close>

definition value_moved :: "EVMState \<Rightarrow> ContractCall \<Rightarrow> (unit, ContractError) outcome \<times> EVMState" where
  "value_moved s call =
     (if amount_is_zero (cc_value call) then (Ok (), s)
      else evm_transfer s (cc_from call) (case cc_to call of Some to \<Rightarrow> to | None \<Rightarrow> cc_from call) (cc_value call))"

definition base_gas :: "EVMExecutor \<Rightarrow> ContractCall \<Rightarrow> Gas" where
  "base_gas ex call = calculate_base_tx_gas (ex_gas_calculator ex) (is_deployment call) (cc_data call)"

definition charged_meter :: "EVMExecutor \<Rightarrow> ContractCall \<Rightarrow> GasMeter" where
  "charged_meter ex call = \<lparr>gm_limit = cc_gas_limit call, gm_used = base_gas ex call, gm_refunded = 0\<rparr>"

lemma evm_execute_eq:
  "evm_execute L hex ex call =
     (if cc_gas_limit call < base_gas ex call then (Err OutOfGas, ex)
      else case value_moved (ex_state ex) call of
             (Err e, s) \<Rightarrow> (Err e, ex\<lparr>ex_state := s\<rparr>)
           | (Panic, s) \<Rightarrow> (Panic, ex\<lparr>ex_state := s\<rparr>)
           | (Ok _, s) \<Rightarrow>
               if is_deployment call then execute_deployment L (ex\<lparr>ex_state := s\<rparr>) call (charged_meter ex call)
               else (execute_call hex (ex\<lparr>ex_state := s\<rparr>) call (charged_meter ex call), ex\<lparr>ex_state := s\<rparr>))"
  by (auto simp: evm_execute_def gas_consume_def gas_meter_new_def base_gas_def charged_meter_def value_moved_def Let_def
      split: prod.split outcome.split)

lemma value_moved_fields:
  "evm_contracts (snd (value_moved s call)) = evm_contracts s" "evm_nonces (snd (value_moved s call)) = evm_nonces s"
  by (simp_all add: value_moved_def evm_transfer_fields)

subsection \<open>Conservation\<close>

lemma value_moved_total:
  "cc_to call = Some to \<Longrightarrow> to \<noteq> cc_from call \<Longrightarrow> evm_total (snd (value_moved s call)) = evm_total s"
  by (simp add: value_moved_def evl.total_conserved)

lemma value_moved_self:
  assumes "cc_to call = None" and "0 < cc_value call" and "value_moved s call = (Ok u, s')"
  shows "evm_total s' = evm_total s + cc_value call"
    and "evm_get_balance s' k = evm_get_balance s k + (if k = cc_from call then cc_value call else 0)"
proof -
  have t: "evm_transfer s (cc_from call) (cc_from call) (cc_value call) = (Ok u, s')"
    using assms by (simp add: value_moved_def amount_is_zero_def)
  then have le: "cc_value call \<le> evm_get_balance s (cc_from call)"
    using evl.transfer_Ok_iff [of s "cc_from call" "cc_from call" "cc_value call"] by simp
  show "evm_total s' = evm_total s + cc_value call" using evl.total_self [OF le] t by simp
  show "evm_get_balance s' k = evm_get_balance s k + (if k = cc_from call then cc_value call else 0)"
    using evl.transfer_self [OF le] t by simp
qed

lemma evm_total_increment_nonce [simp]: "evm_total (evm_increment_nonce s a) = evm_total s"
  by (simp add: evm_total_def evm_increment_nonce_def)

lemma deploy_contract_total:
  assumes "deploy_contract L s addr code n = (Ok u, s')"
  shows "evm_total s' + evm_get_balance s addr = evm_total s + n"
proof -
  have "evm_total s' = evm_total (evm_set_balance s addr n)"
    using assms by (auto simp: deploy_contract_def evm_total_def evm_set_balance_def Let_def split: if_splits)
  with evm_total_set [of s addr n] show ?thesis by simp
qed

lemma execute_deployment_OkE:
  assumes "execute_deployment L ex call m = (Ok r, ex')"
  obtains s u where "deploy_contract L (ex_state ex)
      (calculate_create_address L (cc_from call) (evm_get_nonce (ex_state ex) (cc_from call))) (cc_data call) (cc_value call) =
      (Ok u, s)" "ex_state ex' = evm_increment_nonce s (cc_from call)"
  using assms by (auto simp: execute_deployment_def Let_def split: prod.splits outcome.splits)

subsection \<open>Gas limits\<close>

text \<open>What a call is charged on top of the base gas.\<close>

definition extra_gas :: "(bytes \<Rightarrow> string) \<Rightarrow> EVMExecutor \<Rightarrow> ContractCall \<Rightarrow> Gas" where
  "extra_gas hex ex call =
     (case cc_to call of
        None \<Rightarrow> calculate_create_gas (ex_gas_calculator ex) (length (cc_data call))
      | Some target \<Rightarrow>
          if is_precompile (ex_precompiles ex) target
          then (case pre_execute hex (ex_precompiles ex) target (cc_data call) of Ok res \<Rightarrow> pr_gas_used res | _ \<Rightarrow> 0)
          else if is_contract (ex_state ex) target then 10000 else 0)"

lemma execute_precompile_Ok:
  "execute_precompile hex ex t d m = Ok r \<longleftrightarrow>
     (\<exists>res. pre_execute hex (ex_precompiles ex) t d = Ok res \<and> gm_used m + pr_gas_used res \<le> gm_limit m \<and>
        r = \<lparr>er_success = pr_success res, er_gas_used = gas_finalize (m\<lparr>gm_used := gm_used m + pr_gas_used res\<rparr>),
          er_output = pr_output res, er_logs = [], er_contract_address = None,
          er_error = (if pr_success res then None else Some ''Precompile failed'')\<rparr>)"
  by (cases "pre_execute hex (ex_precompiles ex) t d") (auto simp: execute_precompile_def gas_consume_def)

lemma execute_contract_code_Ok:
  "execute_contract_code d m = Ok r \<longleftrightarrow>
     4 \<le> length d \<and> gm_used m + 10000 \<le> gm_limit m \<and> r = success_result (m\<lparr>gm_used := gm_used m + 10000\<rparr>)"
  by (auto simp: execute_contract_code_def gas_consume_def)

lemma execute_call_Ok:
  "cc_to call = Some t \<Longrightarrow> execute_call hex ex call m = Ok r \<longleftrightarrow>
     (if is_precompile (ex_precompiles ex) t then execute_precompile hex ex t (cc_data call) m = Ok r
      else if is_contract (ex_state ex) t then execute_contract_code (cc_data call) m = Ok r
      else r = success_result m)"
  by (auto simp: execute_call_def)

lemma execute_call_limit:
  assumes "execute_call hex ex call m = Ok r" and "gm_refunded m = 0" "cc_to call \<noteq> None"
  shows "er_gas_used r = gm_used m + extra_gas hex ex call"
    and "gm_used m + extra_gas hex ex call \<le> l \<Longrightarrow> execute_call hex ex (call\<lparr>cc_gas_limit := k\<rparr>) (m\<lparr>gm_limit := l\<rparr>) = Ok r"
    and "gm_used m \<le> gm_limit m \<Longrightarrow> gm_used m + extra_gas hex ex call \<le> gm_limit m"
proof -
  obtain t where t: "cc_to call = Some t" "cc_to (call\<lparr>cc_gas_limit := k\<rparr>) = Some t" using assms(3) by auto
  have run: "if is_precompile (ex_precompiles ex) t then execute_precompile hex ex t (cc_data call) m = Ok r
      else if is_contract (ex_state ex) t then execute_contract_code (cc_data call) m = Ok r
      else r = success_result m"
    using assms(1) execute_call_Ok [OF t(1)] by blast
  consider (pre) res where "is_precompile (ex_precompiles ex) t" "execute_precompile hex ex t (cc_data call) m = Ok r"
      "pre_execute hex (ex_precompiles ex) t (cc_data call) = Ok res"
    | (code) "\<not> is_precompile (ex_precompiles ex) t" "is_contract (ex_state ex) t"
      "execute_contract_code (cc_data call) m = Ok r"
    | (eoa) "\<not> is_precompile (ex_precompiles ex) t" "\<not> is_contract (ex_state ex) t" "r = success_result m"
    using run execute_precompile_Ok by metis
  note split3 = this
  show "er_gas_used r = gm_used m + extra_gas hex ex call"
    using split3
  proof cases
    case pre
    then show ?thesis using assms(2) t(1) by (auto simp: execute_precompile_Ok extra_gas_def gas_finalize_no_refund)
  next
    case code
    then show ?thesis
      using assms(2) t(1) by (auto simp: execute_contract_code_Ok extra_gas_def success_result_def gas_finalize_no_refund)
  next
    case eoa
    then show ?thesis using assms(2) t(1) by (simp add: extra_gas_def success_result_def gas_finalize_no_refund)
  qed
  show "gm_used m \<le> gm_limit m \<Longrightarrow> gm_used m + extra_gas hex ex call \<le> gm_limit m"
    using split3 t(1) by cases (auto simp: extra_gas_def execute_precompile_Ok execute_contract_code_Ok)
  assume le: "gm_used m + extra_gas hex ex call \<le> l"
  show "execute_call hex ex (call\<lparr>cc_gas_limit := k\<rparr>) (m\<lparr>gm_limit := l\<rparr>) = Ok r"
    using split3
  proof cases
    case pre
    with le t(1) have "gm_used m + pr_gas_used res \<le> l" by (simp add: extra_gas_def)
    with pre assms(2) show ?thesis by (simp add: execute_call_Ok [OF t(2)] execute_precompile_Ok gas_finalize_no_refund)
  next
    case code
    with le t(1) have "gm_used m + 10000 \<le> l" by (simp add: extra_gas_def)
    with code assms(2) show ?thesis
      by (simp add: execute_call_Ok [OF t(2)] execute_contract_code_Ok success_result_def gas_finalize_no_refund)
  next
    case eoa
    with assms(2) show ?thesis by (simp add: execute_call_Ok [OF t(2)] success_result_def gas_finalize_no_refund)
  qed
qed

lemma execute_deployment_limit:
  assumes "execute_deployment L ex call m = (Ok r, ex')" and "gm_refunded m = 0" "cc_to call = None"
  shows "er_gas_used r = gm_used m + extra_gas hex ex call"
    and "gm_used m + extra_gas hex ex call \<le> l \<Longrightarrow>
      execute_deployment L ex (call\<lparr>cc_gas_limit := k\<rparr>) (m\<lparr>gm_limit := l\<rparr>) = (Ok r, ex')"
    and "gm_used m + extra_gas hex ex call \<le> gm_limit m"
proof -
  show "gm_used m + extra_gas hex ex call \<le> gm_limit m"
    using assms by (auto simp: execute_deployment_def extra_gas_def gas_consume_Ok Let_def
        split: prod.splits outcome.splits)
  show "er_gas_used r = gm_used m + extra_gas hex ex call"
    using assms by (auto simp: execute_deployment_def extra_gas_def gas_consume_Ok gas_finalize_no_refund Let_def
        split: prod.splits outcome.splits)
  assume "gm_used m + extra_gas hex ex call \<le> l"
  then show "execute_deployment L ex (call\<lparr>cc_gas_limit := k\<rparr>) (m\<lparr>gm_limit := l\<rparr>) = (Ok r, ex')"
    using assms by (auto simp: execute_deployment_def extra_gas_def gas_consume_def gas_finalize_no_refund Let_def
        split: prod.splits outcome.splits if_splits)
qed


lemma extra_gas_state:
  "evm_contracts s = evm_contracts (ex_state ex) \<Longrightarrow> extra_gas hex (ex\<lparr>ex_state := s\<rparr>) call = extra_gas hex ex call"
  by (simp add: extra_gas_def is_contract_def split: option.splits)

lemma call_limit_simps [simp]:
  "base_gas ex (call\<lparr>cc_gas_limit := l\<rparr>) = base_gas ex call"
  "extra_gas hex ex (call\<lparr>cc_gas_limit := l\<rparr>) = extra_gas hex ex call"
  "is_deployment (call\<lparr>cc_gas_limit := l\<rparr>) = is_deployment call"
  "value_moved s (call\<lparr>cc_gas_limit := l\<rparr>) = value_moved s call"
  "charged_meter ex (call\<lparr>cc_gas_limit := l\<rparr>) = (charged_meter ex call)\<lparr>gm_limit := l\<rparr>"
  by (simp_all add: base_gas_def is_deployment_def extra_gas_def value_moved_def charged_meter_def split: option.split)

lemma evm_execute_limit:
  assumes run: "evm_execute L hex ex call = (Ok r, ex')"
  shows "er_gas_used r = base_gas ex call + extra_gas hex ex call"
    and "base_gas ex call \<le> l \<Longrightarrow> base_gas ex call + extra_gas hex ex call \<le> l \<Longrightarrow>
      evm_execute L hex ex (call\<lparr>cc_gas_limit := l\<rparr>) = (Ok r, ex')"
    and "base_gas ex call + extra_gas hex ex call \<le> cc_gas_limit call"
proof -
  let ?m = "charged_meter ex call"
  have m: "gm_refunded ?m = 0" "gm_used ?m = base_gas ex call" "gm_limit ?m = cc_gas_limit call"
    by (simp_all add: charged_meter_def)
  have base: "base_gas ex call \<le> cc_gas_limit call" using run by (auto simp: evm_execute_eq split: if_splits)
  obtain u s where v: "value_moved (ex_state ex) call = (Ok u, s)"
    using run by (auto simp: evm_execute_eq split: if_splits prod.splits outcome.splits)
  let ?ex = "ex\<lparr>ex_state := s\<rparr>"
  have x: "extra_gas hex ?ex call = extra_gas hex ex call"
    using value_moved_fields(1) [of "ex_state ex" call] v by (intro extra_gas_state) simp
  have goal: "er_gas_used r = base_gas ex call + extra_gas hex ex call \<and>
      (base_gas ex call \<le> l \<longrightarrow> base_gas ex call + extra_gas hex ex call \<le> l \<longrightarrow>
        evm_execute L hex ex (call\<lparr>cc_gas_limit := l\<rparr>) = (Ok r, ex')) \<and>
      base_gas ex call + extra_gas hex ex call \<le> cc_gas_limit call"
  proof (cases "cc_to call")
    case None
    then have dep: "execute_deployment L ?ex call ?m = (Ok r, ex')"
      using run v by (simp add: evm_execute_eq is_deployment_def split: if_splits)
    from execute_deployment_limit(1) [OF dep m(1) None, where hex = hex]
      execute_deployment_limit(2) [OF dep m(1) None, where hex = hex and l = l and k = l]
      execute_deployment_limit(3) [OF dep m(1) None, where hex = hex] show ?thesis
      using None v unfolding x m(2,3) by (auto simp: evm_execute_eq is_deployment_def dest: leD)
  next
    case (Some t)
    then have c: "execute_call hex ?ex call ?m = Ok r" "ex' = ?ex"
      using run v by (auto simp: evm_execute_eq is_deployment_def split: if_splits)
    from execute_call_limit(1) [OF c(1) m(1)] execute_call_limit(2) [OF c(1) m(1), where l = l and k = l]
      execute_call_limit(3) [OF c(1) m(1)] show ?thesis
      using Some v c(2) base unfolding x m(2,3) by (auto simp: evm_execute_eq is_deployment_def dest: leD)
  qed
  then show "er_gas_used r = base_gas ex call + extra_gas hex ex call"
    "base_gas ex call + extra_gas hex ex call \<le> cc_gas_limit call" by blast+
  from goal show "base_gas ex call \<le> l \<Longrightarrow> base_gas ex call + extra_gas hex ex call \<le> l \<Longrightarrow>
      evm_execute L hex ex (call\<lparr>cc_gas_limit := l\<rparr>) = (Ok r, ex')" by blast
qed

subsection \<open>The standard schedule does not overflow\<close>

lemma unat_add_le: "unat (a + b :: u64) \<le> unat a + unat b"
  by (simp add: unat_word_ariths)

lemma unat_mult_le: "unat (a * b :: u64) \<le> unat a * unat b"
  by (simp add: unat_word_ariths)

lemma unat_of_nat_le: "unat (of_nat n :: u64) \<le> n"
  by (simp add: unat_of_nat)

definition standard :: "crypto_lib \<Rightarrow> EVMExecutor \<Rightarrow> bool" where
  "standard L ex \<longleftrightarrow> ex_gas_calculator ex = gas_calculator_mainnet \<and> ex_precompiles ex = registry_new L"

lemma standard_new: "standard L (executor_new L n t)"
  by (simp add: standard_def executor_new_def)

lemma tx_data_gas_le: "unat (calculate_tx_data_gas gas_calculator_mainnet data) \<le> 16 * length data"
proof (induction data rule: rev_induct)
  case (snoc b bs)
  let ?g = "calculate_tx_data_gas gas_calculator_mainnet bs"
  have "calculate_tx_data_gas gas_calculator_mainnet (bs @ [b]) = ?g + (if b = 0 then 4 else 16)"
    by (simp add: calculate_tx_data_gas_def gas_calculator_mainnet_def gas_calculator_new_def gas_config_mainnet_def)
  then show ?case using snoc unat_add_le [of ?g "if b = 0 then 4 else 16"] by (auto split: if_splits)
qed (simp add: calculate_tx_data_gas_def)

lemma base_gas_le: "standard L ex \<Longrightarrow> unat (base_gas ex call) \<le> 53000 + 16 * length (cc_data call)"
  using tx_data_gas_le [of "cc_data call"] unat_add_le [of _ "calculate_tx_data_gas gas_calculator_mainnet (cc_data call)"]
  by (fastforce simp: base_gas_def calculate_base_tx_gas_def standard_def gas_calculator_mainnet_def
      gas_calculator_new_def gas_config_mainnet_def Let_def intro: order_trans)

lemma linear_gas_le: "unat (a + b * of_nat n :: u64) \<le> unat a + unat b * n"
proof -
  have "unat (a + b * of_nat n) \<le> unat a + unat (b * of_nat n)" by (rule unat_add_le)
  also have "unat (b * of_nat n) \<le> unat b * unat (of_nat n :: u64)" by (rule unat_mult_le)
  also have "unat b * unat (of_nat n :: u64) \<le> unat b * n" by (intro mult_left_mono unat_of_nat_le) simp
  finally show ?thesis by simp
qed

lemma registry_functions:
  assumes "fmlookup (precompiles (registry_new L)) t = Some f"
  shows "f \<in> {pre_ecrecover, pre_sha256 L, pre_ripemd160 L, pre_identity, pre_modexp, pre_bn_add, pre_bn_mul,
    pre_bn_pairing, pre_blake2f}"
  using assms by (simp add: registry_new_def pre_register_def Let_def split: if_splits)

lemma u32_less: "unat (ucast (w :: u32) :: u64) < 2 ^ 32"
proof -
  have "unat (ucast w :: u64) = unat w mod 2 ^ 64" by (simp add: unsigned_ucast_eq take_bit_eq_mod)
  then show ?thesis using unsigned_less [of w, where 'a = nat] by simp
qed

lemma precompile_gas_le:
  assumes "pre_execute hex (registry_new L) t d = Ok res"
  shows "unat (pr_gas_used res) \<le> 2 ^ 32 + 34000 * (length d + 32)"
proof -
  obtain f where f: "fmlookup (precompiles (registry_new L)) t = Some f" "f d = Ok res"
    using assms by (auto simp: pre_execute_def outcome_simps)
  have words: "unat (a + b * pre_words d) \<le> unat a + unat b * ((length d + 31) div 32)" for a b :: u64
    unfolding pre_words_def by (rule linear_gas_le)
  have "f \<in> {pre_ecrecover, pre_sha256 L, pre_ripemd160 L, pre_identity, pre_modexp, pre_bn_add, pre_bn_mul,
      pre_bn_pairing, pre_blake2f}"
    by (rule registry_functions [OF f(1)])
  then consider "f = pre_blake2f" | "f = pre_bn_pairing" | "f = pre_sha256 L" | "f = pre_ripemd160 L" | "f = pre_identity"
    | "f \<in> {pre_ecrecover, pre_modexp, pre_bn_add, pre_bn_mul}" by blast
  then show ?thesis
  proof cases
    case 1
    then show ?thesis
      using f(2) u32_less [of "of_be_bytes (take 4 d)"] by (auto simp: pre_blake2f_def Let_def split: if_splits)
  next
    case 2
    have "unat (45000 + 34000 * of_nat (length d div 192) :: u64) \<le> 45000 + 34000 * (length d div 192)"
      using linear_gas_le [of 45000 34000 "length d div 192"] by simp
    moreover have "length d div 192 \<le> length d" by simp
    ultimately show ?thesis using f(2) 2 by (auto simp: pre_bn_pairing_def Let_def)
  next
    case 3
    then show ?thesis using f(2) words [of 60 12] by (auto simp: pre_sha256_def Let_def)
  next
    case 4
    then show ?thesis using f(2) words [of 600 120] by (auto simp: pre_ripemd160_def Let_def)
  next
    case 5
    then show ?thesis using f(2) words [of 15 3] by (auto simp: pre_identity_def Let_def)
  next
    case 6
    then show ?thesis
      using f(2) by (auto simp: pre_ecrecover_def pre_modexp_def pre_bn_add_def pre_bn_mul_def Let_def split: if_splits)
  qed
qed

lemma extra_gas_le:
  assumes "standard L ex"
  shows "unat (extra_gas hex ex call) \<le> 2 ^ 32 + 34000 * (length (cc_data call) + 32)"
proof (cases "cc_to call")
  case None
  have "unat (32000 + 200 * of_nat (length (cc_data call)) :: u64) \<le> 32000 + 200 * length (cc_data call)"
    using linear_gas_le [of 32000 200 "length (cc_data call)"] by simp
  then show ?thesis
    using assms None by (simp add: extra_gas_def standard_def calculate_create_gas_def gas_calculator_mainnet_def
        gas_calculator_new_def gas_config_mainnet_def mult.commute)
next
  case (Some t)
  then show ?thesis
    using assms precompile_gas_le [of hex L t "cc_data call"] by (auto simp: extra_gas_def standard_def split: outcome.splits)
qed

text \<open>For call data below 4 GiB the two charges add up without wrapping.\<close>

lemma gas_no_wrap:
  assumes "standard L ex" and "length (cc_data call) < 2 ^ 32"
  shows "base_gas ex call \<le> base_gas ex call + extra_gas hex ex call"
proof -
  have "unat (base_gas ex call) + unat (extra_gas hex ex call) < 2 ^ 64"
    using base_gas_le [OF assms(1), of call] extra_gas_le [OF assms(1), of hex call] assms(2) by simp
  then have "unat (base_gas ex call + extra_gas hex ex call) = unat (base_gas ex call) + unat (extra_gas hex ex call)"
    by (rule unat_add_u64)
  then show ?thesis by (simp add: word_le_nat_alt)
qed


section \<open>Properties\<close>

text \<open>A call to another account moves value but neither creates nor destroys any,
  whatever its outcome.\<close>

lemma evm_call_conserves:
  assumes "cc_to call = Some to" and "to \<noteq> cc_from call"
  shows "evm_total (ex_state (snd (evm_execute L hex ex call))) = evm_total (ex_state ex)"
proof -
  have "evm_total (snd (value_moved (ex_state ex) call)) = evm_total (ex_state ex)"
    using assms by (rule value_moved_total)
  with assms(1) show ?thesis
    by (auto simp: evm_execute_eq is_deployment_def split: prod.splits outcome.splits)
qed

definition demo_evm :: EVMExecutor where
  "demo_evm = (executor_new demo_lib 1 5)\<lparr>ex_state := evm_state_new
     \<lparr>evm_balances := fmupd 1000 500 fmempty, evm_contracts := fmupd 2000 (contract_account_new demo_lib 2000 [1] 0) fmempty\<rparr>\<rparr>"

lemmas demo_evm_simps = demo_evm_def executor_new_def evm_state_new_def contract_call_new_def contract_call_deploy_def
  is_deployment_def calculate_base_tx_gas_def calculate_tx_data_gas_def calculate_create_gas_def gas_calculator_mainnet_def
  gas_calculator_new_def gas_config_mainnet_def gas_meter_new_def gas_consume_def evm_transfer_def evm_get_balance_def
  evm_set_balance_def amount_defs is_precompile_iff

lemma evm_call_conserves_witness:
  "evm_total (ex_state (snd (evm_execute demo_lib (\<lambda>_. []) demo_evm (contract_call_new 1000 2000 [] 200 50000)))) =
     evm_total (ex_state demo_evm)"
  by (rule evm_call_conserves [of _ 2000]) (simp_all add: contract_call_new_def)

text \<open>Deploying with a value creates tokens: the value is first transferred from the
  deployer to itself, which adds it to the deployer's balance, and then written as the new
  contract's balance; together twice the value appears.\<close>

lemma evm_deployment_mints:
  assumes "evm_execute L hex ex call = (Ok r, ex')" and "cc_to call = None" and "0 < cc_value call"
    and "addr = calculate_create_address L (cc_from call) (evm_get_nonce (ex_state ex) (cc_from call))"
    and "addr \<noteq> cc_from call" and "evm_get_balance (ex_state ex) addr = 0"
  shows "evm_total (ex_state ex') = evm_total (ex_state ex) + 2 * cc_value call"
proof -
  obtain u s where v: "value_moved (ex_state ex) call = (Ok u, s)"
    and dep: "execute_deployment L (ex\<lparr>ex_state := s\<rparr>) call (charged_meter ex call) = (Ok r, ex')"
    using assms(1,2) by (auto simp: evm_execute_eq is_deployment_def split: if_splits prod.splits outcome.splits)
  note sm = value_moved_self [OF assms(2,3) v]
  have "evm_get_nonce s (cc_from call) = evm_get_nonce (ex_state ex) (cc_from call)"
    using value_moved_fields(2) [of "ex_state ex" call] v by (simp add: evm_get_nonce_def)
  with dep obtain s' u' where d: "deploy_contract L s addr (cc_data call) (cc_value call) = (Ok u', s')"
    and st: "ex_state ex' = evm_increment_nonce s' (cc_from call)"
    by (elim execute_deployment_OkE) (simp add: assms(4))
  have "evm_get_balance s addr = 0" using sm(2) [of addr] assms(5,6) by simp
  with deploy_contract_total [OF d] sm(1) st show ?thesis by simp
qed

lemma evm_deployment_mints_witness:
  "\<exists>r ex'. evm_execute demo_lib (\<lambda>_. []) demo_evm (contract_call_deploy 1000 [1, 2] 200 100000) = (Ok r, ex') \<and>
     evm_total (ex_state ex') = evm_total (ex_state demo_evm) + 400"
proof -
  let ?c = "contract_call_deploy 1000 [1, 2] 200 100000"
  have "hd (address_as_bytes 1000) = 0" "address_as_bytes 1000 \<noteq> []"
    using be_bytes_Suc [of 19 "1000 :: address"] by (simp_all add: address_as_bytes_def)
  then obtain bs where bs: "address_as_bytes 1000 = 0 # bs" "length bs = 19"
    by (cases "address_as_bytes 1000") (use length_address_as_bytes [of 1000] in auto)
  have addr: "calculate_create_address demo_lib 1000 0 = 7168"
    unfolding calculate_create_address_def Let_def address_of_hash hash_bytes_demo_lib
    by (simp add: demo_digest_def bs)
  have call: "cc_to ?c = None" "cc_from ?c = 1000" "cc_value ?c = 200" by (simp_all add: contract_call_deploy_def)
  have bal: "evm_get_balance (ex_state demo_evm) 7168 = 0" "evm_get_nonce (ex_state demo_evm) 1000 = 0"
    by (simp_all add: demo_evm_simps evm_get_nonce_def)
  obtain r ex' where run: "evm_execute demo_lib (\<lambda>_. []) demo_evm ?c = (Ok r, ex')"
    by (simp add: evm_execute_def demo_evm_simps deploy_contract_def execute_deployment_def Let_def evm_get_nonce_def addr)
  from evm_deployment_mints [OF run call(1) _ refl] call addr bal run show ?thesis by simp
qed

text \<open>A failed call keeps its transfer: calling a contract with less than four bytes of
  data is an error, yet the value has been moved from the caller to the contract.\<close>

lemma evm_failed_call_keeps_transfer:
  assumes "cc_to call = Some to" and "to \<noteq> cc_from call" and "is_contract (ex_state ex) to"
    and "\<not> is_precompile (ex_precompiles ex) to" and "length (cc_data call) < 4"
    and "base_gas ex call \<le> cc_gas_limit call"
    and "0 < cc_value call" and "cc_value call \<le> evm_get_balance (ex_state ex) (cc_from call)"
  shows "fst (evm_execute L hex ex call) = Err (ExecutionError ''Invalid input'') \<and>
    evm_get_balance (ex_state (snd (evm_execute L hex ex call))) =
      (evm_get_balance (ex_state ex))(cc_from call := evm_get_balance (ex_state ex) (cc_from call) - cc_value call,
        to := evm_get_balance (ex_state ex) to + cc_value call)"
proof -
  have ne: "cc_from call \<noteq> to" using assms(2) by simp
  obtain s where v: "value_moved (ex_state ex) call = (Ok (), s)" and bal: "evm_get_balance s =
      (evm_get_balance (ex_state ex))(cc_from call := evm_get_balance (ex_state ex) (cc_from call) - cc_value call,
        to := evm_get_balance (ex_state ex) to + cc_value call)"
    using evl.transfer_moves [OF assms(8) ne] assms(1,7)
    by (cases "evm_transfer (ex_state ex) (cc_from call) to (cc_value call)")
      (auto simp: value_moved_def amount_is_zero_def)
  have "is_contract s to"
    using value_moved_fields(1) [of "ex_state ex" call] v assms(3) by (simp add: is_contract_def)
  then have "execute_call hex (ex\<lparr>ex_state := s\<rparr>) call (charged_meter ex call) = Err (ExecutionError ''Invalid input'')"
    using assms by (simp add: execute_call_def execute_contract_code_def)
  then show ?thesis using assms(1,6) v bal by (simp add: evm_execute_eq is_deployment_def not_less)
qed

lemma evm_failed_call_keeps_transfer_witness:
  "fst (evm_execute demo_lib (\<lambda>_. []) demo_evm (contract_call_new 1000 2000 [] 200 50000)) =
     Err (ExecutionError ''Invalid input'') \<and>
   evm_get_balance (ex_state (snd (evm_execute demo_lib (\<lambda>_. []) demo_evm (contract_call_new 1000 2000 [] 200 50000)))) 2000 = 200"
proof -
  let ?c = "contract_call_new 1000 2000 [] 200 50000"
  have call: "cc_to ?c = Some 2000" "cc_from ?c = 1000" "cc_value ?c = 200" "cc_data ?c = []" "cc_gas_limit ?c = 50000"
    by (simp_all add: contract_call_new_def)
  have "is_contract (ex_state demo_evm) 2000" "evm_get_balance (ex_state demo_evm) 1000 = 500"
    "evm_get_balance (ex_state demo_evm) 2000 = 0"
    by (simp_all add: is_contract_def demo_evm_def evm_get_balance_def amount_zero_def)
  moreover have "\<not> is_precompile (ex_precompiles demo_evm) 2000"
    by (simp add: demo_evm_def executor_new_def is_precompile_iff)
  moreover have "base_gas demo_evm ?c \<le> 50000"
    by (simp add: base_gas_def calculate_base_tx_gas_def calculate_tx_data_gas_def demo_evm_def executor_new_def
        gas_calculator_mainnet_def gas_calculator_new_def gas_config_mainnet_def is_deployment_def contract_call_new_def)
  ultimately show ?thesis
    using evm_failed_call_keeps_transfer [of ?c 2000 demo_evm demo_lib "\<lambda>_. []"] call by simp
qed

text \<open>Estimates suffice: when \<open>estimate_gas\<close> returns a figure, the executor's state is
  as before, and executing the call with that figure as its gas limit succeeds. This is for
  the executor's own gas schedule and precompiles and call data below 4 GiB; the 10% buffer
  is computed in binary64.\<close>

lemma estimate_gas_suffices:
  assumes "standard L ex" and "length (cc_data call) < 2 ^ 32" and "estimate_gas L hex ex call = (Ok g, ex')"
  shows "ex_state ex' = ex_state ex \<and>
    (\<exists>r ex''. evm_execute L hex ex (call\<lparr>cc_gas_limit := g\<rparr>) = (Ok r, ex'') \<and> er_success r \<and> er_gas_used r \<le> g)"
proof -
  let ?c = "call\<lparr>cc_gas_limit := estimation_limit\<rparr>"
  obtain r ex1 where run: "evm_execute L hex ex ?c = (Ok r, ex1)" and r: "er_success r"
    and g: "g = times_1_1 (er_gas_used r)" and ex': "ex' = ex1\<lparr>ex_state := ex_state ex\<rparr>"
    using assms(3) by (auto simp: estimate_gas_def Let_def split: prod.splits outcome.splits if_splits)
  have used: "er_gas_used r = base_gas ex call + extra_gas hex ex call"
    using evm_execute_limit(1) [OF run] by simp
  have "er_gas_used r \<le> estimation_limit" using evm_execute_limit(3) [OF run] used by simp
  then have "unat (er_gas_used r) < 2 ^ 24" by (simp add: estimation_limit_def word_le_nat_alt)
  then have le: "er_gas_used r \<le> g" unfolding g word_le_nat_alt by (rule times_1_1_bounds(1))
  moreover have "base_gas ex call \<le> er_gas_used r" unfolding used by (rule gas_no_wrap [OF assms(1,2)])
  ultimately have "evm_execute L hex ex (?c\<lparr>cc_gas_limit := g\<rparr>) = (Ok r, ex1)"
    using evm_execute_limit(2) [OF run, of g] used by (simp add: order_trans)
  with r le ex' show ?thesis by simp
qed


lemma estimate_gas_suffices_witness:
  "\<exists>g ex'. estimate_gas demo_lib (\<lambda>_. []) demo_evm (contract_call_new 1000 3000 [] 200 0) = (Ok g, ex') \<and>
     (\<exists>r ex''. evm_execute demo_lib (\<lambda>_. []) demo_evm ((contract_call_new 1000 3000 [] 200 0)\<lparr>cc_gas_limit := g\<rparr>) = (Ok r, ex'') \<and>
        er_success r)"
proof -
  let ?c = "contract_call_new 1000 3000 [] 200 0"
  have st: "standard demo_lib demo_evm" by (simp add: standard_def demo_evm_def executor_new_def)
  have "fst (estimate_gas demo_lib (\<lambda>_. []) demo_evm ?c) = Ok (times_1_1 21000)"
    by (simp add: estimate_gas_def evm_execute_def execute_call_def success_result_def estimation_limit_def demo_evm_simps
        is_contract_def gas_finalize_def saturating_sub_def)
  then obtain g ex' where e: "estimate_gas demo_lib (\<lambda>_. []) demo_evm ?c = (Ok g, ex')"
    by (cases "estimate_gas demo_lib (\<lambda>_. []) demo_evm ?c") auto
  have "length (cc_data ?c) < 2 ^ 32" by (simp add: contract_call_new_def)
  from estimate_gas_suffices [OF st this e] e show ?thesis by auto
qed

end
