(* ===== verification/Slashing.thy ===== *)
theory Slashing
  imports Validator Interfaces
begin

text \<open>
  \<open>slashing.rs\<close> of the \<open>consensus\<close> crate: penalties, their computation in floating
  point, and the accounts the slashing manager keeps.
\<close>

section \<open>Conditions and penalties\<close>

datatype SlashingCondition =
    DoubleSigning
  | ExtendedDowntime u64
  | LiquidityMismanagement
  | GovernanceAttack

fun base_penalty_rate :: "SlashingCondition \<Rightarrow> u16" where
  "base_penalty_rate DoubleSigning = 500"
| "base_penalty_rate (ExtendedDowntime days) = ucast (min (10 * days) 10000)"
| "base_penalty_rate LiquidityMismanagement = 1000"
| "base_penalty_rate GovernanceAttack = 10000"

definition severity_multiplier :: "SlashingCondition \<Rightarrow> u32 \<Rightarrow> f64" where
  "severity_multiplier cond previous_offenses =
     f64_min (f64_add (fl 1) (f64_mul (f64_of_nat (unat previous_offenses)) (fl (1 / 2)))) (fl 3)"

definition is_capital_offense :: "SlashingCondition \<Rightarrow> bool" where
  "is_capital_offense cond \<longleftrightarrow> cond = GovernanceAttack"

record SlashingPenalty =
  pen_validator :: address
  pen_condition :: SlashingCondition
  pen_amount :: StakeAmount
  pen_timestamp :: Timestamp
  pen_previous_offenses :: u32
  pen_evidence_hash :: "hash option"

record SlashingDistribution =
  dist_burn :: StakeAmount
  dist_insurance :: StakeAmount
  dist_whistleblower :: StakeAmount

definition from_slashed_amount :: "StakeAmount \<Rightarrow> SlashingDistribution" where
  "from_slashed_amount amount =
     \<lparr>dist_burn = amount * 50 div 100, dist_insurance = amount * 30 div 100,
      dist_whistleblower = amount * 20 div 100\<rparr>"

section \<open>The manager\<close>

record SlashingManager =
  sm_slashing_history :: "SlashingPenalty list"
  sm_offense_count :: "(address, u32) fmap"
  sm_insurance_fund :: StakeAmount
  sm_total_slashed :: StakeAmount
  sm_total_burned :: StakeAmount

definition slashing_manager_new :: SlashingManager where
  "slashing_manager_new = \<lparr>sm_slashing_history = [], sm_offense_count = fmempty,
     sm_insurance_fund = amount_zero, sm_total_slashed = amount_zero, sm_total_burned = amount_zero\<rparr>"

definition get_offense_count :: "SlashingManager \<Rightarrow> address \<Rightarrow> u32" where
  "get_offense_count m addr = lookup_default 0 (sm_offense_count m) addr"

definition calculate_slash_amount :: "SlashingManager \<Rightarrow> ValidatorInfo \<Rightarrow> SlashingCondition \<Rightarrow> StakeAmount" where
  "calculate_slash_amount m v cond =
     (let base_rate = base_penalty_rate cond;
          previous_offenses = get_offense_count m (vi_address v);
          multiplier = severity_multiplier cond previous_offenses;
          stake_u64 = low_u64 (vi_stake v);
          base_slash = f64_to_u64 (f64_div (f64_mul (f64_of_u64 stake_u64) (f64_of_nat (unat base_rate))) (fl 10000));
          final_slash = f64_to_u64 (f64_mul (f64_of_u64 base_slash) multiplier)
      in amount_from_u64 (min final_slash stake_u64))"

text \<open>
  The source updates the validator and the manager in place, field by field, and an early
  return keeps what was updated before it; the triple carries both along.
\<close>

definition slash_validator ::
    "Timestamp \<Rightarrow> SlashingManager \<Rightarrow> ValidatorInfo \<Rightarrow> SlashingCondition \<Rightarrow> hash option
      \<Rightarrow> (SlashingPenalty, ConsensusError) outcome \<times> SlashingManager \<times> ValidatorInfo" where
  "slash_validator now m v cond evidence_hash =
     (let slash_amount = calculate_slash_amount m v cond in
      if vi_stake v < slash_amount then (Err (SlashingError ''Insufficient stake to slash''), m, v)
      else let previous_offenses = get_offense_count m (vi_address v);
               penalty = \<lparr>pen_validator = vi_address v, pen_condition = cond, pen_amount = slash_amount,
                 pen_timestamp = now, pen_previous_offenses = previous_offenses, pen_evidence_hash = evidence_hash\<rparr>
      in case amount_checked_sub (vi_stake v) slash_amount of
           None \<Rightarrow> (Err (SlashingError ''Stake underflow''), m, v)
         | Some s \<Rightarrow>
      let v1 = v\<lparr>vi_stake := s\<rparr>; distribution = from_slashed_amount slash_amount
      in case amount_checked_add (sm_insurance_fund m) (dist_insurance distribution) of
           None \<Rightarrow> (Err (SlashingError ''Insurance fund overflow''), m, v1)
         | Some i \<Rightarrow>
      let m1 = m\<lparr>sm_insurance_fund := i\<rparr>
      in case amount_checked_add (sm_total_slashed m1) slash_amount of
           None \<Rightarrow> (Err (SlashingError ''Total slashed overflow''), m1, v1)
         | Some t \<Rightarrow>
      let m2 = m1\<lparr>sm_total_slashed := t\<rparr>
      in case amount_checked_add (sm_total_burned m2) (dist_burn distribution) of
           None \<Rightarrow> (Err (SlashingError ''Total burned overflow''), m2, v1)
         | Some b \<Rightarrow>
      let m3 = m2\<lparr>sm_total_burned := b\<rparr>;
          m4 = m3\<lparr>sm_offense_count := fmupd (vi_address v1) (lookup_default 0 (sm_offense_count m3) (vi_address v1) + 1)
                                         (sm_offense_count m3)\<rparr>;
          m5 = m4\<lparr>sm_slashing_history := sm_slashing_history m4 @ [penalty]\<rparr>;
          v2 = (if is_capital_offense cond then v1\<lparr>vi_status := Slashed\<rparr> else v1)
      in (Ok penalty, m5, v2))"

definition get_validator_history :: "SlashingManager \<Rightarrow> address \<Rightarrow> SlashingPenalty list" where
  "get_validator_history m addr = filter (\<lambda>p. pen_validator p = addr) (sm_slashing_history m)"

definition check_downtime_slashing ::
    "Timestamp \<Rightarrow> SlashingManager \<Rightarrow> ValidatorInfo \<Rightarrow> u64
      \<Rightarrow> (SlashingPenalty option, ConsensusError) outcome \<times> SlashingManager \<times> ValidatorInfo" where
  "check_downtime_slashing now m v max_downtime_blocks =
     (let total_blocks = vi_blocks_produced v + vi_blocks_missed v in
      if total_blocks = 0 then (Ok None, m, v)
      else if max_downtime_blocks \<le> vi_blocks_missed v then
        let days_down = vi_blocks_missed v div 28800 in
        if 0 < days_down then
          (case slash_validator now m v (ExtendedDowntime days_down) None of
             (r, m', v') \<Rightarrow> (and_then r (\<lambda>penalty. Ok (Some penalty)), m', v'))
        else (Ok None, m, v)
      else (Ok None, m, v))"

definition withdraw_insurance :: "SlashingManager \<Rightarrow> StakeAmount \<Rightarrow> (SlashingManager, ConsensusError) outcome" where
  "withdraw_insurance m amount =
     and_then (ok_or (SlashingError ''Insufficient insurance fund balance'')
                 (amount_checked_sub (sm_insurance_fund m) amount))
       (\<lambda>i. Ok (m\<lparr>sm_insurance_fund := i\<rparr>))"

section \<open>The amount\<close>

lemma calculate_slash_le: "calculate_slash_amount m v cond \<le> vi_stake v"
proof -
  have "calculate_slash_amount m v cond \<le> unat (low_u64 (vi_stake v))"
    by (simp add: calculate_slash_amount_def Let_def amount_from_u64_def min_def word_le_nat_alt)
  also have "\<dots> \<le> vi_stake v" by (simp add: low_u64_def unat_of_nat)
  finally show ?thesis .
qed

lemma representable_half: "n \<le> 2 ^ 40 \<Longrightarrow> representable (of_nat n / 2)"
  using representable_dyadic [of "n * 2 ^ 13"] by simp

lemma severity_multiplier_value:
  "severity_multiplier cond n = Fin (of_nat (2 + min 4 (unat n)) / 2)"
proof -
  obtain k where k: "unat n = k" by blast
  have b: "k < 2 ^ 32" using unsigned_less [of n, where 'a = nat] k by simp
  have half: "fl (1 / 2) = Fin (1 / 2)" using fl_exact [OF representable_half [of 1]] by simp
  have three: "fl 3 = Fin 3" by (rule fl_exact, rule representable_numeral) simp
  have c: "f64_of_nat k = Fin (of_nat k)" using b by (intro fl_of_nat) simp
  have m: "fl (of_nat k * (1 / 2)) = Fin (of_nat k / 2)"
    using fl_exact [OF representable_half [of k]] b by simp
  have "representable (of_nat (2 + k) / 2)" using b by (intro representable_half) simp
  then have a: "fl (1 + of_nat k / 2) = Fin (of_nat (2 + k) / 2)" using fl_exact by (simp add: add_divide_distrib)
  have "severity_multiplier cond n = f64_min (Fin (of_nat (2 + k) / 2)) (Fin 3)"
    unfolding severity_multiplier_def k c half three fl_1 f64_mul.simps m f64_add.simps a ..
  also have "\<dots> = Fin (of_nat (2 + min 4 k) / 2)"
  proof (cases "k \<le> 4")
    case True
    have "(of_nat k :: rat) \<le> of_nat 4" using True by (rule of_nat_mono)
    then show ?thesis using True by (simp add: f64_min_def min_absorb2)
  next
    case False
    have "(of_nat 4 :: rat) < of_nat k" using False by (simp only: of_nat_less_iff not_le)
    then show ?thesis using False by (simp add: f64_min_def)
  qed
  finally show ?thesis unfolding k .
qed

lemma base_penalty_rate_le: "unat (base_penalty_rate cond) \<le> 10000"
proof (cases cond)
  case (ExtendedDowntime days)
  have "min (10 * days) 10000 \<le> (10000 :: u64)" by simp
  then have "unat (min (10 * days) 10000 :: u64) \<le> 10000" by (simp add: word_le_nat_alt)
  then show ?thesis using ExtendedDowntime by (simp add: unsigned_ucast_eq take_bit_nat_eq_self)
qed simp_all

text \<open>Below \<open>2^37\<close> the floating point detour is exact.\<close>

lemma calculate_slash_closed_form:
  assumes "vi_stake v < 2 ^ 37"
  shows "calculate_slash_amount m v cond =
    min (vi_stake v)
      (vi_stake v * unat (base_penalty_rate cond) div 10000 * (2 + min 4 (unat (get_offense_count m (vi_address v)))) div 2)"
proof -
  obtain s r j where d: "vi_stake v = s" "unat (base_penalty_rate cond) = r"
      "min 4 (unat (get_offense_count m (vi_address v))) = j" by blast
  have s: "s < 2 ^ 37" and r: "r \<le> 10000" and j: "j \<le> 4" using assms d base_penalty_rate_le [of cond] by auto
  let ?w = "low_u64 s"
  have w: "unat ?w = s" using s by (simp add: low_u64_def unat_of_nat)
  let ?b = "s * r div 10000"
  have "s * r \<le> s * 10000" using r by simp
  then have b: "?b \<le> s" using div_le_mono [of "s * r" "s * 10000" 10000] by simp
  have eb: "f64_of_nat ?b = Fin (of_nat ?b)" using b s by (intro fl_of_nat) simp
  have bj: "?b * (2 + j) \<le> 6 * s" using mult_le_mono [OF b, of "2 + j" 6] j by simp
  have "fl (of_nat (?b * (2 + j)) / 2) = Fin (of_nat (?b * (2 + j)) / 2)"
  proof (rule fl_exact, rule representable_half)
    have "6 * s \<le> 2 ^ 40" using s by simp
    with bj show "?b * (2 + j) \<le> 2 ^ 40" by (rule le_trans)
  qed
  then have mul: "f64_mul (f64_of_nat ?b) (Fin (of_nat (2 + j) / 2)) = Fin (of_nat (?b * (2 + j)) / 2)"
    unfolding eb f64_mul.simps by (simp only: of_nat_mult times_divide_eq_right)
  have fin: "f64_to_nat (2 ^ 64 - 1) (Fin (of_nat (?b * (2 + j)) / 2)) = ?b * (2 + j) div 2"
  proof -
    have "?b * (2 + j) div 2 \<le> 2 ^ 64 - 1" using bj s by simp
    then show ?thesis using f64_to_nat_div [of "2 ^ 64 - 1" "?b * (2 + j)" 2] by (simp only: min_absorb2 of_nat_numeral)
  qed
  define base_slash where "base_slash = f64_to_u64 (f64_div (f64_mul (f64_of_nat s) (f64_of_nat r)) (fl 10000))"
  have bs: "unat base_slash = ?b" unfolding base_slash_def using s r by (intro basis_points_exact) simp_all
  define final_slash where "final_slash = f64_to_u64 (f64_mul (f64_of_u64 base_slash) (Fin (of_nat (2 + j) / 2)))"
  have fs: "unat final_slash = ?b * (2 + j) div 2"
    unfolding final_slash_def unat_f64_to_u64 bs mul by (rule fin)
  have "calculate_slash_amount m v cond = unat (min final_slash ?w)"
    unfolding calculate_slash_amount_def Let_def severity_multiplier_value d w final_slash_def base_slash_def
      amount_from_u64_def ..
  also have "\<dots> = min (unat final_slash) (unat ?w)" by (simp add: min_def word_le_nat_alt)
  finally show ?thesis unfolding fs w d by (simp add: min.commute)
qed

section \<open>Slashing a validator\<close>

lemma slash_validator_result:
  "slash_validator now m v cond ev =
     (let amount = calculate_slash_amount m v cond;
          penalty = \<lparr>pen_validator = vi_address v, pen_condition = cond, pen_amount = amount, pen_timestamp = now,
            pen_previous_offenses = get_offense_count m (vi_address v), pen_evidence_hash = ev\<rparr>
      in (Ok penalty,
          \<lparr>sm_slashing_history = sm_slashing_history m @ [penalty],
           sm_offense_count = fmupd (vi_address v) (get_offense_count m (vi_address v) + 1) (sm_offense_count m),
           sm_insurance_fund = sm_insurance_fund m + amount * 30 div 100,
           sm_total_slashed = sm_total_slashed m + amount,
           sm_total_burned = sm_total_burned m + amount * 50 div 100\<rparr>,
          v\<lparr>vi_stake := vi_stake v - amount, vi_status := if is_capital_offense cond then Slashed else vi_status v\<rparr>))"
  using calculate_slash_le [of m v cond]
  by (simp add: slash_validator_def Let_def amount_checked_sub_def amount_checked_add_def
      from_slashed_amount_def get_offense_count_def not_less)

lemma check_downtime_result:
  "check_downtime_slashing now m v limit =
     (if vi_blocks_produced v + vi_blocks_missed v \<noteq> 0 \<and> limit \<le> vi_blocks_missed v \<and> 0 < vi_blocks_missed v div 28800
      then (case slash_validator now m v (ExtendedDowntime (vi_blocks_missed v div 28800)) None of
              (r, m', v') \<Rightarrow> (and_then r (\<lambda>penalty. Ok (Some penalty)), m', v'))
      else (Ok None, m, v))"
  by (simp add: check_downtime_slashing_def Let_def)

section \<open>The manager's accounts\<close>

inductive slashing_step :: "SlashingManager \<Rightarrow> SlashingManager \<Rightarrow> bool" where
  slash: "slash_validator now m v cond ev = (r, m', v') \<Longrightarrow> slashing_step m m'"
| downtime: "check_downtime_slashing now m v limit = (r, m', v') \<Longrightarrow> slashing_step m m'"
| withdraw: "withdraw_insurance m amount = Ok m' \<Longrightarrow> slashing_step m m'"

definition slashed_of :: "address \<Rightarrow> SlashingPenalty list \<Rightarrow> nat" where
  "slashed_of addr ps = length (filter (\<lambda>p. pen_validator p = addr) ps)"

definition slashing_ok :: "SlashingManager \<Rightarrow> bool" where
  "slashing_ok m \<longleftrightarrow>
     sm_total_slashed m = sum_list (map pen_amount (sm_slashing_history m)) \<and>
     sm_total_burned m = sum_list (map (\<lambda>p. pen_amount p * 50 div 100) (sm_slashing_history m)) \<and>
     sm_insurance_fund m \<le> sum_list (map (\<lambda>p. pen_amount p * 30 div 100) (sm_slashing_history m)) \<and>
     (\<forall>addr. get_offense_count m addr = of_nat (slashed_of addr (sm_slashing_history m))) \<and>
     (\<forall>i < length (sm_slashing_history m).
        let p = sm_slashing_history m ! i in
        pen_previous_offenses p = of_nat (slashed_of (pen_validator p) (take i (sm_slashing_history m))))"

lemma slashing_ok_new: "slashing_ok slashing_manager_new"
  by (simp add: slashing_ok_def slashing_manager_new_def amount_zero_def get_offense_count_def slashed_of_def)

lemma slashing_ok_slash: "slash_validator now m v cond ev = (r, m', v') \<Longrightarrow> slashing_ok m \<Longrightarrow> slashing_ok m'"
  by (auto simp: slash_validator_result Let_def slashing_ok_def get_offense_count_def slashed_of_def
      nth_append less_Suc_eq)

lemma slashing_ok_downtime: "check_downtime_slashing now m v limit = (r, m', v') \<Longrightarrow> slashing_ok m \<Longrightarrow> slashing_ok m'"
  by (auto simp: check_downtime_result split: if_splits prod.splits dest: slashing_ok_slash)

lemma slashing_ok_withdraw: "withdraw_insurance m amount = Ok m' \<Longrightarrow> slashing_ok m \<Longrightarrow> slashing_ok m'"
  by (auto simp: withdraw_insurance_def outcome_simps amount_checked_sub_def slashing_ok_def get_offense_count_def
      split: if_splits)

interpretation slashing: invariant_machine "\<lambda>m. m = slashing_manager_new" slashing_step slashing_ok
proof
  show "slashing_ok m" if "m = slashing_manager_new" for m using that slashing_ok_new by simp
  show "slashing_ok m'" if "slashing_ok m" and "slashing_step m m'" for m m'
    using that(2,1) by cases (auto dest: slashing_ok_slash slashing_ok_downtime slashing_ok_withdraw)
qed

lemma split_parts: "sum_list (map (\<lambda>p. f p * 50 div 100) ps) + sum_list (map (\<lambda>p. f p * 30 div 100) ps) \<le> sum_list (map f ps)"
  for f :: "'a \<Rightarrow> nat"
  by (induction ps) auto

section \<open>Properties\<close>

text \<open>C9. Slashing a validator always succeeds and keeps every token accounted for. The penalty is the
  calculated amount, never more than the stake; the stake falls and the total rises by exactly it;
  half is burned, 30 per cent goes to the insurance fund and 20 per cent to the whistleblower, the
  three rounded down with at most two units lost; the offence count and the history grow by one,
  and a capital offence marks the validator as slashed.\<close>

theorem slash_validator_correct:
  fixes now m v cond ev
  defines "amount \<equiv> calculate_slash_amount m v cond" and "d \<equiv> from_slashed_amount (calculate_slash_amount m v cond)"
  shows "\<exists>p m' v'. slash_validator now m v cond ev = (Ok p, m', v') \<and>
     pen_amount p = amount \<and> vi_stake v' + amount = vi_stake v \<and>
     sm_total_slashed m' = sm_total_slashed m + amount \<and>
     sm_total_burned m' = sm_total_burned m + dist_burn d \<and>
     sm_insurance_fund m' = sm_insurance_fund m + dist_insurance d \<and>
     dist_burn d + dist_insurance d + dist_whistleblower d \<le> amount \<and>
     amount \<le> dist_burn d + dist_insurance d + dist_whistleblower d + 2 \<and>
     get_offense_count m' (vi_address v) = get_offense_count m (vi_address v) + 1 \<and>
     get_validator_history m' (vi_address v) = get_validator_history m (vi_address v) @ [p] \<and>
     vi_status v' = (if cond = GovernanceAttack then Slashed else vi_status v)"
proof -
  have "amount \<le> vi_stake v" unfolding amount_def by (rule calculate_slash_le)
  moreover have "amount \<le> amount * 50 div 100 + amount * 30 div 100 + amount * 20 div 100 + 2" by linarith
  ultimately show ?thesis
    unfolding slash_validator_result Let_def d_def amount_def [symmetric]
    by (simp add: from_slashed_amount_def is_capital_offense_def get_offense_count_def get_validator_history_def)
qed

text \<open>For stakes below \<open>2^37\<close> the penalty computed in floating point is the exact integer formula:
  the base rate in basis points of the stake, rounded down, times one plus half the number of
  previous offences and at most three, rounded down, and never more than the stake.\<close>

lemma calculate_slash_exact:
  assumes "vi_stake v < 2 ^ 37"
  shows "calculate_slash_amount m v cond =
    min (vi_stake v)
      (vi_stake v * unat (base_penalty_rate cond) div 10000 * (2 + min 4 (unat (get_offense_count m (vi_address v)))) div 2)"
  using assms by (rule calculate_slash_closed_form)

lemma calculate_slash_exact_witness:
  "calculate_slash_amount slashing_manager_new (validator_new 7 1 100000 500) DoubleSigning = 5000"
  using calculate_slash_exact [of "validator_new 7 1 100000 500" slashing_manager_new DoubleSigning]
  by (simp add: validator_new_def slashing_manager_new_def get_offense_count_def)

text \<open>Only the low 64 bits of a stake are at risk. A validator whose stake is a multiple of \<open>2^64\<close>
  base units (about 18.4 tokens) loses nothing, whatever it did: a governance attack, meant to cost
  the whole stake, leaves it untouched.\<close>

lemma slash_ignores_high_words:
  assumes "2 ^ 64 dvd vi_stake v"
  shows "calculate_slash_amount m v cond = 0"
proof -
  have "low_u64 (vi_stake v) = 0" using assms by (simp add: low_u64_def word_unat_eq_iff unat_of_nat)
  then show ?thesis by (simp add: calculate_slash_amount_def Let_def amount_from_u64_def)
qed

lemma slash_ignores_high_words_witness:
  "calculate_slash_amount slashing_manager_new (validator_new 7 1 (2 ^ 64) 500) GovernanceAttack = 0"
  by (rule slash_ignores_high_words) (simp add: validator_new_def)

text \<open>In every state the slashing manager reaches from its creation, by any sequence of slashings,
  downtime checks and withdrawals from the fund, its totals are the sums over its history: the
  slashed total, the burned half, an insurance fund that never exceeds its 30 per cent; every
  validator's offence count is its number of penalties, each of which recorded the number before it.\<close>

lemma slashing_accounts_reachable:
  assumes "slashing_step\<^sup>*\<^sup>* slashing_manager_new m"
  shows "slashing_ok m \<and> sm_total_burned m + sm_insurance_fund m \<le> sm_total_slashed m"
proof
  show ok: "slashing_ok m" using assms by (rule slashing.reachable_inv [OF refl])
  show "sm_total_burned m + sm_insurance_fund m \<le> sm_total_slashed m"
    using ok split_parts [of pen_amount "sm_slashing_history m"] by (auto simp: slashing_ok_def)
qed

lemma slashing_accounts_reachable_witness:
  "slashing_ok (fst (snd (slash_validator 7 slashing_manager_new (validator_new 7 1 100000 500) DoubleSigning None)))"
proof (rule conjunct1 [OF slashing_accounts_reachable], rule r_into_rtranclp)
  obtain r m' v' where "slash_validator 7 slashing_manager_new (validator_new 7 1 100000 500) DoubleSigning None = (r, m', v')"
    by (cases "slash_validator 7 slashing_manager_new (validator_new 7 1 100000 500) DoubleSigning None")
  then show "slashing_step slashing_manager_new
      (fst (snd (slash_validator 7 slashing_manager_new (validator_new 7 1 100000 500) DoubleSigning None)))"
    by (auto intro: slashing_step.slash)
qed

end
