(* ===== verification/Selection.thy ===== *)
theory Selection
  imports Validator "HOL-Library.Multiset"
begin

text \<open>
  \<open>selection.rs\<close> of the \<open>consensus\<close> crate: selection weights, the weighted choice of a
  proposer for a slot or with a random number, committees, and the concentration measures.
  The random generator of the \<open>rand\<close> crate is the argument \<open>gen_range\<close>: it draws below a
  bound and returns its next state.
\<close>

section \<open>Weights\<close>

record SelectionWeight =
  sw_address :: address
  sw_weight :: u64

definition calculate_weight :: "ValidatorInfo \<Rightarrow> u64" where
  "calculate_weight v =
     (if \<not> can_produce_blocks v then 0
      else let stake = low_u64 (vi_stake v);
               utility = f64_div (f64_of_u64 (utility_score_value (vi_utility_score v))) (fl 1000);
               reliability = reliability_factor v;
               efficiency = efficiency_score v;
               weight = f64_mul (f64_mul (f64_mul (f64_of_u64 stake) (f64_add (fl 1) (f64_div utility (fl 10)))) reliability)
                          (f64_add (fl 1) efficiency)
           in f64_to_u64 weight)"

definition calculate_weights :: "ValidatorInfo list \<Rightarrow> SelectionWeight list" where
  "calculate_weights validators =
     filter (\<lambda>w. 0 < sw_weight w)
       (map (\<lambda>v. \<lparr>sw_address = vi_address v, sw_weight = calculate_weight v\<rparr>) validators)"

definition total_weight :: "SelectionWeight list \<Rightarrow> u64" where
  "total_weight weights = sum_list (map sw_weight weights)"

section \<open>Choosing a validator\<close>

fun subtract_walk :: "SelectionWeight list \<Rightarrow> u64 \<Rightarrow> address option" where
  "subtract_walk [] selection = None"
| "subtract_walk (w # ws) selection =
     (if selection < sw_weight w then Some (sw_address w) else subtract_walk ws (selection - sw_weight w))"

definition select_validator ::
    "('r \<Rightarrow> u64 \<Rightarrow> u64 \<times> 'r) \<Rightarrow> 'r \<Rightarrow> ValidatorInfo list \<Rightarrow> (address, ConsensusError) outcome \<times> 'r" where
  "select_validator gen_range rng validators =
     (if validators = [] then (Err (SelectionError ''No validators available''), rng)
      else let weights = calculate_weights validators in
      if weights = [] then (Err (SelectionError ''No eligible validators''), rng)
      else if total_weight weights = 0 then (Err (SelectionError ''Total weight is zero''), rng)
      else case gen_range rng (total_weight weights) of (selection, rng') \<Rightarrow>
        (case subtract_walk weights selection of
           Some addr \<Rightarrow> (Ok addr, rng')
         | None \<Rightarrow> (Ok (sw_address (hd weights)), rng')))"

fun committee_loop ::
    "('r \<Rightarrow> u64 \<Rightarrow> u64 \<times> 'r) \<Rightarrow> nat \<Rightarrow> 'r \<Rightarrow> ValidatorInfo list \<Rightarrow> address list
      \<Rightarrow> (address list, ConsensusError) outcome \<times> 'r" where
  "committee_loop gen_range 0 rng remaining selected = (Ok selected, rng)"
| "committee_loop gen_range (Suc n) rng remaining selected =
     (if remaining = [] then (Ok selected, rng)
      else case select_validator gen_range rng remaining of
             (Ok addr, rng') \<Rightarrow>
               committee_loop gen_range n rng' (filter (\<lambda>v. vi_address v \<noteq> addr) remaining) (selected @ [addr])
           | (Err e, rng') \<Rightarrow> (Err e, rng')
           | (Panic, rng') \<Rightarrow> (Panic, rng'))"

definition select_committee ::
    "('r \<Rightarrow> u64 \<Rightarrow> u64 \<times> 'r) \<Rightarrow> 'r \<Rightarrow> ValidatorInfo list \<Rightarrow> nat \<Rightarrow> (address list, ConsensusError) outcome \<times> 'r" where
  "select_committee gen_range rng validators wanted =
     (if validators = [] then (Err (SelectionError ''No validators available''), rng)
      else committee_loop gen_range (min wanted (length validators)) rng validators [])"

fun accumulate_walk :: "SelectionWeight list \<Rightarrow> u64 \<Rightarrow> u64 \<Rightarrow> address option" where
  "accumulate_walk [] accumulated selection = None"
| "accumulate_walk (w # ws) accumulated selection =
     (if selection < accumulated + sw_weight w then Some (sw_address w)
      else accumulate_walk ws (accumulated + sw_weight w) selection)"

definition select_for_slot :: "ValidatorInfo list \<Rightarrow> u64 \<Rightarrow> (address, ConsensusError) outcome" where
  "select_for_slot validators slot =
     (if validators = [] then Err (SelectionError ''No validators available'')
      else let weights = calculate_weights validators in
      if weights = [] then Err (SelectionError ''No eligible validators'')
      else if total_weight weights = 0 then Err (SelectionError ''Total weight is zero'')
      else let selection = slot mod total_weight weights in
        (case accumulate_walk weights 0 selection of
           Some addr \<Rightarrow> Ok addr
         | None \<Rightarrow> Ok (sw_address (hd weights))))"

section \<open>Concentration measures\<close>

definition calculate_probability :: "ValidatorInfo \<Rightarrow> u64 \<Rightarrow> f64" where
  "calculate_probability v tw = (if tw = 0 then Fin 0 else f64_div (f64_of_u64 (calculate_weight v)) (f64_of_u64 tw))"

definition expected_blocks :: "ValidatorInfo \<Rightarrow> u64 \<Rightarrow> u64 \<Rightarrow> f64" where
  "expected_blocks v tw epoch_blocks = f64_mul (calculate_probability v tw) (f64_of_u64 epoch_blocks)"

fun nakamoto_loop :: "u64 \<Rightarrow> u64 list \<Rightarrow> u64 \<Rightarrow> nat \<Rightarrow> nat" where
  "nakamoto_loop threshold [] accumulated found = found"
| "nakamoto_loop threshold (w # ws) accumulated found =
     (if threshold \<le> accumulated + w then found + 1
      else nakamoto_loop threshold ws (accumulated + w) (found + 1))"

definition nakamoto_coefficient :: "ValidatorInfo list \<Rightarrow> nat" where
  "nakamoto_coefficient validators =
     (let weights = rev (sort (map calculate_weight validators));
          threshold = sum_list weights div 3
      in nakamoto_loop threshold weights 0 0)"

text \<open>The weights cast to \<open>f64\<close> are finite, so that comparing them never fails.\<close>

fun f64_value :: "f64 \<Rightarrow> rat" where
  "f64_value (Fin r) = r"
| "f64_value _ = 0"

definition gini_coefficient :: "ValidatorInfo list \<Rightarrow> f64" where
  "gini_coefficient validators =
     (if validators = [] then Fin 0
      else let stakes = sort_key f64_value (map (\<lambda>v. f64_of_u64 (calculate_weight v)) validators);
               n = f64_of_nat (length stakes);
               sum = foldl f64_add (Fin 0) stakes
           in if f64_eq sum (Fin 0) then Fin 0
              else let numerator = foldl (\<lambda>acc (i, s). f64_add acc
                         (f64_mul (f64_sub (f64_sub (f64_mul (fl 2) (f64_add (f64_of_nat i) (fl 1))) n) (fl 1)) s))
                         (Fin 0) (enumerate 0 stakes)
                   in f64_div numerator (f64_mul n sum))"

section \<open>The walks\<close>

text \<open>What both walks compute when no sum wraps: the entry whose interval holds the number.\<close>

fun pick :: "SelectionWeight list \<Rightarrow> nat \<Rightarrow> address option" where
  "pick [] n = None"
| "pick (w # ws) n = (if n < unat (sw_weight w) then Some (sw_address w) else pick ws (n - unat (sw_weight w)))"

definition weight_sum :: "SelectionWeight list \<Rightarrow> nat" where
  "weight_sum ws = sum_list (map (\<lambda>w. unat (sw_weight w)) ws)"

lemma weight_sum_simps [simp]:
  "weight_sum [] = 0" "weight_sum (w # ws) = unat (sw_weight w) + weight_sum ws"
  by (simp_all add: weight_sum_def)

lemma unat_total_weight: "weight_sum ws < 2 ^ 64 \<Longrightarrow> unat (total_weight ws) = weight_sum ws"
proof (induction ws)
  case (Cons w ws)
  then have ih: "unat (total_weight ws) = weight_sum ws" by simp
  have "total_weight (w # ws) = sw_weight w + total_weight ws" by (simp add: total_weight_def)
  then show ?case using unat_add_u64 [of "sw_weight w" "total_weight ws"] Cons.prems ih by simp
qed (simp add: total_weight_def)

lemma subtract_walk_pick: "subtract_walk ws n = pick ws (unat n)"
  by (induction ws arbitrary: n) (auto simp: word_less_nat_alt unat_sub_if' not_less)

lemma accumulate_walk_pick:
  "unat acc + weight_sum ws < 2 ^ 64 \<Longrightarrow> acc \<le> n \<Longrightarrow> accumulate_walk ws acc n = pick ws (unat n - unat acc)"
proof (induction ws arbitrary: acc)
  case (Cons w ws)
  have a: "unat (acc + sw_weight w) = unat acc + unat (sw_weight w)"
    using Cons.prems(1) by (intro unat_add_u64) simp
  have le: "unat acc \<le> unat n" using Cons.prems(2) by (simp add: word_le_nat_alt)
  show ?case
  proof (cases "n < acc + sw_weight w")
    case True
    then show ?thesis using a le by (simp add: word_less_nat_alt less_diff_conv2 add.commute)
  next
    case False
    then have "acc + sw_weight w \<le> n" by simp
    moreover have "\<not> unat n - unat acc < unat (sw_weight w)" using False a le by (simp add: word_less_nat_alt)
    ultimately show ?thesis using Cons False a by (simp add: diff_diff_left)
  qed
qed simp

lemma pick_Some: "n < weight_sum ws \<Longrightarrow> \<exists>w \<in> set ws. pick ws n = Some (sw_address w) \<and> 0 < sw_weight w"
proof (induction ws arbitrary: n)
  case (Cons w ws)
  then show ?case
    using word_less_nat_alt [of 0 "sw_weight w"] by (cases "n < unat (sw_weight w)") auto
qed simp

definition weight_of :: "address \<Rightarrow> SelectionWeight list \<Rightarrow> nat" where
  "weight_of addr ws = sum_list (map (\<lambda>w. if sw_address w = addr then unat (sw_weight w) else 0) ws)"

text \<open>An address is picked by exactly as many numbers as its weight.\<close>

lemma card_pick: "card {n. n < weight_sum ws \<and> pick ws n = Some addr} = weight_of addr ws"
proof (induction ws)
  case (Cons w ws)
  let ?k = "unat (sw_weight w)"
  let ?A = "if sw_address w = addr then {..<?k} else {}"
  let ?B = "{n. n < weight_sum ws \<and> pick ws n = Some addr}"
  have "{n. n < weight_sum (w # ws) \<and> pick (w # ws) n = Some addr} = ?A \<union> (+) ?k ` ?B"
  proof (intro set_eqI iffI)
    fix n
    assume "n \<in> {n. n < weight_sum (w # ws) \<and> pick (w # ws) n = Some addr}"
    then show "n \<in> ?A \<union> (+) ?k ` ?B"
      by (cases "n < ?k") (auto split: if_splits intro!: image_eqI [of _ _ "n - ?k"])
  qed (auto split: if_splits)
  moreover have "card (?A \<union> (+) ?k ` ?B) = card ?A + card ((+) ?k ` ?B)"
    by (rule card_Un_disjoint) auto
  moreover have "card ((+) ?k ` ?B) = card ?B" by (rule card_image) simp
  ultimately show ?case using Cons by (simp add: weight_of_def)
qed (simp add: weight_of_def)

lemma calculate_weights_mem:
  "w \<in> set (calculate_weights vs) \<longleftrightarrow>
     (\<exists>v \<in> set vs. w = \<lparr>sw_address = vi_address v, sw_weight = calculate_weight v\<rparr> \<and> 0 < calculate_weight v)"
  by (auto simp: calculate_weights_def)

lemma calculate_weight_eligible: "0 < calculate_weight v \<Longrightarrow> can_produce_blocks v"
  by (auto simp: calculate_weight_def split: if_splits)

lemma select_for_slot_pick:
  assumes "0 < weight_sum (calculate_weights vs)" and "weight_sum (calculate_weights vs) < 2 ^ 64"
  shows "select_for_slot vs slot = Ok (the (pick (calculate_weights vs) (unat slot mod weight_sum (calculate_weights vs))))"
    and "pick (calculate_weights vs) (unat slot mod weight_sum (calculate_weights vs)) \<noteq> None"
proof -
  let ?ws = "calculate_weights vs"
  have n: "?ws \<noteq> []" "vs \<noteq> []" using assms(1) by (auto simp: calculate_weights_def)
  have t: "unat (total_weight ?ws) = weight_sum ?ws" using assms(2) by (rule unat_total_weight)
  then have tz: "total_weight ?ws \<noteq> 0" using assms(1) by auto
  have m: "unat (slot mod total_weight ?ws) = unat slot mod weight_sum ?ws" by (simp add: unat_mod t)
  show p: "pick ?ws (unat slot mod weight_sum ?ws) \<noteq> None"
    using pick_Some [of "unat slot mod weight_sum ?ws" ?ws] assms(1) by auto
  have "accumulate_walk ?ws 0 (slot mod total_weight ?ws) = pick ?ws (unat slot mod weight_sum ?ws)"
    using accumulate_walk_pick [of 0 ?ws "slot mod total_weight ?ws"] assms(2) m by simp
  then show "select_for_slot vs slot = Ok (the (pick ?ws (unat slot mod weight_sum ?ws)))"
    using n tz p by (auto simp: select_for_slot_def Let_def)
qed

section \<open>Committees\<close>

definition gen_range_ok :: "('r \<Rightarrow> u64 \<Rightarrow> u64 \<times> 'r) \<Rightarrow> bool" where
  "gen_range_ok gen_range \<longleftrightarrow> (\<forall>rng n. 0 < n \<longrightarrow> fst (gen_range rng n) < n)"

lemma unat_total_weight_le: "unat (total_weight ws) \<le> weight_sum ws"
proof (induction ws)
  case (Cons w ws)
  have "unat (total_weight (w # ws)) \<le> unat (sw_weight w) + unat (total_weight ws)"
    by (simp add: total_weight_def unat_word_ariths)
  then show ?case using Cons by simp
qed (simp add: total_weight_def)

lemma select_validator_cases:
  assumes "gen_range_ok gen_range" and "select_validator gen_range rng vs = (r, rng')"
  shows "(\<exists>v \<in> set vs. r = Ok (vi_address v) \<and> 0 < calculate_weight v) \<or> (\<exists>msg. r = Err (SelectionError msg))"
proof -
  let ?ws = "calculate_weights vs"
  consider "vs = [] \<or> ?ws = [] \<or> total_weight ?ws = 0"
    | n rng1 where "vs \<noteq> []" "?ws \<noteq> []" "total_weight ?ws \<noteq> 0" "gen_range rng (total_weight ?ws) = (n, rng1)"
    by (cases "gen_range rng (total_weight ?ws)") blast
  then show ?thesis
  proof cases
    case 1
    then show ?thesis using assms(2) by (auto simp: select_validator_def Let_def split: if_splits)
  next
    case 2
    then have "n < total_weight ?ws" using assms(1) unfolding gen_range_ok_def by (metis fst_conv word_gt_0)
    then have "unat n < weight_sum ?ws" using unat_total_weight_le [of ?ws] by (simp add: word_less_nat_alt)
    then obtain w where w: "w \<in> set ?ws" "pick ?ws (unat n) = Some (sw_address w)" "0 < sw_weight w"
      using pick_Some by blast
    then have "r = Ok (sw_address w)"
      using assms(2) 2 by (auto simp: select_validator_def Let_def subtract_walk_pick)
    with w show ?thesis by (auto simp: calculate_weights_mem)
  qed
qed

lemma select_validator_total:
  assumes "gen_range_ok gen_range" and "0 < weight_sum (calculate_weights vs)" and "weight_sum (calculate_weights vs) < 2 ^ 64"
  shows "\<exists>v \<in> set vs. fst (select_validator gen_range rng vs) = Ok (vi_address v)"
proof -
  obtain r rng' where s: "select_validator gen_range rng vs = (r, rng')" by fastforce
  have "total_weight (calculate_weights vs) \<noteq> 0"
    using unat_total_weight [OF assms(3)] assms(2) by auto
  moreover have "calculate_weights vs \<noteq> []" "vs \<noteq> []" using assms(2) by (auto simp: calculate_weights_def)
  ultimately have "\<nexists>msg. r = Err (SelectionError msg)"
    using s by (auto simp: select_validator_def Let_def split: prod.splits option.splits)
  then show ?thesis using select_validator_cases [OF assms(1) s] s by auto
qed

lemma committee_loop_Ok:
  assumes "gen_range_ok gen_range"
  shows "committee_loop gen_range n rng remaining selected = (Ok chosen, rng') \<Longrightarrow>
    distinct (map vi_address remaining) \<Longrightarrow>
    \<exists>new. chosen = selected @ map vi_address new \<and> distinct (map vi_address new) \<and> set new \<subseteq> set remaining \<and>
      (\<forall>v \<in> set new. 0 < calculate_weight v) \<and> length new = min n (length remaining)"
proof (induction n arbitrary: rng remaining selected)
  case (Suc n)
  show ?case
  proof (cases "remaining = []")
    case False
    obtain r rng1 where s: "select_validator gen_range rng remaining = (r, rng1)" by fastforce
    have "\<exists>addr. r = Ok addr" using Suc.prems(1) False s by (cases r) auto
    then obtain v where v: "v \<in> set remaining" "r = Ok (vi_address v)" "0 < calculate_weight v"
      using select_validator_cases [OF assms s] by auto
    let ?rest = "filter (\<lambda>u. vi_address u \<noteq> vi_address v) remaining"
    have "committee_loop gen_range n rng1 ?rest (selected @ [vi_address v]) = (Ok chosen, rng')"
      using Suc.prems(1) False s v(2) by simp
    moreover have "distinct (map vi_address ?rest)" using Suc.prems(2) by (rule distinct_map_filter)
    ultimately obtain new where new: "chosen = (selected @ [vi_address v]) @ map vi_address new"
        "distinct (map vi_address new)" "set new \<subseteq> set ?rest" "\<forall>u \<in> set new. 0 < calculate_weight u"
        "length new = min n (length ?rest)"
      using Suc.IH by blast
    have "length ?rest = length remaining - 1"
    proof -
      have "?rest = filter (\<lambda>u. u \<noteq> v) remaining"
        using v(1) Suc.prems(2) by (intro filter_cong) (auto simp: distinct_map inj_on_def)
      moreover have d: "distinct remaining" using Suc.prems(2) by (simp add: distinct_map)
      moreover have "length (filter (\<lambda>u. u \<noteq> v) remaining) = card (set remaining - {v})"
        using distinct_card [OF distinct_filter [OF d, of "\<lambda>u. u \<noteq> v"]] by (simp add: set_diff_eq)
      ultimately show ?thesis using v(1) distinct_card [OF d] by simp
    qed
    moreover have "0 < length remaining" using False by simp
    ultimately have "length (v # new) = min (Suc n) (length remaining)"
      using new(5) by (cases "length remaining") simp_all
    then show ?thesis using new v by (intro exI [of _ "v # new"]) auto
  qed (use Suc.prems in simp)
qed simp

lemma weight_sum_filter: "weight_sum (calculate_weights (filter P vs)) \<le> weight_sum (calculate_weights vs)"
  by (induction vs) (auto simp: calculate_weights_def)

lemma weight_sum_pos: "v \<in> set vs \<Longrightarrow> 0 < calculate_weight v \<Longrightarrow> 0 < weight_sum (calculate_weights vs)"
  by (induction vs) (auto simp: calculate_weights_def word_less_nat_alt)

lemma committee_loop_total:
  assumes "gen_range_ok gen_range"
  shows "\<forall>v \<in> set remaining. 0 < calculate_weight v \<Longrightarrow> weight_sum (calculate_weights remaining) < 2 ^ 64 \<Longrightarrow>
    \<exists>chosen. fst (committee_loop gen_range n rng remaining selected) = Ok chosen"
proof (induction n arbitrary: rng remaining selected)
  case (Suc n)
  show ?case
  proof (cases "remaining = []")
    case False
    then have "0 < weight_sum (calculate_weights remaining)"
      using Suc.prems(1) weight_sum_pos [of "hd remaining" remaining] by simp
    then have "\<exists>v \<in> set remaining. fst (select_validator gen_range rng remaining) = Ok (vi_address v)"
      by (rule select_validator_total [OF assms _ Suc.prems(2)])
    then obtain v :: ValidatorInfo where v: "fst (select_validator gen_range rng remaining) = Ok (vi_address v)" by blast
    obtain rng1 where s: "select_validator gen_range rng remaining = (Ok (vi_address v), rng1)"
      using v by (cases "select_validator gen_range rng remaining") auto
    let ?rest = "filter (\<lambda>u. vi_address u \<noteq> vi_address v) remaining"
    have "\<forall>u \<in> set ?rest. 0 < calculate_weight u" using Suc.prems(1) by simp
    moreover have "weight_sum (calculate_weights ?rest) < 2 ^ 64"
      using weight_sum_filter [of "\<lambda>u. vi_address u \<noteq> vi_address v" remaining] Suc.prems(2) by (rule le_less_trans)
    ultimately show ?thesis using Suc.IH False s by simp
  qed simp
qed simp

section \<open>The heaviest few\<close>

lemma sum_mset_le_take:
  "sorted_wrt (\<ge>) xs \<Longrightarrow> M \<subseteq># mset xs \<Longrightarrow> size M \<le> k \<Longrightarrow> sum_mset M \<le> sum_list (take k (xs :: nat list))"
proof (induction xs arbitrary: M k)
  case (Cons x xs)
  show ?case
  proof (cases "M = {#}")
    case False
    then obtain j where k: "k = Suc j" using Cons.prems(3) by (cases k) auto
    obtain y where y: "y \<in># M" "M - {#y#} \<subseteq># mset xs"
    proof (cases "x \<in># M")
      case True
      then show ?thesis using Cons.prems(2) that [of x] by (auto simp: subset_eq_diff_conv)
    next
      case xM: False
      have M: "M \<subseteq># mset xs"
      proof (rule mset_subset_eqI)
        fix a
        show "count M a \<le> count (mset xs) a"
          using mset_subset_eq_count [OF Cons.prems(2), of a] xM by (cases "a = x") (auto simp: not_in_iff)
      qed
      obtain y where "y \<in># M" using False by blast
      then show ?thesis using that [of y] M by (meson diff_subset_eq_self subset_mset.order_trans)
    qed
    have "y \<in># mset (x # xs)" using Cons.prems(2) y(1) by (rule mset_subset_eqD)
    then have "y \<le> x" using Cons.prems(1) by auto
    moreover have "size (M - {#y#}) \<le> j" using Cons.prems(3) y(1) k by (simp add: size_Diff_singleton)
    then have "sum_mset (M - {#y#}) \<le> sum_list (take j xs)" using Cons.IH Cons.prems(1) y(2) by simp
    moreover have "sum_mset (add_mset y (M - {#y#})) = y + sum_mset (M - {#y#})" by (rule sum_mset.add_mset)
    then have "sum_mset M = y + sum_mset (M - {#y#})" unfolding insert_DiffM [OF y(1)] .
    ultimately show ?thesis using k by simp
  qed simp
qed simp

lemma nakamoto_loop_result:
  assumes "unat acc + sum_list (map unat ws) < 2 ^ 64" and "ws \<noteq> []" and "unat threshold \<le> unat acc + sum_list (map unat ws)"
  shows "\<exists>k. nakamoto_loop threshold ws acc n = n + k \<and> 1 \<le> k \<and> k \<le> length ws \<and>
    unat threshold \<le> unat acc + sum_list (map unat (take k ws)) \<and>
    (\<forall>j. 1 \<le> j \<longrightarrow> j < k \<longrightarrow> unat acc + sum_list (map unat (take j ws)) < unat threshold)"
  using assms
proof (induction ws arbitrary: acc n)
  case (Cons w ws)
  have a: "unat (acc + w) = unat acc + unat w" using Cons.prems(1) by (intro unat_add_u64) simp
  show ?case
  proof (cases "threshold \<le> acc + w")
    case True
    then show ?thesis using a by (intro exI [of _ 1]) (simp add: word_le_nat_alt)
  next
    case False
    then have lt: "unat (acc + w) < unat threshold" by (simp add: word_le_nat_alt)
    have "ws \<noteq> []" using lt a Cons.prems(3) by auto
    moreover have "unat (acc + w) + sum_list (map unat ws) < 2 ^ 64"
        "unat threshold \<le> unat (acc + w) + sum_list (map unat ws)" using Cons.prems(1,3) a by simp_all
    ultimately obtain k where k: "nakamoto_loop threshold ws (acc + w) (n + 1) = n + 1 + k" "1 \<le> k" "k \<le> length ws"
        "unat threshold \<le> unat (acc + w) + sum_list (map unat (take k ws))"
        "\<forall>j. 1 \<le> j \<longrightarrow> j < k \<longrightarrow> unat (acc + w) + sum_list (map unat (take j ws)) < unat threshold"
      using Cons.IH [of "acc + w" "n + 1"] by blast
    have "unat acc + sum_list (map unat (take j (w # ws))) < unat threshold" if "1 \<le> j" "j < Suc k" for j
      using that k(5) [rule_format, of "j - 1"] lt a by (cases j; cases "j = 1") auto
    then show ?thesis using k False a by (intro exI [of _ "Suc k"]) auto
  qed
qed simp

section \<open>Fresh validators\<close>

lemma calculate_weight_new:
  assumes "0 < s" and "s \<le> 2 ^ 53"
  shows "calculate_weight (validator_new now addr s c) = of_nat s"
proof -
  have n: "fl 1000 = Fin 1000" "fl 10 = Fin 10" "fl 10000 = Fin 10000"
    by (auto intro!: fl_exact representable_numeral)
  have us: "unat (of_nat s :: u64) = s" using assms(2) by (simp add: unat_of_nat)
  have st: "f64_of_nat s = Fin (of_nat s)" using assms(2) by (rule fl_of_nat)
  have sx: "fl (of_nat s) = Fin (of_nat s)" using fl_of_nat [OF assms(2)] by (simp add: f64_of_nat_def)
  have t: "f64_of_nat 10000 = Fin 10000" by (simp add: f64_of_nat_def n)
  have z: "f64_of_nat 0 = Fin 0" by (simp add: f64_of_nat_def)
  have floor: "f64_to_u64 (Fin (of_nat s)) = of_nat s"
    using assms by (simp add: f64_to_u64_def min_def)
  show ?thesis
    using assms(1)
    by (simp add: calculate_weight_def can_produce_blocks_def is_active_def amount_is_zero_def validator_new_def Let_def
        us st n t z sx floor reliability_factor_def efficiency_score_def utility_score_zero_def utility_score_value_def
        low_u64_def amount_zero_def)
qed

section \<open>Properties\<close>

text \<open>C13. The deterministic choice of a proposer is exactly proportional. When the weights do not overflow
  and one is positive, every slot has a proposer that can produce blocks, and over any full round of
  as many slots as the total weight each address is chosen in exactly as many of them as its weight.\<close>

theorem select_for_slot_proportional:
  fixes vs :: "ValidatorInfo list"
  defines "N \<equiv> weight_sum (calculate_weights vs)"
  assumes "0 < N" and "N < 2 ^ 64"
  shows "card {s. s < N \<and> select_for_slot vs (of_nat s) = Ok addr} = weight_of addr (calculate_weights vs) \<and>
    (\<exists>v \<in> set vs. select_for_slot vs slot = Ok (vi_address v) \<and> can_produce_blocks v)"
proof
  let ?ws = "calculate_weights vs"
  note pk = select_for_slot_pick [of vs, folded N_def, OF assms(2,3)]
  have "select_for_slot vs (of_nat s) = Ok addr \<longleftrightarrow> pick ?ws s = Some addr" if "s < N" for s
  proof -
    have "unat (of_nat s :: u64) mod N = s" using that assms(3) by (simp add: unat_of_nat)
    then show ?thesis using pk [of "of_nat s"] by auto
  qed
  then have "{s. s < N \<and> select_for_slot vs (of_nat s) = Ok addr} = {s. s < N \<and> pick ?ws s = Some addr}" by auto
  then show "card {s. s < N \<and> select_for_slot vs (of_nat s) = Ok addr} = weight_of addr ?ws"
    unfolding N_def by (simp only: card_pick)
  have "unat slot mod N < N" using assms(2) by simp
  then obtain w where "w \<in> set ?ws" "pick ?ws (unat slot mod N) = Some (sw_address w)"
    unfolding N_def using pick_Some by blast
  then obtain v where "v \<in> set vs" "pick ?ws (unat slot mod N) = Some (vi_address v)" "can_produce_blocks v"
    by (auto simp: calculate_weights_mem dest: calculate_weight_eligible)
  then show "\<exists>v \<in> set vs. select_for_slot vs slot = Ok (vi_address v) \<and> can_produce_blocks v"
    using pk(1) [of slot] by auto
qed

definition demo_validators :: "ValidatorInfo list" where
  "demo_validators = [validator_new 7 1 3 500, validator_new 7 2 2 500]"

lemma demo_weights:
  "calculate_weights demo_validators = [\<lparr>sw_address = 1, sw_weight = 3\<rparr>, \<lparr>sw_address = 2, sw_weight = 2\<rparr>]"
  using calculate_weight_new [of 3 7 1 500] calculate_weight_new [of 2 7 2 500]
  by (simp add: calculate_weights_def demo_validators_def) (simp add: validator_new_def)

theorem select_for_slot_proportional_witness:
  "card {s. s < 5 \<and> select_for_slot demo_validators (of_nat s) = Ok 1} = 3"
  using select_for_slot_proportional [of demo_validators 1 0] by (simp add: demo_weights weight_of_def)

text \<open>A committee has the requested size, or every validator when there are fewer, without
  repetition, and each member can produce blocks; when all candidates have a positive weight and
  the weights do not overflow, the choice succeeds. The random generator is only assumed to draw
  below its bound.\<close>

lemma select_committee_correct:
  assumes "gen_range_ok gen_range" and "distinct (map vi_address vs)"
  shows "(\<forall>chosen rng'. select_committee gen_range rng vs n = (Ok chosen, rng') \<longrightarrow>
       distinct chosen \<and> length chosen = min n (length vs) \<and>
       (\<forall>addr \<in> set chosen. \<exists>v \<in> set vs. vi_address v = addr \<and> can_produce_blocks v)) \<and>
    (vs \<noteq> [] \<and> (\<forall>v \<in> set vs. 0 < calculate_weight v) \<and> weight_sum (calculate_weights vs) < 2 ^ 64 \<longrightarrow>
       (\<exists>chosen. fst (select_committee gen_range rng vs n) = Ok chosen))"
proof (intro conjI allI impI)
  fix chosen rng'
  assume "select_committee gen_range rng vs n = (Ok chosen, rng')"
  then have "committee_loop gen_range (min n (length vs)) rng vs [] = (Ok chosen, rng')"
    by (simp add: select_committee_def split: if_splits)
  then obtain new where new: "chosen = map vi_address new" "distinct (map vi_address new)" "set new \<subseteq> set vs"
      "\<forall>v \<in> set new. 0 < calculate_weight v" "length new = min n (length vs)"
    using committee_loop_Ok [OF assms(1) _ assms(2), where selected = "[]"] by fastforce
  show "distinct chosen" "length chosen = min n (length vs)" using new by simp_all
  show "\<forall>addr \<in> set chosen. \<exists>v \<in> set vs. vi_address v = addr \<and> can_produce_blocks v"
    using new(1,3,4) calculate_weight_eligible by auto
next
  assume "vs \<noteq> [] \<and> (\<forall>v \<in> set vs. 0 < calculate_weight v) \<and> weight_sum (calculate_weights vs) < 2 ^ 64"
  then show "\<exists>chosen. fst (select_committee gen_range rng vs n) = Ok chosen"
    using committee_loop_total [OF assms(1)] by (simp add: select_committee_def)
qed

lemma select_committee_correct_witness:
  "\<exists>chosen. fst (select_committee (\<lambda>rng n. (0, rng)) () demo_validators 2) = Ok chosen"
proof -
  have g: "gen_range_ok (\<lambda>(rng :: unit) n. (0, rng))" by (simp add: gen_range_ok_def)
  have d: "distinct (map vi_address demo_validators)" by (simp add: demo_validators_def validator_new_def)
  have "\<forall>v \<in> set demo_validators. 0 < calculate_weight v"
    using calculate_weight_new [of 3 7 1 500] calculate_weight_new [of 2 7 2 500] by (simp add: demo_validators_def)
  moreover have "demo_validators \<noteq> []" by (simp add: demo_validators_def)
  moreover have "weight_sum (calculate_weights demo_validators) < 2 ^ 64" by (simp add: demo_weights)
  ultimately show ?thesis using select_committee_correct [OF g d, of "()" 2] by blast
qed

text \<open>The Nakamoto coefficient is what it claims to be, up to rounding a third down: when the weights do
  not overflow, some \<open>k\<close> validators reach the threshold and no group of fewer than \<open>k\<close> does.\<close>

lemma nakamoto_coefficient_minimal:
  fixes vs :: "ValidatorInfo list"
  defines "ws \<equiv> map (\<lambda>v. unat (calculate_weight v)) vs" and "k \<equiv> nakamoto_coefficient vs"
  assumes "vs \<noteq> []" and "sum_list ws < 2 ^ 64"
  shows "1 \<le> k \<and> k \<le> length vs \<and>
    (\<exists>M. M \<subseteq># mset ws \<and> size M = k \<and> sum_list ws div 3 \<le> sum_mset M) \<and>
    (\<forall>M. M \<subseteq># mset ws \<longrightarrow> M \<noteq> {#} \<longrightarrow> size M < k \<longrightarrow> sum_mset M < sum_list ws div 3)"
proof -
  let ?ds = "rev (sort (map calculate_weight vs))"
  let ?us = "map unat ?ds"
  have ms: "mset ?us = mset ws" by (simp add: ws_def mset_map multiset.map_comp comp_def)
  then have s: "sum_list ?us = sum_list ws" by (metis sum_mset_sum_list)
  have sum: "unat (sum_list ?ds) = sum_list ?us"
  proof -
    have "sum_list (map unat xs) < 2 ^ 64 \<Longrightarrow> unat (sum_list xs) = sum_list (map unat xs)" for xs :: "u64 list"
      by (induction xs) (auto simp: unat_add_u64)
    then show ?thesis using s assms(4) by metis
  qed
  then have th: "unat (sum_list ?ds div 3) = sum_list ws div 3" by (simp add: unat_div s)
  have ne: "?ds \<noteq> []" using assms(3) by (metis length_0_conv length_map length_rev length_sort)
  have sorted: "sorted_wrt (\<ge>) ?us"
    by (simp add: sorted_wrt_rev sorted_wrt_map flip: word_le_nat_alt)
  obtain j where j: "k = j" "1 \<le> j" "j \<le> length ?ds" "sum_list ws div 3 \<le> sum_list (take j ?us)"
      "\<forall>i. 1 \<le> i \<longrightarrow> i < j \<longrightarrow> sum_list (take i ?us) < sum_list ws div 3"
    using nakamoto_loop_result [of 0 ?ds "sum_list ?ds div 3" 0] ne th s assms(4)
    by (auto simp: k_def nakamoto_coefficient_def take_map)
  have "mset (take j ?us) \<subseteq># mset ?us" by (metis append_take_drop_id mset_append mset_subset_eq_add_left)
  then have "mset (take j ?us) \<subseteq># mset ws" "size (mset (take j ?us)) = j"
    using j(3) ms by simp_all
  moreover have "sum_mset M < sum_list ws div 3" if "M \<subseteq># mset ws" "M \<noteq> {#}" "size M < j" for M
  proof -
    have "sum_mset M \<le> sum_list (take (size M) ?us)"
      using sum_mset_le_take [OF sorted, of M "size M"] that(1) ms by simp
    also have "\<dots> < sum_list ws div 3" using j(5) that(2,3) by (simp add: Suc_le_eq nonempty_has_size)
    finally show ?thesis .
  qed
  ultimately show ?thesis using j by (auto simp: sum_mset_sum_list intro!: exI [of _ "mset (take j ?us)"])
qed

lemma nakamoto_coefficient_minimal_witness:
  "1 \<le> nakamoto_coefficient demo_validators \<and> nakamoto_coefficient demo_validators \<le> 2"
proof -
  have "map (\<lambda>v. unat (calculate_weight v)) demo_validators = [3, 2]"
    using calculate_weight_new [of 3 7 1 500] calculate_weight_new [of 2 7 2 500] by (simp add: demo_validators_def)
  moreover have "demo_validators \<noteq> []" "length demo_validators = 2" by (simp_all add: demo_validators_def)
  ultimately show ?thesis using nakamoto_coefficient_minimal [of demo_validators] by simp
qed

end
