(* ===== verification/Poas.thy ===== *)
theory Poas
  imports Slashing Selection Fork Mempool_Properties
begin

text \<open>
  \<open>poas.rs\<close> of the \<open>consensus\<close> crate: the Proof-of-Active-Stake engine that ties the
  validator set, the slashing manager, the fork resolver and the transaction pool together.
  The engine's random selector is never drawn from (proposers are chosen by slot), so the
  state leaves it out. Log output is left out too.
\<close>

section \<open>State\<close>

record ConsensusConfig =
  cc_block_time :: u64
  cc_min_stake :: StakeAmount
  cc_unbonding_period :: u64
  cc_required_uptime :: u16
  cc_max_downtime_blocks :: u64
  cc_finality_blocks :: u64
  cc_target_validator_count :: nat
  cc_max_validator_count :: nat
  cc_fork_choice :: ForkChoice
  cc_max_reorg_depth :: u64
  cc_enable_fork_detection :: bool
  cc_slash_for_wrong_fork :: bool

definition consensus_config_default :: ConsensusConfig where
  "consensus_config_default = \<lparr>cc_block_time = 3, cc_min_stake = amount_from_u64 10000,
     cc_unbonding_period = 14 * 24 * 3600, cc_required_uptime = 9500, cc_max_downtime_blocks = 28800,
     cc_finality_blocks = 2, cc_target_validator_count = 100, cc_max_validator_count = 1000,
     cc_fork_choice = LatestJustified, cc_max_reorg_depth = 100, cc_enable_fork_detection = True,
     cc_slash_for_wrong_fork = True\<rparr>"

record PoASConsensus =
  pc_config :: ConsensusConfig
  pc_validator_set :: ValidatorSet
  pc_slashing :: SlashingManager
  pc_current_epoch :: u64
  pc_blocks_per_epoch :: u64
  pc_fork_resolver :: ForkResolver
  pc_finality_checkpoints :: "(BlockNumber, bool) fmap"
  pc_fork_events :: "(BlockNumber \<times> string) list"
  pc_highest_justified :: "BlockNumber option"
  pc_fork_frequency :: u64
  pc_total_reorg_depth :: u64
  pc_max_reorg_depth_observed :: u64
  pc_finality_times :: "(BlockNumber \<times> u64) list"

definition poas_new :: "ConsensusConfig \<Rightarrow> PoASConsensus" where
  "poas_new config =
     \<lparr>pc_config = config,
      pc_validator_set = validator_set_new (cc_min_stake config) (cc_unbonding_period config),
      pc_slashing = slashing_manager_new, pc_current_epoch = 0, pc_blocks_per_epoch = 28800,
      pc_fork_resolver = fork_resolver_new (cc_fork_choice config) (cc_max_reorg_depth config),
      pc_finality_checkpoints = fmempty, pc_fork_events = [], pc_highest_justified = None,
      pc_fork_frequency = 0, pc_total_reorg_depth = 0, pc_max_reorg_depth_observed = 0,
      pc_finality_times = []\<rparr>"

section \<open>Blocks\<close>

definition select_proposer :: "validator_iter \<Rightarrow> PoASConsensus \<Rightarrow> u64 \<Rightarrow> (address, ConsensusError) outcome" where
  "select_proposer iter c slot =
     (let active = active_validators iter (pc_validator_set c)
      in if active = [] then Err (SelectionError ''No active validators available'')
         else select_for_slot active slot)"

definition time_difference :: "u64 \<Rightarrow> u64 \<Rightarrow> u64" where
  "time_difference a b = (if b < a then a - b else b - a)"

definition validate_block ::
    "crypto_lib \<Rightarrow> wire \<Rightarrow> (bytes \<Rightarrow> string) \<Rightarrow> PoASConsensus \<Rightarrow> Block \<Rightarrow> Block \<Rightarrow> (unit, ConsensusError) outcome" where
  "validate_block L W hex c block parent =
     and_then (map_err (\<lambda>e. ValidationError (blockchain_error_to_string hex e)) (block_validate L W block parent)) (\<lambda>_.
     let proposer = bh_proposer (blk_header block) in
     and_then (ok_or (ValidatorNotFound (address_to_hex hex proposer)) (validator_get (pc_validator_set c) proposer)) (\<lambda>validator.
     if \<not> can_produce_blocks validator then Err (ValidationError ''Proposer cannot produce blocks'')
     else let expected_time = bh_timestamp (blk_header parent) + cc_block_time (pc_config c);
              time_diff = time_difference (bh_timestamp (blk_header block)) expected_time
     in if 2 < time_diff
        then Err (ValidationError (''Block time outside acceptable range: '' @ show_u64 time_diff @ ''s difference''))
        else if cc_enable_fork_detection (pc_config c) then
          (case detect_fork L W parent block of
             Some fork_info \<Rightarrow>
               if cc_max_reorg_depth (pc_config c) < fi_fork_length fork_info
               then Err (BlockchainErr (ReorgTooDeep (fi_fork_length fork_info))) else Ok ()
           | None \<Rightarrow> Ok ())
        else Ok ()))"

definition process_epoch_transition :: "validator_iter \<Rightarrow> Timestamp \<Rightarrow> PoASConsensus \<Rightarrow> PoASConsensus" where
  "process_epoch_transition iter now c =
     (let c1 = c\<lparr>pc_current_epoch := pc_current_epoch c + 1\<rparr>;
          (completed, vs) = process_unbonding iter (pc_validator_set c1) now
      in c1\<lparr>pc_validator_set := vs\<rparr>)"

definition credit_proposer ::
    "Timestamp \<Rightarrow> PoASConsensus \<Rightarrow> address \<Rightarrow> (unit, ConsensusError) outcome \<times> PoASConsensus" where
  "credit_proposer now c proposer =
     (case validator_get (pc_validator_set c) proposer of
        None \<Rightarrow> (Ok (), c)
      | Some v \<Rightarrow>
          (case check_downtime_slashing now (pc_slashing c) (update_uptime now v True) (cc_max_downtime_blocks (pc_config c)) of
             (r, sm, v') \<Rightarrow>
               (and_then r (\<lambda>_. Ok ()),
                c\<lparr>pc_validator_set := validator_put proposer v' (pc_validator_set c), pc_slashing := sm\<rparr>)))"

definition finalize_block ::
    "validator_iter \<Rightarrow> Timestamp \<Rightarrow> PoASConsensus \<Rightarrow> Block \<Rightarrow> (unit, ConsensusError) outcome \<times> PoASConsensus" where
  "finalize_block iter now c block =
     (case credit_proposer now c (bh_proposer (blk_header block)) of
        (Ok _, c1) \<Rightarrow>
          if pc_blocks_per_epoch c1 = 0 then (Panic, c1)
          else if bh_number (blk_header block) mod pc_blocks_per_epoch c1 = 0
          then (Ok (), process_epoch_transition iter now c1)
          else (Ok (), c1)
      | (Err e, c1) \<Rightarrow> (Err e, c1)
      | (Panic, c1) \<Rightarrow> (Panic, c1))"

section \<open>Finality\<close>

definition is_finalized :: "PoASConsensus \<Rightarrow> BlockNumber \<Rightarrow> BlockNumber \<Rightarrow> bool" where
  "is_finalized c number head =
     (case pc_highest_justified c of
        Some j \<Rightarrow> number \<le> j
      | None \<Rightarrow> number + cc_finality_blocks (pc_config c) \<le> head)"

definition update_justified_checkpoint :: "Timestamp \<Rightarrow> PoASConsensus \<Rightarrow> BlockNumber \<Rightarrow> PoASConsensus" where
  "update_justified_checkpoint now c number =
     c\<lparr>pc_finality_checkpoints := fmupd number True (pc_finality_checkpoints c),
       pc_highest_justified := Some (max (case pc_highest_justified c of Some j \<Rightarrow> j | None \<Rightarrow> 0) number),
       pc_finality_times := pc_finality_times c @ [(number, now)]\<rparr>"

definition verify_chain_canonical :: "PoASConsensus \<Rightarrow> hash \<Rightarrow> bool" where
  "verify_chain_canonical c head =
     (\<not> list_ex (\<lambda>info. fi_fork_tip info = head \<and> fi_fork_length info \<le> fi_main_length info)
           (fr_fork_history (pc_fork_resolver c)))"

definition verify_before_produce :: "PoASConsensus \<Rightarrow> hash \<Rightarrow> (unit, ConsensusError) outcome" where
  "verify_before_produce c head =
     (if \<not> verify_chain_canonical c head
      then Err (BlockProductionError ''Head is not canonical according to fork history'')
      else Ok ())"

definition fork_metrics :: "PoASConsensus \<Rightarrow> u64 \<times> u64 \<times> u64" where
  "fork_metrics c = (pc_fork_frequency c, pc_total_reorg_depth c, pc_max_reorg_depth_observed c)"

section \<open>Block production\<close>

definition produce_block ::
    "crypto_lib \<Rightarrow> wire \<Rightarrow> pool_iter \<Rightarrow> Timestamp \<Rightarrow> PoASConsensus \<Rightarrow> Block \<Rightarrow> address \<Rightarrow> TransactionPool
      \<Rightarrow> (Block, ConsensusError) outcome \<times> PoASConsensus \<times> TransactionPool" where
  "produce_block L W I now c parent proposer pool =
     (case verify_before_produce c (block_hash L W parent) of
        Err e \<Rightarrow> (Err e, c, pool)
      | Panic \<Rightarrow> (Panic, c, pool)
      | Ok _ \<Rightarrow>
          let max_gas = bh_gas_limit (blk_header parent);
              valid_txs = filter (\<lambda>tx. is_ok (validate_basic tx)) (get_pending I pool max_gas 1000)
          in case block_new L W now (block_number parent + 1) (block_hash L W parent) hash_zero proposer valid_txs max_gas of
               Err e \<Rightarrow> (Err (BlockchainErr e), c, pool)
             | Panic \<Rightarrow> (Panic, c, pool)
             | Ok block \<Rightarrow>
                 let pool1 = remove_included L W I pool valid_txs;
                     c1 = (case validator_get (pc_validator_set c) proposer of
                             None \<Rightarrow> c
                           | Some v \<Rightarrow> c\<lparr>pc_validator_set := validator_put proposer
                               (update_uptime now (v\<lparr>vi_blocks_produced := vi_blocks_produced v + 1\<rparr>) True)
                               (pc_validator_set c)\<rparr>)
                 in (Ok block, c1, pool1))"

definition validator_participation :: "validator_iter \<Rightarrow> PoASConsensus \<Rightarrow> (address \<times> u16 \<times> u64 \<times> u64) list" where
  "validator_participation iter c =
     map (\<lambda>v. (vi_address v, vi_uptime v, vi_blocks_produced v, vi_blocks_missed v))
       (all_validators iter (pc_validator_set c))"

section \<open>Reorganisations\<close>

definition reorg_ancestor_number :: "ReorgPath \<Rightarrow> (BlockNumber, ConsensusError) outcome" where
  "reorg_ancestor_number reorg =
     (if rp_revert_blocks reorg \<noteq> []
      then Ok (saturating_sub (Min (set (map block_number (rp_revert_blocks reorg)))) 1)
      else if rp_apply_blocks reorg \<noteq> []
      then Ok (saturating_sub (block_number (hd (rp_apply_blocks reorg))) 1)
      else Err (ValidationError ''Empty reorg path''))"

definition double_signed :: "Block \<Rightarrow> Block \<Rightarrow> bool" where
  "double_signed a r \<longleftrightarrow> bh_number (blk_header a) = bh_number (blk_header r) \<and>
     bh_proposer (blk_header a) = bh_proposer (blk_header r)"

text \<open>The two nested loops, over the pairs of an applied and a reverted block.\<close>

fun slash_double_signers ::
    "crypto_lib \<Rightarrow> wire \<Rightarrow> Timestamp \<Rightarrow> (Block \<times> Block) list \<Rightarrow> PoASConsensus
      \<Rightarrow> (unit, ConsensusError) outcome \<times> PoASConsensus" where
  "slash_double_signers L W now [] c = (Ok (), c)"
| "slash_double_signers L W now ((a, r) # pairs) c =
     (if double_signed a r \<and> cc_slash_for_wrong_fork (pc_config c) then
        (case validator_get (pc_validator_set c) (bh_proposer (blk_header a)) of
           None \<Rightarrow> slash_double_signers L W now pairs c
         | Some v \<Rightarrow>
             (case slash_validator now (pc_slashing c) v DoubleSigning (Some (block_hash L W a)) of
                (res, sm, v') \<Rightarrow>
                  let c1 = c\<lparr>pc_validator_set := validator_put (bh_proposer (blk_header a)) v' (pc_validator_set c),
                             pc_slashing := sm\<rparr>
                  in (case res of
                        Ok _ \<Rightarrow> slash_double_signers L W now pairs c1
                      | Err e \<Rightarrow> (Err e, c1)
                      | Panic \<Rightarrow> (Panic, c1))))
      else slash_double_signers L W now pairs c)"

definition reorg_fork_info :: "crypto_lib \<Rightarrow> wire \<Rightarrow> ReorgPath \<Rightarrow> BlockNumber \<Rightarrow> ForkInfo" where
  "reorg_fork_info L W reorg number =
     \<lparr>fi_fork_point = number, fi_fork_hash = rp_common_ancestor reorg,
      fi_main_tip = (case rp_revert_blocks reorg of b # _ \<Rightarrow> block_hash L W b | [] \<Rightarrow> rp_common_ancestor reorg),
      fi_fork_tip = (if rp_apply_blocks reorg = [] then rp_common_ancestor reorg
                     else block_hash L W (last (rp_apply_blocks reorg))),
      fi_main_length = of_nat (length (rp_revert_blocks reorg)),
      fi_fork_length = of_nat (length (rp_apply_blocks reorg))\<rparr>"

definition record_reorg :: "ForkInfo \<Rightarrow> u64 \<Rightarrow> PoASConsensus \<Rightarrow> PoASConsensus" where
  "record_reorg fork_info depth c =
     c\<lparr>pc_fork_resolver := record_fork (pc_fork_resolver c) fork_info,
       pc_fork_events := pc_fork_events c @ [(fi_fork_point fork_info, ''resolved'')],
       pc_fork_frequency := pc_fork_frequency c + 1,
       pc_total_reorg_depth := pc_total_reorg_depth c + depth,
       pc_max_reorg_depth_observed := max (pc_max_reorg_depth_observed c) depth\<rparr>"

definition apply_reorg ::
    "crypto_lib \<Rightarrow> wire \<Rightarrow> Timestamp \<Rightarrow> (ForkInfo \<Rightarrow> u64 \<Rightarrow> string \<Rightarrow> (unit, ConsensusError) outcome) option
      \<Rightarrow> PoASConsensus \<Rightarrow> ReorgPath \<Rightarrow> (unit, ConsensusError) outcome \<times> PoASConsensus" where
  "apply_reorg L W now persist c reorg =
     (case reorg_ancestor_number reorg of
        Err e \<Rightarrow> (Err e, c)
      | Panic \<Rightarrow> (Panic, c)
      | Ok number \<Rightarrow>
          if (case pc_highest_justified c of Some j \<Rightarrow> number < j | None \<Rightarrow> False)
          then (Err (BlockchainErr (ReorgTooDeep (rp_depth reorg))), c)
          else (case slash_double_signers L W now (List.product (rp_apply_blocks reorg) (rp_revert_blocks reorg)) c of
             (Err e, c1) \<Rightarrow> (Err e, c1)
           | (Panic, c1) \<Rightarrow> (Panic, c1)
           | (Ok _, c1) \<Rightarrow>
               let fork_info = reorg_fork_info L W reorg number;
                   c2 = record_reorg fork_info (rp_depth reorg) c1
               in (and_then (map_err BlockchainErr (choose_chain (pc_fork_resolver c2) (rp_revert_blocks reorg) (rp_apply_blocks reorg)))
                     (\<lambda>choice. case persist of
                         Some cb \<Rightarrow> cb fork_info (rp_depth reorg) (if choice then ''fork_chain'' else ''main_chain'')
                       | None \<Rightarrow> Ok ()), c2)))"

section \<open>Validators and metrics\<close>

definition register_validator ::
    "(bytes \<Rightarrow> string) \<Rightarrow> Timestamp \<Rightarrow> PoASConsensus \<Rightarrow> address \<Rightarrow> StakeAmount \<Rightarrow> u16 \<Rightarrow> (PoASConsensus, ConsensusError) outcome" where
  "register_validator hex now c addr s commission =
     (if cc_max_validator_count (pc_config c) \<le> validator_count (pc_validator_set c)
      then Err (ValidatorError ''Maximum validator count reached'')
      else and_then (register hex now (pc_validator_set c) addr s commission)
             (\<lambda>vs. Ok (c\<lparr>pc_validator_set := vs\<rparr>)))"

definition unregister_validator ::
    "(bytes \<Rightarrow> string) \<Rightarrow> PoASConsensus \<Rightarrow> address \<Rightarrow> (ValidatorInfo \<times> PoASConsensus, ConsensusError) outcome" where
  "unregister_validator hex c addr =
     and_then (unregister hex (pc_validator_set c) addr) (\<lambda>(v, vs). Ok (v, c\<lparr>pc_validator_set := vs\<rparr>))"

record SecurityMetrics =
  sec_nakamoto_coefficient :: nat
  sec_gini_coefficient :: f64
  sec_total_stake :: StakeAmount
  sec_total_liquidity :: StakeAmount
  sec_active_validators :: nat
  sec_attack_cost :: StakeAmount

definition calculate_security_metrics :: "validator_iter \<Rightarrow> PoASConsensus \<Rightarrow> SecurityMetrics" where
  "calculate_security_metrics iter c =
     (let validators = active_validators iter (pc_validator_set c);
          stake = total_stake iter (pc_validator_set c)
      in \<lparr>sec_nakamoto_coefficient = nakamoto_coefficient validators,
          sec_gini_coefficient = gini_coefficient validators,
          sec_total_stake = stake,
          sec_total_liquidity = total_liquidity_deployed iter (pc_validator_set c),
          sec_active_validators = length validators,
          sec_attack_cost = stake * 33 div 100\<rparr>)"

definition calculate_validator_reward :: "validator_iter \<Rightarrow> PoASConsensus \<Rightarrow> ValidatorInfo \<Rightarrow> StakeAmount \<Rightarrow> StakeAmount" where
  "calculate_validator_reward iter c v base_reward =
     (let stake = total_stake iter (pc_validator_set c)
      in if amount_is_zero stake then amount_zero
         else let stake_ratio = vi_stake v * 10000 div stake;
                  utility_factor = 10000 + utility_score_value (vi_utility_score v)
              in base_reward * stake_ratio * unat utility_factor div (10000 * 10000))"

end
