(* ===== verification/Poas_Properties.thy ===== *)
theory Poas_Properties
  imports Poas
begin

text \<open>
  Properties of the consensus engine: its invariant over every sequence of calls, the
  conservation of stake under slashing, checkpoints, reorganisations and block production.
\<close>

section \<open>Slashing inside the engine\<close>

text \<open>
  Crediting a proposer and punishing double signers touch the validator set and the
  slashing manager, and keep their invariants and the tokens they hold together.
\<close>

definition stake_and_slashed :: "PoASConsensus \<Rightarrow> nat" where
  "stake_and_slashed c = fm_sum vi_stake (vset_validators (pc_validator_set c)) + sm_total_slashed (pc_slashing c)"

definition penal :: "PoASConsensus \<Rightarrow> PoASConsensus \<Rightarrow> bool" where
  "penal c c' \<longleftrightarrow>
     pc_config c' = pc_config c \<and> pc_fork_resolver c' = pc_fork_resolver c \<and>
     pc_highest_justified c' = pc_highest_justified c \<and> pc_finality_checkpoints c' = pc_finality_checkpoints c \<and>
     pc_blocks_per_epoch c' = pc_blocks_per_epoch c \<and> pc_current_epoch c' = pc_current_epoch c \<and>
     fmdom (vset_validators (pc_validator_set c')) = fmdom (vset_validators (pc_validator_set c)) \<and>
     (vset_ok (pc_validator_set c) \<longrightarrow> vset_ok (pc_validator_set c')) \<and>
     (slashing_ok (pc_slashing c) \<longrightarrow> slashing_ok (pc_slashing c')) \<and>
     stake_and_slashed c' = stake_and_slashed c"

lemma penal_refl [simp]: "penal c c"
  by (simp add: penal_def)

lemma penal_trans: "penal a b \<Longrightarrow> penal b c \<Longrightarrow> penal a c"
  by (auto simp: penal_def)

lemma penal_fields:
  assumes "penal c c'"
  shows "pc_config c' = pc_config c" "pc_fork_resolver c' = pc_fork_resolver c" "pc_highest_justified c' = pc_highest_justified c"
    "pc_finality_checkpoints c' = pc_finality_checkpoints c" "pc_blocks_per_epoch c' = pc_blocks_per_epoch c"
    "pc_current_epoch c' = pc_current_epoch c"
  using assms by (auto simp: penal_def)

lemma slash_validator_ok: "slash_validator now m v cond ev = (r, m', v') \<Longrightarrow> validator_ok addr v \<Longrightarrow> validator_ok addr v'"
  by (auto simp: slash_validator_result Let_def validator_ok_def)

lemma slash_validator_conserves:
  "slash_validator now m v cond ev = (r, m', v') \<Longrightarrow> vi_stake v' + sm_total_slashed m' = vi_stake v + sm_total_slashed m"
  using calculate_slash_le [of m v cond] by (auto simp: slash_validator_result Let_def)

lemma check_downtime_conserves:
  "check_downtime_slashing now m v limit = (r, m', v') \<Longrightarrow> vi_stake v' + sm_total_slashed m' = vi_stake v + sm_total_slashed m"
  by (auto simp: check_downtime_result split: if_splits prod.splits dest: slash_validator_conserves)

lemma check_downtime_ok: "check_downtime_slashing now m v limit = (r, m', v') \<Longrightarrow> validator_ok addr v \<Longrightarrow> validator_ok addr v'"
  by (auto simp: check_downtime_result split: if_splits prod.splits dest: slash_validator_ok)

lemma penal_put:
  assumes "fmlookup (vset_validators (pc_validator_set c)) addr = Some v"
    and "validator_ok addr v \<Longrightarrow> validator_ok addr v'"
    and "slashing_ok (pc_slashing c) \<Longrightarrow> slashing_ok sm"
    and "vi_stake v' + sm_total_slashed sm = vi_stake v + sm_total_slashed (pc_slashing c)"
  shows "penal c (c\<lparr>pc_validator_set := validator_put addr v' (pc_validator_set c), pc_slashing := sm\<rparr>)"
proof -
  let ?m = "vset_validators (pc_validator_set c)"
  have "fm_sum vi_stake (fmupd addr v' ?m) + vi_stake v = fm_sum vi_stake ?m + vi_stake v'"
    using assms(1) by (rule fm_sum_put_old)
  moreover have "addr |\<in>| fmdom ?m" using assms(1) by (rule fmdomI)
  moreover have "vset_ok (validator_put addr v' (pc_validator_set c))" if "vset_ok (pc_validator_set c)"
    using that assms(1,2) by (auto intro: vset_ok_put dest: vset_okD)
  ultimately show ?thesis
    using assms(3,4) by (auto simp: penal_def stake_and_slashed_def validator_put_def finsert_absorb)
qed

lemma credit_proposer_penal: "penal c (snd (credit_proposer now c proposer))"
proof (cases "validator_get (pc_validator_set c) proposer")
  case (Some v)
  obtain r sm v' where d: "check_downtime_slashing now (pc_slashing c) (update_uptime now v True)
      (cc_max_downtime_blocks (pc_config c)) = (r, sm, v')" by (rule prod_cases3)
  have "validator_ok proposer v \<Longrightarrow> validator_ok proposer (update_uptime now v True)" by (simp add: validator_ok_def)
  with d have "validator_ok proposer v \<Longrightarrow> validator_ok proposer v'" by (auto dest: check_downtime_ok)
  moreover have "vi_stake v' + sm_total_slashed sm = vi_stake v + sm_total_slashed (pc_slashing c)"
    using check_downtime_conserves [OF d] by simp
  ultimately show ?thesis
    using Some d penal_put [of c proposer v v' sm] slashing_ok_downtime [OF d]
    by (simp add: credit_proposer_def validator_get_def)
qed (simp add: credit_proposer_def)

lemma credit_proposer_result: "\<exists>c'. credit_proposer now c proposer = (Ok (), c')"
  by (auto simp: credit_proposer_def check_downtime_result slash_validator_result Let_def split: option.splits prod.splits)

lemma slash_double_signers_result:
  "\<exists>c'. slash_double_signers L W now pairs c = (Ok (), c') \<and> penal c c'"
proof (induction pairs arbitrary: c)
  case (Cons p pairs)
  obtain a r where p: "p = (a, r)" by (cases p)
  show ?case
  proof (cases "double_signed a r \<and> cc_slash_for_wrong_fork (pc_config c) \<and>
      validator_get (pc_validator_set c) (bh_proposer (blk_header a)) \<noteq> None")
    case True
    then obtain v where v: "validator_get (pc_validator_set c) (bh_proposer (blk_header a)) = Some v" by blast
    obtain res sm v' where s: "slash_validator now (pc_slashing c) v DoubleSigning (Some (block_hash L W a)) = (res, sm, v')"
      by (rule prod_cases3)
    obtain pen where ok: "res = Ok pen" using s by (auto simp: slash_validator_result Let_def)
    let ?c1 = "c\<lparr>pc_validator_set := validator_put (bh_proposer (blk_header a)) v' (pc_validator_set c), pc_slashing := sm\<rparr>"
    have "penal c ?c1"
      using v slash_validator_ok [OF s] slashing_ok_slash [OF s] slash_validator_conserves [OF s]
      by (intro penal_put [where v = v]) (auto simp: validator_get_def)
    then show ?thesis using Cons.IH [of ?c1] True v s ok p by (auto intro: penal_trans)
  qed (use Cons.IH p in auto)
qed simp

section \<open>Runs of the engine\<close>

inductive poas_step :: "PoASConsensus \<Rightarrow> PoASConsensus \<Rightarrow> bool" where
  register: "register_validator hex now c addr s commission = Ok c' \<Longrightarrow> poas_step c c'"
| unregister: "unregister_validator hex c addr = Ok (v, c') \<Longrightarrow> poas_step c c'"
| finalize: "finalize_block iter now c block = (r, c') \<Longrightarrow> poas_step c c'"
| justify: "poas_step c (update_justified_checkpoint now c number)"
| produce: "produce_block L W I now c parent proposer pool = (r, c', pool') \<Longrightarrow> poas_step c c'"
| reorg: "apply_reorg L W now persist c path = (r, c') \<Longrightarrow> poas_step c c'"

definition highest_of :: "BlockNumber option \<Rightarrow> (BlockNumber, bool) fmap \<Rightarrow> bool" where
  "highest_of highest cps \<longleftrightarrow>
     (case highest of
        None \<Rightarrow> cps = fmempty
      | Some j \<Rightarrow> fmlookup cps j = Some True \<and> (\<forall>n. fmlookup cps n \<noteq> None \<longrightarrow> n \<le> j))"

definition checkpoints_ok :: "PoASConsensus \<Rightarrow> bool" where
  "checkpoints_ok c \<longleftrightarrow> highest_of (pc_highest_justified c) (pc_finality_checkpoints c)"

definition poas_ok :: "PoASConsensus \<Rightarrow> bool" where
  "poas_ok c \<longleftrightarrow> vset_ok (pc_validator_set c) \<and> slashing_ok (pc_slashing c) \<and>
     validator_count (pc_validator_set c) \<le> cc_max_validator_count (pc_config c) \<and>
     pc_blocks_per_epoch c = 28800 \<and> length (fr_fork_history (pc_fork_resolver c)) \<le> 100 \<and> checkpoints_ok c"

lemma poas_ok_new: "poas_ok (poas_new config)"
  by (simp add: poas_ok_def poas_new_def vset_ok_def validator_set_new_def slashing_ok_new validator_count_def
      fork_resolver_new_def checkpoints_ok_def highest_of_def fcard.rep_eq)

lemma poas_ok_penal: "penal c c' \<Longrightarrow> poas_ok c \<Longrightarrow> poas_ok c'"
  by (auto simp: poas_ok_def penal_def validator_count_def checkpoints_ok_def)

lemma process_epoch_fields:
  "pc_validator_set (process_epoch_transition iter now c) = snd (process_unbonding iter (pc_validator_set c) now)"
  "pc_slashing (process_epoch_transition iter now c) = pc_slashing c"
  "pc_config (process_epoch_transition iter now c) = pc_config c"
  "pc_highest_justified (process_epoch_transition iter now c) = pc_highest_justified c"
  "pc_finality_checkpoints (process_epoch_transition iter now c) = pc_finality_checkpoints c"
  "pc_fork_resolver (process_epoch_transition iter now c) = pc_fork_resolver c"
  "pc_blocks_per_epoch (process_epoch_transition iter now c) = pc_blocks_per_epoch c"
  "pc_current_epoch (process_epoch_transition iter now c) = pc_current_epoch c + 1"
  by (simp_all add: process_epoch_transition_def Let_def split: prod.splits)

lemma poas_ok_epoch: "poas_ok c \<Longrightarrow> poas_ok (process_epoch_transition iter now c)"
  using process_unbonding_vset_ok [of "pc_validator_set c" iter now]
  by (auto simp: poas_ok_def process_epoch_fields checkpoints_ok_def validator_count_def process_unbonding_def)

lemma finalize_block_cases:
  assumes "finalize_block iter now c block = (r, c')"
  obtains c1 where "credit_proposer now c (bh_proposer (blk_header block)) = (Ok (), c1)"
    and "c' = c1 \<or> c' = process_epoch_transition iter now c1"
    and "r = (if pc_blocks_per_epoch c1 = 0 then Panic else Ok ())"
proof -
  obtain c1 where "credit_proposer now c (bh_proposer (blk_header block)) = (Ok (), c1)"
    using credit_proposer_result by blast
  with assms show thesis using that by (auto simp: finalize_block_def split: if_splits)
qed

lemma poas_ok_finalize: "finalize_block iter now c block = (r, c') \<Longrightarrow> poas_ok c \<Longrightarrow> poas_ok c'"
proof (erule finalize_block_cases)
  fix c1
  assume "credit_proposer now c (bh_proposer (blk_header block)) = (Ok (), c1)" and ok: "poas_ok c"
  then have "poas_ok c1" using credit_proposer_penal [of c now "bh_proposer (blk_header block)"] by (auto intro: poas_ok_penal)
  then show "c' = c1 \<or> c' = process_epoch_transition iter now c1 \<Longrightarrow> poas_ok c'" by (auto intro: poas_ok_epoch)
qed

lemma poas_ok_register: "register_validator hex now c addr s commission = Ok c' \<Longrightarrow> poas_ok c \<Longrightarrow> poas_ok c'"
  by (auto simp: register_validator_def outcome_simps poas_ok_def checkpoints_ok_def validator_count_def
      register_Ok_iff validator_put_def fcard_finsert_if dest: register_vset_ok split: if_splits)
    (auto simp: vset_ok_def)

lemma poas_ok_unregister: "unregister_validator hex c addr = Ok (v, c') \<Longrightarrow> poas_ok c \<Longrightarrow> poas_ok c'"
proof -
  assume u: "unregister_validator hex c addr = Ok (v, c')" and ok: "poas_ok c"
  then obtain vs where vs: "unregister hex (pc_validator_set c) addr = Ok (v, vs)" "c' = c\<lparr>pc_validator_set := vs\<rparr>"
    by (auto simp: unregister_validator_def outcome_simps)
  then have "validator_count vs \<le> validator_count (pc_validator_set c)"
    by (auto simp: unregister_def validator_count_def fcard.rep_eq intro!: card_mono split: option.splits)
  then show ?thesis using ok vs unregister_vset_ok by (auto simp: poas_ok_def checkpoints_ok_def)
qed

lemma checkpoints_ok_justify: "checkpoints_ok c \<Longrightarrow> checkpoints_ok (update_justified_checkpoint now c number)"
  by (auto simp: checkpoints_ok_def highest_of_def update_justified_checkpoint_def max_def split: option.splits)

lemma poas_ok_justify: "poas_ok c \<Longrightarrow> poas_ok (update_justified_checkpoint now c number)"
  using checkpoints_ok_justify [of c now number] by (simp add: poas_ok_def update_justified_checkpoint_def)

lemma produce_block_state:
  "produce_block L W I now c parent proposer pool = (r, c', pool') \<Longrightarrow> penal c c'"
proof -
  assume p: "produce_block L W I now c parent proposer pool = (r, c', pool')"
  have "penal c (c\<lparr>pc_validator_set := validator_put proposer
      (update_uptime now (v\<lparr>vi_blocks_produced := vi_blocks_produced v + 1\<rparr>) True) (pc_validator_set c), pc_slashing := pc_slashing c\<rparr>)"
    if "validator_get (pc_validator_set c) proposer = Some v" for v
    using that by (intro penal_put [where v = v]) (auto simp: validator_get_def validator_ok_def)
  then show ?thesis using p
    by (auto simp: produce_block_def Let_def split: outcome.splits option.splits)
qed

lemma apply_reorg_cases:
  assumes "apply_reorg L W now persist c path = (r, c')"
  obtains (refused) "c' = c" and "\<not> is_ok r"
  | (recorded) number c1 where "reorg_ancestor_number path = Ok number"
      and "\<And>j. pc_highest_justified c = Some j \<Longrightarrow> j \<le> number"
      and "slash_double_signers L W now (List.product (rp_apply_blocks path) (rp_revert_blocks path)) c = (Ok (), c1)"
      and "penal c c1" and "c' = record_reorg (reorg_fork_info L W path number) (rp_depth path) c1"
proof -
  obtain c1 where "slash_double_signers L W now (List.product (rp_apply_blocks path) (rp_revert_blocks path)) c = (Ok (), c1)"
      "penal c c1" using slash_double_signers_result by blast
  then show thesis using assms that
    by (auto simp: apply_reorg_def Let_def split: outcome.splits option.splits if_splits)
qed

lemma poas_ok_record: "poas_ok c \<Longrightarrow> poas_ok (record_reorg info depth c)"
  by (auto simp: poas_ok_def record_reorg_def record_fork_def Let_def checkpoints_ok_def)

interpretation poas: invariant_machine "\<lambda>c. \<exists>config. c = poas_new config" poas_step poas_ok
proof
  show "poas_ok c" if "\<exists>config. c = poas_new config" for c using that poas_ok_new by auto
  show "poas_ok c'" if "poas_ok c" and "poas_step c c'" for c c'
    using that(2,1)
  proof cases
    case reorg
    then show ?thesis using that(1) by (elim apply_reorg_cases) (auto intro: poas_ok_record poas_ok_penal)
  qed (auto intro: poas_ok_register poas_ok_unregister poas_ok_finalize poas_ok_justify poas_ok_penal produce_block_state)
qed

definition justified_level :: "PoASConsensus \<Rightarrow> nat" where
  "justified_level c = (case pc_highest_justified c of None \<Rightarrow> 0 | Some j \<Rightarrow> Suc (unat j))"

lemma justified_level_same: "pc_highest_justified c' = pc_highest_justified c \<Longrightarrow> justified_level c' = justified_level c"
  by (simp add: justified_level_def)

interpretation justified: monotone_machine poas_step justified_level
proof
  fix c c'
  assume "poas_step c c'"
  then show "justified_level c \<le> justified_level c'"
  proof cases
    case (justify now number)
    then show ?thesis
      by (auto simp: justified_level_def update_justified_checkpoint_def max_def word_le_nat_alt split: option.splits)
  next
    case (finalize iter now block r)
    then obtain c1 where c1: "credit_proposer now c (bh_proposer (blk_header block)) = (Ok (), c1)"
        "c' = c1 \<or> c' = process_epoch_transition iter now c1" by (elim finalize_block_cases)
    then have "penal c c1" using credit_proposer_penal [of c now "bh_proposer (blk_header block)"] by simp
    then show ?thesis using c1(2) by (auto simp: justified_level_def penal_fields process_epoch_fields)
  next
    case (reorg L W now persist path r)
    then show ?thesis by (elim apply_reorg_cases) (auto simp: justified_level_def penal_fields record_reorg_def)
  next
    case (produce L W I now parent proposer pool r pool')
    then show ?thesis by (simp add: justified_level_def penal_fields [OF produce_block_state])
  qed (auto simp: justified_level_def register_validator_def unregister_validator_def outcome_simps split: if_splits)
qed

section \<open>Counting offences\<close>

lemma get_offense_count_slash:
  "slash_validator now m v cond ev = (r, m', v') \<Longrightarrow>
     get_offense_count m' addr = get_offense_count m addr + (if addr = vi_address v then 1 else 0)"
  by (auto simp: slash_validator_result Let_def get_offense_count_def)

definition double_signs :: "address \<Rightarrow> Block list \<Rightarrow> Block list \<Rightarrow> nat" where
  "double_signs addr applied reverted =
     length (filter (\<lambda>(a, r). double_signed a r \<and> bh_proposer (blk_header a) = addr) (List.product applied reverted))"

lemma slash_double_signers_offences:
  assumes "vset_ok (pc_validator_set c)" and "cc_slash_for_wrong_fork (pc_config c)"
    and "validator_get (pc_validator_set c) addr \<noteq> None"
  shows "get_offense_count (pc_slashing (snd (slash_double_signers L W now pairs c))) addr =
     get_offense_count (pc_slashing c) addr +
       of_nat (length (filter (\<lambda>(a, r). double_signed a r \<and> bh_proposer (blk_header a) = addr) pairs))"
  using assms
proof (induction pairs arbitrary: c)
  case (Cons p pairs)
  obtain a r where p: "p = (a, r)" by (cases p)
  let ?a = "bh_proposer (blk_header a)"
  show ?case
  proof (cases "double_signed a r \<and> validator_get (pc_validator_set c) ?a \<noteq> None")
    case True
    then obtain v where v: "validator_get (pc_validator_set c) ?a = Some v" by blast
    have va: "validator_ok ?a v" using v Cons.prems(1) by (auto simp: validator_get_def dest: vset_okD)
    obtain res sm v' where s: "slash_validator now (pc_slashing c) v DoubleSigning (Some (block_hash L W a)) = (res, sm, v')"
      by (rule prod_cases3)
    obtain pen where ok: "res = Ok pen" using s by (auto simp: slash_validator_result Let_def)
    let ?c1 = "c\<lparr>pc_validator_set := validator_put ?a v' (pc_validator_set c), pc_slashing := sm\<rparr>"
    have "vset_ok (pc_validator_set ?c1)" using Cons.prems(1) slash_validator_ok [OF s va] by (simp add: vset_ok_put)
    moreover have "validator_get (pc_validator_set ?c1) addr \<noteq> None"
      using Cons.prems(3) by (simp add: validator_get_def validator_put_def)
    ultimately have ih: "get_offense_count (pc_slashing (snd (slash_double_signers L W now pairs ?c1))) addr =
        get_offense_count sm addr +
          of_nat (length (filter (\<lambda>(a, r). double_signed a r \<and> bh_proposer (blk_header a) = addr) pairs))"
      using Cons.IH [of ?c1] Cons.prems(2) by simp
    have "vi_address v = ?a" using va by (simp add: validator_ok_def)
    then show ?thesis using True Cons.prems(2) v s ok p ih get_offense_count_slash [OF s, of addr] by auto
  next
    case False
    then have "slash_double_signers L W now (p # pairs) c = slash_double_signers L W now pairs c"
      using p Cons.prems(2) by auto
    moreover have "\<not> (double_signed a r \<and> ?a = addr)" using False Cons.prems(3) by auto
    ultimately show ?thesis using Cons.IH [OF Cons.prems] p by simp
  qed
qed simp

section \<open>Properties of the engine\<close>

text \<open>C6. In every state the engine reaches by any sequence of registrations, exits, finalised and produced
  blocks, justified checkpoints and reorganisations, each validator sits under its own address with a
  commission of at most 100 per cent, there are no more validators than configured, the slashing
  accounts add up, the fork history holds at most 100 entries, and the highest justified
  checkpoint is the largest recorded one.\<close>

theorem poas_reachable_invariant:
  assumes "poas_step\<^sup>*\<^sup>* (poas_new config) c"
  shows "poas_ok c"
  using assms by (intro poas.reachable_inv) blast

definition demo_consensus :: PoASConsensus where
  "demo_consensus = (poas_new consensus_config_default)\<lparr>pc_validator_set :=
     validator_put 1 (validator_new 7 1 20000 500) (validator_set_new 10000 1209600)\<rparr>"

lemma demo_consensus_step: "poas_step (poas_new consensus_config_default) demo_consensus"
  by (rule poas_step.register [where hex = "\<lambda>_. []" and now = 7 and addr = 1 and s = 20000 and commission = 500])
    (simp add: register_validator_def register_def poas_new_def consensus_config_default_def validator_set_new_def
      validator_count_def fcard.rep_eq amount_from_u64_def demo_consensus_def validator_put_def)

theorem poas_reachable_invariant_witness: "poas_ok demo_consensus"
  using poas_reachable_invariant [OF r_into_rtranclp, OF demo_consensus_step] .

text \<open>C7. A justified checkpoint is never undone. Once block \<open>j\<close> above the genesis block is justified, then in
  every later state a reorganisation that would revert a block numbered \<open>j\<close> or lower is refused and
  changes nothing, whatever happened in between.\<close>

theorem justified_block_never_reverted:
  assumes "poas_step\<^sup>*\<^sup>* (update_justified_checkpoint t c j) c'"
    and "b \<in> set (rp_revert_blocks path)" and "block_number b \<le> j" and "0 < j"
  shows "apply_reorg L W now persist c' path = (Err (BlockchainErr (ReorgTooDeep (rp_depth path))), c')"
proof -
  have "Suc (unat j) \<le> justified_level (update_justified_checkpoint t c j)"
    by (auto simp: justified_level_def update_justified_checkpoint_def max_def word_le_nat_alt split: option.splits)
  also have "\<dots> \<le> justified_level c'" using assms(1) by (rule justified.run_mono)
  finally obtain k where k: "pc_highest_justified c' = Some k" "j \<le> k"
    by (auto simp: justified_level_def word_le_nat_alt split: option.splits)
  let ?m = "Min (set (map block_number (rp_revert_blocks path)))"
  have "?m \<le> block_number b" using assms(2) by (intro Min_le) simp_all
  then have "?m \<le> j" using assms(3) by (rule order_trans)
  then have "saturating_sub ?m 1 < k"
    using assms(4) k(2) by (simp add: word_less_nat_alt word_le_nat_alt unat_saturating_sub)
  moreover have "rp_revert_blocks path \<noteq> []" using assms(2) by auto
  ultimately show ?thesis using k(1) by (simp add: apply_reorg_def reorg_ancestor_number_def)
qed

theorem justified_block_never_reverted_witness:
  "\<exists>c path. apply_reorg demo_lib demo_wire 9 None c path = (Err (BlockchainErr (ReorgTooDeep 1)), c)"
proof -
  let ?b = "(block_genesis 0)\<lparr>blk_header := (blk_header (block_genesis 0))\<lparr>bh_number := 4\<rparr>\<rparr>"
  let ?path = "\<lparr>rp_common_ancestor = 0, rp_revert_blocks = [?b], rp_apply_blocks = [], rp_depth = 1\<rparr>"
  let ?c = "update_justified_checkpoint 8 demo_consensus 5"
  have "apply_reorg demo_lib demo_wire 9 None ?c ?path = (Err (BlockchainErr (ReorgTooDeep (rp_depth ?path))), ?c)"
    by (rule justified_block_never_reverted [where b = ?b and j = 5 and t = 8 and c = demo_consensus])
      (simp_all add: block_number_def)
  then show ?thesis by (intro exI [of _ ?c] exI [of _ ?path]) simp
qed

lemma fm_sum_fmmap: "(\<And>v. f (g v) = f v) \<Longrightarrow> fm_sum f (fmmap g m) = fm_sum f m"
  unfolding fm_sum_def by (rule sum.cong) (auto simp: fmlookup_dom_iff)

lemma stake_and_slashed_epoch: "stake_and_slashed (process_epoch_transition iter now c) = stake_and_slashed c"
  by (simp add: stake_and_slashed_def process_epoch_fields process_unbonding_def fm_sum_fmmap)

text \<open>C8. No stake appears or disappears. Finalising a block, producing one and applying a reorganisation,
  successful or not, keep the validators' stakes and the total slashed together constant, so every
  unit a validator loses is booked as slashed.\<close>

theorem engine_conserves_stake:
  "stake_and_slashed (snd (finalize_block iter now c block)) = stake_and_slashed c \<and>
   stake_and_slashed (fst (snd (produce_block L W I now c parent proposer pool))) = stake_and_slashed c \<and>
   stake_and_slashed (snd (apply_reorg L W now persist c path)) = stake_and_slashed c"
proof (intro conjI)
  obtain r c' where f: "finalize_block iter now c block = (r, c')" by fastforce
  then obtain c1 where c1: "credit_proposer now c (bh_proposer (blk_header block)) = (Ok (), c1)"
      "c' = c1 \<or> c' = process_epoch_transition iter now c1" by (elim finalize_block_cases)
  then have "penal c c1" using credit_proposer_penal [of c now "bh_proposer (blk_header block)"] by simp
  then show "stake_and_slashed (snd (finalize_block iter now c block)) = stake_and_slashed c"
    using f c1(2) by (auto simp: penal_def stake_and_slashed_epoch)
  obtain r2 c2 p2 where "produce_block L W I now c parent proposer pool = (r2, c2, p2)" by (rule prod_cases3)
  with produce_block_state [OF this]
  show "stake_and_slashed (fst (snd (produce_block L W I now c parent proposer pool))) = stake_and_slashed c"
    by (simp add: penal_def)
  obtain r3 c3 where a: "apply_reorg L W now persist c path = (r3, c3)" by fastforce
  then have "stake_and_slashed c3 = stake_and_slashed c"
    by (elim apply_reorg_cases) (auto simp: penal_def stake_and_slashed_def record_reorg_def)
  with a show "stake_and_slashed (snd (apply_reorg L W now persist c path)) = stake_and_slashed c" by simp
qed

text \<open>A reorganisation that is carried out punishes every double signature in it: with slashing
  enabled, the offence count of a registered validator rises by the number of pairs of an applied and
  a reverted block it proposed at the same height.\<close>

lemma apply_reorg_punishes_double_signing:
  assumes "poas_ok c" and "cc_slash_for_wrong_fork (pc_config c)"
    and "validator_get (pc_validator_set c) addr \<noteq> None"
    and "apply_reorg L W now None c path = (Ok (), c')"
  shows "get_offense_count (pc_slashing c') addr =
    get_offense_count (pc_slashing c) addr + of_nat (double_signs addr (rp_apply_blocks path) (rp_revert_blocks path))"
  using assms(4)
proof (cases rule: apply_reorg_cases)
  case (recorded number c1)
  then have "pc_slashing c' = pc_slashing c1" by (simp add: record_reorg_def)
  then show ?thesis
    using recorded(3) slash_double_signers_offences [of c addr L W now "List.product (rp_apply_blocks path) (rp_revert_blocks path)"]
      assms(1-3) by (simp add: poas_ok_def double_signs_def)
qed simp

definition demo_rival :: "bytes \<Rightarrow> Block" where
  "demo_rival extra = (block_genesis 0)\<lparr>blk_header :=
     (blk_header (block_genesis 0))\<lparr>bh_number := 1, bh_proposer := 1, bh_extra_data := extra\<rparr>\<rparr>"

definition demo_path :: ReorgPath where
  "demo_path = \<lparr>rp_common_ancestor = 0, rp_revert_blocks = [demo_rival [1]], rp_apply_blocks = [demo_rival [2]], rp_depth = 1\<rparr>"

lemma apply_reorg_punishes_double_signing_witness:
  "get_offense_count (pc_slashing (snd (apply_reorg demo_lib demo_wire 9 None demo_consensus demo_path))) 1 = 1"
proof -
  have "fst (apply_reorg demo_lib demo_wire 9 None demo_consensus demo_path) = Ok ()"
    using slash_double_signers_result [of demo_lib demo_wire 9 "List.product (rp_apply_blocks demo_path) (rp_revert_blocks demo_path)" demo_consensus]
    by (auto simp: apply_reorg_def reorg_ancestor_number_def demo_path_def demo_consensus_def poas_new_def choose_chain_def
        Let_def split: outcome.splits ForkChoice.splits)
  then have a: "apply_reorg demo_lib demo_wire 9 None demo_consensus demo_path =
      (Ok (), snd (apply_reorg demo_lib demo_wire 9 None demo_consensus demo_path))" by (metis prod.collapse)
  have ok: "poas_ok demo_consensus" using demo_consensus_step by (meson poas.reachable_inv r_into_rtranclp)
  have s: "cc_slash_for_wrong_fork (pc_config demo_consensus)"
    by (simp add: demo_consensus_def poas_new_def consensus_config_default_def)
  have v: "validator_get (pc_validator_set demo_consensus) 1 \<noteq> None"
    by (simp add: demo_consensus_def validator_get_def validator_put_def)
  have "double_signs 1 (rp_apply_blocks demo_path) (rp_revert_blocks demo_path) = 1"
    by (simp add: double_signs_def demo_path_def demo_rival_def double_signed_def)
  moreover have "get_offense_count (pc_slashing demo_consensus) 1 = 0"
    by (simp add: demo_consensus_def poas_new_def slashing_manager_new_def get_offense_count_def)
  ultimately show ?thesis using apply_reorg_punishes_double_signing [OF ok s v a] by simp
qed

text \<open>Justifying a checkpoint revokes finality. Before the first checkpoint a block is final once enough
  blocks are on top of it; the first justified checkpoint \<open>j\<close> replaces that rule by being at or
  below \<open>j\<close>, so every block above \<open>j\<close> that had been reported final no longer is.\<close>

lemma justification_revokes_finality:
  assumes "pc_highest_justified c = None" and "is_finalized c number head" and "j < number"
  shows "\<not> is_finalized (update_justified_checkpoint now c j) number head"
  using assms by (simp add: is_finalized_def update_justified_checkpoint_def not_le)

lemma justification_revokes_finality_witness:
  "is_finalized demo_consensus 5 7 \<and> \<not> is_finalized (update_justified_checkpoint 9 demo_consensus 1) 5 7"
proof
  show f: "is_finalized demo_consensus 5 7"
    by (simp add: is_finalized_def demo_consensus_def poas_new_def consensus_config_default_def)
  show "\<not> is_finalized (update_justified_checkpoint 9 demo_consensus 1) 5 7"
    by (rule justification_revokes_finality [OF _ f]) (simp_all add: demo_consensus_def poas_new_def)
qed

section \<open>Validation and production\<close>

text \<open>Which blocks the engine accepts: those that are valid against their parent, whose proposer is a
  registered, active validator with stake, and whose timestamp is within two seconds of the parent's
  plus the block time. The fork test after these never fires, since a valid block names its parent's
  hash; switching fork detection on or off makes no difference.\<close>

lemma validate_block_accepts:
  "validate_block L W hex c block parent = Ok () \<longleftrightarrow>
     block_validate L W block parent = Ok () \<and>
     (\<exists>v. validator_get (pc_validator_set c) (bh_proposer (blk_header block)) = Some v \<and>
        vi_status v = Active \<and> vi_stake v \<noteq> 0) \<and>
     time_difference (bh_timestamp (blk_header block))
       (bh_timestamp (blk_header parent) + cc_block_time (pc_config c)) \<le> 2"
proof (cases "block_validate L W block parent = Ok ()")
  case True
  then have "detect_fork L W parent block = None"
    using block_validate_header [OF True] by (simp add: detect_fork_def valid_header_def block_hash_def)
  with True show ?thesis
    by (cases "validator_get (pc_validator_set c) (bh_proposer (blk_header block))")
      (auto simp: validate_block_def Let_def can_produce_blocks_def is_active_def amount_is_zero_def)
next
  case False
  then show ?thesis by (cases "block_validate L W block parent") (simp_all add: validate_block_def)
qed

definition block_transactions :: "pool_iter \<Rightarrow> TransactionPool \<Rightarrow> Block \<Rightarrow> Transaction list" where
  "block_transactions I pool parent =
     filter (\<lambda>tx. is_ok (validate_basic tx)) (get_pending I pool (bh_gas_limit (blk_header parent)) 1000)"

lemma produce_block_outcome:
  assumes "verify_chain_canonical c (block_hash L W parent)"
  shows "fst (produce_block L W I now c parent proposer pool) =
    map_err BlockchainErr (block_new L W now (block_number parent + 1) (block_hash L W parent) hash_zero proposer
      (block_transactions I pool parent) (bh_gas_limit (blk_header parent)))"
  using assms by (simp add: produce_block_def verify_before_produce_def block_transactions_def Let_def split: outcome.splits)

lemma total_gas_limit_nat:
  "sum_list (map (\<lambda>tx. unat (tx_gas_limit tx)) txs) \<le> unat limit \<Longrightarrow> total_gas_limit txs \<le> limit"
proof -
  have "sum_list (map (\<lambda>tx. unat (tx_gas_limit tx)) txs) < 2 ^ 64 \<Longrightarrow>
      unat (total_gas_limit txs) = sum_list (map (\<lambda>tx. unat (tx_gas_limit tx)) txs)"
    by (induction txs) (auto simp: total_gas_limit_def unat_add_u64)
  then show "sum_list (map (\<lambda>tx. unat (tx_gas_limit tx)) txs) \<le> unat limit \<Longrightarrow> total_gas_limit txs \<le> limit"
    using unat_less_u64 [of limit] by (simp add: word_le_nat_alt)
qed

lemma sum_list_filter_le: "sum_list (map f (filter P xs)) \<le> sum_list (map f xs)" for f :: "'a \<Rightarrow> nat"
  by (induction xs) auto

text \<open>What the engine produces on a canonical head it would accept from others: a block built at a later
  time than its parent is valid against it, as long as no pending gas limit is so large that adding
  it to the block's limit wraps.\<close>

lemma produced_block_valid:
  assumes "produce_block L W I now c parent proposer pool = (Ok b, c', pool')"
    and "bh_timestamp (blk_header parent) < now"
    and "\<forall>e \<in> set (pending_entries I pool).
      unat (bh_gas_limit (blk_header parent)) + unat (tx_gas_limit (pe_transaction e)) < 2 ^ 64"
  shows "block_validate L W b parent = Ok ()"
proof -
  let ?txs = "block_transactions I pool parent" and ?limit = "bh_gas_limit (blk_header parent)"
  have can: "verify_chain_canonical c (block_hash L W parent)"
    using assms(1) by (auto simp: produce_block_def verify_before_produce_def split: if_splits)
  have b: "block_new L W now (block_number parent + 1) (block_hash L W parent) hash_zero proposer ?txs ?limit = Ok b"
  proof -
    have "fst (produce_block L W I now c parent proposer pool) = Ok b" using assms(1) by simp
    then show ?thesis unfolding produce_block_outcome [OF can] map_err_eq_Ok .
  qed
  have "sum_list (map (\<lambda>tx. unat (tx_gas_limit tx)) (get_pending I pool ?limit 1000)) \<le> unat ?limit"
    unfolding get_pending_def by (rule get_pending_loop_gas) (use assms(3) in simp_all)
  then have "total_gas_limit ?txs \<le> ?limit"
    unfolding block_transactions_def by (intro total_gas_limit_nat le_trans [OF sum_list_filter_le])
  moreover have "validate_txs ?txs = Ok ()"
    by (auto simp: validate_txs_Ok block_transactions_def is_ok_iff)
  ultimately show ?thesis using b assms(2) by (intro block_new_valid [where txs = ?txs])
qed

lemma produced_block_valid_witness:
  "\<exists>b c' pool'. produce_block demo_lib demo_wire demo_iter 9 demo_consensus (block_genesis 0) 1 (pool_new pool_config_default) = (Ok b, c', pool') \<and>
     block_validate demo_lib demo_wire b (block_genesis 0) = Ok ()"
proof -
  have p: "pending_entries demo_iter (pool_new pool_config_default) = []"
    by (simp add: pending_entries_def pool_new_def)
  then have g: "block_transactions demo_iter (pool_new pool_config_default) (block_genesis 0) = []"
    by (simp add: block_transactions_def get_pending_def)
  have can: "verify_chain_canonical demo_consensus (block_hash demo_lib demo_wire (block_genesis 0))"
    by (simp add: verify_chain_canonical_def demo_consensus_def poas_new_def fork_resolver_new_def)
  obtain b where "fst (produce_block demo_lib demo_wire demo_iter 9 demo_consensus (block_genesis 0) 1 (pool_new pool_config_default)) = Ok b"
    using produce_block_outcome [OF can, of demo_iter 9 1 "pool_new pool_config_default"] g by (simp add: block_new_def)
  then obtain c' pool' where r: "produce_block demo_lib demo_wire demo_iter 9 demo_consensus (block_genesis 0) 1 (pool_new pool_config_default) = (Ok b, c', pool')"
    by (metis prod.collapse)
  have "block_validate demo_lib demo_wire b (block_genesis 0) = Ok ()"
    by (rule produced_block_valid [OF r]) (simp_all add: block_genesis_def p)
  with r show ?thesis by blast
qed

text \<open>Block production panics on most pools. On a canonical head, producing a block panics exactly when
  the number of selected valid transactions is neither zero nor a power of two, because the Merkle
  tree of such a list indexes out of range; otherwise it succeeds.\<close>

lemma produce_block_panics:
  fixes I pool parent
  defines "n \<equiv> length (block_transactions I pool parent)"
  assumes "verify_chain_canonical c (block_hash L W parent)"
  shows "(fst (produce_block L W I now c parent proposer pool) = Panic \<longleftrightarrow> n \<noteq> 0 \<and> (\<nexists>k. n = 2 ^ k)) \<and>
    (is_ok (fst (produce_block L W I now c parent proposer pool)) \<longleftrightarrow> n = 0 \<or> (\<exists>k. n = 2 ^ k))"
proof (cases "n = 0 \<or> (\<exists>k. n = 2 ^ k)")
  case True
  then have "\<exists>r. (if block_transactions I pool parent = [] then Ok hash_zero
      else merkle_root_of_txs L W (block_transactions I pool parent)) = Ok r"
    unfolding n_def using merkle_root_of_txs_pow2 by auto
  then show ?thesis using True unfolding produce_block_outcome [OF assms(2)] by (auto simp: block_new_def Let_def)
next
  case False
  then have "merkle_root_of_txs L W (block_transactions I pool parent) = Panic"
    unfolding n_def by (intro merkle_root_of_txs_Panic) auto
  then show ?thesis using False unfolding produce_block_outcome [OF assms(2)] n_def by (auto simp: block_new_def)
qed

lemma produce_block_panics_witness:
  "is_ok (fst (produce_block demo_lib demo_wire demo_iter 9 demo_consensus (block_genesis 0) 1 (pool_new pool_config_default)))"
proof -
  have "block_transactions demo_iter (pool_new pool_config_default) (block_genesis 0) = []"
    by (simp add: block_transactions_def get_pending_def pending_entries_def pool_new_def)
  moreover have "verify_chain_canonical demo_consensus (block_hash demo_lib demo_wire (block_genesis 0))"
    by (simp add: verify_chain_canonical_def demo_consensus_def poas_new_def fork_resolver_new_def)
  note produce_block_panics [OF this, where I = demo_iter and pool = "pool_new pool_config_default" and now = 9 and proposer = 1]
  ultimately show ?thesis by simp
qed

text \<open>A validator that was once down for a day is slashed for it again and again: finalising any block it
  proposes adds an offence and leaves the missed-block counter that triggers the slashing as it
  was, so the same downtime is punished once per block the validator delivers.\<close>

lemma downtime_slashed_repeatedly:
  assumes "validator_get (pc_validator_set c) (bh_proposer (blk_header block)) = Some v"
    and "vi_address v = bh_proposer (blk_header block)"
    and "28800 \<le> vi_blocks_missed v" and "cc_max_downtime_blocks (pc_config c) \<le> vi_blocks_missed v"
    and "unat (vi_blocks_produced v) + unat (vi_blocks_missed v) + 1 < 2 ^ 64"
    and "finalize_block iter now c block = (r, c')"
  shows "get_offense_count (pc_slashing c') (vi_address v) = get_offense_count (pc_slashing c) (vi_address v) + 1 \<and>
    (\<exists>v'. validator_get (pc_validator_set c') (vi_address v) = Some v' \<and> vi_blocks_missed v' = vi_blocks_missed v)"
proof -
  let ?u = "update_uptime now v True" and ?p = "bh_proposer (blk_header block)"
  obtain c1 where c1: "credit_proposer now c ?p = (Ok (), c1)" "c' = c1 \<or> c' = process_epoch_transition iter now c1"
    using assms(6) by (elim finalize_block_cases)
  have "unat (vi_blocks_produced v + 1) = unat (vi_blocks_produced v) + 1" using assms(5) unat_add_u64 [of "vi_blocks_produced v" 1] by simp
  then have "unat (vi_blocks_produced v + 1 + vi_blocks_missed v) = unat (vi_blocks_produced v) + 1 + unat (vi_blocks_missed v)"
    using assms(5) by (subst unat_add_u64) simp_all
  then have t: "vi_blocks_produced ?u + vi_blocks_missed ?u \<noteq> 0" by (auto simp: update_uptime_counters)
  have "1 \<le> unat (vi_blocks_missed v) div 28800" using assms(3) by (simp add: word_le_nat_alt less_eq_div_iff_mult_less_eq)
  then have d: "0 < vi_blocks_missed ?u div 28800" by (simp add: word_less_nat_alt unat_div update_uptime_counters)
  let ?s = "slash_validator now (pc_slashing c) ?u (ExtendedDowntime (vi_blocks_missed ?u div 28800)) None"
  obtain pen sm v' where s: "?s = (Ok pen, sm, v')" and v': "vi_blocks_missed v' = vi_blocks_missed v"
    by (auto simp: slash_validator_result Let_def update_uptime_counters)
  have "check_downtime_slashing now (pc_slashing c) ?u (cc_max_downtime_blocks (pc_config c)) = (Ok (Some pen), sm, v')"
    using s t d assms(4) by (simp add: check_downtime_result update_uptime_counters)
  then have c1_eq: "c1 = c\<lparr>pc_validator_set := validator_put ?p v' (pc_validator_set c), pc_slashing := sm\<rparr>"
    using c1(1) assms(1) by (simp add: credit_proposer_def)
  have "get_offense_count sm (vi_address v) = get_offense_count (pc_slashing c) (vi_address v) + 1"
    using get_offense_count_slash [OF s, of "vi_address v"] by simp
  then show ?thesis using c1(2) c1_eq v' assms(2)
    by (auto simp: process_epoch_fields process_unbonding_def validator_get_def validator_put_def)
qed

definition demo_late :: PoASConsensus where
  "demo_late = demo_consensus\<lparr>pc_validator_set := validator_put 1
     ((validator_new 7 1 20000 500)\<lparr>vi_blocks_missed := 30000\<rparr>) (pc_validator_set demo_consensus)\<rparr>"

lemma downtime_slashed_repeatedly_witness:
  "get_offense_count (pc_slashing (snd (finalize_block (\<lambda>_. []) 9 demo_late (demo_rival [])))) 1 = 1"
proof -
  let ?v = "(validator_new 7 1 20000 500)\<lparr>vi_blocks_missed := 30000\<rparr>"
  obtain r c' where f: "finalize_block (\<lambda>_. []) 9 demo_late (demo_rival []) = (r, c')" by fastforce
  have v: "validator_get (pc_validator_set demo_late) (bh_proposer (blk_header (demo_rival []))) = Some ?v"
    by (simp add: demo_late_def validator_get_def validator_put_def demo_rival_def)
  have "get_offense_count (pc_slashing c') (vi_address ?v) = get_offense_count (pc_slashing demo_late) (vi_address ?v) + 1 \<and>
    (\<exists>v'. validator_get (pc_validator_set c') (vi_address ?v) = Some v' \<and> vi_blocks_missed v' = vi_blocks_missed ?v)"
    by (rule downtime_slashed_repeatedly [OF v _ _ _ _ f])
      (simp_all add: demo_rival_def validator_new_def demo_late_def demo_consensus_def poas_new_def consensus_config_default_def)
  moreover have "get_offense_count (pc_slashing demo_late) 1 = 0"
    by (simp add: demo_late_def demo_consensus_def poas_new_def slashing_manager_new_def get_offense_count_def)
  ultimately show ?thesis using f by (simp add: validator_new_def)
qed

end
