(* ===== verification/Utility_Index.thy ===== *)
theory Utility_Index
  imports Validator
begin

text \<open>
  \<open>utility_index.rs\<close> and the error type of the \<open>tokenomics\<close> crate: the weighted index of
  network activity relative to a baseline. \<open>show_f64\<close> is the \<open>Display\<close> of a floating
  point number, which only an error message uses.
\<close>

datatype TokenomicsError =
    MintingError string
  | PhaseTransitionError string
  | UtilityCalculationError string
  | RewardDistributionError string
  | BurningError string
  | InvalidConfiguration string
  | OverflowError string

text \<open>\<open>to_u64_digits().first().copied().unwrap_or(1)\<close>: only a zero amount has no digits.\<close>

definition low_u64_or_1 :: "nat \<Rightarrow> u64" where
  "low_u64_or_1 n = (if n = 0 then 1 else of_nat n)"

lemma unat_low_u64: "n < 2 ^ 64 \<Longrightarrow> unat (low_u64 n) = n"
  by (simp add: low_u64_def unat_of_nat)

lemma unat_low_u64_or_1: "n < 2 ^ 64 \<Longrightarrow> unat (low_u64_or_1 n) = max 1 n"
  by (simp add: low_u64_or_1_def unat_of_nat)

record UtilityMetrics =
  um_tx_volume :: Amount
  um_total_value_locked :: Amount
  um_unique_addresses :: u64
  um_contract_interactions :: u64
  um_bridge_volume :: Amount
  um_block_number :: BlockNumber

definition utility_metrics_new :: "BlockNumber \<Rightarrow> UtilityMetrics" where
  "utility_metrics_new number = \<lparr>um_tx_volume = amount_zero, um_total_value_locked = amount_zero,
     um_unique_addresses = 0, um_contract_interactions = 0, um_bridge_volume = amount_zero, um_block_number = number\<rparr>"

definition utility_metrics_with_values ::
    "BlockNumber \<Rightarrow> Amount \<Rightarrow> Amount \<Rightarrow> u64 \<Rightarrow> u64 \<Rightarrow> Amount \<Rightarrow> UtilityMetrics" where
  "utility_metrics_with_values number tx_volume tvl addresses interactions bridge_volume =
     \<lparr>um_tx_volume = tx_volume, um_total_value_locked = tvl, um_unique_addresses = addresses,
      um_contract_interactions = interactions, um_bridge_volume = bridge_volume, um_block_number = number\<rparr>"

record MetricWeights =
  mw_tx_volume :: f64
  mw_tvl :: f64
  mw_active_users :: f64
  mw_contract_interactions :: f64
  mw_bridge_volume :: f64

definition default_weights :: MetricWeights where
  "default_weights = \<lparr>mw_tx_volume = fl (30 / 100), mw_tvl = fl (25 / 100), mw_active_users = fl (20 / 100),
     mw_contract_interactions = fl (15 / 100), mw_bridge_volume = fl (10 / 100)\<rparr>"

definition weights_sum :: "MetricWeights \<Rightarrow> f64" where
  "weights_sum w = f64_add (f64_add (f64_add (f64_add (mw_tx_volume w) (mw_tvl w)) (mw_active_users w))
     (mw_contract_interactions w)) (mw_bridge_volume w)"

definition weights_validate :: "(f64 \<Rightarrow> string) \<Rightarrow> MetricWeights \<Rightarrow> (unit, TokenomicsError) outcome" where
  "weights_validate show_f64 w =
     (if f64_lt (fl (1 / 10000)) (f64_abs (f64_sub (weights_sum w) (fl 1)))
      then Err (InvalidConfiguration (''Metric weights must sum to 1.0, got '' @ show_f64 (weights_sum w)))
      else Ok ())"

record UtilityIndex =
  ui_baseline :: UtilityMetrics
  ui_weights :: MetricWeights
  ui_current :: UtilityMetrics

text \<open>The source's constructor \<open>new\<close> returns no index: it only validates the weights.\<close>

definition utility_index_new :: "(f64 \<Rightarrow> string) \<Rightarrow> UtilityMetrics \<Rightarrow> MetricWeights \<Rightarrow> (unit, TokenomicsError) outcome" where
  "utility_index_new show_f64 baseline weights = and_then (weights_validate show_f64 weights) (\<lambda>_. Ok ())"

definition with_baseline :: "UtilityMetrics \<Rightarrow> UtilityIndex" where
  "with_baseline baseline = \<lparr>ui_baseline = baseline, ui_weights = default_weights, ui_current = utility_metrics_new 0\<rparr>"

definition update_metrics :: "UtilityIndex \<Rightarrow> UtilityMetrics \<Rightarrow> UtilityIndex" where
  "update_metrics ui metrics = ui\<lparr>ui_current := metrics\<rparr>"

definition calculate_ratio :: "Amount \<Rightarrow> Amount \<Rightarrow> f64" where
  "calculate_ratio current baseline =
     (if amount_is_zero baseline then Fin 1
      else f64_div (f64_of_u64 (low_u64 current)) (f64_of_u64 (low_u64_or_1 baseline)))"

definition contribution :: "bool \<Rightarrow> f64 \<Rightarrow> f64 \<Rightarrow> f64 \<Rightarrow> f64" where
  "contribution applies weight ratio index = (if applies then f64_add index (f64_mul weight ratio) else index)"

definition ui_calculate :: "UtilityIndex \<Rightarrow> f64" where
  "ui_calculate ui =
     (let b = ui_baseline ui; c = ui_current ui; w = ui_weights ui;
          i0 = Fin 0;
          i1 = contribution (\<not> amount_is_zero (um_tx_volume b)) (mw_tx_volume w)
                 (calculate_ratio (um_tx_volume c) (um_tx_volume b)) i0;
          i2 = contribution (\<not> amount_is_zero (um_total_value_locked b)) (mw_tvl w)
                 (calculate_ratio (um_total_value_locked c) (um_total_value_locked b)) i1;
          i3 = contribution (0 < um_unique_addresses b) (mw_active_users w)
                 (f64_div (f64_of_u64 (um_unique_addresses c)) (f64_of_u64 (um_unique_addresses b))) i2;
          i4 = contribution (0 < um_contract_interactions b) (mw_contract_interactions w)
                 (f64_div (f64_of_u64 (um_contract_interactions c)) (f64_of_u64 (um_contract_interactions b))) i3
      in contribution (\<not> amount_is_zero (um_bridge_volume b)) (mw_bridge_volume w)
           (calculate_ratio (um_bridge_volume c) (um_bridge_volume b)) i4)"

definition update_weights :: "(f64 \<Rightarrow> string) \<Rightarrow> UtilityIndex \<Rightarrow> MetricWeights \<Rightarrow> (UtilityIndex, TokenomicsError) outcome" where
  "update_weights show_f64 ui weights =
     and_then (weights_validate show_f64 weights) (\<lambda>_. Ok (ui\<lparr>ui_weights := weights\<rparr>))"

definition is_above_baseline :: "UtilityIndex \<Rightarrow> bool" where
  "is_above_baseline ui = f64_lt (fl 1) (ui_calculate ui)"

datatype UtilityCategory = VeryLow | Low | Normal | High | VeryHigh

definition utility_category :: "UtilityIndex \<Rightarrow> UtilityCategory" where
  "utility_category ui =
     (let index = ui_calculate ui in
      if f64_lt index (fl (1 / 2)) then VeryLow
      else if f64_lt index (fl 1) then Low
      else if f64_lt index (fl (3 / 2)) then Normal
      else if f64_lt index (fl 2) then High
      else VeryHigh)"

section \<open>The default weights\<close>

lemma fl_default_weights:
  "fl (30 / 100) = Fin (5404319552844595 / 2 ^ 54)" "fl (25 / 100) = Fin (1 / 4)"
  "fl (20 / 100) = Fin (3602879701896397 / 2 ^ 54)" "fl (15 / 100) = Fin (5404319552844595 / 2 ^ 55)"
  "fl (10 / 100) = Fin (3602879701896397 / 2 ^ 55)"
  using fl_literal [of 54 "30 / 100" 5404319552844595] fl_exact [OF representable_dyadic [of 4096]]
    fl_literal [of 55 "20 / 100" 7205759403792794] fl_literal [of 55 "15 / 100" 5404319552844595]
    fl_literal [of 56 "10 / 100" 7205759403792794] by simp_all

lemma fl_weight_sums:
  "fl (5404319552844595 / 2 ^ 54 + 1 / 4) = Fin (4953959590107546 / 2 ^ 53)"
  "fl (4953959590107546 / 2 ^ 53 + 3602879701896397 / 2 ^ 54) = Fin (3 / 4)"
  "fl (3 / 4 + 5404319552844595 / 2 ^ 55) = Fin (8106479329266893 / 2 ^ 53)"
  "fl (8106479329266893 / 2 ^ 53 + 3602879701896397 / 2 ^ 55) = Fin 1"
  using fl_literal_rne [of 53 "5404319552844595 / 2 ^ 54 + 1 / 4", OF _ _ _ rne_tie [of _ 4953959590107545]]
    fl_literal_rne [of 53 "4953959590107546 / 2 ^ 53 + 3602879701896397 / 2 ^ 54", OF _ _ _ rne_tie [of _ "3 * 2 ^ 51"]]
    fl_literal [of 53 "3 / 4 + 5404319552844595 / 2 ^ 55" 8106479329266893]
    fl_literal [of 52 "8106479329266893 / 2 ^ 53 + 3602879701896397 / 2 ^ 55" "2 ^ 52"] by simp_all

lemma default_weights_sum: "weights_sum default_weights = Fin 1"
  unfolding weights_sum_def default_weights_def
  by (simp only: MetricWeights.select_convs fl_default_weights f64_add.simps fl_weight_sums)

end
