(* ===== verification/Phase_Manager.thy ===== *)
theory Phase_Manager
  imports Utility_Index Interfaces
begin

text \<open>
  \<open>phase_manager.rs\<close> of the \<open>tokenomics\<close> crate: the switch from bootstrap to utility-driven
  minting, its notice period and its blend period. \<open>MintingPhase\<close> is declared in \<open>minting.rs\<close>.
\<close>

datatype MintingPhase = Bootstrap | UtilityDriven

record IVTConfig =
  ivt_target_transactions :: u64
  ivt_target_addresses :: u64
  ivt_allow_governance_override :: bool

definition ivt_config_default :: IVTConfig where
  "ivt_config_default = \<lparr>ivt_target_transactions = 1000000, ivt_target_addresses = 100000,
     ivt_allow_governance_override = True\<rparr>"

definition ivt_is_reached :: "IVTConfig \<Rightarrow> u64 \<Rightarrow> u64 \<Rightarrow> bool" where
  "ivt_is_reached cfg cumulative_tx addresses \<longleftrightarrow>
     ivt_target_transactions cfg \<le> cumulative_tx \<or> ivt_target_addresses cfg \<le> addresses"

record PhaseTransition =
  pt_block_number :: BlockNumber
  pt_timestamp :: Timestamp
  pt_metrics :: UtilityMetrics
  pt_governance_override :: bool

record PhaseManager =
  pm_current_phase :: MintingPhase
  pm_ivt_config :: IVTConfig
  pm_cumulative_transactions :: u64
  pm_unique_addresses :: u64
  pm_transition :: "PhaseTransition option"
  pm_notice_period_blocks :: u64
  pm_notice_block :: "BlockNumber option"
  pm_blend_period_blocks :: u64
  pm_transition_start_block :: "BlockNumber option"

definition phase_manager_new :: "IVTConfig \<Rightarrow> PhaseManager" where
  "phase_manager_new cfg = \<lparr>pm_current_phase = Bootstrap, pm_ivt_config = cfg, pm_cumulative_transactions = 0,
     pm_unique_addresses = 0, pm_transition = None, pm_notice_period_blocks = 201600, pm_notice_block = None,
     pm_blend_period_blocks = 864000, pm_transition_start_block = None\<rparr>"

definition update_statistics :: "PhaseManager \<Rightarrow> u64 \<Rightarrow> u64 \<Rightarrow> PhaseManager" where
  "update_statistics pm transactions addresses =
     pm\<lparr>pm_cumulative_transactions := pm_cumulative_transactions pm + transactions,
        pm_unique_addresses := max (pm_unique_addresses pm) addresses\<rparr>"

definition is_ivt_reached :: "PhaseManager \<Rightarrow> bool" where
  "is_ivt_reached pm \<longleftrightarrow> ivt_is_reached (pm_ivt_config pm) (pm_cumulative_transactions pm) (pm_unique_addresses pm)"

definition announce_transition :: "PhaseManager \<Rightarrow> BlockNumber \<Rightarrow> (PhaseManager, TokenomicsError) outcome" where
  "announce_transition pm current_block =
     (if pm_current_phase pm \<noteq> Bootstrap
      then Err (PhaseTransitionError ''Already transitioned or in progress'')
      else if \<not> is_ivt_reached pm then Err (PhaseTransitionError ''IVT not reached yet'')
      else Ok (pm\<lparr>pm_notice_block := Some current_block\<rparr>))"

definition start_transition ::
    "Timestamp \<Rightarrow> PhaseManager \<Rightarrow> BlockNumber \<Rightarrow> UtilityMetrics \<Rightarrow> bool \<Rightarrow> PhaseManager" where
  "start_transition now pm current_block metrics override =
     pm\<lparr>pm_transition_start_block := Some current_block,
        pm_transition := Some \<lparr>pt_block_number = current_block, pt_timestamp = now, pt_metrics = metrics,
          pt_governance_override = override\<rparr>\<rparr>"

definition execute_transition ::
    "Timestamp \<Rightarrow> PhaseManager \<Rightarrow> BlockNumber \<Rightarrow> UtilityMetrics \<Rightarrow> (UtilityIndex \<times> PhaseManager, TokenomicsError) outcome" where
  "execute_transition now pm current_block metrics =
     (case pm_notice_block pm of
        Some notice_block \<Rightarrow>
          if current_block < notice_block + pm_notice_period_blocks pm
          then Err (PhaseTransitionError (''Notice period not complete. '' @
                 show_u64 (notice_block + pm_notice_period_blocks pm - current_block) @ '' blocks remaining''))
          else Ok (with_baseline metrics, start_transition now pm current_block metrics False)
      | None \<Rightarrow> Err (PhaseTransitionError ''Transition not announced''))"

definition execute_governance_override ::
    "Timestamp \<Rightarrow> PhaseManager \<Rightarrow> BlockNumber \<Rightarrow> UtilityMetrics \<Rightarrow> (UtilityIndex \<times> PhaseManager, TokenomicsError) outcome" where
  "execute_governance_override now pm current_block metrics =
     (if \<not> ivt_allow_governance_override (pm_ivt_config pm)
      then Err (PhaseTransitionError ''Governance override not allowed'')
      else if pm_current_phase pm \<noteq> Bootstrap then Err (PhaseTransitionError ''Already transitioned'')
      else Ok (with_baseline metrics, start_transition now pm current_block metrics True))"

definition calculate_blend_factor :: "PhaseManager \<Rightarrow> BlockNumber \<Rightarrow> f64 \<times> PhaseManager" where
  "calculate_blend_factor pm current_block =
     (case pm_transition_start_block pm of
        Some start_block \<Rightarrow>
          if current_block < start_block then (Fin 1, pm)
          else let blocks_since_transition = current_block - start_block in
          if pm_blend_period_blocks pm \<le> blocks_since_transition
          then (Fin 0, pm\<lparr>pm_current_phase := UtilityDriven\<rparr>)
          else let progress = f64_div (f64_of_u64 blocks_since_transition) (f64_of_u64 (pm_blend_period_blocks pm))
               in (f64_sub (fl 1) progress, pm)
      | None \<Rightarrow> (Fin 1, pm))"

definition is_in_blend_period :: "PhaseManager \<Rightarrow> BlockNumber \<Rightarrow> bool" where
  "is_in_blend_period pm current_block =
     (case pm_transition_start_block pm of
        Some start_block \<Rightarrow> saturating_sub current_block start_block < pm_blend_period_blocks pm
      | None \<Rightarrow> False)"

record PhaseProgress =
  pp_current_phase :: MintingPhase
  pp_cumulative_transactions :: u64
  pp_target_transactions :: u64
  pp_unique_addresses :: u64
  pp_target_addresses :: u64
  pp_tx_progress_percent :: f64
  pp_address_progress_percent :: f64
  pp_is_ivt_reached :: bool
  pp_notice_block :: "BlockNumber option"
  pp_transition_start_block :: "BlockNumber option"

definition progress_percent :: "u64 \<Rightarrow> u64 \<Rightarrow> f64" where
  "progress_percent reached goal =
     (if 0 < goal then f64_min (f64_mul (f64_div (f64_of_u64 reached) (f64_of_u64 goal)) (fl 100)) (fl 100) else Fin 0)"

definition get_progress :: "PhaseManager \<Rightarrow> PhaseProgress" where
  "get_progress pm =
     (let cfg = pm_ivt_config pm in
      \<lparr>pp_current_phase = pm_current_phase pm,
       pp_cumulative_transactions = pm_cumulative_transactions pm,
       pp_target_transactions = ivt_target_transactions cfg,
       pp_unique_addresses = pm_unique_addresses pm,
       pp_target_addresses = ivt_target_addresses cfg,
       pp_tx_progress_percent = progress_percent (pm_cumulative_transactions pm) (ivt_target_transactions cfg),
       pp_address_progress_percent = progress_percent (pm_unique_addresses pm) (ivt_target_addresses cfg),
       pp_is_ivt_reached = is_ivt_reached pm,
       pp_notice_block = pm_notice_block pm,
       pp_transition_start_block = pm_transition_start_block pm\<rparr>)"

section \<open>The blend factor\<close>

lemma f64_neg_Fin: "f64_sub (Fin a) (Fin b) = fl (a - b)"
  by (simp add: f64_sub_def)

lemma blend_value:
  assumes "pm_transition_start_block pm = Some s" and "s \<le> b"
    and "unat b - unat s < unat (pm_blend_period_blocks pm)"
  obtains p where "calculate_blend_factor pm b = (fl (1 - p), pm)" and "0 \<le> p" and "p \<le> 1"
    and "f64_div (f64_of_nat (unat b - unat s)) (f64_of_u64 (pm_blend_period_blocks pm)) = Fin p"
proof -
  have d: "unat (b - s) = unat b - unat s" using assms(2) by (simp add: unat_sub_if' word_le_nat_alt)
  obtain p where p: "f64_div (f64_of_nat (unat b - unat s)) (f64_of_u64 (pm_blend_period_blocks pm)) = Fin p" "0 \<le> p" "p \<le> 1"
    using f64_quotient_le_1 [of "unat b - unat s" "unat (pm_blend_period_blocks pm)"] assms(3)
      unat_less_u64 [of "pm_blend_period_blocks pm"] by auto
  have "calculate_blend_factor pm b = (f64_sub (fl 1) (Fin p), pm)"
    using assms d p(1) by (simp add: calculate_blend_factor_def Let_def word_le_nat_alt leD)
  then show thesis using that p by (simp add: f64_neg_Fin)
qed

text \<open>The factor is always a number between 0 and 1.\<close>

lemma blend_factor_unit:
  obtains r where "fst (calculate_blend_factor pm b) = Fin r" and "0 \<le> r" and "r \<le> 1"
proof (cases "\<exists>s. pm_transition_start_block pm = Some s \<and> s \<le> b \<and> unat b - unat s < unat (pm_blend_period_blocks pm)")
  case True
  then obtain s where s: "pm_transition_start_block pm = Some s" "s \<le> b" "unat b - unat s < unat (pm_blend_period_blocks pm)" by blast
  obtain p where p: "calculate_blend_factor pm b = (fl (1 - p), pm)" "0 \<le> p" "p \<le> 1" by (rule blend_value [OF s])
  then show thesis using that fl_between [of 0 1 "1 - p"] by auto
next
  case False
  have "fst (calculate_blend_factor pm b) = Fin 0 \<or> fst (calculate_blend_factor pm b) = Fin 1"
  proof (cases "pm_transition_start_block pm")
    case (Some s)
    show ?thesis
    proof (cases "b < s")
      case False
      then have "unat (b - s) = unat b - unat s" by (simp add: unat_sub_if' word_le_nat_alt not_less)
      then have "pm_blend_period_blocks pm \<le> b - s"
        using \<open>\<not> (\<exists>s. _ s)\<close> Some False by (simp add: word_le_nat_alt not_less)
      then show ?thesis using Some False by (simp add: calculate_blend_factor_def Let_def)
    qed (simp add: calculate_blend_factor_def Some)
  qed (simp add: calculate_blend_factor_def)
  then show thesis using that by auto
qed

lemma is_in_blend_phase_kept: "is_in_blend_period pm b \<Longrightarrow> snd (calculate_blend_factor pm b) = pm"
  by (auto simp: is_in_blend_period_def calculate_blend_factor_def saturating_sub_def Let_def not_le split: option.splits if_splits)

section \<open>Properties\<close>

text \<open>During the transition the blend factor starts at 1, never rises from one block to a later one,
  stays between 0 and 1, and is 0 once the blend period is over.\<close>

lemma blend_factor_fades:
  assumes "pm_transition_start_block pm = Some s" and "s \<le> a" and "a \<le> b" and "0 < pm_blend_period_blocks pm"
  shows "\<exists>x y. fst (calculate_blend_factor pm a) = Fin x \<and> fst (calculate_blend_factor pm b) = Fin y \<and>
    0 \<le> y \<and> y \<le> x \<and> x \<le> 1 \<and> (a = s \<longrightarrow> x = 1) \<and> (pm_blend_period_blocks pm \<le> b - s \<longrightarrow> y = 0)"
proof -
  let ?n = "unat (pm_blend_period_blocks pm)"
  have sb: "s \<le> b" using assms(2,3) by simp
  have ab: "unat a - unat s \<le> unat b - unat s" using assms(3) by (simp add: word_le_nat_alt)
  have db: "unat (b - s) = unat b - unat s" using sb by (simp add: unat_sub_if' word_le_nat_alt)
  obtain x where x: "fst (calculate_blend_factor pm a) = Fin x" "0 \<le> x" "x \<le> 1" by (rule blend_factor_unit)
  have x1: "x = 1" if as: "a = s"
  proof -
    have "unat a - unat s < ?n" using as assms(4) by (simp add: word_less_nat_alt)
    then obtain p where p: "calculate_blend_factor pm a = (fl (1 - p), pm)" "0 \<le> p" "p \<le> 1"
        "f64_div (f64_of_nat (unat a - unat s)) (f64_of_nat ?n) = Fin p" by (rule blend_value [OF assms(1,2)])
    obtain z where z: "f64_of_nat ?n = Fin z" "0 \<le> z" "?n = 0 \<longleftrightarrow> z = 0" by (rule f64_of_nat_finite [OF unat_less_u64])
    have "z \<noteq> 0" using z(3) assms(4) by (simp add: word_less_nat_alt)
    then have "p = 0" using p(4) as z(1) by (simp add: f64_of_nat_def)
    then show ?thesis using x(1) p(1) by simp
  qed
  show ?thesis
  proof (cases "unat b - unat s < ?n")
    case True
    have "unat a - unat s < ?n" using ab True by (rule le_less_trans)
    then obtain p where p: "calculate_blend_factor pm a = (fl (1 - p), pm)" "0 \<le> p" "p \<le> 1"
        "f64_div (f64_of_nat (unat a - unat s)) (f64_of_nat ?n) = Fin p" by (rule blend_value [OF assms(1,2)])
    obtain q where q: "calculate_blend_factor pm b = (fl (1 - q), pm)" "0 \<le> q" "q \<le> 1"
        "f64_div (f64_of_nat (unat b - unat s)) (f64_of_nat ?n) = Fin q"
      by (rule blend_value [OF assms(1) sb True])
    have "p \<le> q" using f64_div_mono_left [OF ab _ p(4) q(4)] unat_less_u64 [of b] by simp
    moreover obtain y where y: "fl (1 - q) = Fin y" "0 \<le> y" using fl_between [of 0 1 "1 - q"] q(2,3) by auto
    ultimately have "y \<le> x" using fl_mono [of "1 - q" "1 - p" y x] x(1) p(1) by simp
    moreover have "\<not> pm_blend_period_blocks pm \<le> b - s" using True db by (simp add: word_le_nat_alt)
    ultimately show ?thesis using x x1 y q(1) by auto
  next
    case False
    then have "fst (calculate_blend_factor pm b) = Fin 0"
      using assms(1) sb db by (simp add: calculate_blend_factor_def Let_def word_le_nat_alt leD)
    then show ?thesis using x x1 by auto
  qed
qed

lemma blend_factor_fades_witness:
  "\<exists>x. fst (calculate_blend_factor ((phase_manager_new ivt_config_default)\<lparr>pm_transition_start_block := Some 10\<rparr>) 10) = Fin x \<and> x = 1"
  using blend_factor_fades [of "(phase_manager_new ivt_config_default)\<lparr>pm_transition_start_block := Some 10\<rparr>" 10 10 10]
  by (auto simp: phase_manager_new_def)

end
