(* ===== verification/Minting.thy ===== *)
theory Minting
  imports Phase_Manager
begin

text \<open>
  \<open>minting.rs\<close> of the \<open>tokenomics\<close> crate: the minting rate of each phase and the blend of the
  two. \<open>libm_exp\<close> is the platform's exponential function, which the standard library calls and
  whose precision it leaves open.
\<close>

record MintingConfig =
  mc_base_rate :: Amount
  mc_bootstrap_multiplier :: f64
  mc_decay_constant :: f64
  mc_min_rate :: Amount
  mc_max_rate :: Amount
  mc_sensitivity :: f64

definition minting_config_default :: MintingConfig where
  "minting_config_default = \<lparr>mc_base_rate = amount_from_u64 1000, mc_bootstrap_multiplier = fl 2,
     mc_decay_constant = fl (1 / 10000), mc_min_rate = amount_from_u64 100, mc_max_rate = amount_from_u64 2000,
     mc_sensitivity = fl 2\<rparr>"

record MintingController =
  mt_config :: MintingConfig
  mt_phase_manager :: PhaseManager
  mt_utility_index :: "UtilityIndex option"
  mt_genesis_block :: BlockNumber
  mt_total_minted :: Amount

definition minting_controller_new :: "MintingConfig \<Rightarrow> PhaseManager \<Rightarrow> BlockNumber \<Rightarrow> MintingController" where
  "minting_controller_new cfg pm genesis = \<lparr>mt_config = cfg, mt_phase_manager = pm, mt_utility_index = None,
     mt_genesis_block = genesis, mt_total_minted = amount_zero\<rparr>"

definition current_phase :: "MintingController \<Rightarrow> MintingPhase" where
  "current_phase m = pm_current_phase (mt_phase_manager m)"

definition set_utility_index :: "MintingController \<Rightarrow> UtilityIndex \<Rightarrow> MintingController" where
  "set_utility_index m ui = m\<lparr>mt_utility_index := Some ui\<rparr>"

definition calculate_phase1_rate :: "(f64 \<Rightarrow> f64) \<Rightarrow> MintingController \<Rightarrow> BlockNumber \<Rightarrow> Amount" where
  "calculate_phase1_rate libm_exp m number =
     (let t = f64_of_u64 (saturating_sub number (mt_genesis_block m));
          base = f64_of_u64 (low_u64 (mc_base_rate (mt_config m)));
          decay = libm_exp (f64_mul (f64_neg (mc_decay_constant (mt_config m))) t);
          multiplier = f64_add (fl 1) (f64_mul (mc_bootstrap_multiplier (mt_config m)) decay);
          rate = f64_mul base multiplier
      in amount_from_u64 (f64_to_u64 rate))"

definition sigmoid :: "(f64 \<Rightarrow> f64) \<Rightarrow> MintingController \<Rightarrow> f64 \<Rightarrow> f64" where
  "sigmoid libm_exp m x =
     f64_div (fl 1) (f64_add (fl 1) (libm_exp (f64_mul (f64_neg (mc_sensitivity (mt_config m))) x)))"

definition calculate_phase2_rate :: "(f64 \<Rightarrow> f64) \<Rightarrow> MintingController \<Rightarrow> (Amount, TokenomicsError) outcome" where
  "calculate_phase2_rate libm_exp m =
     and_then (ok_or (MintingError ''Utility index not set for Phase 2'') (mt_utility_index m)) (\<lambda>ui.
       let sigmoid_value = sigmoid libm_exp m (f64_sub (ui_calculate ui) (fl 1));
           min_rate = f64_of_u64 (low_u64 (mc_min_rate (mt_config m)));
           max_rate = f64_of_u64 (low_u64 (mc_max_rate (mt_config m)));
           rate = f64_add min_rate (f64_mul (f64_sub max_rate min_rate) sigmoid_value)
       in Ok (amount_from_u64 (f64_to_u64 rate)))"

definition calculate_blended_rate ::
    "(f64 \<Rightarrow> f64) \<Rightarrow> MintingController \<Rightarrow> BlockNumber \<Rightarrow> (Amount, TokenomicsError) outcome \<times> MintingController" where
  "calculate_blended_rate libm_exp m number =
     (case calculate_blend_factor (mt_phase_manager m) number of (blend_factor, pm) \<Rightarrow>
        let m1 = m\<lparr>mt_phase_manager := pm\<rparr>;
            phase1_val = f64_of_u64 (low_u64 (calculate_phase1_rate libm_exp m1 number))
        in (and_then (calculate_phase2_rate libm_exp m1) (\<lambda>phase2_rate.
              let phase2_val = f64_of_u64 (low_u64 phase2_rate);
                  blended = f64_add (f64_mul phase1_val blend_factor) (f64_mul phase2_val (f64_sub (fl 1) blend_factor))
              in Ok (amount_from_u64 (f64_to_u64 blended))), m1))"

definition get_minting_rate ::
    "(f64 \<Rightarrow> f64) \<Rightarrow> MintingController \<Rightarrow> BlockNumber \<Rightarrow> (Amount, TokenomicsError) outcome \<times> MintingController" where
  "get_minting_rate libm_exp m number =
     (if is_in_blend_period (mt_phase_manager m) number then calculate_blended_rate libm_exp m number
      else case current_phase m of
             Bootstrap \<Rightarrow> (Ok (calculate_phase1_rate libm_exp m number), m)
           | UtilityDriven \<Rightarrow> (calculate_phase2_rate libm_exp m, m))"

definition mint_for_block ::
    "(f64 \<Rightarrow> f64) \<Rightarrow> MintingController \<Rightarrow> BlockNumber \<Rightarrow> (Amount, TokenomicsError) outcome \<times> MintingController" where
  "mint_for_block libm_exp m number =
     (case get_minting_rate libm_exp m number of
        (Ok amount, m1) \<Rightarrow>
          (case amount_checked_add (mt_total_minted m1) amount of
             None \<Rightarrow> (Err (OverflowError ''Total minted overflow''), m1)
           | Some t \<Rightarrow> (Ok amount, m1\<lparr>mt_total_minted := t\<rparr>))
      | (Err e, m1) \<Rightarrow> (Err e, m1)
      | (Panic, m1) \<Rightarrow> (Panic, m1))"

definition calculate_annual_inflation ::
    "(f64 \<Rightarrow> f64) \<Rightarrow> MintingController \<Rightarrow> BlockNumber \<Rightarrow> Amount \<Rightarrow> (f64, TokenomicsError) outcome \<times> MintingController" where
  "calculate_annual_inflation libm_exp m number total_supply =
     (case get_minting_rate libm_exp m number of (r, m1) \<Rightarrow>
        (and_then r (\<lambda>rate_per_block.
           let blocks_per_year = 365 * 24 * 60 * 60 div 3;
               annual_minting = f64_mul (f64_of_u64 (low_u64 rate_per_block)) (f64_of_nat blocks_per_year);
               supply = f64_of_u64 (low_u64_or_1 total_supply)
           in Ok (f64_mul (f64_div annual_minting supply) (fl 100))), m1))"

section \<open>Phases\<close>

lemma blended_phase_kept:
  "is_in_blend_period (mt_phase_manager m) b \<Longrightarrow> snd (calculate_blended_rate libm_exp m b) = m"
  using is_in_blend_phase_kept [of "mt_phase_manager m" b]
  by (cases "calculate_blend_factor (mt_phase_manager m) b") (simp add: calculate_blended_rate_def Let_def)

lemma get_minting_rate_state: "snd (get_minting_rate libm_exp m b) = m"
  by (simp add: get_minting_rate_def blended_phase_kept split: MintingPhase.splits)

lemma mint_for_block_state:
  "snd (mint_for_block libm_exp m b) =
     (case fst (get_minting_rate libm_exp m b) of Ok amount \<Rightarrow> m\<lparr>mt_total_minted := mt_total_minted m + amount\<rparr> | _ \<Rightarrow> m)"
  "fst (mint_for_block libm_exp m b) = fst (get_minting_rate libm_exp m b)"
  using get_minting_rate_state [of libm_exp m b]
  by (auto simp: mint_for_block_def amount_checked_add_def split: prod.splits outcome.splits)

text \<open>The calls the node makes on a controller and, through it, on the phase manager.\<close>

inductive minting_step :: "MintingController \<Rightarrow> MintingController \<Rightarrow> bool" where
  mint: "mint_for_block libm_exp m b = (r, m') \<Longrightarrow> minting_step m m'"
| rate: "get_minting_rate libm_exp m b = (r, m') \<Longrightarrow> minting_step m m'"
| inflation: "calculate_annual_inflation libm_exp m b s = (i, m') \<Longrightarrow> minting_step m m'"
| index: "minting_step m (set_utility_index m ui)"
| statistics: "minting_step m (m\<lparr>mt_phase_manager := update_statistics (mt_phase_manager m) txs addrs\<rparr>)"
| announce: "announce_transition (mt_phase_manager m) b = Ok pm \<Longrightarrow> minting_step m (m\<lparr>mt_phase_manager := pm\<rparr>)"
| transition: "execute_transition now (mt_phase_manager m) b metrics = Ok (ui, pm) \<Longrightarrow>
    minting_step m (m\<lparr>mt_phase_manager := pm\<rparr>)"
| override: "execute_governance_override now (mt_phase_manager m) b metrics = Ok (ui, pm) \<Longrightarrow>
    minting_step m (m\<lparr>mt_phase_manager := pm\<rparr>)"

definition bootstrapping :: "MintingController \<Rightarrow> bool" where
  "bootstrapping m \<longleftrightarrow> current_phase m = Bootstrap"

interpretation minting: invariant_machine bootstrapping minting_step bootstrapping
proof
  fix m m'
  assume b: "bootstrapping m" and "minting_step m m'"
  from this(2) show "bootstrapping m'"
  proof cases
    case (mint libm_exp n r)
    then show ?thesis using b mint_for_block_state(1) [of libm_exp m n]
      by (simp add: bootstrapping_def current_phase_def split: outcome.splits)
  next
    case (rate libm_exp n r)
    then show ?thesis using b get_minting_rate_state [of libm_exp m n] by simp
  next
    case (inflation libm_exp n s i)
    then show ?thesis using b get_minting_rate_state [of libm_exp m n]
      by (auto simp: calculate_annual_inflation_def split: prod.splits)
  qed (use b in \<open>auto simp: bootstrapping_def current_phase_def set_utility_index_def update_statistics_def
      announce_transition_def execute_transition_def execute_governance_override_def start_transition_def
      split: if_splits option.splits\<close>)
qed

section \<open>Rates\<close>

definition exp_unit :: "(f64 \<Rightarrow> f64) \<Rightarrow> bool" where
  "exp_unit libm_exp \<longleftrightarrow> (\<forall>x. x = NInf \<or> (\<exists>q \<le> 0. x = Fin q) \<longrightarrow> (\<exists>r. libm_exp x = Fin r \<and> 0 \<le> r \<and> r \<le> 1))"

definition exp_nonneg :: "(f64 \<Rightarrow> f64) \<Rightarrow> bool" where
  "exp_nonneg libm_exp \<longleftrightarrow> (\<forall>x. x \<noteq> NaN \<longrightarrow> libm_exp x = PInf \<or> (\<exists>r \<ge> 0. libm_exp x = Fin r))"


lemma phase1_rate_range:
  assumes "exp_unit libm_exp" and "mc_decay_constant (mt_config m) = Fin \<beta>" and "0 \<le> \<beta>"
    and "mc_bootstrap_multiplier (mt_config m) = Fin (of_nat a)" and "a \<le> 2 ^ 10" and "mc_base_rate (mt_config m) \<le> 2 ^ 40"
  shows "mc_base_rate (mt_config m) \<le> calculate_phase1_rate libm_exp m b \<and>
    calculate_phase1_rate libm_exp m b \<le> mc_base_rate (mt_config m) * (1 + a)"
proof -
  let ?n = "mc_base_rate (mt_config m)"
  have un: "unat (low_u64 ?n) = ?n" using assms(6) by (simp add: low_u64_def unat_of_nat)
  have base: "f64_of_u64 (low_u64 ?n) = Fin (of_nat ?n)" unfolding un using assms(6) by (intro fl_of_nat) simp
  obtain t where t: "f64_of_u64 (saturating_sub b (mt_genesis_block m)) = Fin t" "0 \<le> t"
    using f64_of_nat_finite [OF unat_less_u64] by metis
  have "- \<beta> * t \<le> 0" using assms(3) t(2) by simp
  then have "f64_mul (f64_neg (Fin \<beta>)) (Fin t) = NInf \<or> (\<exists>r \<le> 0. f64_mul (f64_neg (Fin \<beta>)) (Fin t) = Fin r)"
    using fl_nonpos [of "- \<beta> * t"] by simp
  then obtain d where d: "libm_exp (f64_mul (f64_neg (Fin \<beta>)) (Fin t)) = Fin d" "0 \<le> d" "d \<le> 1"
    using assms(1) unfolding exp_unit_def by metis
  have "0 \<le> of_nat a * d" "of_nat a * d \<le> of_nat a" using d mult_left_mono [of d 1 "of_nat a"] by simp_all
  then obtain x where x: "fl (of_nat a * d) = Fin x" "0 \<le> x" "x \<le> of_nat a"
    using fl_between_nat [of 0 a "of_nat a * d"] assms(5) by auto
  then obtain y where y: "fl (1 + x) = Fin y" "1 \<le> y" "y \<le> of_nat (1 + a)"
    using fl_between_nat [of 1 "1 + a" "1 + x"] assms(5) by auto
  have "of_nat ?n \<le> of_nat ?n * y" "of_nat ?n * y \<le> of_nat (?n * (1 + a))"
    using y mult_left_mono [of 1 y "of_nat ?n"] mult_left_mono [OF y(3), of "of_nat ?n"]
    by (simp_all only: of_nat_mult mult_1_right of_nat_0_le_iff)
  moreover have "?n * (1 + a) \<le> 2 ^ 40 * (1 + 2 ^ 10)" using assms(5,6) by (intro mult_le_mono) simp_all
  then have na: "?n * (1 + a) \<le> 2 ^ 51" by simp
  ultimately obtain z where z: "fl (of_nat ?n * y) = Fin z" "of_nat ?n \<le> z" "z \<le> of_nat (?n * (1 + a))"
    using fl_between_nat [of ?n "?n * (1 + a)" "of_nat ?n * y"] assms(6) by auto
  have "calculate_phase1_rate libm_exp m b = f64_to_nat (2 ^ 64 - 1) (Fin z)"
    unfolding calculate_phase1_rate_def Let_def base t(1) assms(2,4) d(1) f64_mul.simps x(1) fl_1 f64_add.simps
      y(1) z(1) amount_from_u64_def unat_f64_to_u64 ..
  then show ?thesis
    using f64_to_nat_ge [OF z(2), of "2 ^ 64 - 1"] f64_to_nat_le [OF z(3), of "2 ^ 64 - 1"] assms(6) by simp
qed

lemma sigmoid_unit:
  assumes "exp_nonneg libm_exp" and "mc_sensitivity (mt_config m) = Fin k" and "x = Fin q"
  obtains s where "sigmoid libm_exp m x = Fin s" and "0 \<le> s" and "s \<le> 1"
proof -
  have "f64_mul (f64_neg (Fin k)) x \<noteq> NaN"
    by (simp add: assms(3) fl_def Let_def)
  then consider "libm_exp (f64_mul (f64_neg (Fin k)) x) = PInf"
    | r where "0 \<le> r" "libm_exp (f64_mul (f64_neg (Fin k)) x) = Fin r"
    using assms(1) unfolding exp_nonneg_def by metis
  then show thesis
  proof cases
    case 1
    then have "sigmoid libm_exp m x = Fin 0" using assms(2) by (simp add: sigmoid_def)
    then show ?thesis using that by simp
  next
    case 2
    consider "fl (1 + r) = PInf" | v where "fl (1 + r) = Fin v" "1 \<le> v"
      using fl_ge [of 1 "1 + r"] 2(1) by auto
    then show ?thesis
    proof cases
      case 1
      then have "sigmoid libm_exp m x = Fin 0" using assms(2) 2(2) by (simp add: sigmoid_def)
      then show ?thesis using that by simp
    next
      case (2 v)
      then have "0 \<le> 1 / v" "1 / v \<le> 1" by simp_all
      then obtain s where "fl (1 / v) = Fin s" "0 \<le> s" "s \<le> 1" using fl_between [of 0 1 "1 / v"] by auto
      then show ?thesis using that assms(2) 2 \<open>libm_exp _ = Fin r\<close> by (simp add: sigmoid_def)
    qed
  qed
qed

lemma phase2_rate_range:
  assumes "exp_nonneg libm_exp" and "mc_sensitivity (mt_config m) = Fin k"
    and "mt_utility_index m = Some ui" and "ui_calculate ui = Fin u" and "0 \<le> u" and "u \<le> 2 ^ 53"
    and "mc_min_rate (mt_config m) \<le> mc_max_rate (mt_config m)" and "mc_max_rate (mt_config m) \<le> 2 ^ 53"
  shows "\<exists>rate. calculate_phase2_rate libm_exp m = Ok rate \<and>
    mc_min_rate (mt_config m) \<le> rate \<and> rate \<le> mc_max_rate (mt_config m)"
proof -
  let ?lo = "mc_min_rate (mt_config m)" and ?hi = "mc_max_rate (mt_config m)"
  have ul: "unat (low_u64 ?lo) = ?lo" "unat (low_u64 ?hi) = ?hi"
    using assms(7,8) by (simp_all add: low_u64_def unat_of_nat)
  have lo: "f64_of_u64 (low_u64 ?lo) = Fin (of_nat ?lo)" unfolding ul using assms(7,8) by (intro fl_of_nat) simp
  have hi: "f64_of_u64 (low_u64 ?hi) = Fin (of_nat ?hi)" unfolding ul using assms(8) by (intro fl_of_nat)
  have rep: "representable (2 ^ 53)" using representable_of_nat [of "2 ^ 53"] by simp
  obtain q where q: "fl (u - 1) = Fin q"
    using fl_between [of "- 1" "2 ^ 53" "u - 1"] rep assms(5,6) by auto
  obtain s where s: "sigmoid libm_exp m (Fin q) = Fin s" "0 \<le> s" "s \<le> 1"
    using sigmoid_unit [OF assms(1,2)] by blast
  have sub: "fl (of_nat ?hi - of_nat ?lo) = Fin (of_nat (?hi - ?lo))"
    using fl_exact [OF representable_of_nat [of "?hi - ?lo"]] assms(7,8) by (simp add: of_nat_diff)
  have "0 \<le> of_nat (?hi - ?lo) * s" "of_nat (?hi - ?lo) * s \<le> of_nat (?hi - ?lo)"
    using s mult_left_mono [of s 1 "of_nat (?hi - ?lo)"] by simp_all
  then obtain p where p: "fl (of_nat (?hi - ?lo) * s) = Fin p" "0 \<le> p" "p \<le> of_nat (?hi - ?lo)"
    using fl_between_nat [of 0 "?hi - ?lo" "of_nat (?hi - ?lo) * s"] le_trans [OF diff_le_self assms(8)] by auto
  then have "of_nat ?lo \<le> of_nat ?lo + p" "of_nat ?lo + p \<le> of_nat ?hi" using assms(7) by (simp_all add: of_nat_diff)
  then obtain z where z: "fl (of_nat ?lo + p) = Fin z" "of_nat ?lo \<le> z" "z \<le> of_nat ?hi"
    using fl_between_nat [of ?lo ?hi "of_nat ?lo + p"] assms(7,8) by auto
  have "calculate_phase2_rate libm_exp m = Ok (f64_to_nat (2 ^ 64 - 1) (Fin z))"
    unfolding calculate_phase2_rate_def Let_def assms(3,4) lo hi ok_or.simps and_then.simps f64_neg_Fin fl_1 q s(1) sub
      f64_mul.simps p(1) f64_add.simps z(1) amount_from_u64_def unat_f64_to_u64 ..
  then show ?thesis
    using f64_to_nat_ge [OF z(2), of "2 ^ 64 - 1"] f64_to_nat_le [OF z(3), of "2 ^ 64 - 1"] assms(7,8) by auto
qed

section \<open>Properties\<close>

text \<open>The second phase is never reached by minting. Whatever calls are made on a new controller
  (minting, rate queries, statistics, announcing and executing the transition, governance override),
  it stays in the bootstrap phase, because the switch is made only when the blend factor is asked for
  after the blend period, which the rate computation never does; so once the blend period is
  over the bootstrap rate applies again.\<close>

lemma minting_never_leaves_bootstrap:
  assumes "minting_step\<^sup>*\<^sup>* (minting_controller_new cfg (phase_manager_new ivt) g) m"
  shows "current_phase m = Bootstrap \<and>
    (\<not> is_in_blend_period (mt_phase_manager m) b \<longrightarrow>
       fst (mint_for_block libm_exp m b) = Ok (calculate_phase1_rate libm_exp m b))"
proof -
  have "bootstrapping (minting_controller_new cfg (phase_manager_new ivt) g)"
    by (simp add: bootstrapping_def current_phase_def minting_controller_new_def phase_manager_new_def)
  from minting.reachable_inv [OF this assms] have "current_phase m = Bootstrap" by (simp add: bootstrapping_def)
  then show ?thesis by (simp add: mint_for_block_state get_minting_rate_def)
qed

definition demo_minting :: MintingController where
  "demo_minting = (minting_controller_new minting_config_default (phase_manager_new ivt_config_default) 0)
     \<lparr>mt_phase_manager := start_transition 7 (phase_manager_new ivt_config_default) 10 (utility_metrics_new 0) True\<rparr>"

lemma minting_never_leaves_bootstrap_witness:
  "current_phase demo_minting = Bootstrap \<and>
   fst (mint_for_block id demo_minting 900000) = Ok (calculate_phase1_rate id demo_minting 900000)"
proof -
  let ?m = "minting_controller_new minting_config_default (phase_manager_new ivt_config_default) 0"
  have "execute_governance_override 7 (mt_phase_manager ?m) 10 (utility_metrics_new 0) =
      Ok (with_baseline (utility_metrics_new 0), mt_phase_manager demo_minting)"
    by (simp add: execute_governance_override_def minting_controller_new_def phase_manager_new_def ivt_config_default_def
        demo_minting_def)
  then have "minting_step ?m (?m\<lparr>mt_phase_manager := mt_phase_manager demo_minting\<rparr>)" by (rule minting_step.override)
  then have "minting_step\<^sup>*\<^sup>* ?m demo_minting" by (simp add: demo_minting_def)
  from minting_never_leaves_bootstrap [OF this, of 900000 id]
  show ?thesis by (simp add: demo_minting_def is_in_blend_period_def start_transition_def phase_manager_new_def saturating_sub_def)
qed

text \<open>The rates stay in their documented ranges. With an exponential function that maps non-positive
  numbers into the unit interval, the bootstrap rate lies between the base rate and the base rate
  times one plus the multiplier; with one that is never negative, the utility-driven rate lies between
  the minimum and the maximum rate.\<close>

lemma minting_rates_in_range:
  assumes "exp_unit libm_exp" and "exp_nonneg libm_exp"
    and "mc_decay_constant (mt_config m) = Fin \<beta>" and "0 \<le> \<beta>"
    and "mc_bootstrap_multiplier (mt_config m) = Fin (of_nat a)" and "a \<le> 2 ^ 10" and "mc_base_rate (mt_config m) \<le> 2 ^ 40"
    and "mc_sensitivity (mt_config m) = Fin k" and "mt_utility_index m = Some ui"
    and "ui_calculate ui = Fin u" and "0 \<le> u" and "u \<le> 2 ^ 53"
    and "mc_min_rate (mt_config m) \<le> mc_max_rate (mt_config m)" and "mc_max_rate (mt_config m) \<le> 2 ^ 53"
  shows "mc_base_rate (mt_config m) \<le> calculate_phase1_rate libm_exp m b \<and>
    calculate_phase1_rate libm_exp m b \<le> mc_base_rate (mt_config m) * (1 + a) \<and>
    (\<exists>rate. calculate_phase2_rate libm_exp m = Ok rate \<and>
       mc_min_rate (mt_config m) \<le> rate \<and> rate \<le> mc_max_rate (mt_config m))"
  using phase1_rate_range [OF assms(1,3-7), of b] phase2_rate_range [OF assms(2,8-14)] by blast

lemma minting_rates_in_range_witness:
  "\<exists>rate. calculate_phase2_rate (\<lambda>x. Fin 1) (set_utility_index demo_minting (with_baseline (utility_metrics_new 0))) = Ok rate \<and>
     100 \<le> rate \<and> rate \<le> 2000"
proof -
  let ?m = "set_utility_index demo_minting (with_baseline (utility_metrics_new 0))"
  have cfg: "mt_config ?m = minting_config_default"
    by (simp add: set_utility_index_def demo_minting_def minting_controller_new_def)
  have two: "fl 2 = Fin (of_nat 2)" using fl_of_nat [of 2] by (simp add: f64_of_nat_def)
  obtain \<beta> where b: "fl (1 / 10000) = Fin \<beta>" "0 \<le> \<beta>" using fl_between [of 0 1 "1 / 10000"] by auto
  have "ui_calculate (with_baseline (utility_metrics_new 0)) = Fin 0"
    by (simp add: ui_calculate_def with_baseline_def utility_metrics_new_def contribution_def amount_is_zero_def amount_zero_def)
  then have "mc_base_rate (mt_config ?m) \<le> calculate_phase1_rate (\<lambda>x. Fin 1) ?m 0 \<and>
    calculate_phase1_rate (\<lambda>x. Fin 1) ?m 0 \<le> mc_base_rate (mt_config ?m) * (1 + 2) \<and>
    (\<exists>rate. calculate_phase2_rate (\<lambda>x. Fin 1) ?m = Ok rate \<and>
       mc_min_rate (mt_config ?m) \<le> rate \<and> rate \<le> mc_max_rate (mt_config ?m))"
    using b two
    by (intro minting_rates_in_range [where \<beta> = \<beta> and k = 2 and u = 0 and ui = "with_baseline (utility_metrics_new 0)"])
      (simp_all add: set_utility_index_def demo_minting_def minting_controller_new_def minting_config_default_def exp_unit_def exp_nonneg_def amount_from_u64_def)
  then show ?thesis by (simp add: cfg minting_config_default_def amount_from_u64_def)
qed

end
