(* ===== verification/Burning.thy ===== *)
theory Burning
  imports Utility_Index Interfaces
begin

text \<open>
  \<open>burning.rs\<close> of the \<open>tokenomics\<close> crate: the four ways tokens are burned and the totals
  the mechanism keeps of each.
\<close>

record BurnConfig =
  bc_fee_burn_rate :: u16
  bc_utility_target :: f64
  bc_enable_excess_burn :: bool

definition burn_config_default :: BurnConfig where
  "burn_config_default = \<lparr>bc_fee_burn_rate = 3000, bc_utility_target = fl (3 / 2), bc_enable_excess_burn = True\<rparr>"

datatype BurnType =
    TransactionFee hash Amount
  | ExcessUtility f64 Amount
  | Slashing address Amount
  | BuyBack Amount

record BurnRecord =
  br_burn_type :: BurnType
  br_block_number :: BlockNumber
  br_timestamp :: Timestamp

record BurningMechanism =
  bm_config :: BurnConfig
  bm_total_burned :: Amount
  bm_history :: "BurnRecord list"
  bm_fee_burns :: Amount
  bm_excess_burns :: Amount
  bm_slashing_burns :: Amount
  bm_buyback_burns :: Amount

definition burning_new :: "BurnConfig \<Rightarrow> BurningMechanism" where
  "burning_new config = \<lparr>bm_config = config, bm_total_burned = amount_zero, bm_history = [], bm_fee_burns = amount_zero,
     bm_excess_burns = amount_zero, bm_slashing_burns = amount_zero, bm_buyback_burns = amount_zero\<rparr>"

definition calculate_fee_burn :: "BurningMechanism \<Rightarrow> Amount \<Rightarrow> Amount" where
  "calculate_fee_burn bm total_fees =
     amount_from_u64 (f64_to_u64
       (f64_div (f64_mul (f64_of_u64 (low_u64 total_fees)) (f64_of_nat (unat (bc_fee_burn_rate (bm_config bm))))) (fl 10000)))"

definition burn_record :: "Timestamp \<Rightarrow> BlockNumber \<Rightarrow> BurnType \<Rightarrow> BurnRecord" where
  "burn_record now number t = \<lparr>br_burn_type = t, br_block_number = number, br_timestamp = now\<rparr>"

text \<open>The loop over the transactions: the history grows as it runs, the totals after it.\<close>

fun burn_fees_loop ::
    "crypto_lib \<Rightarrow> wire \<Rightarrow> Timestamp \<Rightarrow> BlockNumber \<Rightarrow> Transaction list \<Rightarrow> Amount \<Rightarrow> BurningMechanism
      \<Rightarrow> (Amount, TokenomicsError) outcome \<times> BurningMechanism" where
  "burn_fees_loop L W now number [] total_fee_burn bm = (Ok total_fee_burn, bm)"
| "burn_fees_loop L W now number (tx # txs) total_fee_burn bm =
     (let fee = calculate_fee tx 21000;
          burn_amount = calculate_fee_burn bm fee;
          bm1 = bm\<lparr>bm_history := bm_history bm @
            [burn_record now number (TransactionFee (transaction_hash L (enc_tx W) tx) burn_amount)]\<rparr>
      in case amount_checked_add total_fee_burn burn_amount of
           None \<Rightarrow> (Err (OverflowError ''Fee burn overflow''), bm1)
         | Some t \<Rightarrow> burn_fees_loop L W now number txs t bm1)"

definition burn_transaction_fees ::
    "crypto_lib \<Rightarrow> wire \<Rightarrow> Timestamp \<Rightarrow> BurningMechanism \<Rightarrow> Transaction list \<Rightarrow> BlockNumber
      \<Rightarrow> (Amount, TokenomicsError) outcome \<times> BurningMechanism" where
  "burn_transaction_fees L W now bm transactions number =
     (case burn_fees_loop L W now number transactions amount_zero bm of
        (Err e, bm1) \<Rightarrow> (Err e, bm1)
      | (Panic, bm1) \<Rightarrow> (Panic, bm1)
      | (Ok total_fee_burn, bm1) \<Rightarrow>
          (case amount_checked_add (bm_fee_burns bm1) total_fee_burn of
             None \<Rightarrow> (Err (OverflowError ''Total fee burns overflow''), bm1)
           | Some f \<Rightarrow>
               let bm2 = bm1\<lparr>bm_fee_burns := f\<rparr>
               in (case amount_checked_add (bm_total_burned bm2) total_fee_burn of
                     None \<Rightarrow> (Err (OverflowError ''Total burned overflow''), bm2)
                   | Some t \<Rightarrow> (Ok total_fee_burn, bm2\<lparr>bm_total_burned := t\<rparr>))))"

definition excess_burn_amount :: "BurningMechanism \<Rightarrow> f64 \<Rightarrow> Amount \<Rightarrow> Amount" where
  "excess_burn_amount bm utility_index treasury_fees =
     (let target = bc_utility_target (bm_config bm);
          excess_ratio = f64_div (f64_sub utility_index target) target;
          treasury_val = f64_of_u64 (low_u64 treasury_fees)
      in amount_from_u64 (f64_to_u64 (f64_min (f64_mul treasury_val excess_ratio) treasury_val)))"

definition burn_excess_utility ::
    "Timestamp \<Rightarrow> BurningMechanism \<Rightarrow> f64 \<Rightarrow> Amount \<Rightarrow> BlockNumber
      \<Rightarrow> (Amount, TokenomicsError) outcome \<times> BurningMechanism" where
  "burn_excess_utility now bm utility_index treasury_fees number =
     (if \<not> bc_enable_excess_burn (bm_config bm) then (Ok amount_zero, bm)
      else if f64_le utility_index (bc_utility_target (bm_config bm)) then (Ok amount_zero, bm)
      else let burn_amount = excess_burn_amount bm utility_index treasury_fees;
               bm1 = bm\<lparr>bm_history := bm_history bm @ [burn_record now number (ExcessUtility utility_index burn_amount)]\<rparr>
      in case amount_checked_add (bm_excess_burns bm1) burn_amount of
           None \<Rightarrow> (Err (OverflowError ''Excess burns overflow''), bm1)
         | Some e \<Rightarrow>
             let bm2 = bm1\<lparr>bm_excess_burns := e\<rparr>
             in (case amount_checked_add (bm_total_burned bm2) burn_amount of
                   None \<Rightarrow> (Err (OverflowError ''Total burned overflow''), bm2)
                 | Some t \<Rightarrow> (Ok burn_amount, bm2\<lparr>bm_total_burned := t\<rparr>)))"

definition burn_slashed ::
    "Timestamp \<Rightarrow> BurningMechanism \<Rightarrow> address \<Rightarrow> Amount \<Rightarrow> BlockNumber
      \<Rightarrow> (unit, TokenomicsError) outcome \<times> BurningMechanism" where
  "burn_slashed now bm validator amount number =
     (let bm1 = bm\<lparr>bm_history := bm_history bm @ [burn_record now number (Slashing validator amount)]\<rparr>
      in case amount_checked_add (bm_slashing_burns bm1) amount of
           None \<Rightarrow> (Err (OverflowError ''Slashing burns overflow''), bm1)
         | Some s \<Rightarrow>
             let bm2 = bm1\<lparr>bm_slashing_burns := s\<rparr>
             in (case amount_checked_add (bm_total_burned bm2) amount of
                   None \<Rightarrow> (Err (OverflowError ''Total burned overflow''), bm2)
                 | Some t \<Rightarrow> (Ok (), bm2\<lparr>bm_total_burned := t\<rparr>)))"

definition buyback_and_burn ::
    "Timestamp \<Rightarrow> BurningMechanism \<Rightarrow> Amount \<Rightarrow> BlockNumber \<Rightarrow> (unit, TokenomicsError) outcome \<times> BurningMechanism" where
  "buyback_and_burn now bm amount number =
     (let bm1 = bm\<lparr>bm_history := bm_history bm @ [burn_record now number (BuyBack amount)]\<rparr>
      in case amount_checked_add (bm_buyback_burns bm1) amount of
           None \<Rightarrow> (Err (OverflowError ''Buyback burns overflow''), bm1)
         | Some s \<Rightarrow>
             let bm2 = bm1\<lparr>bm_buyback_burns := s\<rparr>
             in (case amount_checked_add (bm_total_burned bm2) amount of
                   None \<Rightarrow> (Err (OverflowError ''Total burned overflow''), bm2)
                 | Some t \<Rightarrow> (Ok (), bm2\<lparr>bm_total_burned := t\<rparr>)))"

record BurnBreakdown =
  bb_total :: Amount
  bb_fee_burns :: Amount
  bb_excess_burns :: Amount
  bb_slashing_burns :: Amount
  bb_buyback_burns :: Amount

definition burn_breakdown :: "BurningMechanism \<Rightarrow> BurnBreakdown" where
  "burn_breakdown bm = \<lparr>bb_total = bm_total_burned bm, bb_fee_burns = bm_fee_burns bm,
     bb_excess_burns = bm_excess_burns bm, bb_slashing_burns = bm_slashing_burns bm,
     bb_buyback_burns = bm_buyback_burns bm\<rparr>"

definition calculate_burn_rate :: "BurningMechanism \<Rightarrow> Amount \<Rightarrow> f64" where
  "calculate_burn_rate bm total_minted =
     (if amount_is_zero total_minted then Fin 0
      else f64_mul (f64_div (f64_of_u64 (low_u64 (bm_total_burned bm))) (f64_of_u64 (low_u64_or_1 total_minted))) (fl 100))"

definition update_burn_config :: "BurningMechanism \<Rightarrow> BurnConfig \<Rightarrow> BurningMechanism" where
  "update_burn_config bm config = bm\<lparr>bm_config := config\<rparr>"

section \<open>The accounts\<close>

fun fee_part :: "BurnType \<Rightarrow> nat" where
  "fee_part (TransactionFee h a) = a"
| "fee_part _ = 0"

fun excess_part :: "BurnType \<Rightarrow> nat" where
  "excess_part (ExcessUtility u a) = a"
| "excess_part _ = 0"

fun slashing_part :: "BurnType \<Rightarrow> nat" where
  "slashing_part (Slashing v a) = a"
| "slashing_part _ = 0"

fun buyback_part :: "BurnType \<Rightarrow> nat" where
  "buyback_part (BuyBack a) = a"
| "buyback_part _ = 0"

definition history_sum :: "(BurnType \<Rightarrow> nat) \<Rightarrow> BurningMechanism \<Rightarrow> nat" where
  "history_sum part bm = sum_list (map (\<lambda>r. part (br_burn_type r)) (bm_history bm))"

definition burning_ok :: "BurningMechanism \<Rightarrow> bool" where
  "burning_ok bm \<longleftrightarrow>
     bm_fee_burns bm = history_sum fee_part bm \<and> bm_excess_burns bm = history_sum excess_part bm \<and>
     bm_slashing_burns bm = history_sum slashing_part bm \<and> bm_buyback_burns bm = history_sum buyback_part bm \<and>
     bm_total_burned bm = bm_fee_burns bm + bm_excess_burns bm + bm_slashing_burns bm + bm_buyback_burns bm"

lemma burn_fees_loop_result:
  "\<exists>recs. burn_fees_loop L W now number txs t bm =
     (Ok (t + sum_list (map (\<lambda>r. fee_part (br_burn_type r)) recs)), bm\<lparr>bm_history := bm_history bm @ recs\<rparr>) \<and>
     (\<forall>r \<in> set recs. \<exists>h a. br_burn_type r = TransactionFee h a)"
proof (induction txs arbitrary: t bm)
  case Nil
  have "bm\<lparr>bm_history := bm_history bm @ []\<rparr> = bm" by simp
  then show ?case by (intro exI [of _ "[]"]) simp
next
  case (Cons tx txs)
  let ?a = "calculate_fee_burn bm (calculate_fee tx 21000)"
  let ?r = "burn_record now number (TransactionFee (transaction_hash L (enc_tx W) tx) ?a)"
  obtain recs where "burn_fees_loop L W now number txs (t + ?a) (bm\<lparr>bm_history := bm_history bm @ [?r]\<rparr>) =
      (Ok (t + ?a + sum_list (map (\<lambda>r. fee_part (br_burn_type r)) recs)),
       bm\<lparr>bm_history := bm_history bm @ [?r]\<rparr>\<lparr>bm_history := bm_history (bm\<lparr>bm_history := bm_history bm @ [?r]\<rparr>) @ recs\<rparr>)"
      "\<forall>r \<in> set recs. \<exists>h a. br_burn_type r = TransactionFee h a"
    using Cons.IH [of "t + ?a" "bm\<lparr>bm_history := bm_history bm @ [?r]\<rparr>"] by blast
  then show ?case
    by (intro exI [of _ "?r # recs"]) (simp add: Let_def amount_checked_add_def burn_record_def)
qed

lemma fee_records_parts:
  assumes "\<forall>r \<in> set recs. \<exists>h a. br_burn_type r = TransactionFee h a"
  shows "sum_list (map (\<lambda>r. excess_part (br_burn_type r)) recs) = 0"
    and "sum_list (map (\<lambda>r. slashing_part (br_burn_type r)) recs) = 0"
    and "sum_list (map (\<lambda>r. buyback_part (br_burn_type r)) recs) = 0"
  using assms by (induction recs) auto

lemma burning_ok_fees:
  assumes "burn_transaction_fees L W now bm txs number = (r, bm')" and "burning_ok bm"
  shows "burning_ok bm'"
proof -
  obtain recs where l: "burn_fees_loop L W now number txs amount_zero bm =
      (Ok (amount_zero + sum_list (map (\<lambda>r. fee_part (br_burn_type r)) recs)), bm\<lparr>bm_history := bm_history bm @ recs\<rparr>)"
      and t: "\<forall>r \<in> set recs. \<exists>h a. br_burn_type r = TransactionFee h a"
    using burn_fees_loop_result by blast
  then show ?thesis using assms fee_records_parts [OF t]
    by (auto simp: burn_transaction_fees_def amount_checked_add_def amount_zero_def burning_ok_def history_sum_def Let_def)
qed

inductive burning_step :: "BurningMechanism \<Rightarrow> BurningMechanism \<Rightarrow> bool" where
  fees: "burn_transaction_fees L W now bm txs number = (r, bm') \<Longrightarrow> burning_step bm bm'"
| excess: "burn_excess_utility now bm ui fees number = (r, bm') \<Longrightarrow> burning_step bm bm'"
| slashed: "burn_slashed now bm validator amount number = (s, bm') \<Longrightarrow> burning_step bm bm'"
| buyback: "buyback_and_burn now bm amount number = (s, bm') \<Longrightarrow> burning_step bm bm'"
| config: "burning_step bm (update_burn_config bm config)"

interpretation burning: invariant_machine "\<lambda>bm. \<exists>config. bm = burning_new config" burning_step burning_ok
proof
  show "burning_ok bm" if "\<exists>config. bm = burning_new config" for bm
    using that by (auto simp: burning_ok_def burning_new_def history_sum_def amount_zero_def)
  fix bm bm'
  assume ok: "burning_ok bm" and "burning_step bm bm'"
  from this(2) show "burning_ok bm'"
  proof cases
    case fees
    then show ?thesis using ok by (rule burning_ok_fees)
  qed (use ok in \<open>auto simp: burn_excess_utility_def burn_slashed_def buyback_and_burn_def update_burn_config_def
      amount_checked_add_def amount_zero_def burning_ok_def history_sum_def burn_record_def Let_def split: if_splits\<close>)
qed

section \<open>Amounts\<close>

lemma excess_burn_le:
  assumes "treasury_fees \<le> 2 ^ 53"
  shows "excess_burn_amount bm ui treasury_fees \<le> treasury_fees"
proof -
  have u: "unat (low_u64 treasury_fees) = treasury_fees" using assms by (simp add: low_u64_def unat_of_nat)
  have t: "f64_of_nat treasury_fees = Fin (of_nat treasury_fees)" using assms by (rule fl_of_nat)
  have "f64_to_nat hi (f64_min x (Fin (of_nat treasury_fees))) \<le> treasury_fees" for x hi
  proof (cases x)
    case (Fin a)
    then show ?thesis using f64_to_nat_le [of a treasury_fees hi] f64_to_nat_le [of "of_nat treasury_fees" treasury_fees hi]
      by (simp add: f64_min_def del: f64_to_nat.simps)
  qed (use f64_to_nat_le [of "of_nat treasury_fees" treasury_fees hi] in \<open>simp_all add: f64_min_def del: f64_to_nat.simps(1)\<close>)
  then show ?thesis by (simp add: excess_burn_amount_def Let_def u t amount_from_u64_def unat_f64_to_u64)
qed

section \<open>Properties\<close>

text \<open>In every state the burning mechanism reaches, each of its four totals is the sum of the burns of that
  kind in its history, and the overall total is the sum of the four.\<close>

lemma burning_totals_reachable:
  assumes "burning_step\<^sup>*\<^sup>* (burning_new config) bm"
  shows "burning_ok bm"
  using assms by (intro burning.reachable_inv) blast

lemma burning_totals_reachable_witness:
  "burning_ok (snd (buyback_and_burn 7 (burning_new burn_config_default) 500 3))"
proof (rule burning_totals_reachable [where config = burn_config_default], rule r_into_rtranclp, rule burning_step.buyback)
  show "buyback_and_burn 7 (burning_new burn_config_default) 500 3 =
      (fst (buyback_and_burn 7 (burning_new burn_config_default) 500 3), snd (buyback_and_burn 7 (burning_new burn_config_default) 500 3))"
    by simp
qed

text \<open>A burn never takes more than there is: the burned share of fees below \<open>2^38\<close> is exactly the
  configured rate of them rounded down, at most the fees, and burning excess utility takes at most
  the treasury's fees, up to \<open>2^53\<close>, however large the utility index.\<close>

lemma burn_amounts_bounded:
  assumes "fees < 2 ^ 38" and "bc_fee_burn_rate (bm_config bm) \<le> 10000" and "treasury_fees \<le> 2 ^ 53"
  shows "calculate_fee_burn bm fees = fees * unat (bc_fee_burn_rate (bm_config bm)) div 10000 \<and>
    calculate_fee_burn bm fees \<le> fees \<and>
    (\<forall>amount. fst (burn_excess_utility now bm ui treasury_fees number) = Ok amount \<longrightarrow> amount \<le> treasury_fees)"
proof (intro conjI)
  let ?r = "unat (bc_fee_burn_rate (bm_config bm))"
  have u: "unat (low_u64 fees) = fees" using assms(1) by (simp add: low_u64_def unat_of_nat)
  have r: "?r \<le> 10000" using assms(2) by (simp add: word_le_nat_alt)
  show f: "calculate_fee_burn bm fees = fees * ?r div 10000"
    unfolding calculate_fee_burn_def amount_from_u64_def u by (rule basis_points_exact [OF assms(1) r])
  have "fees * ?r \<le> fees * 10000" using r by simp
  then have "fees * ?r div 10000 \<le> fees * 10000 div 10000" by (rule div_le_mono)
  then show "calculate_fee_burn bm fees \<le> fees" unfolding f by simp
  show "\<forall>amount. fst (burn_excess_utility now bm ui treasury_fees number) = Ok amount \<longrightarrow> amount \<le> treasury_fees"
    using excess_burn_le [OF assms(3)]
    by (auto simp: burn_excess_utility_def amount_zero_def Let_def amount_checked_add_def)
qed

lemma burn_amounts_bounded_witness:
  "calculate_fee_burn (burning_new burn_config_default) 21000 = 6300"
  using burn_amounts_bounded [of 21000 "burning_new burn_config_default" 0]
  by (simp add: burning_new_def burn_config_default_def)

end
