(* ===== verification/Rewards.thy ===== *)
theory Rewards
  imports Phase_Manager
begin

text \<open>
  \<open>rewards.rs\<close> of the \<open>tokenomics\<close> crate: the reward of a validator in each phase, its
  commission, and the distribution over a list of validators.
\<close>

record RewardCalculation =
  rc_validator :: address
  rc_base_reward :: Amount
  rc_stake_weight :: f64
  rc_time_factor :: f64
  rc_block_bonus :: f64
  rc_utility_factor :: "f64 option"
  rc_final_reward :: Amount
  rc_commission :: Amount
  rc_net_reward :: Amount

record RewardDistributor =
  rd_phase :: MintingPhase
  rd_utility_index :: "UtilityIndex option"
  rd_history :: "RewardCalculation list"

definition distributor_new :: "MintingPhase \<Rightarrow> RewardDistributor" where
  "distributor_new phase = \<lparr>rd_phase = phase, rd_utility_index = None, rd_history = []\<rparr>"

definition distributor_set_utility_index :: "RewardDistributor \<Rightarrow> UtilityIndex \<Rightarrow> RewardDistributor" where
  "distributor_set_utility_index d ui = d\<lparr>rd_utility_index := Some ui\<rparr>"

definition set_phase :: "RewardDistributor \<Rightarrow> MintingPhase \<Rightarrow> RewardDistributor" where
  "set_phase d phase = d\<lparr>rd_phase := phase\<rparr>"

definition block_bonus :: "bool \<Rightarrow> f64" where
  "block_bonus produced_block = (if produced_block then fl (12 / 10) else fl 1)"

text \<open>The last lines of both calculations: the reward, the commission on it and what is left.\<close>

definition finish_reward :: "ValidatorInfo \<Rightarrow> f64 \<Rightarrow> f64 \<Rightarrow> f64 \<Rightarrow> f64 option \<Rightarrow> f64 \<Rightarrow> RewardCalculation" where
  "finish_reward v weight time_factor bonus utility_factor base_reward_val =
     (let base_reward = amount_from_u64 (f64_to_u64 base_reward_val);
          commission_val = f64_div (f64_mul base_reward_val (f64_of_nat (unat (vi_commission_rate v)))) (fl 10000);
          commission = amount_from_u64 (f64_to_u64 commission_val);
          net_reward = (case amount_checked_sub base_reward commission of Some n \<Rightarrow> n | None \<Rightarrow> base_reward)
      in \<lparr>rc_validator = vi_address v, rc_base_reward = base_reward, rc_stake_weight = weight,
          rc_time_factor = time_factor, rc_block_bonus = bonus, rc_utility_factor = utility_factor,
          rc_final_reward = base_reward, rc_commission = commission, rc_net_reward = net_reward\<rparr>)"

definition calculate_phase1_reward ::
    "ValidatorInfo \<Rightarrow> Amount \<Rightarrow> StakeAmount \<Rightarrow> u64 \<Rightarrow> bool \<Rightarrow> (RewardCalculation, TokenomicsError) outcome" where
  "calculate_phase1_reward v network_mint total_staked blocks_staked produced_block =
     (let stake_weight =
            (if \<not> amount_is_zero total_staked
             then f64_div (f64_of_u64 (low_u64 (vi_stake v))) (f64_of_u64 (low_u64_or_1 total_staked))
             else Fin 0);
          time_factor = f64_min (f64_div (f64_of_u64 blocks_staked) (fl 100000)) (fl 1);
          bonus = block_bonus produced_block;
          network_mint_val = f64_of_u64 (low_u64 network_mint);
          base_reward_val = f64_mul (f64_mul (f64_mul network_mint_val stake_weight) time_factor) bonus
      in Ok (finish_reward v stake_weight time_factor bonus None base_reward_val))"

definition calculate_phase2_reward ::
    "ValidatorInfo \<Rightarrow> Amount \<Rightarrow> f64 \<Rightarrow> f64 \<Rightarrow> bool \<Rightarrow> (RewardCalculation, TokenomicsError) outcome" where
  "calculate_phase2_reward v network_mint total_utility validator_utility produced_block =
     (let utility_weight = (if f64_lt (Fin 0) total_utility then f64_div validator_utility total_utility else Fin 0);
          bonus = block_bonus produced_block;
          network_mint_val = f64_of_u64 (low_u64 network_mint);
          base_reward_val = f64_mul (f64_mul network_mint_val utility_weight) bonus
      in Ok (finish_reward v utility_weight (fl 1) bonus (Some utility_weight) base_reward_val))"

definition calculate_validator_utility :: "ValidatorInfo \<Rightarrow> f64" where
  "calculate_validator_utility v =
     (let base_contribution = f64_of_u64 (utility_score_value (vi_utility_score v));
          liquidity_factor =
            (if \<not> amount_is_zero (vi_stake v)
             then f64_div (f64_of_u64 (low_u64 (vi_liquidity_deployed v))) (f64_of_u64 (low_u64_or_1 (vi_stake v)))
             else Fin 0);
          uptime_factor = f64_div (f64_of_nat (unat (vi_uptime v))) (fl 10000)
      in f64_mul (f64_mul base_contribution (f64_add (fl 1) liquidity_factor)) uptime_factor)"

fun distribute_loop ::
    "(ValidatorInfo \<Rightarrow> (RewardCalculation, TokenomicsError) outcome) \<Rightarrow> ValidatorInfo list
      \<Rightarrow> (address, RewardCalculation) fmap \<Rightarrow> RewardDistributor
      \<Rightarrow> ((address, RewardCalculation) fmap, TokenomicsError) outcome \<times> RewardDistributor" where
  "distribute_loop calc [] rewards d = (Ok rewards, d)"
| "distribute_loop calc (v # vs) rewards d =
     (case calc v of
        Ok reward \<Rightarrow> distribute_loop calc vs (fmupd (vi_address v) reward rewards) (d\<lparr>rd_history := rd_history d @ [reward]\<rparr>)
      | Err e \<Rightarrow> (Err e, d)
      | Panic \<Rightarrow> (Panic, d))"

definition distribute_rewards ::
    "RewardDistributor \<Rightarrow> ValidatorInfo list \<Rightarrow> Amount \<Rightarrow> StakeAmount \<Rightarrow> address option
      \<Rightarrow> ((address, RewardCalculation) fmap, TokenomicsError) outcome \<times> RewardDistributor" where
  "distribute_rewards d validators network_mint total_staked produced_by =
     (case rd_phase d of
        Bootstrap \<Rightarrow>
          distribute_loop (\<lambda>v. calculate_phase1_reward v network_mint total_staked 100000 (produced_by = Some (vi_address v)))
            validators fmempty d
      | UtilityDriven \<Rightarrow>
          (case rd_utility_index d of
             None \<Rightarrow> (Err (RewardDistributionError ''Utility index not set for Phase 2''), d)
           | Some ui \<Rightarrow>
               let total_utility = foldl f64_add (Fin 0) (map calculate_validator_utility validators)
               in distribute_loop (\<lambda>v. calculate_phase2_reward v network_mint total_utility (calculate_validator_utility v)
                      (produced_by = Some (vi_address v))) validators fmempty d))"

definition total_distributed :: "RewardDistributor \<Rightarrow> Amount" where
  "total_distributed d =
     foldl (\<lambda>acc r. case amount_checked_add acc (rc_final_reward r) of Some x \<Rightarrow> x | None \<Rightarrow> acc) amount_zero (rd_history d)"

definition validator_total_rewards :: "RewardDistributor \<Rightarrow> address \<Rightarrow> Amount" where
  "validator_total_rewards d addr =
     foldl (\<lambda>acc r. case amount_checked_add acc (rc_final_reward r) of Some x \<Rightarrow> x | None \<Rightarrow> acc) amount_zero
       (filter (\<lambda>r. rc_validator r = addr) (rd_history d))"

section \<open>Commission\<close>

text \<open>A commission below 100 per cent, rounded twice and truncated, does not exceed the truncated reward.\<close>

lemma two_roundings_below:
  assumes "1 \<le> r" and "r \<le> 2 ^ 64" and "c \<le> 9999" and "fl (r * of_nat c) = Fin a" and "fl (a / 10000) = Fin b"
  shows "b \<le> r"
proof (cases "c = 0")
  case True
  then show ?thesis using assms(1,4,5) by simp
next
  case False
  then have c: "1 \<le> (of_nat c :: rat)" by (simp add: Suc_le_eq)
  have c2: "(of_nat c :: rat) \<le> 9999" using of_nat_mono [OF assms(3), where 'a = rat] by simp
  have rc: "1 \<le> r * of_nat c" using mult_mono [of 1 r 1 "of_nat c"] assms(1) c by simp
  have a: "a \<le> r * of_nat c * (1 + 1 / 2 ^ 53)"
    using round53_upper [OF rc] assms(4) by (auto simp: fl_def Let_def split: if_splits)
  also have "\<dots> \<le> r * 9999 * (1 + 1 / 2 ^ 53)"
    using c2 assms(1) by (intro mult_right_mono mult_left_mono) simp_all
  finally have a2: "a / 10000 * (1 + 1 / 2 ^ 53) \<le> r * 9999 * (1 + 1 / 2 ^ 53) / 10000 * (1 + 1 / 2 ^ 53)"
    by (intro mult_right_mono divide_right_mono) simp_all
  show ?thesis
  proof (cases "1 \<le> a / 10000")
    case True
    have "b \<le> a / 10000 * (1 + 1 / 2 ^ 53)"
      using round53_upper [OF True] assms(5) by (auto simp: fl_def Let_def split: if_splits)
    also have "\<dots> \<le> r * 9999 * (1 + 1 / 2 ^ 53) / 10000 * (1 + 1 / 2 ^ 53)" by (rule a2)
    also have "\<dots> = r * (9999 * (1 + 1 / 2 ^ 53) / 10000 * (1 + 1 / 2 ^ 53))" by simp
    also have "\<dots> \<le> r * 1" using assms(1) by (intro mult_left_mono) simp_all
    finally show ?thesis by simp
  next
    case False
    then have "round53 (a / 10000) \<le> 1" by (intro round53_le) simp_all
    then have "b \<le> 1" using assms(5) by (auto simp: fl_def Let_def split: if_splits)
    then show ?thesis using assms(1) by simp
  qed
qed

lemma commission_small:
  assumes "0 < r" and "r < 1" and "c \<le> 9999"
  shows "f64_to_nat hi (f64_div (f64_mul (Fin r) (f64_of_nat c)) (fl 10000)) = 0"
proof -
  have c: "f64_of_nat c = Fin (of_nat c)" using assms(3) by (intro fl_of_nat) simp
  have "r * of_nat c \<le> 1 * of_nat c" using assms(2) by (intro mult_right_mono) simp_all
  then obtain a where a: "fl (r * of_nat c) = Fin a" "0 \<le> a" "a \<le> of_nat c"
    using fl_between_nat [of 0 c "r * of_nat c"] assms(1,3) by auto
  have "a \<le> 9999" using a(3) of_nat_mono [OF assms(3), where 'a = rat] by simp
  then have "a / 10000 \<le> of_nat (2 ^ 14 - 1) / 2 ^ 14" by simp
  moreover have "representable (of_nat (2 ^ 14 - 1) / 2 ^ 14)" by (rule representable_dyadic) simp
  ultimately obtain b where b: "fl (a / 10000) = Fin b" "0 \<le> b" "b \<le> of_nat (2 ^ 14 - 1) / 2 ^ 14"
    using fl_between [of 0 "of_nat (2 ^ 14 - 1) / 2 ^ 14" "a / 10000"] a(2) by auto
  have "b < 1" using b(3) by simp
  then have "\<lfloor>b\<rfloor> = 0" using b(2) by (simp add: floor_eq_iff)
  moreover have t: "fl 10000 = Fin 10000" by (rule fl_exact, rule representable_numeral) simp
  ultimately show ?thesis using a(1) b(1) by (simp add: c)
qed

lemma commission_large:
  assumes "1 \<le> r" and "r \<le> 2 ^ 64" and "c \<le> 9999"
  shows "f64_to_nat hi (f64_div (f64_mul (Fin r) (f64_of_nat c)) (fl 10000)) \<le> f64_to_nat hi (Fin r)"
proof -
  have c: "f64_of_nat c = Fin (of_nat c)" using assms(3) by (intro fl_of_nat) simp
  have t: "fl 10000 = Fin 10000" by (rule fl_exact, rule representable_numeral) simp
  have "(of_nat c :: rat) \<le> 9999" using of_nat_mono [OF assms(3), where 'a = rat] by simp
  then have "r * of_nat c \<le> 2 ^ 64 * 9999" using assms(1,2) by (intro mult_mono) simp_all
  also have "\<dots> \<le> 2 ^ 78" by simp
  finally obtain a where a: "fl (r * of_nat c) = Fin a" "0 \<le> a" "a \<le> 2 ^ 78"
    using fl_between [of 0 "2 ^ 78" "r * of_nat c"] representable_pow2 [of 78] assms(1) by auto
  then obtain b where b: "fl (a / 10000) = Fin b" "0 \<le> b"
    using fl_between [of 0 "2 ^ 78" "a / 10000"] representable_pow2 [of 78] by auto
  have "b \<le> r" using assms a(1) b(1) by (rule two_roundings_below)
  then have "nat \<lfloor>b\<rfloor> \<le> nat \<lfloor>r\<rfloor>" by (intro nat_mono floor_mono)
  then show ?thesis using a(1) b assms(1) by (auto simp: c t min_le_iff_disj)
qed

lemma commission_le:
  assumes "c \<le> 9999" and "hi \<le> 2 ^ 64"
  shows "f64_to_nat hi (f64_div (f64_mul x (f64_of_nat c)) (fl 10000)) \<le> f64_to_nat hi x"
proof (cases x)
  case (Fin r)
  consider "r \<le> 0" | "0 < r" "r < 1" | "1 \<le> r" "r \<le> 2 ^ 64" | "2 ^ 64 < r" by linarith
  then show ?thesis
  proof cases
    case 1
    have c: "f64_of_nat c = Fin (of_nat c)" using assms(1) by (intro fl_of_nat) simp
    have t: "fl 10000 = Fin 10000" by (rule fl_exact, rule representable_numeral) simp
    have "r * of_nat c \<le> 0" using 1 by (simp add: mult_nonpos_nonneg)
    then consider "fl (r * of_nat c) = NInf" | a where "a \<le> 0" "fl (r * of_nat c) = Fin a" using fl_nonpos by blast
    then show ?thesis
    proof cases
      case 1
      then show ?thesis by (simp add: Fin c t inf_of_sign_def)
    next
      case (2 a)
      then have "a / 10000 \<le> 0" by simp
      then consider "fl (a / 10000) = NInf" | b where "b \<le> 0" "fl (a / 10000) = Fin b" using fl_nonpos by blast
      then show ?thesis using 2 by cases (simp_all add: Fin c t)
    qed
  next
    case 2
    then show ?thesis using commission_small [OF 2 assms(1), of hi] Fin by simp
  next
    case 3
    then show ?thesis using commission_large [OF 3 assms(1)] Fin by simp
  next
    case 4
    have "hi \<le> 2 ^ 64" by (rule assms(2))
    then have "(of_nat hi :: rat) \<le> of_nat (2 ^ 64)" by (rule of_nat_mono)
    then have "hi \<le> f64_to_nat hi (Fin r)" using 4 by (intro f64_to_nat_ge) simp_all
    then show ?thesis using f64_to_nat_bound Fin by (metis le_trans)
  qed
next
  case PInf
  then show ?thesis using f64_to_nat_bound by simp
next
  case NInf
  have c: "f64_of_nat c = Fin (of_nat c)" using assms(1) by (intro fl_of_nat) simp
  have t: "fl 10000 = Fin 10000" by (rule fl_exact, rule representable_numeral) simp
  show ?thesis unfolding NInf c t by (cases "c = 0") (simp_all add: inf_of_sign_def)
qed simp

lemma finish_reward_split:
  assumes "vi_commission_rate v < 10000"
  shows "rc_net_reward (finish_reward v w t b u x) + rc_commission (finish_reward v w t b u x) =
    rc_final_reward (finish_reward v w t b u x)"
proof -
  have "unat (vi_commission_rate v) \<le> 9999" using assms by (simp add: word_less_nat_alt)
  then have "f64_to_nat (2 ^ 64 - 1) (f64_div (f64_mul x (f64_of_nat (unat (vi_commission_rate v)))) (fl 10000)) \<le>
      f64_to_nat (2 ^ 64 - 1) x" by (intro commission_le) simp_all
  then show ?thesis
    by (simp add: finish_reward_def Let_def amount_from_u64_def unat_f64_to_u64 amount_checked_sub_def)
qed

section \<open>Distribution\<close>

lemma distribute_loop_result:
  assumes "\<And>v. v \<in> set vs \<Longrightarrow> calc v = Ok (f v)"
  shows "distribute_loop calc vs rewards d =
    (Ok (fold (\<lambda>v m. fmupd (vi_address v) (f v) m) vs rewards), d\<lparr>rd_history := rd_history d @ map f vs\<rparr>)"
  using assms by (induction vs arbitrary: rewards d) simp_all

lemma total_distributed_sum: "total_distributed d = sum_list (map rc_final_reward (rd_history d))"
  by (simp add: total_distributed_def foldl_amounts amount_zero_def)

definition is_reward_of :: "ValidatorInfo \<Rightarrow> RewardCalculation \<Rightarrow> bool" where
  "is_reward_of v r \<longleftrightarrow> (\<exists>w t b u x. r = finish_reward v w t b u x)"

lemma is_reward_of_finish [simp]: "is_reward_of v (finish_reward v w t b u x)"
  unfolding is_reward_of_def by blast

lemma is_reward_ofD:
  assumes "is_reward_of v r"
  shows "rc_validator r = vi_address v"
    and "vi_commission_rate v < 10000 \<Longrightarrow> rc_net_reward r + rc_commission r = rc_final_reward r"
  using assms finish_reward_split by (auto simp: is_reward_of_def finish_reward_def Let_def)

section \<open>Properties\<close>

text \<open>Every distribution of rewards that succeeds pays exactly the listed validators once, in order: the
  history grows by one entry each and the distributed total by their final rewards, in the
  bootstrap phase it always succeeds, and for every validator with a commission below 100 per cent
  what it keeps and the commission add up to its reward, despite the floating point in between.\<close>

lemma distribute_rewards_correct:
  fixes d vs mint stake producer
  defines "res \<equiv> distribute_rewards d vs mint stake producer"
  shows "(rd_phase d = Bootstrap \<longrightarrow> is_ok (fst res)) \<and>
    (is_ok (fst res) \<longrightarrow>
       (\<exists>entries. rd_history (snd res) = rd_history d @ entries \<and> map rc_validator entries = map vi_address vs \<and>
          total_distributed (snd res) = total_distributed d + sum_list (map rc_final_reward entries) \<and>
          (\<forall>i < length vs. vi_commission_rate (vs ! i) < 10000 \<longrightarrow>
             rc_net_reward (entries ! i) + rc_commission (entries ! i) = rc_final_reward (entries ! i))))"
proof -
  have split: "\<exists>entries. rd_history (d\<lparr>rd_history := rd_history d @ map f vs\<rparr>) = rd_history d @ entries \<and>
      map rc_validator entries = map vi_address vs \<and>
      total_distributed (d\<lparr>rd_history := rd_history d @ map f vs\<rparr>) = total_distributed d + sum_list (map rc_final_reward entries) \<and>
      (\<forall>i < length vs. vi_commission_rate (vs ! i) < 10000 \<longrightarrow>
         rc_net_reward (entries ! i) + rc_commission (entries ! i) = rc_final_reward (entries ! i))"
    if f: "\<And>v. is_reward_of v (f v)" for f
  proof (intro exI [of _ "map f vs"] conjI)
    show "map rc_validator (map f vs) = map vi_address vs" using is_reward_ofD(1) [OF f] by simp
    show "\<forall>i < length vs. vi_commission_rate (vs ! i) < 10000 \<longrightarrow>
         rc_net_reward (map f vs ! i) + rc_commission (map f vs ! i) = rc_final_reward (map f vs ! i)"
      using is_reward_ofD(2) [OF f] by simp
  qed (simp_all add: total_distributed_sum)
  show ?thesis
  proof (cases "rd_phase d = UtilityDriven \<and> rd_utility_index d = None")
    case True
    then show ?thesis by (simp add: res_def distribute_rewards_def)
  next
    case False
    then obtain f where "res = (Ok (fold (\<lambda>v m. fmupd (vi_address v) (f v) m) vs fmempty), d\<lparr>rd_history := rd_history d @ map f vs\<rparr>)"
        and "\<And>v. is_reward_of v (f v)"
    proof (cases "rd_phase d")
      case Bootstrap
      show ?thesis
        by (rule that [of "\<lambda>v. case calculate_phase1_reward v mint stake 100000 (producer = Some (vi_address v)) of Ok r \<Rightarrow> r"])
          (auto simp: res_def distribute_rewards_def Bootstrap calculate_phase1_reward_def Let_def intro!: distribute_loop_result)
    next
      case UtilityDriven
      then obtain ui where ui: "rd_utility_index d = Some ui" using False by (cases "rd_utility_index d") auto
      let ?t = "foldl f64_add (Fin 0) (map calculate_validator_utility vs)"
      show ?thesis
        by (rule that [of "\<lambda>v. case calculate_phase2_reward v mint ?t (calculate_validator_utility v) (producer = Some (vi_address v)) of Ok r \<Rightarrow> r"])
          (auto simp: res_def distribute_rewards_def UtilityDriven ui calculate_phase2_reward_def Let_def intro!: distribute_loop_result)
    qed
    then show ?thesis using split [of f] by simp
  qed
qed

lemma distribute_rewards_correct_witness:
  "is_ok (fst (distribute_rewards (distributor_new Bootstrap) [validator_new 7 1 20000 500] 1000 20000 (Some 1)))"
  using distribute_rewards_correct [of "distributor_new Bootstrap" "[validator_new 7 1 20000 500]" 1000 20000 "Some 1"]
  by (simp add: distributor_new_def)

end
