(* ===== verification/Liquidity_Pool.thy ===== *)
theory Liquidity_Pool
  imports Utility_Index Interfaces "HOL-Library.Multiset"
begin

text \<open>
  \<open>pool.rs\<close> and the error type of the \<open>liquidity\<close> crate: the pool that holds validators'
  deposits and pays them out after an unbonding period. \<open>now\<close> is the clock; the
  enumeration of the hash map of pending withdrawals is an argument.
\<close>

datatype LiquidityError =
    PoolError string
  | DeploymentError string
  | RiskError string
  | InsufficientLiquidity Amount Amount
  | PoolNotFound u64
  | InvalidAllocation string
  | SlippageTooHigh f64
  | PositionNotFound string
  | CalculationError string

datatype PoolType = AMM | Lending | Treasury | StabilityReserve

record PoolInfo =
  pi_id :: u64
  pi_pool_type :: PoolType
  pi_name :: string
  pi_tvl :: Amount
  pi_created_at :: Timestamp
  pi_owner :: address
  pi_active :: bool
  pi_apy :: u16
  pi_risk_score :: u16

definition pool_info_new ::
    "Timestamp \<Rightarrow> u64 \<Rightarrow> PoolType \<Rightarrow> string \<Rightarrow> address \<Rightarrow> u16 \<Rightarrow> u16 \<Rightarrow> PoolInfo" where
  "pool_info_new now pid ptype name owner apy risk_score =
     \<lparr>pi_id = pid, pi_pool_type = ptype, pi_name = name, pi_tvl = amount_zero, pi_created_at = now,
      pi_owner = owner, pi_active = True, pi_apy = apy, pi_risk_score = risk_score\<rparr>"

definition info_calculate_yield :: "PoolInfo \<Rightarrow> Amount \<Rightarrow> Amount" where
  "info_calculate_yield i amount =
     (let amount_val = f64_of_u64 (low_u64 amount)
      in amount_from_u64 (f64_to_u64 (f64_div (f64_mul amount_val (f64_of_nat (unat (pi_apy i)))) (fl 10000))))"

definition risk_adjusted_return :: "PoolInfo \<Rightarrow> f64" where
  "risk_adjusted_return i =
     (if pi_risk_score i = 0 then f64_of_nat (unat (pi_apy i))
      else f64_div (f64_of_nat (unat (pi_apy i))) (f64_div (f64_of_nat (unat (pi_risk_score i))) (fl 100)))"

record LiquidityPoolMetrics =
  lm_total_deposits :: Amount
  lm_total_withdrawals :: Amount
  lm_total_yield :: Amount
  lm_depositor_count :: nat
  lm_avg_deposit :: Amount
  lm_utilization_rate :: f64
  lm_updated_at :: Timestamp

definition liquidity_metrics_new :: "Timestamp \<Rightarrow> LiquidityPoolMetrics" where
  "liquidity_metrics_new now = \<lparr>lm_total_deposits = amount_zero, lm_total_withdrawals = amount_zero,
     lm_total_yield = amount_zero, lm_depositor_count = 0, lm_avg_deposit = amount_zero,
     lm_utilization_rate = Fin 0, lm_updated_at = now\<rparr>"

definition update_avg_deposit :: "LiquidityPoolMetrics \<Rightarrow> LiquidityPoolMetrics" where
  "update_avg_deposit m =
     (if 0 < lm_depositor_count m
      then m\<lparr>lm_avg_deposit := amount_from_u64 (low_u64 (lm_total_deposits m) div of_nat (lm_depositor_count m))\<rparr>
      else m)"

record PendingWithdrawal =
  pw_validator :: address
  pw_amount :: Amount
  pw_request_time :: Timestamp
  pw_unlock_time :: Timestamp

record LiquidityPool =
  lq_info :: PoolInfo
  lq_metrics :: LiquidityPoolMetrics
  lq_deposits :: "(address, Amount) fmap"
  lq_pending_withdrawals :: "(address, PendingWithdrawal) fmap"

definition liquidity_pool_new :: "Timestamp \<Rightarrow> PoolInfo \<Rightarrow> LiquidityPool" where
  "liquidity_pool_new now i = \<lparr>lq_info = i, lq_metrics = liquidity_metrics_new now,
     lq_deposits = fmempty, lq_pending_withdrawals = fmempty\<rparr>"

definition lq_get_balance :: "LiquidityPool \<Rightarrow> address \<Rightarrow> Amount" where
  "lq_get_balance p validator = lookup_default amount_zero (lq_deposits p) validator"

definition lq_deposit ::
    "Timestamp \<Rightarrow> LiquidityPool \<Rightarrow> address \<Rightarrow> Amount \<Rightarrow> (unit, LiquidityError) outcome \<times> LiquidityPool" where
  "lq_deposit now p validator amount =
     (if \<not> pi_active (lq_info p) then (Err (PoolError ''Pool is not active''), p)
      else if amount_is_zero amount then (Err (DeploymentError ''Cannot deposit zero amount''), p)
      else let current = lookup_default amount_zero (lq_deposits p) validator;
               p0 = p\<lparr>lq_deposits := fmupd validator current (lq_deposits p)\<rparr>
      in case amount_checked_add current amount of
           None \<Rightarrow> (Err (CalculationError ''Deposit overflow''), p0)
         | Some d \<Rightarrow>
      let p1 = p0\<lparr>lq_deposits := fmupd validator d (lq_deposits p0)\<rparr>
      in case amount_checked_add (pi_tvl (lq_info p1)) amount of
           None \<Rightarrow> (Err (CalculationError ''TVL overflow''), p1)
         | Some t \<Rightarrow>
      let p2 = p1\<lparr>lq_info := (lq_info p1)\<lparr>pi_tvl := t\<rparr>\<rparr>
      in case amount_checked_add (lm_total_deposits (lq_metrics p2)) amount of
           None \<Rightarrow> (Err (CalculationError ''Total deposits overflow''), p2)
         | Some td \<Rightarrow>
      let m1 = (lq_metrics p2)\<lparr>lm_total_deposits := td\<rparr>;
          m2 = (if fmlookup (lq_deposits p2) validator = None
                then m1\<lparr>lm_depositor_count := lm_depositor_count m1 + 1\<rparr> else m1);
          m3 = (update_avg_deposit m2)\<lparr>lm_updated_at := now\<rparr>
      in (Ok (), p2\<lparr>lq_metrics := m3\<rparr>))"

definition request_withdrawal ::
    "Timestamp \<Rightarrow> LiquidityPool \<Rightarrow> address \<Rightarrow> Amount \<Rightarrow> Timestamp
      \<Rightarrow> (unit, LiquidityError) outcome \<times> LiquidityPool" where
  "request_withdrawal now p validator amount unlock_time =
     (let balance = lq_get_balance p validator
      in if balance < amount then (Err (InsufficientLiquidity amount balance), p)
         else let withdrawal = \<lparr>pw_validator = validator, pw_amount = amount, pw_request_time = now, pw_unlock_time = unlock_time\<rparr>
              in (Ok (), p\<lparr>lq_pending_withdrawals := fmupd validator withdrawal (lq_pending_withdrawals p)\<rparr>))"

text \<open>The body of the loop over the withdrawals that are ready, and the loop.\<close>

definition complete_withdrawal ::
    "address \<times> Amount \<Rightarrow> LiquidityPool \<Rightarrow> (address \<times> Amount) list \<times> LiquidityPool" where
  "complete_withdrawal ready p =
     (let (validator, amount) = ready in
      case fmlookup (lq_deposits p) validator of
        None \<Rightarrow> ([], p)
      | Some balance \<Rightarrow>
          (case amount_checked_sub balance amount of
             None \<Rightarrow> ([], p)
           | Some new_balance \<Rightarrow>
               let p1 = p\<lparr>lq_deposits := fmupd validator new_balance (lq_deposits p)\<rparr>;
                   p2 = (case amount_checked_sub (pi_tvl (lq_info p1)) amount of
                           Some new_tvl \<Rightarrow> p1\<lparr>lq_info := (lq_info p1)\<lparr>pi_tvl := new_tvl\<rparr>\<rparr>
                         | None \<Rightarrow> p1);
                   p3 = (case amount_checked_add (lm_total_withdrawals (lq_metrics p2)) amount of
                           Some new_total \<Rightarrow> p2\<lparr>lq_metrics := (lq_metrics p2)\<lparr>lm_total_withdrawals := new_total\<rparr>\<rparr>
                         | None \<Rightarrow> p2)
               in ([(validator, amount)],
                   p3\<lparr>lq_pending_withdrawals := fmdrop validator (lq_pending_withdrawals p3)\<rparr>)))"

fun process_loop :: "(address \<times> Amount) list \<Rightarrow> LiquidityPool \<Rightarrow> (address \<times> Amount) list \<times> LiquidityPool" where
  "process_loop [] p = ([], p)"
| "process_loop (r # rs) p =
     (let (done1, p1) = complete_withdrawal r p; (done2, p2) = process_loop rs p1 in (done1 @ done2, p2))"

definition process_withdrawals ::
    "(address \<times> PendingWithdrawal) list \<Rightarrow> LiquidityPool \<Rightarrow> Timestamp
      \<Rightarrow> (address \<times> Amount) list \<times> LiquidityPool" where
  "process_withdrawals iter p current_time =
     (let ready = map (\<lambda>(addr, w). (addr, pw_amount w)) (filter (\<lambda>(_, w). pw_unlock_time w \<le> current_time) iter);
          (completed, p1) = process_loop ready p
      in (completed, if completed \<noteq> [] then p1\<lparr>lq_metrics := (lq_metrics p1)\<lparr>lm_updated_at := current_time\<rparr>\<rparr> else p1))"

definition lq_calculate_yield :: "LiquidityPool \<Rightarrow> u64 \<Rightarrow> Amount \<times> LiquidityPool" where
  "lq_calculate_yield p elapsed_seconds =
     (let tvl_val = f64_of_u64 (low_u64 (pi_tvl (lq_info p)));
          apy_rate = f64_div (f64_of_nat (unat (pi_apy (lq_info p)))) (fl 10000);
          time_fraction = f64_div (f64_of_u64 elapsed_seconds) (f64_mul (f64_mul (fl 365) (fl 24)) (fl 3600));
          yield_val = f64_mul (f64_mul tvl_val apy_rate) time_fraction;
          yield_amount = amount_from_u64 (f64_to_u64 yield_val);
          total = (case amount_checked_add (lm_total_yield (lq_metrics p)) yield_amount of
                     Some t \<Rightarrow> t | None \<Rightarrow> lm_total_yield (lq_metrics p))
      in (yield_amount, p\<lparr>lq_metrics := (lq_metrics p)\<lparr>lm_total_yield := total\<rparr>\<rparr>))"

definition update_apy :: "LiquidityPool \<Rightarrow> u16 \<Rightarrow> LiquidityPool" where
  "update_apy p new_apy = p\<lparr>lq_info := (lq_info p)\<lparr>pi_apy := new_apy\<rparr>\<rparr>"

definition update_risk_score :: "LiquidityPool \<Rightarrow> u16 \<Rightarrow> LiquidityPool" where
  "update_risk_score p new_score = p\<lparr>lq_info := (lq_info p)\<lparr>pi_risk_score := min new_score 10000\<rparr>\<rparr>"

definition lq_deactivate :: "LiquidityPool \<Rightarrow> LiquidityPool" where
  "lq_deactivate p = p\<lparr>lq_info := (lq_info p)\<lparr>pi_active := False\<rparr>\<rparr>"

definition lq_activate :: "LiquidityPool \<Rightarrow> LiquidityPool" where
  "lq_activate p = p\<lparr>lq_info := (lq_info p)\<lparr>pi_active := True\<rparr>\<rparr>"


section \<open>Operations in closed form\<close>

lemma fmupd_twice [simp]: "fmupd k v (fmupd k u m) = fmupd k v m"
  by (rule fmap_ext) simp

lemma lq_deposit_eq:
  "lq_deposit now p v a =
     (if \<not> pi_active (lq_info p) then (Err (PoolError ''Pool is not active''), p)
      else if a = 0 then (Err (DeploymentError ''Cannot deposit zero amount''), p)
      else (Ok (), p\<lparr>lq_deposits := fmupd v (lq_get_balance p v + a) (lq_deposits p),
        lq_info := (lq_info p)\<lparr>pi_tvl := pi_tvl (lq_info p) + a\<rparr>,
        lq_metrics := (update_avg_deposit ((lq_metrics p)\<lparr>lm_total_deposits := lm_total_deposits (lq_metrics p) + a\<rparr>))
          \<lparr>lm_updated_at := now\<rparr>\<rparr>))"
  by (simp add: lq_deposit_def lq_get_balance_def amount_defs Let_def)

lemma request_withdrawal_eq:
  "request_withdrawal now p v a u =
     (if lq_get_balance p v < a then (Err (InsufficientLiquidity a (lq_get_balance p v)), p)
      else (Ok (), p\<lparr>lq_pending_withdrawals :=
        fmupd v \<lparr>pw_validator = v, pw_amount = a, pw_request_time = now, pw_unlock_time = u\<rparr> (lq_pending_withdrawals p)\<rparr>))"
  by (simp add: request_withdrawal_def Let_def)

section \<open>The invariant\<close>

text \<open>
  The value locked is the sum of the deposits and what has been deposited less what has been
  withdrawn; a pending withdrawal sits under its validator and is covered by its balance. The
  depositor count is never raised, so it stays zero, and with it the average deposit.
\<close>

definition lq_ok :: "LiquidityPool \<Rightarrow> bool" where
  "lq_ok p \<longleftrightarrow>
     pi_tvl (lq_info p) = fm_sum id (lq_deposits p) \<and>
     pi_tvl (lq_info p) + lm_total_withdrawals (lq_metrics p) = lm_total_deposits (lq_metrics p) \<and>
     (\<forall>v w. fmlookup (lq_pending_withdrawals p) v = Some w \<longrightarrow> pw_validator w = v \<and> pw_amount w \<le> lq_get_balance p v) \<and>
     lm_depositor_count (lq_metrics p) = 0 \<and> lm_avg_deposit (lq_metrics p) = 0"

lemma fm_sum_id_fmupd: "fm_sum id (fmupd k v m) + lookup_default 0 m k = fm_sum id m + v"
  using fm_sum_fmupd [of id 0 k v m] by simp

lemma lookup_le_fm_sum: "lookup_default 0 m k \<le> fm_sum id m"
  using fm_sum_id_fmupd [of k 0 m] by linarith

lemma lq_ok_new: "lq_ok (liquidity_pool_new now (pool_info_new t i ty n ow apy r))"
  by (simp add: lq_ok_def liquidity_pool_new_def pool_info_new_def liquidity_metrics_new_def amount_defs)

lemma update_avg_deposit_none: "lm_depositor_count m = 0 \<Longrightarrow> update_avg_deposit m = m"
  by (simp add: update_avg_deposit_def)

lemma lq_ok_deposit: "lq_ok p \<Longrightarrow> lq_ok (snd (lq_deposit now p v a))"
  using fm_sum_id_fmupd [of v "lq_get_balance p v + a" "lq_deposits p"]
  by (auto simp: lq_ok_def lq_deposit_eq lq_get_balance_def amount_defs update_avg_deposit_none intro: trans_le_add1)

lemma lq_ok_request: "lq_ok p \<Longrightarrow> lq_ok (snd (request_withdrawal now p v a u))"
  by (auto simp: lq_ok_def request_withdrawal_eq lq_get_balance_def split: if_splits)

lemma lq_ok_updates [simp]:
  "lq_ok (update_apy p apy) = lq_ok p" "lq_ok (update_risk_score p r) = lq_ok p"
  "lq_ok (lq_deactivate p) = lq_ok p" "lq_ok (lq_activate p) = lq_ok p"
  "lq_ok (snd (lq_calculate_yield p s)) = lq_ok p"
  by (simp_all add: lq_ok_def update_apy_def update_risk_score_def lq_deactivate_def lq_activate_def
      lq_calculate_yield_def lq_get_balance_def Let_def)

section \<open>Paying out withdrawals\<close>

definition pays :: "(address \<times> Amount) list \<Rightarrow> address \<Rightarrow> Amount" where
  "pays rs v = (case map_of rs v of Some a \<Rightarrow> a | None \<Rightarrow> 0)"

definition paid_out :: "(address \<times> Amount) list \<Rightarrow> LiquidityPool \<Rightarrow> LiquidityPool" where
  "paid_out rs p = p
     \<lparr>lq_deposits := fmmap_keys (\<lambda>v b. b - pays rs v) (lq_deposits p),
      lq_info := (lq_info p)\<lparr>pi_tvl := pi_tvl (lq_info p) - sum_list (map snd rs)\<rparr>,
      lq_metrics := (lq_metrics p)\<lparr>lm_total_withdrawals := lm_total_withdrawals (lq_metrics p) + sum_list (map snd rs)\<rparr>,
      lq_pending_withdrawals := fmdrop_set (set (map fst rs)) (lq_pending_withdrawals p)\<rparr>"

definition covered :: "LiquidityPool \<Rightarrow> address \<times> Amount \<Rightarrow> bool" where
  "covered p r \<longleftrightarrow> fmlookup (lq_deposits p) (fst r) \<noteq> None"

lemma paid_deposits:
  assumes "fmlookup m v = Some b"
  shows "fmmap_keys (\<lambda>u c. c - pays [(v, a)] u) m = fmupd v (b - a) m"
  using assms by (intro fmap_ext) (auto simp: pays_def option.map_ident split: option.splits)

lemma complete_withdrawal_eq:
  assumes "lq_ok p" and "a \<le> lq_get_balance p v"
  shows "complete_withdrawal (v, a) p = (if covered p (v, a) then ([(v, a)], paid_out [(v, a)] p) else ([], p))"
proof (cases "fmlookup (lq_deposits p) v")
  case (Some b)
  then have le: "a \<le> b" "b \<le> pi_tvl (lq_info p)"
    using assms lookup_le_fm_sum [of "lq_deposits p" v] by (simp_all add: lq_ok_def lq_get_balance_def lookup_default_def)
  have "fmdrop_set {v} m = fmdrop v m" for m :: "(address, PendingWithdrawal) fmap"
    by (rule fmap_ext) auto
  then show ?thesis using Some le
    by (simp add: complete_withdrawal_def covered_def paid_out_def paid_deposits amount_checked_sub_def amount_checked_add_def Let_def)
qed (simp add: complete_withdrawal_def covered_def)

lemma lq_ok_paid_out:
  assumes ok: "lq_ok p" and a: "a \<le> lq_get_balance p v" and c: "covered p (v, a)"
  shows "lq_ok (paid_out [(v, a)] p)"
proof -
  obtain b where b: "fmlookup (lq_deposits p) v = Some b" using c by (auto simp: covered_def)
  have le: "a \<le> b" "b \<le> fm_sum id (lq_deposits p)"
    using a b lookup_le_fm_sum [of "lq_deposits p" v] by (simp_all add: lq_get_balance_def lookup_default_def)
  have d: "fmmap_keys (\<lambda>u b. b - pays [(v, a)] u) (lq_deposits p) = fmupd v (b - a) (lq_deposits p)"
    by (rule paid_deposits [OF b])
  have "fm_sum id (fmupd v (b - a) (lq_deposits p)) + b = fm_sum id (lq_deposits p) + (b - a)"
    using fm_sum_id_fmupd [of v "b - a" "lq_deposits p"] b by (simp add: lookup_default_def)
  then have "fm_sum id (fmupd v (b - a) (lq_deposits p)) = fm_sum id (lq_deposits p) - a" using le by linarith
  then show ?thesis using ok le unfolding lq_ok_def paid_out_def lq_get_balance_def d
    by (auto simp: amount_defs)
qed

lemma covered_paid_out [simp]: "covered (paid_out rs p) = covered p"
  by (rule ext) (simp add: covered_def paid_out_def)

lemma balance_paid_out [simp]: "lq_get_balance (paid_out rs p) v = lq_get_balance p v - pays rs v"
  by (auto simp: lq_get_balance_def paid_out_def lookup_default_def amount_defs split: option.splits)

lemma pays_Cons [simp]: "pays ((v, a) # rs) u = (if u = v then a else pays rs u)"
  by (simp add: pays_def)

lemma pays_Nil [simp]: "pays [] u = 0"
  by (simp add: pays_def)

lemma pays_absent: "v \<notin> set (map fst rs) \<Longrightarrow> pays rs v = 0"
  by (simp add: pays_def map_of_eq_None_iff [THEN iffD2])

lemma paid_out_Nil [simp]: "paid_out [] p = p"
  by (simp add: paid_out_def option.map_ident fmap_ext)

lemma paid_out_Cons:
  assumes "v \<notin> set (map fst rs)"
  shows "paid_out rs (paid_out [(v, a)] p) = paid_out ((v, a) # rs) p"
proof -
  have "fmmap_keys (\<lambda>u c. c - pays rs u) (fmmap_keys (\<lambda>u c. c - pays [(v, a)] u) m) = fmmap_keys (\<lambda>u c. c - pays ((v, a) # rs) u) m" for m
    using pays_absent [OF assms] by (intro fmap_ext) (simp add: option.map_comp comp_def)
  moreover have "fmdrop_set S (fmdrop_set {v} m) = fmdrop_set (insert v S) m" for S and m :: "(address, PendingWithdrawal) fmap"
    by (rule fmap_ext) auto
  ultimately show ?thesis by (simp add: paid_out_def add.assoc)
qed

lemma process_loop_eq:
  assumes "lq_ok p" and "distinct (map fst rs)" and "\<forall>(v, a) \<in> set rs. a \<le> lq_get_balance p v"
  shows "process_loop rs p = (filter (covered p) rs, paid_out (filter (covered p) rs) p) \<and>
    lq_ok (paid_out (filter (covered p) rs) p)"
  using assms
proof (induction rs arbitrary: p)
  case (Cons r rs)
  obtain v a where r: "r = (v, a)" by (cases r)
  have step: "complete_withdrawal r p = (if covered p r then ([r], paid_out [r] p) else ([], p))"
    using Cons.prems r by (simp add: complete_withdrawal_eq)
  have v: "v \<notin> set (map fst (filter (covered p) rs))" using Cons.prems(2) r by auto
  show ?case
  proof (cases "covered p r")
    case True
    let ?q = "paid_out [r] p"
    have "\<forall>(u, b) \<in> set rs. b \<le> lq_get_balance ?q u"
      using Cons.prems(2,3) r by (auto simp: rev_image_eqI)
    moreover have "lq_ok ?q" using Cons.prems True r by (auto intro: lq_ok_paid_out)
    ultimately have "process_loop rs ?q = (filter (covered ?q) rs, paid_out (filter (covered ?q) rs) ?q) \<and>
        lq_ok (paid_out (filter (covered ?q) rs) ?q)"
      using Cons.IH [of ?q] Cons.prems(2) by simp
    moreover have "filter (covered ?q) rs = filter (covered p) rs" by simp
    moreover have "paid_out (filter (covered p) rs) ?q = paid_out (filter (covered p) (r # rs)) p"
      using True paid_out_Cons [OF v, of a p] unfolding r by simp
    ultimately show ?thesis using True step by simp
  next
    case False
    then show ?thesis using Cons.IH [of p] Cons.prems step by simp
  qed
qed simp

definition ready_withdrawals :: "(address \<times> PendingWithdrawal) list \<Rightarrow> Timestamp \<Rightarrow> (address \<times> Amount) list" where
  "ready_withdrawals iter t = map (\<lambda>(addr, w). (addr, pw_amount w)) (filter (\<lambda>(_, w). pw_unlock_time w \<le> t) iter)"

lemma map_fst_ready: "map fst (ready_withdrawals iter t) = map fst (filter (\<lambda>(_, w). pw_unlock_time w \<le> t) iter)"
  by (simp add: ready_withdrawals_def case_prod_beta comp_def)

lemma distinct_ready: "distinct (map fst iter) \<Longrightarrow> distinct (map fst (ready_withdrawals iter t))"
  unfolding map_fst_ready by (induction iter) auto

lemma set_ready:
  assumes "enumerates iter (lq_pending_withdrawals p)"
  shows "set (ready_withdrawals iter t) =
    {(v, pw_amount w) | v w. fmlookup (lq_pending_withdrawals p) v = Some w \<and> pw_unlock_time w \<le> t}"
  unfolding ready_withdrawals_def using enumerates_set [OF assms] by (fastforce simp: image_iff)

text \<open>
  The outcome of processing does not refer to the loop any more: the ready withdrawals of
  validators with a deposit are paid out.
\<close>

lemma process_withdrawals_eq:
  fixes t
  assumes "lq_ok p" and "enumerates iter (lq_pending_withdrawals p)"
  defines "paid \<equiv> filter (covered p) (ready_withdrawals iter t)"
  shows "process_withdrawals iter p t =
    (paid, if paid = [] then p else (paid_out paid p)\<lparr>lq_metrics := (lq_metrics (paid_out paid p))\<lparr>lm_updated_at := t\<rparr>\<rparr>)"
    and "lq_ok (paid_out paid p)"
proof -
  have d: "distinct (map fst (ready_withdrawals iter t))" using assms(2) by (intro distinct_ready) (simp add: enumerates_def)
  have b: "\<forall>(v, a) \<in> set (ready_withdrawals iter t). a \<le> lq_get_balance p v"
    unfolding set_ready [OF assms(2)] using assms(1) by (auto simp: lq_ok_def)
  show "process_withdrawals iter p t =
    (paid, if paid = [] then p else (paid_out paid p)\<lparr>lq_metrics := (lq_metrics (paid_out paid p))\<lparr>lm_updated_at := t\<rparr>\<rparr>)"
    "lq_ok (paid_out paid p)"
    using process_loop_eq [OF assms(1) d b]
    by (simp_all add: process_withdrawals_def Let_def paid_def flip: ready_withdrawals_def)
qed

lemma lq_ok_process:
  assumes "lq_ok p" and "enumerates iter (lq_pending_withdrawals p)"
  shows "lq_ok (snd (process_withdrawals iter p t))"
  using process_withdrawals_eq [OF assms, where t = t] assms(1) by (auto simp: lq_ok_def lq_get_balance_def)

section \<open>Reachable pools\<close>

inductive lq_step :: "LiquidityPool \<Rightarrow> LiquidityPool \<Rightarrow> bool" where
  step_deposit: "lq_step p (snd (lq_deposit now p v a))"
| step_request: "lq_step p (snd (request_withdrawal now p v a u))"
| step_process: "enumerates iter (lq_pending_withdrawals p) \<Longrightarrow> lq_step p (snd (process_withdrawals iter p t))"
| step_yield: "lq_step p (snd (lq_calculate_yield p s))"
| step_apy: "lq_step p (update_apy p apy)"
| step_risk: "lq_step p (update_risk_score p r)"
| step_deactivate: "lq_step p (lq_deactivate p)"
| step_activate: "lq_step p (lq_activate p)"

definition lq_init :: "LiquidityPool \<Rightarrow> bool" where
  "lq_init p \<longleftrightarrow> (\<exists>now t i ty n ow apy r. p = liquidity_pool_new now (pool_info_new t i ty n ow apy r))"

lemma lq_init_new: "lq_init (liquidity_pool_new now (pool_info_new t i ty n ow apy r))"
  unfolding lq_init_def by blast

interpretation lpool: invariant_machine lq_init lq_step lq_ok
proof
  fix p p'
  show "lq_init p \<Longrightarrow> lq_ok p" by (auto simp: lq_init_def lq_ok_new)
  show "lq_ok p \<Longrightarrow> lq_step p p' \<Longrightarrow> lq_ok p'"
    by (erule lq_step.cases) (simp_all add: lq_ok_deposit lq_ok_request lq_ok_process)
qed

lemma pays_filter:
  assumes "distinct (map fst rs)" and "(v, a) \<in> set rs" and "P (v, a)"
  shows "pays (filter P rs) v = a"
proof -
  have "distinct (map fst (filter P rs))" using assms(1) by (rule distinct_map_filter)
  then show ?thesis using assms(2,3) by (simp add: pays_def)
qed

lemma pays_ready:
  assumes "lq_ok p" and e: "enumerates iter (lq_pending_withdrawals p)"
  shows "pays (filter (covered p) (ready_withdrawals iter t)) v =
    (case fmlookup (lq_pending_withdrawals p) v of Some w \<Rightarrow> if pw_unlock_time w \<le> t then pw_amount w else 0 | None \<Rightarrow> 0)"
proof (cases "\<exists>a. (v, a) \<in> set (ready_withdrawals iter t)")
  case True
  then obtain a where a: "(v, a) \<in> set (ready_withdrawals iter t)" by blast
  then obtain w where w: "fmlookup (lq_pending_withdrawals p) v = Some w" "pw_unlock_time w \<le> t" "a = pw_amount w"
    unfolding set_ready [OF e] by blast
  have d: "distinct (map fst (ready_withdrawals iter t))" using e by (intro distinct_ready) (simp add: enumerates_def)
  show ?thesis
  proof (cases "covered p (v, a)")
    case True
    then show ?thesis using pays_filter [OF d a, of "covered p"] w by simp
  next
    case False
    then have "v \<notin> set (map fst (filter (covered p) (ready_withdrawals iter t)))" by (auto simp: covered_def)
    moreover have "a = 0" using False assms(1) w
      by (force simp: lq_ok_def covered_def lq_get_balance_def lookup_default_def amount_defs)
    ultimately show ?thesis using w by (simp add: pays_absent)
  qed
next
  case False
  then have "v \<notin> set (map fst (filter (covered p) (ready_withdrawals iter t)))" by auto
  then show ?thesis using False unfolding set_ready [OF e] by (auto simp: pays_absent split: option.splits)
qed

lemma paid_order:
  fixes t
  assumes "lq_ok p" and e: "enumerates iter (lq_pending_withdrawals p)" and f: "enumerates iter' (lq_pending_withdrawals p)"
  defines "paid \<equiv> \<lambda>i. filter (covered p) (ready_withdrawals i t)"
  shows "mset (paid iter) = mset (paid iter')" and "paid_out (paid iter) p = paid_out (paid iter') p"
proof -
  have d: "distinct (paid i)" if "enumerates i (lq_pending_withdrawals p)" for i
    using distinct_ready [of i t] that unfolding paid_def enumerates_def by (simp add: distinct_map)
  have s: "set (paid iter) = set (paid iter')" unfolding paid_def using set_ready [OF e] set_ready [OF f] by simp
  then show m: "mset (paid iter) = mset (paid iter')" using d [OF e] d [OF f] by (simp add: set_eq_iff_mset_eq_distinct)
  have "pays (paid iter) = pays (paid iter')" unfolding paid_def by (rule ext) (simp add: pays_ready assms)
  moreover have "sum_list (map snd (paid iter)) = sum_list (map snd (paid iter'))"
    using m by (metis mset_map sum_mset_sum_list)
  ultimately show "paid_out (paid iter) p = paid_out (paid iter') p" using s by (simp add: paid_out_def)
qed

section \<open>Properties\<close>

lemma card_1_singleton_list: "set xs = {x} \<Longrightarrow> distinct xs \<Longrightarrow> xs = [x]"
  by (cases xs; cases "tl xs") auto

definition example_pool :: LiquidityPool where
  "example_pool = snd (request_withdrawal 5 (snd (lq_deposit 4
     (liquidity_pool_new 3 (pool_info_new 3 1 AMM ''Test'' 0 1000 500)) 7 1000)) 7 400 9)"

lemma example_pool_reachable:
  "lq_step\<^sup>*\<^sup>* (liquidity_pool_new 3 (pool_info_new 3 1 AMM ''Test'' 0 1000 500)) example_pool"
  unfolding example_pool_def
  by (rule rtranclp.rtrancl_into_rtrancl [OF r_into_rtranclp]) (rule step_deposit, rule step_request)

text \<open>C36. Every pool that operations reach from a new one, failed operations included, has balanced
  books: the value locked is the sum of the deposits and the deposits made less the withdrawals
  paid, and every pending withdrawal is covered by its validator's balance. The depositor count is
  zero whatever was deposited.\<close>

theorem liquidity_pool_reachable:
  assumes "lq_step\<^sup>*\<^sup>* (liquidity_pool_new now (pool_info_new t i ty n ow apy r)) p"
  shows "lq_ok p"
  by (rule lpool.reachable_inv [OF lq_init_new assms])

theorem liquidity_pool_reachable_witness: "lq_ok example_pool"
  by (rule liquidity_pool_reachable [OF example_pool_reachable])

text \<open>C37. In every reachable pool, processing withdrawals pays each validator with a deposit its
  request, once and in full, as soon as it is unlocked, and nobody else: the balances fall by exactly
  that, the request is gone, and the value locked falls by the sum. Neither the payments nor the pool
  depend on the iteration order of the hash map.\<close>

theorem process_withdrawals_correct:
  fixes p t
  assumes "lq_step\<^sup>*\<^sup>* (liquidity_pool_new now (pool_info_new t0 i ty n ow apy r)) p"
    and "enumerates iter (lq_pending_withdrawals p)" and "enumerates iter' (lq_pending_withdrawals p)"
  defines "res \<equiv> process_withdrawals iter p t" and "res' \<equiv> process_withdrawals iter' p t"
  shows "set (fst res) = {(v, pw_amount w) | v w. fmlookup (lq_pending_withdrawals p) v = Some w \<and>
        pw_unlock_time w \<le> t \<and> fmlookup (lq_deposits p) v \<noteq> None} \<and>
    distinct (map fst (fst res)) \<and>
    (\<forall>v. lq_get_balance (snd res) v +
        (case fmlookup (lq_pending_withdrawals p) v of Some w \<Rightarrow> if pw_unlock_time w \<le> t then pw_amount w else 0 | None \<Rightarrow> 0)
      = lq_get_balance p v) \<and>
    lq_pending_withdrawals (snd res) = fmdrop_set (fst ` set (fst res)) (lq_pending_withdrawals p) \<and>
    pi_tvl (lq_info (snd res)) + sum_list (map snd (fst res)) = pi_tvl (lq_info p) \<and>
    mset (fst res) = mset (fst res') \<and> snd res = snd res'"
proof -
  have ok: "lq_ok p" by (rule lpool.reachable_inv [OF lq_init_new assms(1)])
  let ?paid = "filter (covered p) (ready_withdrawals iter t)" and ?paid' = "filter (covered p) (ready_withdrawals iter' t)"
  note r = process_withdrawals_eq [OF ok assms(2), where t = t] and r' = process_withdrawals_eq [OF ok assms(3), where t = t]
  have fin: "lq_deposits (snd res) = lq_deposits (paid_out ?paid p)" "lq_info (snd res) = lq_info (paid_out ?paid p)"
      "lq_pending_withdrawals (snd res) = lq_pending_withdrawals (paid_out ?paid p)" "fst res = ?paid"
    by (cases "?paid = []"; simp add: res_def r(1))+
  have "set ?paid = {(v, pw_amount w) | v w. fmlookup (lq_pending_withdrawals p) v = Some w \<and>
        pw_unlock_time w \<le> t \<and> fmlookup (lq_deposits p) v \<noteq> None}"
    using set_ready [OF assms(2), of t] by (auto simp: covered_def)
  moreover have "distinct (map fst ?paid)"
    using assms(2) by (intro distinct_map_filter distinct_ready) (simp add: enumerates_def)
  moreover have "lq_get_balance (snd res) v + pays ?paid v = lq_get_balance p v" for v
  proof -
    have "pays ?paid v \<le> lq_get_balance p v"
      using ok by (auto simp: pays_ready [OF ok assms(2)] lq_ok_def split: option.splits)
    moreover have "lq_get_balance (snd res) v = lq_get_balance (paid_out ?paid p) v" by (simp add: lq_get_balance_def fin)
    ultimately show ?thesis by simp
  qed
  moreover have "lm_total_withdrawals (lq_metrics p) + sum_list (map snd ?paid) + pi_tvl (lq_info (paid_out ?paid p))
      = lm_total_deposits (lq_metrics p)"
    using r(2) by (simp add: lq_ok_def paid_out_def)
  then have "pi_tvl (lq_info (snd res)) + sum_list (map snd ?paid) = pi_tvl (lq_info p)"
    using ok by (simp add: lq_ok_def fin)
  moreover have m: "mset ?paid = mset ?paid'" and o: "paid_out ?paid p = paid_out ?paid' p"
    by (rule paid_order [OF ok assms(2,3)])+
  have "?paid = [] \<longleftrightarrow> ?paid' = []" by (metis m mset_zero_iff)
  then have "snd res = snd res'" unfolding res_def res'_def r(1) r'(1) o by simp
  moreover have "fst res' = ?paid'" by (simp add: res'_def r'(1))
  moreover have "lq_pending_withdrawals (snd res) = fmdrop_set (fst ` set ?paid) (lq_pending_withdrawals p)"
    unfolding fin(3) by (simp add: paid_out_def)
  ultimately show ?thesis using m unfolding fin(4) pays_ready [OF ok assms(2)] by (intro conjI allI) simp_all
qed

theorem process_withdrawals_correct_witness:
  "fst (process_withdrawals (btree_iter (lq_pending_withdrawals example_pool)) example_pool 9) = [(7, 400)] \<and>
   lq_get_balance (snd (process_withdrawals (btree_iter (lq_pending_withdrawals example_pool)) example_pool 9)) 7 = 600"
proof -
  note t = process_withdrawals_correct [OF example_pool_reachable enumerates_btree_iter enumerates_btree_iter, where t = 9]
  have p: "fmlookup (lq_pending_withdrawals example_pool) v =
      (if v = 7 then Some \<lparr>pw_validator = 7, pw_amount = 400, pw_request_time = 5, pw_unlock_time = 9\<rparr> else None)"
    "fmlookup (lq_deposits example_pool) v = (if v = 7 then Some 1000 else None)" for v
    by (simp_all add: example_pool_def request_withdrawal_eq lq_deposit_eq liquidity_pool_new_def pool_info_new_def
        lq_get_balance_def lookup_default_def amount_zero_def)
  let ?r = "process_withdrawals (btree_iter (lq_pending_withdrawals example_pool)) example_pool 9"
  have "set (fst ?r) = {(7, 400)}" using t by (simp add: p)
  moreover have "distinct (fst ?r)" using t by (simp add: distinct_map)
  ultimately have "fst ?r = [(7, 400)]" by (rule card_1_singleton_list)
  moreover have "lq_get_balance (snd ?r) 7 + (case fmlookup (lq_pending_withdrawals example_pool) 7 of
      Some w \<Rightarrow> if pw_unlock_time w \<le> 9 then pw_amount w else 0 | None \<Rightarrow> 0) = lq_get_balance example_pool 7"
    using t by blast
  then have "lq_get_balance (snd ?r) 7 + 400 = 1000" unfolding p by (simp add: lq_get_balance_def [of example_pool] p lookup_default_def)
  ultimately show ?thesis by simp
qed

end
