(* ===== verification/Amm.thy ===== *)
theory Amm
  imports Liquidity_Pool
begin

text \<open>
  \<open>amm.rs\<close> of the \<open>liquidity\<close> crate: the constant product market maker. Reserves and shares are
  amounts; quotes are computed in binary64 on their low 64 bits.
\<close>

record TradingPair =
  pair_token_a :: address
  pair_token_b :: address

definition pair_canonical :: "TradingPair \<Rightarrow> TradingPair" where
  "pair_canonical p =
     (if ord_class.lexordp (address_as_bytes (pair_token_a p)) (address_as_bytes (pair_token_b p)) then p
      else \<lparr>pair_token_a = pair_token_b p, pair_token_b = pair_token_a p\<rparr>)"

record AMMPool =
  am_base :: LiquidityPool
  am_pair :: TradingPair
  am_reserve_a :: Amount
  am_reserve_b :: Amount
  am_total_shares :: Amount
  am_fee_rate :: u16

record SwapQuote =
  sq_amount_in :: Amount
  sq_amount_out :: Amount
  sq_price_impact :: f64
  sq_effective_price :: f64
  sq_fee_amount :: Amount

definition amm_new :: "LiquidityPool \<Rightarrow> TradingPair \<Rightarrow> u16 \<Rightarrow> AMMPool" where
  "amm_new base pair fee_rate = \<lparr>am_base = base, am_pair = pair_canonical pair, am_reserve_a = amount_zero,
     am_reserve_b = amount_zero, am_total_shares = amount_zero, am_fee_rate = min fee_rate 10000\<rparr>"

definition amm_calculate_ratio :: "Amount \<Rightarrow> Amount \<Rightarrow> f64" where
  "amm_calculate_ratio numerator denominator =
     (if amount_is_zero denominator then Fin 0
      else f64_div (f64_of_u64 (low_u64 numerator)) (f64_of_u64 (low_u64_or_1 denominator)))"

text \<open>The shares minted for a deposit.\<close>

definition liquidity_shares :: "AMMPool \<Rightarrow> Amount \<Rightarrow> Amount \<Rightarrow> Amount" where
  "liquidity_shares m amount_a amount_b =
     (if amount_is_zero (am_total_shares m)
      then let a_val = f64_of_u64 (low_u64 amount_a); b_val = f64_of_u64 (low_u64 amount_b)
           in amount_from_u64 (f64_to_u64 (f64_sqrt (f64_mul a_val b_val)))
      else let a_ratio = amm_calculate_ratio amount_a (am_reserve_a m);
               b_ratio = amm_calculate_ratio amount_b (am_reserve_b m);
               ratio = f64_min a_ratio b_ratio;
               total_val = f64_of_u64 (low_u64 (am_total_shares m))
           in amount_from_u64 (f64_to_u64 (f64_mul total_val ratio)))"

definition add_liquidity ::
    "Timestamp \<Rightarrow> AMMPool \<Rightarrow> address \<Rightarrow> Amount \<Rightarrow> Amount \<Rightarrow> (Amount, LiquidityError) outcome \<times> AMMPool" where
  "add_liquidity now m provider amount_a amount_b =
     (if amount_is_zero amount_a \<or> amount_is_zero amount_b then (Err (DeploymentError ''Cannot add zero liquidity''), m)
      else let shares = liquidity_shares m amount_a amount_b
      in case amount_checked_add (am_reserve_a m) amount_a of
           None \<Rightarrow> (Err (CalculationError ''Reserve A overflow''), m)
         | Some ra \<Rightarrow>
      let m1 = m\<lparr>am_reserve_a := ra\<rparr>
      in case amount_checked_add (am_reserve_b m1) amount_b of
           None \<Rightarrow> (Err (CalculationError ''Reserve B overflow''), m1)
         | Some rb \<Rightarrow>
      let m2 = m1\<lparr>am_reserve_b := rb\<rparr>
      in case amount_checked_add (am_total_shares m2) shares of
           None \<Rightarrow> (Err (CalculationError ''Total shares overflow''), m2)
         | Some ts \<Rightarrow>
      let m3 = m2\<lparr>am_total_shares := ts\<rparr>
      in case amount_checked_add amount_a amount_b of
           None \<Rightarrow> (Err (CalculationError ''Total deposit overflow''), m3)
         | Some total_deposited \<Rightarrow>
      let (r, base) = lq_deposit now (am_base m3) provider total_deposited; m4 = m3\<lparr>am_base := base\<rparr>
      in (and_then r (\<lambda>_. Ok shares), m4))"

definition remove_liquidity ::
    "Timestamp \<Rightarrow> AMMPool \<Rightarrow> address \<Rightarrow> Amount \<Rightarrow> (Amount \<times> Amount, LiquidityError) outcome \<times> AMMPool" where
  "remove_liquidity now m provider shares =
     (if amount_is_zero shares then (Err (DeploymentError ''Cannot remove zero shares''), m)
      else if am_total_shares m < shares then (Err (InsufficientLiquidity shares (am_total_shares m)), m)
      else let share_ratio = amm_calculate_ratio shares (am_total_shares m);
               reserve_a_val = f64_of_u64 (low_u64 (am_reserve_a m));
               reserve_b_val = f64_of_u64 (low_u64 (am_reserve_b m));
               amount_a = amount_from_u64 (f64_to_u64 (f64_mul reserve_a_val share_ratio));
               amount_b = amount_from_u64 (f64_to_u64 (f64_mul reserve_b_val share_ratio))
      in case amount_checked_sub (am_reserve_a m) amount_a of
           None \<Rightarrow> (Err (CalculationError ''Reserve A underflow''), m)
         | Some ra \<Rightarrow>
      let m1 = m\<lparr>am_reserve_a := ra\<rparr>
      in case amount_checked_sub (am_reserve_b m1) amount_b of
           None \<Rightarrow> (Err (CalculationError ''Reserve B underflow''), m1)
         | Some rb \<Rightarrow>
      let m2 = m1\<lparr>am_reserve_b := rb\<rparr>
      in case amount_checked_sub (am_total_shares m2) shares of
           None \<Rightarrow> (Err (CalculationError ''Total shares underflow''), m2)
         | Some ts \<Rightarrow>
      let m3 = m2\<lparr>am_total_shares := ts\<rparr>
      in case amount_checked_add amount_a amount_b of
           None \<Rightarrow> (Err (CalculationError ''Total withdrawal overflow''), m3)
         | Some total_withdrawn \<Rightarrow>
      let unlock_time = now + 7 * 24 * 3600;
          (r, base) = request_withdrawal now (am_base m3) provider total_withdrawn unlock_time;
          m4 = m3\<lparr>am_base := base\<rparr>
      in (and_then r (\<lambda>_. Ok (amount_a, amount_b)), m4))"

definition swap_quote_of :: "u16 \<Rightarrow> Amount \<Rightarrow> Amount \<Rightarrow> Amount \<Rightarrow> SwapQuote" where
  "swap_quote_of fee_rate reserve_in reserve_out amount_in =
     (let amount_in_val = f64_of_u64 (low_u64 amount_in);
          reserve_in_val = f64_of_u64 (low_u64_or_1 reserve_in);
          reserve_out_val = f64_of_u64 (low_u64 reserve_out);
          fee_multiplier = f64_sub (fl 1) (f64_div (f64_of_nat (unat fee_rate)) (fl 10000));
          amount_in_with_fee = f64_mul amount_in_val fee_multiplier;
          amount_out_val = f64_div (f64_mul reserve_out_val amount_in_with_fee) (f64_add reserve_in_val amount_in_with_fee);
          amount_out = amount_from_u64 (f64_to_u64 amount_out_val);
          price_before = f64_div reserve_out_val reserve_in_val;
          new_reserve_in = f64_add reserve_in_val amount_in_val;
          new_reserve_out = f64_sub reserve_out_val amount_out_val;
          price_after = f64_div new_reserve_out new_reserve_in;
          price_impact = f64_mul (f64_abs (f64_div (f64_sub price_after price_before) price_before)) (fl 100);
          effective_price = f64_div amount_out_val amount_in_val
      in \<lparr>sq_amount_in = amount_in, sq_amount_out = amount_out, sq_price_impact = price_impact,
          sq_effective_price = effective_price,
          sq_fee_amount = amount_from_u64 (f64_to_u64 (f64_mul amount_in_val
            (f64_div (f64_of_nat (unat fee_rate)) (fl 10000))))\<rparr>)"

definition get_swap_quote :: "AMMPool \<Rightarrow> address \<Rightarrow> Amount \<Rightarrow> (SwapQuote, LiquidityError) outcome" where
  "get_swap_quote m token_in amount_in =
     (if amount_is_zero amount_in then Err (CalculationError ''Cannot swap zero amount'')
      else if token_in = pair_token_a (am_pair m)
      then Ok (swap_quote_of (am_fee_rate m) (am_reserve_a m) (am_reserve_b m) amount_in)
      else if token_in = pair_token_b (am_pair m)
      then Ok (swap_quote_of (am_fee_rate m) (am_reserve_b m) (am_reserve_a m) amount_in)
      else Err (PoolError ''Token not in pair''))"

definition slippage :: "Amount \<Rightarrow> Amount \<Rightarrow> f64" where
  "slippage min_amount_out amount_out =
     f64_mul (f64_div (f64_sub (f64_of_u64 (low_u64 min_amount_out)) (f64_of_u64 (low_u64 amount_out)))
       (f64_of_u64 (low_u64_or_1 min_amount_out))) (fl 100)"

definition amm_swap ::
    "AMMPool \<Rightarrow> address \<Rightarrow> Amount \<Rightarrow> Amount \<Rightarrow> (Amount, LiquidityError) outcome \<times> AMMPool" where
  "amm_swap m token_in amount_in min_amount_out =
     (case get_swap_quote m token_in amount_in of
        Err e \<Rightarrow> (Err e, m)
      | Panic \<Rightarrow> (Panic, m)
      | Ok quote \<Rightarrow>
          if sq_amount_out quote < min_amount_out
          then (Err (SlippageTooHigh (slippage min_amount_out (sq_amount_out quote))), m)
          else if token_in = pair_token_a (am_pair m)
          then (case amount_checked_add (am_reserve_a m) amount_in of
                  None \<Rightarrow> (Err (CalculationError ''Reserve A overflow''), m)
                | Some ra \<Rightarrow>
                    let m1 = m\<lparr>am_reserve_a := ra\<rparr>
                    in (case amount_checked_sub (am_reserve_b m1) (sq_amount_out quote) of
                          None \<Rightarrow> (Err (CalculationError ''Reserve B underflow''), m1)
                        | Some rb \<Rightarrow> (Ok (sq_amount_out quote), m1\<lparr>am_reserve_b := rb\<rparr>)))
          else (case amount_checked_add (am_reserve_b m) amount_in of
                  None \<Rightarrow> (Err (CalculationError ''Reserve B overflow''), m)
                | Some rb \<Rightarrow>
                    let m1 = m\<lparr>am_reserve_b := rb\<rparr>
                    in (case amount_checked_sub (am_reserve_a m1) (sq_amount_out quote) of
                          None \<Rightarrow> (Err (CalculationError ''Reserve A underflow''), m1)
                        | Some ra \<Rightarrow> (Ok (sq_amount_out quote), m1\<lparr>am_reserve_a := ra\<rparr>))))"

definition amm_reserves :: "AMMPool \<Rightarrow> Amount \<times> Amount" where
  "amm_reserves m = (am_reserve_a m, am_reserve_b m)"

section \<open>The quote in exact arithmetic\<close>

text \<open>What is left of the input after the fee is nothing or not tiny, and at most the input.\<close>

lemma fee_multiplier:
  assumes "r \<le> 10000"
  shows "\<exists>f. f64_sub (fl 1) (f64_div (f64_of_nat r) (fl 10000)) = Fin f \<and> (f = 0 \<or> 1 / 2 ^ 14 \<le> f) \<and> f \<le> 1"
proof (cases "r = 10000")
  case True
  have "fl 10000 = Fin 10000" by (rule fl_exact [OF representable_numeral]) simp
  moreover have "f64_of_nat 10000 = Fin 10000" using fl_of_nat [of 10000] by simp
  ultimately show ?thesis using True by (simp add: f64_sub_def)
next
  case False
  then have r: "r \<le> 9999" using assms by simp
  have t: "fl 10000 = Fin 10000" by (rule fl_exact [OF representable_numeral]) simp
  have n: "f64_of_nat r = Fin (of_nat r)" using r by (intro fl_of_nat) simp
  have d: "representable (16383 / 2 ^ 14)" "representable (1 / 2 ^ 14)"
    using representable_dyadic [of 16383] representable_dyadic [of 1] by simp_all
  have "(of_nat r :: rat) \<le> 9999" using of_nat_mono [OF r, where 'a = rat] by simp
  then have "of_nat r / 10000 \<le> (16383 / 2 ^ 14 :: rat)" by simp
  then obtain g where g: "fl (of_nat r / 10000) = Fin g" "0 \<le> g" "g \<le> 16383 / 2 ^ 14"
    using fl_between [OF representable_0 d(1), of "of_nat r / 10000"] by auto
  have "1 / 2 ^ 14 \<le> 1 - g" "1 - g \<le> 1" using g by simp_all
  then obtain f where "fl (1 - g) = Fin f" "1 / 2 ^ 14 \<le> f" "f \<le> 1"
    using fl_between [OF d(2) representable_1, of "1 - g"] by auto
  then show ?thesis using g n t by (simp add: f64_sub_def)
qed

lemma net_input:
  fixes f :: rat
  assumes "1 \<le> n" and "n \<le> 2 ^ 53" and "f = 0 \<or> 1 / 2 ^ 14 \<le> f" and "f \<le> 1"
  shows "\<exists>d. fl (of_nat n * f) = Fin d \<and> (d = 0 \<or> 1 / 2 ^ 14 \<le> d) \<and> d \<le> of_nat n"
proof (cases "f = 0")
  case False
  have one: "(1 :: rat) \<le> of_nat n" using assms(1) by simp
  have "1 * (1 / 2 ^ 14) \<le> of_nat n * f" using False assms(3) one by (intro mult_mono) simp_all
  moreover have "of_nat n * f \<le> of_nat n * 1" using assms(4) by (intro mult_left_mono) simp_all
  ultimately show ?thesis
    using fl_between [of "1 / 2 ^ 14" "of_nat n" "of_nat n * f"] representable_dyadic [of 1]
      representable_of_nat [OF assms(2)] by auto
qed (use assms in simp)

lemma tiny: "(2 :: rat) powi - 1000 \<le> 1 / 2 ^ 128"
proof -
  have "(2 :: rat) powi - 1000 \<le> 2 powi - 128" by (subst powi_le_iff) simp
  also have "(2 :: rat) powi - 128 = 1 / 2 ^ 128" by (simp only: power_int_minus power_int_numeral divide_inverse mult_1)
  finally show ?thesis .
qed

text \<open>
  The three roundings of the quotient enlarge it by less than one part in \<open>2^51\<close>, too little to
  reach the next integer.
\<close>

lemma quotient_error:
  fixes y d X :: rat
  assumes "1 \<le> y" and "1 / 2 ^ 14 \<le> d" and "1 \<le> X" and "y \<le> 2 ^ 53" and "d \<le> 2 ^ 53" and "X \<le> 2 ^ 53"
  shows "\<exists>q. f64_div (f64_mul (Fin y) (Fin d)) (f64_add (Fin X) (Fin d)) = Fin q \<and> q * (X + d) \<le> y * d * (1 + 1 / 2 ^ 51)"
proof -
  let ?u = "1 / 2 ^ 53 :: rat"
  have d14: "representable (1 / 2 ^ 14)" using representable_dyadic [of 1] by simp
  have yd: "1 * (1 / 2 ^ 14) \<le> y * d" "y * d \<le> 2 ^ 53 * 2 ^ 53" using assms by (intro mult_mono; simp)+
  then obtain n where n: "fl (y * d) = Fin n" "1 / 2 ^ 14 \<le> n" "n \<le> 2 ^ 106"
    using fl_between [OF d14 representable_pow2 [of 106], of "y * d"] by auto
  have Xd: "1 \<le> X + d" "X + d \<le> 2 ^ 54" using assms by simp_all
  then obtain e where e: "fl (X + d) = Fin e" "1 \<le> e" "e \<le> 2 ^ 54"
    using fl_between [OF representable_1 representable_pow2 [of 54], of "X + d"] by auto
  have e0: "0 < e" using e(2) by linarith
  have ne: "1 / 2 ^ 128 \<le> n / e"
  proof -
    have "1 / 2 ^ 128 * e \<le> 1 / 2 ^ 128 * 2 ^ 54" using e(3) by (intro mult_left_mono) simp_all
    also have "\<dots> \<le> (1 / 2 ^ 14 :: rat)" by simp
    also have "\<dots> \<le> n" by (rule n(2))
    finally show ?thesis using e0 by (simp only: pos_le_divide_eq)
  qed
  have "n / e \<le> n / 1" using n(2) e(2) e0 by (intro divide_left_mono) simp_all
  then have "n / e \<le> 2 ^ 106" using n(3) by simp
  moreover have "0 \<le> n / e" using ne by (rule order_trans [rotated]) simp
  ultimately obtain q where q: "fl (n / e) = Fin q" "0 \<le> q"
    using fl_between [OF representable_0 representable_pow2 [of 106], of "n / e"] by auto
  have small: "2 powi - 1000 \<le> r" if "1 / 2 ^ 128 \<le> r" for r :: rat using tiny that by (rule order_trans)
  have b1: "n \<le> y * d * (1 + ?u)" by (rule fl_relative(1) [OF small n(1)]) (use yd in simp)
  have b2: "(X + d) * (1 - ?u) \<le> e" by (rule fl_relative(2) [OF small e(1)]) (use Xd in simp)
  have b3: "q \<le> n / e * (1 + ?u)" by (rule fl_relative(1) [OF small q(1)]) (rule ne)
  have "q * e \<le> n * (1 + ?u)"
    using mult_right_mono [OF b3, of e] e0 by simp
  moreover have "n * (1 + ?u) \<le> y * d * (1 + ?u) * (1 + ?u)" using b1 by (intro mult_right_mono) simp_all
  moreover have "q * ((X + d) * (1 - ?u)) \<le> q * e" using b2 q(2) by (intro mult_left_mono)
  ultimately have "q * (X + d) * (1 - ?u) \<le> y * d * ((1 + ?u) * (1 + ?u))" by (simp only: mult.assoc)
  moreover have "(1 + ?u) * (1 + ?u) \<le> (1 + 1 / 2 ^ 51) * (1 - ?u)" by simp
  moreover have "0 \<le> y * d" using yd(1) by (rule order_trans [rotated]) simp
  ultimately have "q * (X + d) * (1 - ?u) \<le> y * d * ((1 + 1 / 2 ^ 51) * (1 - ?u))"
    by (meson mult_left_mono order_trans)
  then have "(q * (X + d)) * (1 - ?u) \<le> (y * d * (1 + 1 / 2 ^ 51)) * (1 - ?u)" by (simp only: mult.assoc)
  then have "q * (X + d) \<le> y * d * (1 + 1 / 2 ^ 51)" by (rule mult_right_le_imp_le) simp
  then show ?thesis using n(1) e(1) q(1) e0 by (intro exI [of _ q]) simp
qed

lemma floor_quotient:
  fixes q d :: rat and y n X :: nat
  assumes "q * (of_nat X + d) \<le> of_nat y * d * (1 + 1 / 2 ^ 51)" and "0 \<le> d" and "d \<le> of_nat n"
    and "1 \<le> X" and "y * n < 2 ^ 51"
  shows "f64_to_nat hi (Fin q) * (X + n) \<le> y * n"
proof (rule ccontr)
  let ?k = "f64_to_nat hi (Fin q)"
  assume "\<not> ?k * (X + n) \<le> y * n"
  then have s: "y * n + 1 \<le> ?k * (X + n)" by (simp del: f64_to_nat.simps)
  then have "?k \<noteq> 0" by (intro notI) (simp del: f64_to_nat.simps)
  from s have less: "of_nat y * of_nat n + 1 \<le> (of_nat ?k :: rat) * (of_nat X + of_nat n)"
    by (metis of_nat_1 of_nat_add of_nat_mono of_nat_mult)
  from \<open>?k \<noteq> 0\<close> have q: "0 < q" "of_nat ?k \<le> q" using f64_to_nat_under by blast+
  have X: "(0 :: rat) < of_nat X" using assms(4) by simp
  have yn: "(of_nat y * of_nat n :: rat) < 2 ^ 51" using of_nat_less_iff [of "y * n" "2 ^ 51", where 'a = rat] assms(5) by simp
  let ?c = "1 + 1 / 2 ^ 51 :: rat"
  have "q * (of_nat X + d) * (of_nat X + of_nat n) \<le> of_nat y * d * ?c * (of_nat X + of_nat n)"
    using assms(1) by (rule mult_right_mono) simp
  moreover have "of_nat y * d * ?c * (of_nat X + of_nat n) \<le> of_nat y * of_nat n * ?c * (of_nat X + d)"
  proof -
    have "d * (of_nat X + of_nat n) \<le> of_nat n * (of_nat X + d)"
      using mult_right_mono [OF assms(3), of "of_nat X"] X by (simp add: algebra_simps)
    then have "of_nat y * ?c * (d * (of_nat X + of_nat n)) \<le> of_nat y * ?c * (of_nat n * (of_nat X + d))"
      by (rule mult_left_mono) simp
    then show ?thesis by (simp only: mult_ac)
  qed
  ultimately have "q * (of_nat X + of_nat n) * (of_nat X + d) \<le> of_nat y * of_nat n * ?c * (of_nat X + d)"
    by (simp only: mult_ac)
  then have "q * (of_nat X + of_nat n) \<le> of_nat y * of_nat n * ?c" by (rule mult_right_le_imp_le) (use X assms(2) in linarith)
  also have "\<dots> < of_nat y * of_nat n + 1" using yn by (simp add: distrib_left mult.commute)
  also note less
  also have "(of_nat ?k :: rat) * (of_nat X + of_nat n) \<le> q * (of_nat X + of_nat n)"
    using q(2) by (rule mult_right_mono) simp
  finally show False by simp
qed

lemma swap_quote_out:
  assumes "unat fee \<le> 10000" and "x < 2 ^ 53" and "y < 2 ^ 53" and "1 \<le> n" and "n < 2 ^ 53" and "y * n < 2 ^ 51"
  shows "sq_amount_out (swap_quote_of fee x y n) * (max 1 x + n) \<le> y * n"
proof -
  let ?X = "max 1 x"
  obtain f where f: "f64_sub (fl 1) (f64_div (f64_of_nat (unat fee)) (fl 10000)) = Fin f" "f = 0 \<or> 1 / 2 ^ 14 \<le> f" "f \<le> 1"
    using fee_multiplier [OF assms(1)] by blast
  obtain d where d: "fl (of_nat n * f) = Fin d" "d = 0 \<or> 1 / 2 ^ 14 \<le> d" "d \<le> of_nat n"
    using net_input [OF assms(4) _ f(2,3)] assms(5) by auto
  have vals: "f64_of_u64 (low_u64 n) = Fin (of_nat n)" "f64_of_u64 (low_u64 y) = Fin (of_nat y)"
      "f64_of_u64 (low_u64_or_1 x) = Fin (of_nat ?X)"
    using assms by (simp_all add: unat_low_u64 unat_low_u64_or_1 fl_of_nat)
  have out: "sq_amount_out (swap_quote_of fee x y n) =
      f64_to_nat (2 ^ 64 - 1) (f64_div (f64_mul (Fin (of_nat y)) (Fin d)) (f64_add (Fin (of_nat ?X)) (Fin d)))"
    unfolding swap_quote_of_def Let_def vals f(1) SwapQuote.select_convs f64_mul.simps d(1) amount_from_u64_def unat_f64_to_u64 ..
  show ?thesis
  proof (cases "y = 0 \<or> d = 0")
    case True
    have "\<exists>r. fl (of_nat ?X + d) = Fin r \<and> 1 \<le> r"
    proof -
      have "0 \<le> d" using d(2) by (auto intro: order_trans [rotated])
      then have "(1 :: rat) \<le> of_nat ?X + d" using of_nat_mono [of 1 ?X, where 'a = rat] by simp
      moreover have "of_nat ?X + d \<le> (2 ^ 54 :: rat)"
        using d(3) of_nat_mono [of n "2 ^ 53", where 'a = rat] of_nat_mono [of ?X "2 ^ 53", where 'a = rat] assms(2,5) by simp
      ultimately show ?thesis using fl_between [OF representable_1 representable_pow2 [of 54]] by auto
    qed
    then have "f64_to_nat (2 ^ 64 - 1) (f64_div (f64_mul (Fin (of_nat y)) (Fin d)) (f64_add (Fin (of_nat ?X)) (Fin d))) = 0"
      using True by auto
    then show ?thesis unfolding out by simp
  next
    case False
    have "1 \<le> (of_nat y :: rat)" "(of_nat y :: rat) \<le> 2 ^ 53" "1 \<le> (of_nat ?X :: rat)" "(of_nat ?X :: rat) \<le> 2 ^ 53"
      "(of_nat n :: rat) \<le> 2 ^ 53"
      using False assms of_nat_mono [of y "2 ^ 53", where 'a = rat] of_nat_mono [of n "2 ^ 53", where 'a = rat]
        of_nat_mono [of ?X "2 ^ 53", where 'a = rat] of_nat_mono [of 1 ?X, where 'a = rat] by simp_all
    then obtain q where q: "f64_div (f64_mul (Fin (of_nat y)) (Fin d)) (f64_add (Fin (of_nat ?X)) (Fin d)) = Fin q"
        "q * (of_nat ?X + d) \<le> of_nat y * d * (1 + 1 / 2 ^ 51)"
      using quotient_error [of "of_nat y" d "of_nat ?X"] False d by auto
    show ?thesis unfolding out q(1) using q(2) d(3) assms(6)
      by (intro floor_quotient [where d = d]) (use False d(2) in \<open>auto intro: order_trans [rotated]\<close>)
  qed
qed

lemma product_kept:
  fixes x y n k :: nat
  assumes "k * (max 1 x + n) \<le> y * n"
  shows "k \<le> y" and "x * y \<le> (x + n) * (y - k)"
proof -
  have "k * n \<le> y * n" using assms unfolding distrib_left by linarith
  moreover have "k = 0" if "n = 0" using assms that by simp
  ultimately show k: "k \<le> y" by (cases "n = 0") auto
  have "k * (x + n) \<le> k * (max 1 x + n)" by simp
  then have le: "k * (x + n) \<le> y * n" using assms by (rule le_trans)
  have "(x + n) * (y - k) = (x + n) * y - (x + n) * k" by (rule diff_mult_distrib2)
  also have "\<dots> = x * y + y * n - k * (x + n)" by (simp add: algebra_simps)
  finally show "x * y \<le> (x + n) * (y - k)" using le by linarith
qed

lemma amm_swap_cases:
  "amm_swap m t n lo =
     (if n = 0 then (Err (CalculationError ''Cannot swap zero amount''), m)
      else if t = pair_token_a (am_pair m)
      then let out = sq_amount_out (swap_quote_of (am_fee_rate m) (am_reserve_a m) (am_reserve_b m) n)
           in if out < lo then (Err (SlippageTooHigh (slippage lo out)), m)
              else if am_reserve_b m < out
              then (Err (CalculationError ''Reserve B underflow''), m\<lparr>am_reserve_a := am_reserve_a m + n\<rparr>)
              else (Ok out, m\<lparr>am_reserve_a := am_reserve_a m + n, am_reserve_b := am_reserve_b m - out\<rparr>)
      else if t = pair_token_b (am_pair m)
      then let out = sq_amount_out (swap_quote_of (am_fee_rate m) (am_reserve_b m) (am_reserve_a m) n)
           in if out < lo then (Err (SlippageTooHigh (slippage lo out)), m)
              else if am_reserve_a m < out
              then (Err (CalculationError ''Reserve A underflow''), m\<lparr>am_reserve_b := am_reserve_b m + n\<rparr>)
              else (Ok out, m\<lparr>am_reserve_b := am_reserve_b m + n, am_reserve_a := am_reserve_a m - out\<rparr>)
      else (Err (PoolError ''Token not in pair''), m))"
  by (simp add: amm_swap_def get_swap_quote_def amount_defs Let_def not_le)

text \<open>A deposit and a removal in closed form, for amounts that are exact in binary64.\<close>

lemma add_liquidity_eq:
  "add_liquidity now m prov a b =
     (if a = 0 \<or> b = 0 then (Err (DeploymentError ''Cannot add zero liquidity''), m)
      else let (r, base) = lq_deposit now (am_base m) prov (a + b)
           in (and_then r (\<lambda>_. Ok (liquidity_shares m a b)),
               m\<lparr>am_reserve_a := am_reserve_a m + a, am_reserve_b := am_reserve_b m + b,
                 am_total_shares := am_total_shares m + liquidity_shares m a b, am_base := base\<rparr>))"
  by (simp add: add_liquidity_def amount_defs Let_def split: prod.splits)

lemma ratio_one:
  assumes "0 < s" and "s < 2 ^ 64"
  shows "amm_calculate_ratio s s = Fin 1"
proof -
  obtain r where r: "f64_of_nat s = Fin r" "0 \<le> r" "s = 0 \<longleftrightarrow> r = 0" by (rule f64_of_nat_finite [OF assms(2)])
  have "unat (low_u64_or_1 s) = s" using assms by (simp add: unat_low_u64_or_1)
  then show ?thesis using assms r by (simp add: amm_calculate_ratio_def amount_is_zero_def unat_low_u64)
qed

lemma f64_to_u64_exact: "n \<le> 2 ^ 53 \<Longrightarrow> unat (f64_to_u64 (Fin (of_nat n))) = n"
  by (simp add: unat_f64_to_u64)

lemma remove_all_eq:
  assumes "0 < am_total_shares m" and "am_total_shares m < 2 ^ 64"
    and "am_reserve_a m \<le> 2 ^ 53" and "am_reserve_b m \<le> 2 ^ 53"
  shows "remove_liquidity now m prov (am_total_shares m) =
    (let (r, base) = request_withdrawal now (am_base m) prov (am_reserve_a m + am_reserve_b m) (now + 604800)
     in (and_then r (\<lambda>_. Ok (am_reserve_a m, am_reserve_b m)),
         m\<lparr>am_reserve_a := 0, am_reserve_b := 0, am_total_shares := 0, am_base := base\<rparr>))"
proof -
  have v: "unat (f64_to_u64 (f64_mul (f64_of_u64 (low_u64 x)) (Fin 1))) = x" if "x \<le> 2 ^ 53" for x
    using that f64_to_u64_exact [OF that] fl_of_nat [OF that] fl_exact [OF representable_of_nat [OF that]]
    by (simp add: unat_low_u64)
  show ?thesis using assms(1)
    by (simp add: remove_liquidity_def ratio_one [OF assms(1,2)] v [OF assms(3)] v [OF assms(4)] amount_defs amount_from_u64_def Let_def split: prod.splits)
qed

lemma initial_shares_positive:
  assumes "am_total_shares m = 0" and "1 \<le> a" and "1 \<le> b" and "a \<le> 2 ^ 53" and "b \<le> 2 ^ 53"
  shows "0 < liquidity_shares m a b \<and> liquidity_shares m a b < 2 ^ 64"
proof -
  have ab: "(of_nat a * of_nat b :: rat) = of_nat (a * b)" by simp
  have "a * b \<le> 2 ^ 53 * 2 ^ 53" using assms(4,5) by (rule mult_le_mono)
  then have "(of_nat (a * b) :: rat) \<le> of_nat (2 ^ 106)" by (intro of_nat_mono) simp
  moreover have "(1 :: rat) \<le> of_nat (a * b)" using assms(2,3) of_nat_mono [of 1 "a * b", where 'a = rat] by simp
  ultimately obtain q where q: "fl (of_nat a * of_nat b) = Fin q" "1 \<le> q" "q \<le> 2 ^ 106"
    unfolding ab using fl_between [OF representable_1 representable_pow2 [of 106], of "of_nat (a * b)"] by auto
  have "q < 4 ^ 60" using q(3) by (rule le_less_trans) simp
  then obtain r where r: "f64_sqrt (Fin q) = Fin r" "1 \<le> r" using f64_sqrt_range [OF q(2), of 60] by auto
  have v: "f64_of_u64 (low_u64 a) = Fin (of_nat a)" "f64_of_u64 (low_u64 b) = Fin (of_nat b)"
    using assms by (simp_all add: unat_low_u64 fl_of_nat)
  have s: "liquidity_shares m a b = f64_to_nat (2 ^ 64 - 1) (Fin r)"
    unfolding liquidity_shares_def amount_is_zero_def assms(1) Let_def v f64_mul.simps q(1) r(1) amount_from_u64_def unat_f64_to_u64
    by simp
  have "1 \<le> f64_to_nat (2 ^ 64 - 1) (Fin r)" by (rule f64_to_nat_ge) (use r(2) in simp_all)
  then show ?thesis using f64_to_nat_bound [of "2 ^ 64 - 1" "Fin r"] unfolding s by linarith
qed

section \<open>Properties\<close>

text \<open>C18. The constant product rule survives floating point. For reserves below \<open>2^53\<close> and inputs whose
  product with either reserve is below \<open>2^51\<close>, a swap at any fee either fails and changes nothing, or
  pays at least the demanded minimum and at most the reserve, moves exactly the two amounts, and never
  lowers the product of the reserves.\<close>

theorem amm_swap_keeps_product:
  fixes m token_in amount_in min_out
  assumes "am_reserve_a m < 2 ^ 53" and "am_reserve_b m < 2 ^ 53" and "amount_in < 2 ^ 53"
    and "am_reserve_a m * amount_in < 2 ^ 51" and "am_reserve_b m * amount_in < 2 ^ 51"
    and "unat (am_fee_rate m) \<le> 10000"
  defines "res \<equiv> amm_swap m token_in amount_in min_out"
  shows "(\<not> is_ok (fst res) \<longrightarrow> snd res = m) \<and>
    am_reserve_a m * am_reserve_b m \<le> am_reserve_a (snd res) * am_reserve_b (snd res) \<and>
    (\<forall>out. fst res = Ok out \<longrightarrow> min_out \<le> out \<and>
       (if token_in = pair_token_a (am_pair m)
        then am_reserve_a (snd res) = am_reserve_a m + amount_in \<and> am_reserve_b (snd res) + out = am_reserve_b m
        else am_reserve_b (snd res) = am_reserve_b m + amount_in \<and> am_reserve_a (snd res) + out = am_reserve_a m))"
proof (cases "amount_in = 0")
  case False
  let ?oa = "sq_amount_out (swap_quote_of (am_fee_rate m) (am_reserve_a m) (am_reserve_b m) amount_in)"
    and ?ob = "sq_amount_out (swap_quote_of (am_fee_rate m) (am_reserve_b m) (am_reserve_a m) amount_in)"
  have n: "1 \<le> amount_in" using False by simp
  note a = product_kept [OF swap_quote_out [OF assms(6) assms(1,2) n assms(3,5)]]
    and b = product_kept [OF swap_quote_out [OF assms(6) assms(2,1) n assms(3,4)]]
  show ?thesis using False a b unfolding res_def amm_swap_cases
    by (auto simp: Let_def mult.commute)
qed (simp add: res_def amm_swap_cases)

definition example_amm :: AMMPool where
  "example_amm = (amm_new (liquidity_pool_new 3 (pool_info_new 3 1 AMM ''Test'' 0 1000 500))
     \<lparr>pair_token_a = 1, pair_token_b = 2\<rparr> 30)\<lparr>am_reserve_a := 10000, am_reserve_b := 20000\<rparr>"

theorem amm_swap_keeps_product_witness:
  "10000 * 20000 \<le> am_reserve_a (snd (amm_swap example_amm 1 1000 1)) * am_reserve_b (snd (amm_swap example_amm 1 1000 1))"
  using amm_swap_keeps_product [of example_amm 1000 1 1] by (simp add: example_amm_def amm_new_def)

text \<open>The bounds are needed. A reserve is read through its lowest 64 bits: with \<open>2^64\<close> units of the first token in a pool without a
  fee, one unit of it buys the whole reserve of the second token, and the product of the reserves falls to 0.\<close>

lemma amm_swap_drains:
  assumes "am_reserve_a m = 2 ^ 64" and "am_reserve_b m < 2 ^ 53" and "am_fee_rate m = 0"
  shows "amm_swap m (pair_token_a (am_pair m)) 1 (am_reserve_b m) =
    (Ok (am_reserve_b m), m\<lparr>am_reserve_a := 2 ^ 64 + 1, am_reserve_b := 0\<rparr>)"
proof -
  let ?y = "am_reserve_b m"
  have y: "?y \<le> 2 ^ 53" using assms(2) by simp
  have w: "f64_of_u64 (low_u64 1) = Fin 1" "f64_of_u64 (low_u64_or_1 (2 ^ 64)) = Fin 0" "f64_of_nat (unat (0 :: u16)) = Fin 0"
    "f64_of_u64 (low_u64 ?y) = Fin (of_nat ?y)"
    using y fl_of_nat [of 0] fl_of_nat [of 1] by (simp_all add: fl_of_nat unat_low_u64 low_u64_or_1_def)
  have z: "fl (of_nat ?y) = Fin (of_nat ?y)" by (rule fl_exact [OF representable_of_nat [OF y]])
  have "fl 10000 = Fin 10000" by (simp add: fl_exact representable_numeral)
  then have "sq_amount_out (swap_quote_of 0 (2 ^ 64) ?y 1) = amount_from_u64 (f64_to_u64 (Fin (of_nat ?y)))"
    unfolding swap_quote_of_def Let_def w SwapQuote.select_convs by (simp add: z f64_sub_def)
  then have "sq_amount_out (swap_quote_of 0 (2 ^ 64) ?y 1) = ?y" unfolding amount_from_u64_def f64_to_u64_exact [OF y] .
  then show ?thesis using assms by (simp add: amm_swap_cases Let_def)
qed

text \<open>What a sole provider puts in it gets back. The first deposit into an active market maker without
  liquidity mints a positive number of shares, and removing them all returns exactly the two amounts,
  empties the reserves and books a withdrawal of their sum a week later.\<close>

lemma amm_add_remove_roundtrip:
  assumes "am_total_shares m = 0" and "am_reserve_a m = 0" and "am_reserve_b m = 0" and "pi_active (lq_info (am_base m))"
    and "1 \<le> a" and "1 \<le> b" and "a \<le> 2 ^ 53" and "b \<le> 2 ^ 53"
  shows "\<exists>shares m' m''. add_liquidity now m provider a b = (Ok shares, m') \<and> 0 < shares \<and> am_total_shares m' = shares \<and>
    remove_liquidity later m' provider shares = (Ok (a, b), m'') \<and>
    am_total_shares m'' = 0 \<and> amm_reserves m'' = (0, 0) \<and>
    fmlookup (lq_pending_withdrawals (am_base m'')) provider =
      Some \<lparr>pw_validator = provider, pw_amount = a + b, pw_request_time = later, pw_unlock_time = later + 604800\<rparr>"
proof -
  let ?s = "liquidity_shares m a b"
  obtain base where d: "lq_deposit now (am_base m) provider (a + b) = (Ok (), base)" "a + b \<le> lq_get_balance base provider"
    using assms(4,5) by (simp add: lq_deposit_eq lq_get_balance_def)
  let ?m = "m\<lparr>am_reserve_a := a, am_reserve_b := b, am_total_shares := ?s, am_base := base\<rparr>"
  have add: "add_liquidity now m provider a b = (Ok ?s, ?m)" using assms d by (simp add: add_liquidity_eq)
  have s: "0 < ?s" "?s < 2 ^ 64" using initial_shares_positive [OF assms(1,5-8)] by simp_all
  have "remove_liquidity later ?m provider ?s = (Ok (a, b), snd (remove_liquidity later ?m provider ?s))"
    and "am_total_shares (snd (remove_liquidity later ?m provider ?s)) = 0"
    and "amm_reserves (snd (remove_liquidity later ?m provider ?s)) = (0, 0)"
    and "fmlookup (lq_pending_withdrawals (am_base (snd (remove_liquidity later ?m provider ?s)))) provider =
      Some \<lparr>pw_validator = provider, pw_amount = a + b, pw_request_time = later, pw_unlock_time = later + 604800\<rparr>"
    using remove_all_eq [of ?m later provider] s d(2) assms(7,8)
    by (simp_all add: request_withdrawal_eq amm_reserves_def)
  then show ?thesis using add s(1) by (intro exI [of _ ?s] exI [of _ ?m] exI) simp
qed

lemma amm_add_remove_roundtrip_witness:
  "\<exists>shares m' m''. add_liquidity 5 (amm_new (liquidity_pool_new 3 (pool_info_new 3 1 AMM ''Test'' 0 1000 500))
       \<lparr>pair_token_a = 1, pair_token_b = 2\<rparr> 30) 9 1000 2000 = (Ok shares, m') \<and>
     remove_liquidity 6 m' 9 shares = (Ok (1000, 2000), m'')"
  using amm_add_remove_roundtrip [of "amm_new (liquidity_pool_new 3 (pool_info_new 3 1 AMM ''Test'' 0 1000 500))
       \<lparr>pair_token_a = 1, pair_token_b = 2\<rparr> 30" 1000 2000 5 9 6]
  by (auto simp: amm_new_def liquidity_pool_new_def pool_info_new_def amount_zero_def)

text \<open>Errors that are not errors. Anyone, with or without a deposit, can empty a market maker by
  removing all of its shares: when the base pool refuses the withdrawal the call reports insufficient
  liquidity, but reserves and shares are already gone. And adding liquidity to an inactive pool fails
  after the reserves have grown.\<close>

lemma amm_failed_calls_change_reserves:
  assumes "0 < am_total_shares m" and "am_total_shares m < 2 ^ 64"
    and "am_reserve_a m \<le> 2 ^ 53" and "am_reserve_b m \<le> 2 ^ 53"
    and "lq_get_balance (am_base m) stranger < am_reserve_a m + am_reserve_b m"
    and "1 \<le> a" and "1 \<le> b"
  shows "(\<exists>e m'. remove_liquidity now m stranger (am_total_shares m) = (Err e, m') \<and>
       amm_reserves m' = (0, 0) \<and> am_total_shares m' = 0) \<and>
    (\<not> pi_active (lq_info (am_base m)) \<longrightarrow>
       (\<exists>e m'. add_liquidity now m provider a b = (Err e, m') \<and>
          amm_reserves m' = (am_reserve_a m + a, am_reserve_b m + b)))"
  using assms(5-7) by (simp add: remove_all_eq [OF assms(1-4)] add_liquidity_eq request_withdrawal_eq lq_deposit_eq amm_reserves_def)

lemma amm_failed_calls_change_reserves_witness:
  "\<exists>e m'. remove_liquidity 6 (example_amm\<lparr>am_total_shares := 500\<rparr>) 7 500 = (Err e, m') \<and> amm_reserves m' = (0, 0)"
  using amm_failed_calls_change_reserves [of "example_amm\<lparr>am_total_shares := 500\<rparr>" 7 1 1 6 1]
  by (auto simp: example_amm_def amm_new_def liquidity_pool_new_def lq_get_balance_def amount_zero_def)

end
