(* ===== verification/Lending.thy ===== *)
theory Lending
  imports Liquidity_Pool
begin

text \<open>
  \<open>lending.rs\<close> of the \<open>liquidity\<close> crate: the interest model, loan positions and the lending pool.
  \<open>now\<close> is the clock, \<open>hex\<close> the encoder of the \<open>hex\<close> crate and \<open>show_f64\<close> the \<open>Display\<close> of a floating
  point number.
\<close>

record InterestRate =
  ir_base_rate :: u16
  ir_optimal_utilization :: u16
  ir_rate_at_optimal :: u16
  ir_max_rate :: u16

definition interest_rate_standard :: InterestRate where
  "interest_rate_standard = \<lparr>ir_base_rate = 200, ir_optimal_utilization = 8000, ir_rate_at_optimal = 1000, ir_max_rate = 5000\<rparr>"

definition calculate_rate :: "InterestRate \<Rightarrow> f64 \<Rightarrow> u16" where
  "calculate_rate ir utilization =
     (let util_bp = f64_to_u16 (f64_mul utilization (fl 10000)) in
      if util_bp \<le> ir_optimal_utilization ir
      then let progress = f64_div (f64_of_nat (unat util_bp)) (f64_of_nat (unat (ir_optimal_utilization ir)));
               rate_diff = ir_rate_at_optimal ir - ir_base_rate ir
           in ir_base_rate ir + f64_to_u16 (f64_mul (f64_of_nat (unat rate_diff)) progress)
      else let excess = util_bp - ir_optimal_utilization ir;
               max_excess = 10000 - ir_optimal_utilization ir;
               progress = f64_div (f64_of_nat (unat excess)) (f64_of_nat (unat max_excess));
               rate_diff = ir_max_rate ir - ir_rate_at_optimal ir
           in ir_rate_at_optimal ir + f64_to_u16 (f64_mul (f64_of_nat (unat rate_diff)) progress))"

datatype LoanStatus = LoanActive | LoanRepaid | LoanLiquidated | LoanDefaulted

record LoanPosition =
  ln_id :: hash
  ln_borrower :: address
  ln_principal :: Amount
  ln_interest :: Amount
  ln_collateral :: Amount
  ln_rate :: u16
  ln_borrowed_at :: Timestamp
  ln_last_accrual :: Timestamp
  ln_status :: LoanStatus

definition loan_position_new :: "Timestamp \<Rightarrow> address \<Rightarrow> Amount \<Rightarrow> Amount \<Rightarrow> u16 \<Rightarrow> LoanPosition" where
  "loan_position_new now borrower principal_amount collateral rate =
     \<lparr>ln_id = hash_zero, ln_borrower = borrower, ln_principal = principal_amount, ln_interest = amount_zero,
      ln_collateral = collateral, ln_rate = rate, ln_borrowed_at = now, ln_last_accrual = now, ln_status = LoanActive\<rparr>"

definition calculate_interest :: "LoanPosition \<Rightarrow> Timestamp \<Rightarrow> Amount" where
  "calculate_interest l current_time =
     (let elapsed = saturating_sub current_time (ln_last_accrual l);
          elapsed_years = f64_div (f64_of_u64 elapsed) (f64_mul (f64_mul (fl (36525 / 100)) (fl 24)) (fl 3600));
          principal_val = f64_of_u64 (low_u64 (ln_principal l));
          rate_per_year = f64_div (f64_of_nat (unat (ln_rate l))) (fl 10000);
          interest_val = f64_mul (f64_mul principal_val rate_per_year) elapsed_years
      in amount_from_u64 (f64_to_u64 interest_val))"

definition accrue_interest :: "LoanPosition \<Rightarrow> Timestamp \<Rightarrow> LoanPosition" where
  "accrue_interest l current_time =
     (let new_interest = calculate_interest l current_time
      in l\<lparr>ln_interest := (case amount_checked_add (ln_interest l) new_interest of Some i \<Rightarrow> i | None \<Rightarrow> ln_interest l),
           ln_last_accrual := current_time\<rparr>)"

definition total_debt :: "LoanPosition \<Rightarrow> Amount" where
  "total_debt l = (case amount_checked_add (ln_principal l) (ln_interest l) of Some d \<Rightarrow> d | None \<Rightarrow> ln_principal l)"

definition health_factor :: "LoanPosition \<Rightarrow> f64" where
  "health_factor l =
     (let debt = total_debt l in
      if amount_is_zero debt then PInf
      else f64_div (f64_of_u64 (low_u64 (ln_collateral l))) (f64_of_u64 (low_u64_or_1 debt)))"

definition is_liquidatable :: "LoanPosition \<Rightarrow> f64 \<Rightarrow> bool" where
  "is_liquidatable l threshold \<longleftrightarrow> ln_status l = LoanActive \<and> f64_lt (health_factor l) threshold"

record LendingPool =
  ld_base :: LiquidityPool
  ld_interest_model :: InterestRate
  ld_total_borrowed :: Amount
  ld_total_supplied :: Amount
  ld_loans :: "(hash, LoanPosition) fmap"
  ld_collateral_ratio :: u16
  ld_liquidation_threshold :: u16

definition lending_pool_new :: "LiquidityPool \<Rightarrow> InterestRate \<Rightarrow> u16 \<Rightarrow> u16 \<Rightarrow> LendingPool" where
  "lending_pool_new base model ratio threshold =
     \<lparr>ld_base = base, ld_interest_model = model, ld_total_borrowed = amount_zero, ld_total_supplied = amount_zero,
      ld_loans = fmempty, ld_collateral_ratio = ratio, ld_liquidation_threshold = threshold\<rparr>"

definition lending_supply ::
    "Timestamp \<Rightarrow> LendingPool \<Rightarrow> address \<Rightarrow> Amount \<Rightarrow> (unit, LiquidityError) outcome \<times> LendingPool" where
  "lending_supply now p supplier amount =
     (case lq_deposit now (ld_base p) supplier amount of
        (Err e, base) \<Rightarrow> (Err e, p\<lparr>ld_base := base\<rparr>)
      | (Panic, base) \<Rightarrow> (Panic, p\<lparr>ld_base := base\<rparr>)
      | (Ok _, base) \<Rightarrow>
          let p1 = p\<lparr>ld_base := base\<rparr>
          in (case amount_checked_add (ld_total_supplied p1) amount of
                None \<Rightarrow> (Err (CalculationError ''Total supplied overflow''), p1)
              | Some s \<Rightarrow> (Ok (), p1\<lparr>ld_total_supplied := s\<rparr>)))"

definition lending_utilization :: "LendingPool \<Rightarrow> f64" where
  "lending_utilization p =
     (if amount_is_zero (ld_total_supplied p) then Fin 0
      else f64_div (f64_of_u64 (low_u64 (ld_total_borrowed p))) (f64_of_u64 (low_u64_or_1 (ld_total_supplied p))))"

definition borrow_apy :: "LendingPool \<Rightarrow> u16" where
  "borrow_apy p = calculate_rate (ld_interest_model p) (lending_utilization p)"

definition supply_apy :: "LendingPool \<Rightarrow> u16" where
  "supply_apy p = f64_to_u16 (f64_mul (f64_of_nat (unat (borrow_apy p))) (lending_utilization p))"

definition calculate_required_collateral :: "LendingPool \<Rightarrow> Amount \<Rightarrow> Amount" where
  "calculate_required_collateral p borrow_amount =
     (let amount_val = f64_of_u64 (low_u64 borrow_amount);
          ratio = f64_div (f64_of_nat (unat (ld_collateral_ratio p))) (fl 10000)
      in amount_from_u64 (f64_to_u64 (f64_mul amount_val ratio)))"

definition available_liquidity :: "LendingPool \<Rightarrow> Amount" where
  "available_liquidity p =
     (case amount_checked_sub (ld_total_supplied p) (ld_total_borrowed p) of Some a \<Rightarrow> a | None \<Rightarrow> amount_zero)"

definition ascii_bytes :: "string \<Rightarrow> bytes" where
  "ascii_bytes s = map of_char s"

definition debug_address :: "(bytes \<Rightarrow> string) \<Rightarrow> address \<Rightarrow> string" where
  "debug_address hex a = ''Address('' @ address_to_hex hex a @ '')''"

definition generate_loan_id :: "crypto_lib \<Rightarrow> (bytes \<Rightarrow> string) \<Rightarrow> LoanPosition \<Rightarrow> hash" where
  "generate_loan_id L hex l =
     hash_bytes L (ascii_bytes (debug_address hex (ln_borrower l) @ show_u64 (ln_borrowed_at l)))"

definition lending_borrow ::
    "crypto_lib \<Rightarrow> (bytes \<Rightarrow> string) \<Rightarrow> Timestamp \<Rightarrow> LendingPool \<Rightarrow> address \<Rightarrow> Amount \<Rightarrow> Amount
      \<Rightarrow> (hash, LiquidityError) outcome \<times> LendingPool" where
  "lending_borrow L hex now p borrower borrow_amount collateral =
     (let available = available_liquidity p in
      if available < borrow_amount then (Err (InsufficientLiquidity borrow_amount available), p)
      else let required_collateral = calculate_required_collateral p borrow_amount in
      if collateral < required_collateral
      then (Err (DeploymentError (''Insufficient collateral: need '' @ show_nat required_collateral @
              '', provided '' @ show_nat collateral)), p)
      else let rate = calculate_rate (ld_interest_model p) (lending_utilization p);
               loan0 = loan_position_new now borrower borrow_amount collateral rate;
               loan = loan0\<lparr>ln_id := generate_loan_id L hex loan0\<rparr>
      in case amount_checked_add (ld_total_borrowed p) borrow_amount of
           None \<Rightarrow> (Err (CalculationError ''Total borrowed overflow''), p)
         | Some b \<Rightarrow> (Ok (ln_id loan), p\<lparr>ld_total_borrowed := b, ld_loans := fmupd (ln_id loan) loan (ld_loans p)\<rparr>))"

text \<open>The two ends of a repayment, on the loan after interest has accrued.\<close>

definition repay_in_full :: "LendingPool \<Rightarrow> hash \<Rightarrow> LoanPosition \<Rightarrow> (Amount \<times> Amount, LiquidityError) outcome \<times> LendingPool" where
  "repay_in_full p loan_id loan =
     (let p1 = p\<lparr>ld_loans := fmupd loan_id (loan\<lparr>ln_status := LoanRepaid\<rparr>) (ld_loans p)\<rparr>
      in case amount_checked_sub (ld_total_borrowed p1) (ln_principal loan) of
           None \<Rightarrow> (Err (CalculationError ''Total borrowed underflow''), p1)
         | Some b \<Rightarrow> (Ok (ln_collateral loan, amount_zero), p1\<lparr>ld_total_borrowed := b\<rparr>))"

definition repay_in_part ::
    "LendingPool \<Rightarrow> hash \<Rightarrow> LoanPosition \<Rightarrow> Amount \<Rightarrow> Amount \<Rightarrow> (Amount \<times> Amount, LiquidityError) outcome \<times> LendingPool" where
  "repay_in_part p loan_id loan amount remaining_debt =
     (if amount \<le> ln_interest loan
      then (case amount_checked_sub (ln_interest loan) amount of
              None \<Rightarrow> (Err (CalculationError ''Interest underflow''), p\<lparr>ld_loans := fmupd loan_id loan (ld_loans p)\<rparr>)
            | Some i \<Rightarrow> (Ok (amount_zero, remaining_debt),
                p\<lparr>ld_loans := fmupd loan_id (loan\<lparr>ln_interest := i\<rparr>) (ld_loans p)\<rparr>))
      else (case amount_checked_sub amount (ln_interest loan) of
              None \<Rightarrow> (Err (CalculationError ''Calculation error in principal payment''),
                p\<lparr>ld_loans := fmupd loan_id loan (ld_loans p)\<rparr>)
            | Some principal_payment \<Rightarrow>
                let loan1 = loan\<lparr>ln_interest := amount_zero\<rparr>
                in (case amount_checked_sub (ln_principal loan1) principal_payment of
                      None \<Rightarrow> (Err (CalculationError ''Principal underflow''), p\<lparr>ld_loans := fmupd loan_id loan1 (ld_loans p)\<rparr>)
                    | Some pr \<Rightarrow>
                        let p1 = p\<lparr>ld_loans := fmupd loan_id (loan1\<lparr>ln_principal := pr\<rparr>) (ld_loans p)\<rparr>
                        in (case amount_checked_sub (ld_total_borrowed p1) principal_payment of
                              None \<Rightarrow> (Err (CalculationError ''Total borrowed underflow''), p1)
                            | Some b \<Rightarrow> (Ok (amount_zero, remaining_debt), p1\<lparr>ld_total_borrowed := b\<rparr>)))))"

definition lending_repay ::
    "(bytes \<Rightarrow> string) \<Rightarrow> Timestamp \<Rightarrow> LendingPool \<Rightarrow> hash \<Rightarrow> Amount
      \<Rightarrow> (Amount \<times> Amount, LiquidityError) outcome \<times> LendingPool" where
  "lending_repay hex now p loan_id amount =
     (case fmlookup (ld_loans p) loan_id of
        None \<Rightarrow> (Err (PositionNotFound (hash_to_hex hex loan_id)), p)
      | Some loan0 \<Rightarrow>
          if ln_status loan0 \<noteq> LoanActive then (Err (PoolError ''Loan is not active''), p)
          else let loan = accrue_interest loan0 now;
                   debt = total_debt loan;
                   repay_amount = min amount debt
          in (case amount_checked_sub debt repay_amount of
                None \<Rightarrow> (Err (CalculationError ''Repay amount exceeds total debt''),
                  p\<lparr>ld_loans := fmupd loan_id loan (ld_loans p)\<rparr>)
              | Some remaining_debt \<Rightarrow>
                  if amount_is_zero remaining_debt then repay_in_full p loan_id loan
                  else repay_in_part p loan_id loan amount remaining_debt))"

definition lending_liquidate ::
    "(bytes \<Rightarrow> string) \<Rightarrow> (f64 \<Rightarrow> string) \<Rightarrow> LendingPool \<Rightarrow> hash \<Rightarrow> (address \<times> Amount, LiquidityError) outcome \<times> LendingPool" where
  "lending_liquidate hex show_f64 p loan_id =
     (case fmlookup (ld_loans p) loan_id of
        None \<Rightarrow> (Err (PositionNotFound (hash_to_hex hex loan_id)), p)
      | Some loan \<Rightarrow>
          let threshold = f64_div (f64_of_nat (unat (ld_liquidation_threshold p))) (fl 10000) in
          if \<not> is_liquidatable loan threshold
          then (Err (PoolError (''Loan not liquidatable, health factor: '' @ show_f64 (health_factor loan))), p)
          else let p1 = p\<lparr>ld_loans := fmupd loan_id (loan\<lparr>ln_status := LoanLiquidated\<rparr>) (ld_loans p)\<rparr>
          in (case amount_checked_sub (ld_total_borrowed p1) (ln_principal loan) of
                None \<Rightarrow> (Err (CalculationError ''Total borrowed underflow''), p1)
              | Some b \<Rightarrow> (Ok (ln_borrower loan, ln_collateral loan), p1\<lparr>ld_total_borrowed := b\<rparr>)))"

definition get_loan :: "LendingPool \<Rightarrow> hash \<Rightarrow> LoanPosition option" where
  "get_loan p loan_id = fmlookup (ld_loans p) loan_id"

text \<open>The order of the result is that of the hash map's enumeration \<open>iter\<close>.\<close>

definition active_loans :: "(hash \<times> LoanPosition) list \<Rightarrow> LoanPosition list" where
  "active_loans iter = filter (\<lambda>l. ln_status l = LoanActive) (map snd iter)"

section \<open>The invariant\<close>

definition active_principal :: "LoanPosition \<Rightarrow> nat" where
  "active_principal l = (if ln_status l = LoanActive then ln_principal l else 0)"

text \<open>
  The books of the lending pool: what is supplied is what the base pool holds, no more is
  borrowed than supplied, and the principals of the active loans are covered by what counts as
  borrowed. They may add up to less, since a loan can be overwritten by another.
\<close>

definition lending_ok :: "LendingPool \<Rightarrow> bool" where
  "lending_ok p \<longleftrightarrow> lq_ok (ld_base p) \<and> pi_tvl (lq_info (ld_base p)) = ld_total_supplied p \<and>
     ld_total_borrowed p \<le> ld_total_supplied p \<and> fm_sum active_principal (ld_loans p) \<le> ld_total_borrowed p \<and>
     (\<forall>i l. fmlookup (ld_loans p) i = Some l \<longrightarrow> ln_id l = i)"

lemma available_liquidity_eq: "available_liquidity p = ld_total_supplied p - ld_total_borrowed p"
  by (simp add: available_liquidity_def amount_defs)

lemma total_debt_eq: "total_debt l = ln_principal l + ln_interest l"
  by (simp add: total_debt_def amount_defs)

lemma accrue_interest_eq:
  "accrue_interest l t = l\<lparr>ln_interest := ln_interest l + calculate_interest l t, ln_last_accrual := t\<rparr>"
  by (simp add: accrue_interest_def amount_defs Let_def)

lemma active_principal_le:
  "lending_ok p \<Longrightarrow> fmlookup (ld_loans p) i = Some l \<Longrightarrow> ln_status l = LoanActive \<Longrightarrow> ln_principal l \<le> ld_total_borrowed p"
  using fm_sum_member [of "ld_loans p" i l active_principal] by (simp add: lending_ok_def active_principal_def)

lemma lending_borrow_eq:
  "lending_borrow L hex now p borrower n coll =
     (if ld_total_supplied p - ld_total_borrowed p < n
      then (Err (InsufficientLiquidity n (ld_total_supplied p - ld_total_borrowed p)), p)
      else if coll < calculate_required_collateral p n
      then (Err (DeploymentError (''Insufficient collateral: need '' @ show_nat (calculate_required_collateral p n) @
              '', provided '' @ show_nat coll)), p)
      else let l = loan_position_new now borrower n coll (borrow_apy p); i = generate_loan_id L hex l
           in (Ok i, p\<lparr>ld_total_borrowed := ld_total_borrowed p + n, ld_loans := fmupd i (l\<lparr>ln_id := i\<rparr>) (ld_loans p)\<rparr>))"
  by (simp add: lending_borrow_def available_liquidity_eq amount_defs Let_def borrow_apy_def)

lemma lending_repay_eq:
  fixes now
  assumes "lending_ok p" and "fmlookup (ld_loans p) i = Some l" and "ln_status l = LoanActive"
  defines "l1 \<equiv> accrue_interest l now"
  shows "lending_repay hex now p i amount =
    (if total_debt l1 \<le> amount
     then (Ok (ln_collateral l, 0), p\<lparr>ld_loans := fmupd i (l1\<lparr>ln_status := LoanRepaid\<rparr>) (ld_loans p),
             ld_total_borrowed := ld_total_borrowed p - ln_principal l\<rparr>)
     else if amount \<le> ln_interest l1
     then (Ok (0, total_debt l1 - amount), p\<lparr>ld_loans := fmupd i (l1\<lparr>ln_interest := ln_interest l1 - amount\<rparr>) (ld_loans p)\<rparr>)
     else (Ok (0, total_debt l1 - amount),
       p\<lparr>ld_loans := fmupd i (l1\<lparr>ln_interest := 0, ln_principal := ln_principal l1 - (amount - ln_interest l1)\<rparr>) (ld_loans p),
         ld_total_borrowed := ld_total_borrowed p - (amount - ln_interest l1)\<rparr>))"
  using active_principal_le [OF assms(1-3)] assms(2,3) unfolding l1_def
  by (auto simp: lending_repay_def repay_in_full_def repay_in_part_def amount_defs Let_def total_debt_eq accrue_interest_eq)

lemma lending_ok_new: "lq_ok base \<Longrightarrow> pi_tvl (lq_info base) = 0 \<Longrightarrow> lending_ok (lending_pool_new base ir r t)"
  by (simp add: lending_ok_def lending_pool_new_def amount_zero_def)

lemma lending_ok_supply: "lending_ok p \<Longrightarrow> lending_ok (snd (lending_supply now p v n))"
  using lq_ok_deposit [of "ld_base p" now v n]
  by (auto simp: lending_supply_def lq_deposit_eq lending_ok_def amount_defs)

lemma fm_sum_put_le: "fm_sum f (fmupd k v m) \<le> fm_sum f m + f v"
proof (cases "fmlookup m k")
  case (Some u)
  then show ?thesis using fm_sum_put_old [of m k u f v] by linarith
qed (simp add: fm_sum_put_new)

lemma lending_ok_borrow:
  assumes ok: "lending_ok p"
  shows "lending_ok (snd (lending_borrow L hex now p v n c))"
proof -
  let ?l = "loan_position_new now v n c (borrow_apy p)"
  obtain i where i: "generate_loan_id L hex ?l = i" by blast
  have "active_principal (?l\<lparr>ln_id := i\<rparr>) = n" by (simp add: active_principal_def loan_position_new_def)
  then have "fm_sum active_principal (fmupd i (?l\<lparr>ln_id := i\<rparr>) (ld_loans p)) \<le> fm_sum active_principal (ld_loans p) + n"
    using fm_sum_put_le [of active_principal i "?l\<lparr>ln_id := i\<rparr>" "ld_loans p"] by simp
  then show ?thesis using ok by (auto simp: lending_borrow_eq lending_ok_def Let_def i)
qed

lemma lending_ok_update:
  assumes "lending_ok p" and "fmlookup (ld_loans p) i = Some l"
    and "active_principal l' + b = active_principal l" and "ln_id l' = i"
  shows "lending_ok (p\<lparr>ld_loans := fmupd i l' (ld_loans p), ld_total_borrowed := ld_total_borrowed p - b\<rparr>)"
  using assms fm_sum_put_old [OF assms(2), of active_principal l'] by (auto simp: lending_ok_def)

lemma lending_ok_repay:
  assumes ok: "lending_ok p"
  shows "lending_ok (snd (lending_repay hex now p i a))"
proof (cases "\<exists>l. fmlookup (ld_loans p) i = Some l \<and> ln_status l = LoanActive")
  case True
  then obtain l where l: "fmlookup (ld_loans p) i = Some l" "ln_status l = LoanActive" by blast
  have i: "ln_id l = i" using ok l by (simp add: lending_ok_def)
  let ?l = "accrue_interest l now"
  have k: "active_principal l = ln_principal l" "ln_principal ?l = ln_principal l" "ln_status ?l = LoanActive" "ln_id ?l = i"
    using l i by (simp_all add: active_principal_def accrue_interest_eq)
  note u = lending_ok_update [OF ok l(1)]
  show ?thesis
    using u [of "?l\<lparr>ln_status := LoanRepaid\<rparr>" "ln_principal l"] u [of "?l\<lparr>ln_interest := ln_interest ?l - a\<rparr>" 0]
      u [of "?l\<lparr>ln_interest := 0, ln_principal := ln_principal ?l - (a - ln_interest ?l)\<rparr>" "a - ln_interest ?l"] k
    by (auto simp: lending_repay_eq [OF ok l] active_principal_def total_debt_eq)
qed (auto simp: lending_repay_def ok split: option.splits)

lemma lending_liquidate_eq:
  assumes "lending_ok p" and "fmlookup (ld_loans p) i = Some l"
    and "is_liquidatable l (f64_div (f64_of_nat (unat (ld_liquidation_threshold p))) (fl 10000))"
  shows "lending_liquidate hex show_f64 p i =
    (Ok (ln_borrower l, ln_collateral l), p\<lparr>ld_loans := fmupd i (l\<lparr>ln_status := LoanLiquidated\<rparr>) (ld_loans p),
       ld_total_borrowed := ld_total_borrowed p - ln_principal l\<rparr>)"
  using assms active_principal_le [OF assms(1,2)]
  by (simp add: lending_liquidate_def amount_defs is_liquidatable_def)

lemma lending_ok_liquidate:
  assumes ok: "lending_ok p"
  shows "lending_ok (snd (lending_liquidate hex show_f64 p i))"
proof (cases "\<exists>l. fmlookup (ld_loans p) i = Some l \<and>
    is_liquidatable l (f64_div (f64_of_nat (unat (ld_liquidation_threshold p))) (fl 10000))")
  case True
  then obtain l where l: "fmlookup (ld_loans p) i = Some l"
    and t: "is_liquidatable l (f64_div (f64_of_nat (unat (ld_liquidation_threshold p))) (fl 10000))" by blast
  have "ln_id l = i" using ok l by (simp add: lending_ok_def)
  then show ?thesis using lending_ok_update [OF ok l, of "l\<lparr>ln_status := LoanLiquidated\<rparr>" "ln_principal l"] t
    by (simp add: lending_liquidate_eq [OF ok l t] active_principal_def is_liquidatable_def)
qed (auto simp: lending_liquidate_def ok split: option.splits)

section \<open>Interpolation of rates\<close>

definition interpolate :: "nat \<Rightarrow> nat \<Rightarrow> nat \<Rightarrow> nat" where
  "interpolate d m k = f64_to_nat (2 ^ 16 - 1) (f64_mul (f64_of_nat d) (f64_div (f64_of_nat m) (f64_of_nat k)))"

lemma f64_to_nat_mono: "a \<le> b \<Longrightarrow> f64_to_nat hi (Fin a) \<le> f64_to_nat hi (Fin b)"
  by (simp add: min.coboundedI2 nat_mono floor_mono min_le_iff_disj)

lemma interpolate_value:
  assumes "m \<le> k" and "0 < k" and "k \<le> 2 ^ 53" and "d \<le> 2 ^ 53"
  shows "\<exists>r s. fl (of_nat m / of_nat k) = Fin r \<and> fl (of_nat d * r) = Fin s \<and> s \<le> of_nat d \<and> 0 \<le> r \<and>
    interpolate d m k = f64_to_nat (2 ^ 16 - 1) (Fin s)"
proof -
  have q: "0 \<le> (of_nat m / of_nat k :: rat)" "(of_nat m / of_nat k :: rat) \<le> 1"
    using assms(1,2) by (simp_all add: divide_le_eq_1)
  then obtain r where r: "fl (of_nat m / of_nat k) = Fin r" "0 \<le> r" "r \<le> 1"
    using fl_between [OF representable_0 representable_1] by blast
  have "0 \<le> of_nat d * r" "of_nat d * r \<le> of_nat d * 1" using r by (simp, intro mult_left_mono) simp_all
  then obtain s where s: "fl (of_nat d * r) = Fin s" "s \<le> of_nat d"
    using fl_between [OF representable_0 representable_of_nat [OF assms(4)], of "of_nat d * r"] by auto
  have k: "(of_nat k :: rat) \<noteq> 0" using assms(2) by simp
  have v: "f64_of_nat d = Fin (of_nat d)" "f64_of_nat m = Fin (of_nat m)" "f64_of_nat k = Fin (of_nat k)"
    using assms by (simp_all add: fl_of_nat)
  have "interpolate d m k = f64_to_nat (2 ^ 16 - 1) (Fin s)"
    unfolding interpolate_def v f64_div.simps f64_mul.simps if_not_P [OF k] r(1) s(1) ..
  then show ?thesis using r s by blast
qed

lemma interpolate_le:
  assumes "m \<le> k" and "k \<le> 2 ^ 53" and "d \<le> 2 ^ 53"
  shows "interpolate d m k \<le> d"
proof (cases "k = 0")
  case True
  moreover have "f64_of_nat 0 = Fin 0" by (simp add: f64_of_nat_def)
  moreover have "f64_mul x NaN = NaN" for x by (cases x) simp_all
  ultimately show ?thesis using assms(1) by (simp add: interpolate_def inf_of_sign_def)
next
  case False
  then obtain s where s: "s \<le> of_nat d" "interpolate d m k = f64_to_nat (2 ^ 16 - 1) (Fin s)"
    using interpolate_value [of m k d] assms by auto
  show ?thesis unfolding s(2) using s(1) by (rule f64_to_nat_le)
qed

lemma interpolate_mono:
  assumes "m \<le> n" and "n \<le> k" and "k \<le> 2 ^ 53" and "d \<le> 2 ^ 53"
  shows "interpolate d m k \<le> interpolate d n k"
proof (cases "k = 0")
  case False
  obtain r s where m: "fl (of_nat m / of_nat k) = Fin r" "fl (of_nat d * r) = Fin s"
      "interpolate d m k = f64_to_nat (2 ^ 16 - 1) (Fin s)"
    using interpolate_value [of m k d] False assms by auto
  obtain r' s' where n: "fl (of_nat n / of_nat k) = Fin r'" "fl (of_nat d * r') = Fin s'"
      "interpolate d n k = f64_to_nat (2 ^ 16 - 1) (Fin s')"
    using interpolate_value [of n k d] False assms by auto
  have "(of_nat m / of_nat k :: rat) \<le> of_nat n / of_nat k" using assms(1) False by (intro divide_right_mono) simp_all
  then have "r \<le> r'" using m(1) n(1) by (rule fl_mono)
  then have "of_nat d * r \<le> of_nat d * r'" by (intro mult_left_mono) simp_all
  then have "s \<le> s'" using m(2) n(2) by (rule fl_mono)
  then show ?thesis unfolding m(3) n(3) by (rule f64_to_nat_mono)
qed (use assms in simp)

text \<open>The utilisation in basis points, and the rate as a function of it.\<close>

lemma utilization_bp:
  assumes "0 \<le> u" and "u \<le> v" and "v \<le> 1"
  shows "unat (f64_to_u16 (f64_mul (Fin u) (fl 10000))) \<le> unat (f64_to_u16 (f64_mul (Fin v) (fl 10000)))"
    and "unat (f64_to_u16 (f64_mul (Fin v) (fl 10000))) \<le> 10000"
proof -
  have t: "fl 10000 = Fin 10000" by (rule fl_exact [OF representable_numeral]) simp
  have "\<exists>r. fl (w * 10000) = Fin r \<and> r \<le> 10000" if "0 \<le> w" "w \<le> 1" for w :: rat
    using fl_between_nat [of 0 10000 "w * 10000"] that by auto
  then obtain r s where rs: "fl (u * 10000) = Fin r" "fl (v * 10000) = Fin s" "s \<le> 10000" using assms by (meson order_trans)
  have "r \<le> s" by (rule fl_mono [OF _ rs(1,2)]) (use assms in simp)
  then show "unat (f64_to_u16 (f64_mul (Fin u) (fl 10000))) \<le> unat (f64_to_u16 (f64_mul (Fin v) (fl 10000)))"
    unfolding unat_f64_to_u16 t f64_mul.simps rs by (rule f64_to_nat_mono)
  show "unat (f64_to_u16 (f64_mul (Fin v) (fl 10000))) \<le> 10000"
    unfolding unat_f64_to_u16 t f64_mul.simps rs by (rule f64_to_nat_le) (use rs(3) in simp)
qed

definition rate_at :: "InterestRate \<Rightarrow> nat \<Rightarrow> nat" where
  "rate_at ir n =
     (if n \<le> unat (ir_optimal_utilization ir)
      then unat (ir_base_rate ir) + interpolate (unat (ir_rate_at_optimal ir) - unat (ir_base_rate ir)) n (unat (ir_optimal_utilization ir))
      else unat (ir_rate_at_optimal ir) + interpolate (unat (ir_max_rate ir) - unat (ir_rate_at_optimal ir))
             (n - unat (ir_optimal_utilization ir)) (10000 - unat (ir_optimal_utilization ir)))"

definition rates_ordered :: "InterestRate \<Rightarrow> bool" where
  "rates_ordered ir \<longleftrightarrow> ir_base_rate ir \<le> ir_rate_at_optimal ir \<and> ir_rate_at_optimal ir \<le> ir_max_rate ir \<and>
     ir_optimal_utilization ir \<le> 10000"

lemma unat_u16_less: "unat (w :: u16) < 2 ^ 16"
  using unsigned_less [of w, where 'a = nat] by simp

lemma rate_at_bounds:
  assumes "rates_ordered ir" and "m \<le> n" and "n \<le> 10000"
  shows "unat (ir_base_rate ir) \<le> rate_at ir m" and "rate_at ir m \<le> rate_at ir n" and "rate_at ir n \<le> unat (ir_max_rate ir)"
proof -
  let ?b = "unat (ir_base_rate ir)" and ?o = "unat (ir_rate_at_optimal ir)" and ?x = "unat (ir_max_rate ir)" and ?u = "unat (ir_optimal_utilization ir)"
  have o: "?b \<le> ?o" "?o \<le> ?x" "?u \<le> 10000" using assms(1) by (simp_all add: rates_ordered_def word_le_nat_alt)
  have x: "?x < 2 ^ 16" by (rule unat_u16_less)
  have d: "?o - ?b \<le> 2 ^ 53" "?x - ?o \<le> 2 ^ 53" "?u \<le> 2 ^ 53" "10000 - ?u \<le> 2 ^ 53" using o x by auto
  have low: "interpolate (?o - ?b) k ?u \<le> ?o - ?b" if "k \<le> ?u" for k using that d by (intro interpolate_le)
  have high: "interpolate (?x - ?o) (k - ?u) (10000 - ?u) \<le> ?x - ?o" if "k \<le> 10000" for k
    using that d by (intro interpolate_le) simp_all
  show "?b \<le> rate_at ir m" using o by (simp add: rate_at_def)
  show "rate_at ir n \<le> ?x" using low [of n] high [of n] o assms(3) by (auto simp: rate_at_def)
  show "rate_at ir m \<le> rate_at ir n"
  proof (cases "n \<le> ?u")
    case True
    then show ?thesis using assms(2) interpolate_mono [of m n ?u "?o - ?b"] d by (simp add: rate_at_def)
  next
    case False
    then show ?thesis using assms(2,3) low [of m] o d interpolate_mono [of "m - ?u" "n - ?u" "10000 - ?u" "?x - ?o"]
      by (auto simp: rate_at_def)
  qed
qed

lemma calculate_rate_eq:
  assumes "rates_ordered ir" and "0 \<le> u" and "u \<le> 1"
  shows "unat (calculate_rate ir (Fin u)) = rate_at ir (unat (f64_to_u16 (f64_mul (Fin u) (fl 10000))))"
proof -
  let ?w = "f64_to_u16 (f64_mul (Fin u) (fl 10000))"
  have w: "unat ?w \<le> 10000" using utilization_bp(2) [of u u] assms by simp
  have o: "ir_base_rate ir \<le> ir_rate_at_optimal ir" "ir_rate_at_optimal ir \<le> ir_max_rate ir" "ir_optimal_utilization ir \<le> 10000"
    using assms(1) by (simp_all add: rates_ordered_def)
  have add: "unat (a + f64_to_u16 (f64_mul (f64_of_nat d) (f64_div (f64_of_nat m) (f64_of_nat k)))) = unat a + interpolate d m k"
    if "unat a + interpolate d m k < 2 ^ 16" for a :: u16 and d m k
    using that unat_add_lem [of a "f64_to_u16 (f64_mul (f64_of_nat d) (f64_div (f64_of_nat m) (f64_of_nat k)))"]
    unfolding unat_f64_to_u16 interpolate_def by simp
  have r: "rate_at ir (unat ?w) < 2 ^ 16"
    using le_less_trans [OF rate_at_bounds(3) [OF assms(1) order_refl w] unat_u16_less] .
  have ten: "unat (10000 :: u16) = 10000" by simp
  have d: "unat (ir_rate_at_optimal ir - ir_base_rate ir) = unat (ir_rate_at_optimal ir) - unat (ir_base_rate ir)"
    "unat (ir_max_rate ir - ir_rate_at_optimal ir) = unat (ir_max_rate ir) - unat (ir_rate_at_optimal ir)"
    "unat (10000 - ir_optimal_utilization ir) = 10000 - unat (ir_optimal_utilization ir)"
    using o by (simp_all only: unat_sub ten)
  show ?thesis
  proof (cases "?w \<le> ir_optimal_utilization ir")
    case True
    then show ?thesis using add [of "ir_base_rate ir"] r
      unfolding calculate_rate_def Let_def rate_at_def if_P [OF True] d by (simp add: word_le_nat_alt)
  next
    case False
    then have "unat (?w - ir_optimal_utilization ir) = unat ?w - unat (ir_optimal_utilization ir)" by (simp add: unat_sub)
    then show ?thesis using False add [of "ir_rate_at_optimal ir"] r
      unfolding calculate_rate_def Let_def rate_at_def if_not_P [OF False] d by (simp add: word_le_nat_alt)
  qed
qed

section \<open>Reachable lending pools\<close>

inductive lending_step :: "LendingPool \<Rightarrow> LendingPool \<Rightarrow> bool" where
  step_supply: "lending_step p (snd (lending_supply now p v n))"
| step_borrow: "lending_step p (snd (lending_borrow L hex now p v n c))"
| step_repay: "lending_step p (snd (lending_repay hex now p i n))"
| step_liquidate: "lending_step p (snd (lending_liquidate hex show_f64 p i))"

definition lending_init :: "LendingPool \<Rightarrow> bool" where
  "lending_init p \<longleftrightarrow> (\<exists>now t i ty n ow apy r ir cr lt.
     p = lending_pool_new (liquidity_pool_new now (pool_info_new t i ty n ow apy r)) ir cr lt)"

lemma lending_init_new: "lending_init (lending_pool_new (liquidity_pool_new now (pool_info_new t i ty n ow apy r)) ir cr lt)"
  unfolding lending_init_def by blast

interpretation lending: invariant_machine lending_init lending_step lending_ok
proof
  fix p p'
  have "pi_tvl (lq_info (liquidity_pool_new now (pool_info_new t i ty n ow apy r))) = 0" for now t i ty n ow apy r
    by (simp add: liquidity_pool_new_def pool_info_new_def amount_zero_def)
  then show "lending_init p \<Longrightarrow> lending_ok p" unfolding lending_init_def using lending_ok_new [OF lq_ok_new] by blast
  show "lending_ok p \<Longrightarrow> lending_step p p' \<Longrightarrow> lending_ok p'"
    by (erule lending_step.cases) (simp_all add: lending_ok_supply lending_ok_borrow lending_ok_repay lending_ok_liquidate)
qed

lemma collateral_of_multiple: "calculate_required_collateral p (n * 2 ^ 64) = 0"
proof -
  obtain k where k: "unat (ld_collateral_ratio p) = k" by blast
  have k16: "k \<le> 2 ^ 16" using unat_u16_less [of "ld_collateral_ratio p"] k by simp
  have z: "f64_of_u64 (low_u64 (n * 2 ^ 64)) = Fin 0"
    unfolding low_u64_def by (subst word_of_nat_eq_0_iff [THEN iffD2]) (simp_all add: f64_of_nat_def)
  have t: "fl 10000 = Fin 10000" by (rule fl_exact [OF representable_numeral]) simp
  have f: "f64_of_nat k = Fin (of_nat k)" using k16 by (intro fl_of_nat) simp
  have "(of_nat k :: rat) \<le> of_nat (2 ^ 16)" using k16 by (rule of_nat_mono)
  then obtain r where r: "fl (of_nat k / 10000) = Fin r"
    using fl_between_nat [of 0 "2 ^ 16" "of_nat k / 10000"] by auto
  show ?thesis unfolding calculate_required_collateral_def Let_def z k f t
    using r by (simp add: f64_to_u64_def amount_from_u64_def)
qed

lemma required_collateral_bound: "calculate_required_collateral p k < 2 ^ 64"
  by (simp add: calculate_required_collateral_def amount_from_u64_def Let_def unat_less_u64 [simplified])

lemma calculate_interest_bound: "calculate_interest l t < 2 ^ 64"
  by (simp add: calculate_interest_def amount_from_u64_def Let_def unat_less_u64 [simplified])

section \<open>Properties\<close>

definition example_lending :: LendingPool where
  "example_lending = snd (lending_supply 4 (lending_pool_new (liquidity_pool_new 3 (pool_info_new 3 1 Lending ''Test'' 0 1000 500))
     interest_rate_standard 15000 12000) 7 1000)"

lemma example_lending_reachable:
  "lending_step\<^sup>*\<^sup>* (lending_pool_new (liquidity_pool_new 3 (pool_info_new 3 1 Lending ''Test'' 0 1000 500))
     interest_rate_standard 15000 12000) example_lending"
  unfolding example_lending_def by (intro r_into_rtranclp step_supply)

definition example_loan :: "LendingPool" where
  "example_loan = snd (lending_borrow demo_lib (\<lambda>_. []) 5 example_lending 8 100 (2 ^ 64))"

definition example_loan_id :: hash where
  "example_loan_id = generate_loan_id demo_lib (\<lambda>_. []) (loan_position_new 5 8 100 (2 ^ 64) 0)"

lemma example_loan_reachable:
  "lending_step\<^sup>*\<^sup>* (lending_pool_new (liquidity_pool_new 3 (pool_info_new 3 1 Lending ''Test'' 0 1000 500))
     interest_rate_standard 15000 12000) example_loan"
  unfolding example_loan_def by (rule rtranclp.rtrancl_into_rtrancl [OF example_lending_reachable step_borrow])

lemma example_lending_totals: "ld_total_supplied example_lending = 1000" "ld_total_borrowed example_lending = 0"
  by (simp_all add: example_lending_def lending_supply_def lq_deposit_eq lending_pool_new_def liquidity_pool_new_def
      pool_info_new_def amount_zero_def amount_checked_add_def)

lemma example_loan_get:
  "get_loan example_loan example_loan_id = Some ((loan_position_new 5 8 100 (2 ^ 64) (borrow_apy example_lending))\<lparr>ln_id := example_loan_id\<rparr>)"
  using required_collateral_bound [of example_lending 100]
  by (simp add: example_loan_def lending_borrow_eq example_lending_totals Let_def get_loan_def example_loan_id_def
      generate_loan_id_def loan_position_new_def)

text \<open>C19. Every lending pool that any sequence of calls reaches, failed ones included, is solvent: it never
  lends more than was supplied, the supply is what the base pool holds, and the principals of the active
  loans are covered by the borrowed total, so repaying and liquidating cannot underflow.\<close>

theorem lending_reachable:
  assumes "lending_step\<^sup>*\<^sup>* (lending_pool_new (liquidity_pool_new now (pool_info_new t i ty n ow apy r)) ir cr lt) p"
  shows "lending_ok p"
  by (rule lending.reachable_inv [OF lending_init_new assms])

theorem lending_reachable_witness: "lending_ok example_lending"
  by (rule lending_reachable [OF example_lending_reachable])

text \<open>C20. A repayment of an active loan in a reachable pool always succeeds and settles exactly what is paid.
  The debt is principal, interest and the interest accrued since; paying at least that returns the
  collateral, closes the loan and takes its principal off the borrowed total; paying less leaves a debt of
  exactly the difference, taken from the interest first, and the borrowed total falls with the principal.\<close>

theorem lending_repay_correct:
  fixes p loan_id l now amount hex
  assumes "lending_step\<^sup>*\<^sup>* (lending_pool_new (liquidity_pool_new now0 (pool_info_new t i ty n ow apy r)) ir cr lt) p"
    and "get_loan p loan_id = Some l" and "ln_status l = LoanActive"
  defines "interest \<equiv> ln_interest l + calculate_interest l now" and "debt \<equiv> ln_principal l + (ln_interest l + calculate_interest l now)"
    and "res \<equiv> lending_repay hex now p loan_id amount"
  shows "\<exists>l'. get_loan (snd res) loan_id = Some l' \<and>
    fst res = (if debt \<le> amount then Ok (ln_collateral l, 0) else Ok (0, debt - amount)) \<and>
    ln_status l' = (if debt \<le> amount then LoanRepaid else LoanActive) \<and>
    (amount < debt \<longrightarrow> total_debt l' = debt - amount \<and> (ln_principal l' = ln_principal l \<or> ln_interest l' = 0)) \<and>
    ld_total_borrowed (snd res) + (if debt \<le> amount then ln_principal l else amount - interest) = ld_total_borrowed p"
proof -
  have ok: "lending_ok p" by (rule lending.reachable_inv [OF lending_init_new assms(1)])
  have l: "fmlookup (ld_loans p) loan_id = Some l" using assms(2) by (simp add: get_loan_def)
  note le = active_principal_le [OF ok l assms(3)]
  show ?thesis using le assms(3) unfolding res_def lending_repay_eq [OF ok l assms(3)] debt_def interest_def
    by (auto simp: get_loan_def total_debt_eq accrue_interest_eq)
qed

theorem lending_repay_correct_witness:
  "fst (lending_repay (\<lambda>_. []) 9 example_loan example_loan_id (2 ^ 65)) = Ok (2 ^ 64, 0)"
  using lending_repay_correct [OF example_loan_reachable example_loan_get, where now = 9 and hex = "\<lambda>_. []" and amount = "2 ^ 65"]
    calculate_interest_bound [of "(loan_position_new 5 8 100 (2 ^ 64) (borrow_apy example_lending))\<lparr>ln_id := example_loan_id\<rparr>" 9]
  by (auto simp: loan_position_new_def amount_zero_def)

text \<open>The borrow rate follows utilisation: for a model whose rates are ordered, as in the standard one, it
  never falls when utilisation rises, and it stays between the base rate and the maximum rate, whatever
  the roundings of the interpolation.\<close>

lemma calculate_rate_monotone:
  assumes "rates_ordered ir" and "0 \<le> u" and "u \<le> v" and "v \<le> 1"
  shows "ir_base_rate ir \<le> calculate_rate ir (Fin u) \<and> calculate_rate ir (Fin u) \<le> calculate_rate ir (Fin v) \<and>
    calculate_rate ir (Fin v) \<le> ir_max_rate ir"
proof -
  note u = utilization_bp [OF assms(2-4)]
  have "0 \<le> v" "u \<le> 1" using assms by simp_all
  then show ?thesis using rate_at_bounds [OF assms(1) u]
    by (simp add: word_le_nat_alt calculate_rate_eq assms)
qed

lemma calculate_rate_monotone_witness:
  "200 \<le> calculate_rate interest_rate_standard (Fin (1 / 2)) \<and> calculate_rate interest_rate_standard (Fin 1) \<le> 5000"
  using calculate_rate_monotone [of interest_rate_standard "1 / 2" 1]
  by (simp add: interest_rate_standard_def rates_ordered_def)

text \<open>Loans without collateral and loans that vanish. The required collateral is computed from the low 64
  bits, so a loan of a multiple of \<open>2^64\<close> base units needs none. And the loan's id is the hash of borrower
  and second, so a second loan of the same borrower in the same second replaces the first: its record
  with the collateral is gone while both principals stay counted as borrowed.\<close>

lemma lending_borrow_flaws:
  fixes p n k L hex now borrower c
  assumes "n * 2 ^ 64 + k \<le> ld_total_supplied p - ld_total_borrowed p" and "calculate_required_collateral p k \<le> c"
  defines "first \<equiv> lending_borrow L hex now p borrower (n * 2 ^ 64) 0"
  defines "second \<equiv> lending_borrow L hex now (snd first) borrower k c"
  shows "\<exists>i. fst first = Ok i \<and> fst second = Ok i \<and>
    (\<exists>l. get_loan (snd second) i = Some l \<and> ln_principal l = k \<and> ln_collateral l = c) \<and>
    ld_total_borrowed (snd second) = ld_total_borrowed p + n * 2 ^ 64 + k"
proof -
  note none = collateral_of_multiple [of p n]
  obtain i where i: "\<And>m d x. generate_loan_id L hex (loan_position_new now borrower m d x) = i"
    by (rule that [of "generate_loan_id L hex (loan_position_new now borrower 0 0 0)"])
      (simp add: generate_loan_id_def loan_position_new_def)
  have f: "first = (Ok i, p\<lparr>ld_total_borrowed := ld_total_borrowed p + n * 2 ^ 64,
      ld_loans := fmupd i ((loan_position_new now borrower (n * 2 ^ 64) 0 (borrow_apy p))\<lparr>ln_id := i\<rparr>) (ld_loans p)\<rparr>)"
    using assms(1) none by (simp add: first_def lending_borrow_eq Let_def i)
  then have "calculate_required_collateral (snd first) k = calculate_required_collateral p k"
    by (simp add: calculate_required_collateral_def)
  then have "second = (Ok i, (snd first)\<lparr>ld_total_borrowed := ld_total_borrowed (snd first) + k,
      ld_loans := fmupd i ((loan_position_new now borrower k c (borrow_apy (snd first)))\<lparr>ln_id := i\<rparr>) (ld_loans (snd first))\<rparr>)"
    using assms(1,2) f by (simp add: second_def lending_borrow_eq Let_def i)
  then show ?thesis using f by (simp add: get_loan_def) (simp add: loan_position_new_def)
qed

lemma lending_borrow_flaws_witness:
  "\<exists>i. fst (lending_borrow demo_lib (\<lambda>_. []) 5 (example_lending\<lparr>ld_total_supplied := 2 ^ 66\<rparr>) 8 (1 * 2 ^ 64) 0) = Ok i"
proof -
  let ?p = "example_lending\<lparr>ld_total_supplied := 2 ^ 66\<rparr>"
  have "1 * 2 ^ 64 + 0 \<le> ld_total_supplied ?p - ld_total_borrowed ?p" by (simp add: example_lending_totals)
  moreover have "calculate_required_collateral ?p 0 \<le> 2 ^ 64" using required_collateral_bound [of ?p 0] by simp
  ultimately show ?thesis using lending_borrow_flaws [of 1 0 ?p "2 ^ 64", where L = demo_lib and hex = "\<lambda>_. []" and now = 5 and borrower = 8] by blast
qed

end
