(* ===== verification/Treasury.thy ===== *)
theory Treasury
  imports Lending
begin

text \<open>
  \<open>treasury.rs\<close> of the \<open>liquidity\<close> crate: budget categories and grants that are paid milestone by
  milestone. A grant does not record its category; every call names one.
\<close>

record Milestone =
  ms_description :: string
  ms_amount :: Amount
  ms_deadline :: Timestamp
  ms_completed :: bool
  ms_completed_at :: "Timestamp option"

datatype GrantStatus = GrantProposed | GrantApproved | GrantActive | GrantCompleted | GrantRejected | GrantCancelled

record Grant =
  gr_id :: hash
  gr_recipient :: address
  gr_amount :: Amount
  gr_purpose :: string
  gr_milestones :: "Milestone list"
  gr_current_milestone :: nat
  gr_disbursed :: Amount
  gr_proposed_at :: Timestamp
  gr_approved_at :: "Timestamp option"
  gr_status :: GrantStatus

definition grant_new :: "Timestamp \<Rightarrow> address \<Rightarrow> Amount \<Rightarrow> string \<Rightarrow> Milestone list \<Rightarrow> Grant" where
  "grant_new now recip amount purpose milestones =
     \<lparr>gr_id = hash_zero, gr_recipient = recip, gr_amount = amount, gr_purpose = purpose, gr_milestones = milestones,
      gr_current_milestone = 0, gr_disbursed = amount_zero, gr_proposed_at = now, gr_approved_at = None,
      gr_status = GrantProposed\<rparr>"

definition total_milestone_amounts :: "Grant \<Rightarrow> Amount" where
  "total_milestone_amounts g =
     foldl (\<lambda>acc m. case amount_checked_add acc (ms_amount m) of Some a \<Rightarrow> a | None \<Rightarrow> acc) amount_zero (gr_milestones g)"

definition current_milestone_info :: "Grant \<Rightarrow> Milestone option" where
  "current_milestone_info g =
     (if gr_current_milestone g < length (gr_milestones g) then Some (gr_milestones g ! gr_current_milestone g) else None)"

definition grant_is_complete :: "Grant \<Rightarrow> bool" where
  "grant_is_complete g \<longleftrightarrow> length (gr_milestones g) \<le> gr_current_milestone g"

definition completion_percentage :: "Grant \<Rightarrow> f64" where
  "completion_percentage g =
     (if gr_milestones g = [] then Fin 0
      else f64_mul (f64_div (f64_of_nat (gr_current_milestone g)) (f64_of_nat (length (gr_milestones g)))) (fl 100))"

record TreasuryAllocation =
  ta_category :: string
  ta_allocated :: Amount
  ta_spent :: Amount
  ta_reserved :: Amount

definition allocation_new :: "string \<Rightarrow> Amount \<Rightarrow> TreasuryAllocation" where
  "allocation_new category allocated =
     \<lparr>ta_category = category, ta_allocated = allocated, ta_spent = amount_zero, ta_reserved = amount_zero\<rparr>"

definition allocation_available :: "TreasuryAllocation \<Rightarrow> Amount" where
  "allocation_available a =
     (case Option.bind (amount_checked_sub (ta_allocated a) (ta_spent a)) (\<lambda>x. amount_checked_sub x (ta_reserved a)) of
        Some x \<Rightarrow> x | None \<Rightarrow> amount_zero)"

definition allocation_utilization :: "TreasuryAllocation \<Rightarrow> f64" where
  "allocation_utilization a =
     (if amount_is_zero (ta_allocated a) then Fin 0
      else let used = (case amount_checked_add (ta_spent a) (ta_reserved a) of Some u \<Rightarrow> u | None \<Rightarrow> ta_spent a)
           in f64_mul (f64_div (f64_of_u64 (low_u64 used)) (f64_of_u64 (low_u64_or_1 (ta_allocated a)))) (fl 100))"

record NetworkTreasury =
  nt_base :: LiquidityPool
  nt_grants :: "(hash, Grant) fmap"
  nt_allocations :: "(string, TreasuryAllocation) fmap"
  nt_total_granted :: Amount
  nt_total_disbursed :: Amount
  nt_governance_threshold :: u64

definition treasury_new :: "LiquidityPool \<Rightarrow> u64 \<Rightarrow> NetworkTreasury" where
  "treasury_new base threshold =
     \<lparr>nt_base = base, nt_grants = fmempty,
      nt_allocations =
        fmupd ''Community'' (allocation_new ''Community'' amount_zero)
        (fmupd ''Research'' (allocation_new ''Research'' amount_zero)
        (fmupd ''Marketing'' (allocation_new ''Marketing'' amount_zero)
        (fmupd ''Development'' (allocation_new ''Development'' amount_zero) fmempty))),
      nt_total_granted = amount_zero, nt_total_disbursed = amount_zero, nt_governance_threshold = threshold\<rparr>"

definition treasury_deposit ::
    "Timestamp \<Rightarrow> NetworkTreasury \<Rightarrow> address \<Rightarrow> Amount \<Rightarrow> (unit, LiquidityError) outcome \<times> NetworkTreasury" where
  "treasury_deposit now t depositor amount =
     (let (r, base) = lq_deposit now (nt_base t) depositor amount in (r, t\<lparr>nt_base := base\<rparr>))"

definition set_allocation ::
    "NetworkTreasury \<Rightarrow> string \<Rightarrow> Amount \<Rightarrow> (unit, LiquidityError) outcome \<times> NetworkTreasury" where
  "set_allocation t category amount =
     (let a = (case fmlookup (nt_allocations t) category of
                 Some a \<Rightarrow> a\<lparr>ta_allocated := amount\<rparr>
               | None \<Rightarrow> allocation_new category amount)
      in (Ok (), t\<lparr>nt_allocations := fmupd category a (nt_allocations t)\<rparr>))"

definition generate_grant_id :: "crypto_lib \<Rightarrow> (bytes \<Rightarrow> string) \<Rightarrow> Grant \<Rightarrow> hash" where
  "generate_grant_id L hex g =
     hash_bytes L (ascii_bytes (debug_address hex (gr_recipient g) @ show_u64 (gr_proposed_at g)))"

definition category_not_found :: "string \<Rightarrow> LiquidityError" where
  "category_not_found category = PoolError (''Category '' @ [CHR 0x27] @ category @ [CHR 0x27] @ '' not found'')"

definition propose_grant ::
    "crypto_lib \<Rightarrow> (bytes \<Rightarrow> string) \<Rightarrow> Timestamp \<Rightarrow> NetworkTreasury \<Rightarrow> address \<Rightarrow> Amount \<Rightarrow> string \<Rightarrow> Milestone list
      \<Rightarrow> string \<Rightarrow> (hash, LiquidityError) outcome \<times> NetworkTreasury" where
  "propose_grant L hex now t recip amount purpose milestones category =
     (case fmlookup (nt_allocations t) category of
        None \<Rightarrow> (Err (category_not_found category), t)
      | Some allocation \<Rightarrow>
          if allocation_available allocation < amount
          then (Err (InsufficientLiquidity amount (allocation_available allocation)), t)
          else let grant0 = grant_new now recip amount purpose milestones;
                   milestone_total = total_milestone_amounts grant0
          in if milestone_total \<noteq> amount
          then (Err (InvalidAllocation (''Milestone amounts ('' @ show_nat milestone_total @
                 '') don'' @ [CHR 0x27] @ ''t match grant amount ('' @ show_nat amount @ '')'')), t)
          else let grant = grant0\<lparr>gr_id := generate_grant_id L hex grant0\<rparr>
          in (case amount_checked_add (ta_reserved allocation) amount of
                None \<Rightarrow> (Err (CalculationError ''Reserved overflow''), t)
              | Some r \<Rightarrow> (Ok (gr_id grant), t
                  \<lparr>nt_allocations := fmupd category (allocation\<lparr>ta_reserved := r\<rparr>) (nt_allocations t),
                   nt_grants := fmupd (gr_id grant) grant (nt_grants t)\<rparr>)))"

definition approve_grant ::
    "(bytes \<Rightarrow> string) \<Rightarrow> Timestamp \<Rightarrow> NetworkTreasury \<Rightarrow> hash \<Rightarrow> (unit, LiquidityError) outcome \<times> NetworkTreasury" where
  "approve_grant hex now t grant_id =
     (case fmlookup (nt_grants t) grant_id of
        None \<Rightarrow> (Err (PositionNotFound (hash_to_hex hex grant_id)), t)
      | Some grant \<Rightarrow>
          if gr_status grant \<noteq> GrantProposed then (Err (PoolError ''Grant is not in proposed status''), t)
          else let t1 = t\<lparr>nt_grants := fmupd grant_id (grant\<lparr>gr_status := GrantApproved, gr_approved_at := Some now\<rparr>) (nt_grants t)\<rparr>
          in (case amount_checked_add (nt_total_granted t1) (gr_amount grant) of
                None \<Rightarrow> (Err (CalculationError ''Total granted overflow''), t1)
              | Some g \<Rightarrow> (Ok (), t1\<lparr>nt_total_granted := g\<rparr>)))"

text \<open>The grant after its current milestone has been paid.\<close>

definition complete_milestone :: "Timestamp \<Rightarrow> Grant \<Rightarrow> Milestone \<Rightarrow> Amount \<Rightarrow> Grant" where
  "complete_milestone now grant milestone disbursed =
     (let g1 = grant\<lparr>gr_milestones := (gr_milestones grant)
                  [gr_current_milestone grant := milestone\<lparr>ms_completed := True, ms_completed_at := Some now\<rparr>],
                 gr_disbursed := disbursed, gr_current_milestone := gr_current_milestone grant + 1\<rparr>;
          g2 = (if gr_current_milestone g1 = 1 then g1\<lparr>gr_status := GrantActive\<rparr> else g1)
      in if grant_is_complete g2 then g2\<lparr>gr_status := GrantCompleted\<rparr> else g2)"

text \<open>The booking of the payment in the named category and in the totals.\<close>

definition book_payment :: "NetworkTreasury \<Rightarrow> string \<Rightarrow> Amount \<Rightarrow> (Amount, LiquidityError) outcome \<times> NetworkTreasury" where
  "book_payment t category amount =
     (case fmlookup (nt_allocations t) category of
        None \<Rightarrow> (Err (category_not_found category), t)
      | Some allocation \<Rightarrow>
          (case amount_checked_add (ta_spent allocation) amount of
             None \<Rightarrow> (Err (CalculationError ''Spent overflow''), t)
           | Some s \<Rightarrow>
               let a1 = allocation\<lparr>ta_spent := s\<rparr>;
                   t1 = t\<lparr>nt_allocations := fmupd category a1 (nt_allocations t)\<rparr>
               in (case amount_checked_sub (ta_reserved a1) amount of
                     None \<Rightarrow> (Err (CalculationError ''Reserved underflow''), t1)
                   | Some r \<Rightarrow>
                       let t2 = t1\<lparr>nt_allocations := fmupd category (a1\<lparr>ta_reserved := r\<rparr>) (nt_allocations t1)\<rparr>
                       in (case amount_checked_add (nt_total_disbursed t2) amount of
                             None \<Rightarrow> (Err (CalculationError ''Total disbursed overflow''), t2)
                           | Some d \<Rightarrow> (Ok amount, t2\<lparr>nt_total_disbursed := d\<rparr>)))))"

definition disburse_milestone ::
    "(bytes \<Rightarrow> string) \<Rightarrow> Timestamp \<Rightarrow> NetworkTreasury \<Rightarrow> hash \<Rightarrow> string
      \<Rightarrow> (Amount, LiquidityError) outcome \<times> NetworkTreasury" where
  "disburse_milestone hex now t grant_id category =
     (case fmlookup (nt_grants t) grant_id of
        None \<Rightarrow> (Err (PositionNotFound (hash_to_hex hex grant_id)), t)
      | Some grant \<Rightarrow>
          if gr_status grant \<noteq> GrantApproved \<and> gr_status grant \<noteq> GrantActive
          then (Err (PoolError ''Grant not approved''), t)
          else if grant_is_complete grant
          then (Err (PoolError ''All milestones completed''),
                t\<lparr>nt_grants := fmupd grant_id (grant\<lparr>gr_status := GrantCompleted\<rparr>) (nt_grants t)\<rparr>)
          else (case current_milestone_info grant of
             None \<Rightarrow> (Err (PoolError ''Milestone not found''), t)
           | Some milestone \<Rightarrow>
               if ms_completed milestone then (Err (PoolError ''Milestone already completed''), t)
               else let amount = ms_amount milestone
               in (case amount_checked_add (gr_disbursed grant) amount of
                     None \<Rightarrow> (Err (CalculationError ''Disbursed overflow''),
                       t\<lparr>nt_grants := fmupd grant_id (grant\<lparr>gr_milestones := (gr_milestones grant)
                         [gr_current_milestone grant := milestone\<lparr>ms_completed := True, ms_completed_at := Some now\<rparr>]\<rparr>) (nt_grants t)\<rparr>)
                   | Some d \<Rightarrow>
                       book_payment (t\<lparr>nt_grants := fmupd grant_id (complete_milestone now grant milestone d) (nt_grants t)\<rparr>)
                         category amount)))"

definition cancel_grant ::
    "(bytes \<Rightarrow> string) \<Rightarrow> NetworkTreasury \<Rightarrow> hash \<Rightarrow> string \<Rightarrow> (unit, LiquidityError) outcome \<times> NetworkTreasury" where
  "cancel_grant hex t grant_id category =
     (case fmlookup (nt_grants t) grant_id of
        None \<Rightarrow> (Err (PositionNotFound (hash_to_hex hex grant_id)), t)
      | Some grant \<Rightarrow>
          if gr_status grant = GrantCompleted \<or> gr_status grant = GrantCancelled
          then (Err (PoolError ''Cannot cancel completed or cancelled grant''), t)
          else (case amount_checked_sub (gr_amount grant) (gr_disbursed grant) of
             None \<Rightarrow> (Err (CalculationError ''Unreleased calculation error''), t)
           | Some unreleased \<Rightarrow>
               (case fmlookup (nt_allocations t) category of
                  None \<Rightarrow> (Err (category_not_found category), t)
                | Some allocation \<Rightarrow>
                    let r = (case amount_checked_sub (ta_reserved allocation) unreleased of Some r \<Rightarrow> r | None \<Rightarrow> amount_zero)
                    in (Ok (), t
                      \<lparr>nt_allocations := fmupd category (allocation\<lparr>ta_reserved := r\<rparr>) (nt_allocations t),
                       nt_grants := fmupd grant_id (grant\<lparr>gr_status := GrantCancelled\<rparr>) (nt_grants t)\<rparr>))))"

definition grants_by_status :: "(hash \<times> Grant) list \<Rightarrow> GrantStatus \<Rightarrow> Grant list" where
  "grants_by_status iter status = filter (\<lambda>g. gr_status g = status) (map snd iter)"

definition get_allocation :: "NetworkTreasury \<Rightarrow> string \<Rightarrow> TreasuryAllocation option" where
  "get_allocation t category = fmlookup (nt_allocations t) category"

definition treasury_balance :: "NetworkTreasury \<Rightarrow> Amount" where
  "treasury_balance t = pi_tvl (lq_info (nt_base t))"

section \<open>Closed forms\<close>

lemma total_milestone_amounts_eq: "total_milestone_amounts g = sum_list (map ms_amount (gr_milestones g))"
proof -
  have "foldl (\<lambda>acc m. case amount_checked_add acc (ms_amount m) of Some a \<Rightarrow> a | None \<Rightarrow> acc) x ms = x + sum_list (map ms_amount ms)"
    for x and ms :: "Milestone list"
    by (induction ms arbitrary: x) (simp_all add: amount_checked_add_def)
  then show ?thesis by (simp add: total_milestone_amounts_def amount_zero_def)
qed

lemma allocation_available_eq: "allocation_available a = ta_allocated a - ta_spent a - ta_reserved a"
  by (simp add: allocation_available_def amount_defs)

lemma book_payment_eq:
  "book_payment t c n =
     (case fmlookup (nt_allocations t) c of
        None \<Rightarrow> (Err (category_not_found c), t)
      | Some a \<Rightarrow>
          if ta_reserved a < n
          then (Err (CalculationError ''Reserved underflow''),
                t\<lparr>nt_allocations := fmupd c (a\<lparr>ta_spent := ta_spent a + n\<rparr>) (nt_allocations t)\<rparr>)
          else (Ok n, t\<lparr>nt_allocations := fmupd c (a\<lparr>ta_spent := ta_spent a + n, ta_reserved := ta_reserved a - n\<rparr>) (nt_allocations t),
                 nt_total_disbursed := nt_total_disbursed t + n\<rparr>))"
  by (simp add: book_payment_def amount_defs Let_def split: option.splits)

lemma disburse_milestone_eq:
  assumes "fmlookup (nt_grants t) i = Some g" and "gr_status g = GrantApproved \<or> gr_status g = GrantActive"
    and "gr_current_milestone g < length (gr_milestones g)"
    and "\<not> ms_completed (gr_milestones g ! gr_current_milestone g)"
  defines "m \<equiv> gr_milestones g ! gr_current_milestone g"
  shows "disburse_milestone hex now t i c =
    book_payment (t\<lparr>nt_grants := fmupd i (complete_milestone now g m (gr_disbursed g + ms_amount m)) (nt_grants t)\<rparr>) c (ms_amount m)"
  using assms by (auto simp: disburse_milestone_def grant_is_complete_def current_milestone_info_def amount_checked_add_def Let_def)

section \<open>The invariant\<close>

text \<open>
  A grant's milestones add up to its amount, and what has been disbursed is the sum of the
  milestones before the current one, all of them marked as completed. The disbursed total is covered by
  what the categories have spent.
\<close>

definition grant_ok :: "hash \<Rightarrow> Grant \<Rightarrow> bool" where
  "grant_ok i g \<longleftrightarrow> gr_id g = i \<and> sum_list (map ms_amount (gr_milestones g)) = gr_amount g \<and>
     gr_current_milestone g \<le> length (gr_milestones g) \<and>
     gr_disbursed g = sum_list (map ms_amount (take (gr_current_milestone g) (gr_milestones g))) \<and>
     (\<forall>m \<in> set (take (gr_current_milestone g) (gr_milestones g)). ms_completed m)"

definition treasury_ok :: "NetworkTreasury \<Rightarrow> bool" where
  "treasury_ok t \<longleftrightarrow> lq_ok (nt_base t) \<and> (\<forall>i g. fmlookup (nt_grants t) i = Some g \<longrightarrow> grant_ok i g) \<and>
     (\<forall>c a. fmlookup (nt_allocations t) c = Some a \<longrightarrow> ta_category a = c) \<and>
     nt_total_disbursed t \<le> fm_sum ta_spent (nt_allocations t)"

lemma grant_ok_status [simp]:
  "grant_ok i (g\<lparr>gr_status := s\<rparr>) = grant_ok i g" "grant_ok i (g\<lparr>gr_status := s, gr_approved_at := x\<rparr>) = grant_ok i g"
  by (simp_all add: grant_ok_def)

lemma complete_milestone_fields:
  fixes now
  assumes "k = gr_current_milestone g" and "k < length (gr_milestones g)" and "m = gr_milestones g ! k"
  defines "g' \<equiv> complete_milestone now g m (gr_disbursed g + ms_amount m)"
  shows "gr_id g' = gr_id g" and "gr_amount g' = gr_amount g" and "gr_current_milestone g' = Suc k"
    and "gr_disbursed g' = gr_disbursed g + ms_amount m"
    and "map ms_amount (gr_milestones g') = map ms_amount (gr_milestones g)"
    and "drop (Suc k) (gr_milestones g') = drop (Suc k) (gr_milestones g)"
    and "take (Suc k) (gr_milestones g') = take k (gr_milestones g) @ [m\<lparr>ms_completed := True, ms_completed_at := Some now\<rparr>]"
    and "gr_status g' = (if Suc k = length (gr_milestones g) then GrantCompleted else if k = 0 then GrantActive else gr_status g)"
proof -
  have ms: "gr_milestones g' = (gr_milestones g)[k := m\<lparr>ms_completed := True, ms_completed_at := Some now\<rparr>]"
    by (simp add: g'_def complete_milestone_def Let_def assms(1))
  show "map ms_amount (gr_milestones g') = map ms_amount (gr_milestones g)"
    unfolding ms using assms(2,3) by (simp add: map_update list_update_same_conv)
  show "drop (Suc k) (gr_milestones g') = drop (Suc k) (gr_milestones g)" unfolding ms by simp
  show "take (Suc k) (gr_milestones g') = take k (gr_milestones g) @ [m\<lparr>ms_completed := True, ms_completed_at := Some now\<rparr>]"
    unfolding ms using assms(2) by (simp add: take_Suc_conv_app_nth)
qed (use assms in \<open>auto simp: complete_milestone_def Let_def grant_is_complete_def\<close>)

lemma grant_ok_complete:
  assumes "grant_ok i g" and "gr_current_milestone g < length (gr_milestones g)"
  defines "m \<equiv> gr_milestones g ! gr_current_milestone g"
  shows "grant_ok i (complete_milestone now g m (gr_disbursed g + ms_amount m))"
proof -
  note f = complete_milestone_fields [OF refl assms(2) m_def [THEN meta_eq_to_obj_eq], where now = now]
  have l: "length (gr_milestones (complete_milestone now g m (gr_disbursed g + ms_amount m))) = length (gr_milestones g)"
    using f(5) by (metis length_map)
  have "sum_list (map ms_amount (take (Suc (gr_current_milestone g)) (gr_milestones g))) =
      sum_list (map ms_amount (take (gr_current_milestone g) (gr_milestones g))) + ms_amount m"
    using assms(2) by (simp add: take_Suc_conv_app_nth m_def)
  then show ?thesis using assms(1,2) f l by (auto simp: grant_ok_def)
qed

lemma fm_sum_spent_le:
  assumes "fmlookup m c = Some a" and "ta_spent a \<le> ta_spent a'"
  shows "fm_sum ta_spent m \<le> fm_sum ta_spent (fmupd c a' m)"
  using fm_sum_put_old [OF assms(1), of ta_spent a'] assms(2) by linarith

lemma treasury_ok_book: "treasury_ok t \<Longrightarrow> treasury_ok (snd (book_payment t c n))"
proof (cases "fmlookup (nt_allocations t) c")
  case (Some a)
  assume "treasury_ok t"
  then show ?thesis
    using Some fm_sum_put_old [OF Some, of ta_spent "a\<lparr>ta_spent := ta_spent a + n\<rparr>"]
      fm_sum_put_old [OF Some, of ta_spent "a\<lparr>ta_spent := ta_spent a + n, ta_reserved := ta_reserved a - n\<rparr>"]
    by (auto simp: book_payment_eq treasury_ok_def)
qed (simp add: book_payment_eq)

lemma treasury_ok_grant:
  "treasury_ok t \<Longrightarrow> grant_ok i g \<Longrightarrow> treasury_ok (t\<lparr>nt_grants := fmupd i g (nt_grants t)\<rparr>)"
  by (simp add: treasury_ok_def)

lemma treasury_ok_reserved:
  assumes "treasury_ok t" and "fmlookup (nt_allocations t) c = Some a"
  shows "treasury_ok (t\<lparr>nt_allocations := fmupd c (a\<lparr>ta_reserved := r\<rparr>) (nt_allocations t)\<rparr>)"
  using assms fm_sum_put_old [OF assms(2), of ta_spent "a\<lparr>ta_reserved := r\<rparr>"] by (auto simp: treasury_ok_def)

lemma treasury_ok_propose: "treasury_ok t \<Longrightarrow> treasury_ok (snd (propose_grant L hex now t v n u ms c))"
proof (cases "fmlookup (nt_allocations t) c")
  case (Some a)
  assume ok: "treasury_ok t"
  let ?g = "grant_new now v n u ms"
  have "grant_ok (generate_grant_id L hex ?g) (?g\<lparr>gr_id := generate_grant_id L hex ?g\<rparr>)" if "sum_list (map ms_amount ms) = n"
    using that by (simp add: grant_ok_def grant_new_def amount_zero_def)
  then show ?thesis using Some ok treasury_ok_grant [OF treasury_ok_reserved [OF ok Some]]
    by (auto simp: propose_grant_def total_milestone_amounts_eq amount_checked_add_def Let_def grant_new_def)
qed (simp add: propose_grant_def)

lemma treasury_ok_approve:
  assumes ok: "treasury_ok t"
  shows "treasury_ok (snd (approve_grant hex now t i))"
proof (cases "fmlookup (nt_grants t) i")
  case (Some g)
  then have "grant_ok i g" using ok by (simp add: treasury_ok_def)
  then show ?thesis using Some ok by (simp add: approve_grant_def amount_checked_add_def Let_def treasury_ok_def)
qed (simp add: approve_grant_def ok)

lemma treasury_ok_disburse:
  assumes ok: "treasury_ok t"
  shows "treasury_ok (snd (disburse_milestone hex now t i c))"
proof (cases "fmlookup (nt_grants t) i")
  case (Some g)
  then have g: "grant_ok i g" using ok by (simp add: treasury_ok_def)
  show ?thesis
  proof (cases "(gr_status g = GrantApproved \<or> gr_status g = GrantActive) \<and>
      gr_current_milestone g < length (gr_milestones g) \<and> \<not> ms_completed (gr_milestones g ! gr_current_milestone g)")
    case True
    then show ?thesis
      using disburse_milestone_eq [OF Some] treasury_ok_book [OF treasury_ok_grant [OF ok grant_ok_complete [OF g]]] by auto
  next
    case False
    then show ?thesis using Some ok g treasury_ok_grant [OF ok, of i "g\<lparr>gr_status := GrantCompleted\<rparr>"]
      by (auto simp: disburse_milestone_def grant_is_complete_def current_milestone_info_def)
  qed
qed (simp add: disburse_milestone_def ok)

lemma treasury_ok_cancel:
  assumes ok: "treasury_ok t"
  shows "treasury_ok (snd (cancel_grant hex t i c))"
proof (cases "fmlookup (nt_grants t) i")
  case (Some g)
  then have g: "grant_ok i (g\<lparr>gr_status := GrantCancelled\<rparr>)" using ok by (simp add: treasury_ok_def)
  show ?thesis
  proof (cases "fmlookup (nt_allocations t) c")
    case a: (Some a)
    show ?thesis using Some a ok treasury_ok_grant [OF treasury_ok_reserved [OF ok a] g]
      by (simp add: cancel_grant_def Let_def split: option.splits)
  qed (simp add: cancel_grant_def Some ok split: option.splits)
qed (simp add: cancel_grant_def ok)

lemma treasury_ok_set_allocation:
  assumes ok: "treasury_ok t"
  shows "treasury_ok (snd (set_allocation t c n))"
proof (cases "fmlookup (nt_allocations t) c")
  case None
  then show ?thesis using ok fm_sum_put_new [OF None, of ta_spent "allocation_new c n"]
    by (auto simp: set_allocation_def treasury_ok_def allocation_new_def)
next
  case (Some a)
  then show ?thesis using ok fm_sum_spent_le [OF Some, of "a\<lparr>ta_allocated := n\<rparr>"]
    by (auto simp: set_allocation_def treasury_ok_def)
qed

lemma treasury_ok_new: "lq_ok base \<Longrightarrow> treasury_ok (treasury_new base n)"
  by (auto simp: treasury_ok_def treasury_new_def allocation_new_def amount_zero_def)

inductive treasury_step :: "NetworkTreasury \<Rightarrow> NetworkTreasury \<Rightarrow> bool" where
  step_fund: "treasury_step t (snd (treasury_deposit now t v n))"
| step_allocate: "treasury_step t (snd (set_allocation t c n))"
| step_propose: "treasury_step t (snd (propose_grant L hex now t v n u ms c))"
| step_approve: "treasury_step t (snd (approve_grant hex now t i))"
| step_disburse: "treasury_step t (snd (disburse_milestone hex now t i c))"
| step_cancel: "treasury_step t (snd (cancel_grant hex t i c))"

definition treasury_init :: "NetworkTreasury \<Rightarrow> bool" where
  "treasury_init t \<longleftrightarrow> (\<exists>now s i ty n ow apy r k. t = treasury_new (liquidity_pool_new now (pool_info_new s i ty n ow apy r)) k)"

lemma treasury_init_new: "treasury_init (treasury_new (liquidity_pool_new now (pool_info_new s i ty n ow apy r)) k)"
  unfolding treasury_init_def by blast

interpretation treasury: invariant_machine treasury_init treasury_step treasury_ok
proof
  fix t t'
  show "treasury_init t \<Longrightarrow> treasury_ok t" unfolding treasury_init_def using treasury_ok_new [OF lq_ok_new] by blast
  have "treasury_ok t \<Longrightarrow> treasury_ok (snd (treasury_deposit now t v n))" for now v n
    using lq_ok_deposit [of "nt_base t" now v n] by (auto simp: treasury_deposit_def treasury_ok_def split: prod.splits)
  then show "treasury_ok t \<Longrightarrow> treasury_step t t' \<Longrightarrow> treasury_ok t'"
    by (auto elim!: treasury_step.cases simp: treasury_ok_set_allocation treasury_ok_propose treasury_ok_approve
        treasury_ok_disburse treasury_ok_cancel)
qed

section \<open>Paying a grant\<close>

fun disburse_run :: "(bytes \<Rightarrow> string) \<Rightarrow> Timestamp list \<Rightarrow> NetworkTreasury \<Rightarrow> hash \<Rightarrow> string
    \<Rightarrow> (Amount, LiquidityError) outcome list \<times> NetworkTreasury" where
  "disburse_run hex [] t i c = ([], t)"
| "disburse_run hex (now # nows) t i c =
     (let (r, t1) = disburse_milestone hex now t i c; (rs, t2) = disburse_run hex nows t1 i c in (r # rs, t2))"

lemma disburse_run_pays:
  assumes "fmlookup (nt_grants t) i = Some g" and "fmlookup (nt_allocations t) c = Some a"
    and "gr_status g = (if gr_current_milestone g = 0 then GrantApproved else GrantActive)"
    and "gr_current_milestone g < length (gr_milestones g)"
    and "\<forall>m \<in> set (drop (gr_current_milestone g) (gr_milestones g)). \<not> ms_completed m"
    and "length nows = length (gr_milestones g) - gr_current_milestone g"
    and "sum_list (map ms_amount (drop (gr_current_milestone g) (gr_milestones g))) \<le> ta_reserved a"
  defines "due \<equiv> map ms_amount (drop (gr_current_milestone g) (gr_milestones g))"
  shows "\<exists>t' g' a'. disburse_run hex nows t i c = (map Ok due, t') \<and>
    fmlookup (nt_grants t') i = Some g' \<and> gr_status g' = GrantCompleted \<and> gr_disbursed g' = gr_disbursed g + sum_list due \<and>
    fmlookup (nt_allocations t') c = Some a' \<and> ta_spent a' = ta_spent a + sum_list due \<and>
    ta_reserved a' = ta_reserved a - sum_list due \<and> nt_total_disbursed t' = nt_total_disbursed t + sum_list due"
  using assms(1-7) unfolding due_def
proof (induction nows arbitrary: t g a)
  case (Cons now nows)
  let ?k = "gr_current_milestone g" and ?ms = "gr_milestones g"
  let ?m = "?ms ! ?k"
  let ?g = "complete_milestone now g ?m (gr_disbursed g + ms_amount ?m)"
  let ?a = "a\<lparr>ta_spent := ta_spent a + ms_amount ?m, ta_reserved := ta_reserved a - ms_amount ?m\<rparr>"
  let ?t = "t\<lparr>nt_grants := fmupd i ?g (nt_grants t), nt_allocations := fmupd c ?a (nt_allocations t),
      nt_total_disbursed := nt_total_disbursed t + ms_amount ?m\<rparr>"
  note f = complete_milestone_fields [OF refl Cons.prems(4) refl, where now = now]
  have dr: "drop ?k ?ms = ?m # drop (Suc ?k) ?ms" using Cons.prems(4) by (rule Cons_nth_drop_Suc [symmetric])
  have "\<not> ms_completed ?m" "gr_status g = GrantApproved \<or> gr_status g = GrantActive" "ms_amount ?m \<le> ta_reserved a"
    using Cons.prems(3,5,7) dr by (auto split: if_splits)
  then have step: "disburse_milestone hex now t i c = (Ok (ms_amount ?m), ?t)"
    using disburse_milestone_eq [OF Cons.prems(1) _ Cons.prems(4)] Cons.prems(2) by (simp add: book_payment_eq)
  have len: "length (gr_milestones ?g) = length ?ms" using f(5) by (metis length_map)
  show ?case
  proof (cases nows)
    case Nil
    then have "Suc ?k = length ?ms" using Cons.prems(4,6) by simp
    then show ?thesis using Nil step dr f by simp
  next
    case (Cons now' nows')
    then have lt: "Suc ?k < length ?ms" using Cons.prems(6) by simp
    have "\<exists>t' g' a'. disburse_run hex nows ?t i c = (map Ok (map ms_amount (drop (Suc ?k) ?ms)), t') \<and>
        fmlookup (nt_grants t') i = Some g' \<and> gr_status g' = GrantCompleted \<and>
        gr_disbursed g' = gr_disbursed ?g + sum_list (map ms_amount (drop (Suc ?k) ?ms)) \<and>
        fmlookup (nt_allocations t') c = Some a' \<and> ta_spent a' = ta_spent ?a + sum_list (map ms_amount (drop (Suc ?k) ?ms)) \<and>
        ta_reserved a' = ta_reserved ?a - sum_list (map ms_amount (drop (Suc ?k) ?ms)) \<and>
        nt_total_disbursed t' = nt_total_disbursed ?t + sum_list (map ms_amount (drop (Suc ?k) ?ms))"
      using Cons.IH [of ?t ?g ?a] Cons.prems(3,5-7) lt dr len f(3,6,8) by auto
    then show ?thesis using step dr f(4) by (auto simp: add.assoc)
  qed
qed simp

lemma propose_grant_eq:
  fixes now v u
  assumes "fmlookup (nt_allocations t) c = Some a" and "n \<le> allocation_available a" and "sum_list (map ms_amount ms) = n"
  defines "g \<equiv> grant_new now v n u ms"
  shows "propose_grant L hex now t v n u ms c = (Ok (generate_grant_id L hex g),
    t\<lparr>nt_allocations := fmupd c (a\<lparr>ta_reserved := ta_reserved a + n\<rparr>) (nt_allocations t),
      nt_grants := fmupd (generate_grant_id L hex g) (g\<lparr>gr_id := generate_grant_id L hex g\<rparr>) (nt_grants t)\<rparr>)"
  using assms(1-3) by (simp add: propose_grant_def total_milestone_amounts_eq amount_checked_add_def Let_def grant_new_def g_def)

section \<open>Properties\<close>

definition example_milestones :: "Milestone list" where
  "example_milestones = [\<lparr>ms_description = ''First'', ms_amount = 300, ms_deadline = 50, ms_completed = False, ms_completed_at = None\<rparr>,
     \<lparr>ms_description = ''Second'', ms_amount = 200, ms_deadline = 90, ms_completed = False, ms_completed_at = None\<rparr>]"

definition example_treasury :: NetworkTreasury where
  "example_treasury = snd (set_allocation (treasury_new
     (liquidity_pool_new 3 (pool_info_new 3 1 Treasury ''Test'' 0 1000 500)) 10) ''Development'' 1000)"

lemma example_treasury_reachable:
  "treasury_step\<^sup>*\<^sup>* (treasury_new (liquidity_pool_new 3 (pool_info_new 3 1 Treasury ''Test'' 0 1000 500)) 10) example_treasury"
  unfolding example_treasury_def by (intro r_into_rtranclp step_allocate)

lemma example_development:
  "fmlookup (nt_allocations example_treasury) ''Development'' =
     Some \<lparr>ta_category = ''Development'', ta_allocated = 1000, ta_spent = 0, ta_reserved = 0\<rparr>"
  by (simp add: example_treasury_def set_allocation_def treasury_new_def allocation_new_def amount_zero_def)

text \<open>In every treasury that any sequence of calls reaches, each grant's milestones add up to its amount,
  exactly the milestones before the current one are paid, so no grant ever pays more than its amount, and
  the disbursed total never exceeds what the categories have spent.\<close>

lemma treasury_reachable:
  assumes "treasury_step\<^sup>*\<^sup>* (treasury_new (liquidity_pool_new now (pool_info_new s i ty n ow apy r)) k) t"
  shows "treasury_ok t \<and> (\<forall>j g. fmlookup (nt_grants t) j = Some g \<longrightarrow> gr_disbursed g \<le> gr_amount g)"
proof -
  have ok: "treasury_ok t" by (rule treasury.reachable_inv [OF treasury_init_new assms])
  have "gr_disbursed g \<le> gr_amount g" if "grant_ok j g" for j g
  proof -
    let ?a = "map ms_amount (gr_milestones g)"
    have "sum_list ?a = sum_list (take (gr_current_milestone g) ?a) + sum_list (drop (gr_current_milestone g) ?a)"
      by (metis append_take_drop_id sum_list_append)
    then show ?thesis using that by (simp add: grant_ok_def take_map)
  qed
  then show ?thesis using ok by (auto simp: treasury_ok_def)
qed

lemma treasury_reachable_witness: "treasury_ok example_treasury"
  using treasury_reachable [OF example_treasury_reachable] by blast

text \<open>C38. A grant that is proposed within its category's budget and approved is paid in full: one disbursement
  per milestone pays the milestones' amounts in order, after which the grant is completed, its whole
  amount is disbursed and spent, and nothing of it is reserved any more.\<close>

theorem treasury_pays_grant:
  assumes "fmlookup (nt_allocations t) c = Some a" and "n \<le> allocation_available a"
    and "sum_list (map ms_amount ms) = n" and "ms \<noteq> []" and "\<forall>m \<in> set ms. \<not> ms_completed m"
    and "length nows = length ms"
  shows "\<exists>i t1 t2 t3 g' a'. propose_grant L hex now t v n u ms c = (Ok i, t1) \<and>
    approve_grant hex now' t1 i = (Ok (), t2) \<and>
    disburse_run hex nows t2 i c = (map (\<lambda>m. Ok (ms_amount m)) ms, t3) \<and>
    fmlookup (nt_grants t3) i = Some g' \<and> gr_status g' = GrantCompleted \<and> gr_disbursed g' = n \<and>
    fmlookup (nt_allocations t3) c = Some a' \<and> ta_spent a' = ta_spent a + n \<and> ta_reserved a' = ta_reserved a \<and>
    nt_total_disbursed t3 = nt_total_disbursed t + n"
proof -
  let ?g = "grant_new now v n u ms"
  obtain i where i: "generate_grant_id L hex ?g = i" by blast
  let ?a = "a\<lparr>ta_reserved := ta_reserved a + n\<rparr>"
  let ?g2 = "?g\<lparr>gr_id := i, gr_status := GrantApproved, gr_approved_at := Some now'\<rparr>"
  let ?t1 = "t\<lparr>nt_allocations := fmupd c ?a (nt_allocations t), nt_grants := fmupd i (?g\<lparr>gr_id := i\<rparr>) (nt_grants t)\<rparr>"
  let ?t2 = "?t1\<lparr>nt_grants := fmupd i ?g2 (nt_grants t), nt_total_granted := nt_total_granted t + n\<rparr>"
  have p: "propose_grant L hex now t v n u ms c = (Ok i, ?t1)" using propose_grant_eq [OF assms(1-3), where now = now and v = v and u = u] i by simp
  have ap: "approve_grant hex now' ?t1 i = (Ok (), ?t2)"
    by (simp add: approve_grant_def grant_new_def amount_checked_add_def Let_def)
  have f: "gr_milestones ?g2 = ms" "gr_current_milestone ?g2 = 0" "gr_status ?g2 = GrantApproved" "gr_disbursed ?g2 = 0"
    by (simp_all add: grant_new_def amount_zero_def)
  have "\<exists>t' g' a'. disburse_run hex nows ?t2 i c = (map Ok (map ms_amount ms), t') \<and>
      fmlookup (nt_grants t') i = Some g' \<and> gr_status g' = GrantCompleted \<and> gr_disbursed g' = 0 + sum_list (map ms_amount ms) \<and>
      fmlookup (nt_allocations t') c = Some a' \<and> ta_spent a' = ta_spent ?a + sum_list (map ms_amount ms) \<and>
      ta_reserved a' = ta_reserved ?a - sum_list (map ms_amount ms) \<and>
      nt_total_disbursed t' = nt_total_disbursed ?t2 + sum_list (map ms_amount ms)"
    using disburse_run_pays [of ?t2 i ?g2 c ?a nows hex, unfolded f] assms(3-6) by simp
  then show ?thesis using p ap assms(3) by (auto simp: comp_def)
qed

theorem treasury_pays_grant_witness:
  "\<exists>i t1 t2 t3. propose_grant demo_lib (\<lambda>_. []) 5 example_treasury 9 500 ''Tooling'' example_milestones ''Development'' = (Ok i, t1) \<and>
     approve_grant (\<lambda>_. []) 6 t1 i = (Ok (), t2) \<and>
     disburse_run (\<lambda>_. []) [7, 8] t2 i ''Development'' = ([Ok 300, Ok 200], t3)"
  using treasury_pays_grant [OF example_development, of 500 example_milestones "[7, 8]" demo_lib "\<lambda>_. []" 5 9 "''Tooling''" 6]
  by (auto simp: example_milestones_def allocation_available_eq)

text \<open>Categories are not checked against the grant. Disbursing a due milestone under a category that does
  not exist reports an error and pays nothing, but the milestone is completed and its amount counted as
  disbursed, so it can never be paid again; and cancelling a grant under another category
  takes what was not disbursed out of that category's reservation.\<close>

lemma treasury_category_unchecked:
  assumes "fmlookup (nt_grants t) i = Some g" and "gr_status g = GrantApproved \<or> gr_status g = GrantActive"
    and "gr_current_milestone g < length (gr_milestones g)"
    and "\<not> ms_completed (gr_milestones g ! gr_current_milestone g)"
    and "get_allocation t missing = None" and "get_allocation t other = Some a" and "gr_disbursed g \<le> gr_amount g"
  shows "(\<exists>e t' g'. disburse_milestone hex now t i missing = (Err e, t') \<and> fmlookup (nt_grants t') i = Some g' \<and>
       gr_current_milestone g' = Suc (gr_current_milestone g) \<and>
       gr_disbursed g' = gr_disbursed g + ms_amount (gr_milestones g ! gr_current_milestone g) \<and>
       nt_total_disbursed t' = nt_total_disbursed t \<and> nt_allocations t' = nt_allocations t) \<and>
    (\<exists>t'. cancel_grant hex t i other = (Ok (), t') \<and>
       get_allocation t' other = Some (a\<lparr>ta_reserved := ta_reserved a - (gr_amount g - gr_disbursed g)\<rparr>))"
proof
  show "\<exists>e t' g'. disburse_milestone hex now t i missing = (Err e, t') \<and> fmlookup (nt_grants t') i = Some g' \<and>
       gr_current_milestone g' = Suc (gr_current_milestone g) \<and>
       gr_disbursed g' = gr_disbursed g + ms_amount (gr_milestones g ! gr_current_milestone g) \<and>
       nt_total_disbursed t' = nt_total_disbursed t \<and> nt_allocations t' = nt_allocations t"
    using disburse_milestone_eq [OF assms(1-4), of hex now missing] assms(5) complete_milestone_fields(3,4) [OF refl assms(3) refl]
    by (simp add: book_payment_eq get_allocation_def)
  show "\<exists>t'. cancel_grant hex t i other = (Ok (), t') \<and>
       get_allocation t' other = Some (a\<lparr>ta_reserved := ta_reserved a - (gr_amount g - gr_disbursed g)\<rparr>)"
    using assms(1,2,6,7) by (auto simp: cancel_grant_def get_allocation_def amount_defs Let_def)
qed

lemma treasury_category_unchecked_witness:
  "\<exists>e t'. disburse_milestone (\<lambda>_. []) 7 (example_treasury\<lparr>nt_grants := fmupd 1
       ((grant_new 5 9 500 ''Tooling'' example_milestones)\<lparr>gr_status := GrantApproved\<rparr>) fmempty\<rparr>) 1 ''Missing'' = (Err e, t')"
proof -
  let ?g = "(grant_new 5 9 500 ''Tooling'' example_milestones)\<lparr>gr_status := GrantApproved\<rparr>"
  let ?t = "example_treasury\<lparr>nt_grants := fmupd 1 ?g fmempty\<rparr>"
  have "get_allocation ?t ''Missing'' = None"
    by (simp add: get_allocation_def example_treasury_def set_allocation_def treasury_new_def allocation_new_def)
  moreover have "get_allocation ?t ''Development'' = Some \<lparr>ta_category = ''Development'', ta_allocated = 1000, ta_spent = 0, ta_reserved = 0\<rparr>"
    by (simp add: get_allocation_def example_development)
  ultimately show ?thesis
    using treasury_category_unchecked [of ?t 1 ?g "''Missing''" "''Development''" _ "\<lambda>_. []" 7]
    by (auto simp: grant_new_def example_milestones_def amount_zero_def)
qed

end
