(* ===== verification/Risk.thy ===== *)
theory Risk
  imports Liquidity_Pool
begin

text \<open>
  \<open>risk.rs\<close> of the \<open>liquidity\<close> crate: risk scores of pools and the allocation of an amount over the
  pools a risk profile accepts.
\<close>

datatype RiskCategory = VeryLow | Low | Medium | High | VeryHigh

record RiskAssessment =
  ra_risk_score :: u16
  ra_volatility_risk :: u16
  ra_contract_risk :: u16
  ra_liquidity_risk :: u16
  ra_counterparty_risk :: u16
  ra_risk_category :: RiskCategory

definition calculate_aggregate :: "RiskAssessment \<Rightarrow> u16" where
  "calculate_aggregate r =
     (let weighted = ((ucast (ra_volatility_risk r) :: u32) * 30 + ucast (ra_contract_risk r) * 25 +
            ucast (ra_liquidity_risk r) * 25 + ucast (ra_counterparty_risk r) * 20) div 100
      in min (ucast weighted) 10000)"

definition category_from_score :: "u16 \<Rightarrow> RiskCategory" where
  "category_from_score score =
     (if score \<le> 2000 then VeryLow
      else if score \<le> 4000 then Low
      else if score \<le> 6000 then Medium
      else if score \<le> 8000 then High
      else VeryHigh)"

definition categorize :: "RiskAssessment \<Rightarrow> RiskCategory" where
  "categorize r = category_from_score (calculate_aggregate r)"

fun max_allocation_percentage :: "RiskCategory \<Rightarrow> f64" where
  "max_allocation_percentage VeryLow = fl 100"
| "max_allocation_percentage Low = fl 50"
| "max_allocation_percentage Medium = fl 30"
| "max_allocation_percentage High = fl 15"
| "max_allocation_percentage VeryHigh = fl 5"

record RiskProfile =
  rp_max_risk_score :: u16
  rp_max_high_risk_percentage :: f64
  rp_min_pool_diversification :: nat
  rp_max_single_pool_percentage :: f64

definition risk_profile_default :: RiskProfile where
  "risk_profile_default = \<lparr>rp_max_risk_score = 5000, rp_max_high_risk_percentage = fl 20,
     rp_min_pool_diversification = 3, rp_max_single_pool_percentage = fl 40\<rparr>"

definition risk_profile_conservative :: RiskProfile where
  "risk_profile_conservative = \<lparr>rp_max_risk_score = 3000, rp_max_high_risk_percentage = fl 10,
     rp_min_pool_diversification = 4, rp_max_single_pool_percentage = fl 30\<rparr>"

definition risk_profile_aggressive :: RiskProfile where
  "risk_profile_aggressive = \<lparr>rp_max_risk_score = 7000, rp_max_high_risk_percentage = fl 40,
     rp_min_pool_diversification = 2, rp_max_single_pool_percentage = fl 60\<rparr>"

definition accepts_pool :: "RiskProfile \<Rightarrow> PoolInfo \<Rightarrow> bool" where
  "accepts_pool r pool \<longleftrightarrow> pi_risk_score pool \<le> rp_max_risk_score r"

record RiskCalculator =
  rc_volatility_cache :: "(u64, f64) fmap"

definition risk_calculator_new :: RiskCalculator where
  "risk_calculator_new = \<lparr>rc_volatility_cache = fmempty\<rparr>"

definition calculate_volatility_risk :: "RiskCalculator \<Rightarrow> PoolInfo \<Rightarrow> u16" where
  "calculate_volatility_risk c pool =
     (let volatility = lookup_default (fl (15 / 100)) (rc_volatility_cache c) (pi_id pool)
      in f64_to_u16 (f64_min (f64_mul volatility (fl 10000)) (fl 10000)))"

definition calculate_contract_risk :: "Timestamp \<Rightarrow> PoolInfo \<Rightarrow> u16" where
  "calculate_contract_risk now pool =
     (let age_seconds = saturating_sub now (pi_created_at pool);
          age_days = age_seconds div (24 * 3600);
          age_factor = (if age_days = 0 then fl 1
                        else f64_div (fl 1) (f64_add (fl 1) (f64_min (f64_div (f64_of_u64 age_days) (fl 365)) (fl 1))))
      in min (f64_to_u16 (f64_mul (f64_of_nat 3000) age_factor)) 10000)"

definition calculate_liquidity_risk :: "PoolInfo \<Rightarrow> u16" where
  "calculate_liquidity_risk pool =
     (let tvl_val = f64_of_u64 (low_u64_or_1 (pi_tvl pool));
          tvl_millions = f64_div tvl_val (fl 1000000);
          risk = (if f64_lt tvl_millions (fl (1 / 10)) then 8000
                  else if f64_lt tvl_millions (fl 1) then 5000
                  else if f64_lt tvl_millions (fl 10) then 2000
                  else 500)
      in min risk 10000)"

definition calculate_counterparty_risk :: "PoolInfo \<Rightarrow> u16" where
  "calculate_counterparty_risk pool =
     (case pi_pool_type pool of Treasury \<Rightarrow> 500 | StabilityReserve \<Rightarrow> 1000 | Lending \<Rightarrow> 3000 | AMM \<Rightarrow> 4000)"

definition assess_pool :: "Timestamp \<Rightarrow> RiskCalculator \<Rightarrow> PoolInfo \<Rightarrow> RiskAssessment" where
  "assess_pool now c pool =
     \<lparr>ra_risk_score = pi_risk_score pool, ra_volatility_risk = calculate_volatility_risk c pool,
      ra_contract_risk = calculate_contract_risk now pool, ra_liquidity_risk = calculate_liquidity_risk pool,
      ra_counterparty_risk = calculate_counterparty_risk pool, ra_risk_category = category_from_score (pi_risk_score pool)\<rparr>"

definition calculate_rar :: "Timestamp \<Rightarrow> RiskCalculator \<Rightarrow> PoolInfo \<Rightarrow> Amount \<Rightarrow> Amount \<Rightarrow> f64" where
  "calculate_rar now c pool protocol_reward defi_yield =
     (let risk_score = f64_of_nat (unat (calculate_aggregate (assess_pool now c pool)))
      in if f64_eq risk_score (Fin 0) then Fin 0
         else f64_div (f64_add (f64_of_u64 (low_u64 protocol_reward)) (f64_of_u64 (low_u64 defi_yield)))
                (f64_div risk_score (fl 100)))"

text \<open>
  \<open>sort_by\<close> is stable; the comparison \<open>b.1.partial_cmp(&a.1).unwrap()\<close> panics on a NaN, and every
  element of a list of two or more is compared.
\<close>

fun insert_desc :: "u64 \<times> f64 \<Rightarrow> (u64 \<times> f64) list \<Rightarrow> (u64 \<times> f64) list" where
  "insert_desc x [] = [x]"
| "insert_desc x (y # ys) = (if f64_lt (snd x) (snd y) then y # insert_desc x ys else x # y # ys)"

definition sort_desc :: "(u64 \<times> f64) list \<Rightarrow> ((u64 \<times> f64) list, LiquidityError) outcome" where
  "sort_desc xs =
     (if 2 \<le> length xs \<and> list_ex (\<lambda>x. snd x = NaN) xs then Panic else Ok (foldr insert_desc xs []))"

definition f64_sum :: "f64 list \<Rightarrow> f64" where
  "f64_sum xs = foldl f64_add (Fin 0) xs"

definition allocate_one :: "RiskProfile \<Rightarrow> Amount \<Rightarrow> f64 \<Rightarrow> u64 \<times> f64 \<Rightarrow> u64 \<times> Amount" where
  "allocate_one profile total_amount total_rar score =
     (let total_val = f64_of_u64 (low_u64 total_amount);
          percentage = f64_mul (f64_div (snd score) total_rar) (fl 100);
          capped_percentage = f64_min percentage (rp_max_single_pool_percentage profile);
          amount_val = f64_div (f64_mul total_val capped_percentage) (fl 100)
      in (fst score, amount_from_u64 (f64_to_u64 amount_val)))"

definition calculate_optimal_allocation ::
    "PoolInfo list \<Rightarrow> Amount \<Rightarrow> RiskProfile \<Rightarrow> ((u64 \<times> Amount) list, LiquidityError) outcome" where
  "calculate_optimal_allocation pools total_amount profile =
     (let acceptable_pools = filter (accepts_pool profile) pools in
      if acceptable_pools = [] then Err (RiskError ''No pools match risk tolerance'')
      else and_then (sort_desc (map (\<lambda>p. (pi_id p, risk_adjusted_return p)) acceptable_pools)) (\<lambda>pool_scores.
        let total_rar = f64_sum (map snd pool_scores)
        in Ok (filter (\<lambda>(_, amount). \<not> amount_is_zero amount)
                 (map (allocate_one profile total_amount total_rar) pool_scores))))"

definition update_volatility :: "RiskCalculator \<Rightarrow> u64 \<Rightarrow> f64 \<Rightarrow> RiskCalculator" where
  "update_volatility c pool_id volatility = c\<lparr>rc_volatility_cache := fmupd pool_id volatility (rc_volatility_cache c)\<rparr>"

section \<open>Scores\<close>

lemma unat_u16_bound: "unat (w :: u16) \<le> 65535"
  using unsigned_less [of w, where 'a = nat] by simp

lemma unat_min_10000: "unat (min (w :: u16) 10000) = min (unat w) 10000"
  by (simp add: min_def word_le_nat_alt)

lemma unat_calculate_aggregate:
  "unat (calculate_aggregate r) = min 10000 ((unat (ra_volatility_risk r) * 30 + unat (ra_contract_risk r) * 25 +
     unat (ra_liquidity_risk r) * 25 + unat (ra_counterparty_risk r) * 20) div 100)"
proof -
  obtain v c l k where d: "unat (ra_volatility_risk r) = v" "unat (ra_contract_risk r) = c"
      "unat (ra_liquidity_risk r) = l" "unat (ra_counterparty_risk r) = k" by blast
  have b: "v \<le> 65535" "c \<le> 65535" "l \<le> 65535" "k \<le> 65535" using unat_u16_bound d by metis+
  let ?n = "v * 30 + c * 25 + l * 25 + k * 20"
  have u: "ucast w = (word_of_nat (unat w) :: u32)" for w :: u16 by (rule word_unat_eq_iff [THEN iffD2]) (simp add: unsigned_ucast_eq unat_of_nat take_bit_eq_mod)
  have s: "(ucast (ra_volatility_risk r) :: u32) * 30 + ucast (ra_contract_risk r) * 25 +
      ucast (ra_liquidity_risk r) * 25 + ucast (ra_counterparty_risk r) * 20 = word_of_nat ?n"
    unfolding u d by simp
  have n: "unat (word_of_nat ?n :: u32) = ?n" unfolding unat_of_nat by (rule mod_less) (use b in simp)
  have w: "unat (ucast ((word_of_nat ?n :: u32) div 100) :: u16) = ?n div 100"
  proof -
    have "unat ((word_of_nat ?n :: u32) div 100) = ?n div 100" using n by (simp add: unat_div)
    moreover have "?n div 100 < 65536" using b by linarith
    ultimately show ?thesis by (simp add: unsigned_ucast_eq take_bit_eq_mod)
  qed
  have "unat (min (ucast ((word_of_nat ?n :: u32) div 100) :: u16) 10000) = min (?n div 100) 10000"
    unfolding unat_min_10000 w ..
  then show ?thesis unfolding calculate_aggregate_def Let_def s d by (simp add: min.commute)
qed

lemma f64_min_le: "f64_min x (Fin b) = NInf \<or> (\<exists>a \<le> b. f64_min x (Fin b) = Fin a)"
  by (cases x) (auto simp: f64_min_def)

lemma volatility_risk_le: "unat (calculate_volatility_risk c p) \<le> 10000"
proof -
  have t: "fl 10000 = Fin 10000" by (rule fl_exact [OF representable_numeral]) simp
  have "f64_to_nat hi (f64_min x (Fin 10000)) \<le> 10000" for hi x
    using f64_min_le [of x 10000] f64_to_nat_le [of _ 10000 hi] by auto
  then show ?thesis unfolding calculate_volatility_risk_def Let_def unat_f64_to_u16 t .
qed

lemma age_factor:
  "\<exists>f. f64_div (fl 1) (f64_add (fl 1) (f64_min (f64_div (f64_of_u64 w) (fl 365)) (fl 1))) = Fin f \<and> 1 / 2 \<le> f \<and> f \<le> 1"
proof -
  have t: "fl 365 = Fin 365" by (rule fl_exact [OF representable_numeral]) simp
  obtain x where x: "f64_of_u64 w = Fin x" "0 \<le> x" using f64_of_nat_finite [OF unat_less_u64] by metis
  have "\<exists>m. f64_min (fl (x / 365)) (Fin 1) = Fin m \<and> 0 \<le> m \<and> m \<le> 1"
    using fl_ge [OF representable_0 order_refl, of "x / 365"] x(2) by (auto simp: f64_min_def)
  then obtain m where m: "f64_min (fl (x / 365)) (Fin 1) = Fin m" "0 \<le> m" "m \<le> 1" by blast
  have two: "representable 2" by (rule representable_numeral) simp
  obtain d where d: "fl (1 + m) = Fin d" "1 \<le> d" "d \<le> 2"
    using fl_between [OF representable_1 two, of "1 + m"] m by auto
  have half: "representable (1 / 2)" using representable_dyadic [of "2 ^ 13"] by simp
  have "1 / 2 \<le> 1 / d" "1 / d \<le> 1" using d by (simp_all add: field_simps)
  then obtain f where f: "fl (1 / d) = Fin f" "1 / 2 \<le> f" "f \<le> 1" using fl_between [OF half representable_1] by blast
  have nz: "(365 :: rat) \<noteq> 0" "d \<noteq> 0" using d(2) by auto
  show ?thesis
    unfolding x(1) t fl_1 f64_div.simps if_not_P [OF nz(1)] m(1) f64_add.simps d(1) if_not_P [OF nz(2)] f(1)
    using f(2,3) by blast
qed

lemma contract_risk_range: "1500 \<le> unat (calculate_contract_risk now p) \<and> unat (calculate_contract_risk now p) \<le> 3000"
proof -
  obtain f where f: "(if saturating_sub now (pi_created_at p) div (24 * 3600) = 0 then fl 1
      else f64_div (fl 1) (f64_add (fl 1) (f64_min (f64_div (f64_of_u64 (saturating_sub now (pi_created_at p) div (24 * 3600))) (fl 365)) (fl 1))))
      = Fin f" "1 / 2 \<le> f" "f \<le> 1"
  proof (cases "saturating_sub now (pi_created_at p) div (24 * 3600) = 0")
    case True
    show ?thesis by (rule that [of 1]) (simp_all only: True if_True fl_1, simp_all)
  next
    case False
    then show ?thesis using age_factor [of "saturating_sub now (pi_created_at p) div (24 * 3600)"] that by (simp only: if_False) blast
  qed
  have b: "f64_of_nat 3000 = Fin 3000" using fl_of_nat [of 3000] by simp
  obtain r where r: "fl (3000 * f) = Fin r" "1500 \<le> r" "r \<le> 3000"
    using fl_between_nat [of 1500 3000 "3000 * f"] f by auto
  have "1500 \<le> f64_to_nat (2 ^ 16 - 1) (Fin r)" by (rule f64_to_nat_ge) (use r in simp_all)
  moreover have "f64_to_nat (2 ^ 16 - 1) (Fin r) \<le> 3000" by (rule f64_to_nat_le) (use r in simp)
  ultimately show ?thesis
    unfolding calculate_contract_risk_def Let_def f(1) b f64_mul.simps r(1) unat_min_10000 unat_f64_to_u16 by linarith
qed

lemma liquidity_risk_range: "500 \<le> unat (calculate_liquidity_risk p) \<and> unat (calculate_liquidity_risk p) \<le> 8000"
  by (simp add: calculate_liquidity_risk_def Let_def min_def)

lemma counterparty_risk_range: "500 \<le> unat (calculate_counterparty_risk p) \<and> unat (calculate_counterparty_risk p) \<le> 4000"
  by (cases "pi_pool_type p") (simp_all add: calculate_counterparty_risk_def)

section \<open>Allocations\<close>

lemma fl_not_NaN [simp]: "fl q \<noteq> NaN"
  by (simp add: fl_def Let_def)

lemma f64_of_u16: "f64_of_nat (unat (w :: u16)) = Fin (of_nat (unat w))"
  using unat_u16_bound [of w] by (intro fl_of_nat) simp

lemma risk_adjusted_return_not_NaN: "risk_adjusted_return p \<noteq> NaN"
proof (cases "pi_risk_score p = 0")
  case False
  obtain k where k: "unat (pi_risk_score p) = k" by blast
  have "k \<noteq> 0" using False k unat_eq_0 by metis
  then have k1: "1 \<le> k" "k \<le> 65535" using unat_u16_bound [of "pi_risk_score p"] k by simp_all
  have t: "fl 100 = Fin 100" by (rule fl_exact [OF representable_numeral]) simp
  have d14: "representable (1 / 2 ^ 14)" using representable_dyadic [of 1] by simp
  have "(1 :: rat) \<le> of_nat k" "(of_nat k :: rat) \<le> of_nat 65535" using k1 of_nat_mono [of k 65535, where 'a = rat] by simp_all
  then have "1 / 2 ^ 14 \<le> (of_nat k / 100 :: rat)" "(of_nat k / 100 :: rat) \<le> of_nat 65535" by simp_all
  then have "\<exists>r. fl (of_nat k / 100) = Fin r \<and> 1 / 2 ^ 14 \<le> r \<and> r \<le> of_nat 65535"
    by (intro fl_between [OF d14 representable_of_nat]) simp_all
  then obtain r where r: "fl (of_nat k / 100) = Fin r" "1 / 2 ^ 14 \<le> r" by blast
  have "r \<noteq> 0" using r(2) by auto
  have fk: "f64_of_nat k = Fin (of_nat k)" using f64_of_u16 [of "pi_risk_score p"] unfolding k .
  have h0: "(100 :: rat) \<noteq> 0" by simp
  show ?thesis
    unfolding risk_adjusted_return_def if_not_P [OF False] k fk t f64_of_u16 f64_div.simps if_not_P [OF h0] r(1) if_not_P [OF \<open>r \<noteq> 0\<close>]
    by (rule fl_not_NaN)
qed (simp add: risk_adjusted_return_def f64_of_u16)

lemma set_insert_desc: "set (insert_desc x ys) = insert x (set ys)"
  by (induction ys) auto

lemma set_sorted: "set (foldr insert_desc xs []) = set xs"
  by (induction xs) (auto simp: set_insert_desc)

lemma sort_desc_Ok: "(\<And>x. x \<in> set xs \<Longrightarrow> snd x \<noteq> NaN) \<Longrightarrow> sort_desc xs = Ok (foldr insert_desc xs [])"
  by (auto simp: sort_desc_def list_ex_iff)

text \<open>Whatever the percentage, the cap bounds the amount.\<close>

lemma capped_amount:
  assumes "t < 2 ^ 38" and "k \<le> 100"
  shows "f64_to_nat hi (f64_div (f64_mul (Fin (of_nat t)) (f64_min q (Fin (of_nat k)))) (fl 100)) \<le> t * k div 100"
proof -
  have h: "fl 100 = Fin 100" by (rule fl_exact [OF representable_numeral]) simp
  have tk: "t * k \<le> t * 100" using assms(2) by simp
  then have d: "t * k div 100 < 2 ^ 38" using assms(1) div_le_mono [OF tk, of 100] by simp
  show ?thesis
  proof (cases "f64_min q (Fin (of_nat k)) = NInf")
    case True
    have "f64_mul (Fin (of_nat t)) NInf = NInf \<or> f64_mul (Fin (of_nat t)) NInf = NaN"
      by (simp add: inf_of_sign_def sgn_if)
    then show ?thesis unfolding True h by (auto simp: inf_of_sign_def)
  next
    case False
    then obtain a where a: "f64_min q (Fin (of_nat k)) = Fin a" "a \<le> of_nat k" using f64_min_le [of q "of_nat k"] by auto
    show ?thesis
    proof (cases "a \<le> 0")
      case True
      then have "of_nat t * a \<le> 0" by (simp add: mult_nonneg_nonpos)
      then consider "fl (of_nat t * a) = NInf" | r where "fl (of_nat t * a) = Fin r" "r \<le> 0" using fl_nonpos by blast
      then show ?thesis
      proof cases
        case 2
        then have "r / 100 \<le> 0" by simp
        then show ?thesis using fl_nonpos [of "r / 100"] 2 unfolding a(1) h by auto
      qed (simp add: a h inf_of_sign_def)
    next
      case pos: False
      have le: "of_nat t * a \<le> of_nat (t * k)" using a(2) by (simp add: mult_left_mono)
      have n53: "t * k \<le> 2 ^ 53" by (rule order_trans [OF tk]) (use assms(1) in simp)
      have "0 \<le> of_nat t * a" using pos by simp
      then obtain r where r: "fl (of_nat t * a) = Fin r" "0 \<le> r" "r \<le> of_nat (t * k)"
        using fl_between_nat [of 0 "t * k" "of_nat t * a"] le n53 by auto
      have q: "r / 100 \<le> of_nat (t * k) / 100" using r(3) by (intro divide_right_mono) simp_all
      have b: "of_nat (t * k) / 100 \<le> (of_nat (t * k) :: rat)" "(0 :: rat) \<le> of_nat (t * k) / 100" by simp_all
      obtain s where s: "fl (of_nat (t * k) / 100) = Fin s" using fl_between_nat [of 0 "t * k" "of_nat (t * k) / 100"] n53 b by auto
      obtain u where u: "fl (r / 100) = Fin u"
        using fl_between_nat [of 0 "t * k" "r / 100"] n53 r(2) order_trans [OF q b(1)] by auto
      have "u \<le> s" by (rule fl_mono [OF q u s])
      then have "f64_to_nat hi (Fin u) \<le> f64_to_nat hi (Fin s)"
        by (simp add: min.coboundedI2 nat_mono floor_mono min_le_iff_disj)
      also have "\<dots> = min hi (t * k div 100)" using fl_floor_div [of 100 "t * k" hi] d s by simp
      finally show ?thesis unfolding a(1) f64_mul.simps r(1) h f64_div.simps using u by simp
    qed
  qed
qed

lemma zero_yield_amount:
  assumes "t < 2 ^ 38"
  shows "f64_to_nat (2 ^ 64 - 1) (f64_div (f64_mul (Fin (of_nat t)) (Fin 40)) (fl 100)) = t * 40 div 100"
proof -
  have h: "fl 100 = Fin 100" by (rule fl_exact [OF representable_numeral]) simp
  have e: "(of_nat t * 40 :: rat) = of_nat (t * 40)" by simp
  have d: "t * 40 div 100 < 2 ^ 38" using assms by linarith
  have p: "fl (of_nat t * 40) = Fin (of_nat (t * 40))"
    unfolding e by (rule fl_exact [OF representable_of_nat]) (use assms in simp)
  have "f64_to_nat (2 ^ 64 - 1) (fl (of_nat (t * 40) / of_nat 100)) = min (2 ^ 64 - 1) (t * 40 div 100)"
    by (rule fl_floor_div) (use d in simp_all)
  also have "\<dots> = t * 40 div 100" using d by simp
  finally show ?thesis unfolding f64_mul.simps p h f64_div.simps by simp
qed

lemma insert_equal: "(\<forall>y \<in> set ys. snd y = snd x) \<Longrightarrow> snd x = Fin a \<Longrightarrow> insert_desc x ys = x # ys"
  by (cases ys) auto

lemma sorted_equal: "\<forall>y \<in> set ys. snd y = Fin a \<Longrightarrow> foldr insert_desc ys [] = ys"
  by (induction ys) (auto simp: insert_equal)

lemma f64_sum_zeros: "\<forall>y \<in> set ys. y = Fin 0 \<Longrightarrow> f64_sum ys = Fin 0"
  unfolding f64_sum_def by (induction ys) auto

section \<open>Properties\<close>

text \<open>Every pool, whatever its age, liquidity, type and recorded volatility, gets an aggregate score between
  600 and 6550, the exact weighted mean of its components: the \<open>u32\<close> sum and the cast back lose
  nothing, the division in the risk-adjusted return never meets a zero, and no pool is ever
  categorised as of very high risk.\<close>

lemma assess_pool_range:
  fixes now c p
  defines "r \<equiv> assess_pool now c p"
  shows "unat (calculate_aggregate r) = (unat (ra_volatility_risk r) * 30 + unat (ra_contract_risk r) * 25 +
       unat (ra_liquidity_risk r) * 25 + unat (ra_counterparty_risk r) * 20) div 100 \<and>
    600 \<le> unat (calculate_aggregate r) \<and> unat (calculate_aggregate r) \<le> 6550 \<and> categorize r \<noteq> VeryHigh"
proof -
  note b = volatility_risk_le [of c p] contract_risk_range [of now p] liquidity_risk_range [of p] counterparty_risk_range [of p]
  have r: "unat (calculate_aggregate r) = (unat (ra_volatility_risk r) * 30 + unat (ra_contract_risk r) * 25 +
       unat (ra_liquidity_risk r) * 25 + unat (ra_counterparty_risk r) * 20) div 100"
    and s: "600 \<le> unat (calculate_aggregate r)" "unat (calculate_aggregate r) \<le> 6550"
    unfolding unat_calculate_aggregate r_def assess_pool_def RiskAssessment.select_convs using b by linarith+
  have "calculate_aggregate r \<le> 8000" using s(2) by (simp add: word_le_nat_alt)
  then have "categorize r \<noteq> VeryHigh" unfolding categorize_def category_from_score_def by simp
  with r s show ?thesis by blast
qed

text \<open>An allocation respects the risk profile. It fails exactly when no pool is acceptable and never panics;
  every pool in it is acceptable, and for amounts below \<open>2^38\<close> gets a positive amount within the
  profile's share for a single pool.\<close>

lemma optimal_allocation_respects_profile:
  assumes "rp_max_single_pool_percentage profile = Fin (of_nat k)" and "k \<le> 100" and "budget < 2 ^ 38"
  shows "(calculate_optimal_allocation pools budget profile = Err (RiskError ''No pools match risk tolerance'') \<longleftrightarrow>
       (\<forall>p \<in> set pools. \<not> accepts_pool profile p)) \<and>
    ((\<exists>p \<in> set pools. accepts_pool profile p) \<longrightarrow>
       (\<exists>allocs. calculate_optimal_allocation pools budget profile = Ok allocs \<and>
          (\<forall>(i, n) \<in> set allocs. 0 < n \<and> n * 100 \<le> budget * k \<and> (\<exists>p \<in> set pools. accepts_pool profile p \<and> pi_id p = i))))"
proof -
  let ?ok = "filter (accepts_pool profile) pools"
  let ?scores = "map (\<lambda>p. (pi_id p, risk_adjusted_return p)) ?ok"
  let ?sorted = "foldr insert_desc ?scores []"
  let ?one = "allocate_one profile budget (f64_sum (map snd ?sorted))"
  have sort: "sort_desc ?scores = Ok ?sorted" using risk_adjusted_return_not_NaN by (intro sort_desc_Ok) auto
  have tv: "f64_of_u64 (low_u64 budget) = Fin (of_nat budget)" using assms(3) by (simp add: unat_low_u64 fl_of_nat)
  have one: "snd (?one x) * 100 \<le> budget * k" "fst (?one x) = fst x" for x
  proof -
    have "snd (?one x) \<le> budget * k div 100"
      unfolding allocate_one_def Let_def snd_conv amount_from_u64_def unat_f64_to_u64 tv assms(1)
      by (rule capped_amount [OF assms(3,2)])
    then show "snd (?one x) * 100 \<le> budget * k" by linarith
  qed (simp add: allocate_one_def Let_def)
  have res: "calculate_optimal_allocation pools budget profile =
      (if ?ok = [] then Err (RiskError ''No pools match risk tolerance'')
       else Ok (filter (\<lambda>(_, amount). \<not> amount_is_zero amount) (map ?one ?sorted)))"
    unfolding calculate_optimal_allocation_def Let_def sort by simp
  have pool: "\<exists>p \<in> set pools. accepts_pool profile p \<and> pi_id p = fst x" if "x \<in> set ?sorted" for x
    using that unfolding set_sorted by auto
  have "\<forall>(i, n) \<in> set (filter (\<lambda>(_, amount). \<not> amount_is_zero amount) (map ?one ?sorted)).
      0 < n \<and> n * 100 \<le> budget * k \<and> (\<exists>p \<in> set pools. accepts_pool profile p \<and> pi_id p = i)"
  proof -
    have "0 < snd y \<and> snd y * 100 \<le> budget * k \<and> (\<exists>p \<in> set pools. accepts_pool profile p \<and> pi_id p = fst y)"
      if x: "x \<in> set ?sorted" "y = ?one x" and y: "snd y \<noteq> 0" for x y
      using pool [OF x(1)] one [of x] y unfolding x(2) by (simp only: one(2)) simp
    then have "\<forall>y \<in> set (filter (\<lambda>(_, amount). \<not> amount_is_zero amount) (map ?one ?sorted)).
        0 < snd y \<and> snd y * 100 \<le> budget * k \<and> (\<exists>p \<in> set pools. accepts_pool profile p \<and> pi_id p = fst y)"
      unfolding set_filter set_map case_prod_beta amount_is_zero_def by blast
    then show ?thesis unfolding case_prod_beta .
  qed
  moreover have "?ok = [] \<longleftrightarrow> (\<forall>p \<in> set pools. \<not> accepts_pool profile p)" by (simp add: filter_empty_conv)
  ultimately show ?thesis unfolding res by auto
qed

definition example_infos :: "PoolInfo list" where
  "example_infos = map (\<lambda>i. pool_info_new 0 i AMM ''Idle'' 0 0 100) [1, 2, 3]"

lemma optimal_allocation_respects_profile_witness:
  "\<exists>allocs. calculate_optimal_allocation example_infos 1000 (risk_profile_default\<lparr>rp_max_single_pool_percentage := Fin 40\<rparr>) = Ok allocs"
  using optimal_allocation_respects_profile [of "risk_profile_default\<lparr>rp_max_single_pool_percentage := Fin 40\<rparr>" 40 1000 example_infos]
  by (auto simp: risk_profile_default_def example_infos_def accepts_pool_def pool_info_new_def)

text \<open>More is allocated than there is. When the acceptable pools yield nothing the proportions are zero
  divided by zero, and the cap takes the place of the resulting NaN: under the default profile each of
  them gets 40 per cent, so three or more get more than the total.\<close>

lemma zero_yield_overallocates:
  assumes "\<forall>p \<in> set pools. accepts_pool risk_profile_default p \<and> pi_apy p = 0" and "3 \<le> length pools"
    and "15 \<le> budget" and "budget < 2 ^ 38"
  shows "\<exists>allocs. calculate_optimal_allocation pools budget risk_profile_default = Ok allocs \<and>
    allocs = map (\<lambda>p. (pi_id p, budget * 40 div 100)) pools \<and> budget < sum_list (map snd allocs)"
proof -
  let ?a = "budget * 40 div 100"
  let ?scores = "map (\<lambda>p. (pi_id p, risk_adjusted_return p)) pools"
  have ok: "filter (accepts_pool risk_profile_default) pools = pools" using assms(1) by simp
  have cap: "rp_max_single_pool_percentage risk_profile_default = Fin 40"
    unfolding risk_profile_default_def by (simp add: fl_exact [OF representable_numeral])
  have rar: "risk_adjusted_return p = Fin 0" if "pi_apy p = 0" for p
  proof (cases "pi_risk_score p = 0")
    case False
    have "f64_of_nat 0 = Fin 0" by (simp add: f64_of_nat_def)
    moreover have "fl x \<noteq> NaN" for x by simp
    moreover have "risk_adjusted_return p \<noteq> NaN" by (rule risk_adjusted_return_not_NaN)
    ultimately show ?thesis using False that unfolding risk_adjusted_return_def
      by (cases "f64_div (f64_of_nat (unat (pi_risk_score p))) (fl 100)") (auto simp: inf_of_sign_def split: if_splits)
  qed (use that in \<open>simp add: risk_adjusted_return_def f64_of_nat_def\<close>)
  have zero: "\<forall>y \<in> set ?scores. snd y = Fin 0" using assms(1) rar by auto
  have sort: "sort_desc ?scores = Ok ?scores"
    using sort_desc_Ok [of ?scores] sorted_equal [OF zero] zero by simp
  have s: "f64_sum (map snd ?scores) = Fin 0" using zero by (intro f64_sum_zeros) auto
  have h: "fl 100 = Fin 100" by (rule fl_exact [OF representable_numeral]) simp
  have tv: "f64_of_u64 (low_u64 budget) = Fin (of_nat budget)" using assms(4) by (simp add: unat_low_u64 fl_of_nat)
  have m: "f64_min (f64_mul (f64_div (Fin 0) (Fin 0)) (Fin 100)) (Fin 40) = Fin 40" by (simp add: inf_of_sign_def f64_min_def)
  have one: "allocate_one risk_profile_default budget (Fin 0) x = (fst x, ?a)" if "snd x = Fin 0" for x
    unfolding allocate_one_def Let_def that cap tv amount_from_u64_def unat_f64_to_u64
    using zero_yield_amount [OF assms(4)] m unfolding h by simp
  have a: "6 \<le> ?a" using assms(3) by linarith
  have allocs: "calculate_optimal_allocation pools budget risk_profile_default = Ok (map (\<lambda>p. (pi_id p, ?a)) pools)"
  proof -
    have "map (allocate_one risk_profile_default budget (Fin 0)) ?scores = map (\<lambda>p. (pi_id p, ?a)) pools"
      using zero one by auto
    moreover have "filter (\<lambda>(_, amount). \<not> amount_is_zero amount) (map (\<lambda>p. (pi_id p, ?a)) pools) = map (\<lambda>p. (pi_id p, ?a)) pools"
      using a by (auto simp: amount_is_zero_def filter_id_conv)
    moreover have "pools \<noteq> []" using assms(2) by auto
    ultimately show ?thesis
      unfolding calculate_optimal_allocation_def Let_def ok sort and_then.simps s by (simp only: if_False)
  qed
  have "3 * ?a \<le> length pools * ?a" using assms(2) by simp
  moreover have "budget < 3 * ?a" using assms(3) by linarith
  moreover have "sum_list (map snd (map (\<lambda>p. (pi_id p, ?a)) pools)) = length pools * ?a"
    by (simp add: comp_def sum_list_triv)
  ultimately have "budget < sum_list (map snd (map (\<lambda>p. (pi_id p, ?a)) pools))" by (simp only: less_le_trans)
  then show ?thesis using allocs by blast
qed

lemma zero_yield_overallocates_witness:
  "\<exists>allocs. calculate_optimal_allocation example_infos 1000 risk_profile_default = Ok allocs \<and> 1000 < sum_list (map snd allocs)"
  using zero_yield_overallocates [of example_infos 1000]
  by (auto simp: example_infos_def accepts_pool_def pool_info_new_def risk_profile_default_def)

end
