(* ===== verification/Deployment.thy ===== *)
theory Deployment
  imports Risk
begin

text \<open>
  \<open>deployment.rs\<close> of the \<open>liquidity\<close> crate: strategies and the manager that spreads a validator's
  liquidity over the pools. \<open>ids\<close> is the order in which the hash map of pools is iterated, which does
  not change while its keys do not; \<open>show_f64\<close> is the \<open>Display\<close> of a floating point number.
\<close>

fun liquidity_error_to_string :: "(f64 \<Rightarrow> string) \<Rightarrow> LiquidityError \<Rightarrow> string" where
  "liquidity_error_to_string show_f64 (PoolError s) = ''Pool error: '' @ s"
| "liquidity_error_to_string show_f64 (DeploymentError s) = ''Deployment error: '' @ s"
| "liquidity_error_to_string show_f64 (RiskError s) = ''Risk error: '' @ s"
| "liquidity_error_to_string show_f64 (InsufficientLiquidity r a) =
     ''Insufficient liquidity: required '' @ show_nat r @ '', available '' @ show_nat a"
| "liquidity_error_to_string show_f64 (PoolNotFound i) = ''Pool not found: '' @ show_u64 i"
| "liquidity_error_to_string show_f64 (InvalidAllocation s) = ''Invalid allocation: '' @ s"
| "liquidity_error_to_string show_f64 (SlippageTooHigh x) = ''Slippage too high: '' @ show_f64 x @ ''%''"
| "liquidity_error_to_string show_f64 (PositionNotFound s) = ''Position not found: '' @ s"
| "liquidity_error_to_string show_f64 (CalculationError s) = ''Calculation error: '' @ s"

fun show_pool_type :: "PoolType \<Rightarrow> string" where
  "show_pool_type AMM = ''AMM''"
| "show_pool_type Lending = ''Lending''"
| "show_pool_type Treasury = ''Treasury''"
| "show_pool_type StabilityReserve = ''StabilityReserve''"

record DeploymentAllocation =
  da_pool_type :: PoolType
  da_percentage :: f64
  da_min_amount :: "Amount option"
  da_max_amount :: "Amount option"

datatype DeploymentStrategy = Conservative | Balanced | Aggressive | Custom "DeploymentAllocation list"

abbreviation plain_allocation :: "PoolType \<Rightarrow> rat \<Rightarrow> DeploymentAllocation" where
  "plain_allocation ty q \<equiv> \<lparr>da_pool_type = ty, da_percentage = fl q, da_min_amount = None, da_max_amount = None\<rparr>"

fun default_allocations :: "DeploymentStrategy \<Rightarrow> DeploymentAllocation list" where
  "default_allocations Conservative =
     [plain_allocation Treasury 40, plain_allocation StabilityReserve 35, plain_allocation Lending 20, plain_allocation AMM 5]"
| "default_allocations Balanced =
     [plain_allocation Lending 35, plain_allocation AMM 30, plain_allocation StabilityReserve 20, plain_allocation Treasury 15]"
| "default_allocations Aggressive =
     [plain_allocation AMM 50, plain_allocation Lending 40, plain_allocation StabilityReserve 10]"
| "default_allocations (Custom allocations) = allocations"

definition strategy_validate :: "(f64 \<Rightarrow> string) \<Rightarrow> DeploymentStrategy \<Rightarrow> (unit, LiquidityError) outcome" where
  "strategy_validate show_f64 s =
     (let share = f64_sum (map da_percentage (default_allocations s))
      in if f64_lt (fl (1 / 10)) (f64_abs (f64_sub share (fl 100)))
         then Err (InvalidAllocation (''Allocations sum to '' @ show_f64 share @ ''%, must be 100%''))
         else Ok ())"

record DeploymentManager =
  dm_pools :: "(u64, LiquidityPool) fmap"
  dm_strategies :: "(address, DeploymentStrategy) fmap"
  dm_risk_calculator :: RiskCalculator
  dm_min_deployment_per_pool :: Amount

record PoolDeployment =
  pd_pool_id :: u64
  pd_pool_type :: PoolType
  pd_amount :: Amount

record FailedDeployment =
  fd_pool_type :: PoolType
  fd_amount :: Amount
  fd_error :: string

record DeploymentReport =
  dr_validator :: address
  dr_total_deployed :: Amount
  dr_deployments :: "PoolDeployment list"
  dr_failed_deployments :: "FailedDeployment list"

record RebalanceReport =
  rr_validator :: address
  rr_withdrawn :: "PoolDeployment list"
  rr_redeployed :: "PoolDeployment list"

definition deployment_manager_new :: "Amount \<Rightarrow> DeploymentManager" where
  "deployment_manager_new minimum = \<lparr>dm_pools = fmempty, dm_strategies = fmempty,
     dm_risk_calculator = risk_calculator_new, dm_min_deployment_per_pool = minimum\<rparr>"

definition register_pool ::
    "DeploymentManager \<Rightarrow> LiquidityPool \<Rightarrow> (unit, LiquidityError) outcome \<times> DeploymentManager" where
  "register_pool m pool =
     (let i = pi_id (lq_info pool) in
      if fmlookup (dm_pools m) i \<noteq> None then (Err (PoolError (''Pool '' @ show_u64 i @ '' already exists'')), m)
      else (Ok (), m\<lparr>dm_pools := fmupd i pool (dm_pools m)\<rparr>))"

definition dm_get_pool :: "DeploymentManager \<Rightarrow> u64 \<Rightarrow> (LiquidityPool, LiquidityError) outcome" where
  "dm_get_pool m pool_id = ok_or (PoolNotFound pool_id) (fmlookup (dm_pools m) pool_id)"

text \<open>\<open>get_pool_mut\<close> followed by an operation on the pool.\<close>

definition with_pool ::
    "DeploymentManager \<Rightarrow> u64 \<Rightarrow> (LiquidityPool \<Rightarrow> ('a, LiquidityError) outcome \<times> LiquidityPool)
      \<Rightarrow> ('a, LiquidityError) outcome \<times> DeploymentManager" where
  "with_pool m pool_id f =
     (case fmlookup (dm_pools m) pool_id of
        None \<Rightarrow> (Err (PoolNotFound pool_id), m)
      | Some pool \<Rightarrow> let (r, pool1) = f pool in (r, m\<lparr>dm_pools := fmupd pool_id pool1 (dm_pools m)\<rparr>))"

definition set_strategy ::
    "(f64 \<Rightarrow> string) \<Rightarrow> DeploymentManager \<Rightarrow> address \<Rightarrow> DeploymentStrategy \<Rightarrow> (unit, LiquidityError) outcome \<times> DeploymentManager" where
  "set_strategy show_f64 m validator strategy =
     (case strategy_validate show_f64 strategy of
        Err e \<Rightarrow> (Err e, m)
      | Panic \<Rightarrow> (Panic, m)
      | Ok _ \<Rightarrow> (Ok (), m\<lparr>dm_strategies := fmupd validator strategy (dm_strategies m)\<rparr>))"

definition get_strategy :: "DeploymentManager \<Rightarrow> address \<Rightarrow> DeploymentStrategy" where
  "get_strategy m validator = lookup_default Balanced (dm_strategies m) validator"

definition calculate_allocation_amount :: "Amount \<Rightarrow> DeploymentAllocation \<Rightarrow> Amount" where
  "calculate_allocation_amount amount allocation =
     (let total_val = f64_of_u64 (low_u64 amount);
          amount_val = f64_div (f64_mul total_val (da_percentage allocation)) (fl 100);
          amount_val1 = (case da_min_amount allocation of
             Some mn \<Rightarrow> f64_max amount_val (f64_of_u64 (low_u64 mn)) | None \<Rightarrow> amount_val);
          amount_val2 = (case da_max_amount allocation of
             Some mx \<Rightarrow> f64_min amount_val1 (f64_of_u64 (if mx = 0 then - 1 else low_u64 mx)) | None \<Rightarrow> amount_val1)
      in amount_from_u64 (f64_to_u64 amount_val2))"

fun best_pool_loop :: "PoolType \<Rightarrow> (u64 \<times> LiquidityPool) list \<Rightarrow> (u64 \<times> f64) option \<Rightarrow> (u64 \<times> f64) option" where
  "best_pool_loop ty [] best = best"
| "best_pool_loop ty ((i, pool) # rest) best =
     best_pool_loop ty rest
       (if pi_pool_type (lq_info pool) = ty \<and> pi_active (lq_info pool)
        then let rar = risk_adjusted_return (lq_info pool)
             in (case best of
                   Some (_, best_rar) \<Rightarrow> if f64_lt best_rar rar then Some (i, rar) else best
                 | None \<Rightarrow> Some (i, rar))
        else best)"

definition pool_entries :: "u64 list \<Rightarrow> DeploymentManager \<Rightarrow> (u64 \<times> LiquidityPool) list" where
  "pool_entries ids m = List.map_filter (\<lambda>i. map_option (Pair i) (fmlookup (dm_pools m) i)) ids"

definition find_best_pool :: "u64 list \<Rightarrow> DeploymentManager \<Rightarrow> PoolType \<Rightarrow> (u64, LiquidityError) outcome" where
  "find_best_pool ids m ty =
     ok_or (PoolError (''No active pool found for type '' @ show_pool_type ty))
       (map_option fst (best_pool_loop ty (pool_entries ids m) None))"

definition deploy_to_pool ::
    "Timestamp \<Rightarrow> DeploymentManager \<Rightarrow> u64 \<Rightarrow> address \<Rightarrow> Amount \<Rightarrow> (unit, LiquidityError) outcome \<times> DeploymentManager" where
  "deploy_to_pool now m pool_id validator amount = with_pool m pool_id (\<lambda>pool. lq_deposit now pool validator amount)"

fun deploy_loop ::
    "(f64 \<Rightarrow> string) \<Rightarrow> Timestamp \<Rightarrow> u64 list \<Rightarrow> address \<Rightarrow> Amount \<Rightarrow> DeploymentAllocation list \<Rightarrow> DeploymentReport
      \<Rightarrow> DeploymentManager \<Rightarrow> (DeploymentReport, LiquidityError) outcome \<times> DeploymentManager" where
  "deploy_loop show_f64 now ids validator total_amount [] report m = (Ok report, m)"
| "deploy_loop show_f64 now ids validator total_amount (allocation # rest) report m =
     (let amount = calculate_allocation_amount total_amount allocation; ty = da_pool_type allocation in
      if amount < dm_min_deployment_per_pool m
      then deploy_loop show_f64 now ids validator total_amount rest report m
      else case find_best_pool ids m ty of
             Err e \<Rightarrow> (Err e, m)
           | Panic \<Rightarrow> (Panic, m)
           | Ok pool_id \<Rightarrow>
               (case deploy_to_pool now m pool_id validator amount of
                  (Ok _, m1) \<Rightarrow>
                    let report1 = report\<lparr>dr_deployments := dr_deployments report @
                          [\<lparr>pd_pool_id = pool_id, pd_pool_type = ty, pd_amount = amount\<rparr>]\<rparr>
                    in (case amount_checked_add (dr_total_deployed report1) amount of
                          None \<Rightarrow> (Err (CalculationError ''Total deployed overflow''), m1)
                        | Some t \<Rightarrow> deploy_loop show_f64 now ids validator total_amount rest (report1\<lparr>dr_total_deployed := t\<rparr>) m1)
                | (Err e, m1) \<Rightarrow>
                    deploy_loop show_f64 now ids validator total_amount rest
                      (report\<lparr>dr_failed_deployments := dr_failed_deployments report @
                        [\<lparr>fd_pool_type = ty, fd_amount = amount, fd_error = liquidity_error_to_string show_f64 e\<rparr>]\<rparr>) m1
                | (Panic, m1) \<Rightarrow> (Panic, m1)))"

definition dm_deploy_liquidity ::
    "(f64 \<Rightarrow> string) \<Rightarrow> Timestamp \<Rightarrow> u64 list \<Rightarrow> DeploymentManager \<Rightarrow> address \<Rightarrow> Amount
      \<Rightarrow> (DeploymentReport, LiquidityError) outcome \<times> DeploymentManager" where
  "dm_deploy_liquidity show_f64 now ids m validator total_amount =
     (let allocations = default_allocations (get_strategy m validator);
          report = \<lparr>dr_validator = validator, dr_total_deployed = amount_zero, dr_deployments = [], dr_failed_deployments = []\<rparr>
      in deploy_loop show_f64 now ids validator total_amount allocations report m)"

definition dm_withdraw_liquidity ::
    "Timestamp \<Rightarrow> DeploymentManager \<Rightarrow> u64 \<Rightarrow> address \<Rightarrow> Amount \<Rightarrow> Timestamp
      \<Rightarrow> (unit, LiquidityError) outcome \<times> DeploymentManager" where
  "dm_withdraw_liquidity now m pool_id validator amount unlock_time =
     with_pool m pool_id (\<lambda>pool. request_withdrawal now pool validator amount unlock_time)"

definition get_validator_deployments :: "u64 list \<Rightarrow> DeploymentManager \<Rightarrow> address \<Rightarrow> PoolDeployment list" where
  "get_validator_deployments ids m validator =
     map (\<lambda>(i, pool). \<lparr>pd_pool_id = i, pd_pool_type = pi_pool_type (lq_info pool), pd_amount = lq_get_balance pool validator\<rparr>)
       (filter (\<lambda>(_, pool). \<not> amount_is_zero (lq_get_balance pool validator)) (pool_entries ids m))"

definition sum_deployments :: "PoolDeployment list \<Rightarrow> Amount" where
  "sum_deployments ds =
     foldl (\<lambda>acc d. case amount_checked_add acc (pd_amount d) of Some a \<Rightarrow> a | None \<Rightarrow> acc) amount_zero ds"

definition get_total_deployed :: "u64 list \<Rightarrow> DeploymentManager \<Rightarrow> address \<Rightarrow> Amount" where
  "get_total_deployed ids m validator = sum_deployments (get_validator_deployments ids m validator)"

fun withdraw_loop ::
    "Timestamp \<Rightarrow> address \<Rightarrow> PoolDeployment list \<Rightarrow> DeploymentManager \<Rightarrow> (unit, LiquidityError) outcome \<times> DeploymentManager" where
  "withdraw_loop now validator [] m = (Ok (), m)"
| "withdraw_loop now validator (d # ds) m =
     (case dm_withdraw_liquidity now m (pd_pool_id d) validator (pd_amount d) (- 1) of
        (Ok _, m1) \<Rightarrow> withdraw_loop now validator ds m1
      | (Err e, m1) \<Rightarrow> (Err e, m1)
      | (Panic, m1) \<Rightarrow> (Panic, m1))"

definition rebalance ::
    "(f64 \<Rightarrow> string) \<Rightarrow> Timestamp \<Rightarrow> u64 list \<Rightarrow> DeploymentManager \<Rightarrow> address
      \<Rightarrow> (RebalanceReport, LiquidityError) outcome \<times> DeploymentManager" where
  "rebalance show_f64 now ids m validator =
     (let current_deployments = get_validator_deployments ids m validator;
          deployed = sum_deployments current_deployments
      in case withdraw_loop now validator current_deployments m of
           (Err e, m1) \<Rightarrow> (Err e, m1)
         | (Panic, m1) \<Rightarrow> (Panic, m1)
         | (Ok _, m1) \<Rightarrow>
             let (r, m2) = dm_deploy_liquidity show_f64 now ids m1 validator deployed
             in (and_then r (\<lambda>report. Ok \<lparr>rr_validator = validator, rr_withdrawn = current_deployments,
                    rr_redeployed = dr_deployments report\<rparr>), m2))"

text \<open>\<open>orders\<close> gives for every pool the order in which its pending withdrawals are iterated.\<close>

fun process_pending_withdrawals ::
    "(u64 \<Rightarrow> (address \<times> PendingWithdrawal) list) \<Rightarrow> u64 list \<Rightarrow> DeploymentManager \<Rightarrow> Timestamp
      \<Rightarrow> (u64 \<times> address \<times> Amount) list \<times> DeploymentManager" where
  "process_pending_withdrawals orders [] m current_time = ([], m)"
| "process_pending_withdrawals orders (i # ids) m current_time =
     (case fmlookup (dm_pools m) i of
        None \<Rightarrow> process_pending_withdrawals orders ids m current_time
      | Some pool \<Rightarrow>
          let (completed, pool1) = process_withdrawals (orders i) pool current_time;
              m1 = m\<lparr>dm_pools := fmupd i pool1 (dm_pools m)\<rparr>;
              (rest, m2) = process_pending_withdrawals orders ids m1 current_time
          in (map (\<lambda>(v, a). (i, v, a)) completed @ rest, m2))"

section \<open>Sums over the pools\<close>

definition validator_total :: "address \<Rightarrow> DeploymentManager \<Rightarrow> nat" where
  "validator_total v m = fm_sum (\<lambda>p. lq_get_balance p v) (dm_pools m)"

lemma fmupd_same: "fmlookup m k = Some v \<Longrightarrow> fmupd k v m = m"
  by (rule fmap_ext) auto

lemma lq_deposit_balance:
  "lq_get_balance (snd (lq_deposit now p v a)) u = lq_get_balance p u + (if u = v \<and> is_ok (fst (lq_deposit now p v a)) then a else 0)"
  by (simp add: lq_deposit_eq lq_get_balance_def)

lemma lq_deposit_pending: "lq_pending_withdrawals (snd (lq_deposit now p v a)) = lq_pending_withdrawals p"
  by (simp add: lq_deposit_eq)

lemma request_balance: "lq_get_balance (snd (request_withdrawal now p v a u)) x = lq_get_balance p x"
  by (simp add: request_withdrawal_eq lq_get_balance_def)

lemma with_pool_total:
  assumes "fmlookup (dm_pools m) i = Some p"
  shows "validator_total u (snd (with_pool m i f)) + lq_get_balance p u = validator_total u m + lq_get_balance (snd (f p)) u"
  using fm_sum_put_old [OF assms, of "\<lambda>p. lq_get_balance p u" "snd (f p)"] assms
  by (auto simp: with_pool_def validator_total_def split: prod.splits)

lemma deploy_to_pool_total:
  "validator_total u (snd (deploy_to_pool now m i v a)) =
     validator_total u m + (if u = v \<and> is_ok (fst (deploy_to_pool now m i v a)) then a else 0)"
proof (cases "fmlookup (dm_pools m) i")
  case (Some p)
  have "fst (deploy_to_pool now m i v a) = fst (lq_deposit now p v a)"
    using Some by (simp add: deploy_to_pool_def with_pool_def split: prod.splits)
  then show ?thesis using with_pool_total [OF Some, of u "\<lambda>p. lq_deposit now p v a"]
    by (simp add: lq_deposit_balance deploy_to_pool_def)
qed (simp add: deploy_to_pool_def with_pool_def)

text \<open>The pending withdrawals of every pool stay as they are while deploying.\<close>

definition pendings :: "DeploymentManager \<Rightarrow> u64 \<Rightarrow> address \<Rightarrow> PendingWithdrawal option" where
  "pendings m i v = (case fmlookup (dm_pools m) i of Some p \<Rightarrow> fmlookup (lq_pending_withdrawals p) v | None \<Rightarrow> None)"

lemma deploy_to_pool_pendings: "pendings (snd (deploy_to_pool now m i v a)) = pendings m"
  by (intro ext) (auto simp: pendings_def deploy_to_pool_def with_pool_def lq_deposit_eq split: option.splits prod.splits)

definition amounts_of :: "PoolDeployment list \<Rightarrow> nat" where
  "amounts_of ds = sum_list (map pd_amount ds)"

lemma sum_deployments_eq: "sum_deployments ds = amounts_of ds"
proof -
  have "foldl (\<lambda>acc d. case amount_checked_add acc (pd_amount d) of Some a \<Rightarrow> a | None \<Rightarrow> acc) x ds = x + amounts_of ds" for x
    by (induction ds arbitrary: x) (simp_all add: amount_checked_add_def amounts_of_def)
  then show ?thesis by (simp add: sum_deployments_def amount_zero_def)
qed

lemma deploy_loop_correct:
  assumes "deploy_loop show now ids v n als rep m = (Ok rep', m')"
  shows "validator_total v m' + dr_total_deployed rep = validator_total v m + dr_total_deployed rep' \<and>
    (\<forall>u. u \<noteq> v \<longrightarrow> validator_total u m' = validator_total u m) \<and>
    amounts_of (dr_deployments rep') + dr_total_deployed rep = amounts_of (dr_deployments rep) + dr_total_deployed rep' \<and>
    dr_total_deployed rep' \<le> dr_total_deployed rep + sum_list (map (calculate_allocation_amount n) als) \<and>
    pendings m' = pendings m"
  using assms
proof (induction als arbitrary: rep m)
  case (Cons al als)
  let ?a = "calculate_allocation_amount n al"
  show ?case
  proof (cases "?a < dm_min_deployment_per_pool m")
    case True
    then show ?thesis using Cons.IH [of rep m] Cons.prems by auto
  next
    case False
    then obtain i where i: "find_best_pool ids m (da_pool_type al) = Ok i"
      using Cons.prems by (auto simp: Let_def split: outcome.splits)
    obtain r m1 where d: "deploy_to_pool now m i v ?a = (r, m1)" by (cases "deploy_to_pool now m i v ?a")
    note t = deploy_to_pool_total [of _ now m i v ?a, unfolded d] and p = deploy_to_pool_pendings [of now m i v ?a, unfolded d]
    show ?thesis
    proof (cases r)
      case (Ok x)
      let ?rep = "rep\<lparr>dr_deployments := dr_deployments rep @ [\<lparr>pd_pool_id = i, pd_pool_type = da_pool_type al, pd_amount = ?a\<rparr>],
          dr_total_deployed := dr_total_deployed rep + ?a\<rparr>"
      have "deploy_loop show now ids v n als ?rep m1 = (Ok rep', m')"
        using Cons.prems False i d Ok by (simp add: Let_def amount_checked_add_def)
      from Cons.IH [OF this] show ?thesis using t p Ok by (auto simp: amounts_of_def)
    next
      case (Err e)
      let ?rep = "rep\<lparr>dr_failed_deployments := dr_failed_deployments rep @
          [\<lparr>fd_pool_type = da_pool_type al, fd_amount = ?a, fd_error = liquidity_error_to_string show e\<rparr>]\<rparr>"
      have "deploy_loop show now ids v n als ?rep m1 = (Ok rep', m')"
        using Cons.prems False i d Err by (simp add: Let_def)
      from Cons.IH [OF this] show ?thesis using t p Err by auto
    next
      case Panic
      then show ?thesis using Cons.prems False i d by (simp add: Let_def)
    qed
  qed
qed simp

lemma allocation_exact:
  assumes "n < 2 ^ 38" and "k \<le> 100"
  shows "calculate_allocation_amount n (plain_allocation ty (of_nat k)) = n * k div 100"
proof -
  have h: "fl 100 = Fin 100" by (rule fl_exact [OF representable_numeral]) simp
  have nk: "n * k \<le> n * 100" using assms(2) by simp
  have d: "n * k div 100 < 2 ^ 38" using assms(1) div_le_mono [OF nk, of 100] by simp
  have v: "f64_of_u64 (low_u64 n) = Fin (of_nat n)" using assms(1) by (simp add: unat_low_u64 fl_of_nat)
  have k: "fl (of_nat k) = Fin (of_nat k)" by (rule fl_exact [OF representable_of_nat]) (use assms(2) in simp)
  have "n * k \<le> 2 ^ 53" by (rule order_trans [OF nk]) (use assms(1) in simp)
  then have p: "fl (of_nat n * of_nat k) = Fin (of_nat (n * k))" using fl_exact [OF representable_of_nat [of "n * k"]] by simp
  have "f64_to_nat (2 ^ 64 - 1) (fl (of_nat (n * k) / of_nat 100)) = min (2 ^ 64 - 1) (n * k div 100)"
    by (rule fl_floor_div) (use d in simp_all)
  also have "\<dots> = n * k div 100" using d by simp
  finally show ?thesis
    unfolding calculate_allocation_amount_def Let_def DeploymentAllocation.select_convs option.case v k f64_mul.simps p h
      f64_div.simps amount_from_u64_def unat_f64_to_u64 by simp
qed

lemma standard_strategy_within:
  assumes "n < 2 ^ 38" and "\<forall>als. s \<noteq> Custom als"
  shows "sum_list (map (calculate_allocation_amount n) (default_allocations s)) \<le> n"
proof -
  note e = allocation_exact [OF assms(1), of 40] allocation_exact [OF assms(1), of 35] allocation_exact [OF assms(1), of 20]
    allocation_exact [OF assms(1), of 5] allocation_exact [OF assms(1), of 30] allocation_exact [OF assms(1), of 15]
    allocation_exact [OF assms(1), of 50] allocation_exact [OF assms(1), of 10]
  have "n * 40 div 100 + n * 35 div 100 + n * 20 div 100 + n * 5 div 100 \<le> n"
    "n * 35 div 100 + n * 30 div 100 + n * 20 div 100 + n * 15 div 100 \<le> n"
    "n * 50 div 100 + n * 40 div 100 + n * 10 div 100 \<le> n" by linarith+
  then show ?thesis using assms(2) by (cases s) (simp_all add: e [simplified])
qed

section \<open>The best pool\<close>

lemma f64_not_lt_trans: "y \<noteq> NaN \<Longrightarrow> \<not> f64_lt y x \<Longrightarrow> \<not> f64_lt z y \<Longrightarrow> \<not> f64_lt z x"
  by (cases x; cases y; cases z) auto

lemma f64_lt_not_lt: "f64_lt x y \<Longrightarrow> \<not> f64_lt y x"
  by (cases x; cases y) auto

lemma f64_not_lt_refl: "\<not> f64_lt x x"
  by (cases x) auto

definition candidate :: "PoolType \<Rightarrow> u64 \<times> LiquidityPool \<Rightarrow> bool" where
  "candidate ty e \<longleftrightarrow> pi_pool_type (lq_info (snd e)) = ty \<and> pi_active (lq_info (snd e))"

abbreviation rar_of :: "u64 \<times> LiquidityPool \<Rightarrow> f64" where
  "rar_of e \<equiv> risk_adjusted_return (lq_info (snd e))"

lemma best_pool_loop_correct:
  assumes "\<forall>i r. best = Some (i, r) \<longrightarrow> r \<noteq> NaN"
  shows "(best_pool_loop ty es best = None \<longleftrightarrow> best = None \<and> (\<forall>e \<in> set es. \<not> candidate ty e)) \<and>
    (\<forall>i r. best_pool_loop ty es best = Some (i, r) \<longrightarrow> r \<noteq> NaN \<and>
       (best = Some (i, r) \<or> (\<exists>e \<in> set es. candidate ty e \<and> fst e = i \<and> rar_of e = r)) \<and>
       (\<forall>e \<in> set es. candidate ty e \<longrightarrow> \<not> f64_lt r (rar_of e)) \<and>
       (\<forall>j s. best = Some (j, s) \<longrightarrow> \<not> f64_lt r s))"
  using assms
proof (induction es arbitrary: best)
  case Nil
  then show ?case by (auto simp: f64_not_lt_refl)
next
  case (Cons e es)
  obtain i p where e: "e = (i, p)" by (cases e)
  let ?best = "if candidate ty e then (case best of Some (_, s) \<Rightarrow> if f64_lt s (rar_of e) then Some (i, rar_of e) else best
      | None \<Rightarrow> Some (i, rar_of e)) else best"
  have step: "best_pool_loop ty (e # es) best = best_pool_loop ty es ?best"
    unfolding e best_pool_loop.simps candidate_def Let_def snd_conv ..
  have nn: "\<forall>j r. ?best = Some (j, r) \<longrightarrow> r \<noteq> NaN"
    using Cons.prems risk_adjusted_return_not_NaN by (auto split: option.splits if_splits)
  have some: "?best = None \<longleftrightarrow> best = None \<and> \<not> candidate ty e" by (auto split: option.splits)
  have orig: "?best = best \<or> (candidate ty e \<and> ?best = Some (i, rar_of e))" by (auto split: option.splits)
  have above: "\<not> f64_lt r s" if "?best = Some (j', t)" "\<not> f64_lt r t" "best = Some (j, s)" for r s t j j'
  proof -
    have "t \<noteq> NaN" "\<not> f64_lt t s" using that nn f64_not_lt_refl f64_lt_not_lt by (auto split: if_splits)
    then show ?thesis using that(2) by (rule f64_not_lt_trans)
  qed
  have above': "\<not> f64_lt r (rar_of e)" if "?best = Some (j', t)" "\<not> f64_lt r t" "candidate ty e" for r t j'
  proof -
    have "t \<noteq> NaN" "\<not> f64_lt t (rar_of e)" using that nn f64_not_lt_refl by (auto split: if_splits option.splits)
    then show ?thesis using that(2) by (rule f64_not_lt_trans)
  qed
  note IH = Cons.IH [OF nn]
  show ?case unfolding step
  proof (intro conjI allI impI)
    show "(best_pool_loop ty es ?best = None) = (best = None \<and> (\<forall>e \<in> set (e # es). \<not> candidate ty e))"
      using IH some by auto
    fix k r
    assume r: "best_pool_loop ty es ?best = Some (k, r)"
    show "r \<noteq> NaN" using IH r by blast
    show "best = Some (k, r) \<or> (\<exists>e' \<in> set (e # es). candidate ty e' \<and> fst e' = k \<and> rar_of e' = r)"
      using IH r orig e by auto
    have t: "\<not> f64_lt r t" if "?best = Some (j', t)" for j' t using IH r that by blast
    show "\<forall>e' \<in> set (e # es). candidate ty e' \<longrightarrow> \<not> f64_lt r (rar_of e')"
    proof -
      have "\<not> f64_lt r (rar_of e)" if c: "candidate ty e"
      proof -
        obtain j' t where "?best = Some (j', t)" using some c by (cases ?best) auto
        then show ?thesis using above' t c by blast
      qed
      then show ?thesis using IH r by auto
    qed
    fix j s
    assume b: "best = Some (j, s)"
    then obtain j' t where "?best = Some (j', t)" using some by (cases ?best) auto
    then show "\<not> f64_lt r s" using above t b by blast
  qed
qed

lemma set_pool_entries: "set (pool_entries ids m) = {(i, p). i \<in> set ids \<and> fmlookup (dm_pools m) i = Some p}"
  by (force simp: pool_entries_def List.map_filter_def image_iff)

section \<open>Withdrawing everything\<close>

lemma withdraw_loop_correct:
  assumes "withdraw_loop now v ds m = (Ok (), m')" and "distinct (map pd_pool_id ds)"
  shows "validator_total u m' = validator_total u m \<and>
    (\<forall>d \<in> set ds. \<exists>w. pendings m' (pd_pool_id d) v = Some w \<and> pw_amount w = pd_amount d \<and> pw_unlock_time w = - 1) \<and>
    (\<forall>i. i \<notin> set (map pd_pool_id ds) \<longrightarrow> pendings m' i = pendings m i)"
  using assms
proof (induction ds arbitrary: m)
  case (Cons d ds)
  let ?f = "\<lambda>p. request_withdrawal now p v (pd_amount d) (- 1)"
  obtain m1 where w: "dm_withdraw_liquidity now m (pd_pool_id d) v (pd_amount d) (- 1) = (Ok (), m1)"
      and rest: "withdraw_loop now v ds m1 = (Ok (), m')"
    using Cons.prems(1) by (auto split: outcome.splits prod.splits)
  then obtain p where p: "fmlookup (dm_pools m) (pd_pool_id d) = Some p"
    by (auto simp: dm_withdraw_liquidity_def with_pool_def split: option.splits)
  have f: "?f p = (Ok (), snd (?f p))" "m1 = m\<lparr>dm_pools := fmupd (pd_pool_id d) (snd (?f p)) (dm_pools m)\<rparr>"
    using w p by (auto simp: dm_withdraw_liquidity_def with_pool_def split: prod.splits)
  have t: "validator_total u m1 = validator_total u m"
    using with_pool_total [OF p, of u ?f] w by (simp add: dm_withdraw_liquidity_def request_balance)
  have pend: "\<exists>w. pendings m1 (pd_pool_id d) v = Some w \<and> pw_amount w = pd_amount d \<and> pw_unlock_time w = - 1"
      "\<And>i. i \<noteq> pd_pool_id d \<Longrightarrow> pendings m1 i = pendings m i"
    using f by (auto simp: pendings_def request_withdrawal_eq split: if_splits)
  show ?case using Cons.IH [OF rest] Cons.prems(2) t pend by auto
qed simp

lemma distinct_pool_entries: "distinct ids \<Longrightarrow> distinct (map fst (pool_entries ids m))"
proof -
  assume "distinct ids"
  moreover have "map fst (pool_entries ids m) = filter (\<lambda>i. fmlookup (dm_pools m) i \<noteq> None) ids"
    by (induction ids) (auto simp: pool_entries_def List.map_filter_simps split: option.splits)
  ultimately show ?thesis by simp
qed

lemma distinct_deployments: "distinct ids \<Longrightarrow> distinct (map pd_pool_id (get_validator_deployments ids m v))"
proof -
  assume "distinct ids"
  then have "distinct (map fst (filter (\<lambda>(_, pool). \<not> amount_is_zero (lq_get_balance pool v)) (pool_entries ids m)))"
    by (intro distinct_map_filter distinct_pool_entries)
  then show ?thesis by (simp add: get_validator_deployments_def comp_def case_prod_beta)
qed

section \<open>The invariant\<close>

text \<open>Every registered pool sits under its own id with its books in order, and every stored strategy has been validated.\<close>

definition dm_ok :: "DeploymentManager \<Rightarrow> bool" where
  "dm_ok m \<longleftrightarrow> (\<forall>i p. fmlookup (dm_pools m) i = Some p \<longrightarrow> lq_ok p \<and> pi_id (lq_info p) = i) \<and>
     (\<forall>v s sh. fmlookup (dm_strategies m) v = Some s \<longrightarrow> strategy_validate sh s = Ok ())"

lemma dm_ok_put: "dm_ok m \<Longrightarrow> lq_ok p \<Longrightarrow> pi_id (lq_info p) = i \<Longrightarrow> dm_ok (m\<lparr>dm_pools := fmupd i p (dm_pools m)\<rparr>)"
  by (simp add: dm_ok_def)

lemma complete_withdrawal_id: "pi_id (lq_info (snd (complete_withdrawal r p))) = pi_id (lq_info p)"
  by (simp add: complete_withdrawal_def Let_def split: prod.splits option.splits)

lemma process_loop_id: "pi_id (lq_info (snd (process_loop rs p))) = pi_id (lq_info p)"
proof (induction rs arbitrary: p)
  case (Cons r rs)
  then show ?case using complete_withdrawal_id [of r p] by (simp split: prod.splits) (metis snd_conv)
qed simp

lemma lq_step_id: "lq_step p p' \<Longrightarrow> pi_id (lq_info p') = pi_id (lq_info p)"
proof (induction rule: lq_step.induct)
  case (step_process iter p t)
  then show ?case
    using process_loop_id [of "ready_withdrawals iter t" p] by (auto simp: process_withdrawals_def ready_withdrawals_def split: prod.splits)
qed (simp_all add: lq_deposit_eq request_withdrawal_eq lq_calculate_yield_def update_apy_def update_risk_score_def
    lq_deactivate_def lq_activate_def Let_def)

lemma dm_ok_pool_step:
  assumes "dm_ok m" and "fmlookup (dm_pools m) i = Some p" and "lq_step p p'"
  shows "dm_ok (m\<lparr>dm_pools := fmupd i p' (dm_pools m)\<rparr>)"
  using assms lpool.step_inv [of p p'] lq_step_id [of p p'] by (intro dm_ok_put) (auto simp: dm_ok_def)

lemma dm_ok_with_pool:
  assumes ok: "dm_ok m" and f: "\<And>p. lq_step p (snd (f p))"
  shows "dm_ok (snd (with_pool m i f))"
proof (cases "fmlookup (dm_pools m) i")
  case (Some p)
  then show ?thesis using dm_ok_pool_step [OF ok Some f] by (auto simp: with_pool_def split: prod.splits)
qed (simp add: with_pool_def ok)

lemma dm_ok_deploy_to_pool: "dm_ok m \<Longrightarrow> dm_ok (snd (deploy_to_pool now m i v a))"
  unfolding deploy_to_pool_def by (erule dm_ok_with_pool) (rule lq_step.step_deposit)

lemma dm_ok_withdraw: "dm_ok m \<Longrightarrow> dm_ok (snd (dm_withdraw_liquidity now m i v a u))"
  unfolding dm_withdraw_liquidity_def by (erule dm_ok_with_pool) (rule lq_step.step_request)

lemma dm_ok_deploy_loop: "dm_ok m \<Longrightarrow> dm_ok (snd (deploy_loop sh now ids v n als rep m))"
proof (induction als arbitrary: rep m)
  case (Cons al als)
  have d: "dm_ok (snd (deploy_to_pool now m i v a))" for i a using Cons.prems by (rule dm_ok_deploy_to_pool)
  show ?case using Cons.IH Cons.prems d
    by (auto simp: Let_def amount_checked_add_def split: outcome.splits prod.splits) (metis snd_conv)+
qed simp

lemma dm_ok_withdraw_loop: "dm_ok m \<Longrightarrow> dm_ok (snd (withdraw_loop now v ds m))"
proof (induction ds arbitrary: m)
  case (Cons d ds)
  then show ?case using dm_ok_withdraw [OF Cons.prems, of now "pd_pool_id d" v "pd_amount d" "- 1"]
    by (auto split: outcome.splits prod.splits)
qed simp

lemma dm_ok_rebalance: "dm_ok m \<Longrightarrow> dm_ok (snd (rebalance sh now ids m v))"
proof -
  assume ok: "dm_ok m"
  have "dm_ok (snd (withdraw_loop now v (get_validator_deployments ids m v) m))" using ok by (rule dm_ok_withdraw_loop)
  then show ?thesis
    by (auto simp: rebalance_def dm_deploy_liquidity_def Let_def split: outcome.splits prod.splits)
      (metis dm_ok_deploy_loop snd_conv)
qed

lemma dm_ok_process:
  assumes "dm_ok m" and "distinct ids"
    and "\<forall>i \<in> set ids. \<forall>p. fmlookup (dm_pools m) i = Some p \<longrightarrow> enumerates (orders i) (lq_pending_withdrawals p)"
  shows "dm_ok (snd (process_pending_withdrawals orders ids m t))"
  using assms
proof (induction ids arbitrary: m)
  case (Cons i ids)
  show ?case
  proof (cases "fmlookup (dm_pools m) i")
    case None
    then show ?thesis using Cons.IH [of m] Cons.prems by simp
  next
    case (Some p)
    let ?m = "m\<lparr>dm_pools := fmupd i (snd (process_withdrawals (orders i) p t)) (dm_pools m)\<rparr>"
    have "dm_ok ?m" using Cons.prems Some by (intro dm_ok_pool_step [OF Cons.prems(1) Some] step_process) simp
    then have "dm_ok (snd (process_pending_withdrawals orders ids ?m t))" using Cons.IH [of ?m] Cons.prems by auto
    then show ?thesis using Some by (simp add: Let_def split: prod.splits) (metis snd_conv)
  qed
qed simp

inductive dm_step :: "DeploymentManager \<Rightarrow> DeploymentManager \<Rightarrow> bool" where
  step_register: "lq_init p \<Longrightarrow> dm_step m (snd (register_pool m p))"
| step_strategy: "dm_step m (snd (set_strategy sh m v s))"
| step_deploy: "dm_step m (snd (dm_deploy_liquidity sh now ids m v n))"
| step_withdraw: "dm_step m (snd (dm_withdraw_liquidity now m i v n u))"
| step_rebalance: "dm_step m (snd (rebalance sh now ids m v))"
| step_payout: "distinct ids \<Longrightarrow>
    \<forall>i \<in> set ids. \<forall>p. fmlookup (dm_pools m) i = Some p \<longrightarrow> enumerates (orders i) (lq_pending_withdrawals p) \<Longrightarrow>
    dm_step m (snd (process_pending_withdrawals orders ids m t))"
| step_pool: "fmlookup (dm_pools m) i = Some p \<Longrightarrow> lq_step p p' \<Longrightarrow> dm_step m (m\<lparr>dm_pools := fmupd i p' (dm_pools m)\<rparr>)"

definition dm_init :: "DeploymentManager \<Rightarrow> bool" where
  "dm_init m \<longleftrightarrow> (\<exists>n. m = deployment_manager_new n)"

lemma dm_ok_register: "dm_ok m \<Longrightarrow> lq_init p \<Longrightarrow> dm_ok (snd (register_pool m p))"
  using lpool.init_inv [of p] by (simp add: register_pool_def Let_def dm_ok_put)

lemma strategy_validate_show: "strategy_validate sh s = Ok () \<Longrightarrow> strategy_validate sh' s = Ok ()"
  by (simp add: strategy_validate_def Let_def split: if_splits)

lemma dm_ok_strategy: "dm_ok m \<Longrightarrow> dm_ok (snd (set_strategy sh m v s))"
  using strategy_validate_show [of sh s] by (auto simp: set_strategy_def dm_ok_def split: outcome.splits)

interpretation deployment: invariant_machine dm_init dm_step dm_ok
proof
  fix m m'
  show "dm_init m \<Longrightarrow> dm_ok m" by (auto simp: dm_init_def dm_ok_def deployment_manager_new_def)
  assume ok: "dm_ok m"
  assume "dm_step m m'"
  then show "dm_ok m'"
  proof cases
    case (step_deploy sh now ids v n)
    then show ?thesis using ok by (simp add: dm_deploy_liquidity_def Let_def dm_ok_deploy_loop)
  qed (use ok in \<open>simp_all add: dm_ok_register dm_ok_strategy dm_ok_withdraw dm_ok_rebalance dm_ok_process dm_ok_pool_step\<close>)
qed

section \<open>Properties\<close>

definition example_manager :: DeploymentManager where
  "example_manager = snd (register_pool (deployment_manager_new 100)
     (liquidity_pool_new 3 (pool_info_new 3 1 AMM ''Test'' 0 1000 500)))"

lemma example_manager_reachable: "dm_step\<^sup>*\<^sup>* (deployment_manager_new 100) example_manager"
  unfolding example_manager_def by (intro r_into_rtranclp step_register lq_init_new)

lemma example_manager_pool:
  "fmlookup (dm_pools example_manager) 1 = Some (liquidity_pool_new 3 (pool_info_new 3 1 AMM ''Test'' 0 1000 500))"
  by (simp add: example_manager_def register_pool_def Let_def deployment_manager_new_def liquidity_pool_new_def pool_info_new_def)

text \<open>In every deployment manager that calls reach, with any operations on the registered pools in between,
  each pool sits under its own id and satisfies the invariant of liquidity pools, and every stored strategy
  has passed validation.\<close>

lemma deployment_reachable:
  assumes "dm_step\<^sup>*\<^sup>* (deployment_manager_new n) m"
  shows "dm_ok m"
  by (rule deployment.reachable_inv [OF _ assms]) (auto simp: dm_init_def)

lemma deployment_reachable_witness: "dm_ok example_manager"
  by (rule deployment_reachable [OF example_manager_reachable])

text \<open>The choice of a pool does not miss a better one: it succeeds exactly when some pool of the type is
  active, and the chosen pool is of the type, active, and no other such pool has a higher risk-adjusted
  return, in whatever order the pools are visited.\<close>

lemma find_best_pool_correct:
  assumes "set ids = fset (fmdom (dm_pools m))"
  shows "(is_ok (find_best_pool ids m ty) \<longleftrightarrow> (\<exists>i p. fmlookup (dm_pools m) i = Some p \<and> candidate ty (i, p))) \<and>
    (\<forall>i. find_best_pool ids m ty = Ok i \<longrightarrow>
       (\<exists>p. fmlookup (dm_pools m) i = Some p \<and> candidate ty (i, p) \<and>
          (\<forall>j q. fmlookup (dm_pools m) j = Some q \<longrightarrow> candidate ty (j, q) \<longrightarrow>
             \<not> f64_lt (risk_adjusted_return (lq_info p)) (risk_adjusted_return (lq_info q)))))"
proof -
  let ?b = "best_pool_loop ty (pool_entries ids m) None"
  have es: "set (pool_entries ids m) = {(i, p). fmlookup (dm_pools m) i = Some p}"
    unfolding set_pool_entries assms by (auto simp: fmlookup_dom_iff)
  note b = best_pool_loop_correct [of None ty "pool_entries ids m", unfolded es, simplified]
  have "is_ok (find_best_pool ids m ty) \<longleftrightarrow> ?b \<noteq> None" by (cases ?b) (simp_all add: find_best_pool_def)
  then have 1: "is_ok (find_best_pool ids m ty) \<longleftrightarrow> (\<exists>i p. fmlookup (dm_pools m) i = Some p \<and> candidate ty (i, p))"
    using b by auto
  have "\<exists>p. fmlookup (dm_pools m) i = Some p \<and> candidate ty (i, p) \<and>
          (\<forall>j q. fmlookup (dm_pools m) j = Some q \<longrightarrow> candidate ty (j, q) \<longrightarrow>
             \<not> f64_lt (risk_adjusted_return (lq_info p)) (risk_adjusted_return (lq_info q)))"
    if h: "find_best_pool ids m ty = Ok i" for i
  proof -
    obtain r where "?b = Some (i, r)" using h by (cases ?b) (auto simp: find_best_pool_def)
    then show ?thesis using b by fastforce
  qed
  with 1 show ?thesis by blast
qed

lemma find_best_pool_correct_witness: "is_ok (find_best_pool [1] example_manager AMM)"
proof -
  have "set [1] = fset (fmdom (dm_pools example_manager))"
    by (simp add: example_manager_def register_pool_def Let_def deployment_manager_new_def liquidity_pool_new_def pool_info_new_def)
  moreover have "candidate AMM (1, liquidity_pool_new 3 (pool_info_new 3 1 AMM ''Test'' 0 1000 500))"
    by (simp add: candidate_def liquidity_pool_new_def pool_info_new_def)
  ultimately show ?thesis using find_best_pool_correct [of "[1]" example_manager AMM] example_manager_pool by blast
qed

text \<open>A deployment that is reported is exactly what happened: the reported total is the sum of the listed
  deployments, the validator's balances over all pools grow by exactly it, no other validator's change, and
  no pending withdrawal is touched. Under the built-in strategies and for amounts below \<open>2^38\<close> it never
  exceeds the amount to be deployed.\<close>

lemma deploy_liquidity_correct:
  assumes "dm_deploy_liquidity show_f64 now ids m v n = (Ok report, m')"
  shows "dr_total_deployed report = amounts_of (dr_deployments report) \<and>
    validator_total v m' = validator_total v m + dr_total_deployed report \<and>
    (\<forall>u. u \<noteq> v \<longrightarrow> validator_total u m' = validator_total u m) \<and> pendings m' = pendings m \<and>
    ((\<forall>als. get_strategy m v \<noteq> Custom als) \<and> n < 2 ^ 38 \<longrightarrow> dr_total_deployed report \<le> n)"
  using deploy_loop_correct [OF assms [unfolded dm_deploy_liquidity_def Let_def]]
    standard_strategy_within [of n "get_strategy m v"] by (auto simp: amounts_of_def amount_zero_def)

lemma deploy_liquidity_correct_witness:
  "\<exists>report m'. dm_deploy_liquidity (\<lambda>_. []) 5 [1] example_manager 7 50 = (Ok report, m') \<and> dr_total_deployed report \<le> 50"
proof -
  have s: "get_strategy example_manager 7 = Balanced"
    by (simp add: get_strategy_def example_manager_def register_pool_def Let_def deployment_manager_new_def)
  have mn: "dm_min_deployment_per_pool example_manager = 100"
    by (simp add: example_manager_def register_pool_def Let_def deployment_manager_new_def)
  have less: "calculate_allocation_amount 50 (plain_allocation ty (of_nat k)) < 100" if "k \<le> 100" for ty k
    using allocation_exact [of 50 k ty] that div_le_mono [of "50 * k" 5000 100] by simp
  have r: "dm_deploy_liquidity (\<lambda>_. []) 5 [1] example_manager 7 50 =
      (Ok \<lparr>dr_validator = 7, dr_total_deployed = amount_zero, dr_deployments = [], dr_failed_deployments = []\<rparr>, example_manager)"
    using less [of 35] less [of 30] less [of 20] less [of 15] by (simp add: dm_deploy_liquidity_def Let_def s mn)
  show ?thesis using deploy_liquidity_correct [OF r] r s by auto
qed

text \<open>Rebalancing counts the liquidity twice. When it succeeds, nothing has been withdrawn: each withdrawal
  is requested with the largest timestamp, meant as immediate, and so is never due; and the validator's
  balances grow by everything that was deployed again.\<close>

lemma rebalance_duplicates_liquidity:
  assumes "rebalance show_f64 now ids m v = (Ok report, m')" and "distinct ids"
  shows "validator_total v m' = validator_total v m + amounts_of (rr_redeployed report) \<and>
    (\<forall>d \<in> set (rr_withdrawn report). \<exists>w. pendings m' (pd_pool_id d) v = Some w \<and> pw_amount w = pd_amount d \<and>
       (\<forall>t. t < - 1 \<longrightarrow> \<not> pw_unlock_time w \<le> t))"
proof -
  let ?ds = "get_validator_deployments ids m v"
  obtain m1 r where w: "withdraw_loop now v ?ds m = (Ok (), m1)"
      and d: "dm_deploy_liquidity show_f64 now ids m1 v (sum_deployments ?ds) = (Ok r, m')"
      and rep: "rr_withdrawn report = ?ds" "rr_redeployed report = dr_deployments r"
    using assms(1) by (auto simp: rebalance_def Let_def outcome_simps split: outcome.splits prod.splits)
  note l = deploy_loop_correct [OF d [unfolded dm_deploy_liquidity_def Let_def]]
  note wl = withdraw_loop_correct [OF w distinct_deployments [OF assms(2)], of v]
  show ?thesis using wl l by (fastforce simp: rep amounts_of_def amount_zero_def)
qed

definition example_deployed :: DeploymentManager where
  "example_deployed = \<lparr>dm_pools = fmupd 1 (snd (lq_deposit 4 (liquidity_pool_new 3 (pool_info_new 3 1 AMM ''Test'' 0 1000 500)) 7 1000)) fmempty,
     dm_strategies = fmupd 7 (Custom [plain_allocation AMM (of_nat 100)]) fmempty,
     dm_risk_calculator = risk_calculator_new, dm_min_deployment_per_pool = 100\<rparr>"

lemma example_rebalance:
  "\<exists>report m'. rebalance (\<lambda>_. []) 5 [1] example_deployed 7 = (Ok report, m') \<and>
     rr_redeployed report = [\<lparr>pd_pool_id = 1, pd_pool_type = AMM, pd_amount = 1000\<rparr>] \<and>
     rr_withdrawn report = [\<lparr>pd_pool_id = 1, pd_pool_type = AMM, pd_amount = 1000\<rparr>]"
proof -
  note d = example_deployed_def liquidity_pool_new_def pool_info_new_def lq_deposit_eq lq_get_balance_def amount_zero_def
  let ?m = example_deployed
  have es: "get_validator_deployments [1] ?m 7 = [\<lparr>pd_pool_id = 1, pd_pool_type = AMM, pd_amount = 1000\<rparr>]"
    by (simp add: get_validator_deployments_def pool_entries_def List.map_filter_def d amount_is_zero_def)
  obtain m1 where w: "withdraw_loop 5 7 [\<lparr>pd_pool_id = 1, pd_pool_type = AMM, pd_amount = 1000\<rparr>] ?m = (Ok (), m1)"
      and p: "\<exists>p. fmlookup (dm_pools m1) 1 = Some p \<and> pi_active (lq_info p) \<and> pi_pool_type (lq_info p) = AMM"
      and s: "dm_strategies m1 = dm_strategies ?m" "dm_min_deployment_per_pool m1 = 100"
    by (simp add: dm_withdraw_liquidity_def with_pool_def request_withdrawal_eq d)
  obtain p where p: "fmlookup (dm_pools m1) 1 = Some p" "pi_active (lq_info p)" "pi_pool_type (lq_info p) = AMM" using p by blast
  have f: "find_best_pool [1] m1 AMM = Ok 1"
    using p by (simp add: find_best_pool_def pool_entries_def List.map_filter_def Let_def)
  have a: "calculate_allocation_amount 1000 (plain_allocation AMM (of_nat 100)) = 1000" using allocation_exact [of 1000 100 AMM] by simp
  have g: "get_strategy m1 7 = Custom [plain_allocation AMM (of_nat 100)]" by (simp add: get_strategy_def s example_deployed_def)
  have "fst (deploy_to_pool 5 m1 1 7 1000) = Ok ()"
    using p by (simp add: deploy_to_pool_def with_pool_def lq_deposit_eq)
  then obtain m2 where dp: "deploy_to_pool 5 m1 1 7 1000 = (Ok (), m2)" by (cases "deploy_to_pool 5 m1 1 7 1000") auto
  have sm: "sum_deployments [\<lparr>pd_pool_id = 1, pd_pool_type = AMM, pd_amount = 1000\<rparr>] = 1000"
    by (simp add: sum_deployments_eq amounts_of_def)
  have dl: "dm_deploy_liquidity (\<lambda>_. []) 5 [1] m1 7 1000 =
      (Ok \<lparr>dr_validator = 7, dr_total_deployed = 1000,
         dr_deployments = [\<lparr>pd_pool_id = 1, pd_pool_type = AMM, pd_amount = 1000\<rparr>], dr_failed_deployments = []\<rparr>, m2)"
    unfolding dm_deploy_liquidity_def Let_def g default_allocations.simps
    by (simp add: f a dp s amount_checked_add_def amount_zero_def Let_def del: of_nat_numeral)
  show ?thesis unfolding rebalance_def Let_def es w sm prod.case outcome.case dl and_then.simps by simp
qed

lemma rebalance_duplicates_liquidity_witness:
  "\<exists>report m'. rebalance (\<lambda>_. []) 5 [1] example_deployed 7 = (Ok report, m') \<and>
     validator_total 7 m' = validator_total 7 example_deployed + 1000"
proof -
  obtain report m' where r: "rebalance (\<lambda>_. []) 5 [1] example_deployed 7 = (Ok report, m')"
      "rr_redeployed report = [\<lparr>pd_pool_id = 1, pd_pool_type = AMM, pd_amount = 1000\<rparr>]" using example_rebalance by blast
  then show ?thesis using rebalance_duplicates_liquidity [OF r(1)] by (simp add: amounts_of_def)
qed

end
