(* ===== verification/Peer.thy ===== *)
theory Peer
  imports Transaction Interfaces
begin

text \<open>
  \<open>peer.rs\<close>, \<open>sync.rs\<close>, \<open>gossip.rs\<close> and the error type of the \<open>networking\<close> crate: what a node knows of its
  peers, their reputation and the manager that admits, bans and prunes them. The clock is an argument,
  and so is the order in which the hash map of peers is iterated.
\<close>

section \<open>The code\<close>

datatype NetworkError =
    ConnectionError string
  | ProtocolError string
  | PeerError string
  | SyncError string
  | SerializationError string
  | Timeout
  | InvalidMessage string

text \<open>A \<open>PeerId([u8; 32])\<close> is a 256-bit word; a \<open>SocketAddr\<close> the bytes of an address and a port.\<close>

type_synonym PeerId = "256 word"

datatype SocketAddr = SocketAddr bytes u16

datatype PeerStatus = Connecting | Connected | Disconnected | Banned

record PeerInfo =
  pi_id :: PeerId
  pi_address :: SocketAddr
  pi_status :: PeerStatus
  pi_best_block :: u64
  pi_protocol_version :: u32
  pi_client_version :: string
  pi_connected_at :: Timestamp
  pi_last_seen :: Timestamp
  pi_reputation :: int
  pi_outbound :: bool

definition peer_info_new :: "Timestamp \<Rightarrow> PeerId \<Rightarrow> SocketAddr \<Rightarrow> u32 \<Rightarrow> string \<Rightarrow> bool \<Rightarrow> PeerInfo" where
  "peer_info_new now i addr protocol_version client_version outbound =
     \<lparr>pi_id = i, pi_address = addr, pi_status = Connecting, pi_best_block = 0,
      pi_protocol_version = protocol_version, pi_client_version = client_version,
      pi_connected_at = now, pi_last_seen = now, pi_reputation = 0, pi_outbound = outbound\<rparr>"

definition update_last_seen :: "Timestamp \<Rightarrow> PeerInfo \<Rightarrow> PeerInfo" where
  "update_last_seen now p = p\<lparr>pi_last_seen := now\<rparr>"

definition is_connected :: "PeerInfo \<Rightarrow> bool" where
  "is_connected p \<longleftrightarrow> pi_status p = Connected"

definition is_banned :: "PeerInfo \<Rightarrow> bool" where
  "is_banned p \<longleftrightarrow> pi_status p = Banned"

text \<open>Reputation is an \<open>i32\<close>; its saturating operations clamp the exact result.\<close>

definition i32_clamp :: "int \<Rightarrow> int" where
  "i32_clamp x = max (- (2 ^ 31)) (min (2 ^ 31 - 1) x)"

definition increase_reputation :: "int \<Rightarrow> PeerInfo \<Rightarrow> PeerInfo" where
  "increase_reputation amount p = p\<lparr>pi_reputation := min (i32_clamp (pi_reputation p + amount)) 1000\<rparr>"

definition decrease_reputation :: "int \<Rightarrow> PeerInfo \<Rightarrow> PeerInfo" where
  "decrease_reputation amount p =
     (let p1 = p\<lparr>pi_reputation := i32_clamp (pi_reputation p - amount)\<rparr>
      in if pi_reputation p1 < - 100 then p1\<lparr>pi_status := Banned\<rparr> else p1)"

record PeerManager =
  pm_peers :: "(PeerId, PeerInfo) fmap"
  pm_max_peers :: nat
  pm_max_inbound :: nat
  pm_max_outbound :: nat

type_synonym peer_iter = "(PeerId, PeerInfo) fmap \<Rightarrow> (PeerId \<times> PeerInfo) list"

definition peer_manager_new :: "nat \<Rightarrow> nat \<Rightarrow> nat \<Rightarrow> PeerManager" where
  "peer_manager_new max_peers max_inbound max_outbound =
     \<lparr>pm_peers = fmempty, pm_max_peers = max_peers, pm_max_inbound = max_inbound, pm_max_outbound = max_outbound\<rparr>"

fun count_connections :: "PeerInfo list \<Rightarrow> nat \<times> nat \<Rightarrow> nat \<times> nat" where
  "count_connections [] cnt = cnt"
| "count_connections (p # ps) (inbound, outbound) =
     count_connections ps
       (if is_connected p then (if pi_outbound p then (inbound, outbound + 1) else (inbound + 1, outbound))
        else (inbound, outbound))"

definition connection_counts :: "peer_iter \<Rightarrow> PeerManager \<Rightarrow> nat \<times> nat" where
  "connection_counts I m = count_connections (map snd (I (pm_peers m))) (0, 0)"

definition add_peer :: "peer_iter \<Rightarrow> PeerManager \<Rightarrow> PeerInfo \<Rightarrow> (unit, NetworkError) outcome \<times> PeerManager" where
  "add_peer I m peer =
     (if pm_max_peers m \<le> fcard (fmdom (pm_peers m)) then (Err (PeerError ''Maximum peers reached''), m)
      else case connection_counts I m of (inbound_count, outbound_count) \<Rightarrow>
        if pi_outbound peer \<and> pm_max_outbound m \<le> outbound_count
        then (Err (PeerError ''Maximum outbound connections reached''), m)
        else if \<not> pi_outbound peer \<and> pm_max_inbound m \<le> inbound_count
        then (Err (PeerError ''Maximum inbound connections reached''), m)
        else (Ok (), m\<lparr>pm_peers := fmupd (pi_id peer) peer (pm_peers m)\<rparr>))"

definition remove_peer :: "PeerManager \<Rightarrow> PeerId \<Rightarrow> PeerInfo option \<times> PeerManager" where
  "remove_peer m i = (fmlookup (pm_peers m) i, m\<lparr>pm_peers := fmdrop i (pm_peers m)\<rparr>)"

definition get_peer :: "PeerManager \<Rightarrow> PeerId \<Rightarrow> PeerInfo option" where
  "get_peer m i = fmlookup (pm_peers m) i"

text \<open>A change through \<open>get_peer_mut\<close>; nothing happens when the peer is unknown.\<close>

definition with_peer :: "PeerManager \<Rightarrow> PeerId \<Rightarrow> (PeerInfo \<Rightarrow> PeerInfo) \<Rightarrow> PeerManager" where
  "with_peer m i f =
     (case fmlookup (pm_peers m) i of
        Some p \<Rightarrow> m\<lparr>pm_peers := fmupd i (f p) (pm_peers m)\<rparr>
      | None \<Rightarrow> m)"

definition connected_peers :: "peer_iter \<Rightarrow> PeerManager \<Rightarrow> PeerInfo list" where
  "connected_peers I m = filter is_connected (map snd (I (pm_peers m)))"

definition all_peers :: "peer_iter \<Rightarrow> PeerManager \<Rightarrow> PeerInfo list" where
  "all_peers I m = map snd (I (pm_peers m))"

definition peer_count :: "PeerManager \<Rightarrow> nat" where
  "peer_count m = fcard (fmdom (pm_peers m))"

definition connected_count :: "peer_iter \<Rightarrow> PeerManager \<Rightarrow> nat" where
  "connected_count I m = length (connected_peers I m)"

definition known_peer :: "PeerManager \<Rightarrow> PeerId \<Rightarrow> (PeerInfo, NetworkError) outcome" where
  "known_peer m i = ok_or (PeerError ''Peer not found'') (fmlookup (pm_peers m) i)"

definition update_peer_status :: "PeerManager \<Rightarrow> PeerId \<Rightarrow> PeerStatus \<Rightarrow> (PeerManager, NetworkError) outcome" where
  "update_peer_status m i status =
     and_then (known_peer m i) (\<lambda>p. Ok (m\<lparr>pm_peers := fmupd i (p\<lparr>pi_status := status\<rparr>) (pm_peers m)\<rparr>))"

definition update_best_block ::
    "Timestamp \<Rightarrow> PeerManager \<Rightarrow> PeerId \<Rightarrow> u64 \<Rightarrow> (PeerManager, NetworkError) outcome" where
  "update_best_block now m i number =
     and_then (known_peer m i) (\<lambda>p.
       Ok (m\<lparr>pm_peers := fmupd i (update_last_seen now (p\<lparr>pi_best_block := number\<rparr>)) (pm_peers m)\<rparr>))"

definition ban_peer :: "PeerManager \<Rightarrow> PeerId \<Rightarrow> string \<Rightarrow> (PeerManager, NetworkError) outcome" where
  "ban_peer m i reason =
     and_then (known_peer m i) (\<lambda>p. Ok (m\<lparr>pm_peers := fmupd i (p\<lparr>pi_status := Banned\<rparr>) (pm_peers m)\<rparr>))"

text \<open>\<open>sort_by(|a, b| b.best_block.cmp(&a.best_block))\<close> is stable.\<close>

definition get_sync_peers :: "peer_iter \<Rightarrow> PeerManager \<Rightarrow> u64 \<Rightarrow> PeerInfo list" where
  "get_sync_peers I m min_block =
     sort_key (\<lambda>p. - int (unat (pi_best_block p)))
       (filter (\<lambda>p. is_connected p \<and> min_block \<le> pi_best_block p) (map snd (I (pm_peers m))))"

definition keep_peer :: "Timestamp \<Rightarrow> u64 \<Rightarrow> PeerInfo \<Rightarrow> bool" where
  "keep_peer now timeout p \<longleftrightarrow> is_connected p \<or> now - pi_last_seen p < timeout \<or> 50 < pi_reputation p"

definition prune_peers :: "Timestamp \<Rightarrow> PeerManager \<Rightarrow> u64 \<Rightarrow> PeerManager" where
  "prune_peers now m timeout_seconds =
     m\<lparr>pm_peers := fmfilter (\<lambda>i. case fmlookup (pm_peers m) i of Some p \<Rightarrow> keep_peer now timeout_seconds p | None \<Rightarrow> False)
                    (pm_peers m)\<rparr>"

text \<open>\<open>max_by_key\<close> returns the last of several largest elements.\<close>

fun max_by_best_block :: "PeerInfo list \<Rightarrow> PeerInfo option \<Rightarrow> PeerInfo option" where
  "max_by_best_block [] best = best"
| "max_by_best_block (p # ps) best =
     max_by_best_block ps
       (case best of None \<Rightarrow> Some p | Some b \<Rightarrow> if pi_best_block b \<le> pi_best_block p then Some p else Some b)"

definition best_peer :: "peer_iter \<Rightarrow> PeerManager \<Rightarrow> PeerInfo option" where
  "best_peer I m = max_by_best_block (connected_peers I m) None"

section \<open>Synchronisation and gossip\<close>

datatype SyncStatus = Idle | Syncing BlockNumber BlockNumber | Complete

datatype SyncStrategy = FastSync | FullSync

record SyncManager =
  sm_status :: SyncStatus
  sm_strategy :: SyncStrategy

definition sync_manager_new :: "SyncStrategy \<Rightarrow> SyncManager" where
  "sync_manager_new strategy = \<lparr>sm_status = Idle, sm_strategy = strategy\<rparr>"

definition is_syncing :: "SyncManager \<Rightarrow> bool" where
  "is_syncing m = (case sm_status m of Syncing _ _ \<Rightarrow> True | _ \<Rightarrow> False)"

text \<open>Two placeholders that only log.\<close>

definition handle_fork_notification :: "SyncManager \<Rightarrow> SyncManager" where
  "handle_fork_notification m = m"

definition trigger_mempool_sync :: "SyncManager \<Rightarrow> SyncManager" where
  "trigger_mempool_sync m = m"

datatype GossipTopic = NewBlocks | NewTransactions | ConsensusTopic

record GossipService =
  gs_topics :: "GossipTopic list"

definition gossip_new :: GossipService where
  "gossip_new = \<lparr>gs_topics = [NewBlocks, NewTransactions, ConsensusTopic]\<rparr>"

section \<open>Well-formed managers\<close>

definition peer_ok :: "PeerInfo \<Rightarrow> bool" where
  "peer_ok p \<longleftrightarrow> - (2 ^ 31) \<le> pi_reputation p \<and> pi_reputation p \<le> 1000"

definition peers_ok :: "PeerManager \<Rightarrow> bool" where
  "peers_ok m \<longleftrightarrow> fcard (fmdom (pm_peers m)) \<le> pm_max_peers m \<and>
     (\<forall>i p. fmlookup (pm_peers m) i = Some p \<longrightarrow> pi_id p = i \<and> peer_ok p)"

lemma peer_ok_new: "peer_ok (peer_info_new now i addr v c ob)"
  by (simp add: peer_ok_def peer_info_new_def)

lemma increase_ok: "peer_ok p \<Longrightarrow> peer_ok (increase_reputation amount p) \<and> pi_id (increase_reputation amount p) = pi_id p"
  by (auto simp: peer_ok_def increase_reputation_def i32_clamp_def)

lemma decrease_ok:
  "peer_ok p \<Longrightarrow> 0 \<le> amount \<Longrightarrow> peer_ok (decrease_reputation amount p) \<and> pi_id (decrease_reputation amount p) = pi_id p"
  by (auto simp: peer_ok_def decrease_reputation_def i32_clamp_def Let_def)

lemma peers_ok_change:
  assumes "peers_ok m" and "fmlookup (pm_peers m) i = Some p" and "pi_id q = pi_id p" and "peer_ok q"
  shows "peers_ok (m\<lparr>pm_peers := fmupd i q (pm_peers m)\<rparr>)"
proof -
  have "i |\<in>| fmdom (pm_peers m)" using assms(2) by (simp add: fmdomI)
  then have "fcard (fmdom (fmupd i q (pm_peers m))) = fcard (fmdom (pm_peers m))" by (simp only: fcard_fmdom_fmupd if_True)
  then show ?thesis using assms by (auto simp: peers_ok_def simp del: fmdom_fmupd)
qed

lemma with_peer_ok:
  assumes "peers_ok m" and "\<And>p. peer_ok p \<Longrightarrow> peer_ok (f p) \<and> pi_id (f p) = pi_id p"
  shows "peers_ok (with_peer m i f)"
proof (cases "fmlookup (pm_peers m) i")
  case (Some p)
  then have "peer_ok p" using assms(1) by (simp add: peers_ok_def)
  then show ?thesis using peers_ok_change [OF assms(1) Some] assms(2) Some by (simp add: with_peer_def)
qed (use assms(1) in \<open>simp add: with_peer_def\<close>)

lemma add_peer_ok:
  assumes "peers_ok m" and "peer_ok p"
  shows "peers_ok (snd (add_peer I m p))"
proof (cases "pm_max_peers m \<le> fcard (fmdom (pm_peers m))")
  case False
  then have "peers_ok (m\<lparr>pm_peers := fmupd (pi_id p) p (pm_peers m)\<rparr>)"
    using assms fcard_fmdom_fmupd [of "pi_id p" p "pm_peers m"] by (auto simp: peers_ok_def simp del: fmdom_fmupd)
  then show ?thesis using assms(1) by (simp add: add_peer_def split: prod.splits)
qed (simp add: add_peer_def assms(1))

lemma fcard_subset_dom: "fmdom m |\<subseteq>| fmdom n \<Longrightarrow> fcard (fmdom m) \<le> fcard (fmdom n)"
  by (rule fcard_mono)

lemma removal_ok:
  assumes "peers_ok m"
  shows "peers_ok (snd (remove_peer m i))" and "peers_ok (prune_peers now m timeout)"
proof -
  have "fcard (fmdom (fmdrop i (pm_peers m))) \<le> fcard (fmdom (pm_peers m))" by (rule fcard_subset_dom) auto
  then show "peers_ok (snd (remove_peer m i))" using assms by (auto simp: peers_ok_def remove_peer_def simp del: fmdom_drop)
  have "fcard (fmdom (fmfilter P (pm_peers m))) \<le> fcard (fmdom (pm_peers m))" for P by (rule fcard_subset_dom) auto
  then show "peers_ok (prune_peers now m timeout)"
    using assms by (auto simp: peers_ok_def prune_peers_def intro: le_trans simp del: fmdom_filter split: if_splits)
qed

inductive peer_step :: "PeerManager \<Rightarrow> PeerManager \<Rightarrow> bool" where
  step_add: "peer_ok p \<Longrightarrow> peer_step m (snd (add_peer I m p))"
| step_remove: "peer_step m (snd (remove_peer m i))"
| step_status: "update_peer_status m i status = Ok m' \<Longrightarrow> peer_step m m'"
| step_best_block: "update_best_block now m i number = Ok m' \<Longrightarrow> peer_step m m'"
| step_ban: "ban_peer m i reason = Ok m' \<Longrightarrow> peer_step m m'"
| step_reward: "peer_step m (with_peer m i (increase_reputation amount))"
| step_punish: "0 \<le> amount \<Longrightarrow> peer_step m (with_peer m i (decrease_reputation amount))"
| step_seen: "peer_step m (with_peer m i (update_last_seen now))"
| step_prune: "peer_step m (prune_peers now m timeout)"

inductive_cases peer_stepE: "peer_step m m'"

definition peers_init :: "PeerManager \<Rightarrow> bool" where
  "peers_init m \<longleftrightarrow> (\<exists>a b c. m = peer_manager_new a b c)"

lemma update_ok:
  assumes "peers_ok m" and "and_then (known_peer m i) (\<lambda>p. Ok (m\<lparr>pm_peers := fmupd i (f p) (pm_peers m)\<rparr>)) = Ok m'"
    and "\<And>p. pi_id (f p) = pi_id p \<and> pi_reputation (f p) = pi_reputation p"
  shows "peers_ok m'"
proof -
  obtain p where p: "fmlookup (pm_peers m) i = Some p" and m': "m' = m\<lparr>pm_peers := fmupd i (f p) (pm_peers m)\<rparr>"
    using assms(2) by (auto simp: known_peer_def outcome_simps)
  have "peer_ok p" using assms(1) p by (simp add: peers_ok_def)
  then show ?thesis unfolding m' using assms(3) by (intro peers_ok_change [OF assms(1) p]) (simp_all add: peer_ok_def)
qed

lemma peer_step_ok:
  assumes "peer_step m m'" and "peers_ok m"
  shows "peers_ok m'"
  using assms(1)
proof (elim peer_stepE)
  fix i status assume "update_peer_status m i status = Ok m'"
  then show ?thesis unfolding update_peer_status_def by (rule update_ok [OF assms(2)]) simp
next
  fix now i number assume "update_best_block now m i number = Ok m'"
  then show ?thesis unfolding update_best_block_def by (rule update_ok [OF assms(2)]) (simp add: update_last_seen_def)
next
  fix i reason assume "ban_peer m i reason = Ok m'"
  then show ?thesis unfolding ban_peer_def by (rule update_ok [OF assms(2)]) simp
qed (auto intro!: with_peer_ok add_peer_ok removal_ok increase_ok decrease_ok assms(2)
    simp: update_last_seen_def peer_ok_def)

interpretation peers: invariant_machine peers_init peer_step peers_ok
proof
  fix m
  assume "peers_init m"
  then show "peers_ok m" by (auto simp: peers_init_def peers_ok_def peer_manager_new_def fcard.rep_eq)
qed (rule peer_step_ok)

section \<open>Choosing peers\<close>

lemma max_by_best_block_cases:
  "max_by_best_block ps best = Some b \<Longrightarrow>
     (b \<in> set ps \<or> best = Some b) \<and> (\<forall>p \<in> set ps. pi_best_block p \<le> pi_best_block b) \<and>
     (\<forall>c. best = Some c \<longrightarrow> pi_best_block c \<le> pi_best_block b)"
proof (induction ps arbitrary: best)
  case (Cons p ps)
  show ?case
  proof (cases best)
    case None
    then show ?thesis using Cons.IH [of "Some p"] Cons.prems by auto
  next
    case (Some c)
    then show ?thesis using Cons.IH [of "Some (if pi_best_block c \<le> pi_best_block p then p else c)"] Cons.prems
      by (auto split: if_splits)
  qed
qed simp

lemma max_by_best_block_None: "max_by_best_block ps best = None \<longleftrightarrow> ps = [] \<and> best = None"
  by (induction ps arbitrary: best) (auto split: option.splits)

text \<open>The connected peers, whatever the iteration order.\<close>

lemma connected_set:
  assumes "enumerates (I (pm_peers m)) (pm_peers m)"
  shows "p \<in> set (connected_peers I m) \<longleftrightarrow> (\<exists>i. fmlookup (pm_peers m) i = Some p) \<and> is_connected p"
proof -
  have "p \<in> snd ` set (I (pm_peers m)) \<longleftrightarrow> (\<exists>i. fmlookup (pm_peers m) i = Some p)"
    using enumerates_lookup [OF assms] by force
  then show ?thesis by (auto simp: connected_peers_def)
qed

lemma count_connections_none: "(\<And>p. p \<in> set ps \<Longrightarrow> \<not> is_connected p) \<Longrightarrow> count_connections ps c = c"
  by (induction ps c rule: count_connections.induct) auto

lemma inbound_free:
  assumes "enumerates (I (pm_peers m)) (pm_peers m)" and "\<And>i p. fmlookup (pm_peers m) i = Some p \<Longrightarrow> \<not> is_connected p"
  shows "connection_counts I m = (0, 0)"
proof -
  have "\<not> is_connected p" if "p \<in> set (map snd (I (pm_peers m)))" for p
    using that assms(2) enumerates_set [OF assms(1)] by force
  then show ?thesis unfolding connection_counts_def by (rule count_connections_none)
qed

section \<open>Properties\<close>

text \<open>C23. Whatever sequence of admissions, removals, status changes, bans, rewards, penalties and prunings a peer manager
  goes through (admitted peers with a reputation of at most 1000, penalties that are not negative),
  it never holds more than \<open>max_peers\<close> peers, each under its own id and with a reputation between the smallest \<open>i32\<close> and 1000.\<close>

theorem peer_manager_reachable:
  assumes "peer_step\<^sup>*\<^sup>* (peer_manager_new max_peers max_in max_out) m"
  shows "peer_count m \<le> pm_max_peers m \<and>
    (\<forall>i p. get_peer m i = Some p \<longrightarrow> pi_id p = i \<and> - (2 ^ 31) \<le> pi_reputation p \<and> pi_reputation p \<le> 1000)"
proof -
  have "peers_init (peer_manager_new max_peers max_in max_out)" by (auto simp: peers_init_def)
  then have "peers_ok m" using assms by (rule peers.reachable_inv)
  then show ?thesis by (auto simp: peers_ok_def peer_count_def get_peer_def peer_ok_def)
qed

definition demo_peer :: "PeerId \<Rightarrow> bool \<Rightarrow> PeerInfo" where
  "demo_peer i ob = peer_info_new 100 i (SocketAddr [127, 0, 0, 1] 30303) 1 ''kainet'' ob"

theorem peer_manager_reachable_witness:
  "peer_count (snd (add_peer (\<lambda>_. []) (peer_manager_new 2 1 1) (demo_peer 5 True))) \<le> 2"
proof -
  let ?m = "snd (add_peer (\<lambda>_. []) (peer_manager_new 2 1 1) (demo_peer 5 True))"
  have "peer_step (peer_manager_new 2 1 1) ?m" by (rule step_add) (simp add: demo_peer_def peer_ok_new)
  then have "peer_step\<^sup>*\<^sup>* (peer_manager_new 2 1 1) ?m" by (rule r_into_rtranclp)
  moreover have "pm_max_peers ?m = 2" by (simp add: add_peer_def peer_manager_new_def connection_counts_def)
  ultimately show ?thesis using peer_manager_reachable [of 2 1 1 ?m] by simp
qed

text \<open>\<open>get_sync_peers\<close> returns exactly the connected peers that have the required block, those with the highest
  block first, and \<open>best_peer\<close> is a connected peer that no other connected peer is ahead of; it exists as soon as one is connected.\<close>

lemma sync_peers_correct:
  assumes "enumerates (I (pm_peers m)) (pm_peers m)"
  shows "set (get_sync_peers I m min_block) =
      {p. (\<exists>i. get_peer m i = Some p) \<and> is_connected p \<and> min_block \<le> pi_best_block p} \<and>
    sorted_wrt (\<lambda>p q. pi_best_block q \<le> pi_best_block p) (get_sync_peers I m min_block) \<and>
    (case best_peer I m of
       None \<Rightarrow> \<forall>i p. get_peer m i = Some p \<longrightarrow> \<not> is_connected p
     | Some b \<Rightarrow> b \<in> set (connected_peers I m) \<and> (\<forall>i p. get_peer m i = Some p \<longrightarrow> is_connected p \<longrightarrow> pi_best_block p \<le> pi_best_block b))"
proof -
  note conn = connected_set [where I = I and m = m, OF assms]
  have "set (get_sync_peers I m min_block) = {p \<in> set (connected_peers I m). min_block \<le> pi_best_block p}"
    by (auto simp: get_sync_peers_def connected_peers_def)
  then have s: "set (get_sync_peers I m min_block) =
      {p. (\<exists>i. get_peer m i = Some p) \<and> is_connected p \<and> min_block \<le> pi_best_block p}"
    by (auto simp: conn get_peer_def)
  have o: "sorted_wrt (\<lambda>p q. pi_best_block q \<le> pi_best_block p) (get_sync_peers I m min_block)"
    using sorted_sort_key [of "\<lambda>p. - int (unat (pi_best_block p))"
        "filter (\<lambda>p. is_connected p \<and> min_block \<le> pi_best_block p) (map snd (I (pm_peers m)))"]
    unfolding get_sync_peers_def sorted_map by (rule sorted_wrt_mono_rel [rotated]) (simp add: word_le_def)
  show ?thesis
  proof (cases "best_peer I m")
    case None
    then have "connected_peers I m = []" by (simp add: best_peer_def max_by_best_block_None)
    then show ?thesis using s o None conn by (auto simp: get_peer_def)
  next
    case (Some b)
    then have "b \<in> set (connected_peers I m) \<and> (\<forall>p \<in> set (connected_peers I m). pi_best_block p \<le> pi_best_block b)"
      using max_by_best_block_cases [of "connected_peers I m" None b] by (simp add: best_peer_def)
    then show ?thesis using s o Some by (auto simp: conn get_peer_def)
  qed
qed

lemma sync_peers_correct_witness:
  "set (get_sync_peers btree_iter (peer_manager_new 2 1 1) 7) = {}"
proof -
  have "enumerates (btree_iter (pm_peers (peer_manager_new 2 1 1))) (pm_peers (peer_manager_new 2 1 1))"
    by (rule enumerates_btree_iter)
  from sync_peers_correct [where I = btree_iter and m = "peer_manager_new 2 1 1", OF this, of 7] show ?thesis by (auto simp: peer_manager_new_def get_peer_def)
qed

text \<open>The limits on inbound and outbound connections are checked when a peer is added, before it is connected, and
  only connected peers count: two inbound peers can be added under a limit of one and then both be connected.
  A ban does not last either: adding a banned peer again replaces its record with the given one.\<close>

lemma connection_limits_bypassed:
  "\<exists>m1 m2 m3 m4. add_peer btree_iter (peer_manager_new 10 1 1) (demo_peer 5 False) = (Ok (), m1) \<and>
     add_peer btree_iter m1 (demo_peer 6 False) = (Ok (), m2) \<and>
     update_peer_status m2 5 Connected = Ok m3 \<and> update_peer_status m3 6 Connected = Ok m4 \<and> pm_max_inbound m4 = 1 \<and>
     {(demo_peer 5 False)\<lparr>pi_status := Connected\<rparr>, (demo_peer 6 False)\<lparr>pi_status := Connected\<rparr>} \<subseteq> set (connected_peers btree_iter m4) \<and>
     (\<exists>m5. ban_peer m2 5 ''spam'' = Ok m5 \<and> fst (add_peer btree_iter m5 (demo_peer 5 False)) = Ok () \<and>
        get_peer (snd (add_peer btree_iter m5 (demo_peer 5 False))) 5 = Some (demo_peer 5 False))"
proof -
  let ?m0 = "peer_manager_new 10 1 1" and ?p = "demo_peer 5 False" and ?q = "demo_peer 6 False"
  let ?m1 = "?m0\<lparr>pm_peers := fmupd 5 ?p fmempty\<rparr>"
  let ?m2 = "?m0\<lparr>pm_peers := fmupd 6 ?q (fmupd 5 ?p fmempty)\<rparr>"
  let ?m5 = "?m0\<lparr>pm_peers := fmupd 5 (?p\<lparr>pi_status := Banned\<rparr>) (fmupd 6 ?q (fmupd 5 ?p fmempty))\<rparr>"
  have fields: "pi_id (demo_peer i b) = i" "\<not> pi_outbound (demo_peer i False)" "\<not> is_connected (demo_peer i b)" for i b
    by (simp_all add: demo_peer_def peer_info_new_def is_connected_def)
  have counts: "connection_counts btree_iter m = (0, 0)" if "\<And>i p. fmlookup (pm_peers m) i = Some p \<Longrightarrow> \<not> is_connected p" for m
    using inbound_free [where I = btree_iter and m = m, OF enumerates_btree_iter] that by blast
  have a1: "add_peer btree_iter ?m0 ?p = (Ok (), ?m1)"
    by (subst add_peer_def, subst counts) (simp_all add: fields peer_manager_new_def fcard.rep_eq)
  have a2: "add_peer btree_iter ?m1 ?q = (Ok (), ?m2)"
    by (subst add_peer_def, subst counts) (auto simp: fields peer_manager_new_def fcard.rep_eq split: if_splits)
  have b: "ban_peer ?m2 5 ''spam'' = Ok ?m5"
    by (simp add: ban_peer_def known_peer_def peer_manager_new_def)
  have a5: "fst (add_peer btree_iter ?m5 ?p) = Ok () \<and> get_peer (snd (add_peer btree_iter ?m5 ?p)) 5 = Some ?p"
    unfolding add_peer_def
    by (subst (1 2) counts) (auto simp: demo_peer_def peer_info_new_def peer_manager_new_def fcard.rep_eq get_peer_def is_connected_def card_insert_if split: if_splits)
  have mem: "p \<in> set (connected_peers btree_iter m)" if "fmlookup (pm_peers m) i = Some p" "is_connected p" for m i p
    using connected_set [where I = btree_iter and m = m, OF enumerates_btree_iter] that by blast
  let ?m3 = "?m2\<lparr>pm_peers := fmupd 5 (?p\<lparr>pi_status := Connected\<rparr>) (pm_peers ?m2)\<rparr>"
  let ?m4 = "?m3\<lparr>pm_peers := fmupd 6 (?q\<lparr>pi_status := Connected\<rparr>) (pm_peers ?m3)\<rparr>"
  have u: "update_peer_status ?m2 5 Connected = Ok ?m3" "update_peer_status ?m3 6 Connected = Ok ?m4"
    by (simp_all add: update_peer_status_def known_peer_def peer_manager_new_def)
  have l: "fmlookup (pm_peers ?m4) 5 = Some (?p\<lparr>pi_status := Connected\<rparr>)" "fmlookup (pm_peers ?m4) 6 = Some (?q\<lparr>pi_status := Connected\<rparr>)"
    by simp_all
  have "{?p\<lparr>pi_status := Connected\<rparr>, ?q\<lparr>pi_status := Connected\<rparr>} \<subseteq> set (connected_peers btree_iter ?m4)"
    using mem [OF l(1)] mem [OF l(2)] by (simp add: is_connected_def)
  moreover have "pm_max_inbound ?m4 = 1" by (simp add: peer_manager_new_def)
  ultimately show ?thesis using a1 a2 u b a5 by blast
qed

end
