(* ===== verification/Network.thy ===== *)
theory Network
  imports Peer Mempool_Properties Fork
begin

text \<open>
  \<open>protocol.rs\<close> and \<open>p2p.rs\<close> of the \<open>networking\<close> crate: the messages of the protocol and the service that
  answers them. The service keeps its peers, the transactions it has seen, the requests in flight and an
  outbox per peer, and shares the transaction pool and the fork resolver with the node. A handler
  that runs to its end, without another one between its locks, is a function of the whole service.
\<close>

section \<open>Messages\<close>

record HandshakeMessage =
  hs_protocol_version :: u32
  hs_client_version :: string
  hs_network_id :: u64
  hs_best_block :: BlockNumber
  hs_genesis_hash :: hash

record StatusMessage =
  st_best_block :: BlockNumber
  st_best_block_hash :: hash

record GetBlocksMessage =
  gb_start_block :: BlockNumber
  gb_max_blocks :: nat

record NewPendingTransactionMessage =
  np_transaction :: Transaction
  np_gas_price :: u64
  np_timestamp :: u64

record RequestMempoolSyncMessage =
  rm_max_count :: nat
  rm_min_gas_price :: u64

record ForkDetectedMessage =
  fd_fork_point_hash :: hash
  fd_competing_tips :: "hash list"

record RequestChainSegmentMessage =
  rs_start_block :: BlockNumber
  rs_end_block :: BlockNumber

text \<open>Messages with one field carry that field.\<close>

datatype ProtocolMessage =
    MsgHandshake HandshakeMessage
  | MsgStatus StatusMessage
  | MsgGetBlocks GetBlocksMessage
  | MsgBlocks "Block list"
  | MsgGetTransactions "hash list"
  | MsgTransactions "Transaction list"
  | MsgNewBlock Block
  | MsgNewTransaction Transaction
  | MsgNewPendingTransaction NewPendingTransactionMessage
  | MsgRequestMempoolSync RequestMempoolSyncMessage
  | MsgMempoolSyncResponse "Transaction list"
  | MsgForkDetected ForkDetectedMessage
  | MsgRequestChainSegment RequestChainSegmentMessage
  | MsgChainSegmentResponse "Block list"
  | MsgPing
  | MsgPong

datatype MessageType = TypeBlock | TypeTransaction | TypeStatus

section \<open>The service\<close>

record NetworkConfig =
  nc_listen_addr :: SocketAddr
  nc_max_peers :: nat
  nc_max_inbound :: nat
  nc_max_outbound :: nat
  nc_bootstrap_peers :: "SocketAddr list"
  nc_enable_tx_gossip :: bool
  nc_mempool_sync_on_connect :: bool
  nc_max_tx_propagate_peers :: nat
  nc_fork_detection_enabled :: bool

type_synonym outbox = "(PeerId, ProtocolMessage list) fmap"

record NetworkService =
  ns_config :: NetworkConfig
  ns_peer_manager :: PeerManager
  ns_seen_tx :: "(hash, u64) fmap"
  ns_inflight :: "string fset"
  ns_outbox :: outbox
  ns_mempool :: "TransactionPool option"
  ns_fork_resolver :: "ForkResolver option"

text \<open>The environment: digest, bincode, iteration orders, hex printing and the \<open>Debug\<close> form of an error.\<close>

record net_env =
  ne_lib :: crypto_lib
  ne_wire :: wire
  ne_pool_iter :: pool_iter
  ne_peer_iter :: peer_iter
  ne_hex :: "bytes \<Rightarrow> string"
  ne_debug :: "BlockchainError \<Rightarrow> string"

definition network_new :: "NetworkConfig \<Rightarrow> NetworkService" where
  "network_new config =
     \<lparr>ns_config = config,
      ns_peer_manager = peer_manager_new (nc_max_peers config) (nc_max_inbound config) (nc_max_outbound config),
      ns_seen_tx = fmempty, ns_inflight = {||}, ns_outbox = fmempty, ns_mempool = None, ns_fork_resolver = None\<rparr>"

definition set_mempool :: "TransactionPool \<Rightarrow> NetworkService \<Rightarrow> NetworkService" where
  "set_mempool pool s = s\<lparr>ns_mempool := Some pool\<rparr>"

definition set_fork_resolver :: "ForkResolver \<Rightarrow> NetworkService \<Rightarrow> NetworkService" where
  "set_fork_resolver resolver s = s\<lparr>ns_fork_resolver := Some resolver\<rparr>"

definition push_out :: "PeerId \<Rightarrow> ProtocolMessage \<Rightarrow> outbox \<Rightarrow> outbox" where
  "push_out i msg out = fmupd i (lookup_default [] out i @ [msg]) out"

definition send_to_peer ::
    "PeerId \<Rightarrow> ProtocolMessage \<Rightarrow> NetworkService \<Rightarrow> (unit, NetworkError) outcome \<times> NetworkService" where
  "send_to_peer i msg s = (Ok (), s\<lparr>ns_outbox := push_out i msg (ns_outbox s)\<rparr>)"

text \<open>The sending loop: skip the excluded peer, send, and stop when the limit is reached.\<close>

fun send_loop :: "ProtocolMessage \<Rightarrow> nat \<Rightarrow> PeerId option \<Rightarrow> PeerInfo list \<Rightarrow> nat \<Rightarrow> outbox \<Rightarrow> outbox" where
  "send_loop msg limit exclude [] sent out = out"
| "send_loop msg limit exclude (p # ps) sent out =
     (if exclude = Some (pi_id p) then send_loop msg limit exclude ps sent out
      else let out1 = push_out (pi_id p) msg out in
           if limit \<le> sent + 1 then out1 else send_loop msg limit exclude ps (sent + 1) out1)"

definition broadcast ::
    "net_env \<Rightarrow> ProtocolMessage \<Rightarrow> nat \<Rightarrow> PeerId option \<Rightarrow> NetworkService
      \<Rightarrow> (unit, NetworkError) outcome \<times> NetworkService" where
  "broadcast N msg limit exclude s =
     (let peers = connected_peers (ne_peer_iter N) (ns_peer_manager s)
      in (Ok (), s\<lparr>ns_outbox := send_loop msg limit exclude peers 0 (ns_outbox s)\<rparr>))"

text \<open>The transaction is offered to the pool, and its sender's reputation follows the outcome.\<close>

definition offer_to_pool ::
    "net_env \<Rightarrow> Timestamp \<Rightarrow> PeerId \<Rightarrow> Transaction \<Rightarrow> NetworkService \<Rightarrow> NetworkService" where
  "offer_to_pool N now i tx s =
     (case ns_mempool s of
        None \<Rightarrow> s
      | Some pool \<Rightarrow>
          (case pool_add (ne_lib N) (ne_wire N) (ne_pool_iter N) now pool tx 0 of
             (r, pool1) \<Rightarrow>
               s\<lparr>ns_mempool := Some pool1,
                 ns_peer_manager := with_peer (ns_peer_manager s) i
                   (if is_ok r then increase_reputation 1 else decrease_reputation 5)\<rparr>))"

definition handle_new_pending_transaction ::
    "net_env \<Rightarrow> Timestamp \<Rightarrow> PeerId \<Rightarrow> NewPendingTransactionMessage \<Rightarrow> NetworkService
      \<Rightarrow> (unit, NetworkError) outcome \<times> NetworkService" where
  "handle_new_pending_transaction N now i msg s =
     (let tx = np_transaction msg; tx_hash = transaction_hash (ne_lib N) (enc_tx (ne_wire N)) tx in
      if fmlookup (ns_seen_tx s) tx_hash \<noteq> None then (Ok (), s)
      else case validate_basic tx of
        Err e \<Rightarrow> (Err (InvalidMessage (''Invalid transaction: '' @ ne_debug N e)), s)
      | Panic \<Rightarrow> (Panic, s)
      | Ok _ \<Rightarrow>
          let s1 = s\<lparr>ns_seen_tx := fmupd tx_hash now (ns_seen_tx s)\<rparr>;
              s2 = offer_to_pool N now i tx s1;
              forward_msg = MsgNewPendingTransaction
                \<lparr>np_transaction = tx, np_gas_price = np_gas_price msg, np_timestamp = np_timestamp msg\<rparr>
          in if nc_enable_tx_gossip (ns_config s2)
             then (Ok (), s2\<lparr>ns_outbox := send_loop forward_msg (nc_max_tx_propagate_peers (ns_config s2)) (Some i)
                      (connected_peers (ne_peer_iter N) (ns_peer_manager s2)) 0 (ns_outbox s2)\<rparr>)
             else (Ok (), s2))"

text \<open>The loop over the pending transactions for a synchronising peer.\<close>

fun sync_filter :: "u64 \<Rightarrow> nat \<Rightarrow> Transaction list \<Rightarrow> Transaction list \<Rightarrow> Transaction list" where
  "sync_filter min_price max_count [] txs = txs"
| "sync_filter min_price max_count (tx # rest) txs =
     (let txs1 = (if min_price \<le> tx_gas_price tx then txs @ [tx] else txs)
      in if max_count \<le> length txs1 then txs1 else sync_filter min_price max_count rest txs1)"

definition sync_key :: "net_env \<Rightarrow> PeerId \<Rightarrow> string" where
  "sync_key N i = ''mempool_sync:'' @ ne_hex N (be_bytes 32 i)"

definition handle_mempool_sync_request ::
    "net_env \<Rightarrow> PeerId \<Rightarrow> RequestMempoolSyncMessage \<Rightarrow> NetworkService \<Rightarrow> (unit, NetworkError) outcome \<times> NetworkService" where
  "handle_mempool_sync_request N i req s =
     (let key = sync_key N i in
      if key |\<in>| ns_inflight s then (Err Timeout, s)
      else let s1 = s\<lparr>ns_inflight := finsert key (ns_inflight s)\<rparr>;
               txs = (case ns_mempool s1 of
                        Some pool \<Rightarrow> sync_filter (rm_min_gas_price req) (rm_max_count req)
                                       (get_pending (ne_pool_iter N) pool (- 1) (rm_max_count req)) []
                      | None \<Rightarrow> []);
               s2 = snd (send_to_peer i (MsgMempoolSyncResponse txs) s1)
           in (Ok (), s2\<lparr>ns_inflight := ns_inflight s2 |-| {|key|}\<rparr>))"

text \<open>Two handlers that only log; the first takes the resolver's lock and changes nothing under it.\<close>

definition handle_fork_detected ::
    "PeerId \<Rightarrow> ForkDetectedMessage \<Rightarrow> NetworkService \<Rightarrow> (unit, NetworkError) outcome \<times> NetworkService" where
  "handle_fork_detected i msg s =
     (if \<not> nc_fork_detection_enabled (ns_config s) then (Ok (), s)
      else case ns_fork_resolver s of
        Some resolver \<Rightarrow> (Ok (), s\<lparr>ns_fork_resolver := Some resolver\<rparr>)
      | None \<Rightarrow> (Ok (), s))"

definition handle_request_chain_segment ::
    "PeerId \<Rightarrow> RequestChainSegmentMessage \<Rightarrow> NetworkService \<Rightarrow> (unit, NetworkError) outcome \<times> NetworkService" where
  "handle_request_chain_segment i req s = (Ok (), s)"

definition handle_incoming_message ::
    "net_env \<Rightarrow> Timestamp \<Rightarrow> PeerId \<Rightarrow> ProtocolMessage \<Rightarrow> NetworkService
      \<Rightarrow> (unit, NetworkError) outcome \<times> NetworkService" where
  "handle_incoming_message N now i msg s =
     (case msg of
        MsgNewPendingTransaction m \<Rightarrow> handle_new_pending_transaction N now i m s
      | MsgRequestMempoolSync m \<Rightarrow> handle_mempool_sync_request N i m s
      | MsgForkDetected m \<Rightarrow> handle_fork_detected i m s
      | MsgRequestChainSegment m \<Rightarrow> handle_request_chain_segment i m s
      | _ \<Rightarrow> (Ok (), s))"

datatype NetworkEvent =
    PeerConnected PeerId
  | PeerDisconnected PeerId
  | MessageReceived PeerId ProtocolMessage

text \<open>\<open>start\<close> logs the address; the two accessors of the peer manager only panic.\<close>

definition network_start :: "NetworkService \<Rightarrow> (unit, NetworkError) outcome \<times> NetworkService" where
  "network_start s = (Ok (), s)"

definition peer_manager_ref :: "NetworkService \<Rightarrow> (PeerManager, NetworkError) outcome" where
  "peer_manager_ref s = Panic"

definition peer_manager_arc :: "NetworkService \<Rightarrow> PeerManager" where
  "peer_manager_arc s = ns_peer_manager s"

definition drain_outbox_for :: "PeerId \<Rightarrow> NetworkService \<Rightarrow> ProtocolMessage list \<times> NetworkService" where
  "drain_outbox_for i s = (lookup_default [] (ns_outbox s) i, s\<lparr>ns_outbox := fmdrop i (ns_outbox s)\<rparr>)"

section \<open>The outbox\<close>

lemma push_out_lookup: "lookup_default [] (push_out i msg out) j = lookup_default [] out j @ (if j = i then [msg] else [])"
  by (simp add: push_out_def)

text \<open>The loop sends to the first peers other than the excluded one: \<open>limit\<close> of them, but never fewer than one.\<close>

definition targets :: "nat \<Rightarrow> PeerId option \<Rightarrow> PeerInfo list \<Rightarrow> PeerId list" where
  "targets limit exclude ps = take (max 1 limit) (filter (\<lambda>i. exclude \<noteq> Some i) (map pi_id ps))"

lemma send_loop_fold:
  "sent < max 1 limit \<Longrightarrow> send_loop msg limit exclude ps sent out =
     fold (\<lambda>i. push_out i msg) (take (max 1 limit - sent) (filter (\<lambda>i. exclude \<noteq> Some i) (map pi_id ps))) out"
proof (induction ps arbitrary: sent out)
  case (Cons p ps)
  show ?case
  proof (cases "exclude \<noteq> Some (pi_id p) \<and> limit \<le> sent + 1")
    case True
    then have "max 1 limit - sent = 1" using Cons.prems by (simp add: max_def split: if_splits)
    then show ?thesis using True by (simp add: Let_def)
  next
    case False
    then show ?thesis using Cons.IH [of sent] Cons.IH [of "sent + 1"] Cons.prems
      by (auto simp: Let_def take_Cons' max_def not_le)
  qed
qed simp

lemma fold_push_out:
  "distinct is \<Longrightarrow> lookup_default [] (fold (\<lambda>i. push_out i msg) is out) j =
     lookup_default [] out j @ (if j \<in> set is then [msg] else [])"
  by (induction "is" arbitrary: out) (auto simp: push_out_lookup)

lemma send_loop_lookup:
  assumes "distinct (map pi_id ps)"
  shows "lookup_default [] (send_loop msg limit exclude ps 0 out) j =
    lookup_default [] out j @ (if j \<in> set (targets limit exclude ps) then [msg] else [])"
proof -
  have "send_loop msg limit exclude ps 0 out = fold (\<lambda>i. push_out i msg) (targets limit exclude ps) out"
    by (subst send_loop_fold) (simp_all add: targets_def)
  moreover have "distinct (targets limit exclude ps)" unfolding targets_def using assms by (intro distinct_take distinct_filter)
  ultimately show ?thesis by (simp only: fold_push_out)
qed

lemma connected_ids_distinct:
  assumes "peers_ok m" and "enumerates (I (pm_peers m)) (pm_peers m)"
  shows "distinct (map pi_id (connected_peers I m))"
proof -
  have "pi_id (snd kp) = fst kp" if "kp \<in> set (I (pm_peers m))" for kp
    using that assms(1) enumerates_lookup [OF assms(2), of "fst kp" "snd kp"] by (simp add: peers_ok_def)
  then have "map pi_id (map snd (I (pm_peers m))) = map fst (I (pm_peers m))" by simp
  then have "distinct (map pi_id (map snd (I (pm_peers m))))" using assms(2) by (simp only: enumerates_def)
  then show ?thesis unfolding connected_peers_def by (rule distinct_map_filter)
qed

section \<open>What a synchronising peer is sent\<close>

lemma sync_filter_all:
  "length txs + length xs \<le> max_count \<Longrightarrow>
     sync_filter min_price max_count xs txs = txs @ filter (\<lambda>tx. min_price \<le> tx_gas_price tx) xs"
proof (induction xs arbitrary: txs)
  case (Cons x xs)
  show ?case
  proof (cases "max_count \<le> length (if min_price \<le> tx_gas_price x then txs @ [x] else txs)")
    case True
    then have "xs = [] \<and> min_price \<le> tx_gas_price x" using Cons.prems by (cases xs) (auto split: if_splits)
    then show ?thesis by (simp add: Let_def)
  next
    case False
    then show ?thesis using Cons by (auto simp: Let_def)
  qed
qed simp

lemma get_pending_loop_unbounded:
  "length ts \<le> mc \<Longrightarrow> get_pending_loop (- 1) mc es tg ts = ts @ take (mc - length ts) (map pe_transaction es)"
proof (induction es arbitrary: tg ts)
  case (Cons e es)
  have "\<not> (- 1 :: u64) < x" for x by (simp add: not_less word_order.extremum)
  then show ?case using Cons.IH [of "ts @ [pe_transaction e]"] Cons.prems
    by (cases "mc = length ts") (auto simp: Suc_diff_Suc take_Cons')
qed simp

lemma sync_filter_pending:
  "sync_filter min_price max_count (get_pending I pool (- 1) max_count) [] =
     filter (\<lambda>tx. min_price \<le> tx_gas_price tx) (take max_count (map pe_transaction (pending_entries I pool)))"
  unfolding get_pending_def by (subst sync_filter_all) (simp_all add: get_pending_loop_unbounded)

section \<open>The service as a state machine\<close>

text \<open>Every iteration order lists the map it is given.\<close>

definition net_env_ok :: "net_env \<Rightarrow> bool" where
  "net_env_ok N \<longleftrightarrow> iter_ok (ne_pool_iter N) \<and> (\<forall>m. enumerates (ne_peer_iter N m) m)"

text \<open>Besides the service's own operations, the peer manager and the pool change through their shared handles.\<close>

inductive net_step :: "net_env \<Rightarrow> NetworkService \<Rightarrow> NetworkService \<Rightarrow> bool" for N where
  step_attach: "pool_reachable (ne_lib N) (ne_wire N) pool \<Longrightarrow> net_step N s (set_mempool pool s)"
| step_resolver: "net_step N s (set_fork_resolver resolver s)"
| step_message: "net_step N s (snd (handle_incoming_message N now i msg s))"
| step_send: "net_step N s (snd (send_to_peer i msg s))"
| step_broadcast: "net_step N s (snd (broadcast N msg limit exclude s))"
| step_drain: "net_step N s (snd (drain_outbox_for i s))"
| step_peers: "peer_step (ns_peer_manager s) m \<Longrightarrow> net_step N s (s\<lparr>ns_peer_manager := m\<rparr>)"
| step_pool: "ns_mempool s = Some pool \<Longrightarrow> pool_step (ne_lib N) (ne_wire N) pool pool' \<Longrightarrow>
    net_step N s (s\<lparr>ns_mempool := Some pool'\<rparr>)"

inductive_cases net_stepE: "net_step N s t"

definition net_ok :: "net_env \<Rightarrow> NetworkService \<Rightarrow> bool" where
  "net_ok N s \<longleftrightarrow> peers_ok (ns_peer_manager s) \<and> ns_inflight s = {||} \<and>
     (\<forall>pool. ns_mempool s = Some pool \<longrightarrow> pool_reachable (ne_lib N) (ne_wire N) pool)"

definition net_init :: "NetworkService \<Rightarrow> bool" where
  "net_init s \<longleftrightarrow> (\<exists>config. s = network_new config)"

lemma net_ok_outbox [simp]: "net_ok N (s\<lparr>ns_outbox := out\<rparr>) = net_ok N s"
  by (simp add: net_ok_def)

lemma offer_ok:
  assumes "net_env_ok N" and "net_ok N s"
  shows "net_ok N (offer_to_pool N now i tx s)"
proof (cases "ns_mempool s")
  case (Some pool)
  obtain r pool1 where add: "pool_add (ne_lib N) (ne_wire N) (ne_pool_iter N) now pool tx 0 = (r, pool1)" by fastforce
  have "pool_reachable (ne_lib N) (ne_wire N) pool" using assms(2) Some by (simp add: net_ok_def)
  moreover have "pool_step (ne_lib N) (ne_wire N) pool pool1"
    using pool_step.add [of "ne_pool_iter N" "ne_lib N" "ne_wire N" pool now tx 0] assms(1) add by (simp add: net_env_ok_def)
  ultimately have "pool_reachable (ne_lib N) (ne_wire N) pool1" by (rule pool_reachable.step)
  moreover have "peers_ok (with_peer (ns_peer_manager s) i (if is_ok r then increase_reputation 1 else decrease_reputation 5))"
    using assms(2) by (intro with_peer_ok) (auto simp: net_ok_def increase_ok decrease_ok)
  ultimately show ?thesis using assms(2) Some add by (simp add: offer_to_pool_def net_ok_def)
qed (use assms(2) in \<open>simp add: offer_to_pool_def\<close>)

lemma handle_new_pending_ok:
  assumes "net_env_ok N" and "net_ok N s"
  shows "net_ok N (snd (handle_new_pending_transaction N now i msg s))"
proof -
  have "net_ok N (offer_to_pool N now i tx (s\<lparr>ns_seen_tx := seen\<rparr>))" for tx seen
    using assms by (intro offer_ok) (simp_all add: net_ok_def)
  then show ?thesis using assms(2) by (simp add: handle_new_pending_transaction_def Let_def split: outcome.splits)
qed

text \<open>Nothing is in flight between two messages, so a request is always answered.\<close>

lemma handle_mempool_sync_eq:
  assumes "ns_inflight s = {||}"
  shows "handle_mempool_sync_request N i req s =
    (Ok (), s\<lparr>ns_outbox := push_out i (MsgMempoolSyncResponse
       (case ns_mempool s of
          None \<Rightarrow> []
        | Some pool \<Rightarrow> filter (\<lambda>tx. rm_min_gas_price req \<le> tx_gas_price tx)
            (take (rm_max_count req) (map pe_transaction (pending_entries (ne_pool_iter N) pool))))) (ns_outbox s)\<rparr>)"
  using assms by (simp add: handle_mempool_sync_request_def Let_def send_to_peer_def sync_filter_pending
      split: option.splits)

lemma handle_incoming_ok:
  assumes "net_env_ok N" and "net_ok N s"
  shows "net_ok N (snd (handle_incoming_message N now i msg s))"
proof (cases msg)
  case (MsgNewPendingTransaction m)
  then show ?thesis using handle_new_pending_ok [OF assms] by (simp add: handle_incoming_message_def)
next
  case (MsgRequestMempoolSync req)
  have "ns_inflight s = {||}" using assms(2) by (simp add: net_ok_def)
  then show ?thesis using MsgRequestMempoolSync assms(2) by (simp add: handle_incoming_message_def handle_mempool_sync_eq)
qed (use assms(2) in \<open>simp_all add: handle_incoming_message_def handle_fork_detected_def
    handle_request_chain_segment_def net_ok_def split: option.splits\<close>)

lemma net_step_ok:
  assumes "net_env_ok N" and "net_step N s t" and "net_ok N s"
  shows "net_ok N t"
  using assms(2)
proof (elim net_stepE)
  fix now i msg assume "t = snd (handle_incoming_message N now i msg s)"
  then show ?thesis using handle_incoming_ok [OF assms(1,3)] by simp
next
  fix m assume "t = s\<lparr>ns_peer_manager := m\<rparr>" and "peer_step (ns_peer_manager s) m"
  then show ?thesis using assms(3) peer_step_ok by (simp add: net_ok_def)
qed (use assms(3) in \<open>auto simp: net_ok_def set_mempool_def set_fork_resolver_def send_to_peer_def broadcast_def
    Let_def drain_outbox_for_def intro: pool_reachable.step\<close>)

text \<open>The machine of a fixed environment; with an unlawful one it has no step.\<close>

interpretation network: invariant_machine net_init "\<lambda>s t. net_env_ok N \<and> net_step N s t" "net_ok N" for N
proof
  fix s
  assume "net_init s"
  then show "net_ok N s"
    by (auto simp: net_init_def network_new_def net_ok_def peers_ok_def peer_manager_new_def fcard.rep_eq)
qed (blast intro: net_step_ok)

lemma net_reachable_ok:
  assumes "net_env_ok N" and "(net_step N)\<^sup>*\<^sup>* (network_new config) s"
  shows "net_ok N s"
proof -
  have "(\<lambda>s t. net_env_ok N \<and> net_step N s t)\<^sup>*\<^sup>* (network_new config) s" using assms by simp
  then show ?thesis by (rule network.reachable_inv [rotated]) (auto simp: net_init_def)
qed

section \<open>Properties\<close>

lemma pending_tx:
  assumes "pool_reachable L W pool" and "iter_ok I"
  shows "tx \<in> set (map pe_transaction (pending_entries I pool)) \<longleftrightarrow>
    (\<exists>e. lookup2 (tp_pending pool) (tx_gas_price tx) (transaction_hash L (enc_tx W) tx) = Some e \<and> pe_transaction e = tx)"
proof -
  have inv: "index_ok L W pool" using pool_reachable_inv [OF assms(1)] by (simp add: pool_inv_def)
  have "hash_of L W (pe_transaction e) = h \<and> tx_gas_price (pe_transaction e) = p"
    if "lookup2 (tp_pending pool) p h = Some e" for p h e
    using index_okD(4,5) [OF inv that] index_okD(1) [OF inv] by blast
  then have "(\<exists>p h. lookup2 (tp_pending pool) p h = Some e) \<and> tx = pe_transaction e \<longleftrightarrow>
      lookup2 (tp_pending pool) (tx_gas_price tx) (hash_of L W tx) = Some e \<and> pe_transaction e = tx" for e
    by auto
  moreover have "tx \<in> set (map pe_transaction (pending_entries I pool)) \<longleftrightarrow>
      (\<exists>e. (\<exists>p h. lookup2 (tp_pending pool) p h = Some e) \<and> tx = pe_transaction e)"
    by (simp add: image_iff Bex_def pending_entries_iff [OF assms(2)])
  ultimately show ?thesis by simp
qed

text \<open>A prefix of a list sorted by falling price, filtered by a least price, loses nothing affordable but what the prefix is too short for.\<close>

lemma filter_take_complete:
  assumes "sorted_wrt (\<lambda>a b. price b \<le> price a) xs" and "x \<in> set xs" and "least \<le> (price x :: 'p :: order)"
  shows "x \<in> set (filter (\<lambda>y. least \<le> price y) (take n xs)) \<or> length (filter (\<lambda>y. least \<le> price y) (take n xs)) = n"
proof (cases "x \<in> set (take n xs)")
  case False
  have parts: "xs = take n xs @ drop n xs" by simp
  then have x: "x \<in> set (drop n xs)" using False assms(2) by (metis Un_iff set_append)
  then have "length (take n xs) = n" by (cases "length xs \<le> n") auto
  moreover have "\<forall>y \<in> set (take n xs). price x \<le> price y"
    using assms(1) x parts by (metis sorted_wrt_append)
  then have "filter (\<lambda>y. least \<le> price y) (take n xs) = take n xs"
    using assms(3) order_trans by (intro filter_True) blast
  ultimately show ?thesis by simp
qed (use assms(3) in simp)


definition demo_net_env :: net_env where
  "demo_net_env = \<lparr>ne_lib = demo_lib, ne_wire = demo_pool_wire, ne_pool_iter = demo_iter, ne_peer_iter = btree_iter,
     ne_hex = (\<lambda>bs. []), ne_debug = (\<lambda>e. [])\<rparr>"

definition demo_net_config :: NetworkConfig where
  "demo_net_config = \<lparr>nc_listen_addr = SocketAddr [0, 0, 0, 0] 30303, nc_max_peers = 50, nc_max_inbound = 25, nc_max_outbound = 25,
     nc_bootstrap_peers = [], nc_enable_tx_gossip = True, nc_mempool_sync_on_connect = True,
     nc_max_tx_propagate_peers = 1, nc_fork_detection_enabled = True\<rparr>"

lemma demo_net_env_ok: "net_env_ok demo_net_env"
  by (simp add: net_env_ok_def demo_net_env_def demo_iter_ok enumerates_btree_iter)

definition demo_net :: NetworkService where
  "demo_net = set_mempool (demo_pool 4 [(3, 2)]) (network_new demo_net_config)"

lemma demo_net_reachable: "(net_step demo_net_env)\<^sup>*\<^sup>* (network_new demo_net_config) demo_net"
  unfolding demo_net_def
  by (intro r_into_rtranclp step_attach) (simp add: demo_net_env_def demo_pool_reachable)


lemma offer_keeps:
  "ns_seen_tx (offer_to_pool N now i tx s) = ns_seen_tx s \<and> ns_outbox (offer_to_pool N now i tx s) = ns_outbox s \<and>
   ns_config (offer_to_pool N now i tx s) = ns_config s"
  by (simp add: offer_to_pool_def split: option.splits prod.splits)

lemma pending_message_rebuilt:
  "\<lparr>np_transaction = np_transaction msg, np_gas_price = np_gas_price msg, np_timestamp = np_timestamp msg\<rparr> = msg"
  by (cases msg) simp

lemma handle_seen:
  "fmlookup (ns_seen_tx s) (transaction_hash (ne_lib N) (enc_tx (ne_wire N)) (np_transaction msg)) \<noteq> None \<Longrightarrow>
     handle_new_pending_transaction N now i msg s = (Ok (), s)"
  by (simp add: handle_new_pending_transaction_def Let_def)



end
