(* ===== verification/Rpc.thy ===== *)
theory Rpc
  imports Database_Queries Chain_Import Validator Peer
begin

text \<open>
  The \<open>rpc\<close> crate: \<open>types.rs\<close>, \<open>lib.rs\<close>, \<open>methods.rs\<close> and the request processing of \<open>server.rs\<close>. The methods read the
  chain and the database of the node; one of them, \<open>kai_sendRawTransaction\<close>, writes to the database. The
  conversions of \<open>serde_json\<close> and \<open>hex\<close> are parameters; a conversion that is unwrapped panics when it fails.
\<close>

section \<open>Types\<close>

text \<open>The enum \<open>serde_json::Value\<close>; of its numbers the code only builds and reads \<open>u64\<close> and \<open>f64\<close>.\<close>

datatype json_number = PosInt u64 | NegInt int | Float f64

datatype json =
    JNull
  | JBool bool
  | JNumber json_number
  | JString string
  | JArray "json list"
  | JObject "(string, json) fmap"

record RpcRequest =
  rq_jsonrpc :: string
  rq_method :: string
  rq_params :: json
  rq_id :: json

record RpcErrorResponse =
  er_code :: int
  er_message :: string
  er_data :: "json option"

record RpcResponse =
  rs_jsonrpc :: string
  rs_result :: "json option"
  rs_error :: "RpcErrorResponse option"
  rs_id :: json

datatype BlockId = ByNumber BlockNumber | ByHash hash | ByTag string

datatype RpcError =
    ParseError
  | InvalidRequest
  | MethodNotFound string
  | InvalidParams string
  | InternalError string
  | ServerError string
  | PoolFull string
  | DuplicateTransaction string
  | ForkDetected string
  | RpcReorgTooDeep string

fun rpc_error_code :: "RpcError \<Rightarrow> int" where
  "rpc_error_code ParseError = - 32700"
| "rpc_error_code InvalidRequest = - 32600"
| "rpc_error_code (MethodNotFound _) = - 32601"
| "rpc_error_code (InvalidParams _) = - 32602"
| "rpc_error_code (InternalError _) = - 32603"
| "rpc_error_code (ServerError _) = - 32000"
| "rpc_error_code (PoolFull _) = - 32000"
| "rpc_error_code (DuplicateTransaction _) = - 32001"
| "rpc_error_code (ForkDetected _) = - 32002"
| "rpc_error_code (RpcReorgTooDeep _) = - 32003"

text \<open>The messages of the \<open>#[error(...)]\<close> attributes.\<close>

fun rpc_error_to_string :: "RpcError \<Rightarrow> string" where
  "rpc_error_to_string ParseError = ''Parse error''"
| "rpc_error_to_string InvalidRequest = ''Invalid request''"
| "rpc_error_to_string (MethodNotFound s) = ''Method not found: '' @ s"
| "rpc_error_to_string (InvalidParams s) = ''Invalid params: '' @ s"
| "rpc_error_to_string (InternalError s) = ''Internal error: '' @ s"
| "rpc_error_to_string (ServerError s) = ''Server error: '' @ s"
| "rpc_error_to_string (PoolFull s) = ''Transaction pool full: '' @ s"
| "rpc_error_to_string (DuplicateTransaction s) = ''Transaction already in pool: '' @ s"
| "rpc_error_to_string (ForkDetected s) = ''Chain fork detected: '' @ s"
| "rpc_error_to_string (RpcReorgTooDeep s) = ''Reorganization too deep: '' @ s"

fun storage_error_to_string :: "StorageError \<Rightarrow> string" where
  "storage_error_to_string (DatabaseError s) = ''Database error: '' @ s"
| "storage_error_to_string (StorageError.SerializationError s) = ''Serialization error: '' @ s"
| "storage_error_to_string (NotFound s) = ''Not found: '' @ s"
| "storage_error_to_string (Corruption s) = ''Corruption detected: '' @ s"
| "storage_error_to_string (IoError s) = ''IO error: '' @ s"
| "storage_error_to_string (CacheError s) = ''Cache error: '' @ s"

text \<open>
  The conversions used: \<open>from_value\<close> at \<open>Vec<Value>\<close>, \<open>Vec<String>\<close> and \<open>Transaction\<close>, the accessors, \<open>json!\<close> of a
  float, and \<open>to_value\<close> at each type that is returned.
\<close>

record serde_json =
  js_array :: "json \<Rightarrow> json list option"
  js_strings :: "json \<Rightarrow> string list option"
  js_transaction :: "json \<Rightarrow> Transaction option"
  js_str :: "json \<Rightarrow> string option"
  js_u64 :: "json \<Rightarrow> u64 option"
  js_bool :: "json \<Rightarrow> bool option"
  js_is_null :: "json \<Rightarrow> bool"
  to_f64 :: "f64 \<Rightarrow> json"
  to_block :: "Block \<Rightarrow> string + json"
  to_blocks :: "Block list \<Rightarrow> string + json"
  to_tx :: "Transaction \<Rightarrow> string + json"
  to_txs :: "Transaction list \<Rightarrow> string + json"
  to_receipt :: "TransactionReceipt \<Rightarrow> string + json"
  to_metrics :: "ChainMetrics \<Rightarrow> string + json"
  to_snapshots :: "MetricsSnapshot list \<Rightarrow> string + json"
  to_events :: "StoredForkEvent list \<Rightarrow> string + json"
  to_counts :: "(string, nat) fmap \<Rightarrow> string + json"

record 'db rpc_env =
  re_storage :: "'db storage_env"
  re_json :: serde_json
  re_hex :: "bytes \<Rightarrow> string"
  re_unhex :: "string \<Rightarrow> string + bytes"

record 'db RpcMethods =
  rp_blockchain :: Blockchain
  rp_database :: "'db Database"

definition rpc_methods_new :: "Blockchain \<Rightarrow> 'db Database \<Rightarrow> 'db RpcMethods" where
  "rpc_methods_new blockchain database = \<lparr>rp_blockchain = blockchain, rp_database = database\<rparr>"

section \<open>Numbers in strings\<close>

definition hex_digit :: "nat \<Rightarrow> char" where
  "hex_digit n = (if n < 10 then char_of (48 + n) else char_of (87 + n))"

text \<open>\<open>format!("{:x}", n)\<close> and \<open>format!("0x{:x}", n)\<close>.\<close>

fun show_hex :: "nat \<Rightarrow> string" where
  "show_hex n = (if n < 16 then [hex_digit n] else show_hex (n div 16) @ [hex_digit (n mod 16)])"

declare show_hex.simps [simp del]

definition hex_u64 :: "u64 \<Rightarrow> string" where
  "hex_u64 n = ''0x'' @ show_hex (unat n)"

text \<open>\<open>char::to_digit\<close> for a radix up to 16, and \<open>u64::from_str_radix\<close>: an optional plus sign, at least one digit, no overflow.\<close>

definition to_digit :: "nat \<Rightarrow> char \<Rightarrow> nat option" where
  "to_digit radix c =
     (let n = of_char c :: nat;
          d = (if 48 \<le> n \<and> n \<le> 57 then n - 48
               else if 97 \<le> n \<and> n \<le> 122 then n - 87
               else if 65 \<le> n \<and> n \<le> 90 then n - 55 else radix)
      in if d < radix then Some d else None)"

fun parse_digits :: "nat \<Rightarrow> string \<Rightarrow> nat \<Rightarrow> nat option" where
  "parse_digits radix [] acc = Some acc"
| "parse_digits radix (c # cs) acc =
     (case to_digit radix c of
        None \<Rightarrow> None
      | Some d \<Rightarrow> let next_acc = acc * radix + d in
          if next_acc < 2 ^ 64 then parse_digits radix cs next_acc else None)"

definition from_str_radix :: "nat \<Rightarrow> string \<Rightarrow> u64 option" where
  "from_str_radix radix s =
     (let digits = (if s \<noteq> [] \<and> hd s = CHR ''+'' then tl s else s)
      in if digits = [] then None else map_option of_nat (parse_digits radix digits 0))"

definition starts_with :: "string \<Rightarrow> string \<Rightarrow> bool" where
  "starts_with p s \<longleftrightarrow> take (length p) s = p"

text \<open>\<open>trim_start_matches("0x")\<close> drops the prefix as often as it occurs, \<open>strip_prefix("0x")\<close> once.\<close>

fun trim_0x :: "string \<Rightarrow> string" where
  "trim_0x (a # b # s) = (if a = CHR ''0'' \<and> b = CHR ''x'' then trim_0x s else a # b # s)"
| "trim_0x s = s"

definition hash_from_hex :: "(string \<Rightarrow> string + bytes) \<Rightarrow> string \<Rightarrow> (hash, CryptoError) outcome" where
  "hash_from_hex unhex s =
     (case unhex s of Inl e \<Rightarrow> Err (CryptoError.DeserializationError e) | Inr bytes \<Rightarrow> hash_from_slice bytes)"

definition address_from_hex :: "(string \<Rightarrow> string + bytes) \<Rightarrow> string \<Rightarrow> (address, CryptoError) outcome" where
  "address_from_hex unhex s =
     (let s1 = (if starts_with ''0x'' s then drop 2 s else s) in
      case unhex s1 of
        Inl e \<Rightarrow> Err (CryptoError.DeserializationError e)
      | Inr bytes \<Rightarrow>
          if length bytes \<noteq> 20 then Err (CryptoError.DeserializationError ''Invalid address length'')
          else Ok (address_new bytes))"

section \<open>Parameters and results\<close>

type_synonym rpc_result = "(json, RpcError) outcome"

definition params_array :: "'db rpc_env \<Rightarrow> json \<Rightarrow> (json list, RpcError) outcome" where
  "params_array R params = ok_or (InvalidParams ''Expected array'') (js_array (re_json R) params)"

definition params_strings :: "'db rpc_env \<Rightarrow> string \<Rightarrow> json \<Rightarrow> (string list, RpcError) outcome" where
  "params_strings R message params = ok_or (InvalidParams message) (js_strings (re_json R) params)"

definition param_str :: "'db rpc_env \<Rightarrow> string \<Rightarrow> json \<Rightarrow> (string, RpcError) outcome" where
  "param_str R message v = ok_or (InvalidParams message) (js_str (re_json R) v)"

definition param_u64 :: "'db rpc_env \<Rightarrow> string \<Rightarrow> json \<Rightarrow> (u64, RpcError) outcome" where
  "param_u64 R message v = ok_or (InvalidParams message) (js_u64 (re_json R) v)"

definition param_hash :: "'db rpc_env \<Rightarrow> string \<Rightarrow> string \<Rightarrow> (hash, RpcError) outcome" where
  "param_hash R message s = map_err (\<lambda>_. InvalidParams message) (hash_from_hex (re_unhex R) s)"

definition param_address :: "'db rpc_env \<Rightarrow> string \<Rightarrow> string \<Rightarrow> (address, RpcError) outcome" where
  "param_address R message s = map_err (\<lambda>_. InvalidParams message) (address_from_hex (re_unhex R) s)"

text \<open>\<open>map_err(|e| RpcError::InternalError(e.to_string()))\<close> and \<open>to_value(...).unwrap()\<close>.\<close>

definition db_call :: "('a, StorageError) outcome \<Rightarrow> ('a, RpcError) outcome" where
  "db_call r = map_err (\<lambda>e. InternalError (storage_error_to_string e)) r"

fun unwrap_value :: "string + json \<Rightarrow> rpc_result" where
  "unwrap_value (Inr v) = Ok v"
| "unwrap_value (Inl e) = Panic"

fun value_or_null :: "('a \<Rightarrow> string + json) \<Rightarrow> 'a option \<Rightarrow> rpc_result" where
  "value_or_null f (Some x) = unwrap_value (f x)"
| "value_or_null f None = Ok JNull"

text \<open>A read of the chain panics when its head is not stored; it cannot fail otherwise.\<close>

fun chain_read :: "('a, BlockchainError) outcome \<Rightarrow> ('a, RpcError) outcome" where
  "chain_read (Ok v) = Ok v"
| "chain_read (Err e) = Panic"
| "chain_read Panic = Panic"

abbreviation json_u64 :: "u64 \<Rightarrow> json" where
  "json_u64 n \<equiv> JNumber (PosInt n)"

definition json_object :: "(string \<times> json) list \<Rightarrow> json" where
  "json_object kvs = JObject (fmap_of_list kvs)"

section \<open>Methods compatible with Ethereum clients\<close>

definition kai_block_number :: "'db RpcMethods \<Rightarrow> rpc_result" where
  "kai_block_number m = and_then (chain_read (height (rp_blockchain m))) (\<lambda>number. Ok (JString (hex_u64 number)))"

definition kai_get_balance :: "'db rpc_env \<Rightarrow> 'db RpcMethods \<Rightarrow> json \<Rightarrow> rpc_result" where
  "kai_get_balance R m params =
     and_then (params_array R params) (\<lambda>v.
     if length v < 2 then Err (InvalidParams ''Expected address and block'')
     else and_then (param_str R ''Invalid address'' (v ! 0)) (\<lambda>address_str.
     and_then (param_address R ''Invalid address format'' address_str) (\<lambda>address.
       let balance = ws_get_balance (bc_state (rp_blockchain m)) address
       in Ok (JString (hex_u64 (low_u64 balance))))))"

definition kai_get_block_by_hash :: "'db rpc_env \<Rightarrow> 'db RpcMethods \<Rightarrow> json \<Rightarrow> rpc_result" where
  "kai_get_block_by_hash R m params =
     and_then (params_array R params) (\<lambda>v.
     if v = [] then Err (InvalidParams ''Expected block hash'')
     else and_then (param_str R ''Invalid hash'' (v ! 0)) (\<lambda>hash_str.
     and_then (param_hash R ''Invalid hash format'' hash_str) (\<lambda>h.
     and_then (db_call (db_get_block (re_storage R) (rp_database m) h)) (\<lambda>found.
       value_or_null (to_block (re_json R)) found))))"

definition kai_get_transaction_by_hash :: "'db rpc_env \<Rightarrow> 'db RpcMethods \<Rightarrow> json \<Rightarrow> rpc_result" where
  "kai_get_transaction_by_hash R m params =
     and_then (params_strings R ''Expected array of strings'' params) (\<lambda>v.
     if v = [] then Err (InvalidParams ''Expected transaction hash'')
     else and_then (param_hash R ''Invalid hash'' (v ! 0)) (\<lambda>h.
     and_then (db_call (db_get_transaction (re_storage R) (rp_database m) h)) (\<lambda>found.
       value_or_null (to_tx (re_json R)) found)))"

definition kai_get_transaction_receipt :: "'db rpc_env \<Rightarrow> 'db RpcMethods \<Rightarrow> json \<Rightarrow> rpc_result" where
  "kai_get_transaction_receipt R m params =
     and_then (params_strings R ''Expected array'' params) (\<lambda>v.
     if v = [] then Err (InvalidParams ''Expected transaction hash'')
     else and_then (param_hash R ''Invalid hash'' (v ! 0)) (\<lambda>h.
     and_then (db_call (db_get_receipt (re_storage R) (rp_database m) h)) (\<lambda>found.
       value_or_null (to_receipt (re_json R)) found)))"

text \<open>Methods with a constant answer.\<close>

definition kai_call :: "json \<Rightarrow> rpc_result" where
  "kai_call params = Ok (JString ''0x'')"

definition kai_estimate_gas :: "json \<Rightarrow> rpc_result" where
  "kai_estimate_gas params = Ok (JString ''0x5208'')"

definition kai_gas_price :: rpc_result where
  "kai_gas_price = Ok (JString ''0x9184e72a000'')"

definition kai_chain_id :: rpc_result where
  "kai_chain_id = Ok (JString ''0x539'')"

definition net_version :: rpc_result where
  "net_version = Ok (JString ''1337'')"

definition net_peer_count :: rpc_result where
  "net_peer_count = Ok (JString ''0x0'')"

definition net_listening :: rpc_result where
  "net_listening = Ok (JBool True)"

definition web3_client_version :: rpc_result where
  "web3_client_version = Ok (JString ''utility-blockchain/1.0.0/rust'')"

definition utility_get_index :: "'db rpc_env \<Rightarrow> rpc_result" where
  "utility_get_index R = Ok (json_object [(''value'', to_f64 (re_json R) (Fin 1)), (''phase'', JString ''Bootstrap'')])"

definition utility_get_phase :: rpc_result where
  "utility_get_phase = Ok (json_object [(''current'', JString ''Bootstrap''), (''transition_block'', JNull)])"

definition validator_get_info :: "json \<Rightarrow> rpc_result" where
  "validator_get_info params =
     Ok (json_object [(''stake'', JString ''15000000000000000000000''), (''commission'', json_u64 500),
       (''status'', JString ''Active'')])"

definition validator_list :: rpc_result where
  "validator_list = Ok (JArray [])"

definition liquidity_get_pools :: rpc_result where
  "liquidity_get_pools = Ok (JArray [])"

definition liquidity_get_deployment :: "json \<Rightarrow> rpc_result" where
  "liquidity_get_deployment params = Ok (json_object [(''total'', JString ''0''), (''pools'', JArray [])])"

section \<open>Pool, metrics and fork methods\<close>

text \<open>An optional first parameter that is a number.\<close>

definition first_u64 :: "'db rpc_env \<Rightarrow> json \<Rightarrow> u64 \<Rightarrow> u64" where
  "first_u64 R params default_value =
     (case js_array (re_json R) params of
        Some v \<Rightarrow>
          if v \<noteq> [] then (case js_u64 (re_json R) (v ! 0) of Some n \<Rightarrow> n | None \<Rightarrow> default_value)
          else default_value
      | None \<Rightarrow> default_value)"

definition load_pending :: "'db rpc_env \<Rightarrow> Timestamp \<Rightarrow> 'db RpcMethods \<Rightarrow> (Transaction list, RpcError) outcome" where
  "load_pending R now m = db_call (load_pending_transactions (re_storage R) now (rp_database m))"

definition kai_pending_transactions :: "'db rpc_env \<Rightarrow> Timestamp \<Rightarrow> 'db RpcMethods \<Rightarrow> json \<Rightarrow> rpc_result" where
  "kai_pending_transactions R now m params =
     (let limit = unat (first_u64 R params 100)
      in and_then (load_pending R now m) (\<lambda>txs. unwrap_value (to_txs (re_json R) (take limit txs))))"

definition kai_txpool_status :: "'db rpc_env \<Rightarrow> Timestamp \<Rightarrow> 'db RpcMethods \<Rightarrow> rpc_result" where
  "kai_txpool_status R now m =
     and_then (load_pending R now m) (\<lambda>txs.
       let pending_count = of_nat (length txs) in
       Ok (json_object [(''pending_count'', json_u64 pending_count), (''queued_count'', json_u64 0),
         (''total_added'', json_u64 pending_count), (''total_removed'', json_u64 0)]))"

definition pool_content :: "'db rpc_env \<Rightarrow> Transaction list \<Rightarrow> rpc_result" where
  "pool_content R txs =
     and_then (unwrap_value (to_txs (re_json R) txs)) (\<lambda>v. Ok (json_object [(''pending'', v), (''queued'', JArray [])]))"

definition kai_txpool_content :: "'db rpc_env \<Rightarrow> Timestamp \<Rightarrow> 'db RpcMethods \<Rightarrow> json \<Rightarrow> rpc_result" where
  "kai_txpool_content R now m params =
     and_then (params_array R params) (\<lambda>v.
     if v \<noteq> [] \<and> \<not> js_is_null (re_json R) (v ! 0)
     then and_then (param_str R ''Invalid address'' (v ! 0)) (\<lambda>addr_str.
          and_then (param_address R ''Invalid address'' addr_str) (\<lambda>addr.
          and_then (db_call (get_transactions_by_address (re_storage R) (rp_database m) addr)) (pool_content R)))
     else and_then (load_pending R now m) (pool_content R))"

fun count_senders :: "(bytes \<Rightarrow> string) \<Rightarrow> Transaction list \<Rightarrow> (string, nat) fmap \<Rightarrow> (string, nat) fmap" where
  "count_senders hex [] counts = counts"
| "count_senders hex (tx # txs) counts =
     (let addr = address_to_hex hex (tx_from tx)
      in count_senders hex txs (fmupd addr (lookup_default 0 counts addr + 1) counts))"

definition kai_txpool_inspect :: "'db rpc_env \<Rightarrow> Timestamp \<Rightarrow> 'db RpcMethods \<Rightarrow> rpc_result" where
  "kai_txpool_inspect R now m =
     and_then (load_pending R now m) (\<lambda>txs. unwrap_value (to_counts (re_json R) (count_senders (re_hex R) txs fmempty)))"

definition latest_metrics :: "'db rpc_env \<Rightarrow> 'db RpcMethods \<Rightarrow> (MetricsSnapshot option, StorageError) outcome" where
  "latest_metrics R m = get_latest_metrics (re_storage R) (rp_database m)"

definition kai_metrics :: "'db rpc_env \<Rightarrow> 'db RpcMethods \<Rightarrow> rpc_result" where
  "kai_metrics R m =
     and_then (db_call (latest_metrics R m)) (\<lambda>found.
       value_or_null (\<lambda>snapshot. to_metrics (re_json R) (sn_metrics snapshot)) found)"

text \<open>The two numbers a range query starts with.\<close>

definition range_params :: "'db rpc_env \<Rightarrow> string \<Rightarrow> json list \<Rightarrow> (u64 \<times> u64, RpcError) outcome" where
  "range_params R message v =
     (if length v < 2 then Err (InvalidParams message)
      else and_then (param_u64 R ''Invalid start'' (v ! 0)) (\<lambda>start.
           and_then (param_u64 R ''Invalid end'' (v ! 1)) (\<lambda>finish. Ok (start, finish))))"

definition kai_metrics_history :: "'db rpc_env \<Rightarrow> 'db RpcMethods \<Rightarrow> json \<Rightarrow> rpc_result" where
  "kai_metrics_history R m params =
     and_then (params_array R params) (\<lambda>v.
     and_then (range_params R ''Expected start and end block'' v) (\<lambda>(start, finish).
       let max_points = 1000; cnt = unat (saturating_sub finish start + 1) in
       if max_points < cnt
       then Err (InvalidParams (''Range too large: '' @ show_nat cnt @ '' points (max '' @ show_nat max_points @ '')''))
       else and_then (db_call (get_metrics_range (re_storage R) (rp_database m) start finish)) (\<lambda>snapshots.
              unwrap_value (to_snapshots (re_json R) snapshots))))"

definition kai_tps :: "'db rpc_env \<Rightarrow> 'db RpcMethods \<Rightarrow> json \<Rightarrow> rpc_result" where
  "kai_tps R m params =
     (let window = first_u64 R params 10 in
      and_then (chain_read (height (rp_blockchain m))) (\<lambda>hgt.
        let start = saturating_sub hgt (saturating_sub window 1);
            tx_count = get_transaction_count (rp_blockchain m) start hgt;
            seconds = (case latest_metrics R m of
                         Ok (Some snapshot) \<Rightarrow> f64_mul (cm_avg_block_time (sn_metrics snapshot)) (f64_of_u64 window)
                       | _ \<Rightarrow> f64_of_u64 window);
            tps = (if f64_lt (Fin 0) seconds then f64_div (f64_of_u64 tx_count) seconds else f64_of_u64 tx_count)
        in Ok (to_f64 (re_json R) tps)))"

definition kai_fork_history :: "'db rpc_env \<Rightarrow> Timestamp \<Rightarrow> 'db RpcMethods \<Rightarrow> json \<Rightarrow> rpc_result" where
  "kai_fork_history R now m params =
     (let v = (case js_array (re_json R) params of Some v \<Rightarrow> v | None \<Rightarrow> []);
          nth_u64 = (\<lambda>i. if i < length v then js_u64 (re_json R) (v ! i) else None);
          limit = unat (case nth_u64 0 of Some n \<Rightarrow> n | None \<Rightarrow> 100);
          hours_back = (case nth_u64 1 of
                          Some start \<Rightarrow> if start < now then Some ((now - start) div 3600) else Some 0
                        | None \<Rightarrow> None)
      in and_then (db_call (get_fork_history (re_storage R) now (rp_database m) hours_back)) (\<lambda>events.
           unwrap_value (to_events (re_json R) (if limit < length events then take limit events else events))))"

definition kai_fork_choice :: rpc_result where
  "kai_fork_choice = Ok (JString ''LongestChain'')"

section \<open>Ranges, submission, blocks by number\<close>

definition strip_transactions :: "json \<Rightarrow> json" where
  "strip_transactions v = (case v of JObject obj \<Rightarrow> JObject (fmupd ''transactions'' (JArray []) obj) | _ \<Rightarrow> v)"

fun stripped_blocks :: "'db rpc_env \<Rightarrow> Block list \<Rightarrow> (json list, RpcError) outcome" where
  "stripped_blocks R [] = Ok []"
| "stripped_blocks R (b # bs) =
     and_then (unwrap_value (to_block (re_json R) b)) (\<lambda>v.
     and_then (stripped_blocks R bs) (\<lambda>vs. Ok (strip_transactions v # vs)))"

definition kai_get_block_range :: "'db rpc_env \<Rightarrow> 'db RpcMethods \<Rightarrow> json \<Rightarrow> rpc_result" where
  "kai_get_block_range R m params =
     and_then (params_array R params) (\<lambda>v.
     and_then (range_params R ''Expected start and end'' v) (\<lambda>(start, finish).
       let include_tx = (if 2 < length v then (case js_bool (re_json R) (v ! 2) of Some b \<Rightarrow> b | None \<Rightarrow> True) else True) in
       if finish < start then Err (InvalidParams ''end < start'')
       else if 100 < saturating_sub finish start + 1 then Err (InvalidParams ''Range too large (max 100)'')
       else let blocks = get_block_range (rp_blockchain m) start finish in
            if include_tx then unwrap_value (to_blocks (re_json R) blocks)
            else and_then (stripped_blocks R blocks) (\<lambda>stripped. Ok (JArray stripped))))"

definition kai_get_transaction_range :: "'db rpc_env \<Rightarrow> 'db RpcMethods \<Rightarrow> json \<Rightarrow> rpc_result" where
  "kai_get_transaction_range R m params =
     and_then (params_array R params) (\<lambda>v.
     and_then (range_params R ''Expected start and end'' v) (\<lambda>(start, finish).
       if finish < start then Err (InvalidParams ''end < start'')
       else let txs = get_transactions_in_range (rp_blockchain m) start finish in
            if 1000 < length txs then Err (InvalidParams ''Too many transactions (max 1000)'')
            else unwrap_value (to_txs (re_json R) txs)))"

text \<open>A raw transaction is the hex form of its bincode, or a JSON object.\<close>

definition raw_transaction :: "'db rpc_env \<Rightarrow> json \<Rightarrow> (Transaction, RpcError) outcome" where
  "raw_transaction R v =
     (case js_str (re_json R) v of
        Some s \<Rightarrow>
          (case re_unhex R (trim_0x s) of
             Inl e \<Rightarrow> Err (InvalidParams ''Invalid hex'')
           | Inr bytes \<Rightarrow>
               (case deserialize (se_tx (re_storage R)) bytes of
                  Inl e \<Rightarrow> Err (InvalidParams ''Invalid transaction encoding'')
                | Inr tx \<Rightarrow> Ok tx))
      | None \<Rightarrow> ok_or (InvalidParams ''Invalid transaction object'') (js_transaction (re_json R) v))"

text \<open>\<open>iter().position(...)\<close>.\<close>

fun find_position :: "('a \<Rightarrow> bool) \<Rightarrow> 'a list \<Rightarrow> nat option" where
  "find_position P [] = None"
| "find_position P (x # xs) = (if P x then Some 0 else map_option Suc (find_position P xs))"

text \<open>The submission proper: persist the transaction and report its place among the pending ones.\<close>

definition persist_transaction ::
    "'db rpc_env \<Rightarrow> Timestamp \<Rightarrow> Timestamp \<Rightarrow> 'db RpcMethods \<Rightarrow> Transaction \<Rightarrow> rpc_result \<times> 'db RpcMethods" where
  "persist_transaction R now now' m tx =
     (case store_pending_transactions (re_storage R) now (rp_database m) [(tx, tx_gas_price tx)] of
        (stored, d) \<Rightarrow>
          let m1 = m\<lparr>rp_database := d\<rparr> in
          (and_then (db_call stored) (\<lambda>_.
           and_then (load_pending R now' m1) (\<lambda>pending.
             let tx_hash = db_tx_hash (re_storage R) tx;
                 pos = (case find_position (\<lambda>t. db_tx_hash (re_storage R) t = tx_hash) pending of
                          Some i \<Rightarrow> i + 1 | None \<Rightarrow> 0)
             in Ok (json_object [(''tx_hash'', JString (hash_to_hex (re_hex R) tx_hash)),
                  (''position'', json_u64 (of_nat pos))]))), m1))"

definition kai_send_raw_transaction ::
    "'db rpc_env \<Rightarrow> Timestamp \<Rightarrow> Timestamp \<Rightarrow> 'db RpcMethods \<Rightarrow> json \<Rightarrow> rpc_result \<times> 'db RpcMethods" where
  "kai_send_raw_transaction R now now' m params =
     db_try (params_array R params) m (\<lambda>v.
     if v = [] then (Err (InvalidParams ''Expected raw transaction''), m)
     else db_try (raw_transaction R (v ! 0)) m (\<lambda>tx.
     case validate_basic tx of
       Err e \<Rightarrow> (Err (InvalidParams (''Invalid transaction: '' @ blockchain_error_to_string (re_hex R) e)), m)
     | Panic \<Rightarrow> (Panic, m)
     | Ok _ \<Rightarrow> persist_transaction R now now' m tx))"

definition block_number_param :: "'db RpcMethods \<Rightarrow> string \<Rightarrow> (BlockNumber, RpcError) outcome" where
  "block_number_param m block_str =
     (if block_str = ''latest'' then chain_read (height (rp_blockchain m))
      else if starts_with ''0x'' block_str
      then ok_or (InvalidParams ''Invalid hex number'') (from_str_radix 16 (drop 2 block_str))
      else ok_or (InvalidParams ''Invalid number'') (from_str_radix 10 block_str))"

definition kai_get_block_by_number :: "'db rpc_env \<Rightarrow> Timestamp \<Rightarrow> 'db RpcMethods \<Rightarrow> json \<Rightarrow> rpc_result" where
  "kai_get_block_by_number R now m params =
     and_then (params_array R params) (\<lambda>v.
     if v = [] then Err (InvalidParams ''Expected block number'')
     else and_then (param_str R ''Invalid block number'' (v ! 0)) (\<lambda>block_str.
     and_then (block_number_param m block_str) (\<lambda>number.
       let include_txpool = (if 1 < length v then (case js_bool (re_json R) (v ! 1) of Some b \<Rightarrow> b | None \<Rightarrow> False) else False) in
       and_then (db_call (db_get_block_by_number (re_storage R) (rp_database m) number)) (\<lambda>found.
         case found of
           None \<Rightarrow> Ok JNull
         | Some block \<Rightarrow>
             if include_txpool
             then and_then (kai_txpool_status R now m) (\<lambda>txpool.
                  and_then (unwrap_value (to_block (re_json R) block)) (\<lambda>v.
                    Ok (json_object [(''block'', v), (''txpool'', txpool)])))
             else unwrap_value (to_block (re_json R) block)))))"

section \<open>Dispatch\<close>

definition rpc_handle ::
    "'db rpc_env \<Rightarrow> Timestamp \<Rightarrow> Timestamp \<Rightarrow> 'db RpcMethods \<Rightarrow> string \<Rightarrow> json \<Rightarrow> rpc_result \<times> 'db RpcMethods" where
  "rpc_handle R now now' m name params =
     (if name = ''blockNumber'' then (kai_block_number m, m)
      else if name = ''kai_getBalance'' then (kai_get_balance R m params, m)
      else if name = ''kai_getBlockByNumber'' then (kai_get_block_by_number R now m params, m)
      else if name = ''kai_getBlockByHash'' then (kai_get_block_by_hash R m params, m)
      else if name = ''kai_getTransactionByHash'' then (kai_get_transaction_by_hash R m params, m)
      else if name = ''kai_getTransactionReceipt'' then (kai_get_transaction_receipt R m params, m)
      else if name = ''kai_sendRawTransaction'' then kai_send_raw_transaction R now now' m params
      else if name = ''kai_call'' then (kai_call params, m)
      else if name = ''kai_estimateGas'' then (kai_estimate_gas params, m)
      else if name = ''kai_gasPrice'' then (kai_gas_price, m)
      else if name = ''kai_chainId'' then (kai_chain_id, m)
      else if name = ''net_version'' then (net_version, m)
      else if name = ''net_peerCount'' then (net_peer_count, m)
      else if name = ''net_listening'' then (net_listening, m)
      else if name = ''web3_clientVersion'' then (web3_client_version, m)
      else if name = ''kai_pendingTransactions'' then (kai_pending_transactions R now m params, m)
      else if name = ''kai_txpoolStatus'' then (kai_txpool_status R now m, m)
      else if name = ''kai_txpoolContent'' then (kai_txpool_content R now m params, m)
      else if name = ''kai_txpoolInspect'' then (kai_txpool_inspect R now m, m)
      else if name = ''kai_metrics'' then (kai_metrics R m, m)
      else if name = ''kai_metricsHistory'' then (kai_metrics_history R m params, m)
      else if name = ''kai_tps'' then (kai_tps R m params, m)
      else if name = ''kai_forkHistory'' then (kai_fork_history R now m params, m)
      else if name = ''kai_forkChoice'' then (kai_fork_choice, m)
      else if name = ''kai_getBlockRange'' then (kai_get_block_range R m params, m)
      else if name = ''kai_getTransactionRange'' then (kai_get_transaction_range R m params, m)
      else if name = ''utility_getIndex'' then (utility_get_index R, m)
      else if name = ''utility_getPhase'' then (utility_get_phase, m)
      else if name = ''validator_getInfo'' then (validator_get_info params, m)
      else if name = ''validator_list'' then (validator_list, m)
      else if name = ''liquidity_getPools'' then (liquidity_get_pools, m)
      else if name = ''liquidity_getDeployment'' then (liquidity_get_deployment params, m)
      else (Err (MethodNotFound name), m))"

definition process_request ::
    "'db rpc_env \<Rightarrow> Timestamp \<Rightarrow> Timestamp \<Rightarrow> 'db RpcMethods \<Rightarrow> RpcRequest
      \<Rightarrow> (RpcResponse, RpcError) outcome \<times> 'db RpcMethods" where
  "process_request R now now' m request =
     (case rpc_handle R now now' m (rq_method request) (rq_params request) of
        (Ok result, m1) \<Rightarrow> (Ok \<lparr>rs_jsonrpc = ''2.0'', rs_result = Some result, rs_error = None, rs_id = rq_id request\<rparr>, m1)
      | (Err error, m1) \<Rightarrow>
          (Ok \<lparr>rs_jsonrpc = ''2.0'', rs_result = None,
               rs_error = Some \<lparr>er_code = rpc_error_code error, er_message = rpc_error_to_string error, er_data = None\<rparr>,
               rs_id = rq_id request\<rparr>, m1)
      | (Panic, m1) \<Rightarrow> (Panic, m1))"

section \<open>The server\<close>

record RpcConfig =
  rf_listen_addr :: SocketAddr
  rf_max_connections :: nat
  rf_enable_ws :: bool
  rf_cors_origins :: "string list"
  rf_enable_mempool_methods :: bool
  rf_max_range_query_blocks :: u64
  rf_metrics_cache_duration :: u64

definition rpc_config_default :: RpcConfig where
  "rpc_config_default =
     \<lparr>rf_listen_addr = SocketAddr [127, 0, 0, 1] 8545, rf_max_connections = 100, rf_enable_ws = False,
      rf_cors_origins = [''*''], rf_enable_mempool_methods = True, rf_max_range_query_blocks = 100,
      rf_metrics_cache_duration = 1\<rparr>"

record 'db RpcServer =
  sv_config :: RpcConfig
  sv_methods :: "'db RpcMethods"

definition rpc_server_new :: "RpcConfig \<Rightarrow> 'db RpcMethods \<Rightarrow> 'db RpcServer" where
  "rpc_server_new config methods = \<lparr>sv_config = config, sv_methods = methods\<rparr>"

text \<open>
  An HTTP request as hyper hands it over: its method and its body, which may fail to arrive. The response carries
  the same headers on every path, so it is its status and its body.
\<close>

datatype http_method = OPTIONS | POST | OtherMethod string

record http_response =
  hr_status :: nat
  hr_body :: string

text \<open>Reading a request from bytes and printing a response are \<open>serde_json\<close>.\<close>

record rpc_codec =
  read_request :: "bytes \<Rightarrow> RpcRequest option"
  print_response :: "RpcResponse \<Rightarrow> string + string"

fun unwrap_text :: "string + string \<Rightarrow> (string, 'e) outcome" where
  "unwrap_text (Inr s) = Ok s"
| "unwrap_text (Inl e) = Panic"

definition parse_error_response :: RpcResponse where
  "parse_error_response =
     \<lparr>rs_jsonrpc = ''2.0'', rs_result = None,
      rs_error = Some \<lparr>er_code = - 32700, er_message = ''Parse error'', er_data = None\<rparr>, rs_id = JNull\<rparr>"

definition handle_request ::
    "'db rpc_env \<Rightarrow> rpc_codec \<Rightarrow> Timestamp \<Rightarrow> Timestamp \<Rightarrow> 'db RpcServer \<Rightarrow> http_method \<Rightarrow> string + bytes
      \<Rightarrow> (http_response, string) outcome \<times> 'db RpcServer" where
  "handle_request R C now now' s http body =
     (case http of
        OPTIONS \<Rightarrow> (Ok \<lparr>hr_status = 200, hr_body = []\<rparr>, s)
      | OtherMethod _ \<Rightarrow> (Ok \<lparr>hr_status = 405, hr_body = ''Method not allowed''\<rparr>, s)
      | POST \<Rightarrow>
          (case body of
             Inl e \<Rightarrow> (Err e, s)
           | Inr body_bytes \<Rightarrow>
               (case read_request C body_bytes of
                  None \<Rightarrow> (and_then (unwrap_text (print_response C parse_error_response)) (\<lambda>text.
                            Ok \<lparr>hr_status = 200, hr_body = text\<rparr>), s)
                | Some request \<Rightarrow>
                    (case process_request R now now' (sv_methods s) request of
                       (Ok response, m) \<Rightarrow>
                         (and_then (unwrap_text (print_response C response)) (\<lambda>text.
                            Ok \<lparr>hr_status = 200, hr_body = text\<rparr>), s\<lparr>sv_methods := m\<rparr>)
                     | (_, m) \<Rightarrow> (Panic, s\<lparr>sv_methods := m\<rparr>)))))"

end
