(* ===== verification/Rpc_Properties.thy ===== *)
theory Rpc_Properties
  imports Rpc
begin

text \<open>
  What the methods answer: every request gets one response, the state changes only through
  \<open>kai_sendRawTransaction\<close>, numbers survive their hexadecimal form, and the limits of the range queries.
\<close>

section \<open>Hexadecimal numbers\<close>

lemma to_digit_hex: "d < 16 \<Longrightarrow> to_digit 16 (hex_digit d) = Some d"
  by (auto simp: to_digit_def hex_digit_def Let_def)

lemma parse_digits_append:
  "parse_digits r (xs @ ys) acc = Option.bind (parse_digits r xs acc) (parse_digits r ys)"
  by (induction xs arbitrary: acc) (auto simp: Let_def split: option.splits)

lemma parse_show_hex: "n < 2 ^ 64 \<Longrightarrow> parse_digits 16 (show_hex n) 0 = Some n"
proof (induction n rule: show_hex.induct)
  case (1 n)
  show ?case
  proof (cases "n < 16")
    case True
    then show ?thesis by (simp add: show_hex.simps [of n] to_digit_hex)
  next
    case False
    have "n div 16 * 16 + n mod 16 = n" by simp
    then show ?thesis using 1 False by (simp add: show_hex.simps [of n] parse_digits_append to_digit_hex)
  qed
qed

lemma show_hex_nonempty: "show_hex n \<noteq> []"
  by (subst show_hex.simps) simp

lemma show_hex_no_plus: "hd (show_hex n) \<noteq> CHR ''+''"
proof (induction n rule: show_hex.induct)
  case (1 n)
  have "hex_digit d \<noteq> CHR ''+''" if "d < 16" for d
    using to_digit_hex [OF that] by (auto simp: to_digit_def Let_def)
  then show ?case using 1 by (cases "n < 16") (simp_all add: show_hex.simps [of n] show_hex_nonempty hd_append)
qed

lemma from_str_radix_hex: "from_str_radix 16 (show_hex (unat n)) = Some n"
  using parse_show_hex [OF unat_less_u64 [of n]] by (simp add: from_str_radix_def Let_def show_hex_nonempty show_hex_no_plus)

lemma from_str_radix_hex_u64: "starts_with ''0x'' (hex_u64 n) \<and> from_str_radix 16 (drop 2 (hex_u64 n)) = Some n"
  by (simp add: starts_with_def hex_u64_def from_str_radix_hex)

section \<open>Reads do not panic\<close>

text \<open>What \<open>serde_json\<close> documents: a value is read back as what it was built from, and the derived \<open>Serialize\<close>
  instances of the returned types never fail.\<close>

definition serde_ok :: "serde_json \<Rightarrow> bool" where
  "serde_ok J \<longleftrightarrow> (\<forall>vs. js_array J (JArray vs) = Some vs) \<and> (\<forall>s. js_str J (JString s) = Some s) \<and>
     (\<forall>n. js_u64 J (json_u64 n) = Some n) \<and> (\<forall>b. js_bool J (JBool b) = Some b)"

definition serde_total :: "serde_json \<Rightarrow> bool" where
  "serde_total J \<longleftrightarrow> (\<forall>x. \<not> isl (to_block J x)) \<and> (\<forall>x. \<not> isl (to_blocks J x)) \<and> (\<forall>x. \<not> isl (to_tx J x)) \<and>
     (\<forall>x. \<not> isl (to_txs J x)) \<and> (\<forall>x. \<not> isl (to_receipt J x)) \<and> (\<forall>x. \<not> isl (to_metrics J x)) \<and>
     (\<forall>x. \<not> isl (to_snapshots J x)) \<and> (\<forall>x. \<not> isl (to_events J x)) \<and> (\<forall>x. \<not> isl (to_counts J x))"

lemma results_not_Panic [simp]: "db_result x \<noteq> Panic" "ser_result x \<noteq> Panic"
  by (cases x; simp)+

lemma db_reads_not_Panic [simp]: "db_cf E d c \<noteq> Panic" "db_get E d cf k \<noteq> Panic" "db_iter E d cf mode \<noteq> Panic"
  by (simp_all add: db_cf_def db_get_def db_iter_def db_items_not_Panic)

lemma hash_from_slice_not_Panic [simp]: "hash_from_slice bs \<noteq> Panic"
  by (simp add: hash_from_slice_def)

lemma db_try_Panic: "fst (db_try r s f) = Panic \<longleftrightarrow> r = Panic \<or> (\<exists>v. r = Ok v \<and> fst (f v) = Panic)"
  by (cases r) auto

lemma db_get_decoded_not_Panic [simp]: "db_get_decoded E c d col k \<noteq> Panic"
  by (auto simp: db_get_decoded_def and_then_eq_Panic split: option.splits)

lemma db_lookups_not_Panic [simp]:
  "db_get_block E d h \<noteq> Panic" "db_get_transaction E d h \<noteq> Panic" "db_get_receipt E d h \<noteq> Panic"
  "db_get_block_by_number E d n \<noteq> Panic"
  by (auto simp: db_get_block_def db_get_transaction_def db_get_receipt_def db_get_block_by_number_def
      and_then_eq_Panic map_err_eq_Panic split: option.splits if_splits)

lemma load_pending_not_Panic [simp]: "load_pending_transactions E now d \<noteq> Panic"
  by (auto simp: load_pending_transactions_def and_then_eq_Panic Let_def)

lemma by_address_not_Panic [simp]: "by_address_loop E d addr items \<noteq> Panic"
  by (induction items) (auto simp: and_then_eq_Panic split: prod.splits option.splits outcome.splits)

lemma metrics_range_not_Panic [simp]: "metrics_range_loop E d cf ns \<noteq> Panic"
  by (induction ns) (auto simp: and_then_eq_Panic split: option.splits)

lemma first_snapshot_not_Panic [simp]: "first_snapshot E d cf ns \<noteq> Panic"
  by (induction ns) (auto simp: and_then_eq_Panic split: option.splits sum.splits)

lemma first_decoded_not_Panic [simp]: "first_decoded c items \<noteq> Panic"
  by (induction items) (auto simp: and_then_eq_Panic split: prod.splits sum.splits)

lemma db_queries_not_Panic [simp]:
  "get_transactions_by_address E d a \<noteq> Panic" "get_metrics_range E d x y \<noteq> Panic" "get_fork_history E now d hours \<noteq> Panic"
  "get_latest_block_number E d \<noteq> Panic" "get_latest_metrics E d \<noteq> Panic"
  by (auto simp: get_transactions_by_address_def get_metrics_range_def get_fork_history_def get_latest_block_number_def
      get_meta_def db_number_def get_latest_metrics_def and_then_eq_Panic Let_def
      split: option.splits if_splits sum.splits)

lemma store_pending_not_Panic [simp]: "fst (store_pending_transactions E now d txs) \<noteq> Panic"
proof -
  have "pending_batch E cf cf_addr now txs \<noteq> Panic" for cf cf_addr
    by (induction txs) (auto simp: and_then_eq_Panic Let_def)
  then show ?thesis
    by (simp add: store_pending_transactions_def db_write_def db_commit_def db_try_Panic)
qed

section \<open>Every request is answered\<close>

lemma unwrap_value_not_Panic [simp]: "unwrap_value x \<noteq> Panic \<longleftrightarrow> \<not> isl x"
  by (cases x) auto

lemma value_or_null_not_Panic: "(\<And>x. \<not> isl (f x)) \<Longrightarrow> value_or_null f found \<noteq> Panic"
  by (cases found) auto

lemma params_not_Panic [simp]:
  "params_array R v \<noteq> Panic" "params_strings R e v \<noteq> Panic" "param_str R e v \<noteq> Panic" "param_u64 R e v \<noteq> Panic"
  "param_hash R e s \<noteq> Panic" "param_address R e s \<noteq> Panic" "range_params R e vs \<noteq> Panic"
  by (auto simp: params_array_def params_strings_def param_str_def param_u64_def param_hash_def param_address_def
      range_params_def hash_from_hex_def address_from_hex_def and_then_eq_Panic map_err_eq_Panic ok_or_not_Panic Let_def
      split: sum.splits if_splits)

lemma db_call_not_Panic [simp]: "db_call r = Panic \<longleftrightarrow> r = Panic"
  by (simp add: db_call_def map_err_eq_Panic)

lemma load_pending_call_not_Panic [simp]: "load_pending R now m \<noteq> Panic"
  by (simp add: load_pending_def)

lemma raw_transaction_not_Panic [simp]: "raw_transaction R v \<noteq> Panic"
  by (auto simp: raw_transaction_def ok_or_not_Panic split: option.splits sum.splits)

lemma stripped_blocks_not_Panic: "(\<And>b. \<not> isl (to_block (re_json R) b)) \<Longrightarrow> stripped_blocks R bs \<noteq> Panic"
  by (induction bs) (auto simp: and_then_eq_Panic)

lemma height_read:
  assumes "chain_reachable L W (rp_blockchain m)"
  obtains n where "height (rp_blockchain m) = Ok n"
  using chain_wf_head [OF chain_reachable_wf [OF assms]] by (auto simp: height_def)

lemma reads_answered:
  assumes "serde_total (re_json R)"
  shows "kai_get_balance R m params \<noteq> Panic" "kai_get_block_by_hash R m params \<noteq> Panic"
    "kai_get_transaction_by_hash R m params \<noteq> Panic" "kai_get_transaction_receipt R m params \<noteq> Panic"
  using assms
  by (auto simp: kai_get_balance_def kai_get_block_by_hash_def kai_get_transaction_by_hash_def
      kai_get_transaction_receipt_def and_then_eq_Panic serde_total_def value_or_null_not_Panic Let_def split: if_splits)

lemma pool_answered:
  assumes "serde_total (re_json R)"
  shows "kai_pending_transactions R now m params \<noteq> Panic" "kai_txpool_status R now m \<noteq> Panic"
    "kai_txpool_content R now m params \<noteq> Panic" "kai_txpool_inspect R now m \<noteq> Panic"
  using assms
  by (auto simp: kai_pending_transactions_def kai_txpool_status_def kai_txpool_content_def kai_txpool_inspect_def
      pool_content_def and_then_eq_Panic serde_total_def Let_def split: if_splits)

lemma metrics_answered:
  assumes "serde_total (re_json R)"
  shows "kai_metrics R m \<noteq> Panic" "kai_metrics_history R m params \<noteq> Panic" "kai_fork_history R now m params \<noteq> Panic"
  using assms
  by (auto simp: kai_metrics_def latest_metrics_def kai_metrics_history_def kai_fork_history_def and_then_eq_Panic
      serde_total_def value_or_null_not_Panic Let_def split: if_splits)

lemma ranges_answered:
  assumes "serde_total (re_json R)"
  shows "kai_get_block_range R m params \<noteq> Panic" "kai_get_transaction_range R m params \<noteq> Panic"
  using assms
  by (auto simp: kai_get_block_range_def kai_get_transaction_range_def and_then_eq_Panic serde_total_def
      stripped_blocks_not_Panic Let_def split: if_splits)

lemma send_raw_answered: "fst (kai_send_raw_transaction R now now' m params) \<noteq> Panic"
proof -
  have "fst (persist_transaction R now now' m tx) \<noteq> Panic" for tx
  proof -
    obtain stored d where st: "store_pending_transactions (re_storage R) now (rp_database m) [(tx, tx_gas_price tx)] = (stored, d)"
      by fastforce
    then have "stored \<noteq> Panic" by (metis fst_conv store_pending_not_Panic)
    then show ?thesis by (simp add: persist_transaction_def st and_then_eq_Panic Let_def)
  qed
  then show ?thesis
    by (auto simp: kai_send_raw_transaction_def db_try_Panic validate_basic_not_Panic split: outcome.splits)
qed

lemma by_height_answered:
  assumes "serde_total (re_json R)" and "chain_reachable L W (rp_blockchain m)"
  shows "kai_block_number m \<noteq> Panic" "kai_tps R m params \<noteq> Panic" "kai_get_block_by_number R now m params \<noteq> Panic"
proof -
  obtain n where n: "height (rp_blockchain m) = Ok n" by (rule height_read [OF assms(2)])
  then show "kai_block_number m \<noteq> Panic" "kai_tps R m params \<noteq> Panic"
    by (simp_all add: kai_block_number_def kai_tps_def Let_def)
  have "block_number_param m s \<noteq> Panic" for s by (simp add: block_number_param_def n ok_or_not_Panic)
  then show "kai_get_block_by_number R now m params \<noteq> Panic"
    using assms(1) pool_answered(2) [OF assms(1)]
    by (auto simp: kai_get_block_by_number_def and_then_eq_Panic serde_total_def Let_def split: if_splits option.splits)
qed

lemmas constants = kai_call_def kai_estimate_gas_def kai_gas_price_def kai_chain_id_def net_version_def net_peer_count_def
  net_listening_def web3_client_version_def utility_get_index_def utility_get_phase_def validator_get_info_def
  validator_list_def liquidity_get_pools_def liquidity_get_deployment_def kai_fork_choice_def

lemma if_answered: "fst x \<noteq> Panic \<Longrightarrow> fst y \<noteq> Panic \<Longrightarrow> fst (if b then x else y) \<noteq> Panic"
  by simp

lemma rpc_handle_answered:
  assumes "serde_total (re_json R)" and "chain_reachable L W (rp_blockchain m)"
  shows "fst (rpc_handle R now now' m name params) \<noteq> Panic"
  unfolding rpc_handle_def
  by (intro if_answered) (simp_all add: constants reads_answered [OF assms(1)] pool_answered [OF assms(1)] metrics_answered [OF assms(1)]
      ranges_answered [OF assms(1)] send_raw_answered by_height_answered [OF assms])

lemma if_kept: "(b \<Longrightarrow> snd x = m) \<Longrightarrow> snd y = m \<Longrightarrow> snd (if b then x else y) = m"
  by simp

lemma rpc_handle_reads:
  assumes "name \<noteq> ''kai_sendRawTransaction''"
  shows "snd (rpc_handle R now now' m name params) = m"
  unfolding rpc_handle_def by (intro if_kept) (rule snd_conv | erule notE [OF assms])+

lemma persist_database:
  "snd (persist_transaction R now now' m tx) =
     m\<lparr>rp_database := snd (store_pending_transactions (re_storage R) now (rp_database m) [(tx, tx_gas_price tx)])\<rparr>"
  by (simp add: persist_transaction_def Let_def split: prod.splits)

lemma send_raw_cases:
  obtains (refused) "snd (kai_send_raw_transaction R now now' m params) = m"
    "\<not> is_ok (fst (kai_send_raw_transaction R now now' m params))"
  | (accepted) v tx where "js_array (re_json R) params = Some v" "v \<noteq> []" "raw_transaction R (v ! 0) = Ok tx"
    "validate_basic tx = Ok ()" "kai_send_raw_transaction R now now' m params = persist_transaction R now now' m tx"
proof (cases "js_array (re_json R) params")
  case None
  then show ?thesis by (intro refused) (simp_all add: kai_send_raw_transaction_def params_array_def)
next
  case (Some v)
  show ?thesis
  proof (cases "v \<noteq> [] \<and> (\<exists>tx. raw_transaction R (v ! 0) = Ok tx \<and> validate_basic tx = Ok ())")
    case True
    then obtain tx where tx: "v \<noteq> []" "raw_transaction R (v ! 0) = Ok tx" "validate_basic tx = Ok ()" by blast
    show ?thesis by (rule accepted [OF Some tx]) (simp add: kai_send_raw_transaction_def params_array_def Some tx)
  next
    case False
    then show ?thesis
      by (intro refused) (cases "raw_transaction R (v ! 0)";
        auto simp: kai_send_raw_transaction_def params_array_def Some split: outcome.splits)+
  qed
qed

lemma rpc_handle_state:
  "rp_blockchain (snd (rpc_handle R now now' m name params)) = rp_blockchain m \<and>
   (rp_database (snd (rpc_handle R now now' m name params)) = rp_database m \<or>
    db_step (re_storage R) V (rp_database m) (rp_database (snd (rpc_handle R now now' m name params))))"
proof (cases "name = ''kai_sendRawTransaction''")
  case True
  then have h: "rpc_handle R now now' m name params = kai_send_raw_transaction R now now' m params"
    by (simp add: rpc_handle_def)
  show ?thesis
    by (cases rule: send_raw_cases [of R now now' m params]) (simp_all add: h persist_database step_pending)
qed (simp add: rpc_handle_reads)

lemma find_position_Some:
  "find_position P xs = Some i \<Longrightarrow> i < length xs \<and> P (xs ! i) \<and> (\<forall>j < i. \<not> P (xs ! j))"
proof (induction xs arbitrary: i)
  case (Cons x xs)
  show ?case
  proof (cases "P x")
    case False
    then obtain k where "find_position P xs = Some k" "i = Suc k" using Cons.prems by auto
    with Cons.IH [of k] False show ?thesis by (auto simp: less_Suc_eq_0_disj)
  qed (use Cons.prems in simp)
qed simp

lemma find_position_None: "find_position P xs = None \<longleftrightarrow> (\<forall>x \<in> set xs. \<not> P x)"
  by (induction xs) auto

text \<open>A stored transaction is among the loaded ones within the retention time.\<close>

lemma stored_is_loaded:
  assumes "env_ok E V" and "cfs_open E d" and "dc_enable_mempool_persistence (db_config d)"
    and "store_pending_transactions E now d [(tx, price)] = (Ok n, d')" and "healthy (se_rocks E) (db_handle d')"
    and "saturating_sub later now < dc_fork_history_retention_days (db_config d) * 86400"
  obtains pending where "load_pending_transactions E later d' = Ok pending" and "tx \<in> set pending"
proof -
  let ?age = "dc_fork_history_retention_days (db_config d) * 86400"
  obtain ops where p: "pending_batch E (cf_as_str CfPendingTransactions) (cf_as_str CfTransactionByAddress) now [(tx, price)] = Ok ops"
    and e: "db_effect E V ops d d'" using store_pending_Ok [OF assms(1-4)] by blast
  let ?m = "db_view V d' CfPendingTransactions" and ?k = "hash_as_bytes (db_tx_hash E tx)"
  obtain bs where bs: "length bs = 1" "deserialize (se_pending E) (bs ! 0) =
      Inr \<lparr>pm_transaction = tx, pm_gas_price = price, pm_added_timestamp = now\<rparr>"
    "?m = db_view V d CfPendingTransactions ++\<^sub>f fmap_of_list (zip [?k] bs)"
    using pending_batch_column [OF assms(1) p, of "db_view V d"] e by (auto simp: db_effect_def)
  then obtain v where v: "bs = [v]" by (metis One_nat_def length_0_conv length_Suc_conv)
  then have "fmlookup ?m ?k = Some v" using bs(3) by simp
  then have "(?k, v) \<in> set (btree_iter ?m)" using enumerates_lookup [OF enumerates_btree_iter, of ?m ?k v] by simp
  moreover have "(tx, price) \<in> set (fresh_entry E later ?age (?k, v))" using bs(2) v assms(6) by (simp add: fresh_entry_def)
  ultimately have "(tx, price) \<in> set (fresh_pending E later ?age (btree_iter ?m))"
    unfolding fresh_pending_concat set_concat set_map by blast
  moreover have "load_pending_transactions E later d' =
      Ok (map fst (sort_by_gas_price (fresh_pending E later ?age (btree_iter ?m))))"
    using e assms(2,3) by (simp add: load_pending_transactions_def db_iter_healthy [OF assms(1,5)] db_effect_def Let_def
        del: cf_as_str.simps)
  ultimately show ?thesis using that by (force simp: sort_by_gas_price_def)
qed

section \<open>An example\<close>

lemma show_hex_small: "show_hex 0 = ''0''" "show_hex (Suc 0) = ''1''"
  by code_simp+

definition demo_raw :: Transaction where
  "demo_raw = (transaction_new 9 1 0 (Stake 5) 7 21000)\<lparr>tx_signature := Some \<lparr>sig_scheme = Ed25519, sig_bytes = []\<rparr>\<rparr>"

lemma demo_raw_valid: "validate_basic demo_raw = Ok ()" "tx_gas_price demo_raw = 7"
  by (simp_all add: validate_basic_Ok demo_raw_def transaction_new_def type_payload_ok_def)

definition demo_serde :: serde_json where
  "demo_serde =
     \<lparr>js_array = (\<lambda>v. case v of JArray vs \<Rightarrow> Some vs | _ \<Rightarrow> None), js_strings = (\<lambda>v. None),
      js_transaction = (\<lambda>v. Some demo_raw), js_str = (\<lambda>v. case v of JString s \<Rightarrow> Some s | _ \<Rightarrow> None),
      js_u64 = (\<lambda>v. case v of JNumber (PosInt n) \<Rightarrow> Some n | _ \<Rightarrow> None),
      js_bool = (\<lambda>v. case v of JBool b \<Rightarrow> Some b | _ \<Rightarrow> None), js_is_null = (\<lambda>v. v = JNull),
      to_f64 = (\<lambda>x. JNumber (Float x)), to_block = (\<lambda>x. Inr JNull), to_blocks = (\<lambda>xs. Inr JNull),
      to_tx = (\<lambda>x. Inr JNull), to_txs = (\<lambda>xs. Inr JNull), to_receipt = (\<lambda>x. Inr JNull),
      to_metrics = (\<lambda>x. Inr JNull), to_snapshots = (\<lambda>xs. Inr JNull), to_events = (\<lambda>xs. Inr JNull),
      to_counts = (\<lambda>x. Inr JNull)\<rparr>"

lemma demo_serde_ok: "serde_ok demo_serde" "serde_total demo_serde"
  by (simp_all add: serde_ok_def serde_total_def demo_serde_def)

definition demo_rpc_env :: "contents rpc_env" where
  "demo_rpc_env =
     \<lparr>re_storage = demo_env [] [] [] [\<lparr>pm_transaction = demo_raw, pm_gas_price = 7, pm_added_timestamp = 100\<rparr>] [],
      re_json = demo_serde, re_hex = map (\<lambda>b. char_of (unat b)), re_unhex = (\<lambda>s. Inr (map (\<lambda>c. of_nat (of_char c)) s))\<rparr>"

lemma demo_rpc_env_simps:
  "re_json demo_rpc_env = demo_serde"
  "re_storage demo_rpc_env = demo_env [] [] [] [\<lparr>pm_transaction = demo_raw, pm_gas_price = 7, pm_added_timestamp = 100\<rparr>] []"
  by (simp_all add: demo_rpc_env_def)

definition demo_rpc_chain :: Blockchain where
  "demo_rpc_chain =
     (let g = block_genesis 0; h = block_hash demo_lib Block.demo_wire g
      in \<lparr>bc_blocks = fmupd h g fmempty, bc_block_by_number = fmupd 0 h fmempty, bc_head = h, bc_genesis = h,
          bc_state = ws_new\<lparr>accounts := fmupd 7 (account_with_balance (2 ^ 64 + 1)) fmempty\<rparr>, bc_receipts = fmempty\<rparr>)"

lemma demo_rpc_chain_reachable: "chain_reachable demo_lib Block.demo_wire (demo_rpc_chain\<lparr>bc_state := ws_new\<rparr>)"
proof (rule chain_reachable.created)
  show "blockchain_new demo_lib Block.demo_wire (block_genesis 0) = Ok (demo_rpc_chain\<lparr>bc_state := ws_new\<rparr>)"
    by (simp add: blockchain_new_def demo_rpc_chain_def is_genesis_def block_genesis_def Let_def)
qed

definition demo_rpc :: "contents RpcMethods" where
  "demo_rpc = rpc_methods_new (demo_rpc_chain\<lparr>bc_state := ws_new\<rparr>) demo_db"

lemma demo_rpc_simps: "rp_blockchain demo_rpc = demo_rpc_chain\<lparr>bc_state := ws_new\<rparr>" "rp_database demo_rpc = demo_db"
  by (simp_all add: demo_rpc_def rpc_methods_new_def)

section \<open>Properties\<close>

text \<open>C27. On a reachable chain every request gets a response of version 2.0 under its own id with either a result or an
  error, and never a panic. Answering leaves the chain alone; it changes the database only for \<open>kai_sendRawTransaction\<close>,
  and then by an operation that keeps the database's invariant.\<close>

theorem rpc_request_answered:
  assumes "serde_total (re_json R)" and "chain_reachable L W (rp_blockchain m)" and "process_request R now now' m req = (r, m')"
  shows "(\<exists>resp. r = Ok resp \<and> rs_jsonrpc resp = ''2.0'' \<and> rs_id resp = rq_id req \<and> (rs_result resp = None \<longleftrightarrow> rs_error resp \<noteq> None)) \<and>
    rp_blockchain m' = rp_blockchain m \<and>
    (rq_method req \<noteq> ''kai_sendRawTransaction'' \<longrightarrow> m' = m) \<and>
    (rp_database m' = rp_database m \<or> db_step (re_storage R) V (rp_database m) (rp_database m'))"
proof -
  let ?h = "rpc_handle R now now' m (rq_method req) (rq_params req)"
  have "m' = snd ?h" using assms(3) by (auto simp: process_request_def split: prod.splits outcome.splits)
  moreover have "fst ?h \<noteq> Panic" by (rule rpc_handle_answered [OF assms(1,2)])
  then have "\<exists>resp. r = Ok resp \<and> rs_jsonrpc resp = ''2.0'' \<and> rs_id resp = rq_id req \<and> (rs_result resp = None \<longleftrightarrow> rs_error resp \<noteq> None)"
    using assms(3) by (auto simp: process_request_def split: prod.splits outcome.splits)
  ultimately show ?thesis using rpc_handle_state [of R now now' m "rq_method req" "rq_params req" V] rpc_handle_reads by auto
qed

theorem rpc_request_answered_witness:
  "\<exists>resp. fst (process_request demo_rpc_env 100 100 demo_rpc
      \<lparr>rq_jsonrpc = ''2.0'', rq_method = ''kai_getBlockByNumber'', rq_params = JNull, rq_id = json_u64 3\<rparr>) = Ok resp \<and>
    rs_id resp = json_u64 3"
proof -
  let ?req = "\<lparr>rq_jsonrpc = ''2.0'', rq_method = ''kai_getBlockByNumber'', rq_params = JNull, rq_id = json_u64 3\<rparr>"
  have "serde_total (re_json demo_rpc_env)" "chain_reachable demo_lib Block.demo_wire (rp_blockchain demo_rpc)"
    by (simp_all add: demo_rpc_env_simps demo_serde_ok demo_rpc_simps demo_rpc_chain_reachable)
  from rpc_request_answered [OF this surjective_pairing, of 100 100 ?req] show ?thesis by auto
qed

text \<open>C29. The block number \<open>blockNumber\<close> prints is understood by \<open>kai_getBlockByNumber\<close>: passed back, it names the same block as
  \<open>latest\<close>. Any number survives the round trip through its hexadecimal form.\<close>

theorem block_number_roundtrip:
  assumes "serde_ok (re_json R)" and "fst (rpc_handle R now now' m ''blockNumber'' params) = Ok (JString s)"
  shows "rpc_handle R now now' m ''kai_getBlockByNumber'' (JArray [JString s]) =
      rpc_handle R now now' m ''kai_getBlockByNumber'' (JArray [JString ''latest'']) \<and>
    (\<forall>n. from_str_radix 16 (drop 2 (hex_u64 n)) = Some n)"
proof -
  obtain n where n: "chain_read (height (rp_blockchain m)) = Ok n" and s: "s = hex_u64 n"
    using assms(2) by (auto simp: rpc_handle_def kai_block_number_def and_then_eq_Ok)
  have "hex_u64 n \<noteq> ''latest''" by (simp add: hex_u64_def)
  then have "block_number_param m s = block_number_param m ''latest''"
    using from_str_radix_hex_u64 [of n] by (simp add: block_number_param_def n s)
  then show ?thesis using assms(1) from_str_radix_hex_u64
    by (simp add: rpc_handle_def kai_get_block_by_number_def params_array_def param_str_def serde_ok_def)
qed

theorem block_number_roundtrip_witness:
  "rpc_handle demo_rpc_env 100 100 demo_rpc ''kai_getBlockByNumber'' (JArray [JString ''0x0'']) =
     rpc_handle demo_rpc_env 100 100 demo_rpc ''kai_getBlockByNumber'' (JArray [JString ''latest''])"
proof -
  have "hex_u64 0 = ''0x0''" by (simp add: hex_u64_def show_hex_small)
  moreover have "height (rp_blockchain demo_rpc) = Ok 0"
    by (simp add: demo_rpc_simps demo_rpc_chain_def height_def head_block_def unwrap_def block_number_def block_genesis_def Let_def)
  ultimately have "fst (rpc_handle demo_rpc_env 100 100 demo_rpc ''blockNumber'' JNull) = Ok (JString ''0x0'')"
    by (simp add: rpc_handle_def kai_block_number_def)
  then show ?thesis using block_number_roundtrip [of demo_rpc_env 100 100 demo_rpc JNull "''0x0''"]
    by (simp add: demo_rpc_env_simps demo_serde_ok)
qed

text \<open>C30. \<open>kai_getBlockRange\<close> refuses a backward range and one of more than a hundred blocks, with one exception: the count of the
  range from 0 to the largest \<open>u64\<close> wraps to 0 and passes, so that one request makes the node walk all of \<open>2^64\<close> numbers.\<close>

theorem block_range_limit:
  assumes "serde_ok (re_json R)"
  shows "fst (rpc_handle R now now' m ''kai_getBlockRange'' (JArray [json_u64 a, json_u64 b])) =
    (if b < a then Err (InvalidParams ''end < start'')
     else if 100 \<le> unat b - unat a \<and> \<not> (a = 0 \<and> b = - 1) then Err (InvalidParams ''Range too large (max 100)'')
     else unwrap_value (to_blocks (re_json R) (get_block_range (rp_blockchain m) a b)))"
proof -
  have count: "100 < saturating_sub b a + 1 \<longleftrightarrow> 100 \<le> unat b - unat a \<and> \<not> (a = 0 \<and> b = - 1)" if "\<not> b < a"
  proof -
    have u: "unat (saturating_sub b a) = unat b - unat a" by (rule unat_saturating_sub)
    show ?thesis
    proof (cases "a = 0 \<and> b = - 1")
      case True
      then show ?thesis by (simp add: saturating_sub_def)
    next
      case False
      have "unat b < 2 ^ 64 - 1 \<or> 0 < unat a"
      proof (rule ccontr)
        assume "\<not> ?thesis"
        then have "unat b = 2 ^ 64 - 1" and a: "a = 0" using unat_less_u64 [of b] by (auto simp: unat_eq_0)
        then have "of_nat (unat b) = (of_nat (2 ^ 64 - 1) :: u64)" by simp
        then show False using False a by simp
      qed
      then have "unat (saturating_sub b a) + unat (1 :: u64) < 2 ^ 64" using unat_less_u64 [of b] u by auto
      then have "unat (saturating_sub b a + 1) = unat b - unat a + 1" using unat_add_u64 u by simp
      then show ?thesis using False by (auto simp: word_less_nat_alt)
    qed
  qed
  show ?thesis using assms count
    by (auto simp: rpc_handle_def kai_get_block_range_def params_array_def range_params_def param_u64_def serde_ok_def Let_def)
qed

theorem block_range_limit_witness:
  "fst (rpc_handle demo_rpc_env 100 100 demo_rpc ''kai_getBlockRange'' (JArray [json_u64 0, json_u64 (- 1)])) = Ok JNull \<and>
   fst (rpc_handle demo_rpc_env 100 100 demo_rpc ''kai_getBlockRange'' (JArray [json_u64 0, json_u64 100])) =
     Err (InvalidParams ''Range too large (max 100)'')"
proof -
  have "serde_ok (re_json demo_rpc_env)" by (simp add: demo_rpc_env_simps demo_serde_ok)
  note range = block_range_limit [OF this, of 100 100 demo_rpc 0]
  have "to_blocks (re_json demo_rpc_env) bs = Inr JNull" for bs by (simp add: demo_rpc_env_simps demo_serde_def)
  then show ?thesis unfolding range by simp
qed

text \<open>C28. What \<open>kai_sendRawTransaction\<close> accepts is a transaction that passes the basic checks; it is in the persisted pool afterwards,
  and the reported position is its place, from 1, in the list the pool methods show. A refused submission changes nothing.\<close>

theorem send_raw_transaction_correct:
  assumes "env_ok (re_storage R) V" and "cfs_open (re_storage R) (rp_database m)"
    and "dc_enable_mempool_persistence (db_config (rp_database m))" and "serde_ok (re_json R)"
    and "rpc_handle R now now' m ''kai_sendRawTransaction'' (JArray [v]) = (r, m')"
    and "healthy (se_rocks (re_storage R)) (db_handle (rp_database m'))"
    and "saturating_sub now' now < dc_fork_history_retention_days (db_config (rp_database m)) * 86400"
  shows "case r of
      Ok res \<Rightarrow> \<exists>tx pending p. raw_transaction R v = Ok tx \<and> validate_basic tx = Ok () \<and>
        load_pending_transactions (re_storage R) now' (rp_database m') = Ok pending \<and> tx \<in> set pending \<and>
        res = json_object [(''tx_hash'', JString (hash_to_hex (re_hex R) (db_tx_hash (re_storage R) tx))), (''position'', json_u64 (of_nat (p + 1)))] \<and>
        p < length pending \<and> db_tx_hash (re_storage R) (pending ! p) = db_tx_hash (re_storage R) tx \<and>
        (\<forall>q < p. db_tx_hash (re_storage R) (pending ! q) \<noteq> db_tx_hash (re_storage R) tx)
    | Err e \<Rightarrow> (\<forall>tx. raw_transaction R v = Ok tx \<longrightarrow> validate_basic tx \<noteq> Ok ()) \<longrightarrow> m' = m
    | Panic \<Rightarrow> False"
proof -
  have h: "kai_send_raw_transaction R now now' m (JArray [v]) = (r, m')" using assms(5) by (simp add: rpc_handle_def)
  have arr: "js_array (re_json R) (JArray [v]) = Some [v]" using assms(4) by (simp add: serde_ok_def)
  show ?thesis
  proof (cases rule: send_raw_cases [of R now now' m "JArray [v]"])
    case refused
    then show ?thesis using h send_raw_answered [of R now now' m "JArray [v]"] by (auto simp: is_ok_iff split: outcome.splits)
  next
    case (accepted w tx)
    then have tx: "raw_transaction R v = Ok tx" "validate_basic tx = Ok ()" using arr by auto
    let ?E = "re_storage R"
    obtain st d where st: "store_pending_transactions ?E now (rp_database m) [(tx, tx_gas_price tx)] = (st, d)" by fastforce
    have r: "persist_transaction R now now' m tx = (r, m')" using accepted(5) h by simp
    then have m': "m' = m\<lparr>rp_database := d\<rparr>" using persist_database [of R now now' m tx] st by simp
    show ?thesis
    proof (cases st)
      case (Ok n)
      obtain pending where l: "load_pending_transactions ?E now' d = Ok pending" "tx \<in> set pending"
        using stored_is_loaded [OF assms(1-3) st [unfolded Ok] _ assms(7)] assms(6) m' by auto
      let ?P = "\<lambda>t. db_tx_hash ?E t = db_tx_hash ?E tx"
      obtain p where p: "find_position ?P pending = Some p" using find_position_None [of ?P pending] l(2) by fastforce
      show ?thesis using r st Ok l tx find_position_Some [OF p]
        by (auto simp: persist_transaction_def load_pending_def db_call_def Let_def p m')
    next
      case (Err e)
      then show ?thesis using r st tx by (auto simp: persist_transaction_def db_call_def Let_def)
    next
      case Panic
      then show ?thesis using store_pending_not_Panic [of ?E now "rp_database m" "[(tx, tx_gas_price tx)]"] st by simp
    qed
  qed
qed

theorem send_raw_transaction_correct_witness:
  "\<exists>res m' pending. rpc_handle demo_rpc_env 100 100 demo_rpc ''kai_sendRawTransaction'' (JArray [JObject fmempty]) = (Ok res, m') \<and>
     load_pending_transactions (re_storage demo_rpc_env) 100 (rp_database m') = Ok pending \<and> demo_raw \<in> set pending"
proof -
  let ?E = "demo_env [] [] [] [\<lparr>pm_transaction = demo_raw, pm_gas_price = 7, pm_added_timestamp = 100\<rparr>] []"
  have env: "env_ok ?E (\<lambda>db. db)" by (rule demo_env_ok) simp_all
  have on: "dc_enable_mempool_persistence (db_config demo_db)"
    and days: "dc_fork_history_retention_days (db_config demo_db) = 30" by (simp_all add: demo_db_def database_config_default_def)
  have ser: "serialize (se_pending ?E) \<lparr>pm_transaction = demo_raw, pm_gas_price = 7, pm_added_timestamp = 100\<rparr> = Inr [0]"
    by (simp add: demo_env_def table_codec_def)
  obtain d where d: "store_pending_transactions ?E 100 demo_db [(demo_raw, 7)] = (Ok 1, d)"
    using on by (simp add: store_pending_transactions_def Let_def ser)
  obtain pending where l: "load_pending_transactions ?E 100 d = Ok pending"
    using stored_is_loaded [OF env demo_open on d demo_healthy, of 100] by (auto simp: days saturating_sub_def)
  have raw: "raw_transaction demo_rpc_env (JObject fmempty) = Ok demo_raw"
    by (simp add: raw_transaction_def demo_rpc_env_simps demo_serde_def)
  obtain res where h: "rpc_handle demo_rpc_env 100 100 demo_rpc ''kai_sendRawTransaction'' (JArray [JObject fmempty]) =
      (Ok res, demo_rpc\<lparr>rp_database := d\<rparr>)"
    using raw d l demo_serde_ok(1) demo_raw_valid
    by (simp add: rpc_handle_def kai_send_raw_transaction_def params_array_def demo_rpc_env_simps serde_ok_def
        persist_transaction_def load_pending_def db_call_def demo_rpc_simps Let_def)
  from send_raw_transaction_correct [where R = demo_rpc_env and m = demo_rpc and V = "\<lambda>db. db", OF _ _ _ _ h] show ?thesis
    using h raw on by (auto simp: env days demo_rpc_env_simps demo_serde_ok demo_rpc_simps saturating_sub_def)
qed

text \<open>\<open>kai_getBalance\<close> prints the lowest 64 bits of the balance: exact below \<open>2^64\<close> base units, about eighteen tokens, and
  otherwise the balance of a poorer account.\<close>

lemma balance_low_word:
  assumes "serde_ok (re_json R)" and "\<And>bytes. re_unhex R (re_hex R bytes) = Inr bytes"
  shows "rpc_handle R now now' m ''kai_getBalance'' (JArray [JString (address_to_hex (re_hex R) a), tag]) =
      (Ok (JString (''0x'' @ show_hex (ws_get_balance (bc_state (rp_blockchain m)) a mod 2 ^ 64))), m)"
proof -
  have "address_new (address_as_bytes a) = a" by (simp add: address_new_def address_as_bytes_def)
  then have "param_address R e (address_to_hex (re_hex R) a) = Ok a" for e
    using assms(2) by (simp add: param_address_def address_from_hex_def address_to_hex_def starts_with_def Let_def)
  then show ?thesis using assms(1)
    by (simp add: rpc_handle_def kai_get_balance_def params_array_def param_str_def serde_ok_def hex_u64_def low_u64_def
        unat_of_nat Let_def)
qed

lemma balance_low_word_witness:
  "ws_get_balance (bc_state demo_rpc_chain) 7 = 2 ^ 64 + 1 \<and>
   fst (rpc_handle demo_rpc_env 100 100 (demo_rpc\<lparr>rp_blockchain := demo_rpc_chain\<rparr>) ''kai_getBalance''
     (JArray [JString (address_to_hex (re_hex demo_rpc_env) 7), JString ''latest''])) = Ok (JString ''0x1'')"
proof -
  have "unat (b :: u8) < 256" for b using unsigned_less [of b, where 'a = nat] by simp
  then have "re_unhex demo_rpc_env (re_hex demo_rpc_env bytes) = Inr bytes" for bytes
    by (simp add: demo_rpc_env_def comp_def)
  moreover have "serde_ok (re_json demo_rpc_env)" by (simp add: demo_rpc_env_simps demo_serde_ok)
  moreover have b: "ws_get_balance (bc_state demo_rpc_chain) 7 = 2 ^ 64 + 1"
    by (simp add: demo_rpc_chain_def ws_get_balance_def account_with_balance_def Let_def)
  ultimately show ?thesis using balance_low_word [of demo_rpc_env 100 100 "demo_rpc\<lparr>rp_blockchain := demo_rpc_chain\<rparr>" 7 "JString ''latest''"]
    by (simp add: show_hex_small)
qed

end
