(* ===== verification/Node.thy ===== *)
theory Node
  imports Network Rpc_Properties Poas_Properties
begin

text \<open>
  \<open>config.rs\<close> and \<open>runtime.rs\<close> of the \<open>node\<close> crate: the configuration, the node that owns the chain, the engine, the
  database, the pool and the fork resolver, and its operations. An operation that runs to its end is a function of the whole
  node; the body of a background task's loop is one operation per tick. The clock is an argument.
\<close>

section \<open>Configuration\<close>

record NodeNetworkConfig =
  cn_listen_addr :: SocketAddr
  cn_max_peers :: nat
  cn_bootstrap_peers :: "string list"

record NodeRpcConfig =
  cr_enabled :: bool
  cr_listen_addr :: SocketAddr
  cr_cors_origins :: "string list"

record NodeConsensusConfig =
  ck_min_stake :: u64
  ck_block_time_seconds :: u64

record StorageConfig =
  cs_cache_size_mb :: nat
  cs_max_open_files :: int
  cs_pruning :: string
  cs_keep_blocks :: u64

record ValidatorConfig =
  cv_key_path :: string
  cv_commission_rate :: u16
  cv_auto_stake :: bool
  cv_initial_stake :: u64

record MemPoolConfig =
  cp_max_size :: nat
  cp_max_per_account :: nat
  cp_min_gas_price :: u64
  cp_max_age :: u64
  cp_enable_replacement :: bool
  cp_prune_interval_seconds :: u64

record ForkHandlingConfig =
  cf_fork_choice :: string
  cf_max_reorg_depth :: u64
  cf_enable_fork_alerts :: bool
  cf_alert_threshold_depth :: u64

record MetricsConfig =
  ct_window_size :: u64
  ct_enable_collection :: bool
  ct_snapshot_interval :: u64
  ct_export_prometheus :: bool
  ct_prometheus_port :: u16

record NodeConfig =
  co_data_dir :: string
  co_network :: NodeNetworkConfig
  co_rpc :: NodeRpcConfig
  co_consensus :: NodeConsensusConfig
  co_storage :: StorageConfig
  co_mempool :: MemPoolConfig
  co_fork_handling :: ForkHandlingConfig
  co_metrics :: MetricsConfig
  co_validator :: "ValidatorConfig option"

definition node_config_default :: NodeConfig where
  "node_config_default =
     \<lparr>co_data_dir = ''./data'',
      co_network = \<lparr>cn_listen_addr = SocketAddr [0, 0, 0, 0] 30303, cn_max_peers = 50, cn_bootstrap_peers = []\<rparr>,
      co_rpc = \<lparr>cr_enabled = True, cr_listen_addr = SocketAddr [127, 0, 0, 1] 8545, cr_cors_origins = [''*'']\<rparr>,
      co_consensus = \<lparr>ck_min_stake = 10000, ck_block_time_seconds = 3\<rparr>,
      co_storage = \<lparr>cs_cache_size_mb = 512, cs_max_open_files = 1024, cs_pruning = ''pruned'', cs_keep_blocks = 10000\<rparr>,
      co_mempool = \<lparr>cp_max_size = 10000, cp_max_per_account = 100, cp_min_gas_price = 1, cp_max_age = 3600,
        cp_enable_replacement = True, cp_prune_interval_seconds = 60\<rparr>,
      co_fork_handling = \<lparr>cf_fork_choice = ''LongestChain'', cf_max_reorg_depth = 100, cf_enable_fork_alerts = True,
        cf_alert_threshold_depth = 10\<rparr>,
      co_metrics = \<lparr>ct_window_size = 100, ct_enable_collection = True, ct_snapshot_interval = 10,
        ct_export_prometheus = False, ct_prometheus_port = 9090\<rparr>,
      co_validator = None\<rparr>"

section \<open>The node\<close>

text \<open>The errors \<open>anyhow\<close> wraps.\<close>

datatype node_error = FromStorage StorageError | FromBlockchain BlockchainError | Anyhow string

record 'db Node =
  nd_config :: NodeConfig
  nd_blockchain :: Blockchain
  nd_consensus :: PoASConsensus
  nd_database :: "'db Database"
  nd_mempool :: TransactionPool
  nd_fork_resolver :: ForkResolver
  nd_network :: "NetworkService option"
  nd_rpc :: "'db RpcServer option"

text \<open>The environment: that of the RPC methods, with storage, digest and bincode, the pool's iteration order, the
  \<open>Display\<close> form of a float and the number of processors.\<close>

record 'db node_env =
  nv_rpc :: "'db rpc_env"
  nv_iter :: pool_iter
  nv_show_f64 :: "f64 \<Rightarrow> string"
  nv_num_cpus :: int

abbreviation nv_storage :: "'db node_env \<Rightarrow> 'db storage_env" where
  "nv_storage N \<equiv> re_storage (nv_rpc N)"

abbreviation nv_lib :: "'db node_env \<Rightarrow> crypto_lib" where
  "nv_lib N \<equiv> se_lib (nv_storage N)"

abbreviation nv_wire :: "'db node_env \<Rightarrow> wire" where
  "nv_wire N \<equiv> se_wire (nv_storage N)"

definition parse_fork_choice :: "string \<Rightarrow> ForkChoice" where
  "parse_fork_choice s =
     (if s = ''HeaviestChain'' then HeaviestChain
      else if s = ''LatestJustified'' then LatestJustified
      else LongestChain)"

definition node_db_config :: "NodeConfig \<Rightarrow> DatabaseConfig" where
  "node_db_config config =
     (let pruning_mode = (if cs_pruning (co_storage config) = ''archive'' then Archive
                          else Pruned (cs_keep_blocks (co_storage config)))
      in database_config_default
           \<lparr>dc_path := co_data_dir config @ ''/db'',
            dc_cache_size := (cs_cache_size_mb (co_storage config) * 1024 * 1024) mod 2 ^ 64,
            dc_max_open_files := cs_max_open_files (co_storage config),
            dc_pruning_mode := pruning_mode,
            dc_enable_mempool_persistence := True,
            dc_fork_history_retention_days := 7,
            dc_metrics_snapshot_interval := ct_snapshot_interval (co_metrics config),
            dc_enable_metrics_compression := True\<rparr>)"

definition node_consensus_config :: "NodeConfig \<Rightarrow> ConsensusConfig" where
  "node_consensus_config config =
     consensus_config_default\<lparr>cc_min_stake := amount_from_u64 (ck_min_stake (co_consensus config)),
       cc_block_time := ck_block_time_seconds (co_consensus config)\<rparr>"

definition node_pool_config :: "NodeConfig \<Rightarrow> PoolConfig" where
  "node_pool_config config =
     (let m = co_mempool config
      in \<lparr>max_size = cp_max_size m, max_per_account = cp_max_per_account m, min_gas_price = cp_min_gas_price m,
          max_age = cp_max_age m, enable_replacement = cp_enable_replacement m\<rparr>)"

definition node_new :: "'db node_env \<Rightarrow> NodeConfig \<Rightarrow> ('db Node, node_error) outcome" where
  "node_new N config =
     and_then (map_err FromStorage (database_open (nv_storage N) (nv_num_cpus N) (node_db_config config))) (\<lambda>database.
     let genesis = block_genesis hash_zero in
     and_then (map_err FromBlockchain (blockchain_new (nv_lib N) (nv_wire N) genesis)) (\<lambda>blockchain.
     let consensus = poas_new (node_consensus_config config);
         mempool = pool_new (node_pool_config config);
         fork_choice = parse_fork_choice (cf_fork_choice (co_fork_handling config));
         fork_resolver = fork_resolver_new fork_choice (cf_max_reorg_depth (co_fork_handling config))
     in Ok \<lparr>nd_config = config, nd_blockchain = blockchain, nd_consensus = consensus, nd_database = database,
            nd_mempool = mempool, nd_fork_resolver = fork_resolver, nd_network = None, nd_rpc = None\<rparr>))"

text \<open>The RPC side of \<open>start\<close>: the server's configuration and the methods over the node's chain and database.\<close>

definition node_rpc_server :: "'db Node \<Rightarrow> 'db RpcServer" where
  "node_rpc_server n =
     rpc_server_new
       (rpc_config_default\<lparr>rf_listen_addr := cr_listen_addr (co_rpc (nd_config n)),
         rf_cors_origins := cr_cors_origins (co_rpc (nd_config n))\<rparr>)
       (rpc_methods_new (nd_blockchain n) (nd_database n))"

definition node_stop :: "'db node_env \<Rightarrow> 'db Node \<Rightarrow> (unit, node_error) outcome \<times> 'db Node" where
  "node_stop N n =
     (case db_compact (nv_storage N) (nd_database n) of
        (r, d) \<Rightarrow> (map_err FromStorage r, n\<lparr>nd_database := d\<rparr>))"

section \<open>Background tasks\<close>

definition prune_tick :: "'db node_env \<Rightarrow> Timestamp \<Rightarrow> 'db Node \<Rightarrow> 'db Node" where
  "prune_tick N now n = n\<lparr>nd_mempool := prune (nv_lib N) (nv_wire N) (nv_iter N) now (nd_mempool n)\<rparr>"

definition persist_tick :: "'db node_env \<Rightarrow> Timestamp \<Rightarrow> 'db Node \<Rightarrow> 'db Node" where
  "persist_tick N now n =
     (let pending = get_pending (nv_iter N) (nd_mempool n) (- 1) 10000;
          txs = map (\<lambda>tx. (tx, tx_gas_price tx)) pending
      in n\<lparr>nd_database := snd (store_pending_transactions (nv_storage N) now (nd_database n) txs)\<rparr>)"

text \<open>The metrics collector keeps the last block it looked at; it only reads and logs.\<close>

definition metrics_tick :: "'db Node \<Rightarrow> BlockNumber \<Rightarrow> (BlockNumber, node_error) outcome" where
  "metrics_tick n last_block =
     and_then (map_err FromBlockchain (height (nd_blockchain n))) (\<lambda>current_block.
       if last_block + ct_snapshot_interval (co_metrics (nd_config n)) < current_block then Ok current_block
       else Ok last_block)"

section \<open>Operations\<close>

text \<open>The second gas check of block production.\<close>

fun fit_gas :: "u64 \<Rightarrow> Transaction list \<Rightarrow> u64 \<Rightarrow> Transaction list \<Rightarrow> Transaction list" where
  "fit_gas limit [] total_gas valid_txs = valid_txs"
| "fit_gas limit (tx # txs) total_gas valid_txs =
     (let gas = tx_gas_limit tx in
      if total_gas + gas \<le> limit then fit_gas limit txs (total_gas + gas) (valid_txs @ [tx])
      else fit_gas limit txs total_gas valid_txs)"

definition node_produce_block :: "'db node_env \<Rightarrow> Timestamp \<Rightarrow> 'db Node \<Rightarrow> (Block, node_error) outcome" where
  "node_produce_block N now n =
     (let block_gas_limit = 8000000; max_tx_count = 1000;
          txs = get_pending (nv_iter N) (nd_mempool n) block_gas_limit max_tx_count;
          valid_txs = fit_gas block_gas_limit txs 0 []
      in and_then (map_err FromBlockchain (head_block (nd_blockchain n))) (\<lambda>parent.
         let next_number = block_number parent + 1;
             state_root = ws_state_root (nv_lib N) (enc_account (nv_wire N)) (bc_state (nd_blockchain n))
         in map_err FromBlockchain
              (block_new (nv_lib N) (nv_wire N) now next_number (block_hash (nv_lib N) (nv_wire N) parent) state_root
                 address_zero valid_txs block_gas_limit)))"

definition handle_incoming_block ::
    "'db node_env \<Rightarrow> Timestamp \<Rightarrow> 'db Node \<Rightarrow> Block \<Rightarrow> (bool, node_error) outcome \<times> 'db Node" where
  "handle_incoming_block N now n block =
     db_try (map_err FromBlockchain (head_block (nd_blockchain n))) n (\<lambda>head.
       let head_hash = block_hash (nv_lib N) (nv_wire N) head;
           is_fork = (bh_parent_hash (blk_header block) \<noteq> head_hash);
           reorg_depth = 1
       in (Ok (\<not> is_fork),
           if is_fork \<and> reorg_depth \<le> cf_max_reorg_depth (co_fork_handling (nd_config n))
           then n\<lparr>nd_database := snd (store_fork_event (nv_storage N) now (nd_database n) (block_number head) head_hash
                    head_hash (block_hash (nv_lib N) (nv_wire N) block) 0 1 (''fork_depth_'' @ show_u64 reorg_depth) reorg_depth)\<rparr>
           else n))"

definition get_current_metrics :: "'db node_env \<Rightarrow> 'db Node \<Rightarrow> (json, node_error) outcome" where
  "get_current_metrics N n =
     and_then (map_err FromStorage (get_latest_metrics (nv_storage N) (nd_database n))) (\<lambda>metrics.
       case metrics of
         Some snapshot \<Rightarrow>
           let J = re_json (nv_rpc N); m = sn_metrics snapshot in
           Ok (json_object [(''block_number'', json_u64 (sn_block_number snapshot)),
             (''timestamp'', json_u64 (sn_timestamp snapshot)), (''tps'', to_f64 J (cm_tps m)),
             (''avg_block_time'', to_f64 J (cm_avg_block_time m)),
             (''total_transactions'', json_u64 (cm_total_transactions m)),
             (''total_gas_used'', json_u64 (cm_total_gas_used m))])
       | None \<Rightarrow> Ok JNull)"

definition newline :: string where
  "newline = [char_of (10 :: nat)]"

definition prometheus_entry :: "string \<Rightarrow> string \<Rightarrow> string \<Rightarrow> string \<Rightarrow> string" where
  "prometheus_entry name help kind value =
     ''# HELP '' @ name @ '' '' @ help @ newline @ ''# TYPE '' @ name @ '' '' @ kind @ newline @
     name @ '' '' @ value @ newline"

definition export_metrics_prometheus :: "'db node_env \<Rightarrow> 'db Node \<Rightarrow> string" where
  "export_metrics_prometheus N n =
     (case get_latest_metrics (nv_storage N) (nd_database n) of
        Ok (Some snapshot) \<Rightarrow>
          let m = sn_metrics snapshot in
          prometheus_entry ''kai_tps'' ''Transactions per second'' ''gauge'' (nv_show_f64 N (cm_tps m)) @ newline @
          prometheus_entry ''kai_block_time'' ''Average block time in seconds'' ''gauge''
            (nv_show_f64 N (cm_avg_block_time m)) @ newline @
          prometheus_entry ''kai_gas_used'' ''Total gas used'' ''counter'' (show_u64 (cm_total_gas_used m))
      | _ \<Rightarrow> [])"

definition submit_transaction ::
    "'db node_env \<Rightarrow> Timestamp \<Rightarrow> 'db Node \<Rightarrow> Transaction \<Rightarrow> (json, node_error) outcome \<times> 'db Node" where
  "submit_transaction N now n tx =
     db_try (map_err FromBlockchain (validate_basic tx)) n (\<lambda>_.
       let sender_nonce = ws_get_nonce (bc_state (nd_blockchain n)) (tx_from tx) in
       if tx_nonce tx \<noteq> sender_nonce
       then (Err (Anyhow (''Invalid nonce: expected '' @ show_u64 sender_nonce @ '', got '' @ show_u64 (tx_nonce tx))), n)
       else case pool_add (nv_lib N) (nv_wire N) (nv_iter N) now (nd_mempool n) tx sender_nonce of
         (r, pool) \<Rightarrow>
           let n1 = n\<lparr>nd_mempool := pool\<rparr> in
           db_try (map_err FromBlockchain r) n1 (\<lambda>_.
             let position = pending_count (tp_metrics pool);
                 tx_hash = transaction_hash (nv_lib N) (enc_tx (nv_wire N)) tx
             in (Ok (json_object [(''tx_hash'', JString (hash_to_hex (re_hex (nv_rpc N)) tx_hash)),
                   (''position'', json_u64 (of_nat position))]), n1)))"

definition update_pool_config :: "'db Node \<Rightarrow> PoolConfig \<Rightarrow> (unit, node_error) outcome \<times> 'db Node" where
  "update_pool_config n config = (Ok (), n\<lparr>nd_mempool := pool_new config\<rparr>)"

definition update_fork_choice :: "'db Node \<Rightarrow> string \<Rightarrow> (unit, node_error) outcome \<times> 'db Node" where
  "update_fork_choice n strategy =
     (Ok (), n\<lparr>nd_fork_resolver := set_fork_choice (nd_fork_resolver n) (parse_fork_choice strategy)\<rparr>)"

end
