(* ===== verification/Node_Properties.thy ===== *)
theory Node_Properties
  imports Node
begin

text \<open>
  The node as the composition of its parts: whatever it does, its chain, pool and database stay as their own theories
  promise, transactions in its pool have passed validation, and so do the blocks it makes of them.
\<close>

section \<open>Validated transactions\<close>

definition pool_valid :: "TransactionPool \<Rightarrow> bool" where
  "pool_valid pool \<longleftrightarrow> (\<forall>h tx. fmlookup (tp_by_hash pool) h = Some tx \<longrightarrow> validate_basic tx = Ok ())"

lemma pool_valid_cong: "tp_by_hash p = tp_by_hash q \<Longrightarrow> pool_valid p = pool_valid q"
  by (simp add: pool_valid_def)

lemma pool_valid_remove: "pool_valid pool \<Longrightarrow> pool_valid (snd (pool_remove pool h))"
  by (cases "fmlookup (tp_by_hash pool) h") (auto simp: pool_remove_None pool_valid_def pool_remove_Some(3) split: if_splits)

lemma pool_valid_remove_all: "pool_valid pool \<Longrightarrow> pool_valid (remove_all hs pool)"
  unfolding remove_all_def by (induction hs arbitrary: pool) (auto intro: pool_valid_remove)

lemma promote_one_by_hash: "tp_by_hash (promote_one L W sn pool) = tp_by_hash pool"
proof (cases sn)
  case (Pair s n)
  then show ?thesis by (cases "lookup2 (tp_queued pool) s n") (simp_all add: promote_one_None promote_one_Some(2))
qed

lemma promote_by_hash: "tp_by_hash (fold (promote_one L W) sns pool) = tp_by_hash pool"
  by (induction sns arbitrary: pool) (simp_all add: promote_one_by_hash)

lemma pool_valid_admit:
  assumes "pool_valid pool" and "validate_basic tx = Ok ()"
  shows "pool_valid (snd (pool_admit L W now pool tx nonce))"
  by (cases rule: pool_admit_cases [of L W now pool tx nonce])
    (use assms in \<open>auto simp: pool_valid_def pool_insert_fields(2) split: if_splits\<close>)

lemma pool_valid_add: "pool_valid pool \<Longrightarrow> pool_valid (snd (pool_add L W I now pool tx nonce))"
proof -
  assume v: "pool_valid pool"
  have e: "pool_valid (snd (try_evict_lowest_gas I pool))"
    using v by (auto simp: try_evict_lowest_gas_def intro: pool_valid_remove split: list.splits)
  then show ?thesis using v
    by (auto simp: pool_add_def Let_def intro: pool_valid_admit split: outcome.splits prod.splits bool.splits)
qed

lemma pool_step_valid: "pool_step L W pool pool' \<Longrightarrow> pool_valid pool \<Longrightarrow> pool_valid pool'"
proof (induction rule: pool_step.induct)
  case (included I pool txs)
  then show ?case using pool_valid_remove_all
    by (simp add: remove_included_def promote_queued_def pool_valid_cong [OF promote_by_hash])
qed (simp_all add: pool_valid_add pool_valid_remove prune_def pool_valid_remove_all, simp add: pool_valid_def pool_clear_def)

lemma pool_reachable_valid: "pool_reachable L W pool \<Longrightarrow> pool_valid pool"
proof (induction rule: pool_reachable.induct)
  case (init config)
  then show ?case by (simp add: pool_valid_def pool_new_def)
qed (rule pool_step_valid)

section \<open>The node as a state machine\<close>

definition node_env_ok :: "'db node_env \<Rightarrow> ('db \<Rightarrow> contents) \<Rightarrow> bool" where
  "node_env_ok N V \<longleftrightarrow> env_ok (nv_storage N) V \<and> iter_ok (nv_iter N)"

text \<open>The node's own operations, the ticks of its tasks, RPC requests, and what other holders of its shared parts do.\<close>

inductive node_step :: "'db node_env \<Rightarrow> ('db \<Rightarrow> contents) \<Rightarrow> 'db Node \<Rightarrow> 'db Node \<Rightarrow> bool" for N V where
  step_prune: "node_step N V n (prune_tick N now n)"
| step_persist: "node_step N V n (persist_tick N now n)"
| step_incoming: "node_step N V n (snd (handle_incoming_block N now n block))"
| step_submit: "node_step N V n (snd (submit_transaction N now n tx))"
| step_pool_config: "node_step N V n (snd (update_pool_config n config))"
| step_fork_choice: "node_step N V n (snd (update_fork_choice n strategy))"
| step_stop: "node_step N V n (snd (node_stop N n))"
| step_rpc: "node_step N V n (n\<lparr>nd_database :=
    rp_database (snd (process_request (nv_rpc N) now now' (sv_methods (node_rpc_server n)) request))\<rparr>)"
| step_chain: "chain_step (nv_lib N) (nv_wire N) (nd_blockchain n) c \<Longrightarrow> node_step N V n (n\<lparr>nd_blockchain := c\<rparr>)"
| step_pool: "pool_step (nv_lib N) (nv_wire N) (nd_mempool n) pool \<Longrightarrow> node_step N V n (n\<lparr>nd_mempool := pool\<rparr>)"
| step_database: "db_step (nv_storage N) V (nd_database n) d \<Longrightarrow> node_step N V n (n\<lparr>nd_database := d\<rparr>)"

inductive_cases node_stepE: "node_step N V n n'"

definition node_ok :: "'db node_env \<Rightarrow> ('db \<Rightarrow> contents) \<Rightarrow> 'db Node \<Rightarrow> bool" where
  "node_ok N V n \<longleftrightarrow> chain_reachable (nv_lib N) (nv_wire N) (nd_blockchain n) \<and>
     pool_reachable (nv_lib N) (nv_wire N) (nd_mempool n) \<and> database_ok (nv_storage N) V (nd_database n)"

text \<open>A node just made over a database that held nothing.\<close>

definition node_init :: "'db node_env \<Rightarrow> ('db \<Rightarrow> contents) \<Rightarrow> 'db Node \<Rightarrow> bool" where
  "node_init N V n \<longleftrightarrow> (\<exists>config. node_new N config = Ok n) \<and> (\<forall>c. db_view V (nd_database n) c = fmempty)"

lemma node_init_ok:
  assumes "node_env_ok N V" and "node_init N V n"
  shows "node_ok N V n"
proof -
  obtain config where "node_new N config = Ok n" using assms(2) by (auto simp: node_init_def)
  then have "database_open (nv_storage N) (nv_num_cpus N) (node_db_config config) = Ok (nd_database n)"
    and "blockchain_new (nv_lib N) (nv_wire N) (block_genesis hash_zero) = Ok (nd_blockchain n)"
    and "nd_mempool n = pool_new (node_pool_config config)"
    by (auto simp: node_new_def and_then_eq_Ok map_err_eq_Ok Let_def)
  then show ?thesis using assms db_fresh_ok [of "nv_storage N" V "nd_database n"]
    by (auto simp: node_ok_def node_env_ok_def node_init_def db_fresh_def intro: chain_reachable.created pool_reachable.init)
qed

lemma node_ok_database:
  assumes "node_env_ok N V" and "node_ok N V n" and "nd_database n = d \<or> db_step (nv_storage N) V (nd_database n) d"
  shows "node_ok N V (n\<lparr>nd_database := d\<rparr>)"
  using assms db_step_ok [of "nv_storage N" V "nd_database n" d] by (auto simp: node_ok_def node_env_ok_def)

lemma node_ok_pool:
  assumes "node_ok N V n" and "pool_step (nv_lib N) (nv_wire N) (nd_mempool n) pool"
  shows "node_ok N V (n\<lparr>nd_mempool := pool\<rparr>)"
  using assms pool_reachable.step by (auto simp: node_ok_def)

lemma submit_ok:
  assumes "node_env_ok N V" and "node_ok N V n"
  shows "node_ok N V (snd (submit_transaction N now n tx))"
proof -
  let ?nonce = "ws_get_nonce (bc_state (nd_blockchain n)) (tx_from tx)"
  obtain r pool where add: "pool_add (nv_lib N) (nv_wire N) (nv_iter N) now (nd_mempool n) tx ?nonce = (r, pool)" by fastforce
  have "pool_step (nv_lib N) (nv_wire N) (nd_mempool n) pool"
    using pool_step.add [of "nv_iter N" "nv_lib N" "nv_wire N" "nd_mempool n" now tx ?nonce] assms(1) add by (simp add: node_env_ok_def)
  then have "node_ok N V (n\<lparr>nd_mempool := pool\<rparr>)" by (rule node_ok_pool [OF assms(2)])
  then show ?thesis using assms(2) add
    by (cases "validate_basic tx"; cases r) (simp_all add: submit_transaction_def Let_def)
qed

lemma incoming_ok:
  assumes "node_env_ok N V" and "node_ok N V n"
  shows "node_ok N V (snd (handle_incoming_block N now n block))"
  by (cases "head_block (nd_blockchain n)")
    (auto simp: handle_incoming_block_def Let_def assms(2) intro!: node_ok_database [OF assms] step_fork)

lemma rpc_ok:
  assumes "node_env_ok N V" and "node_ok N V n"
  shows "node_ok N V (n\<lparr>nd_database := rp_database (snd (process_request (nv_rpc N) now now' (sv_methods (node_rpc_server n)) request))\<rparr>)"
proof -
  let ?m = "sv_methods (node_rpc_server n)"
  have d: "rp_database ?m = nd_database n" by (simp add: node_rpc_server_def rpc_server_new_def rpc_methods_new_def)
  have "snd (process_request (nv_rpc N) now now' ?m request) =
      snd (rpc_handle (nv_rpc N) now now' ?m (rq_method request) (rq_params request))"
    by (auto simp: process_request_def split: prod.splits outcome.splits)
  then show ?thesis
    using rpc_handle_state [of "nv_rpc N" now now' ?m "rq_method request" "rq_params request" V] d
    by (intro node_ok_database [OF assms]) auto
qed

lemma node_step_ok:
  assumes "node_env_ok N V" and "node_step N V n n'" and "node_ok N V n"
  shows "node_ok N V n'"
  using assms(2)
proof (elim node_stepE)
  fix now assume "n' = prune_tick N now n"
  then show ?thesis using assms(1) by (auto simp: prune_tick_def node_env_ok_def intro: node_ok_pool [OF assms(3)] pool_step.prune)
next
  fix now assume "n' = persist_tick N now n"
  then show ?thesis by (auto simp: persist_tick_def Let_def intro: node_ok_database [OF assms(1,3)] step_pending)
next
  assume "n' = snd (node_stop N n)"
  moreover have "snd (node_stop N n) = n\<lparr>nd_database := snd (db_compact (nv_storage N) (nd_database n))\<rparr>"
    by (simp add: node_stop_def split: prod.splits)
  ultimately show ?thesis by (auto intro: node_ok_database [OF assms(1,3)] step_compact)
next
  fix c assume "n' = n\<lparr>nd_blockchain := c\<rparr>" "chain_step (nv_lib N) (nv_wire N) (nd_blockchain n) c"
  then show ?thesis using assms(3) chain_reachable.stepped by (auto simp: node_ok_def)
next
  fix pool assume "n' = n\<lparr>nd_mempool := pool\<rparr>" "pool_step (nv_lib N) (nv_wire N) (nd_mempool n) pool"
  then show ?thesis by (auto intro: node_ok_pool [OF assms(3)])
next
  fix config assume "n' = snd (update_pool_config n config)"
  then show ?thesis using assms(3) by (simp add: update_pool_config_def node_ok_def pool_reachable.init)
next
  fix strategy assume "n' = snd (update_fork_choice n strategy)"
  then show ?thesis using assms(3) by (simp add: update_fork_choice_def node_ok_def)
qed (auto intro: node_ok_database submit_ok incoming_ok rpc_ok assms(1,3))

interpretation node: invariant_machine "node_init N V" "node_step N V" "\<lambda>n. node_env_ok N V \<longrightarrow> node_ok N V n" for N V
  by unfold_locales (auto intro: node_init_ok node_step_ok)

section \<open>Block production\<close>

lemma fit_gas_all:
  "unat used + sum_list (map (\<lambda>tx. unat (tx_gas_limit tx)) txs) \<le> unat limit \<Longrightarrow> fit_gas limit txs used acc = acc @ txs"
proof (induction txs arbitrary: used acc)
  case (Cons tx txs)
  have "unat used + unat (tx_gas_limit tx) < 2 ^ 64" using Cons.prems unat_less_u64 [of limit] by simp
  then have u: "unat (used + tx_gas_limit tx) = unat used + unat (tx_gas_limit tx)" by (rule unat_add_u64)
  then have "used + tx_gas_limit tx \<le> limit" using Cons.prems by (simp add: word_le_nat_alt)
  then show ?case using Cons.IH [of "used + tx_gas_limit tx" "acc @ [tx]"] Cons.prems u by (simp add: Let_def)
qed simp

text \<open>What the node puts into a block.\<close>

definition selected :: "'db node_env \<Rightarrow> 'db Node \<Rightarrow> Transaction list" where
  "selected N n = get_pending (nv_iter N) (nd_mempool n) 8000000 1000"

text \<open>No gas limit in the pool is so large that adding it to the block's limit wraps.\<close>

definition sane_gas :: "'db node_env \<Rightarrow> 'db Node \<Rightarrow> bool" where
  "sane_gas N n \<longleftrightarrow> (\<forall>e \<in> set (pending_entries (nv_iter N) (nd_mempool n)).
     unat (8000000 :: u64) + unat (tx_gas_limit (pe_transaction e)) < 2 ^ 64)"

lemma selected_gas:
  assumes "sane_gas N n"
  shows "sum_list (map (\<lambda>tx. unat (tx_gas_limit tx)) (selected N n)) \<le> unat (8000000 :: u64)"
  unfolding selected_def get_pending_def
  by (rule get_pending_loop_gas) (use assms in \<open>simp_all add: sane_gas_def\<close>)

lemma selected_valid:
  assumes "pool_reachable (nv_lib N) (nv_wire N) (nd_mempool n)" and "iter_ok (nv_iter N)"
  shows "validate_txs (selected N n) = Ok ()"
proof -
  have inv: "index_ok (nv_lib N) (nv_wire N) (nd_mempool n)" using pool_reachable_inv [OF assms(1)] by (simp add: pool_inv_def)
  have "validate_basic tx = Ok ()" if "tx \<in> set (selected N n)" for tx
  proof -
    have sub: "subseq (selected N n) (map pe_transaction (pending_entries (nv_iter N) (nd_mempool n)))"
      unfolding selected_def by (metis get_pending_subseq)
    have "tx \<in> set (map pe_transaction (pending_entries (nv_iter N) (nd_mempool n)))"
      using list_emb_set [OF sub that] by blast
    then obtain e where "lookup2 (tp_pending (nd_mempool n)) (tx_gas_price tx) (hash_of (nv_lib N) (nv_wire N) tx) = Some e"
      and "pe_transaction e = tx" unfolding pending_tx [OF assms] by blast
    then show ?thesis using index_okD(4) [OF inv] pool_reachable_valid [OF assms(1)] unfolding pool_valid_def by metis
  qed
  then show ?thesis by (simp add: validate_txs_Ok)
qed

lemma produce_block_eq:
  assumes "sane_gas N n" and "head_block (nd_blockchain n) = Ok parent"
  shows "node_produce_block N now n = map_err FromBlockchain
    (block_new (nv_lib N) (nv_wire N) now (block_number parent + 1) (block_hash (nv_lib N) (nv_wire N) parent)
       (ws_state_root (nv_lib N) (enc_account (nv_wire N)) (bc_state (nd_blockchain n))) address_zero (selected N n) 8000000)"
proof -
  have "fit_gas 8000000 (selected N n) 0 [] = selected N n" using fit_gas_all [of 0 "selected N n" 8000000] selected_gas [OF assms(1)] by simp
  then show ?thesis using assms(2) by (simp add: node_produce_block_def Let_def selected_def)
qed

section \<open>An example\<close>

definition demo_node_env :: "contents node_env" where
  "demo_node_env = \<lparr>nv_rpc = demo_rpc_env, nv_iter = demo_iter, nv_show_f64 = (\<lambda>x. []), nv_num_cpus = 8\<rparr>"

lemma demo_node_env_ok: "node_env_ok demo_node_env (\<lambda>db. db)"
proof -
  have "env_ok (re_storage demo_rpc_env) (\<lambda>db. db)" unfolding demo_rpc_env_simps by (rule demo_env_ok) simp_all
  then show ?thesis by (simp add: node_env_ok_def demo_node_env_def demo_iter_ok)
qed

lemma demo_node:
  obtains n where "node_new demo_node_env node_config_default = Ok n" and "\<forall>c. db_view (\<lambda>db. db) (nd_database n) c = fmempty"
    and "head_block (nd_blockchain n) = Ok (block_genesis hash_zero)" and "bc_state (nd_blockchain n) = ws_new"
    and "nd_mempool n = pool_new (node_pool_config node_config_default)"
proof -
  have "cf_handle (se_rocks (re_storage demo_rpc_env)) h c" for h c by (simp add: demo_rpc_env_simps demo_env_def mem_rocksdb_def)
  then show ?thesis
    by (intro that)
      (auto simp: node_new_def database_open_def demo_node_env_def demo_rpc_env_simps demo_env_def mem_rocksdb_def db_view_def
        blockchain_new_def is_genesis_def block_genesis_def head_block_def unwrap_def Let_def)
qed

section \<open>Properties\<close>

text \<open>C24. Whatever a node does after it has been created over an empty database - its own operations, its background tasks, RPC
  requests, and changes to the parts it shares - its chain is well formed and has a head, its pool's indexes agree and
  hold validated transactions only, and every column of its database is consistent.\<close>

theorem node_reachable_invariant:
  assumes "node_env_ok N V" and "node_new N config = Ok n0" and "\<forall>c. db_view V (nd_database n0) c = fmempty"
    and "(node_step N V)\<^sup>*\<^sup>* n0 n"
  shows "chain_wf (nv_lib N) (nv_wire N) (nd_blockchain n) \<and> is_ok (head_block (nd_blockchain n)) \<and>
    pool_inv (nv_lib N) (nv_wire N) (nd_mempool n) \<and>
    (\<forall>h tx. pool_get (nd_mempool n) h = Some tx \<longrightarrow> validate_basic tx = Ok ()) \<and>
    database_ok (nv_storage N) V (nd_database n)"
proof -
  have "node_init N V n0" using assms(2,3) by (auto simp: node_init_def)
  then have "node_env_ok N V \<longrightarrow> node_ok N V n" using assms(4) by (rule node.reachable_inv)
  then have ok: "node_ok N V n" using assms(1) by blast
  then have "chain_wf (nv_lib N) (nv_wire N) (nd_blockchain n)" by (simp add: node_ok_def chain_reachable_wf)
  moreover from this have "is_ok (head_block (nd_blockchain n))" using chain_wf_head by (fastforce simp: is_ok_iff)
  moreover have "pool_valid (nd_mempool n)" "pool_inv (nv_lib N) (nv_wire N) (nd_mempool n)"
    using ok pool_reachable_valid pool_reachable_inv by (auto simp: node_ok_def)
  ultimately show ?thesis using ok by (auto simp: node_ok_def pool_valid_def pool_get_def)
qed

theorem node_reachable_invariant_witness:
  "\<exists>n0. node_new demo_node_env node_config_default = Ok n0 \<and>
     database_ok (nv_storage demo_node_env) (\<lambda>db. db) (nd_database (persist_tick demo_node_env 100 n0))"
proof -
  obtain n0 where n0: "node_new demo_node_env node_config_default = Ok n0"
    and v: "\<forall>c. db_view (\<lambda>db. db) (nd_database n0) c = fmempty" by (rule demo_node)
  have "(node_step demo_node_env (\<lambda>db. db))\<^sup>*\<^sup>* n0 (persist_tick demo_node_env 100 n0)" by (intro r_into_rtranclp step_persist)
  from node_reachable_invariant [OF demo_node_env_ok n0 v this] n0 show ?thesis by blast
qed

text \<open>C25. Block production by the node: it panics exactly when the number of selected transactions is neither zero nor a power of
  two. Otherwise it makes a block of exactly these transactions that the head accepts as its successor at any later time.
  The block carries the state root from before its transactions, so importing it with execution succeeds only if executing them
  leaves the root as it was.\<close>

theorem node_produce_block_correct:
  assumes "node_env_ok N V" and "node_ok N V n" and "sane_gas N n" and "head_block (nd_blockchain n) = Ok parent"
    and "bh_timestamp (blk_header parent) < now"
  shows "(node_produce_block N now n = Panic \<longleftrightarrow> selected N n \<noteq> [] \<and> (\<nexists>k. length (selected N n) = 2 ^ k)) \<and>
    (node_produce_block N now n \<noteq> Panic \<longrightarrow> (\<exists>b. node_produce_block N now n = Ok b \<and> blk_transactions b = selected N n \<and>
       block_validate (nv_lib N) (nv_wire N) b parent = Ok () \<and>
       (\<forall>c'. add_block_with_execution (nv_lib N) (nv_wire N) (nd_blockchain n) b = (Ok (), c') \<longrightarrow>
          (\<exists>c1. execute_transactions (nv_lib N) (nv_wire N) (nd_blockchain n) (selected N n) = (Ok (), c1) \<and>
             ws_state_root (nv_lib N) (enc_account (nv_wire N)) (bc_state c1) =
               ws_state_root (nv_lib N) (enc_account (nv_wire N)) (bc_state (nd_blockchain n))))))"
proof -
  let ?L = "nv_lib N" and ?W = "nv_wire N" and ?txs = "selected N n"
  let ?root = "ws_state_root ?L (enc_account ?W) (bc_state (nd_blockchain n))"
  let ?b = "block_new ?L ?W now (block_number parent + 1) (block_hash ?L ?W parent) ?root address_zero ?txs 8000000"
  have p: "node_produce_block N now n = map_err FromBlockchain ?b" by (rule produce_block_eq [OF assms(3,4)])
  show ?thesis
  proof (cases "?txs \<noteq> [] \<and> (\<nexists>k. length ?txs = 2 ^ k)")
    case True
    then have "merkle_root_of_txs ?L ?W ?txs = Panic" by (intro merkle_root_of_txs_Panic) auto
    then show ?thesis using True p by (simp add: block_new_def)
  next
    case False
    then have "\<exists>r. (if ?txs = [] then Ok hash_zero else merkle_root_of_txs ?L ?W ?txs) = Ok r"
      using merkle_root_of_txs_pow2 by auto
    then obtain b where b: "?b = Ok b" by (auto simp: block_new_def Let_def)
    then have f: "blk_transactions b = ?txs" "bh_state_root (blk_header b) = ?root"
      by (auto simp: block_new_def and_then_eq_Ok Let_def)
    have "pool_reachable ?L ?W (nd_mempool n)" "iter_ok (nv_iter N)" using assms(1,2) by (auto simp: node_ok_def node_env_ok_def)
    then have "block_validate ?L ?W b parent = Ok ()"
      using block_new_valid [OF b assms(5)] selected_valid total_gas_limit_nat [OF selected_gas [OF assms(3)]] by blast
    moreover have "\<exists>c1. execute_transactions ?L ?W (nd_blockchain n) ?txs = (Ok (), c1) \<and>
        ws_state_root ?L (enc_account ?W) (bc_state c1) = ?root"
      if "add_block_with_execution ?L ?W (nd_blockchain n) b = (Ok (), c')" for c'
      using that f by (auto simp: add_block_with_execution_def split: prod.splits outcome.splits if_splits)
    ultimately show ?thesis using False p b f by auto
  qed
qed

theorem node_produce_block_correct_witness:
  "\<exists>n b. node_new demo_node_env node_config_default = Ok n \<and> node_produce_block demo_node_env 5 n = Ok b \<and>
     block_validate (nv_lib demo_node_env) (nv_wire demo_node_env) b (block_genesis hash_zero) = Ok ()"
proof -
  obtain n where n: "node_new demo_node_env node_config_default = Ok n" and v: "\<forall>c. db_view (\<lambda>db. db) (nd_database n) c = fmempty"
    and h: "head_block (nd_blockchain n) = Ok (block_genesis hash_zero)" and p: "nd_mempool n = pool_new (node_pool_config node_config_default)"
    by (rule demo_node)
  have "node_init demo_node_env (\<lambda>db. db) n" using n v by (auto simp: node_init_def)
  then have ok: "node_ok demo_node_env (\<lambda>db. db) n" by (rule node_init_ok [OF demo_node_env_ok])
  have e: "pending_entries I (nd_mempool n) = []" for I by (simp add: p pool_new_def pending_entries_def)
  then have "sane_gas demo_node_env n" "selected demo_node_env n = []" by (simp_all add: sane_gas_def selected_def get_pending_def)
  moreover have "bh_timestamp (blk_header (block_genesis hash_zero)) < (5 :: u64)" by (simp add: block_genesis_def)
  ultimately show ?thesis using node_produce_block_correct [OF demo_node_env_ok ok _ h] n by fastforce
qed

lemma pool_add_cases:
  obtains (admitted) pool1 st where "pool_add L W I now pool tx nonce = (Ok (), pool_insert L W now pool1 tx st)"
    "validate_basic tx = Ok ()" "st = (if tx_nonce tx = nonce then Pending else Queued)"
  | (refused) e where "fst (pool_add L W I now pool tx nonce) = Err e"
    "\<forall>h t. pool_get (snd (pool_add L W I now pool tx nonce)) h = Some t \<longrightarrow> pool_get pool h = Some t"
proof (cases "validate_basic tx")
  case (Ok u)
  have removed: "\<forall>h t. pool_get (snd (pool_remove pool g)) h = Some t \<longrightarrow> pool_get pool h = Some t" for g
    by (cases "fmlookup (tp_by_hash pool) g") (auto simp: pool_remove_None pool_get_def pool_remove_Some(3) split: if_splits)
  have evicted: "\<forall>h t. pool_get (snd (try_evict_lowest_gas I pool)) h = Some t \<longrightarrow> pool_get pool h = Some t"
    using removed by (auto simp: try_evict_lowest_gas_def split: list.splits)
  have admit: thesis if p: "pool_add L W I now pool tx nonce = pool_admit L W now pool1 tx nonce"
    and sub: "\<forall>h t. pool_get pool1 h = Some t \<longrightarrow> pool_get pool h = Some t" for pool1
  proof (cases rule: pool_admit_cases [of L W now pool1 tx nonce])
    case 1
    obtain e where "fst (pool_admit L W now pool1 tx nonce) = Err e"
      using 1(2) by (auto simp: pool_admit_def split: if_splits)
    then show thesis using refused p sub 1(1) by simp
  next
    case (2 st)
    then show thesis using admitted p Ok by simp
  qed
  let ?h = "hash_of L W tx"
  consider "fmlookup (tp_by_hash pool) ?h \<noteq> None" | "fmlookup (tp_by_hash pool) ?h = None" "max_size (tp_config pool) \<le> fcard (fmdom (tp_by_hash pool))"
    | "fmlookup (tp_by_hash pool) ?h = None" "\<not> max_size (tp_config pool) \<le> fcard (fmdom (tp_by_hash pool))" by blast
  then show thesis
  proof cases
    case 1
    then show thesis using refused Ok by (simp add: pool_add_def)
  next
    case 2
    obtain b pool1 where e: "try_evict_lowest_gas I pool = (b, pool1)" by fastforce
    show thesis
    proof (cases b)
      case True
      then show thesis using admit [of pool1] evicted 2 Ok e by (simp add: pool_add_def)
    next
      case False
      then show thesis using refused [of BlockchainError.PoolFull] evicted 2 Ok e by (simp add: pool_add_def)
    qed
  next
    case 3
    then show thesis using admit [of pool] Ok by (simp add: pool_add_def)
  qed
next
  case (Err e)
  then show thesis using refused by (simp add: pool_add_def)
next
  case Panic
  then show thesis by (simp add: validate_basic_not_Panic)
qed

text \<open>C26. A submitted transaction is accepted only if it passes the basic checks and carries the account's current nonce; then it is
  pending in the pool and the reported position is the number of pending transactions. A refused one is an error, never a
  panic, and brings nothing into the pool. Neither touches the chain or the database.\<close>

theorem submit_transaction_correct:
  assumes "node_env_ok N V" and "node_ok N V n" and "submit_transaction N now n tx = (r, n')"
  shows "nd_blockchain n' = nd_blockchain n \<and> nd_database n' = nd_database n \<and>
    (case r of
       Ok v \<Rightarrow> validate_basic tx = Ok () \<and> tx_nonce tx = ws_get_nonce (bc_state (nd_blockchain n)) (tx_from tx) \<and>
         (\<exists>e. lookup2 (tp_pending (nd_mempool n')) (tx_gas_price tx) (transaction_hash (nv_lib N) (enc_tx (nv_wire N)) tx) = Some e \<and>
            pe_transaction e = tx) \<and>
         v = json_object [(''tx_hash'', JString (hash_to_hex (re_hex (nv_rpc N)) (transaction_hash (nv_lib N) (enc_tx (nv_wire N)) tx))),
           (''position'', json_u64 (of_nat (size2 (tp_pending (nd_mempool n')))))]
     | Err e \<Rightarrow> \<forall>h t. pool_get (nd_mempool n') h = Some t \<longrightarrow> pool_get (nd_mempool n) h = Some t
     | Panic \<Rightarrow> False)"
proof -
  let ?nonce = "ws_get_nonce (bc_state (nd_blockchain n)) (tx_from tx)"
  let ?add = "pool_add (nv_lib N) (nv_wire N) (nv_iter N) now (nd_mempool n) tx ?nonce"
  show ?thesis
  proof (cases "validate_basic tx = Ok () \<and> tx_nonce tx = ?nonce")
    case False
    then show ?thesis using assms(3) validate_basic_not_Panic [of tx]
      by (cases "validate_basic tx") (auto simp: submit_transaction_def Let_def split: if_splits)
  next
    case True
    show ?thesis
    proof (cases rule: pool_add_cases [of "nv_lib N" "nv_wire N" "nv_iter N" now "nd_mempool n" tx ?nonce])
      case (admitted pool1 st)
      then have n': "n' = n\<lparr>nd_mempool := snd ?add\<rparr>" using True assms(3) by (auto simp: submit_transaction_def Let_def)
      have "pool_reachable (nv_lib N) (nv_wire N) (nd_mempool n')"
        using submit_ok [OF assms(1,2), of now tx] assms(3) by (simp add: node_ok_def)
      then have "pending_count (tp_metrics (nd_mempool n')) = size2 (tp_pending (nd_mempool n'))"
        using pool_reachable_inv by (auto simp: pool_inv_def counts_ok_def)
      then show ?thesis using True assms(3) admitted n' by (auto simp: submit_transaction_def Let_def pool_insert_fields(4))
    next
      case (refused e)
      obtain pool where "?add = (Err e, pool)" using refused(1) by (cases ?add) auto
      then show ?thesis using True assms(3) refused(2) by (auto simp: submit_transaction_def Let_def)
    qed
  qed
qed

theorem submit_transaction_correct_witness:
  "\<exists>n v n'. node_new demo_node_env node_config_default = Ok n \<and> submit_transaction demo_node_env 100 n demo_raw = (Ok v, n') \<and>
     (\<exists>p h e. lookup2 (tp_pending (nd_mempool n')) p h = Some e \<and> pe_transaction e = demo_raw)"
proof -
  obtain n where n: "node_new demo_node_env node_config_default = Ok n" and v: "\<forall>c. db_view (\<lambda>db. db) (nd_database n) c = fmempty"
    and st: "bc_state (nd_blockchain n) = ws_new" and p: "nd_mempool n = pool_new (node_pool_config node_config_default)"
    by (rule demo_node)
  have "node_init demo_node_env (\<lambda>db. db) n" using n v by (auto simp: node_init_def)
  then have ok: "node_ok demo_node_env (\<lambda>db. db) n" by (rule node_init_ok [OF demo_node_env_ok])
  have "tx_nonce demo_raw = 0" "ws_get_nonce ws_new a = 0" for a
    by (simp_all add: demo_raw_def transaction_new_def ws_get_nonce_def ws_new_def)
  then have "is_ok (fst (submit_transaction demo_node_env 100 n demo_raw))"
    by (simp add: submit_transaction_def st p demo_raw_valid pool_add_def pool_admit_def pool_new_def node_pool_config_def
        node_config_default_def fcard.rep_eq Let_def)
  then obtain w n' where s: "submit_transaction demo_node_env 100 n demo_raw = (Ok w, n')"
    by (cases "submit_transaction demo_node_env 100 n demo_raw") (auto simp: is_ok_iff)
  from submit_transaction_correct [OF demo_node_env_ok ok s] s n show ?thesis by auto
qed

text \<open>The answer to an incoming block says whether it extends the head. The block is imported in neither case: the chain
  stays as it is, and all that a fork leaves is a record in the database, unless reorganisations are switched off.\<close>

lemma incoming_block_not_imported:
  assumes "head_block (nd_blockchain n) = Ok head" and "handle_incoming_block N now n block = (r, n')"
  shows "r = Ok (bh_parent_hash (blk_header block) = block_hash (nv_lib N) (nv_wire N) head) \<and>
    nd_blockchain n' = nd_blockchain n \<and> nd_mempool n' = nd_mempool n \<and>
    (bh_parent_hash (blk_header block) = block_hash (nv_lib N) (nv_wire N) head \<or>
       cf_max_reorg_depth (co_fork_handling (nd_config n)) = 0 \<longrightarrow> n' = n)"
proof -
  have "\<not> (1 :: u64) \<le> 0" by simp
  then show ?thesis using assms by (auto simp: handle_incoming_block_def Let_def)
qed

end
