(* ===== verification/Spec2Isabelle.thy ===== *)
theory Spec2Isabelle
  imports Chain_Import Fork Mempool_Properties Lru_Cache Database_Queries Vm Poas_Properties Minting Burning Rewards Amm Treasury Deployment Network Node_Properties
begin

text \<open>
  A verification of the KaiNet blockchain, a Rust workspace of crates under \<open>src/crates\<close>.

  \<^bold>\<open>The program.\<close> A node keeps a chain of blocks and an account state (\<open>blockchain-core\<close>), on hashes,
  signatures and Merkle trees (\<open>blockchain-crypto\<close>). Transactions wait in a pool, a proposer chosen by
  a stake-weighted consensus (\<open>consensus\<close>) puts them into a block, and importing the block executes
  them on the state; contract calls go to an EVM-like executor (\<open>smart-contracts\<close>). The tokens are
  minted, burned and paid out by \<open>tokenomics\<close>; validators' stakes are put to work in the pools of
  \<open>liquidity\<close>; blocks, transactions and accounts are kept in a database and read through caches (\<open>storage\<close>). Peers exchange
  transactions (\<open>networking\<close>), clients call a JSON interface (\<open>rpc\<close>), and \<open>node\<close> puts the parts together.

  \<^bold>\<open>Conventions.\<close> A Rust \<open>Result\<close> is the type \<open>outcome\<close> of \<open>Prelude\<close>: \<open>Ok\<close>, \<open>Err\<close>, or \<open>Panic\<close> where
  the code would panic (an index out of range, an \<open>unwrap\<close> on nothing, division by zero). An
  operation on \<open>&mut self\<close> takes the record and returns it with the result, so a failure keeps
  whatever had been changed before it. \<open>u64\<close>, \<open>u32\<close> and \<open>u16\<close> are words of their width and wrap, as
  in a release build; \<open>Amount\<close> wraps an unbounded \<open>BigUint\<close> and is \<open>nat\<close>. A hash map is a finite map;
  where the code iterates over one, the iteration order is an argument, and so are the clock, the
  random generator and callbacks. Logging has no counterpart.

  \<^bold>\<open>Parameters.\<close> \<open>crypto_lib\<close> (SHA-256, Keccak, Ed25519, secp256k1), \<open>wire\<close> (bincode), the hex
  printer, \<open>rocksdb\<close> and \<open>codec\<close> (the store and bincode at one type), \<open>serde_json\<close>, \<open>libm_exp\<close>, \<open>show_f64\<close>, \<open>gen_range\<close> and the persistence callback stand for third-party code.
  What a theorem needs of them is a named hypothesis (\<open>gen_range_ok\<close>: a drawn number is below its
  bound; \<open>rocksdb_ok\<close>, \<open>codec_ok\<close>, \<open>healthy\<close>: a successful call acts on a sorted map, a failed write changes
  nothing, what was serialised is read back, reads meet no medium error; \<open>serde_ok\<close>, \<open>serde_total\<close>: a JSON value is read back as it was built, and printing succeeds; \<open>exp_unit\<close> and \<open>exp_nonneg\<close>: the range of the exponential; and the sign-then-verify law of the
  signature schemes), and its witness gives a concrete instance.

  \<^bold>\<open>The theories.\<close>
  \<^item> \<open>Prelude\<close>: outcomes, amounts, words, finite maps with sums over their values.
  \<^item> \<open>F64\<close>: IEEE binary64 as exact rationals rounded to nearest even at every operation, with the
    infinities and NaN; the bounds under which a rounded computation equals the exact one.
  \<^item> \<open>Interfaces\<close>: the locales, below.
  \<^item> \<open>Crypto\<close> (\<open>hash.rs\<close>, \<open>keypair.rs\<close>, \<open>signature.rs\<close>) and \<open>Merkle\<close> (\<open>merkle.rs\<close>): the flat-array tree
    is proved equal to the recursive root, its proofs complete, and sound up to a hash collision.
  \<^item> \<open>Transaction\<close>, \<open>World_State\<close>, \<open>Block\<close> (\<open>transaction.rs\<close>, \<open>types.rs\<close>, \<open>state.rs\<close>, \<open>block.rs\<close>): signing,
    validation, the account journal with checkpoints, the state root.
  \<^item> \<open>Chain\<close>, \<open>Chain_Execution\<close>, \<open>Chain_Import\<close> (\<open>chain.rs\<close>): execution refines an abstract account
    ledger, and the block store is well formed in every reachable chain.
  \<^item> \<open>Fork\<close> (\<open>fork.rs\<close>): fork choice, the common ancestor and the reorganisation path.
  \<^item> \<open>Mempool\<close>, \<open>Mempool_Invariant\<close>, \<open>Mempool_Properties\<close> (\<open>mempool.rs\<close>): the indexes of the pool agree
    in every reachable state; what is offered for a block.
  \<^item> \<open>Lru_Cache\<close> (\<open>cache.rs\<close>): the cache refines a list of entries by recency.
  \<^item> \<open>Kv_Store\<close>: what RocksDB and bincode document, and the order of big-endian keys.
  \<^item> \<open>Metrics\<close> (\<open>metrics.rs\<close>): statistics of a window of recent blocks.
  \<^item> \<open>Database\<close>, \<open>Database_Properties\<close>, \<open>Database_Queries\<close> (\<open>db.rs\<close>): the persistent store on RocksDB. The
    invariant of the column families in every reachable database, failed writes included; round trips of
    blocks and pending transactions; the order of the fork history; compaction and pruning.
  \<^item> \<open>Peer\<close> (\<open>peer.rs\<close>, \<open>sync.rs\<close>, \<open>gossip.rs\<close>) and \<open>Network\<close> (\<open>protocol.rs\<close>, \<open>p2p.rs\<close>): the peers of a node, their
    reputation and limits, and the message handlers with their outboxes. Every request for the pool is answered
    in every reachable service, and a transaction is forwarded once.
  \<^item> \<open>Rpc\<close>, \<open>Rpc_Properties\<close> (the files of \<open>rpc\<close>): every method of the JSON interface, the dispatch and the processing of a
    request. Each request is answered, and only a submission changes the database.
  \<^item> \<open>Node\<close>, \<open>Node_Properties\<close> (\<open>config.rs\<close>, \<open>runtime.rs\<close>): the node over all of these, its operations and the ticks of its
    background tasks. Its parts keep their invariants together; what it submits and produces is valid.
  \<^item> \<open>Gas\<close>, \<open>Evm_State\<close>, \<open>Precompiles\<close>, \<open>Vm\<close> (\<open>gas.rs\<close>, \<open>state.rs\<close>, \<open>precompiles.rs\<close>, \<open>vm.rs\<close>): metering (exact
    until the 64-bit sum wraps), deployments, calls, and gas estimates.
  \<^item> \<open>Validator\<close>, \<open>Slashing\<close>, \<open>Selection\<close> (\<open>validator.rs\<close>, \<open>slashing.rs\<close>, \<open>selection.rs\<close>): the validator set,
    penalties that keep every token accounted for, proportional choice of proposers, committees.
  \<^item> \<open>Poas\<close>, \<open>Poas_Properties\<close> (\<open>poas.rs\<close>): the consensus engine; the invariant of its reachable states,
    conservation of stake, justified checkpoints that are never reverted.
  \<^item> \<open>Utility_Index\<close>, \<open>Phase_Manager\<close>, \<open>Minting\<close>, \<open>Burning\<close>, \<open>Rewards\<close> (the files of \<open>tokenomics\<close>): rates and
    their ranges, the totals of burns, the distribution of rewards.
  \<^item> \<open>Liquidity_Pool\<close> (\<open>pool.rs\<close>): deposits and withdrawals; the books balance in every reachable pool and
    every unlocked withdrawal is paid.
  \<^item> \<open>Amm\<close> (\<open>amm.rs\<close>): the market maker; its swaps keep the product of the reserves despite rounding,
    within the stated bounds, and can lose it outside them.
  \<^item> \<open>Lending\<close> (\<open>lending.rs\<close>): the interest model and loans; solvency, and repayments that settle exactly.
  \<^item> \<open>Treasury\<close> (\<open>treasury.rs\<close>): budgets and grants; grants are paid milestone by milestone, never in excess.
  \<^item> \<open>Risk\<close>, \<open>Deployment\<close> (\<open>risk.rs\<close>, \<open>deployment.rs\<close>): scores and allocations, the choice of the best pool, and
    the manager that spreads a validator's liquidity.

  \<^bold>\<open>Interfaces.\<close> \<open>journalled_store\<close> (a store whose rollback undoes what happened since a checkpoint) is
  interpreted on the world state, \<open>token_ledger\<close> (operations that keep a sum of tokens) on the world
  state and on the EVM balances, \<open>bounded_cache\<close> on the block and transaction caches. \<open>invariant_machine\<close>
  (an initial state, a step relation and an invariant kept by every step) and \<open>monotone_machine\<close> (a
  measure that no step lowers) are interpreted on slashing, minting, burning, the engine, the database, the peer manager, the network service, the node and each of the
  stateful components of \<open>liquidity\<close>, and give the theorems about reachable states.

  \<^bold>\<open>Loops and bounds.\<close> Loops over lists are structural recursion. The ancestor search and the path
  walks of \<open>fork.rs\<close> follow hashes and may not end on an arbitrary store: they are partial functions
  into \<open>option\<close>, and they are proved to return on every reachable store. Where floating point meets
  amounts the theorems carry the bound up to which the result is exact: stakes below \<open>2^37\<close> for
  penalties, fees below \<open>2^38\<close> for burns, amounts below \<open>2^38\<close> for shares of an allocation, products below
  \<open>2^51\<close> for swaps, and \<open>2^53\<close> for integers that have to be representable.

  \<^bold>\<open>Not modelled.\<close> The command line (\<open>main.rs\<close>), the configuration file in TOML, binding the RPC server's socket, and
  spawning the node's tasks on tokio. A handler or a tick is one step that runs to its end, and a run is a sequence of
  steps; two handlers suspended between their locks at the same time are not modelled. Key generation reads an OS random source.
\<close>

end
